(* ===== verification/Prelude.thy ===== *)
theory Prelude
  imports Complex_Main "HOL-Library.AList" "HOL-Library.Multiset" "HOL-Library.Word"
    "HOL-Library.List_Lexorder" "HOL-Library.Product_Lexorder" "HOL-Library.Option_ord"
begin

text \<open>
  The vocabulary shared by every component: Rust results and the \<open>?\<close> operator, Rust strings
  as lists of Unicode scalar values, \<open>f64\<close> fractions, \<open>HashMap\<close> as an association list
  with distinct keys (its order is the unspecified iteration order of the program), comparator
  chains (\<open>cmp(..).then_with(..)\<close>) and the stable sort they drive, and the hint collections
  the component theories add to.
\<close>

named_theorems comparator_intros
named_theorems table_simps

subsection \<open>Results\<close>

definition and_then :: "'e + 'a \<Rightarrow> ('a \<Rightarrow> 'e + 'b) \<Rightarrow> 'e + 'b" where
  "and_then r f = (case r of Inl e \<Rightarrow> Inl e | Inr a \<Rightarrow> f a)"

definition ensure :: "bool \<Rightarrow> 'e \<Rightarrow> 'e + unit" where
  "ensure c e = (if c then Inr () else Inl e)"

fun checks :: "('e + unit) list \<Rightarrow> 'e + unit" where
  "checks [] = Inr ()"
| "checks (c # cs) = (case c of Inl e \<Rightarrow> Inl e | Inr _ \<Rightarrow> checks cs)"

definition check_each :: "('a \<Rightarrow> 'e + unit) \<Rightarrow> 'a list \<Rightarrow> 'e + unit" where
  "check_each f xs = checks (map f xs)"

definition is_ok :: "'e + 'a \<Rightarrow> bool" where
  "is_ok r = (case r of Inl _ \<Rightarrow> False | Inr _ \<Rightarrow> True)"

lemma and_then_simps [simp]:
  "and_then (Inl e) f = Inl e" "and_then (Inr a) f = f a"
  by (simp_all add: and_then_def)

lemma and_then_eq_Inr: "and_then r f = Inr b \<longleftrightarrow> (\<exists>a. r = Inr a \<and> f a = Inr b)"
  by (cases r) auto

lemma and_then_eq_Inl:
  "and_then r f = Inl e \<longleftrightarrow> r = Inl e \<or> (\<exists>a. r = Inr a \<and> f a = Inl e)"
  by (cases r) auto

lemma and_then_unit: "and_then r f = (if r = Inr () then f () else Inl (projl r))"
  by (cases r) auto

lemma ensure_eq [simp]: "ensure c e = Inr u \<longleftrightarrow> c" "ensure c e = Inl d \<longleftrightarrow> \<not> c \<and> d = e"
  by (auto simp: ensure_def)

lemma ensure_simps [simp]: "ensure True e = Inr ()" "ensure False e = Inl e"
  by (simp_all add: ensure_def)

lemma is_ok_simps [simp]: "is_ok (Inr a)" "\<not> is_ok (Inl e)"
  by (simp_all add: is_ok_def)

lemma is_ok_iff: "is_ok r \<longleftrightarrow> (\<exists>a. r = Inr a)"
  by (cases r) auto

lemma is_ok_unit: "is_ok (r :: 'e + unit) \<longleftrightarrow> r = Inr ()"
  by (cases r) auto

lemma checks_ok: "checks cs = Inr u \<longleftrightarrow> (\<forall>c \<in> set cs. c = Inr ())"
  by (induction cs) (auto split: sum.splits)

lemma check_each_ok: "check_each f xs = Inr u \<longleftrightarrow> (\<forall>x \<in> set xs. f x = Inr ())"
  by (auto simp: check_each_def checks_ok)

lemma check_each_Inl: "check_each f xs = Inl e \<Longrightarrow> \<exists>x \<in> set xs. f x = Inl e"
  by (induction xs) (auto simp: check_each_def split: sum.splits)

lemma checks_Cons [simp]:
  "checks (Inl e # cs) = Inl e" "checks (Inr x # cs) = checks cs"
  "checks (c # cs) = Inr u \<longleftrightarrow> c = Inr () \<and> checks cs = Inr ()"
  "checks (c # cs) = Inl d \<longleftrightarrow> c = Inl d \<or> c = Inr () \<and> checks cs = Inl d"
  by (auto split: sum.splits)

declare checks.simps(2) [simp del]

lemma checks_append: "checks (cs @ ds) = and_then (checks cs) (\<lambda>_. checks ds)"
  by (induction cs) (auto simp: checks.simps split: sum.splits)

subsection \<open>Machine integers\<close>

type_synonym u32 = "32 word"
type_synonym u64 = "64 word"

definition saturating_add :: "'n::len word \<Rightarrow> 'n word \<Rightarrow> 'n word" where
  "saturating_add a b = (if unat a + unat b < 2 ^ LENGTH('n) then a + b else - 1)"

definition saturating_sub :: "'n::len word \<Rightarrow> 'n word \<Rightarrow> 'n word" where
  "saturating_sub a b = (if b \<le> a then a - b else 0)"

definition u32_try_from_nat :: "nat \<Rightarrow> u32 option" where
  "u32_try_from_nat n = (if n < 2 ^ 32 then Some (of_nat n) else None)"

definition u32_try_from_int :: "int \<Rightarrow> u32 option" where
  "u32_try_from_int i = (if 0 \<le> i \<and> i < 2 ^ 32 then Some (of_int i) else None)"

lemma unat_saturating_add:
  "unat (saturating_add a (b :: 'n::len word)) = min (2 ^ LENGTH('n) - 1) (unat a + unat b)"
proof (cases "unat a + unat b < 2 ^ LENGTH('n)")
  case True
  then show ?thesis
    by (simp add: saturating_add_def unat_word_ariths)
next
  case False
  then show ?thesis
    by (simp add: saturating_add_def unat_word_ariths(1) unsigned_minus_1_eq_mask mask_eq_exp_minus_1)
qed

lemma unat_saturating_sub: "unat (saturating_sub a b) = unat a - unat b"
  by (simp add: saturating_sub_def unat_sub word_le_nat_alt)

lemma unat_min_word: "unat (min a b) = min (unat a) (unat (b :: 'n::len word))"
  by (simp add: min_def word_le_nat_alt)

lemma u32_try_from_nat_Some: "u32_try_from_nat n = Some w \<Longrightarrow> unat w = n"
  by (auto simp: u32_try_from_nat_def unat_of_nat split: if_splits)

lemma unat_of_nat_u32: "n < 2 ^ 32 \<Longrightarrow> unat (of_nat n :: u32) = n"
  by (simp add: unat_of_nat)

lemma unat_succ_u32: "unat (w :: u32) + 1 < 2 ^ 32 \<Longrightarrow> unat (w + 1) = unat w + 1"
  by (simp add: unat_word_ariths)

subsection \<open>Rust strings\<close>

text \<open>
  A Rust \<open>String\<close> is modelled as the list of its Unicode scalar values; \<open>lit\<close> gives the
  value of an ASCII literal. Byte lengths and the byte order of \<open>str::cmp\<close> are those of UTF-8
  (which orders strings as their scalar values do). \<open>trim\<close> removes the characters with the
  Unicode property \<open>White_Space\<close>.
\<close>

type_synonym ustr = "nat list"

definition lit :: "string \<Rightarrow> ustr" where
  "lit s = map of_char s"

lemma lit_simps [simp]: "lit [] = []" "lit (c # cs) = of_char c # lit cs"
  by (simp_all add: lit_def)

definition is_whitespace :: "nat \<Rightarrow> bool" where
  "is_whitespace c = (c \<in> set [9, 10, 11, 12, 13, 32, 133, 160, 5760, 8192, 8193, 8194, 8195, 8196,
     8197, 8198, 8199, 8200, 8201, 8202, 8232, 8233, 8239, 8287, 12288])"

definition trim_start :: "ustr \<Rightarrow> ustr" where
  "trim_start s = dropWhile is_whitespace s"

definition trim_end :: "ustr \<Rightarrow> ustr" where
  "trim_end s = rev (dropWhile is_whitespace (rev s))"

definition trim :: "ustr \<Rightarrow> ustr" where
  "trim s = trim_end (trim_start s)"

definition blank :: "ustr \<Rightarrow> bool" where
  \<comment> \<open>\<open>s.trim().is_empty()\<close>\<close>
  "blank s = (trim s = [])"

definition to_ascii_lowercase :: "ustr \<Rightarrow> ustr" where
  "to_ascii_lowercase s = map (\<lambda>c. if 65 \<le> c \<and> c \<le> 90 then c + 32 else c) s"

fun starts_with :: "ustr \<Rightarrow> ustr \<Rightarrow> bool" where
  "starts_with s [] = True"
| "starts_with [] (p # ps) = False"
| "starts_with (c # s) (p # ps) = (c = p \<and> starts_with s ps)"

fun contains :: "ustr \<Rightarrow> ustr \<Rightarrow> bool" where
  "contains [] p = (p = [])"
| "contains (c # s) p = (starts_with (c # s) p \<or> contains s p)"

definition utf8_len :: "nat \<Rightarrow> nat" where
  "utf8_len c = (if c < 128 then 1 else if c < 2048 then 2 else if c < 65536 then 3 else 4)"

definition byte_len :: "ustr \<Rightarrow> nat" where
  "byte_len s = sum_list (map utf8_len s)"

lemma blank_iff: "blank s \<longleftrightarrow> (\<forall>c \<in> set s. is_whitespace c)"
proof -
  have "dropWhile is_whitespace (rev (dropWhile is_whitespace s)) = []
      \<longleftrightarrow> (\<forall>c \<in> set (dropWhile is_whitespace s). is_whitespace c)"
    by (simp add: dropWhile_eq_Nil_conv)
  also have "\<dots> \<longleftrightarrow> (\<forall>c \<in> set s. is_whitespace c)"
    by (induction s) auto
  finally show ?thesis
    by (simp add: blank_def trim_def trim_end_def trim_start_def)
qed

lemma set_trim: "set (trim s) \<subseteq> set s"
  unfolding trim_def trim_end_def trim_start_def
  by (auto dest!: set_dropWhileD)

lemma trim_trim [simp]: "trim (trim s) = trim s"
proof -
  have idem: "trim_end (trim_start (trim s)) = trim s"
  proof (cases "trim s")
    case (Cons c cs)
    have sub: "\<exists>zs. trim_start s = trim s @ zs"
      unfolding trim_def trim_end_def
      by (metis append_assoc rev_append rev_rev_ident takeWhile_dropWhile_id)
    then have "\<not> is_whitespace c"
      using Cons by (metis append_Cons hd_dropWhile list.discI list.sel(1) trim_start_def)
    then have "trim_start (trim s) = trim s"
      by (simp add: trim_start_def Cons)
    moreover have "dropWhile is_whitespace (rev (trim s)) = rev (trim s)"
      unfolding trim_def trim_end_def by simp
    ultimately show ?thesis
      by (simp add: trim_end_def)
  qed (simp add: trim_end_def trim_start_def)
  then show ?thesis by (simp add: trim_def)
qed

lemma not_blank_trim: "\<not> blank s \<Longrightarrow> \<not> blank (trim s)"
  by (simp add: blank_def)

subsection \<open>Fractions\<close>

text \<open>
  The progress fractions are \<open>f64\<close>; the storage code only copies them, compares them with
  \<open>0.0\<close> and \<open>1.0\<close> and asks \<open>is_finite\<close>, so a finite value is kept as its exact rational
  (both zeros are \<open>F64 0\<close>) and the three non-finite kinds are constructors.
\<close>

datatype f64 = F64 rat | F64_inf | F64_neg_inf | F64_nan

fun f64_is_finite :: "f64 \<Rightarrow> bool" where
  "f64_is_finite (F64 q) = True"
| "f64_is_finite v = False"

fun f64_less :: "f64 \<Rightarrow> f64 \<Rightarrow> bool" where
  "f64_less F64_nan _ = False"
| "f64_less _ F64_nan = False"
| "f64_less (F64 p) (F64 q) = (p < q)"
| "f64_less F64_neg_inf v = (v \<noteq> F64_neg_inf)"
| "f64_less v F64_inf = (v \<noteq> F64_inf)"
| "f64_less _ _ = False"

definition is_fraction :: "f64 \<Rightarrow> bool" where
  \<comment> \<open>\<open>!(!v.is_finite() || v < 0.0 || v > 1.0)\<close>\<close>
  "is_fraction v = (f64_is_finite v \<and> \<not> f64_less v (F64 0) \<and> \<not> f64_less (F64 1) v)"

lemma is_fraction_iff: "is_fraction v \<longleftrightarrow> (\<exists>q. v = F64 q \<and> 0 \<le> q \<and> q \<le> 1)"
  by (cases v) (auto simp: is_fraction_def)

subsection \<open>Hash maps\<close>

type_synonym ('k, 'v) hmap = "('k \<times> 'v) list"

definition hm_insert :: "'k \<Rightarrow> 'v \<Rightarrow> ('k, 'v) hmap \<Rightarrow> ('k, 'v) hmap" where
  "hm_insert k v m = AList.update k v m"

definition hm_remove :: "'k \<Rightarrow> ('k, 'v) hmap \<Rightarrow> ('k, 'v) hmap" where
  "hm_remove k m = filter (\<lambda>p. fst p \<noteq> k) m"

definition hm_retain :: "('k \<Rightarrow> 'v \<Rightarrow> bool) \<Rightarrow> ('k, 'v) hmap \<Rightarrow> ('k, 'v) hmap" where
  "hm_retain P m = filter (\<lambda>(k, v). P k v) m"

definition hm_modify :: "'k \<Rightarrow> ('v \<Rightarrow> 'v) \<Rightarrow> ('k, 'v) hmap \<Rightarrow> ('k, 'v) hmap" where
  \<comment> \<open>assignment through \<open>get_mut\<close>\<close>
  "hm_modify k f m = map (\<lambda>(k', v). if k' = k then (k', f v) else (k', v)) m"

definition hm_values :: "('k, 'v) hmap \<Rightarrow> 'v list" where
  "hm_values m = map snd m"

definition hm_contains :: "'k \<Rightarrow> ('k, 'v) hmap \<Rightarrow> bool" where
  "hm_contains k m = (map_of m k \<noteq> None)"

definition hm_ok :: "('k, 'v) hmap \<Rightarrow> bool" where
  "hm_ok m = distinct (map fst m)"

definition keyed :: "('v \<Rightarrow> 'k) \<Rightarrow> ('k, 'v) hmap \<Rightarrow> bool" where
  \<comment> \<open>a table that stores every value under its own key\<close>
  "keyed f m = (hm_ok m \<and> (\<forall>(k, v) \<in> set m. k = f v))"

lemma hm_ok_Nil [simp]: "hm_ok []"
  by (simp add: hm_ok_def)

lemma map_of_hm_insert [table_simps]: "map_of (hm_insert k v m) = (map_of m)(k \<mapsto> v)"
  by (simp add: hm_insert_def update_conv')

lemma map_of_hm_remove [table_simps]: "map_of (hm_remove k m) = (map_of m)(k := None)"
  by (induction m) (auto simp: hm_remove_def fun_eq_iff)

lemma map_of_hm_modify [table_simps]:
  "map_of (hm_modify k f m) = (map_of m)(k := map_option f (map_of m k))"
  by (induction m) (auto simp: hm_modify_def fun_eq_iff)

lemma map_of_hm_retain [table_simps]:
  "hm_ok m \<Longrightarrow> map_of (hm_retain P m) k
     = (case map_of m k of Some v \<Rightarrow> if P k v then Some v else None | None \<Rightarrow> None)"
  by (induction m) (auto simp: hm_retain_def hm_ok_def map_of_eq_None_iff split: option.splits
      dest!: map_of_SomeD intro: rev_image_eqI)

lemma hm_ok_insert [simp]: "hm_ok m \<Longrightarrow> hm_ok (hm_insert k v m)"
  by (simp add: hm_ok_def hm_insert_def distinct_update)

lemma hm_ok_remove [simp]: "hm_ok m \<Longrightarrow> hm_ok (hm_remove k m)"
  by (simp add: hm_ok_def hm_remove_def distinct_map_filter)

lemma hm_ok_retain [simp]: "hm_ok m \<Longrightarrow> hm_ok (hm_retain P m)"
  by (simp add: hm_ok_def hm_retain_def distinct_map_filter)

lemma keys_hm_modify: "map fst (hm_modify k f m) = map fst m"
  by (induction m) (auto simp: hm_modify_def)

lemma hm_ok_modify [simp]: "hm_ok m \<Longrightarrow> hm_ok (hm_modify k f m)"
  by (simp add: hm_ok_def keys_hm_modify)

lemma set_hm_insert: "hm_ok m \<Longrightarrow> set (hm_insert k v m) = insert (k, v) {p \<in> set m. fst p \<noteq> k}"
  unfolding hm_insert_def hm_ok_def
  by (induction m) (auto simp: image_iff)

lemma set_hm_retain: "(k, v) \<in> set (hm_retain P m) \<longleftrightarrow> (k, v) \<in> set m \<and> P k v"
  by (auto simp: hm_retain_def)

lemma in_set_iff_map_of: "hm_ok m \<Longrightarrow> (k, v) \<in> set m \<longleftrightarrow> map_of m k = Some v"
  by (simp add: hm_ok_def)

lemma in_values_iff: "hm_ok m \<Longrightarrow> v \<in> set (hm_values m) \<longleftrightarrow> (\<exists>k. map_of m k = Some v)"
  by (auto simp: hm_values_def image_iff in_set_iff_map_of) (metis in_set_iff_map_of snd_conv)

lemma keyedD: "keyed f m \<Longrightarrow> map_of m k = Some v \<Longrightarrow> k = f v"
  by (auto simp: keyed_def dest: map_of_SomeD)

lemma keyed_hm_ok: "keyed f m \<Longrightarrow> hm_ok m"
  by (simp add: keyed_def)

lemma keyed_Nil [simp]: "keyed f []"
  by (simp add: keyed_def)

lemma keyed_insert: "keyed f m \<Longrightarrow> k = f v \<Longrightarrow> keyed f (hm_insert k v m)"
  by (auto simp: keyed_def set_hm_insert)

lemma keyed_remove: "keyed f m \<Longrightarrow> keyed f (hm_remove k m)"
  by (auto simp: keyed_def hm_remove_def hm_ok_def distinct_map_filter)

lemma keyed_retain: "keyed f m \<Longrightarrow> keyed f (hm_retain P m)"
  by (auto simp: keyed_def hm_retain_def hm_ok_def distinct_map_filter)

lemma keyed_modify: "keyed f m \<Longrightarrow> (\<And>v. f (g v) = f v) \<Longrightarrow> keyed f (hm_modify k g m)"
  by (auto simp: keyed_def hm_modify_def hm_ok_modify[unfolded hm_modify_def] split: if_splits)

lemma keyed_distinct_values: "keyed f m \<Longrightarrow> distinct (map f (hm_values m))"
proof -
  assume a: "keyed f m"
  then have "map f (hm_values m) = map fst m"
    by (auto simp: keyed_def hm_values_def)
  with a show ?thesis by (simp add: keyed_def hm_ok_def)
qed

lemma mset_eq_map_of:
  assumes "hm_ok m" and "hm_ok m'" and "map_of m = map_of m'"
  shows "mset m = mset m'"
proof -
  have "distinct m" "distinct m'" using assms by (auto simp: hm_ok_def distinct_map)
  moreover have "set m = set m'"
    using assms by (auto simp: in_set_iff_map_of)
  ultimately show ?thesis by (simp add: set_eq_iff_mset_eq_distinct)
qed

lemma mset_values_eq:
  "hm_ok m \<Longrightarrow> hm_ok m' \<Longrightarrow> map_of m = map_of m' \<Longrightarrow> mset (hm_values m) = mset (hm_values m')"
  using mset_eq_map_of[of m m'] by (simp add: hm_values_def)

lemma hm_insert_all:
  \<comment> \<open>inserting the values of a keyed table into an empty one rebuilds it\<close>
  assumes "distinct (map f xs)"
  shows "map_of (fold (\<lambda>v. hm_insert (f v) v) xs m) k
    = (case map_of (map (\<lambda>v. (f v, v)) xs) k of Some v \<Rightarrow> Some v | None \<Rightarrow> map_of m k)"
  using assms
proof (induction xs arbitrary: m)
  case (Cons x xs)
  then show ?case
    by (auto simp: table_simps split: option.splits dest!: map_of_SomeD)
qed simp

lemma hm_insert_fresh: "k \<notin> set (map fst m) \<Longrightarrow> hm_insert k v m = m @ [(k, v)]"
  unfolding hm_insert_def by (induction m) auto

lemma hm_insert_all_fresh:
  "distinct (map fst m @ map f xs) \<Longrightarrow>
     fold (\<lambda>v. hm_insert (f v) v) xs m = m @ map (\<lambda>v. (f v, v)) xs"
  by (induction xs arbitrary: m) (auto simp: hm_insert_fresh)

lemma keyed_insert_all: "keyed f m \<Longrightarrow> keyed f (fold (\<lambda>v. hm_insert (f v) v) xs m)"
  by (induction xs arbitrary: m) (auto simp: keyed_insert)

subsection \<open>Comparators and the stable sort\<close>

text \<open>
  \<open>cmp_order\<close> is \<open>std::cmp::Ordering\<close>, \<open>rcmp\<close> is \<open>Ord::cmp\<close>, and \<open>sort_by\<close> is the
  result of Rust's stable \<open>sort_by\<close> (and of \<open>sort_unstable\<close> on keys where equal means
  identical). The interface between the listings and their comparators is the locale
  \<open>comparator\<close>: a comparator is a total preorder, and under that contract the sorted list is
  sorted, a permutation of its input, and independent of the order of the input when no two
  elements compare equal.
\<close>

datatype cmp_order = Less | Equal | Greater

definition rcmp :: "'a::linorder \<Rightarrow> 'a \<Rightarrow> cmp_order" where
  "rcmp a b = (if a < b then Less else if a = b then Equal else Greater)"

fun then_with :: "cmp_order \<Rightarrow> cmp_order \<Rightarrow> cmp_order" where
  "then_with Equal o2 = o2"
| "then_with o1 o2 = o1"

fun rev_order :: "cmp_order \<Rightarrow> cmp_order" where
  "rev_order Less = Greater"
| "rev_order Equal = Equal"
| "rev_order Greater = Less"

type_synonym 'a cmp = "'a \<Rightarrow> 'a \<Rightarrow> cmp_order"

definition chain :: "'a cmp \<Rightarrow> 'a cmp \<Rightarrow> 'a cmp" where
  "chain c d a b = then_with (c a b) (d a b)"

definition by_key :: "('a \<Rightarrow> 'k::linorder) \<Rightarrow> 'a cmp" where
  "by_key f a b = rcmp (f a) (f b)"

definition flip_cmp :: "'a cmp \<Rightarrow> 'a cmp" where
  "flip_cmp c a b = c b a"

fun insort_by :: "'a cmp \<Rightarrow> 'a \<Rightarrow> 'a list \<Rightarrow> 'a list" where
  "insort_by c x [] = [x]"
| "insort_by c x (y # ys) = (if c x y = Greater then y # insort_by c x ys else x # y # ys)"

definition sort_by :: "'a cmp \<Rightarrow> 'a list \<Rightarrow> 'a list" where
  "sort_by c xs = foldr (insort_by c) xs []"

fun min_by :: "'a cmp \<Rightarrow> 'a list \<Rightarrow> 'a option" where
  \<comment> \<open>\<open>Iterator::min_by\<close>: the first of several equal minima\<close>
  "min_by c [] = None"
| "min_by c (x # xs) = (case min_by c xs of None \<Rightarrow> Some x
     | Some y \<Rightarrow> if c x y = Greater then Some y else Some x)"

abbreviation cmp_le :: "'a cmp \<Rightarrow> 'a \<Rightarrow> 'a \<Rightarrow> bool" where
  "cmp_le c a b \<equiv> c a b \<noteq> Greater"

lemma mset_insort_by [simp]: "mset (insort_by c x ys) = add_mset x (mset ys)"
  by (induction ys) auto

lemma mset_sort_by [simp]: "mset (sort_by c xs) = mset xs"
  by (induction xs) (auto simp: sort_by_def)

lemma set_insort_by [simp]: "set (insort_by c x ys) = insert x (set ys)"
  by (induction ys) auto

lemma set_sort_by [simp]: "set (sort_by c xs) = set xs"
  by (metis mset_sort_by set_mset_mset)

lemma length_sort_by [simp]: "length (sort_by c xs) = length xs"
  by (metis mset_sort_by size_mset)

lemma distinct_sort_by [simp]: "distinct (sort_by c xs) = distinct xs"
  by (metis distinct_count_atmost_1 mset_sort_by set_sort_by)

lemma distinct_map_sort_by [simp]: "distinct (map f (sort_by c xs)) = distinct (map f xs)"
proof -
  have "mset (map f (sort_by c xs)) = mset (map f xs)" by simp
  then show ?thesis by (metis mset_eq_imp_distinct_iff)
qed

lemma sort_by_Nil [simp]: "sort_by c [] = []"
  by (simp add: sort_by_def)

lemma sort_by_Cons: "sort_by c (x # xs) = insort_by c x (sort_by c xs)"
  by (simp add: sort_by_def)

lemma min_by_None [simp]: "min_by c xs = None \<longleftrightarrow> xs = []"
  by (cases xs) (auto split: option.splits)

lemma min_by_in: "min_by c xs = Some y \<Longrightarrow> y \<in> set xs"
  by (induction xs arbitrary: y) (auto split: option.splits if_splits)

locale comparator =
  fixes c :: "'a cmp"
  assumes cmp_refl: "c a a = Equal"
    and cmp_swap: "c a b = Greater \<longleftrightarrow> c b a = Less"
    and cmp_trans: "cmp_le c a b \<Longrightarrow> cmp_le c b d \<Longrightarrow> cmp_le c a d"
begin

lemma le_total: "cmp_le c a b \<or> cmp_le c b a"
  using cmp_swap[of a b] by force

lemma greater_le: "c a b = Greater \<Longrightarrow> cmp_le c b a"
  using cmp_swap[of a b] by simp

lemma equal_iff: "c a b = Equal \<longleftrightarrow> cmp_le c a b \<and> cmp_le c b a"
  using cmp_swap[of a b] cmp_swap[of b a] by (cases "c a b"; cases "c b a") auto

lemma sorted_insort:
  "sorted_wrt (cmp_le c) ys \<Longrightarrow> sorted_wrt (cmp_le c) (insort_by c x ys)"
proof (induction ys)
  case (Cons y ys)
  then show ?case
    using greater_le[of x y] cmp_trans[of x y] by auto
qed simp

lemma sorted_sort: "sorted_wrt (cmp_le c) (sort_by c xs)"
  by (induction xs) (auto simp: sort_by_def sorted_insort)

lemma min_by_le: "min_by c xs = Some y \<Longrightarrow> x \<in> set xs \<Longrightarrow> cmp_le c y x"
proof (induction xs arbitrary: y)
  case (Cons z zs)
  show ?case
  proof (cases "min_by c zs")
    case None
    with Cons show ?thesis by (auto simp: cmp_refl)
  next
    case (Some m)
    note IH = Cons.IH[OF Some]
    show ?thesis
      using Cons.prems Some IH cmp_trans[of z m x] greater_le[of z m]
      by (auto simp: cmp_refl split: if_splits)
  qed
qed simp

lemma sorted_unique:
  assumes "sorted_wrt (cmp_le c) xs" and "sorted_wrt (cmp_le c) ys" and "mset xs = mset ys"
    and "\<And>a b. a \<in> set xs \<Longrightarrow> b \<in> set xs \<Longrightarrow> c a b = Equal \<Longrightarrow> a = b"
  shows "xs = ys"
  using assms
proof (induction xs arbitrary: ys)
  case (Cons x xs)
  then obtain y ys' where ys: "ys = y # ys'" by (cases ys) auto
  have members: "x \<in> set ys" "y \<in> set (x # xs)"
    using Cons.prems(3) ys by (metis list.set_intros(1) mset_eq_setD)+
  have "cmp_le c x y" "cmp_le c y x"
    using Cons.prems(1,2) members ys by (auto simp: cmp_refl)
  then have "x = y"
    using Cons.prems(4)[of x y] members(2) by (simp add: equal_iff)
  moreover have "xs = ys'"
    using Cons.prems ys \<open>x = y\<close> by (intro Cons.IH) auto
  ultimately show ?case by (simp add: ys)
qed simp

lemma sort_unique:
  assumes "mset xs = mset ys"
    and "\<And>a b. a \<in> set xs \<Longrightarrow> b \<in> set xs \<Longrightarrow> c a b = Equal \<Longrightarrow> a = b"
  shows "sort_by c xs = sort_by c ys"
  using assms by (intro sorted_unique) (auto simp: sorted_sort)

lemma insort_sorted: "sorted_wrt (cmp_le c) (x # xs) \<Longrightarrow> insort_by c x xs = x # xs"
  by (cases xs) auto

lemma sort_sorted: "sorted_wrt (cmp_le c) xs \<Longrightarrow> sort_by c xs = xs"
  by (induction xs) (auto simp: sort_by_Cons insort_sorted)

lemma filter_insort:
  "sorted_wrt (cmp_le c) ys \<Longrightarrow>
     filter P (insort_by c x ys) = (if P x then insort_by c x (filter P ys) else filter P ys)"
proof (induction ys)
  case (Cons y ys)
  have head: "insort_by c x zs = x # zs" if "cmp_le c x y" "set zs \<subseteq> set ys" for zs
    using that Cons.prems cmp_trans[of x y] by (cases zs) auto
  show ?case
    using Cons head[of "filter P ys"] by (cases "c x y = Greater") auto
qed simp

lemma filter_sort: "filter P (sort_by c xs) = sort_by c (filter P xs)"
  by (induction xs) (simp_all add: sort_by_Cons filter_insort sorted_sort)

lemma sort_class: "filter (\<lambda>x. c a x = Equal) (sort_by c xs) = filter (\<lambda>x. c a x = Equal) xs"
proof -
  have "sorted_wrt (cmp_le c) (filter (\<lambda>x. c a x = Equal) xs)"
  proof (induction xs)
    case (Cons y ys)
    have "cmp_le c y z" if "c a y = Equal" "c a z = Equal" for z
      using that cmp_trans[of y a z] by (simp add: equal_iff)
    with Cons show ?case by simp
  qed simp
  then show ?thesis unfolding filter_sort by (rule sort_sorted)
qed

lemma sorted_classes_unique:
  assumes "sorted_wrt (cmp_le c) xs" and "sorted_wrt (cmp_le c) ys"
    and "\<And>a. filter (\<lambda>x. c a x = Equal) xs = filter (\<lambda>x. c a x = Equal) ys"
  shows "xs = ys"
  using assms
proof (induction xs arbitrary: ys)
  case Nil
  show ?case
  proof (cases ys)
    case (Cons y ys')
    with Nil.prems(3)[of y] show ?thesis by (simp add: cmp_refl)
  qed simp
next
  case (Cons x xs)
  have mem: "y \<in> set (x # xs) \<longleftrightarrow> y \<in> set ys" for y
  proof -
    have "y \<in> set zs \<longleftrightarrow> y \<in> set (filter (\<lambda>x. c y x = Equal) zs)" for zs by (simp add: cmp_refl)
    with Cons.prems(3)[of y] show ?thesis by metis
  qed
  then obtain y ys' where ys: "ys = y # ys'" by (cases ys) auto
  have "cmp_le c x y" "cmp_le c y x"
    using Cons.prems(1,2) mem[of y] mem[of x] by (auto simp: ys cmp_refl)
  then have eq: "c x y = Equal" by (simp add: equal_iff)
  with Cons.prems(3)[of x] have "x = y" by (simp add: ys cmp_refl)
  moreover have "xs = ys'"
  proof (rule Cons.IH)
    show "filter (\<lambda>z. c a z = Equal) xs = filter (\<lambda>z. c a z = Equal) ys'" for a
      using Cons.prems(3)[of a] \<open>x = y\<close> by (simp add: ys split: if_splits)
  qed (use Cons.prems ys in auto)
  ultimately show ?case by (simp add: ys)
qed

lemma sort_stable_unique:
  \<comment> \<open>a stable sort depends on its input only through the order inside each class of equals\<close>
  assumes "\<And>a. filter (\<lambda>x. c a x = Equal) xs = filter (\<lambda>x. c a x = Equal) ys"
  shows "sort_by c xs = sort_by c ys"
  by (rule sorted_classes_unique) (simp_all add: sorted_sort sort_class assms)

lemma sort_idem: "sort_by c (sort_by c xs) = sort_by c xs"
  by (rule sort_sorted[OF sorted_sort])

end

lemma comparator_by_key [comparator_intros]: "comparator (by_key f)"
  by unfold_locales (auto simp: by_key_def rcmp_def split: if_splits)

lemma comparator_flip [comparator_intros]:
  assumes "comparator d" shows "comparator (flip_cmp d)"
proof
  fix a b e
  show "flip_cmp d a a = Equal"
    by (simp add: flip_cmp_def comparator.cmp_refl[OF assms])
  show "(flip_cmp d a b = Greater) = (flip_cmp d b a = Less)"
    by (simp add: flip_cmp_def comparator.cmp_swap[OF assms])
  show "cmp_le (flip_cmp d) a e" if "cmp_le (flip_cmp d) a b" "cmp_le (flip_cmp d) b e"
    using that comparator.cmp_trans[OF assms, of e b a] by (simp add: flip_cmp_def)
qed

lemma then_with_Greater: "then_with o1 o2 = Greater \<longleftrightarrow> o1 = Greater \<or> o1 = Equal \<and> o2 = Greater"
  by (cases o1) auto

lemma then_with_Less: "then_with o1 o2 = Less \<longleftrightarrow> o1 = Less \<or> o1 = Equal \<and> o2 = Less"
  by (cases o1) auto

lemma then_with_Equal [simp]: "then_with o1 o2 = Equal \<longleftrightarrow> o1 = Equal \<and> o2 = Equal"
  by (cases o1) auto

lemma comparator_chain [comparator_intros]:
  assumes "comparator p" and "comparator q" shows "comparator (chain p q)"
proof
  fix a b e
  show "chain p q a a = Equal"
    using assms by (simp add: chain_def comparator.cmp_refl)
  show "(chain p q a b = Greater) = (chain p q b a = Less)"
    using comparator.equal_iff[OF assms(1), of a b] comparator.equal_iff[OF assms(1), of b a]
    by (auto simp: chain_def then_with_Greater then_with_Less
        comparator.cmp_swap[OF assms(1)] comparator.cmp_swap[OF assms(2)])
  show "cmp_le (chain p q) a e" if "cmp_le (chain p q) a b" "cmp_le (chain p q) b e"
  proof -
    from that have "cmp_le p a b" "cmp_le p b e"
      by (auto simp: chain_def then_with_Greater)
    moreover have "cmp_le q a e" if "p a e = Equal"
    proof -
      have "cmp_le p e a" using that by (simp add: comparator.equal_iff[OF assms(1)])
      then have "p a b = Equal" "p b e = Equal"
        using \<open>cmp_le p a b\<close> \<open>cmp_le p b e\<close> comparator.cmp_trans[OF assms(1)]
        by (metis comparator.equal_iff[OF assms(1)])+
      then show ?thesis
        using \<open>cmp_le (chain p q) a b\<close> \<open>cmp_le (chain p q) b e\<close>
          comparator.cmp_trans[OF assms(2), of a b e] by (auto simp: chain_def then_with_Greater)
    qed
    ultimately show ?thesis
      using comparator.cmp_trans[OF assms(1), of a b e] by (auto simp: chain_def then_with_Greater)
  qed
qed

lemma by_key_Equal [simp]: "by_key f a b = Equal \<longleftrightarrow> f a = f b"
  by (auto simp: by_key_def rcmp_def)

lemma chain_Equal [simp]: "chain p q a b = Equal \<longleftrightarrow> p a b = Equal \<and> q a b = Equal"
  by (simp add: chain_def)

lemma flip_Equal [simp]: "flip_cmp p a b = Equal \<longleftrightarrow> p b a = Equal"
  by (simp add: flip_cmp_def)

lemma by_key_le: "cmp_le (by_key f) a b \<longleftrightarrow> f a \<le> f b"
  by (auto simp: by_key_def rcmp_def)

lemma sort_listing_unique:
  \<comment> \<open>a listing of a table under a comparator that separates keys ignores the table's order\<close>
  assumes "comparator c" and "keyed f m" and "keyed f m'" and "map_of m = map_of m'"
    and sep: "\<And>a b. c a b = Equal \<Longrightarrow> f a = f b"
  shows "sort_by c (filter P (hm_values m)) = sort_by c (filter P (hm_values m'))"
proof (rule comparator.sort_unique[OF assms(1)])
  show "mset (filter P (hm_values m)) = mset (filter P (hm_values m'))"
    using assms mset_values_eq[of m m'] by (simp add: keyed_hm_ok)
next
  fix a b
  assume a: "a \<in> set (filter P (hm_values m))" and b: "b \<in> set (filter P (hm_values m))"
    and eq: "c a b = Equal"
  have "distinct (map f (hm_values m))" using assms(2) by (rule keyed_distinct_values)
  then show "a = b"
    using a b sep[OF eq] by (auto simp: distinct_map inj_on_def)
qed

end
