(* ===== verification/Strings.thy ===== *)
theory Strings
  imports Prelude
begin

text \<open>
  The operations of \<open>str\<close> the components share beyond trimming: splitting on characters,
  \<open>split_once\<close>, \<open>join\<close>, decimal rendering of numbers by \<open>format!\<close>, and how splitting and
  joining undo each other on pieces without separators.
\<close>

subsection \<open>Operations\<close>

fun split_on :: "(nat \<Rightarrow> bool) \<Rightarrow> ustr \<Rightarrow> ustr list" where
  \<comment> \<open>\<open>str::split\<close> on a set of separator characters\<close>
  "split_on P [] = [[]]"
| "split_on P (c # cs) = (if P c then [] # split_on P cs
     else (case split_on P cs of [] \<Rightarrow> [[c]] | w # ws \<Rightarrow> (c # w) # ws))"

definition split_once :: "nat \<Rightarrow> ustr \<Rightarrow> (ustr \<times> ustr) option" where
  \<comment> \<open>\<open>str::split_once\<close> on one character\<close>
  "split_once c s = (if c \<in> set s
     then Some (takeWhile (\<lambda>x. x \<noteq> c) s, tl (dropWhile (\<lambda>x. x \<noteq> c) s)) else None)"

fun join :: "ustr \<Rightarrow> ustr list \<Rightarrow> ustr" where
  "join sep [] = []"
| "join sep [s] = s"
| "join sep (s # t # ss) = s @ sep @ join sep (t # ss)"

fun decimal_digits :: "nat \<Rightarrow> ustr" where
  "decimal_digits n = (if n < 10 then [48 + n] else decimal_digits (n div 10) @ [48 + n mod 10])"

declare decimal_digits.simps [simp del]

definition decimal :: "nat \<Rightarrow> ustr" where
  \<comment> \<open>\<open>format!("{n}")\<close> of an unsigned integer\<close>
  "decimal n = decimal_digits n"

definition blank_opt :: "ustr option \<Rightarrow> bool" where
  \<comment> \<open>\<open>v.as_deref().map(str::trim).is_some_and(str::is_empty)\<close>\<close>
  "blank_opt v = (case v of None \<Rightarrow> False | Some s \<Rightarrow> blank s)"

subsection \<open>Decimal digits\<close>

lemma digits_decimal: "c \<in> set (decimal n) \<Longrightarrow> 48 \<le> c \<and> c \<le> 57"
proof -
  have "c \<in> set (decimal_digits n) \<longrightarrow> 48 \<le> c \<and> c \<le> 57" for n
  proof (induction n rule: decimal_digits.induct)
    case (1 n)
    then show ?case by (subst decimal_digits.simps) auto
  qed
  then show "c \<in> set (decimal n) \<Longrightarrow> 48 \<le> c \<and> c \<le> 57" by (simp add: decimal_def)
qed

lemma decimal_nonempty: "decimal n \<noteq> []"
  by (subst decimal_def, subst decimal_digits.simps) simp

subsection \<open>Splitting and joining\<close>

lemma split_on_nonempty [simp]: "split_on P s \<noteq> []"
  by (induction s) (auto split: list.splits)

definition plain :: "nat set \<Rightarrow> ustr \<Rightarrow> bool" where
  "plain avoid s = (\<forall>c \<in> set s. \<not> is_whitespace c \<and> c \<notin> avoid)"

lemma trim_plain: "plain X s \<Longrightarrow> trim s = s"
proof -
  assume a: "plain X s"
  then have "trim_start s = s" by (cases s) (auto simp: plain_def trim_start_def)
  moreover have "dropWhile is_whitespace (rev s) = rev s"
    using a by (cases "rev s") (auto simp: plain_def dest: arg_cong[of _ _ set])
  ultimately show ?thesis by (simp add: trim_def trim_end_def)
qed

lemma split_once_at: "c \<notin> set s \<Longrightarrow> split_once c (s @ c # t) = Some (s, t)"
  by (simp add: split_once_def takeWhile_append dropWhile_append)

lemma split_once_none: "c \<notin> set s \<Longrightarrow> split_once c s = None"
  by (simp add: split_once_def)

lemma split_on_plain: "d \<notin> set s \<Longrightarrow> split_on (\<lambda>c. c = d) s = [s]"
  by (induction s) auto

lemma split_on_append: "d \<notin> set s \<Longrightarrow> split_on (\<lambda>c. c = d) (s @ d # t) = s # split_on (\<lambda>c. c = d) t"
  by (induction s) auto

lemma split_join:
  "\<forall>s \<in> set ps. d \<notin> set s \<Longrightarrow> ps \<noteq> [] \<Longrightarrow> split_on (\<lambda>c. c = d) (join [d] ps) = ps"
  by (induction "[d]" ps rule: join.induct) (auto simp: split_on_plain split_on_append)

lemma plain_append [simp]: "plain X (s @ t) \<longleftrightarrow> plain X s \<and> plain X t"
  by (auto simp: plain_def)

lemma plain_mono: "plain X s \<Longrightarrow> Y \<subseteq> X \<Longrightarrow> plain Y s"
  by (auto simp: plain_def)

lemma plain_avoids: "plain X s \<Longrightarrow> c \<in> X \<Longrightarrow> c \<notin> set s"
  by (auto simp: plain_def)

lemma plain_join: "(\<And>p. p \<in> set ps \<Longrightarrow> plain X p) \<Longrightarrow> plain X sep \<Longrightarrow> plain X (join sep ps)"
  by (induction sep ps rule: join.induct) (auto, simp add: plain_def)

lemma join_split: "join [d] (split_on (\<lambda>c. c = d) s) = s"
proof (induction s)
  case (Cons c s)
  then show ?case
    by (cases "split_on (\<lambda>c. c = d) s") (auto, (cases "tl (split_on (\<lambda>c. c = d) s)"; auto)+)
qed simp

lemma split_on_avoids: "w \<in> set (split_on P s) \<Longrightarrow> c \<in> set w \<Longrightarrow> \<not> P c \<and> c \<in> set s"
  by (induction s arbitrary: w c) (auto split: if_splits list.splits, fastforce+)

lemma length_split_on: "length (split_on P s) = Suc (length (filter P s))"
  by (induction s) (auto split: list.splits)

end
