(* ===== verification/Domain.thy ===== *)
theory Domain
  imports Strings
begin

text \<open>
  The domain entities of \<open>crates/reader-domain/src/lib.rs\<close> that the storage layer keeps, the
  JSON values they carry verbatim, and the scope rules that decide whether a replace rule
  applies (\<open>scope_tokens\<close>, \<open>replace_rule_matches_target\<close>, \<open>replace_rule_matches_scope\<close>).
  \<open>i32\<close> and \<open>i64\<close> fields are only copied and compared, so they are integers.
  Unicode \<open>str::to_lowercase\<close> is the argument \<open>lower\<close> (its tables are data of the Rust standard
  library); everything else of the string functions is spelled out.
\<close>

datatype json_number = PosInt u64 | NegInt int | Float f64

datatype json = JNull | JBool bool | JNum json_number | JStr ustr | JArr "json list"
  | JObj "(ustr \<times> json) list"

record source_rules =
  rules_search :: json
  rules_explore :: json
  rules_detail :: json
  rules_toc :: json
  rules_chapter :: json

record source =
  src_source_id :: ustr
  src_name :: ustr
  src_base_url :: ustr
  src_rules :: source_rules
  src_book_source :: json

record book =
  bk_book_id :: ustr
  bk_title :: ustr
  bk_author :: ustr
  bk_cover_url :: "ustr option"
  bk_intro :: "ustr option"
  bk_kind :: "ustr option"
  bk_last_chapter :: "ustr option"

record reading_progress =
  rp_book_id :: ustr
  rp_chapter_index :: u32
  rp_chapter_offset :: u64
  rp_chapter_progress :: f64

record txt_toc_rule =
  ttr_id :: int
  ttr_name :: ustr
  ttr_rule :: ustr
  ttr_example :: "ustr option"
  ttr_serial_number :: int
  ttr_enable :: bool

record bookmark =
  bm_time :: int
  bm_book_name :: ustr
  bm_book_author :: ustr
  bm_chapter_index :: int
  bm_chapter_pos :: int
  bm_chapter_name :: ustr
  bm_book_text :: ustr
  bm_content :: ustr

datatype replace_rule_target = TargetTitle | TargetContent

record replace_rule =
  rr_id :: int
  rr_name :: ustr
  rr_group :: "ustr option"
  rr_pattern :: ustr
  rr_replacement :: ustr
  rr_scope :: "ustr option"
  rr_scope_title :: bool
  rr_scope_content :: bool
  rr_exclude_scope :: "ustr option"
  rr_is_enabled :: bool
  rr_is_regex :: bool
  rr_timeout_millisecond :: int
  rr_order :: int

record replace_rule_context =
  rrc_book_title :: ustr
  rrc_source_name :: ustr
  rrc_source_url :: ustr

record dict_rule =
  dr_name :: ustr
  dr_url_rule :: ustr
  dr_show_rule :: ustr
  dr_enabled :: bool
  dr_sort_number :: int

record book_group =
  bg_group_id :: int
  bg_group_name :: ustr
  bg_cover :: "ustr option"
  bg_order :: int
  bg_enable_refresh :: bool
  bg_show :: bool

record read_record =
  rd_device_id :: ustr
  rd_book_name :: ustr
  rd_read_time :: int
  rd_last_read :: int

subsection \<open>Replace-rule scopes\<close>

definition searchable_fields :: "(ustr \<Rightarrow> ustr) \<Rightarrow> replace_rule_context \<Rightarrow> ustr list" where
  "searchable_fields lower ctx
    = [lower (rrc_book_title ctx), lower (rrc_source_name ctx), lower (rrc_source_url ctx)]"

definition scope_tokens :: "(ustr \<Rightarrow> ustr) \<Rightarrow> ustr option \<Rightarrow> ustr list" where
  "scope_tokens lower scope = (case scope of
     None \<Rightarrow> []
   | Some s \<Rightarrow> filter (\<lambda>t. t \<noteq> []) (map (\<lambda>t. lower (trim t))
       (split_on (\<lambda>c. c \<in> set (lit '',;|'')) s)))"

fun replace_rule_matches_target :: "replace_rule \<Rightarrow> replace_rule_target \<Rightarrow> bool" where
  "replace_rule_matches_target rule TargetTitle = rr_scope_title rule"
| "replace_rule_matches_target rule TargetContent = rr_scope_content rule"

definition replace_rule_matches_scope ::
    "(ustr \<Rightarrow> ustr) \<Rightarrow> replace_rule \<Rightarrow> replace_rule_context \<Rightarrow> bool" where
  "replace_rule_matches_scope lower rule ctx = (
     let fields = searchable_fields lower ctx;
         include = scope_tokens lower (rr_scope rule);
         include_hit = (include = [] \<or> list_ex (\<lambda>tok. list_ex (\<lambda>f. contains f tok) fields) include)
     in if \<not> include_hit then False
        else let exclude = scope_tokens lower (rr_exclude_scope rule)
             in if exclude = [] then True
                else \<not> list_ex (\<lambda>tok. list_ex (\<lambda>f. contains f tok) fields) exclude)"

lemma scope_tokens_nonempty: "t \<in> set (scope_tokens lower s) \<Longrightarrow> t \<noteq> []"
  by (auto simp: scope_tokens_def split: option.splits)

lemma replace_rule_matches_scope_iff:
  "replace_rule_matches_scope lower rule ctx \<longleftrightarrow>
     (let hit = (\<lambda>toks. \<exists>t \<in> set toks. \<exists>f \<in> set (searchable_fields lower ctx). contains f t)
      in (scope_tokens lower (rr_scope rule) = [] \<or> hit (scope_tokens lower (rr_scope rule)))
         \<and> \<not> hit (scope_tokens lower (rr_exclude_scope rule)))"
  by (auto simp: replace_rule_matches_scope_def Let_def list_ex_iff)

end
