(* ===== verification/StorageTypes.thy ===== *)
theory StorageTypes
  imports Domain
begin

text \<open>
  The data types of \<open>crates/reader-storage/src/lib.rs\<close>: shelf, chapter cache, progress, download
  queue and snapshot rows, the tables of \<open>StorageInner\<close>, and \<open>StorageError\<close>. The composite
  key structs are tuples. \<open>Panicked\<close> is not a variant of the source: it stands for a failed
  \<open>expect\<close>, so that the absence of panics is a theorem.
\<close>

datatype storage_error =
    Poisoned
  | InvalidKey string
  | InvalidProgress string
  | InvalidDownloadTask string
  | InvalidChapterCache string
  | InvalidSnapshot string
  | UnsupportedSnapshotSchemaVersion u32
  | StorageNotFound ustr ustr
  | DownloadTaskNotFound ustr ustr u32
  | Panicked string

type_synonym 'a result = "storage_error + 'a"

record cached_entry =
  ce_key :: ustr
  ce_payload :: ustr

record bookshelf_entry =
  be_source_id :: ustr
  be_book_id :: ustr
  be_title :: ustr
  be_author :: ustr
  be_cover_url :: "ustr option"
  be_intro :: "ustr option"
  be_kind :: "ustr option"
  be_last_chapter :: "ustr option"
  be_added_at :: int
  be_last_read_at :: "int option"
  be_group :: "ustr option"
  be_sort_index :: int

datatype bookshelf_sort_by = SortManual | SortAddedAt | SortLastReadAt | SortTitle | SortAuthor

datatype bookshelf_sort_direction = Ascending | Descending

record bookshelf_query =
  bq_source_id :: "ustr option"
  bq_group :: "ustr option"
  bq_keyword :: "ustr option"
  bq_has_reading_progress :: "bool option"
  bq_sort_by :: bookshelf_sort_by
  bq_sort_direction :: bookshelf_sort_direction
  bq_offset :: nat
  bq_limit :: "nat option"

definition default_bookshelf_query :: bookshelf_query where
  "default_bookshelf_query = \<lparr>bq_source_id = None, bq_group = None, bq_keyword = None,
     bq_has_reading_progress = None, bq_sort_by = SortManual, bq_sort_direction = Ascending,
     bq_offset = 0, bq_limit = None\<rparr>"

type_synonym shelf_key = "ustr \<times> ustr"
type_synonym chapter_cache_key = "ustr \<times> ustr \<times> u32"
type_synonym reading_progress_key = "ustr \<times> ustr"
type_synonym chapter_download_key = "ustr \<times> ustr \<times> u32"
type_synonym read_record_key = "ustr \<times> ustr"

definition entry_shelf_key :: "bookshelf_entry \<Rightarrow> shelf_key" where
  "entry_shelf_key e = (be_source_id e, be_book_id e)"

record chapter_cache_entry =
  cc_source_id :: ustr
  cc_book_id :: ustr
  cc_chapter_index :: u32
  cc_title :: ustr
  cc_url :: ustr
  cc_content :: ustr
  cc_cached_at :: int
  cc_revision :: "ustr option"

definition entry_cache_key :: "chapter_cache_entry \<Rightarrow> chapter_cache_key" where
  "entry_cache_key e = (cc_source_id e, cc_book_id e, cc_chapter_index e)"

record chapter_cache_stats =
  cs_entry_count :: nat
  cs_total_content_bytes :: nat
  cs_oldest_cached_at :: "int option"
  cs_newest_cached_at :: "int option"

record retention_policy =
  pol_max_entries :: "nat option"
  pol_max_total_content_bytes :: "nat option"
  pol_min_cached_at :: "int option"

record eviction_report =
  er_removed :: "chapter_cache_entry list"
  er_remaining :: chapter_cache_stats

record cache_coverage =
  cov_source_id :: ustr
  cov_book_id :: ustr
  cov_chapter_count :: u32
  cov_cached_indexes :: "u32 list"
  cov_missing_indexes :: "u32 list"
  cov_cached_count :: nat
  cov_missing_count :: nat
  cov_total_content_bytes :: nat
  cov_oldest_cached_at :: "int option"
  cov_newest_cached_at :: "int option"
  cov_complete :: bool

record prefetch_plan =
  pf_source_id :: ustr
  pf_book_id :: ustr
  pf_chapter_count :: u32
  pf_anchor_index :: u32
  pf_window_start :: u32
  pf_window_end_exclusive :: u32
  pf_missing_indexes :: "u32 list"

datatype chapter_cache_status =
    CsMissing | CsDownloading | CsAvailable | CsValidated | CsStale | CsInvalidated | CsFailed
  | CsPartial | CsEvicted

record progress_entry =
  pe_source_id :: ustr
  pe_book_id :: ustr
  pe_chapter_index :: u32
  pe_chapter_offset :: u64
  pe_chapter_progress :: f64
  pe_updated_at :: int
  pe_device_id :: "ustr option"

definition entry_progress_key :: "progress_entry \<Rightarrow> reading_progress_key" where
  "entry_progress_key e = (pe_source_id e, pe_book_id e)"

definition as_domain_progress :: "progress_entry \<Rightarrow> reading_progress" where
  "as_domain_progress e = \<lparr>rp_book_id = pe_book_id e, rp_chapter_index = pe_chapter_index e,
     rp_chapter_offset = pe_chapter_offset e, rp_chapter_progress = pe_chapter_progress e\<rparr>"

datatype download_status = DlPending | DlInProgress | DlCompleted | DlFailed | DlCancelled

record download_task =
  dt_source_id :: ustr
  dt_book_id :: ustr
  dt_chapter_index :: u32
  dt_title :: ustr
  dt_url :: ustr
  dt_priority :: int
  dt_status :: download_status
  dt_created_at :: int
  dt_updated_at :: int
  dt_attempts :: u32
  dt_max_attempts :: u32
  dt_last_error :: "ustr option"

definition task_download_key :: "download_task \<Rightarrow> chapter_download_key" where
  "task_download_key t = (dt_source_id t, dt_book_id t, dt_chapter_index t)"

definition record_key :: "read_record \<Rightarrow> read_record_key" where
  "record_key r = (rd_device_id r, rd_book_name r)"

record storage =
  sources :: "(ustr, source) hmap"
  books :: "(ustr, book) hmap"
  cache :: "(ustr, cached_entry) hmap"
  legacy_progress :: "(ustr, reading_progress) hmap"
  shelf :: "(shelf_key, bookshelf_entry) hmap"
  chapter_cache :: "(chapter_cache_key, chapter_cache_entry) hmap"
  progress :: "(reading_progress_key, progress_entry) hmap"
  progress_history :: "(reading_progress_key, progress_entry list) hmap"
  downloads :: "(chapter_download_key, download_task) hmap"
  txt_toc_rules :: "(int, txt_toc_rule) hmap"
  bookmarks :: "(int, bookmark) hmap"
  replace_rules :: "(int, replace_rule) hmap"
  dict_rules :: "(ustr, dict_rule) hmap"
  book_groups :: "(int, book_group) hmap"
  read_records :: "(read_record_key, read_record) hmap"

definition empty_storage :: storage where
  "empty_storage = \<lparr>sources = [], books = [], cache = [], legacy_progress = [], shelf = [],
     chapter_cache = [], progress = [], progress_history = [], downloads = [],
     txt_toc_rules = [], bookmarks = [], replace_rules = [], dict_rules = [],
     book_groups = [], read_records = []\<rparr>"

record storage_snapshot =
  sn_schema_version :: u32
  sn_exported_at :: int
  sn_sources :: "source list"
  sn_books :: "book list"
  sn_cache :: "cached_entry list"
  sn_legacy_progress :: "reading_progress list"
  sn_bookshelf :: "bookshelf_entry list"
  sn_chapter_cache :: "chapter_cache_entry list"
  sn_progress :: "progress_entry list"
  sn_progress_history :: "progress_entry list"
  sn_downloads :: "download_task list"
  sn_txt_toc_rules :: "txt_toc_rule list"
  sn_bookmarks :: "bookmark list"
  sn_replace_rules :: "replace_rule list"
  sn_dict_rules :: "dict_rule list"
  sn_book_groups :: "book_group list"
  sn_read_records :: "read_record list"

definition snapshot_schema_version :: u32 where
  "snapshot_schema_version = 3"

definition empty_snapshot :: "int \<Rightarrow> storage_snapshot" where
  "empty_snapshot t = \<lparr>sn_schema_version = snapshot_schema_version, sn_exported_at = t,
     sn_sources = [], sn_books = [], sn_cache = [], sn_legacy_progress = [], sn_bookshelf = [],
     sn_chapter_cache = [], sn_progress = [], sn_progress_history = [], sn_downloads = [],
     sn_txt_toc_rules = [], sn_bookmarks = [], sn_replace_rules = [], sn_dict_rules = [],
     sn_book_groups = [], sn_read_records = []\<rparr>"

subsection \<open>Validators\<close>

definition validate_source_id :: "ustr \<Rightarrow> unit result" where
  "validate_source_id s = ensure (\<not> blank s) (InvalidKey ''source_id'')"

definition validate_book_key :: "ustr \<Rightarrow> ustr \<Rightarrow> unit result" where
  "validate_book_key s b = checks
     [ensure (\<not> blank s) (InvalidKey ''source_id''), ensure (\<not> blank b) (InvalidKey ''book_id'')]"

definition validate_shelf_key :: "ustr \<Rightarrow> ustr \<Rightarrow> unit result" where
  "validate_shelf_key s b = validate_book_key s b"

definition validate_source :: "source \<Rightarrow> unit result" where
  "validate_source s = validate_source_id (src_source_id s)"

definition validate_book :: "book \<Rightarrow> unit result" where
  "validate_book b = ensure (\<not> blank (bk_book_id b)) (InvalidKey ''book_id'')"

definition validate_cache_entry :: "cached_entry \<Rightarrow> unit result" where
  "validate_cache_entry e = ensure (\<not> blank (ce_key e)) (InvalidKey ''key'')"

definition validate_domain_progress :: "reading_progress \<Rightarrow> unit result" where
  "validate_domain_progress p = checks
     [ensure (\<not> blank (rp_book_id p)) (InvalidKey ''book_id''),
      ensure (is_fraction (rp_chapter_progress p)) (InvalidProgress ''chapter_progress'')]"

definition validate_reading_progress :: "progress_entry \<Rightarrow> unit result" where
  "validate_reading_progress e = checks
     [validate_book_key (pe_source_id e) (pe_book_id e),
      ensure (is_fraction (pe_chapter_progress e)) (InvalidProgress ''chapter_progress''),
      ensure (\<not> blank_opt (pe_device_id e)) (InvalidProgress ''device_id'')]"

definition validate_download_task :: "download_task \<Rightarrow> unit result" where
  "validate_download_task t = checks
     [validate_book_key (dt_source_id t) (dt_book_id t),
      ensure (dt_max_attempts t \<noteq> 0) (InvalidDownloadTask ''max_attempts''),
      ensure (dt_attempts t \<le> dt_max_attempts t) (InvalidDownloadTask ''attempts''),
      ensure (\<not> blank_opt (dt_last_error t)) (InvalidDownloadTask ''last_error'')]"

definition valid_key :: "ustr \<times> ustr \<Rightarrow> bool" where
  "valid_key k = (\<not> blank (fst k) \<and> \<not> blank (snd k))"

lemma validate_book_key_ok [simp]: "validate_book_key s b = Inr u \<longleftrightarrow> valid_key (s, b)"
  by (simp add: validate_book_key_def valid_key_def checks_ok)

lemma validate_shelf_key_ok [simp]: "validate_shelf_key s b = Inr u \<longleftrightarrow> valid_key (s, b)"
  by (simp add: validate_shelf_key_def)

lemma validate_reading_progress_ok:
  "validate_reading_progress e = Inr u \<longleftrightarrow> valid_key (entry_progress_key e)
     \<and> is_fraction (pe_chapter_progress e) \<and> \<not> blank_opt (pe_device_id e)"
  by (simp add: validate_reading_progress_def checks_ok entry_progress_key_def)

lemma validate_download_task_ok:
  "validate_download_task t = Inr u \<longleftrightarrow> valid_key (dt_source_id t, dt_book_id t)
     \<and> dt_max_attempts t \<noteq> 0 \<and> dt_attempts t \<le> dt_max_attempts t \<and> \<not> blank_opt (dt_last_error t)"
  by (simp add: validate_download_task_def checks_ok)

end
