(* ===== verification/Stores.thy ===== *)
theory Stores
  imports StorageTypes
begin

text \<open>
  The interfaces between the storage tables and their clients. \<open>upsert_store\<close> is the contract
  of a \<open>put\<close>/\<open>get\<close> pair over one table: an accepted \<open>put\<close> stores one row under the row's
  own key (merged with the row already there by \<open>upsert\<close>) and touches no other key, a refused one
  leaves the state as it was, and \<open>get\<close> reads the table. \<open>deletable_store\<close> adds removal and
  \<open>sorted_listing\<close> is the contract of a \<open>list\<close> operation. Every storage component interprets them
  on its own operations.
\<close>

type_synonym ('s, 'a) update = "'a result \<times> 's"

definition try_state :: "'a result \<Rightarrow> 's \<Rightarrow> ('a \<Rightarrow> ('s, 'b) update) \<Rightarrow> ('s, 'b) update" where
  \<comment> \<open>the \<open>?\<close> operator in an operation that has not changed the state yet\<close>
  "try_state r s f = (case r of Inl e \<Rightarrow> (Inl e, s) | Inr a \<Rightarrow> f a)"

lemma try_state_simps [simp]:
  "try_state (Inl e) s f = (Inl e, s)" "try_state (Inr a) s f = f a"
  by (simp_all add: try_state_def)

lemma try_state_unit:
  "try_state r s f = (if r = Inr () then f () else (Inl (projl r), s))"
  by (cases r) auto

definition sub_table :: "('k \<Rightarrow> bool) \<Rightarrow> ('k \<Rightarrow> 'j) \<Rightarrow> ('k, 'v) hmap \<Rightarrow> ('j, 'v) hmap" where
  \<comment> \<open>the rows whose keys satisfy \<open>P\<close>, under a part \<open>g\<close> of their keys\<close>
  "sub_table P g m = map (\<lambda>(k, v). (g k, v)) (filter (\<lambda>(k, v). P k) m)"

lemma values_sub_table: "hm_values (sub_table P g m) = map snd (filter (\<lambda>(k, v). P k) m)"
  by (simp add: hm_values_def sub_table_def case_prod_unfold)

lemma keyed_sub_table:
  assumes m: "keyed f m" and inj: "inj_on g {k. P k}" and f': "\<And>v. f' v = g (f v)"
  shows "keyed f' (sub_table P g m)"
proof -
  have "distinct (map (\<lambda>p. g (fst p)) (filter (\<lambda>(k, v). P k) m))"
  proof -
    have d: "distinct m" "inj_on fst (set m)"
      using m by (simp_all add: keyed_def hm_ok_def distinct_map)
    have "inj_on (\<lambda>p. g (fst p)) (set (filter (\<lambda>(k, v). P k) m))"
    proof (rule inj_onI)
      fix p q
      assume "p \<in> set (filter (\<lambda>(k, v). P k) m)" "q \<in> set (filter (\<lambda>(k, v). P k) m)"
        and "g (fst p) = g (fst q)"
      then have "p \<in> set m" "q \<in> set m" "fst p = fst q"
        using inj_onD[OF inj, of "fst p" "fst q"] by (auto split: prod.splits)
      with d(2) show "p = q" by (simp add: inj_on_def)
    qed
    with d(1) show ?thesis by (simp add: distinct_map)
  qed
  moreover have "\<forall>(j, v) \<in> set (sub_table P g m). j = f' v"
    using m by (auto simp: keyed_def sub_table_def f')
  ultimately show ?thesis
    by (simp add: keyed_def hm_ok_def sub_table_def comp_def case_prod_unfold)
qed

lemma map_of_sub_table:
  assumes m: "keyed f m" and inj: "inj_on g {k. P k}" and k: "P k"
  shows "map_of (sub_table P g m) (g k) = map_of m k"
proof -
  have ok: "hm_ok (sub_table P g m)"
    using keyed_sub_table[OF m inj, of "\<lambda>v. g (f v)"] by (simp add: keyed_hm_ok)
  have "(g k, v) \<in> set (sub_table P g m) \<longleftrightarrow> (k, v) \<in> set m" for v
    using inj k by (force simp: sub_table_def inj_on_def)
  then have "map_of (sub_table P g m) (g k) = Some v \<longleftrightarrow> map_of m k = Some v" for v
    using ok m by (simp add: in_set_iff_map_of[symmetric] keyed_hm_ok)
  then show ?thesis by (metis not_None_eq)
qed

locale upsert_store =
  fixes put :: "'s \<Rightarrow> 'v \<Rightarrow> ('s, 'v) update"
    and get :: "'s \<Rightarrow> 'k \<Rightarrow> 'v option result"
    and key :: "'v \<Rightarrow> 'k"
    and upsert :: "'v option \<Rightarrow> 'v \<Rightarrow> 'v"
    and accepts :: "'v \<Rightarrow> bool"
    and readable :: "'k \<Rightarrow> bool"
    and tbl :: "'s \<Rightarrow> 'k \<Rightarrow> 'v option"
    and inv :: "'s \<Rightarrow> bool"
  assumes put_result: "accepts v \<Longrightarrow> fst (put s v) = Inr (upsert (tbl s (key v)) v)"
    and put_table: "accepts v \<Longrightarrow> tbl (snd (put s v)) = (tbl s)(key v \<mapsto> upsert (tbl s (key v)) v)"
    and put_refused: "\<not> accepts v \<Longrightarrow> (\<exists>e. fst (put s v) = Inl e) \<and> snd (put s v) = s"
    and put_inv: "inv s \<Longrightarrow> inv (snd (put s v))"
    and get_table: "readable k \<Longrightarrow> get s k = Inr (tbl s k)"
    and get_refused: "\<not> readable k \<Longrightarrow> \<exists>e. get s k = Inl e"
begin

fun put_all :: "'s \<Rightarrow> 'v list \<Rightarrow> 's" where
  "put_all s [] = s"
| "put_all s (v # vs) = put_all (snd (put s v)) vs"

fun upsert_all :: "('k \<Rightarrow> 'v option) \<Rightarrow> 'v list \<Rightarrow> ('k \<Rightarrow> 'v option)" where
  "upsert_all m [] = m"
| "upsert_all m (v # vs)
    = upsert_all (if accepts v then m(key v \<mapsto> upsert (m (key v)) v) else m) vs"

lemma get_after_put:
  "accepts v \<Longrightarrow> readable (key v) \<Longrightarrow>
     get (snd (put s v)) (key v) = Inr (Some (upsert (tbl s (key v)) v))"
  by (simp add: get_table put_table)

lemma get_other_after_put: "readable k \<Longrightarrow> k \<noteq> key v \<Longrightarrow> get (snd (put s v)) k = get s k"
  by (cases "accepts v") (simp_all add: get_table put_table put_refused)

lemma put_all_refines: "tbl (put_all s vs) = upsert_all (tbl s) vs"
  by (induction vs arbitrary: s) (auto simp: put_table put_refused)

lemma put_all_inv: "inv s \<Longrightarrow> inv (put_all s vs)"
  by (induction vs arbitrary: s) (auto simp: put_inv)

lemma upsert_all_at:
  "upsert_all m vs k
    = fold (\<lambda>v old. Some (upsert old v)) (filter (\<lambda>v. accepts v \<and> key v = k) vs) (m k)"
  by (induction vs arbitrary: m) auto

lemma put_all_any_order:
  assumes "mset vs = mset ws"
    and comm: "\<And>v w old. v \<in> set vs \<Longrightarrow> w \<in> set vs \<Longrightarrow> v \<noteq> w \<Longrightarrow> key v = key w \<Longrightarrow>
      upsert (Some (upsert old v)) w = upsert (Some (upsert old w)) v"
  shows "tbl (put_all s vs) = tbl (put_all s ws)"
proof
  fix k
  let ?f = "\<lambda>v old. Some (upsert old v)" and ?P = "\<lambda>v. accepts v \<and> key v = k"
  have "fold ?f (filter ?P vs) = fold ?f (filter ?P ws)"
  proof (rule fold_multiset_equiv)
    show "mset (filter ?P vs) = mset (filter ?P ws)" using assms(1) by simp
    show "?f x \<circ> ?f y = ?f y \<circ> ?f x" if "x \<in> set (filter ?P vs)" "y \<in> set (filter ?P vs)" for x y
      using that comm[of x y] by (cases "x = y") (auto simp: fun_eq_iff)
  qed
  then show "tbl (put_all s vs) k = tbl (put_all s ws) k"
    by (simp add: put_all_refines upsert_all_at)
qed

end

locale deletable_store = upsert_store put get key upsert accepts readable tbl inv
  for put :: "'s \<Rightarrow> 'v \<Rightarrow> ('s, 'v) update"
    and get :: "'s \<Rightarrow> 'k \<Rightarrow> 'v option result"
    and key :: "'v \<Rightarrow> 'k"
    and upsert :: "'v option \<Rightarrow> 'v \<Rightarrow> 'v"
    and accepts :: "'v \<Rightarrow> bool"
    and readable :: "'k \<Rightarrow> bool"
    and tbl :: "'s \<Rightarrow> 'k \<Rightarrow> 'v option"
    and inv :: "'s \<Rightarrow> bool" +
  fixes del :: "'s \<Rightarrow> 'k \<Rightarrow> ('s, unit) update"
    and deletable :: "'k \<Rightarrow> bool"
  assumes del_result: "deletable k \<Longrightarrow> fst (del s k) = Inr ()"
    and del_table: "deletable k \<Longrightarrow> tbl (snd (del s k)) = (tbl s)(k := None)"
    and del_refused: "\<not> deletable k \<Longrightarrow> (\<exists>e. fst (del s k) = Inl e) \<and> snd (del s k) = s"
    and del_inv: "inv s \<Longrightarrow> inv (snd (del s k))"
begin

lemma get_after_del: "deletable k \<Longrightarrow> readable k \<Longrightarrow> get (snd (del s k)) k = Inr None"
  by (simp add: get_table del_table)

lemma del_idempotent:
  "deletable k \<Longrightarrow> tbl (snd (del (snd (del s k)) k)) = tbl (snd (del s k))"
  by (simp add: del_table)

lemma del_after_put:
  "accepts v \<Longrightarrow> deletable (key v) \<Longrightarrow>
     tbl (snd (del (snd (put s v)) (key v))) = tbl (snd (del s (key v)))"
  by (simp add: put_table del_table)

end

locale sorted_listing = comparator c for c :: "'a cmp" +
  fixes rows :: "'s \<Rightarrow> ('k, 'a) hmap"
    and key :: "'a \<Rightarrow> 'k"
    and keep :: "'a \<Rightarrow> bool"
    and listing :: "'s \<Rightarrow> 'a list"
  assumes listing_eq: "listing s = sort_by c (filter keep (hm_values (rows s)))"
    and separates: "c a b = Equal \<Longrightarrow> key a = key b"
begin

lemma listing_sorted: "sorted_wrt (cmp_le c) (listing s)"
  by (simp add: listing_eq sorted_sort)

lemma listing_rows: "mset (listing s) = mset (filter keep (hm_values (rows s)))"
  by (simp add: listing_eq)

lemma listing_mem:
  "keyed key (rows s) \<Longrightarrow> v \<in> set (listing s) \<longleftrightarrow> map_of (rows s) (key v) = Some v \<and> keep v"
  by (auto simp: listing_eq in_values_iff keyed_hm_ok dest: keyedD)

lemma listing_deterministic:
  "keyed key (rows s) \<Longrightarrow> keyed key (rows s') \<Longrightarrow> map_of (rows s) = map_of (rows s') \<Longrightarrow>
     listing s = listing s'"
  unfolding listing_eq
  by (rule sort_listing_unique[OF comparator_axioms, where f = key]) (simp_all add: separates)

end

end
