(* ===== verification/Entities.thy ===== *)
theory Entities
  imports Stores
begin

text \<open>
  The independent entity tables of \<open>InMemoryStorage\<close> in \<open>crates/reader-storage/src/lib.rs\<close>:
  sources, cached books, payload cache and legacy progress (\<open>put_*\<close>/\<open>get_*\<close>), and TXT
  table-of-contents rules, bookmarks, replace rules, dictionary rules, book groups and read records
  (\<open>put_*\<close>/\<open>get_*\<close>/\<open>list_*\<close>/\<open>delete_*\<close>). Unicode \<open>str::to_lowercase\<close> in
  \<open>search_bookmarks\<close> is the argument \<open>lower\<close>.
\<close>

subsection \<open>Sources, books, cache and legacy progress\<close>

definition put_source :: "storage \<Rightarrow> source \<Rightarrow> (storage, source) update" where
  "put_source s x = (Inr x, s\<lparr>sources := hm_insert (src_source_id x) x (sources s)\<rparr>)"

definition get_source :: "storage \<Rightarrow> ustr \<Rightarrow> source option result" where
  "get_source s source_id = Inr (map_of (sources s) source_id)"

definition put_book :: "storage \<Rightarrow> book \<Rightarrow> (storage, book) update" where
  "put_book s x = (Inr x, s\<lparr>books := hm_insert (bk_book_id x) x (books s)\<rparr>)"

definition get_book :: "storage \<Rightarrow> ustr \<Rightarrow> book option result" where
  "get_book s book_id = Inr (map_of (books s) book_id)"

definition put_cache :: "storage \<Rightarrow> ustr \<Rightarrow> ustr \<Rightarrow> (storage, cached_entry) update" where
  "put_cache s key payload = (let entry = \<lparr>ce_key = key, ce_payload = payload\<rparr>
     in (Inr entry, s\<lparr>cache := hm_insert (ce_key entry) entry (cache s)\<rparr>))"

definition get_cache :: "storage \<Rightarrow> ustr \<Rightarrow> cached_entry option result" where
  "get_cache s key = Inr (map_of (cache s) key)"

definition put_progress :: "storage \<Rightarrow> reading_progress \<Rightarrow> (storage, reading_progress) update" where
  "put_progress s x = (Inr x, s\<lparr>legacy_progress := hm_insert (rp_book_id x) x (legacy_progress s)\<rparr>)"

definition get_progress :: "storage \<Rightarrow> ustr \<Rightarrow> reading_progress option result" where
  "get_progress s book_id = Inr (map_of (legacy_progress s) book_id)"

subsection \<open>Rules, bookmarks, groups and read records\<close>

definition put_txt_toc_rule :: "storage \<Rightarrow> txt_toc_rule \<Rightarrow> (storage, txt_toc_rule) update" where
  "put_txt_toc_rule s x = (Inr x, s\<lparr>txt_toc_rules := hm_insert (ttr_id x) x (txt_toc_rules s)\<rparr>)"

definition get_txt_toc_rule :: "storage \<Rightarrow> int \<Rightarrow> txt_toc_rule option result" where
  "get_txt_toc_rule s rule_id = Inr (map_of (txt_toc_rules s) rule_id)"

definition txt_toc_rule_cmp :: "txt_toc_rule cmp" where
  "txt_toc_rule_cmp = chain (by_key ttr_serial_number) (by_key ttr_id)"

definition list_txt_toc_rules :: "storage \<Rightarrow> txt_toc_rule list" where
  "list_txt_toc_rules s = sort_by txt_toc_rule_cmp (hm_values (txt_toc_rules s))"

definition list_enabled_txt_toc_rules :: "storage \<Rightarrow> txt_toc_rule list" where
  "list_enabled_txt_toc_rules s
     = sort_by txt_toc_rule_cmp (filter ttr_enable (hm_values (txt_toc_rules s)))"

definition delete_txt_toc_rule :: "storage \<Rightarrow> int \<Rightarrow> (storage, unit) update" where
  "delete_txt_toc_rule s rule_id = (Inr (), s\<lparr>txt_toc_rules := hm_remove rule_id (txt_toc_rules s)\<rparr>)"

definition put_bookmark :: "storage \<Rightarrow> bookmark \<Rightarrow> (storage, bookmark) update" where
  "put_bookmark s x = (Inr x, s\<lparr>bookmarks := hm_insert (bm_time x) x (bookmarks s)\<rparr>)"

definition get_bookmark :: "storage \<Rightarrow> int \<Rightarrow> bookmark option result" where
  "get_bookmark s time = Inr (map_of (bookmarks s) time)"

definition list_bookmarks :: "storage \<Rightarrow> bookmark list" where
  "list_bookmarks s = sort_by (by_key bm_time) (hm_values (bookmarks s))"

definition list_bookmarks_by_book :: "storage \<Rightarrow> ustr \<Rightarrow> ustr \<Rightarrow> bookmark list" where
  "list_bookmarks_by_book s book_name book_author = sort_by (by_key bm_time)
     (filter (\<lambda>b. bm_book_name b = book_name \<and> bm_book_author b = book_author) (hm_values (bookmarks s)))"

definition search_bookmarks :: "(ustr \<Rightarrow> ustr) \<Rightarrow> storage \<Rightarrow> ustr \<Rightarrow> bookmark list" where
  "search_bookmarks lower s key = (let needle = lower key
     in sort_by (by_key bm_time) (filter (\<lambda>b. contains (lower (bm_book_name b)) needle
          \<or> contains (lower (bm_chapter_name b)) needle \<or> contains (lower (bm_content b)) needle
          \<or> contains (lower (bm_book_text b)) needle) (hm_values (bookmarks s))))"

definition delete_bookmark :: "storage \<Rightarrow> int \<Rightarrow> (storage, unit) update" where
  "delete_bookmark s time = (Inr (), s\<lparr>bookmarks := hm_remove time (bookmarks s)\<rparr>)"

definition put_replace_rule :: "storage \<Rightarrow> replace_rule \<Rightarrow> (storage, replace_rule) update" where
  "put_replace_rule s x = (Inr x, s\<lparr>replace_rules := hm_insert (rr_id x) x (replace_rules s)\<rparr>)"

definition get_replace_rule :: "storage \<Rightarrow> int \<Rightarrow> replace_rule option result" where
  "get_replace_rule s rule_id = Inr (map_of (replace_rules s) rule_id)"

definition replace_rule_cmp :: "replace_rule cmp" where
  "replace_rule_cmp = chain (by_key rr_order) (by_key rr_id)"

definition list_replace_rules :: "storage \<Rightarrow> replace_rule list" where
  "list_replace_rules s = sort_by replace_rule_cmp (hm_values (replace_rules s))"

definition delete_replace_rule :: "storage \<Rightarrow> int \<Rightarrow> (storage, unit) update" where
  "delete_replace_rule s rule_id = (Inr (), s\<lparr>replace_rules := hm_remove rule_id (replace_rules s)\<rparr>)"

definition put_dict_rule :: "storage \<Rightarrow> dict_rule \<Rightarrow> (storage, dict_rule) update" where
  "put_dict_rule s x = (if blank (dr_name x) then (Inl (InvalidKey ''dict_rules.name''), s)
     else (Inr x, s\<lparr>dict_rules := hm_insert (dr_name x) x (dict_rules s)\<rparr>))"

definition get_dict_rule :: "storage \<Rightarrow> ustr \<Rightarrow> dict_rule option result" where
  "get_dict_rule s name = Inr (map_of (dict_rules s) name)"

definition dict_rule_cmp :: "dict_rule cmp" where
  "dict_rule_cmp = by_key dr_name"

definition list_dict_rules :: "storage \<Rightarrow> dict_rule list" where
  "list_dict_rules s = sort_by dict_rule_cmp (hm_values (dict_rules s))"

definition delete_dict_rule :: "storage \<Rightarrow> ustr \<Rightarrow> (storage, unit) update" where
  "delete_dict_rule s name = (Inr (), s\<lparr>dict_rules := hm_remove name (dict_rules s)\<rparr>)"

definition put_book_group :: "storage \<Rightarrow> book_group \<Rightarrow> (storage, book_group) update" where
  "put_book_group s x = (Inr x, s\<lparr>book_groups := hm_insert (bg_group_id x) x (book_groups s)\<rparr>)"

definition get_book_group :: "storage \<Rightarrow> int \<Rightarrow> book_group option result" where
  "get_book_group s group_id = Inr (map_of (book_groups s) group_id)"

definition book_group_cmp :: "book_group cmp" where
  "book_group_cmp = chain (by_key bg_order) (by_key bg_group_id)"

definition list_book_groups :: "storage \<Rightarrow> book_group list" where
  "list_book_groups s = sort_by book_group_cmp (hm_values (book_groups s))"

definition delete_book_group :: "storage \<Rightarrow> int \<Rightarrow> (storage, unit) update" where
  "delete_book_group s group_id = (Inr (), s\<lparr>book_groups := hm_remove group_id (book_groups s)\<rparr>)"

definition put_read_record :: "storage \<Rightarrow> read_record \<Rightarrow> (storage, read_record) update" where
  "put_read_record s x = (if blank (rd_book_name x) then (Inl (InvalidKey ''read_records.book_name''), s)
     else (Inr x, s\<lparr>read_records := hm_insert (record_key x) x (read_records s)\<rparr>))"

definition get_read_record :: "storage \<Rightarrow> ustr \<Rightarrow> ustr \<Rightarrow> read_record option result" where
  "get_read_record s device_id book_name = Inr (map_of (read_records s) (device_id, book_name))"

definition read_record_cmp :: "read_record cmp" where
  "read_record_cmp = chain (by_key rd_device_id) (by_key rd_book_name)"

definition list_read_records :: "storage \<Rightarrow> read_record list" where
  "list_read_records s = sort_by read_record_cmp (hm_values (read_records s))"

definition delete_read_record :: "storage \<Rightarrow> ustr \<Rightarrow> ustr \<Rightarrow> (storage, unit) update" where
  "delete_read_record s device_id book_name
     = (Inr (), s\<lparr>read_records := hm_remove (device_id, book_name) (read_records s)\<rparr>)"

subsection \<open>Interfaces\<close>

lemma cached_entry_eta [simp]: "\<lparr>ce_key = ce_key e, ce_payload = ce_payload e\<rparr> = e"
  by (cases e) simp

definition overwrite :: "'v option \<Rightarrow> 'v \<Rightarrow> 'v" where
  \<comment> \<open>a plain \<open>HashMap::insert\<close> keeps nothing of the old row\<close>
  "overwrite old v = v"

interpretation source_store: upsert_store
  put_source get_source src_source_id overwrite "\<lambda>_. True" "\<lambda>_. True" "\<lambda>s. map_of (sources s)"
  "\<lambda>s. keyed src_source_id (sources s)"
  by unfold_locales (simp_all add: put_source_def get_source_def overwrite_def table_simps keyed_insert)

interpretation book_store: upsert_store
  put_book get_book bk_book_id overwrite "\<lambda>_. True" "\<lambda>_. True" "\<lambda>s. map_of (books s)"
  "\<lambda>s. keyed bk_book_id (books s)"
  by unfold_locales (simp_all add: put_book_def get_book_def overwrite_def table_simps keyed_insert)

interpretation cache_store: upsert_store
  "\<lambda>s e. put_cache s (ce_key e) (ce_payload e)" get_cache ce_key overwrite "\<lambda>_. True" "\<lambda>_. True" "\<lambda>s. map_of (cache s)"
  "\<lambda>s. keyed ce_key (cache s)"
  by unfold_locales (simp_all add: put_cache_def Let_def get_cache_def overwrite_def table_simps keyed_insert)

interpretation legacy_store: upsert_store
  put_progress get_progress rp_book_id overwrite "\<lambda>_. True" "\<lambda>_. True" "\<lambda>s. map_of (legacy_progress s)"
  "\<lambda>s. keyed rp_book_id (legacy_progress s)"
  by unfold_locales (simp_all add: put_progress_def get_progress_def overwrite_def table_simps keyed_insert)

interpretation txt_toc_rule_store: deletable_store
  put_txt_toc_rule get_txt_toc_rule ttr_id overwrite "\<lambda>_. True" "\<lambda>_. True"
  "\<lambda>s. map_of (txt_toc_rules s)" "\<lambda>s. keyed ttr_id (txt_toc_rules s)" delete_txt_toc_rule "\<lambda>_. True"
  by unfold_locales
    (simp_all add: put_txt_toc_rule_def get_txt_toc_rule_def delete_txt_toc_rule_def overwrite_def table_simps keyed_insert keyed_remove)

interpretation bookmark_store: deletable_store
  put_bookmark get_bookmark bm_time overwrite "\<lambda>_. True" "\<lambda>_. True"
  "\<lambda>s. map_of (bookmarks s)" "\<lambda>s. keyed bm_time (bookmarks s)" delete_bookmark "\<lambda>_. True"
  by unfold_locales
    (simp_all add: put_bookmark_def get_bookmark_def delete_bookmark_def overwrite_def table_simps keyed_insert keyed_remove)

interpretation replace_rule_store: deletable_store
  put_replace_rule get_replace_rule rr_id overwrite "\<lambda>_. True" "\<lambda>_. True"
  "\<lambda>s. map_of (replace_rules s)" "\<lambda>s. keyed rr_id (replace_rules s)" delete_replace_rule "\<lambda>_. True"
  by unfold_locales
    (simp_all add: put_replace_rule_def get_replace_rule_def delete_replace_rule_def overwrite_def table_simps keyed_insert keyed_remove)

interpretation dict_rule_store: deletable_store
  put_dict_rule get_dict_rule dr_name overwrite "\<lambda>x. \<not> blank (dr_name x)" "\<lambda>_. True"
  "\<lambda>s. map_of (dict_rules s)" "\<lambda>s. keyed dr_name (dict_rules s)" delete_dict_rule "\<lambda>_. True"
  by unfold_locales
    (simp_all add: put_dict_rule_def get_dict_rule_def delete_dict_rule_def overwrite_def table_simps keyed_insert keyed_remove)

interpretation book_group_store: deletable_store
  put_book_group get_book_group bg_group_id overwrite "\<lambda>_. True" "\<lambda>_. True"
  "\<lambda>s. map_of (book_groups s)" "\<lambda>s. keyed bg_group_id (book_groups s)" delete_book_group "\<lambda>_. True"
  by unfold_locales
    (simp_all add: put_book_group_def get_book_group_def delete_book_group_def overwrite_def table_simps keyed_insert keyed_remove)

interpretation read_record_store: deletable_store
  put_read_record "\<lambda>s k. get_read_record s (fst k) (snd k)" record_key overwrite "\<lambda>x. \<not> blank (rd_book_name x)" "\<lambda>_. True"
  "\<lambda>s. map_of (read_records s)" "\<lambda>s. keyed record_key (read_records s)" "\<lambda>s k. delete_read_record s (fst k) (snd k)" "\<lambda>_. True"
  by unfold_locales
    (simp_all add: put_read_record_def get_read_record_def delete_read_record_def overwrite_def table_simps keyed_insert keyed_remove)

interpretation txt_toc_rule_listing: sorted_listing txt_toc_rule_cmp txt_toc_rules ttr_id "\<lambda>_. True" list_txt_toc_rules
  unfolding sorted_listing_def sorted_listing_axioms_def
  by (auto simp: txt_toc_rule_cmp_def list_txt_toc_rules_def intro!: comparator_intros)

interpretation bookmark_listing: sorted_listing "by_key bm_time" bookmarks bm_time "\<lambda>_. True" list_bookmarks
  unfolding sorted_listing_def sorted_listing_axioms_def
  by (auto simp: list_bookmarks_def intro!: comparator_intros)

interpretation replace_rule_listing: sorted_listing replace_rule_cmp replace_rules rr_id "\<lambda>_. True" list_replace_rules
  unfolding sorted_listing_def sorted_listing_axioms_def
  by (auto simp: replace_rule_cmp_def list_replace_rules_def intro!: comparator_intros)

interpretation dict_rule_listing: sorted_listing dict_rule_cmp dict_rules dr_name "\<lambda>_. True" list_dict_rules
  unfolding sorted_listing_def sorted_listing_axioms_def
  by (auto simp: dict_rule_cmp_def list_dict_rules_def intro!: comparator_intros)

interpretation book_group_listing: sorted_listing book_group_cmp book_groups bg_group_id "\<lambda>_. True" list_book_groups
  unfolding sorted_listing_def sorted_listing_axioms_def
  by (auto simp: book_group_cmp_def list_book_groups_def intro!: comparator_intros)

interpretation read_record_listing: sorted_listing read_record_cmp read_records record_key "\<lambda>_. True" list_read_records
  unfolding sorted_listing_def sorted_listing_axioms_def
  by (auto simp: read_record_cmp_def list_read_records_def record_key_def intro!: comparator_intros)

lemmas entity_listings = txt_toc_rule_listing.listing_mem bookmark_listing.listing_mem
  replace_rule_listing.listing_mem dict_rule_listing.listing_mem book_group_listing.listing_mem
  read_record_listing.listing_mem

subsection \<open>Properties\<close>

text \<open>
  The filtered views agree with the full listings: the enabled TXT rules, the bookmarks of a book
  and the bookmark search results are the full listing with the other rows left out, so they come
  in the same order; the search needle is looked for in the four text fields only.
\<close>
theorem filtered_views:
  "list_enabled_txt_toc_rules s = filter ttr_enable (list_txt_toc_rules s)
    \<and> list_bookmarks_by_book s n a
      = filter (\<lambda>b. bm_book_name b = n \<and> bm_book_author b = a) (list_bookmarks s)
    \<and> search_bookmarks lower s key = filter (\<lambda>b. \<exists>f \<in> {bm_book_name, bm_chapter_name, bm_content, bm_book_text}.
        contains (lower (f b)) (lower key)) (list_bookmarks s)"
  by (simp add: list_enabled_txt_toc_rules_def list_txt_toc_rules_def list_bookmarks_by_book_def
      list_bookmarks_def search_bookmarks_def Let_def txt_toc_rule_listing.filter_sort
      bookmark_listing.filter_sort)

definition entities_keyed :: "storage \<Rightarrow> bool" where
  "entities_keyed s = (keyed src_source_id (sources s) \<and> keyed bk_book_id (books s)
     \<and> keyed ce_key (cache s) \<and> keyed rp_book_id (legacy_progress s)
     \<and> keyed ttr_id (txt_toc_rules s) \<and> keyed bm_time (bookmarks s) \<and> keyed rr_id (replace_rules s)
     \<and> keyed dr_name (dict_rules s) \<and> keyed bg_group_id (book_groups s)
     \<and> keyed record_key (read_records s))"

definition same_entity_rows :: "storage \<Rightarrow> storage \<Rightarrow> bool" where
  "same_entity_rows s s' = (map_of (txt_toc_rules s) = map_of (txt_toc_rules s')
     \<and> map_of (bookmarks s) = map_of (bookmarks s') \<and> map_of (replace_rules s) = map_of (replace_rules s')
     \<and> map_of (dict_rules s) = map_of (dict_rules s') \<and> map_of (book_groups s) = map_of (book_groups s')
     \<and> map_of (read_records s) = map_of (read_records s'))"

text \<open>
  Every entity listing is a function of the table's contents: two storages with the same rows,
  whatever the iteration order of their hash maps, list rules, bookmarks, groups and read records
  identically, each row once.
\<close>
theorem entity_listings_deterministic:
  assumes "entities_keyed s" and "entities_keyed s'" and "same_entity_rows s s'"
  shows "list_txt_toc_rules s = list_txt_toc_rules s' \<and> list_bookmarks s = list_bookmarks s'
    \<and> list_replace_rules s = list_replace_rules s' \<and> list_dict_rules s = list_dict_rules s'
    \<and> list_book_groups s = list_book_groups s' \<and> list_read_records s = list_read_records s'
    \<and> distinct (map ttr_id (list_txt_toc_rules s)) \<and> distinct (map bm_time (list_bookmarks s))
    \<and> distinct (map rr_id (list_replace_rules s)) \<and> distinct (map dr_name (list_dict_rules s))
    \<and> distinct (map bg_group_id (list_book_groups s)) \<and> distinct (map record_key (list_read_records s))"
proof -
  note a = assms[unfolded entities_keyed_def same_entity_rows_def]
  have "list_txt_toc_rules s = list_txt_toc_rules s'" "list_bookmarks s = list_bookmarks s'"
    "list_replace_rules s = list_replace_rules s'" "list_dict_rules s = list_dict_rules s'"
    "list_book_groups s = list_book_groups s'" "list_read_records s = list_read_records s'"
    using a by (simp_all add: txt_toc_rule_listing.listing_deterministic[of s s']
        bookmark_listing.listing_deterministic[of s s'] replace_rule_listing.listing_deterministic[of s s']
        dict_rule_listing.listing_deterministic[of s s'] book_group_listing.listing_deterministic[of s s']
        read_record_listing.listing_deterministic[of s s'])
  moreover have "distinct (map ttr_id (list_txt_toc_rules s))" "distinct (map bm_time (list_bookmarks s))"
    "distinct (map rr_id (list_replace_rules s))" "distinct (map dr_name (list_dict_rules s))"
    "distinct (map bg_group_id (list_book_groups s))" "distinct (map record_key (list_read_records s))"
    unfolding list_txt_toc_rules_def list_bookmarks_def list_replace_rules_def list_dict_rules_def
      list_book_groups_def list_read_records_def distinct_map_sort_by
    using a(1) by (blast intro: keyed_distinct_values)+
  ultimately show ?thesis by blast
qed

definition sample_bookmark :: "int \<Rightarrow> bookmark" where
  "sample_bookmark t = \<lparr>bm_time = t, bm_book_name = lit ''Book'', bm_book_author = [], bm_chapter_index = 0,
     bm_chapter_pos = 0, bm_chapter_name = [], bm_book_text = [], bm_content = []\<rparr>"

theorem entity_listings_deterministic_witness:
  "list_bookmarks (empty_storage\<lparr>bookmarks := [(2, sample_bookmark 2), (1, sample_bookmark 1)]\<rparr>)
    = list_bookmarks (empty_storage\<lparr>bookmarks := [(1, sample_bookmark 1), (2, sample_bookmark 2)]\<rparr>)"
proof -
  let ?s = "empty_storage\<lparr>bookmarks := [(2, sample_bookmark 2), (1, sample_bookmark 1)]\<rparr>"
  let ?t = "empty_storage\<lparr>bookmarks := [(1, sample_bookmark 1), (2, sample_bookmark 2)]\<rparr>"
  have "entities_keyed ?s" "entities_keyed ?t"
    by (simp_all add: entities_keyed_def empty_storage_def keyed_def hm_ok_def sample_bookmark_def)
  moreover have "same_entity_rows ?s ?t"
    by (simp add: same_entity_rows_def fun_eq_iff)
  ultimately show ?thesis using entity_listings_deterministic[of ?s ?t] by blast
qed

end
