(* ===== verification/DownloadQueue.thy ===== *)
theory DownloadQueue
  imports Stores
begin

text \<open>
  The chapter download queue of \<open>InMemoryStorage\<close> (\<open>impl ChapterDownloadQueueStore\<close> and
  \<open>update_download_task\<close> in \<open>crates/reader-storage/src/lib.rs\<close>): enqueueing, claiming the next
  task by priority, and the status updates a worker reports. \<open>update_download_task\<close> changes the row
  before it validates it, as the source does.
\<close>

subsection \<open>Operations\<close>

definition chapter_download_key :: "ustr \<Rightarrow> ustr \<Rightarrow> u32 \<Rightarrow> chapter_download_key result" where
  "chapter_download_key source_id book_id chapter_index =
     and_then (validate_book_key source_id book_id) (\<lambda>_. Inr (source_id, book_id, chapter_index))"

definition default_max_attempts :: u32 where
  "default_max_attempts = 3"

definition pending_download_task ::
    "ustr \<Rightarrow> ustr \<Rightarrow> u32 \<Rightarrow> ustr \<Rightarrow> ustr \<Rightarrow> int \<Rightarrow> int \<Rightarrow> download_task result" where
  \<comment> \<open>\<open>ChapterDownloadTask::pending\<close>\<close>
  "pending_download_task source_id book_id chapter_index title url priority created_at = (
     let task = \<lparr>dt_source_id = source_id, dt_book_id = book_id, dt_chapter_index = chapter_index,
           dt_title = title, dt_url = url, dt_priority = priority, dt_status = DlPending,
           dt_created_at = created_at, dt_updated_at = created_at, dt_attempts = 0,
           dt_max_attempts = default_max_attempts, dt_last_error = None\<rparr>
     in and_then (validate_download_task task) (\<lambda>_. Inr task))"

definition is_claimable_download :: "download_task \<Rightarrow> bool" where
  "is_claimable_download t
     = (dt_status t \<in> {DlPending, DlFailed} \<and> dt_attempts t < dt_max_attempts t)"

definition compare_download_claim_order :: "download_task cmp" where
  "compare_download_claim_order = chain (flip_cmp (by_key dt_priority)) (chain (by_key dt_updated_at)
     (chain (by_key dt_created_at) (chain (by_key dt_source_id)
     (chain (by_key dt_book_id) (by_key dt_chapter_index)))))"

definition enqueue_chapter_download :: "storage \<Rightarrow> download_task \<Rightarrow> (storage, download_task) update" where
  "enqueue_chapter_download s task0 = try_state (validate_download_task task0) s (\<lambda>_.
     let key = task_download_key task0;
         created_at = (case map_of (downloads s) key of
            Some existing \<Rightarrow> dt_created_at existing | None \<Rightarrow> dt_created_at task0);
         task = task0\<lparr>dt_created_at := created_at, dt_status := DlPending, dt_attempts := 0,
            dt_last_error := None\<rparr>
     in try_state (validate_download_task task) s
          (\<lambda>_. (Inr task, s\<lparr>downloads := hm_insert key task (downloads s)\<rparr>)))"

definition get_chapter_download :: "storage \<Rightarrow> ustr \<Rightarrow> ustr \<Rightarrow> u32 \<Rightarrow> download_task option result" where
  "get_chapter_download s source_id book_id chapter_index =
     and_then (chapter_download_key source_id book_id chapter_index)
       (\<lambda>key. Inr (map_of (downloads s) key))"

definition list_chapter_downloads :: "storage \<Rightarrow> ustr \<Rightarrow> ustr \<Rightarrow> download_task list result" where
  "list_chapter_downloads s source_id book_id = and_then (validate_book_key source_id book_id)
     (\<lambda>_. Inr (sort_by (by_key dt_chapter_index)
        (map snd (filter (\<lambda>((i, b, n), t). i = source_id \<and> b = book_id) (downloads s)))))"

definition claim_update :: "int \<Rightarrow> download_task \<Rightarrow> download_task" where
  "claim_update now t = t\<lparr>dt_status := DlInProgress, dt_attempts := dt_attempts t + 1,
     dt_updated_at := now, dt_last_error := None\<rparr>"

definition claim_next_chapter_download :: "storage \<Rightarrow> int \<Rightarrow> (storage, download_task option) update" where
  "claim_next_chapter_download s now = (
     let next_key = map_option fst (min_by (\<lambda>p q. compare_download_claim_order (snd p) (snd q))
           (filter (\<lambda>p. is_claimable_download (snd p)) (downloads s)))
     in case next_key of
          None \<Rightarrow> (Inr None, s)
        | Some key \<Rightarrow> (case map_of (downloads s) key of
            None \<Rightarrow> (Inl (Panicked ''claimed key must exist''), s)
          | Some t \<Rightarrow> (Inr (Some (claim_update now t)),
              s\<lparr>downloads := hm_modify key (claim_update now) (downloads s)\<rparr>)))"

definition update_download_task ::
    "storage \<Rightarrow> ustr \<Rightarrow> ustr \<Rightarrow> u32 \<Rightarrow> (download_task \<Rightarrow> download_task) \<Rightarrow> (storage, download_task) update" where
  "update_download_task s source_id book_id chapter_index f =
     try_state (chapter_download_key source_id book_id chapter_index) s (\<lambda>key.
     case map_of (downloads s) key of
       None \<Rightarrow> (Inl (DownloadTaskNotFound source_id book_id chapter_index), s)
     | Some t \<Rightarrow> let s' = s\<lparr>downloads := hm_modify key f (downloads s)\<rparr>
         in try_state (validate_download_task (f t)) s' (\<lambda>_. (Inr (f t), s')))"

definition finish_update :: "download_status \<Rightarrow> int \<Rightarrow> ustr option \<Rightarrow> download_task \<Rightarrow> download_task" where
  "finish_update status now err t
     = t\<lparr>dt_status := status, dt_updated_at := now, dt_last_error := err\<rparr>"

definition mark_chapter_download_completed ::
    "storage \<Rightarrow> ustr \<Rightarrow> ustr \<Rightarrow> u32 \<Rightarrow> int \<Rightarrow> (storage, download_task) update" where
  "mark_chapter_download_completed s source_id book_id chapter_index now =
     update_download_task s source_id book_id chapter_index (finish_update DlCompleted now None)"

definition mark_chapter_download_failed ::
    "storage \<Rightarrow> ustr \<Rightarrow> ustr \<Rightarrow> u32 \<Rightarrow> ustr \<Rightarrow> int \<Rightarrow> (storage, download_task) update" where
  "mark_chapter_download_failed s source_id book_id chapter_index error now = (
     let err = trim error
     in if err = [] then (Inl (InvalidDownloadTask ''last_error''), s)
        else update_download_task s source_id book_id chapter_index (finish_update DlFailed now (Some err)))"

definition cancel_chapter_download ::
    "storage \<Rightarrow> ustr \<Rightarrow> ustr \<Rightarrow> u32 \<Rightarrow> int \<Rightarrow> (storage, download_task) update" where
  "cancel_chapter_download s source_id book_id chapter_index now =
     update_download_task s source_id book_id chapter_index (finish_update DlCancelled now None)"

definition clear_finished_chapter_downloads :: "storage \<Rightarrow> ustr \<Rightarrow> ustr \<Rightarrow> (storage, nat) update" where
  "clear_finished_chapter_downloads s source_id book_id =
     try_state (validate_book_key source_id book_id) s (\<lambda>_.
       let kept = hm_retain (\<lambda>(i, b, n) t. \<not> (i = source_id \<and> b = book_id
                     \<and> dt_status t \<in> {DlCompleted, DlCancelled})) (downloads s)
       in (Inr (length (downloads s) - length kept), s\<lparr>downloads := kept\<rparr>))"

subsection \<open>Interfaces\<close>

definition download_key_valid :: "chapter_download_key \<Rightarrow> bool" where
  "download_key_valid k = valid_key (fst k, fst (snd k))"

definition valid_task :: "download_task \<Rightarrow> bool" where
  "valid_task t = is_ok (validate_download_task t)"

definition queue_inv :: "storage \<Rightarrow> bool" where
  "queue_inv s = (keyed task_download_key (downloads s) \<and> (\<forall>(k, t) \<in> set (downloads s). valid_task t))"

definition requeued :: "download_task option \<Rightarrow> download_task \<Rightarrow> download_task" where
  \<comment> \<open>what \<open>enqueue_chapter_download\<close> promises to store\<close>
  "requeued old t = t\<lparr>dt_created_at := (case old of Some o' \<Rightarrow> dt_created_at o' | None \<Rightarrow> dt_created_at t),
     dt_status := DlPending, dt_attempts := 0, dt_last_error := None\<rparr>"

lemma valid_task_iff:
  "valid_task t \<longleftrightarrow> download_key_valid (task_download_key t) \<and> dt_max_attempts t \<noteq> 0
     \<and> dt_attempts t \<le> dt_max_attempts t \<and> \<not> blank_opt (dt_last_error t)"
  by (simp add: valid_task_def is_ok_unit validate_download_task_ok download_key_valid_def
      task_download_key_def)

lemma validate_valid_task: "validate_download_task t = Inr () \<longleftrightarrow> valid_task t"
  by (simp add: valid_task_def is_ok_unit)

lemma task_key_updates [simp]:
  "task_download_key (requeued old t) = task_download_key t"
  "task_download_key (claim_update now t) = task_download_key t"
  "task_download_key (finish_update st now err t) = task_download_key t"
  by (simp_all add: task_download_key_def requeued_def claim_update_def finish_update_def)

lemma valid_requeued: "valid_task t \<Longrightarrow> valid_task (requeued old t)"
  by (simp add: valid_task_iff) (simp add: requeued_def blank_opt_def)

lemma valid_finish:
  "valid_task t \<Longrightarrow> \<not> blank_opt err \<Longrightarrow> valid_task (finish_update st now err t)"
  by (simp add: valid_task_iff) (simp add: finish_update_def)

lemma claim_attempts:
  assumes "is_claimable_download t"
  shows "unat (dt_attempts (claim_update now t)) = unat (dt_attempts t) + 1"
    and "dt_attempts (claim_update now t) \<le> dt_max_attempts t"
proof -
  have lt: "unat (dt_attempts t) < unat (dt_max_attempts t)"
    using assms by (simp add: is_claimable_download_def word_less_nat_alt)
  have "unat (dt_max_attempts t) < 2 ^ LENGTH(32)" by (rule unsigned_less)
  with lt have "unat (dt_attempts t) + 1 < 2 ^ LENGTH(32)" by linarith
  then show eq: "unat (dt_attempts (claim_update now t)) = unat (dt_attempts t) + 1"
    by (simp add: claim_update_def unat_word_ariths)
  show "dt_attempts (claim_update now t) \<le> dt_max_attempts t"
    unfolding word_le_nat_alt eq using lt by simp
qed

lemma valid_claim: "valid_task t \<Longrightarrow> is_claimable_download t \<Longrightarrow> valid_task (claim_update now t)"
  using claim_attempts(2)[of t now] by (simp add: valid_task_iff) (simp add: claim_update_def blank_opt_def)

lemma enqueue_eq:
  "enqueue_chapter_download s t = (if valid_task t
     then let t' = requeued (map_of (downloads s) (task_download_key t)) t
          in (Inr t', s\<lparr>downloads := hm_insert (task_download_key t) t' (downloads s)\<rparr>)
     else (Inl (projl (validate_download_task t)), s))"
proof (cases "valid_task t")
  case True
  from valid_requeued[OF this] True show ?thesis
    by (simp add: enqueue_chapter_download_def try_state_unit validate_valid_task requeued_def Let_def)
qed (simp add: enqueue_chapter_download_def try_state_unit validate_valid_task)

lemma queue_inv_insert:
  "queue_inv s \<Longrightarrow> valid_task t \<Longrightarrow> k = task_download_key t \<Longrightarrow>
     queue_inv (s\<lparr>downloads := hm_insert k t (downloads s)\<rparr>)"
  by (auto simp: queue_inv_def keyed_insert set_hm_insert keyed_hm_ok)

lemma queue_inv_modify:
  assumes "queue_inv s" and "\<And>t. task_download_key (f t) = task_download_key t"
    and "\<And>t. map_of (downloads s) k = Some t \<Longrightarrow> valid_task (f t)"
  shows "queue_inv (s\<lparr>downloads := hm_modify k f (downloads s)\<rparr>)"
proof -
  have ok: "hm_ok (downloads s)" using assms(1) by (auto simp: queue_inv_def dest: keyed_hm_ok)
  have "valid_task t" if "(j, t) \<in> set (hm_modify k f (downloads s))" for j t
  proof -
    have "map_of (hm_modify k f (downloads s)) j = Some t"
      using that ok by (simp add: in_set_iff_map_of)
    then show ?thesis
      using assms(1,3) by (cases "j = k") (auto simp: table_simps queue_inv_def dest: map_of_SomeD)
  qed
  with assms show ?thesis by (auto simp: queue_inv_def keyed_modify)
qed

lemma update_download_task_eq:
  assumes "download_key_valid (i, b, n)" and "map_of (downloads s) (i, b, n) = Some t" and "valid_task (f t)"
  shows "update_download_task s i b n f
    = (Inr (f t), s\<lparr>downloads := hm_modify (i, b, n) f (downloads s)\<rparr>)"
  using assms by (simp add: update_download_task_def chapter_download_key_def and_then_unit
      try_state_unit download_key_valid_def validate_valid_task)

interpretation queue_store: upsert_store
  enqueue_chapter_download "\<lambda>s k. get_chapter_download s (fst k) (fst (snd k)) (snd (snd k))"
  task_download_key requeued valid_task download_key_valid "\<lambda>s. map_of (downloads s)" queue_inv
proof unfold_locales
  show "queue_inv (snd (enqueue_chapter_download s v))" if "queue_inv s" for s v
    using that by (simp add: enqueue_eq Let_def queue_inv_insert valid_requeued)
qed (simp_all add: enqueue_eq Let_def get_chapter_download_def chapter_download_key_def and_then_unit
    download_key_valid_def table_simps)

interpretation queue_listing: sorted_listing "by_key dt_chapter_index"
  "\<lambda>s. sub_table (\<lambda>k. fst k = i \<and> fst (snd k) = b) (\<lambda>k. snd (snd k)) (downloads s)"
  dt_chapter_index "\<lambda>_. True" "\<lambda>s. sort_by (by_key dt_chapter_index)
     (map snd (filter (\<lambda>((j, c, n), t). j = i \<and> c = b) (downloads s)))" for i b
  unfolding sorted_listing_def sorted_listing_axioms_def
  by (auto simp: values_sub_table case_prod_unfold intro!: comparator_intros)

interpretation claim_order: comparator "\<lambda>p q. compare_download_claim_order (snd p) (snd q)"
  for dummy :: "(chapter_download_key \<times> download_task) itself"
proof -
  have c: "comparator compare_download_claim_order"
    by (simp add: compare_download_claim_order_def comparator_intros)
  show "comparator (\<lambda>p q. compare_download_claim_order (snd p) (snd q))"
    by unfold_locales (use comparator.cmp_refl[OF c] comparator.cmp_swap[OF c] comparator.cmp_trans[OF c] in auto)
qed

subsection \<open>Claiming\<close>

lemma claim_order_separates:
  "compare_download_claim_order a b = Equal \<Longrightarrow> task_download_key a = task_download_key b"
  by (simp add: compare_download_claim_order_def task_download_key_def)

lemma claim_order_le:
  "cmp_le compare_download_claim_order a b \<Longrightarrow> dt_priority a > dt_priority b
     \<or> dt_priority a = dt_priority b \<and> dt_updated_at a \<le> dt_updated_at b"
  by (auto simp: compare_download_claim_order_def chain_def then_with_Greater flip_cmp_def by_key_def
      rcmp_def split: if_splits)

lemma claim_cases:
  assumes "queue_inv s"
  obtains (none) "\<forall>k t. map_of (downloads s) k = Some t \<longrightarrow> \<not> is_claimable_download t"
      "claim_next_chapter_download s now = (Inr None, s)"
    | (some) k t where "map_of (downloads s) k = Some t" "is_claimable_download t"
      "\<forall>k' t'. map_of (downloads s) k' = Some t' \<longrightarrow> is_claimable_download t'
         \<longrightarrow> cmp_le compare_download_claim_order t t'"
      "claim_next_chapter_download s now = (Inr (Some (claim_update now t)),
         s\<lparr>downloads := hm_modify k (claim_update now) (downloads s)\<rparr>)"
proof -
  let ?c = "\<lambda>p q. compare_download_claim_order (snd p) (snd q)"
  let ?rows = "filter (\<lambda>p. is_claimable_download (snd p)) (downloads s)"
  have ok: "hm_ok (downloads s)" using assms by (auto simp: queue_inv_def dest: keyed_hm_ok)
  have mem: "(k, t) \<in> set ?rows \<longleftrightarrow> map_of (downloads s) k = Some t \<and> is_claimable_download t" for k t
    by (auto simp: in_set_iff_map_of[OF ok])
  show thesis
  proof (cases "min_by ?c ?rows")
    case None
    then have "?rows = []" by simp
    with mem have "\<forall>k t. map_of (downloads s) k = Some t \<longrightarrow> \<not> is_claimable_download t"
      by (metis list.set(1) empty_iff)
    moreover have "claim_next_chapter_download s now = (Inr None, s)"
      unfolding claim_next_chapter_download_def None by simp
    ultimately show thesis by (rule none)
  next
    case (Some p)
    obtain k t where p: "p = (k, t)" by (cases p)
    have "(k, t) \<in> set ?rows" using min_by_in[OF Some] p by simp
    then have kt: "map_of (downloads s) k = Some t" "is_claimable_download t" using mem by auto
    have "cmp_le compare_download_claim_order t t'"
      if "map_of (downloads s) k' = Some t'" "is_claimable_download t'" for k' t'
    proof -
      have "(k', t') \<in> set ?rows" using that mem by blast
      from claim_order.min_by_le[OF Some this] p show ?thesis by simp
    qed
    moreover have "claim_next_chapter_download s now = (Inr (Some (claim_update now t)),
        s\<lparr>downloads := hm_modify k (claim_update now) (downloads s)\<rparr>)"
      unfolding claim_next_chapter_download_def Some using p kt(1) by simp
    ultimately show thesis using kt by (intro some[of k t]) blast+
  qed
qed

lemma claim_inv:
  assumes "queue_inv s" shows "queue_inv (snd (claim_next_chapter_download s now))"
proof (rule claim_cases[OF assms, of now])
  fix k t
  assume t: "map_of (downloads s) k = Some t" "is_claimable_download t"
    and eq: "claim_next_chapter_download s now = (Inr (Some (claim_update now t)),
         s\<lparr>downloads := hm_modify k (claim_update now) (downloads s)\<rparr>)"
  have "valid_task t"
    using assms t(1) by (auto simp: queue_inv_def dest!: map_of_SomeD)
  then have "queue_inv (s\<lparr>downloads := hm_modify k (claim_update now) (downloads s)\<rparr>)"
    using t by (intro queue_inv_modify[OF assms]) (auto intro: valid_claim)
  with eq show ?thesis by simp
qed (use assms in simp)

lemma finish_inv:
  assumes "queue_inv s" and err: "\<not> blank_opt err"
  shows "queue_inv (snd (update_download_task s i b n (finish_update st now err)))"
proof (cases "valid_key (i, b)")
  case True
  show ?thesis
  proof (cases "map_of (downloads s) (i, b, n)")
    case (Some t)
    have "valid_task t" using assms(1) Some by (auto simp: queue_inv_def dest!: map_of_SomeD)
    then have "update_download_task s i b n (finish_update st now err) = (Inr (finish_update st now err t),
        s\<lparr>downloads := hm_modify (i, b, n) (finish_update st now err) (downloads s)\<rparr>)"
      using True Some err by (intro update_download_task_eq) (auto simp: download_key_valid_def valid_finish)
    moreover have "queue_inv (s\<lparr>downloads := hm_modify (i, b, n) (finish_update st now err) (downloads s)\<rparr>)"
      using Some err \<open>valid_task t\<close> by (intro queue_inv_modify[OF assms(1)]) (auto simp: valid_finish)
    ultimately show ?thesis by simp
  qed (use assms in \<open>simp add: update_download_task_def chapter_download_key_def and_then_unit try_state_unit True\<close>)
qed (use assms in \<open>simp add: update_download_task_def chapter_download_key_def and_then_unit try_state_def\<close>)

lemma not_blank_error: "trim e \<noteq> [] \<Longrightarrow> \<not> blank_opt (Some (trim e))"
  using not_blank_trim[of e] by (simp add: blank_opt_def blank_def)

lemma clear_finished_inv:
  "queue_inv s \<Longrightarrow> queue_inv (snd (clear_finished_chapter_downloads s i b))"
  by (auto simp: clear_finished_chapter_downloads_def try_state_unit Let_def queue_inv_def keyed_retain
      set_hm_retain)

subsection \<open>Properties\<close>

definition sample_task :: "u32 \<Rightarrow> int \<Rightarrow> download_task" where
  "sample_task n prio = \<lparr>dt_source_id = lit ''s'', dt_book_id = lit ''b'', dt_chapter_index = n,
     dt_title = [], dt_url = [], dt_priority = prio, dt_status = DlPending, dt_created_at = 0,
     dt_updated_at = 0, dt_attempts = 0, dt_max_attempts = 3, dt_last_error = None\<rparr>"

definition sample_queue :: storage where
  "sample_queue = empty_storage\<lparr>downloads :=
     [((lit ''s'', lit ''b'', 0), sample_task 0 1), ((lit ''s'', lit ''b'', 1), sample_task 1 5)]\<rparr>"

lemma valid_sample_task: "valid_task (sample_task n prio)"
  by (simp add: valid_task_iff sample_task_def task_download_key_def download_key_valid_def valid_key_def
      blank_iff is_whitespace_def blank_opt_def)

lemma queue_inv_sample: "queue_inv sample_queue"
  by (simp add: queue_inv_def sample_queue_def keyed_def hm_ok_def valid_sample_task)
    (simp add: sample_task_def task_download_key_def)

text \<open>
  Claiming serves the queue by priority: with no claimable task it answers \<open>None\<close> and changes
  nothing; otherwise it answers one claimable row, no claimable row has a higher priority or the
  same priority and an older update time, exactly that row changes (in progress, one attempt more
  without wrap-around and within the limit), and the \<open>expect\<close> in the code cannot panic.
\<close>
theorem claim_serves_highest_priority:
  assumes "queue_inv s"
  shows "queue_inv (snd (claim_next_chapter_download s now))
    \<and> (case fst (claim_next_chapter_download s now) of
        Inl e \<Rightarrow> False
      | Inr None \<Rightarrow> snd (claim_next_chapter_download s now) = s
          \<and> (\<forall>k t. map_of (downloads s) k = Some t \<longrightarrow> \<not> is_claimable_download t)
      | Inr (Some t') \<Rightarrow> (\<exists>k t. map_of (downloads s) k = Some t \<and> is_claimable_download t
          \<and> t' = claim_update now t \<and> unat (dt_attempts t') = unat (dt_attempts t) + 1
          \<and> dt_attempts t' \<le> dt_max_attempts t'
          \<and> map_of (downloads (snd (claim_next_chapter_download s now))) = (map_of (downloads s))(k \<mapsto> t')
          \<and> (\<forall>k2 t2. map_of (downloads s) k2 = Some t2 \<and> is_claimable_download t2 \<longrightarrow>
              dt_priority t2 < dt_priority t
              \<or> dt_priority t2 = dt_priority t \<and> dt_updated_at t \<le> dt_updated_at t2)))"
proof (rule claim_cases[OF assms, of now])
  fix k t
  assume t: "map_of (downloads s) k = Some t" "is_claimable_download t"
    "\<forall>k' t'. map_of (downloads s) k' = Some t' \<longrightarrow> is_claimable_download t'
       \<longrightarrow> cmp_le compare_download_claim_order t t'"
    and eq: "claim_next_chapter_download s now = (Inr (Some (claim_update now t)),
         s\<lparr>downloads := hm_modify k (claim_update now) (downloads s)\<rparr>)"
  have "dt_attempts (claim_update now t) \<le> dt_max_attempts (claim_update now t)"
    using claim_attempts(2)[OF t(2), of now] by (simp add: claim_update_def)
  moreover have "map_of (downloads (snd (claim_next_chapter_download s now)))
      = (map_of (downloads s))(k \<mapsto> claim_update now t)"
    by (simp add: eq table_simps t(1))
  moreover have "\<forall>k2 t2. map_of (downloads s) k2 = Some t2 \<and> is_claimable_download t2 \<longrightarrow>
      dt_priority t2 < dt_priority t \<or> dt_priority t2 = dt_priority t \<and> dt_updated_at t \<le> dt_updated_at t2"
    using t(3) claim_order_le[of t] by metis
  ultimately have "\<exists>k u. map_of (downloads s) k = Some u \<and> is_claimable_download u
      \<and> claim_update now t = claim_update now u
      \<and> unat (dt_attempts (claim_update now t)) = unat (dt_attempts u) + 1
      \<and> dt_attempts (claim_update now t) \<le> dt_max_attempts (claim_update now t)
      \<and> map_of (downloads (snd (claim_next_chapter_download s now)))
          = (map_of (downloads s))(k \<mapsto> claim_update now t)
      \<and> (\<forall>k2 t2. map_of (downloads s) k2 = Some t2 \<and> is_claimable_download t2 \<longrightarrow>
          dt_priority t2 < dt_priority u
          \<or> dt_priority t2 = dt_priority u \<and> dt_updated_at u \<le> dt_updated_at t2)"
    using t(1,2) claim_attempts(1)[OF t(2), of now] by blast
  then show ?thesis
    using claim_inv[OF assms, of now] by (simp only: eq fst_conv sum.case option.case simp_thms)
qed (use assms in simp)

theorem claim_serves_highest_priority_witness:
  "fst (claim_next_chapter_download sample_queue 7) = Inr (Some (claim_update 7 (sample_task 1 5)))"
proof -
  have rows: "map_of (downloads sample_queue) k = Some t \<longleftrightarrow>
      k = (lit ''s'', lit ''b'', 0) \<and> t = sample_task 0 1 \<or> k = (lit ''s'', lit ''b'', 1) \<and> t = sample_task 1 5"
    for k t by (auto simp: sample_queue_def)
  have c: "is_claimable_download (sample_task n p)" for n p
    by (simp add: is_claimable_download_def sample_task_def)
  let ?r = "claim_next_chapter_download sample_queue 7"
  note thm' = claim_serves_highest_priority[OF queue_inv_sample, of 7, THEN conjunct2]
  have r1: "map_of (downloads sample_queue) (lit ''s'', lit ''b'', 1) = Some (sample_task 1 5)"
    using rows by blast
  have "fst ?r \<noteq> Inr None"
  proof
    assume "fst ?r = Inr None"
    with thm' have "\<forall>k t. map_of (downloads sample_queue) k = Some t \<longrightarrow> \<not> is_claimable_download t"
      by simp
    with r1 c show False by blast
  qed
  with thm' obtain t where t: "fst ?r = Inr (Some t)"
    by (cases "fst ?r"; cases "projr (fst ?r)") auto
  with thm' obtain k u where u: "map_of (downloads sample_queue) k = Some u" "t = claim_update 7 u"
    "\<forall>k2 t2. map_of (downloads sample_queue) k2 = Some t2 \<and> is_claimable_download t2 \<longrightarrow>
       dt_priority t2 < dt_priority u \<or> dt_priority t2 = dt_priority u \<and> dt_updated_at u \<le> dt_updated_at t2"
    by auto
  from r1 u(3) c have "5 \<le> dt_priority u" by (fastforce simp: sample_task_def)
  with u(1) rows have "u = sample_task 1 5" by (auto simp: sample_task_def)
  with t u(2) show ?thesis by simp
qed

text \<open>
  A worker's report on a task (completed, failed with a non-blank error, cancelled) succeeds
  exactly when the task is queued: although the code changes the row before validating it, the
  validation cannot fail, so a failed report never changes the queue, and a successful one sets
  status, time and error of that one row and keeps its attempts.
\<close>
theorem worker_reports_atomic:
  assumes inv: "queue_inv s" and key: "valid_key (i, b)" and err: "trim e \<noteq> []"
  shows "\<forall>(op, u) \<in> set [(mark_chapter_download_completed s i b n now, finish_update DlCompleted now None),
      (mark_chapter_download_failed s i b n e now, finish_update DlFailed now (Some (trim e))),
      (cancel_chapter_download s i b n now, finish_update DlCancelled now None)].
    queue_inv (snd op) \<and> (case map_of (downloads s) (i, b, n) of
        None \<Rightarrow> op = (Inl (DownloadTaskNotFound i b n), s)
      | Some t \<Rightarrow> fst op = Inr (u t) \<and> dt_attempts (u t) = dt_attempts t
          \<and> map_of (downloads (snd op)) = (map_of (downloads s))((i, b, n) \<mapsto> u t))"
proof -
  have report: "case map_of (downloads s) (i, b, n) of
        None \<Rightarrow> op = (Inl (DownloadTaskNotFound i b n), s)
      | Some t \<Rightarrow> fst op = Inr (finish_update st now x t) \<and> dt_attempts (finish_update st now x t) = dt_attempts t
          \<and> map_of (downloads (snd op)) = (map_of (downloads s))((i, b, n) \<mapsto> finish_update st now x t)"
    if x: "\<not> blank_opt x" and op: "op = update_download_task s i b n (finish_update st now x)" for x st op
  proof (cases "map_of (downloads s) (i, b, n)")
    case None
    then show ?thesis using key op by (simp add: update_download_task_def chapter_download_key_def
          and_then_unit try_state_unit)
  next
    case (Some t)
    have "valid_task t" using inv Some by (auto simp: queue_inv_def dest!: map_of_SomeD)
    with x key Some have "op = (Inr (finish_update st now x t),
        s\<lparr>downloads := hm_modify (i, b, n) (finish_update st now x) (downloads s)\<rparr>)"
      unfolding op by (intro update_download_task_eq) (simp_all add: download_key_valid_def valid_finish)
    then show ?thesis by (simp add: Some table_simps) (simp add: finish_update_def)
  qed
  have none: "\<not> blank_opt None" by (simp add: blank_opt_def)
  note err' = not_blank_error[OF err]
  show ?thesis
    unfolding list.set ball_simps(5,7) prod.case mark_chapter_download_completed_def
      cancel_chapter_download_def mark_chapter_download_failed_def Let_def if_not_P[OF err]
    by (intro conjI TrueI finish_inv[OF inv] report none err' refl)
qed

theorem worker_reports_atomic_witness:
  "fst (mark_chapter_download_failed sample_queue (lit ''s'') (lit ''b'') 1 (lit '' timeout '') 9)
    = Inr (finish_update DlFailed 9 (Some (lit ''timeout'')) (sample_task 1 5))"
proof -
  have "valid_key (lit ''s'', lit ''b'')" by (simp add: valid_key_def blank_iff is_whitespace_def)
  moreover have e: "trim (lit '' timeout '') = lit ''timeout''"
    by (simp add: trim_def trim_start_def trim_end_def is_whitespace_def)
  moreover have "map_of (downloads sample_queue) (lit ''s'', lit ''b'', 1) = Some (sample_task 1 5)"
    by (simp add: sample_queue_def)
  ultimately show ?thesis
    using worker_reports_atomic[OF queue_inv_sample, of "lit ''s''" "lit ''b''" "lit '' timeout ''" 1 9]
    by (simp del: lit_simps) (simp add: lit_def)
qed

datatype queue_op =
    ClaimNext int
  | ReportCompleted ustr ustr u32 int
  | ReportFailed ustr ustr u32 ustr int
  | CancelTask ustr ustr u32 int
  | ClearFinished ustr ustr

fun queue_step :: "queue_op \<Rightarrow> storage \<Rightarrow> storage" where
  "queue_step (ClaimNext now) s = snd (claim_next_chapter_download s now)"
| "queue_step (ReportCompleted i b n now) s = snd (mark_chapter_download_completed s i b n now)"
| "queue_step (ReportFailed i b n e now) s = snd (mark_chapter_download_failed s i b n e now)"
| "queue_step (CancelTask i b n now) s = snd (cancel_chapter_download s i b n now)"
| "queue_step (ClearFinished i b) s = snd (clear_finished_chapter_downloads s i b)"

fun claimed_key :: "queue_op \<Rightarrow> storage \<Rightarrow> chapter_download_key option" where
  "claimed_key (ClaimNext now) s = (case fst (claim_next_chapter_download s now) of
     Inr (Some t) \<Rightarrow> Some (task_download_key t) | _ \<Rightarrow> None)"
| "claimed_key op s = None"

fun claims_of :: "chapter_download_key \<Rightarrow> queue_op list \<Rightarrow> storage \<Rightarrow> nat" where
  "claims_of k [] s = 0"
| "claims_of k (op # ops) s = (if claimed_key op s = Some k then 1 else 0) + claims_of k ops (queue_step op s)"

definition attempts_left :: "storage \<Rightarrow> chapter_download_key \<Rightarrow> nat" where
  "attempts_left s k = (case map_of (downloads s) k of
     Some t \<Rightarrow> unat (dt_max_attempts t) - unat (dt_attempts t) | None \<Rightarrow> 0)"

lemma queue_step_inv:
  assumes "queue_inv s" shows "queue_inv (queue_step op s)"
proof -
  have "queue_inv (snd (update_download_task s i b n (finish_update st now None)))" for i b n st now
    by (rule finish_inv[OF assms]) (simp add: blank_opt_def)
  then show ?thesis
    using assms by (cases op) (auto simp: claim_inv clear_finished_inv mark_chapter_download_completed_def
        cancel_chapter_download_def mark_chapter_download_failed_def Let_def finish_inv not_blank_error)
qed

lemma attempts_left_update:
  assumes "queue_inv s"
  shows "attempts_left (snd (update_download_task s i b n (finish_update st now x))) k = attempts_left s k"
proof (cases "valid_key (i, b)")
  case True
  then show ?thesis
    by (cases "map_of (downloads s) (i, b, n)")
      (auto simp: update_download_task_def chapter_download_key_def and_then_unit try_state_def Let_def
        attempts_left_def table_simps finish_update_def split: sum.splits)
qed (simp add: update_download_task_def chapter_download_key_def and_then_unit try_state_def)

lemma attempts_left_step:
  assumes inv: "queue_inv s"
  shows "(if claimed_key op s = Some k then 1 else 0) + attempts_left (queue_step op s) k \<le> attempts_left s k"
proof (cases op)
  case (ClaimNext now)
  show ?thesis
  proof (rule claim_cases[OF inv, of now])
    fix j t
    assume t: "map_of (downloads s) j = Some t" "is_claimable_download t"
      and eq: "claim_next_chapter_download s now = (Inr (Some (claim_update now t)),
         s\<lparr>downloads := hm_modify j (claim_update now) (downloads s)\<rparr>)"
    have "j = task_download_key t"
      using inv t(1) by (auto simp: queue_inv_def dest: keyedD)
    moreover have "unat (dt_attempts t) < unat (dt_max_attempts t)"
      using t(2) by (simp add: is_claimable_download_def word_less_nat_alt)
    moreover have "dt_max_attempts (claim_update now t) = dt_max_attempts t"
      by (simp add: claim_update_def)
    ultimately show ?thesis
      using t(1) claim_attempts(1)[OF t(2), of now]
      by (cases "k = j") (auto simp: ClaimNext eq attempts_left_def table_simps)
  qed (simp add: ClaimNext)
next
  case (ClearFinished i b)
  have "hm_ok (downloads s)" using inv by (auto simp: queue_inv_def dest: keyed_hm_ok)
  then show ?thesis
    by (auto simp: ClearFinished clear_finished_chapter_downloads_def try_state_unit Let_def
        attempts_left_def table_simps split: option.splits)
qed (auto simp: mark_chapter_download_completed_def cancel_chapter_download_def
    mark_chapter_download_failed_def Let_def attempts_left_update[OF inv])

text \<open>
  C21: Retries are bounded: in any interleaving of claims, reports, cancellations and clean-ups that
  does not enqueue it again, a task is handed out at most as often as it has attempts left, hence at
  most \<open>max_attempts\<close> times after it was enqueued, so workers that keep failing cannot loop on it.
\<close>
theorem claims_bounded_by_attempts:
  assumes "queue_inv s"
  shows "claims_of k ops s \<le> attempts_left s k
    \<and> (valid_task t \<longrightarrow> claims_of (task_download_key t) ops (snd (enqueue_chapter_download s t))
        \<le> unat (dt_max_attempts t))"
proof -
  have bound: "claims_of k ops s \<le> attempts_left s k" if "queue_inv s" for k s
    using that
  proof (induction ops arbitrary: s)
    case (Cons op ops)
    from Cons.IH[OF queue_step_inv[OF Cons.prems, of op]] attempts_left_step[OF Cons.prems, of op k]
    show ?case unfolding claims_of.simps by linarith
  qed simp
  have "claims_of (task_download_key t) ops (snd (enqueue_chapter_download s t)) \<le> unat (dt_max_attempts t)"
    if t: "valid_task t"
  proof -
    let ?s = "snd (enqueue_chapter_download s t)"
    have "attempts_left ?s (task_download_key t) \<le> unat (dt_max_attempts t)"
      using queue_store.put_table[OF t, of s] by (simp add: attempts_left_def) (simp add: requeued_def)
    with bound[OF queue_store.put_inv[OF assms, of t], of "task_download_key t"] show ?thesis
      by (rule order_trans)
  qed
  with bound[OF assms, of k] show ?thesis by blast
qed

theorem claims_bounded_by_attempts_witness:
  "claims_of (lit ''s'', lit ''b'', 1) [ClaimNext 1, ReportFailed (lit ''s'') (lit ''b'') 1 (lit ''e'') 2,
      ClaimNext 3, ReportFailed (lit ''s'') (lit ''b'') 1 (lit ''e'') 4, ClaimNext 5,
      ReportFailed (lit ''s'') (lit ''b'') 1 (lit ''e'') 6, ClaimNext 7] sample_queue \<le> 3"
  using claims_bounded_by_attempts[OF queue_inv_sample, THEN conjunct1]
  by (rule order_trans) (simp add: attempts_left_def sample_queue_def sample_task_def)

end
