(* ===== verification/ChapterCache.thy ===== *)
theory ChapterCache
  imports Stores
begin

text \<open>
  The chapter cache of \<open>InMemoryStorage\<close> (\<open>impl ChapterCacheStore\<close> in
  \<open>crates/reader-storage/src/lib.rs\<close>): the table operations, the coverage and prefetch planners
  over a book's chapter range, the aggregate statistics, and the retention policy that evicts the
  oldest bodies. Chapter indexes and counts are \<open>u32\<close> words; the prefetch window uses the
  saturating arithmetic of the source.
\<close>

subsection \<open>Statistics and coverage\<close>

definition chapter_cache_content_bytes :: "chapter_cache_entry \<Rightarrow> nat" where
  "chapter_cache_content_bytes e = byte_len (cc_content e)"

definition validate_chapter_count :: "u32 \<Rightarrow> unit result" where
  "validate_chapter_count n = ensure (n \<noteq> 0) (InvalidChapterCache ''chapter_count'')"

definition validate_chapter_anchor :: "u32 \<Rightarrow> u32 \<Rightarrow> unit result" where
  "validate_chapter_anchor n anchor = checks
     [validate_chapter_count n, ensure (anchor < n) (InvalidChapterCache ''anchor_index'')]"

definition validate_prefetch_limit :: "nat \<Rightarrow> unit result" where
  "validate_prefetch_limit k = ensure (k \<noteq> 0) (InvalidChapterCache ''max_count'')"

fun chapter_cache_stats_loop ::
    "chapter_cache_stats \<Rightarrow> chapter_cache_entry list \<Rightarrow> chapter_cache_stats" where
  "chapter_cache_stats_loop st [] = st"
| "chapter_cache_stats_loop st (e # es) = chapter_cache_stats_loop
     \<lparr>cs_entry_count = cs_entry_count st + 1,
      cs_total_content_bytes = cs_total_content_bytes st + chapter_cache_content_bytes e,
      cs_oldest_cached_at = Some (case cs_oldest_cached_at st of
         Some oldest \<Rightarrow> min oldest (cc_cached_at e) | None \<Rightarrow> cc_cached_at e),
      cs_newest_cached_at = Some (case cs_newest_cached_at st of
         Some newest \<Rightarrow> max newest (cc_cached_at e) | None \<Rightarrow> cc_cached_at e)\<rparr> es"

definition chapter_cache_stats_from_entries :: "chapter_cache_entry list \<Rightarrow> chapter_cache_stats" where
  "chapter_cache_stats_from_entries es = chapter_cache_stats_loop
     \<lparr>cs_entry_count = 0, cs_total_content_bytes = 0,
      cs_oldest_cached_at = None, cs_newest_cached_at = None\<rparr> es"

fun dedup_by_key :: "('a \<Rightarrow> 'k) \<Rightarrow> 'a list \<Rightarrow> 'a list" where
  \<comment> \<open>\<open>Vec::dedup_by_key\<close>: of consecutive elements with one key, the first stays\<close>
  "dedup_by_key f [] = []"
| "dedup_by_key f [x] = [x]"
| "dedup_by_key f (x # y # ys)
    = (if f x = f y then dedup_by_key f (x # ys) else x # dedup_by_key f (y # ys))"

definition u32_range :: "u32 \<Rightarrow> u32 list" where
  \<comment> \<open>the range \<open>0..n\<close>\<close>
  "u32_range n = map of_nat [0..<unat n]"

definition chapter_cache_coverage_from_entries ::
    "ustr \<Rightarrow> ustr \<Rightarrow> u32 \<Rightarrow> chapter_cache_entry list \<Rightarrow> cache_coverage" where
  "chapter_cache_coverage_from_entries source_id book_id chapter_count entries = (
     let cached_entries = dedup_by_key cc_chapter_index (sort_by (by_key cc_chapter_index)
           (filter (\<lambda>e. cc_chapter_index e < chapter_count) entries));
         cached_indexes = map cc_chapter_index cached_entries;
         missing_indexes = filter (\<lambda>i. i \<notin> set cached_indexes) (u32_range chapter_count);
         stats = chapter_cache_stats_from_entries cached_entries
     in \<lparr>cov_source_id = source_id, cov_book_id = book_id, cov_chapter_count = chapter_count,
         cov_cached_indexes = cached_indexes, cov_missing_indexes = missing_indexes,
         cov_cached_count = length cached_indexes, cov_missing_count = length missing_indexes,
         cov_total_content_bytes = cs_total_content_bytes stats,
         cov_oldest_cached_at = cs_oldest_cached_at stats,
         cov_newest_cached_at = cs_newest_cached_at stats,
         cov_complete = (missing_indexes = [])\<rparr>)"

subsection \<open>Operations\<close>

definition put_chapter_cache ::
    "storage \<Rightarrow> chapter_cache_entry \<Rightarrow> (storage, chapter_cache_entry) update" where
  "put_chapter_cache s e = try_state (validate_book_key (cc_source_id e) (cc_book_id e)) s
     (\<lambda>_. (Inr e, s\<lparr>chapter_cache := hm_insert (entry_cache_key e) e (chapter_cache s)\<rparr>))"

definition get_chapter_cache ::
    "storage \<Rightarrow> ustr \<Rightarrow> ustr \<Rightarrow> u32 \<Rightarrow> chapter_cache_entry option result" where
  "get_chapter_cache s source_id book_id chapter_index = and_then (validate_book_key source_id book_id)
     (\<lambda>_. Inr (map_of (chapter_cache s) (source_id, book_id, chapter_index)))"

definition remove_chapter_cache ::
    "storage \<Rightarrow> ustr \<Rightarrow> ustr \<Rightarrow> u32 \<Rightarrow> (storage, unit) update" where
  "remove_chapter_cache s source_id book_id chapter_index =
     try_state (validate_book_key source_id book_id) s (\<lambda>_. (Inr (),
       s\<lparr>chapter_cache := hm_remove (source_id, book_id, chapter_index) (chapter_cache s)\<rparr>))"

definition book_rows :: "ustr \<Rightarrow> ustr \<Rightarrow> storage \<Rightarrow> (chapter_cache_key, chapter_cache_entry) hmap" where
  "book_rows source_id book_id s
     = filter (\<lambda>((i, b, n), e). i = source_id \<and> b = book_id) (chapter_cache s)"

definition list_chapter_cache ::
    "storage \<Rightarrow> ustr \<Rightarrow> ustr \<Rightarrow> chapter_cache_entry list result" where
  "list_chapter_cache s source_id book_id = and_then (validate_book_key source_id book_id)
     (\<lambda>_. Inr (sort_by (by_key cc_chapter_index) (map snd (book_rows source_id book_id s))))"

definition clear_chapter_cache :: "storage \<Rightarrow> ustr \<Rightarrow> ustr \<Rightarrow> (storage, nat) update" where
  "clear_chapter_cache s source_id book_id = try_state (validate_book_key source_id book_id) s
     (\<lambda>_. let kept = hm_retain (\<lambda>(i, b, n) e. \<not> (i = source_id \<and> b = book_id)) (chapter_cache s)
          in (Inr (length (chapter_cache s) - length kept), s\<lparr>chapter_cache := kept\<rparr>))"

definition chapter_cache_coverage :: "storage \<Rightarrow> ustr \<Rightarrow> ustr \<Rightarrow> u32 \<Rightarrow> cache_coverage result" where
  "chapter_cache_coverage s source_id book_id chapter_count =
     and_then (validate_book_key source_id book_id) (\<lambda>_.
     and_then (validate_chapter_count chapter_count) (\<lambda>_.
       Inr (chapter_cache_coverage_from_entries source_id book_id chapter_count
         (map snd (book_rows source_id book_id s)))))"

definition plan_chapter_cache_prefetch ::
    "storage \<Rightarrow> ustr \<Rightarrow> ustr \<Rightarrow> u32 \<Rightarrow> u32 \<Rightarrow> u32 \<Rightarrow> u32 \<Rightarrow> nat \<Rightarrow> prefetch_plan result" where
  "plan_chapter_cache_prefetch s source_id book_id chapter_count anchor_index before after max_count =
     and_then (validate_book_key source_id book_id) (\<lambda>_.
     and_then (validate_chapter_anchor chapter_count anchor_index) (\<lambda>_.
     and_then (validate_prefetch_limit max_count) (\<lambda>_.
       let window_start = saturating_sub anchor_index before;
           window_end_exclusive
             = min (saturating_add (saturating_add anchor_index after) 1) chapter_count
       in and_then (chapter_cache_coverage s source_id book_id chapter_count) (\<lambda>coverage.
         Inr \<lparr>pf_source_id = source_id, pf_book_id = book_id, pf_chapter_count = chapter_count,
              pf_anchor_index = anchor_index, pf_window_start = window_start,
              pf_window_end_exclusive = window_end_exclusive,
              pf_missing_indexes = take max_count (filter
                (\<lambda>i. window_start \<le> i \<and> i < window_end_exclusive) (cov_missing_indexes coverage))\<rparr>))))"

definition chapter_cache_stats :: "storage \<Rightarrow> chapter_cache_stats" where
  "chapter_cache_stats s = chapter_cache_stats_from_entries (hm_values (chapter_cache s))"

subsection \<open>Retention\<close>

type_synonym cache_row = "chapter_cache_key \<times> chapter_cache_entry"

definition eviction_cmp :: "cache_row cmp" where
  "eviction_cmp = chain (by_key (\<lambda>r. cc_cached_at (snd r))) (chain (by_key (\<lambda>r. fst (fst r)))
     (chain (by_key (\<lambda>r. fst (snd (fst r)))) (by_key (\<lambda>r. snd (snd (fst r))))))"

definition sort_chapter_cache_for_eviction :: "cache_row list \<Rightarrow> cache_row list" where
  "sort_chapter_cache_for_eviction rows = sort_by eviction_cmp rows"

definition mark_key_once :: "'k list \<Rightarrow> 'k \<Rightarrow> 'k list" where
  "mark_key_once keys key = (if key \<in> set keys then keys else keys @ [key])"

definition mark_older_than :: "int \<Rightarrow> cache_row list \<Rightarrow> chapter_cache_key list \<Rightarrow> chapter_cache_key list" where
  "mark_older_than min_cached_at candidates keys = fold
     (\<lambda>(key, e) ks. if cc_cached_at e < min_cached_at then mark_key_once ks key else ks) candidates keys"

definition unmarked :: "cache_row list \<Rightarrow> chapter_cache_key list \<Rightarrow> cache_row list" where
  "unmarked candidates keys
     = sort_chapter_cache_for_eviction (filter (\<lambda>r. fst r \<notin> set keys) candidates)"

definition mark_excess_entries ::
    "nat \<Rightarrow> cache_row list \<Rightarrow> chapter_cache_key list \<Rightarrow> chapter_cache_key list" where
  "mark_excess_entries max_entries candidates keys = (
     let remaining = unmarked candidates keys
     in if length remaining > max_entries
        then fold (\<lambda>r ks. mark_key_once ks (fst r)) (take (length remaining - max_entries) remaining) keys
        else keys)"

fun mark_until_bytes ::
    "nat \<Rightarrow> nat \<Rightarrow> cache_row list \<Rightarrow> chapter_cache_key list \<Rightarrow> chapter_cache_key list" where
  "mark_until_bytes limit bytes [] keys = keys"
| "mark_until_bytes limit bytes ((key, e) # rows) keys =
     (if bytes \<le> limit then keys
      else mark_until_bytes limit (bytes - chapter_cache_content_bytes e) rows (mark_key_once keys key))"

definition mark_excess_bytes ::
    "nat \<Rightarrow> cache_row list \<Rightarrow> chapter_cache_key list \<Rightarrow> chapter_cache_key list" where
  "mark_excess_bytes limit candidates keys = (
     let remaining = unmarked candidates keys
     in mark_until_bytes limit (sum_list (map (\<lambda>r. chapter_cache_content_bytes (snd r)) remaining))
          remaining keys)"

definition keys_to_prune :: "retention_policy \<Rightarrow> cache_row list \<Rightarrow> chapter_cache_key list" where
  "keys_to_prune policy candidates = (
     let keys0 = [];
         keys1 = (case pol_min_cached_at policy of
            Some m \<Rightarrow> mark_older_than m candidates keys0 | None \<Rightarrow> keys0);
         keys2 = (case pol_max_entries policy of
            Some m \<Rightarrow> mark_excess_entries m candidates keys1 | None \<Rightarrow> keys1)
     in case pol_max_total_content_bytes policy of
          Some m \<Rightarrow> mark_excess_bytes m candidates keys2 | None \<Rightarrow> keys2)"

fun remove_keys ::
    "'k list \<Rightarrow> ('k, 'v) hmap \<Rightarrow> 'v list \<Rightarrow> 'v list \<times> ('k, 'v) hmap" where
  "remove_keys [] m removed = (removed, m)"
| "remove_keys (k # ks) m removed = (case map_of m k of
     Some v \<Rightarrow> remove_keys ks (hm_remove k m) (removed @ [v])
   | None \<Rightarrow> remove_keys ks m removed)"

definition removed_cmp :: "chapter_cache_entry cmp" where
  "removed_cmp = chain (by_key cc_cached_at) (chain (by_key cc_source_id)
     (chain (by_key cc_book_id) (by_key cc_chapter_index)))"

definition prune_chapter_cache :: "storage \<Rightarrow> retention_policy \<Rightarrow> (storage, eviction_report) update" where
  "prune_chapter_cache s policy = (
     let candidates = sort_chapter_cache_for_eviction (chapter_cache s);
         keys = keys_to_prune policy candidates;
         (removed, kept) = remove_keys keys (chapter_cache s) []
     in (Inr \<lparr>er_removed = sort_by removed_cmp removed,
              er_remaining = chapter_cache_stats_from_entries (hm_values kept)\<rparr>,
         s\<lparr>chapter_cache := kept\<rparr>))"

subsection \<open>Interfaces\<close>

definition cache_keyed :: "storage \<Rightarrow> bool" where
  "cache_keyed s = keyed entry_cache_key (chapter_cache s)"

definition cache_key_valid :: "chapter_cache_key \<Rightarrow> bool" where
  "cache_key_valid k = valid_key (fst k, fst (snd k))"

interpretation cache_store: deletable_store
  put_chapter_cache "\<lambda>s k. get_chapter_cache s (fst k) (fst (snd k)) (snd (snd k))" entry_cache_key
  "\<lambda>old e. e" "\<lambda>e. cache_key_valid (entry_cache_key e)" cache_key_valid
  "\<lambda>s. map_of (chapter_cache s)" cache_keyed
  "\<lambda>s k. remove_chapter_cache s (fst k) (fst (snd k)) (snd (snd k))" cache_key_valid
proof unfold_locales
  show "cache_keyed (snd (put_chapter_cache s v))" if "cache_keyed s" for s v
    using that by (simp add: put_chapter_cache_def try_state_unit cache_keyed_def keyed_insert)
  show "cache_keyed (snd (remove_chapter_cache s (fst k) (fst (snd k)) (snd (snd k))))"
    if "cache_keyed s" for s k
    using that by (simp add: remove_chapter_cache_def try_state_unit cache_keyed_def keyed_remove)
qed (simp_all add: put_chapter_cache_def get_chapter_cache_def remove_chapter_cache_def try_state_unit
    and_then_unit table_simps cache_key_valid_def entry_cache_key_def)

definition book_chapters :: "ustr \<Rightarrow> ustr \<Rightarrow> storage \<Rightarrow> (u32, chapter_cache_entry) hmap" where
  \<comment> \<open>one book's rows under their chapter index alone\<close>
  "book_chapters i b s
     = sub_table (\<lambda>k. fst k = i \<and> fst (snd k) = b) (\<lambda>k. snd (snd k)) (chapter_cache s)"

lemma values_book_chapters: "hm_values (book_chapters i b s) = map snd (book_rows i b s)"
  by (simp add: book_chapters_def values_sub_table book_rows_def case_prod_unfold)

lemma keyed_book_chapters: "cache_keyed s \<Longrightarrow> keyed cc_chapter_index (book_chapters i b s)"
  unfolding book_chapters_def cache_keyed_def
  by (rule keyed_sub_table) (auto simp: inj_on_def entry_cache_key_def)

lemma map_of_book_chapters:
  "cache_keyed s \<Longrightarrow> map_of (book_chapters i b s) n = map_of (chapter_cache s) (i, b, n)"
  unfolding book_chapters_def cache_keyed_def
  using map_of_sub_table[of entry_cache_key "chapter_cache s" "\<lambda>k. snd (snd k)"
      "\<lambda>k. fst k = i \<and> fst (snd k) = b" "(i, b, n)"]
  by (auto simp: inj_on_def)

interpretation cache_listing: sorted_listing "by_key cc_chapter_index" "book_chapters i b"
  cc_chapter_index "\<lambda>_. True" "\<lambda>s. sort_by (by_key cc_chapter_index) (map snd (book_rows i b s))" for i b
  unfolding sorted_listing_def sorted_listing_axioms_def
  by (auto simp: values_book_chapters intro: comparator_intros)

interpretation eviction_order: comparator eviction_cmp
  by (simp add: eviction_cmp_def comparator_intros)

interpretation removed_order: comparator removed_cmp
  by (simp add: removed_cmp_def comparator_intros)

lemma eviction_cmp_Equal: "eviction_cmp p q = Equal \<Longrightarrow> fst p = fst q"
  by (simp add: eviction_cmp_def prod_eq_iff)

lemma eviction_cmp_le_cached: "cmp_le eviction_cmp p q \<Longrightarrow> cc_cached_at (snd p) \<le> cc_cached_at (snd q)"
  by (auto simp: eviction_cmp_def chain_def then_with_Greater by_key_def rcmp_def split: if_splits)

subsection \<open>Statistics\<close>

lemma stats_loop_fields:
  "cs_entry_count (chapter_cache_stats_loop st es) = cs_entry_count st + length es"
  "cs_total_content_bytes (chapter_cache_stats_loop st es)
     = cs_total_content_bytes st + sum_list (map chapter_cache_content_bytes es)"
  by (induction st es rule: chapter_cache_stats_loop.induct) auto

lemma Min_Max_insert_fold:
  assumes "finite S"
  shows "Min (insert (min a b) S) = Min (insert a (insert (b::int) S))"
    and "Max (insert (max a b) S) = Max (insert a (insert b S))"
  using assms by (cases "S = {}"; simp add: min.assoc max.assoc)+

lemma stats_loop_times:
  "cs_oldest_cached_at st = Some a \<Longrightarrow> cs_oldest_cached_at (chapter_cache_stats_loop st es)
     = Some (Min (insert a (cc_cached_at ` set es)))"
  "cs_newest_cached_at st = Some b \<Longrightarrow> cs_newest_cached_at (chapter_cache_stats_loop st es)
     = Some (Max (insert b (cc_cached_at ` set es)))"
  by (induction es arbitrary: st a b) (simp_all add: Min_Max_insert_fold del: Min_insert Max_insert)

lemma stats_from_entries:
  "chapter_cache_stats_from_entries es = \<lparr>cs_entry_count = length es,
     cs_total_content_bytes = sum_list (map chapter_cache_content_bytes es),
     cs_oldest_cached_at = (if es = [] then None else Some (Min (cc_cached_at ` set es))),
     cs_newest_cached_at = (if es = [] then None else Some (Max (cc_cached_at ` set es)))\<rparr>"
  by (cases es) (simp_all add: chapter_cache_stats_from_entries_def stats_loop_fields stats_loop_times
      chapter_cache_stats.equality del: Min_insert Max_insert)

lemma stats_mset:
  assumes "mset es = mset es'"
  shows "chapter_cache_stats_from_entries es = chapter_cache_stats_from_entries es'"
proof -
  have "sum_list (map chapter_cache_content_bytes es) = sum_list (map chapter_cache_content_bytes es')"
    using assms by (metis mset_map sum_mset_sum_list)
  moreover have "set es = set es'" "length es = length es'"
    using assms by (auto dest: mset_eq_setD mset_eq_length)
  ultimately show ?thesis by (auto simp: stats_from_entries)
qed

subsection \<open>Eviction\<close>

definition content_bytes_sum :: "cache_row list \<Rightarrow> nat" where
  "content_bytes_sum rows = sum_list (map (\<lambda>r. chapter_cache_content_bytes (snd r)) rows)"

definition policy_holds :: "retention_policy \<Rightarrow> cache_row list \<Rightarrow> bool" where
  \<comment> \<open>what a retention policy asks of the rows that stay\<close>
  "policy_holds policy rows =
     ((case pol_min_cached_at policy of Some m \<Rightarrow> list_all (\<lambda>r. m \<le> cc_cached_at (snd r)) rows
        | None \<Rightarrow> True)
      \<and> (case pol_max_entries policy of Some m \<Rightarrow> length rows \<le> m | None \<Rightarrow> True)
      \<and> (case pol_max_total_content_bytes policy of Some m \<Rightarrow> content_bytes_sum rows \<le> m
        | None \<Rightarrow> True))"

definition eviction_sorted :: "cache_row list \<Rightarrow> bool" where
  "eviction_sorted rows = (sorted_wrt (cmp_le eviction_cmp) rows \<and> distinct (map fst rows))"

definition advances :: "(cache_row list \<Rightarrow> bool) \<Rightarrow> cache_row list \<Rightarrow> nat \<Rightarrow> nat \<Rightarrow> bool" where
  \<comment> \<open>\<open>n'\<close> is the first prefix length from \<open>n\<close> on whose removal makes \<open>P\<close> true\<close>
  "advances P rows n n' \<longleftrightarrow> n \<le> n' \<and> n' \<le> length rows \<and> P (drop n' rows)
     \<and> (\<forall>i. n \<le> i \<and> i < n' \<longrightarrow> \<not> P (drop i rows))"

lemma advances_conj:
  assumes "advances Q rows 0 n" and "advances P rows n n'" and "\<And>i xs. Q xs \<Longrightarrow> Q (drop i xs)"
  shows "advances (\<lambda>r. Q r \<and> P r) rows 0 n'"
proof -
  have "drop n' rows = drop (n' - n) (drop n rows)"
    using assms(2) by (simp add: advances_def)
  moreover have "Q (drop n rows)"
    using assms(1) by (simp add: advances_def)
  ultimately have "Q (drop n' rows)"
    using assms(3) by (simp del: drop_drop)
  moreover have "\<not> (Q (drop i rows) \<and> P (drop i rows))" if "i < n'" for i
    using assms(1,2) that by (cases "i < n") (auto simp: advances_def)
  ultimately show ?thesis
    using assms(2) by (simp add: advances_def)
qed

lemma mark_fresh: "key \<notin> set keys \<Longrightarrow> mark_key_once keys key = keys @ [key]"
  by (simp add: mark_key_once_def)

lemma mark_fold_fresh:
  "distinct (ks @ map fst rows) \<Longrightarrow>
     fold (\<lambda>r ks. mark_key_once ks (fst r)) rows ks = ks @ map fst rows"
  by (induction rows arbitrary: ks) (auto simp: mark_fresh)

lemma mark_older_fresh:
  "distinct (ks @ map fst rows) \<Longrightarrow>
     mark_older_than m rows ks = ks @ map fst (filter (\<lambda>r. cc_cached_at (snd r) < m) rows)"
proof (induction rows arbitrary: ks)
  case (Cons r rows)
  then show ?case by (cases r) (simp add: mark_older_than_def mark_fresh)
qed (simp add: mark_older_than_def)

lemma unmarked_prefix:
  assumes "eviction_sorted rows"
  shows "unmarked rows (map fst (take n rows)) = drop n rows"
proof -
  have d: "distinct (map fst (take n rows) @ map fst (drop n rows))"
    using assms by (metis append_take_drop_id eviction_sorted_def map_append)
  have "filter (\<lambda>r. fst r \<notin> set (map fst (take n rows))) (take n rows @ drop n rows) = drop n rows"
  proof -
    have "fst r \<notin> fst ` set (take n rows)" if "r \<in> set (drop n rows)" for r
      using d that by (auto simp del: distinct_map)
    then have "filter (\<lambda>r. fst r \<notin> set (map fst (take n rows))) (drop n rows) = drop n rows"
      by (simp add: filter_id_conv del: append_take_drop_id)
    moreover have "filter (\<lambda>r. fst r \<notin> set (map fst (take n rows))) (take n rows) = []"
      by (simp add: filter_empty_conv)
    ultimately show ?thesis by (simp only: filter_append append_Nil)
  qed
  then show ?thesis
    using assms eviction_order.sort_sorted[of "drop n rows"]
    by (simp add: unmarked_def sort_chapter_cache_for_eviction_def eviction_sorted_def sorted_wrt_drop)
qed

lemma cached_mono:
  assumes "eviction_sorted rows" "i \<le> j" "j < length rows"
  shows "cc_cached_at (snd (rows ! i)) \<le> cc_cached_at (snd (rows ! j))"
  using assms by (cases "i = j") (auto simp: eviction_sorted_def sorted_wrt_iff_nth_less
      intro!: eviction_cmp_le_cached)

lemma mark_older_advances:
  assumes "eviction_sorted rows"
  shows "\<exists>n. mark_older_than m rows [] = map fst (take n rows)
    \<and> advances (list_all (\<lambda>r. m \<le> cc_cached_at (snd r))) rows 0 n"
proof -
  let ?old = "\<lambda>r. cc_cached_at (snd r) < m"
  let ?n = "length (takeWhile ?old rows)"
  have split: "take ?n rows = takeWhile ?old rows" "drop ?n rows = dropWhile ?old rows"
    by (simp_all add: takeWhile_eq_take[symmetric] dropWhile_eq_drop)
  have late: "m \<le> cc_cached_at (snd r)" if "r \<in> set (drop ?n rows)" for r
  proof -
    obtain k where "k < length (drop ?n rows)" "drop ?n rows ! k = r"
      using \<open>r \<in> set (drop ?n rows)\<close> unfolding in_set_conv_nth by blast
    then have k: "r = rows ! (?n + k)" "?n + k < length rows" by auto
    then have "\<not> ?old (rows ! ?n)" by (intro nth_length_takeWhile) simp
    with k cached_mono[OF assms, of ?n "?n + k"] show ?thesis by simp
  qed
  have "filter ?old rows = filter ?old (take ?n rows) @ filter ?old (drop ?n rows)"
    by (metis append_take_drop_id filter_append)
  also have "filter ?old (drop ?n rows) = []"
    using late by (fastforce simp: filter_empty_conv)
  also have "filter ?old (take ?n rows) = take ?n rows"
    unfolding split by (simp add: filter_id_conv) (metis set_takeWhileD)
  finally have "mark_older_than m rows [] = map fst (take ?n rows)"
    using assms by (simp add: mark_older_fresh eviction_sorted_def)
  moreover have "advances (list_all (\<lambda>r. m \<le> cc_cached_at (snd r))) rows 0 ?n"
  proof -
    have "\<not> list_all (\<lambda>r. m \<le> cc_cached_at (snd r)) (drop i rows)" if "i < ?n" for i
    proof -
      have "i < length rows" using that length_takeWhile_le[of ?old rows] by linarith
      moreover have "?old (rows ! i)"
        using that by (metis nth_mem set_takeWhileD takeWhile_nth)
      ultimately show ?thesis by (simp add: Cons_nth_drop_Suc[symmetric])
    qed
    then show ?thesis
      using late by (simp add: advances_def list_all_iff length_takeWhile_le)
  qed
  ultimately show ?thesis by blast
qed

lemma mark_excess_entries_advances:
  assumes s: "eviction_sorted rows" and n: "n \<le> length rows"
  shows "\<exists>n'. mark_excess_entries m rows (map fst (take n rows)) = map fst (take n' rows)
    \<and> advances (\<lambda>r. length r \<le> m) rows n n'"
proof (cases "length rows - n > m")
  case True
  let ?k = "length rows - n - m"
  have "distinct (map fst (take n rows) @ map fst (take ?k (drop n rows)))"
    using s unfolding eviction_sorted_def
    by (metis append_take_drop_id distinct_append distinct_take map_append append.assoc)
  moreover have "mark_excess_entries m rows (map fst (take n rows))
      = fold (\<lambda>r ks. mark_key_once ks (fst r)) (take ?k (drop n rows)) (map fst (take n rows))"
    using True by (simp add: mark_excess_entries_def unmarked_prefix[OF s])
  ultimately have "mark_excess_entries m rows (map fst (take n rows)) = map fst (take (n + ?k) rows)"
    by (simp only: mark_fold_fresh take_add map_append)
  moreover have "advances (\<lambda>r. length r \<le> m) rows n (n + ?k)"
    using True by (auto simp: advances_def)
  ultimately show ?thesis by blast
next
  case False
  then have "mark_excess_entries m rows (map fst (take n rows)) = map fst (take n rows)"
    by (simp add: mark_excess_entries_def unmarked_prefix[OF s])
  moreover have "advances (\<lambda>r. length r \<le> m) rows n n"
    using False n by (auto simp: advances_def)
  ultimately show ?thesis by blast
qed

lemma mark_until_bytes_prefix:
  "distinct (ks @ map fst rows) \<Longrightarrow> \<exists>j. mark_until_bytes m (content_bytes_sum rows) rows ks
     = ks @ map fst (take j rows) \<and> advances (\<lambda>r. content_bytes_sum r \<le> m) rows 0 j"
proof (induction rows arbitrary: ks)
  case Nil
  then show ?case by (auto simp: advances_def content_bytes_sum_def)
next
  case (Cons r rows)
  obtain key e where r: "r = (key, e)" by (cases r)
  show ?case
  proof (cases "content_bytes_sum (r # rows) \<le> m")
    case True
    then show ?thesis by (intro exI[of _ 0]) (simp add: advances_def r)
  next
    case False
    have "content_bytes_sum (r # rows) - chapter_cache_content_bytes e = content_bytes_sum rows"
      by (simp add: content_bytes_sum_def r)
    moreover obtain j where "mark_until_bytes m (content_bytes_sum rows) rows (ks @ [key])
        = (ks @ [key]) @ map fst (take j rows)" "advances (\<lambda>r. content_bytes_sum r \<le> m) rows 0 j"
      using Cons.IH[of "ks @ [key]"] Cons.prems by (auto simp: r)
    moreover have "key \<notin> set ks" using Cons.prems by (simp add: r)
    ultimately show ?thesis
      using False by (intro exI[of _ "Suc j"])
        (auto simp: r advances_def mark_fresh less_Suc_eq_0_disj)
  qed
qed

lemma mark_excess_bytes_advances:
  assumes s: "eviction_sorted rows" and n: "n \<le> length rows"
  shows "\<exists>n'. mark_excess_bytes m rows (map fst (take n rows)) = map fst (take n' rows)
    \<and> advances (\<lambda>r. content_bytes_sum r \<le> m) rows n n'"
proof -
  have "distinct (map fst (take n rows) @ map fst (drop n rows))"
    using s by (metis append_take_drop_id eviction_sorted_def map_append)
  from mark_until_bytes_prefix[OF this, of m] obtain j where j:
    "mark_until_bytes m (content_bytes_sum (drop n rows)) (drop n rows) (map fst (take n rows))
      = map fst (take n rows) @ map fst (take j (drop n rows))"
    "advances (\<lambda>r. content_bytes_sum r \<le> m) (drop n rows) 0 j" by blast
  have "advances (\<lambda>r. content_bytes_sum r \<le> m) rows n (n + j)"
  proof -
    have "\<not> content_bytes_sum (drop i rows) \<le> m" if "n \<le> i" "i < n + j" for i
    proof -
      have "drop i rows = drop (i - n) (drop n rows)" using that by simp
      moreover have "i - n < j" using that by linarith
      ultimately show ?thesis using j(2) by (simp only: advances_def) blast
    qed
    with j(2) n show ?thesis by (auto simp: advances_def add.commute)
  qed
  then show ?thesis
    using j(1) by (intro exI[of _ "n + j"])
      (simp add: mark_excess_bytes_def unmarked_prefix[OF s] content_bytes_sum_def take_add Let_def)
qed

lemma keys_to_prune_advances:
  assumes s: "eviction_sorted rows"
  shows "\<exists>n. keys_to_prune policy rows = map fst (take n rows) \<and> advances (policy_holds policy) rows 0 n"
proof -
  let ?age = "\<lambda>r. case pol_min_cached_at policy of
      Some m \<Rightarrow> list_all (\<lambda>r. m \<le> cc_cached_at (snd r)) r | None \<Rightarrow> True"
  let ?len = "\<lambda>r. case pol_max_entries policy of Some m \<Rightarrow> length (r :: cache_row list) \<le> m | None \<Rightarrow> True"
  let ?bytes = "\<lambda>r. case pol_max_total_content_bytes policy of
      Some m \<Rightarrow> content_bytes_sum r \<le> m | None \<Rightarrow> True"
  define keys1 where "keys1 = (case pol_min_cached_at policy of
      Some m \<Rightarrow> mark_older_than m rows [] | None \<Rightarrow> [])"
  define keys2 where "keys2 = (case pol_max_entries policy of
      Some m \<Rightarrow> mark_excess_entries m rows keys1 | None \<Rightarrow> keys1)"
  define keys3 where "keys3 = (case pol_max_total_content_bytes policy of
      Some m \<Rightarrow> mark_excess_bytes m rows keys2 | None \<Rightarrow> keys2)"
  have stay: "advances (\<lambda>r. True) rows n n" if "n \<le> length rows" for n
    using that by (simp add: advances_def)
  have "\<exists>n. keys1 = map fst (take n rows) \<and> advances ?age rows 0 n"
  proof (cases "pol_min_cached_at policy")
    case None
    then show ?thesis using stay[of 0] by (intro exI[of _ 0]) (simp add: keys1_def)
  next
    case (Some m)
    then show ?thesis using mark_older_advances[OF s, of m] by (simp add: keys1_def)
  qed
  then obtain n1 where n1: "keys1 = map fst (take n1 rows)" "advances ?age rows 0 n1" by blast
  then have l1: "n1 \<le> length rows" by (simp add: advances_def)
  have "\<exists>n. keys2 = map fst (take n rows) \<and> advances ?len rows n1 n"
  proof (cases "pol_max_entries policy")
    case None
    then show ?thesis using stay[OF l1] n1(1) by (intro exI[of _ n1]) (simp add: keys2_def)
  next
    case (Some m)
    then show ?thesis using mark_excess_entries_advances[OF s l1, of m] n1(1) by (simp add: keys2_def)
  qed
  then obtain n2 where n2: "keys2 = map fst (take n2 rows)" "advances ?len rows n1 n2" by blast
  then have l2: "n2 \<le> length rows" by (simp add: advances_def)
  have "\<exists>n. keys3 = map fst (take n rows) \<and> advances ?bytes rows n2 n"
  proof (cases "pol_max_total_content_bytes policy")
    case None
    then show ?thesis using stay[OF l2] n2(1) by (intro exI[of _ n2]) (simp add: keys3_def)
  next
    case (Some m)
    then show ?thesis using mark_excess_bytes_advances[OF s l2, of m] n2(1) by (simp add: keys3_def)
  qed
  then obtain n3 where n3: "keys3 = map fst (take n3 rows)" "advances ?bytes rows n2 n3" by blast
  have age_drop: "?age (drop i r)" if "?age r" for i r
    using that by (auto simp: list_all_iff dest: in_set_dropD split: option.splits)
  have both_drop: "?age (drop i r) \<and> ?len (drop i r)" if "?age r \<and> ?len r" for i r
    using that age_drop[of r i] by (cases "pol_max_entries policy") auto
  have "advances (\<lambda>r. ?age r \<and> ?len r) rows 0 n2"
    by (rule advances_conj[OF n1(2) n2(2) age_drop])
  from advances_conj[OF this n3(2) both_drop]
  have "advances (\<lambda>r. (?age r \<and> ?len r) \<and> ?bytes r) rows 0 n3" .
  then have "advances (policy_holds policy) rows 0 n3"
    by (simp add: advances_def policy_holds_def)
  moreover have "keys_to_prune policy rows = keys3"
    unfolding keys_to_prune_def keys3_def keys2_def keys1_def Let_def by (rule refl)
  ultimately show ?thesis using n3(1) by blast
qed

lemma remove_keys_spec:
  assumes "hm_ok m" "distinct ks" "\<forall>k \<in> set ks. map_of m k \<noteq> None"
  shows "remove_keys ks m removed
    = (removed @ map (\<lambda>k. the (map_of m k)) ks, filter (\<lambda>p. fst p \<notin> set ks) m)"
  using assms
proof (induction ks arbitrary: m removed)
  case (Cons k ks)
  then obtain v where v: "map_of m k = Some v" by auto
  have "map_of (hm_remove k m) k' = map_of m k'" if "k' \<in> set ks" for k'
    using Cons.prems(2) that by (auto simp: table_simps)
  moreover have "filter (\<lambda>p. fst p \<notin> set ks) (hm_remove k m) = filter (\<lambda>p. fst p \<notin> set (k # ks)) m"
    by (simp add: hm_remove_def conj_commute)
  ultimately show ?case
    using Cons.IH[of "hm_remove k m" "removed @ [v]"] Cons.prems v by (simp cong: map_cong)
qed simp

lemma removed_cmp_rows:
  "fst p = entry_cache_key (snd p) \<Longrightarrow> fst q = entry_cache_key (snd q) \<Longrightarrow>
     eviction_cmp p q = removed_cmp (snd p) (snd q)"
  by (simp add: eviction_cmp_def removed_cmp_def chain_def by_key_def entry_cache_key_def)

lemma eviction_sorted_candidates:
  "hm_ok m \<Longrightarrow> eviction_sorted (sort_chapter_cache_for_eviction m)"
  by (simp add: eviction_sorted_def sort_chapter_cache_for_eviction_def eviction_order.sorted_sort hm_ok_def)

lemma prune_chapter_cache_shape:
  assumes "cache_keyed s"
  defines "rows \<equiv> sort_chapter_cache_for_eviction (chapter_cache s)"
  shows "\<exists>n. advances (policy_holds policy) rows 0 n
    \<and> (\<exists>kept. prune_chapter_cache s policy
        = (Inr \<lparr>er_removed = map snd (take n rows),
                er_remaining = chapter_cache_stats_from_entries (map snd (drop n rows))\<rparr>,
           s\<lparr>chapter_cache := kept\<rparr>)
      \<and> hm_ok kept \<and> set kept = set (drop n rows))"
proof -
  let ?m = "chapter_cache s"
  have ok: "hm_ok ?m" and self: "\<And>r. r \<in> set ?m \<Longrightarrow> fst r = entry_cache_key (snd r)"
    using assms by (auto simp: cache_keyed_def keyed_def)
  have s: "eviction_sorted rows" unfolding rows_def by (rule eviction_sorted_candidates[OF ok])
  have rows: "mset rows = mset ?m" by (simp add: rows_def sort_chapter_cache_for_eviction_def)
  then have set_rows: "set rows = set ?m" by (rule mset_eq_setD)
  have d: "distinct (map fst (take n rows) @ map fst (drop n rows))" for n
    using s by (metis append_take_drop_id eviction_sorted_def map_append)
  obtain n where n: "keys_to_prune policy rows = map fst (take n rows)"
      "advances (policy_holds policy) rows 0 n"
    using keys_to_prune_advances[OF s] by blast
  let ?kept = "filter (\<lambda>p. fst p \<notin> set (map fst (take n rows))) ?m"
  have found: "map_of ?m (fst r) = Some (snd r)" if "r \<in> set (take n rows)" for r
  proof -
    have "(fst r, snd r) \<in> set ?m" using that set_rows by (auto dest: in_set_takeD)
    then show ?thesis by (simp only: in_set_iff_map_of[OF ok])
  qed
  have removed: "remove_keys (map fst (take n rows)) ?m [] = (map snd (take n rows), ?kept)"
  proof -
    have "map (\<lambda>k. the (map_of ?m k)) (map fst (take n rows)) = map snd (take n rows)"
      using found by simp
    moreover have "distinct (map fst (take n rows))"
      using d[of n] by (simp only: distinct_append)
    moreover have "\<forall>k \<in> set (map fst (take n rows)). map_of ?m k \<noteq> None"
      using found by fastforce
    ultimately show ?thesis
      using remove_keys_spec[OF ok, of "map fst (take n rows)" "[]"] by (simp only: append_Nil)
  qed
  have "mset ?kept = mset (filter (\<lambda>p. fst p \<notin> set (map fst (take n rows))) rows)"
    using rows by simp
  also have "filter (\<lambda>p. fst p \<notin> set (map fst (take n rows))) rows = drop n rows"
  proof -
    have "sorted_wrt (cmp_le eviction_cmp) (filter (\<lambda>p. fst p \<notin> set (map fst (take n rows))) rows)"
      using s by (simp add: eviction_sorted_def sorted_wrt_filter)
    from eviction_order.sort_sorted[OF this] show ?thesis
      using unmarked_prefix[OF s, of n]
      by (simp only: unmarked_def sort_chapter_cache_for_eviction_def)
  qed
  finally have kept: "mset ?kept = mset (drop n rows)" .
  have "sorted_wrt (cmp_le removed_cmp) (map snd (take n rows))"
    unfolding sorted_wrt_map
  proof (rule sorted_wrt_mono_rel[of _ "cmp_le eviction_cmp"])
    show "sorted_wrt (cmp_le eviction_cmp) (take n rows)"
      using s by (simp add: eviction_sorted_def sorted_wrt_take)
    show "cmp_le removed_cmp (snd x) (snd y)"
      if "x \<in> set (take n rows)" "y \<in> set (take n rows)" "cmp_le eviction_cmp x y" for x y
    proof -
      have "x \<in> set ?m" "y \<in> set ?m" using that set_rows by (auto dest: in_set_takeD)
      with removed_cmp_rows[OF self self, of x y] that(3) show ?thesis by simp
    qed
  qed
  then have "sort_by removed_cmp (map snd (take n rows)) = map snd (take n rows)"
    by (rule removed_order.sort_sorted)
  moreover have "chapter_cache_stats_from_entries (hm_values ?kept)
      = chapter_cache_stats_from_entries (map snd (drop n rows))"
    using kept by (intro stats_mset) (simp add: hm_values_def)
  ultimately have "prune_chapter_cache s policy
        = (Inr \<lparr>er_removed = map snd (take n rows),
                er_remaining = chapter_cache_stats_from_entries (map snd (drop n rows))\<rparr>,
           s\<lparr>chapter_cache := ?kept\<rparr>)"
    using n(1) removed by (simp add: prune_chapter_cache_def rows_def[symmetric] Let_def)
  moreover have "hm_ok ?kept" using ok by (simp add: hm_ok_def distinct_map_filter)
  moreover have "set ?kept = set (drop n rows)" by (rule mset_eq_setD[OF kept])
  ultimately show ?thesis using n(2) by blast
qed

subsection \<open>Coverage\<close>

lemma dedup_id: "distinct (map f xs) \<Longrightarrow> dedup_by_key f xs = xs"
  by (induction f xs rule: dedup_by_key.induct) auto

lemma u32_less: "unat (w :: u32) < 4294967296"
proof -
  have "unat w < 2 ^ LENGTH(32)" by (rule unsigned_less)
  then show ?thesis by simp
qed

lemma u32_range_strict: "sorted_wrt (<) (u32_range n)"
proof -
  have "(of_nat i :: u32) < of_nat j" if "i < j" "j < unat n" for i j
    using that u32_less[of n] by (simp add: word_less_nat_alt unat_of_nat)
  then show ?thesis
    by (auto simp: u32_range_def sorted_wrt_iff_nth_less)
qed

lemma set_u32_range: "set (u32_range n) = {i. i < n}"
proof -
  have "\<exists>k < unat n. i = of_nat k" if "i < n" for i :: u32
    using that by (intro exI[of _ "unat i"]) (simp add: word_less_nat_alt)
  moreover have "(of_nat k :: u32) < n" if "k < unat n" for k
    using that u32_less[of n] by (simp add: word_less_nat_alt unat_of_nat)
  ultimately show ?thesis by (fastforce simp: u32_range_def)
qed

lemma strict_filter_eq:
  assumes "sorted_wrt (\<le>) (xs :: u32 list)" and "distinct xs" and "set xs = {i. i < n \<and> P i}"
  shows "xs = filter P (u32_range n)"
proof (rule sorted_distinct_set_unique)
  show "sorted (filter P (u32_range n))" "distinct (filter P (u32_range n))"
    using u32_range_strict[of n] by (simp_all add: sorted_wrt_filter strict_sorted_iff sorted_filter[of id, simplified])
qed (use assms in \<open>auto simp: set_u32_range\<close>)

definition cached_at_index :: "storage \<Rightarrow> ustr \<Rightarrow> ustr \<Rightarrow> u32 \<Rightarrow> bool" where
  "cached_at_index s i b n = hm_contains (i, b, n) (chapter_cache s)"

lemma coverage_indexes:
  assumes "cache_keyed s"
    and cov: "cov = chapter_cache_coverage_from_entries i b n (map snd (book_rows i b s))"
  shows "cov_cached_indexes cov = filter (cached_at_index s i b) (u32_range n)"
    and "cov_missing_indexes cov = filter (\<lambda>k. \<not> cached_at_index s i b k) (u32_range n)"
proof -
  let ?rows = "map snd (book_rows i b s)"
  let ?es = "sort_by (by_key cc_chapter_index) (filter (\<lambda>e. cc_chapter_index e < n) ?rows)"
  note k = keyed_book_chapters[OF assms(1), of i b]
  have d: "distinct (map cc_chapter_index ?es)"
    using keyed_distinct_values[OF k] by (simp add: values_book_chapters distinct_map_filter)
  have "sorted_wrt (\<le>) (map cc_chapter_index ?es)"
    using comparator.sorted_sort[OF comparator_by_key] by (simp add: sorted_wrt_map by_key_le)
  moreover have "set (map cc_chapter_index ?es) = {j. j < n \<and> cached_at_index s i b j}"
  proof (rule set_eqI, rule iffI)
    fix j
    assume "j \<in> set (map cc_chapter_index ?es)"
    then obtain e where e: "e \<in> set ?rows" "j = cc_chapter_index e" "j < n" by auto
    then obtain k where "map_of (book_chapters i b s) k = Some e"
      using in_values_iff[OF keyed_hm_ok[OF k]] by (auto simp: values_book_chapters)
    with e keyedD[OF k] show "j \<in> {j. j < n \<and> cached_at_index s i b j}"
      by (fastforce simp: map_of_book_chapters[OF assms(1)] cached_at_index_def hm_contains_def)
  next
    fix j
    assume "j \<in> {j. j < n \<and> cached_at_index s i b j}"
    then obtain e where e: "j < n" "map_of (book_chapters i b s) j = Some e"
      by (auto simp: map_of_book_chapters[OF assms(1)] cached_at_index_def hm_contains_def)
    then have "e \<in> set ?rows" "j = cc_chapter_index e"
      using in_values_iff[OF keyed_hm_ok[OF k], of e] keyedD[OF k]
      by (auto simp: values_book_chapters)
    with e(1) show "j \<in> set (map cc_chapter_index ?es)" by auto
  qed
  ultimately show c: "cov_cached_indexes cov = filter (cached_at_index s i b) (u32_range n)"
    using d by (simp add: cov chapter_cache_coverage_from_entries_def dedup_id strict_filter_eq Let_def)
  have "cov_missing_indexes cov = filter (\<lambda>j. j \<notin> set (cov_cached_indexes cov)) (u32_range n)"
    by (simp add: cov chapter_cache_coverage_from_entries_def Let_def)
  then show "cov_missing_indexes cov = filter (\<lambda>k. \<not> cached_at_index s i b k) (u32_range n)"
    unfolding c by (auto intro!: filter_cong)
qed

lemma length_u32_range [simp]: "length (u32_range n) = unat n"
  by (simp add: u32_range_def)

subsection \<open>Properties\<close>

definition sample_cache_entry :: "u32 \<Rightarrow> int \<Rightarrow> ustr \<Rightarrow> chapter_cache_entry" where
  "sample_cache_entry n t body = \<lparr>cc_source_id = lit ''s'', cc_book_id = lit ''b'', cc_chapter_index = n,
     cc_title = [], cc_url = [], cc_content = body, cc_cached_at = t, cc_revision = None\<rparr>"

definition sample_cache :: storage where
  "sample_cache = empty_storage\<lparr>chapter_cache :=
     [((lit ''s'', lit ''b'', 0), sample_cache_entry 0 5 (lit ''aa'')),
      ((lit ''s'', lit ''b'', 2), sample_cache_entry 2 9 (lit ''bbb''))]\<rparr>"

lemma cache_keyed_sample: "cache_keyed sample_cache"
  by (simp add: cache_keyed_def sample_cache_def keyed_def hm_ok_def entry_cache_key_def
      sample_cache_entry_def)

lemma valid_sample_key: "valid_key (lit ''s'', lit ''b'')"
  by (simp add: valid_key_def blank_iff is_whitespace_def)

lemmas sample_cache_simps = sample_cache_def sample_cache_entry_def eviction_cmp_def chain_def
  by_key_def rcmp_def sort_chapter_cache_for_eviction_def sort_by_def

text \<open>
  C9: Pruning the chapter cache evicts the shortest prefix of the rows in eviction order (oldest
  first) after which the whole retention policy holds: the report lists exactly that prefix in
  order, its statistics are those of the rows that stay, every other row stays, and no other table
  changes.
\<close>
theorem prune_evicts_shortest_prefix:
  assumes "cache_keyed s"
  shows "\<exists>n \<le> length (chapter_cache s).
    let rows = sort_chapter_cache_for_eviction (chapter_cache s);
        (answer, s') = prune_chapter_cache s policy
    in policy_holds policy (drop n rows) \<and> (\<forall>i < n. \<not> policy_holds policy (drop i rows))
      \<and> answer = Inr \<lparr>er_removed = map snd (take n rows),
                     er_remaining = chapter_cache_stats_from_entries (map snd (drop n rows))\<rparr>
      \<and> map_of (chapter_cache s') = map_of (drop n rows) \<and> cache_keyed s'
      \<and> s'\<lparr>chapter_cache := chapter_cache s\<rparr> = s"
proof -
  let ?rows = "sort_chapter_cache_for_eviction (chapter_cache s)"
  obtain n kept where n: "advances (policy_holds policy) ?rows 0 n"
    and eq: "prune_chapter_cache s policy
        = (Inr \<lparr>er_removed = map snd (take n ?rows),
                er_remaining = chapter_cache_stats_from_entries (map snd (drop n ?rows))\<rparr>,
           s\<lparr>chapter_cache := kept\<rparr>)"
    and kept: "hm_ok kept" "set kept = set (drop n ?rows)"
    using prune_chapter_cache_shape[OF assms, of policy] by blast
  have ok: "hm_ok (chapter_cache s)" using assms by (simp add: cache_keyed_def keyed_hm_ok)
  have rows: "set ?rows = set (chapter_cache s)" "length ?rows = length (chapter_cache s)"
    by (simp_all add: sort_chapter_cache_for_eviction_def)
  have "hm_ok (drop n ?rows)"
    using eviction_sorted_candidates[OF ok] by (simp add: eviction_sorted_def hm_ok_def distinct_drop drop_map[symmetric])
  then have "map_of kept k = map_of (drop n ?rows) k" for k
    using kept by (metis (no_types, lifting) in_set_iff_map_of not_None_eq)
  moreover have "k = entry_cache_key v" if "(k, v) \<in> set kept" for k v
  proof -
    have "(k, v) \<in> set (chapter_cache s)" using that kept(2) rows(1) by (metis in_set_dropD)
    with assms show ?thesis by (auto simp: cache_keyed_def keyed_def)
  qed
  then have "keyed entry_cache_key kept"
    using kept(1) by (auto simp: keyed_def)
  ultimately show ?thesis
    using n eq rows(2) by (intro exI[of _ n]) (simp add: advances_def cache_keyed_def fun_eq_iff)
qed

theorem prune_evicts_shortest_prefix_witness:
  "er_removed (projr (fst (prune_chapter_cache sample_cache
      \<lparr>pol_max_entries = Some 1, pol_max_total_content_bytes = None, pol_min_cached_at = None\<rparr>)))
    = [sample_cache_entry 0 5 (lit ''aa'')]"
proof -
  let ?p = "\<lparr>pol_max_entries = Some 1, pol_max_total_content_bytes = None, pol_min_cached_at = None\<rparr>"
  have rows: "sort_chapter_cache_for_eviction (chapter_cache sample_cache) = chapter_cache sample_cache"
    and two: "length (chapter_cache sample_cache) = 2"
    by (simp_all add: sample_cache_simps)
  obtain a s' where eq: "prune_chapter_cache sample_cache ?p = (a, s')" by fastforce
  obtain n where n: "n \<le> 2" "policy_holds ?p (drop n (chapter_cache sample_cache))"
    "\<forall>i < n. \<not> policy_holds ?p (drop i (chapter_cache sample_cache))"
    "er_removed (projr a) = map snd (take n (chapter_cache sample_cache))"
    using prune_evicts_shortest_prefix[OF cache_keyed_sample, of ?p]
    unfolding rows eq Let_def two by (simp only: prod.case) (metis eviction_report.select_convs(1) sum.sel(2))
  have "n = 1"
    using n(1,2) n(3)[rule_format, of 1]
    by (cases "n = 0"; cases "n = 2") (auto simp: policy_holds_def sample_cache_def)
  with n(4) eq show ?thesis by (simp add: sample_cache_def)
qed

text \<open>
  The coverage report of a book is exact: the cached and the missing indexes are, in increasing
  order, the indexes below the chapter count that do and do not have a row, so their counts add up
  to the chapter count, and the book is complete exactly when every index has a row.
\<close>
theorem coverage_exact:
  assumes keyed: "cache_keyed s" and key: "valid_key (i, b)" and n: "n \<noteq> 0"
  shows "\<exists>cov. chapter_cache_coverage s i b n = Inr cov
    \<and> cov_cached_indexes cov = filter (\<lambda>k. hm_contains (i, b, k) (chapter_cache s)) (u32_range n)
    \<and> cov_missing_indexes cov = filter (\<lambda>k. \<not> hm_contains (i, b, k) (chapter_cache s)) (u32_range n)
    \<and> cov_cached_count cov + cov_missing_count cov = unat n
    \<and> (cov_complete cov \<longleftrightarrow> (\<forall>k. k < n \<longrightarrow> hm_contains (i, b, k) (chapter_cache s)))"
proof -
  define cov where "cov = chapter_cache_coverage_from_entries i b n (map snd (book_rows i b s))"
  note ix = coverage_indexes[OF keyed cov_def, unfolded cached_at_index_def]
  have "cov_cached_count cov = length (cov_cached_indexes cov)"
    "cov_missing_count cov = length (cov_missing_indexes cov)"
    "cov_complete cov \<longleftrightarrow> cov_missing_indexes cov = []"
    by (simp_all add: cov_def chapter_cache_coverage_from_entries_def Let_def)
  moreover have "length (filter P (u32_range n)) + length (filter (\<lambda>k. \<not> P k) (u32_range n)) = unat n" for P
    using sum_length_filter_compl[of P "u32_range n"] by simp
  moreover have "chapter_cache_coverage s i b n = Inr cov"
    using key n by (simp add: chapter_cache_coverage_def and_then_unit validate_chapter_count_def cov_def)
  ultimately show ?thesis
    using ix by (simp add: filter_empty_conv set_u32_range)
qed

theorem coverage_exact_witness:
  "\<exists>cov. chapter_cache_coverage sample_cache (lit ''s'') (lit ''b'') 3 = Inr cov
    \<and> cov_missing_indexes cov = [1]"
  using coverage_exact[OF cache_keyed_sample valid_sample_key, of 3]
  by (auto simp: u32_range_def sample_cache_def hm_contains_def upt_rec)

lemma prefetch_window:
  assumes "unat (anchor :: u32) < unat (n :: u32)"
  shows "unat (min (saturating_add (saturating_add anchor after) 1) n)
    = min (unat anchor + unat after + 1) (unat n)"
  using u32_less[of n] by (simp add: unat_saturating_add unat_min_word)

text \<open>
  The prefetch planner is immune to overflow: its window is the one computed in the natural
  numbers (\<open>before\<close> chapters back, \<open>after\<close> chapters ahead, clipped to the book), and it plans the
  first \<open>max_count\<close> uncached indexes of that window, in order.
\<close>
theorem prefetch_plan_exact:
  assumes keyed: "cache_keyed s" and key: "valid_key (i, b)" and anchor: "anchor < n" and m: "m \<noteq> 0"
  shows "\<exists>plan. plan_chapter_cache_prefetch s i b n anchor before after m = Inr plan
    \<and> unat (pf_window_start plan) = unat anchor - unat before
    \<and> unat (pf_window_end_exclusive plan) = min (unat anchor + unat after + 1) (unat n)
    \<and> pf_missing_indexes plan = take m (filter (\<lambda>k. unat anchor - unat before \<le> unat k
        \<and> unat k \<le> unat anchor + unat after \<and> \<not> hm_contains (i, b, k) (chapter_cache s)) (u32_range n))"
proof -
  have n: "n \<noteq> 0" using anchor by auto
  define cov where "cov = chapter_cache_coverage_from_entries i b n (map snd (book_rows i b s))"
  have cov: "chapter_cache_coverage s i b n = Inr cov"
    using key n by (simp add: chapter_cache_coverage_def and_then_unit validate_chapter_count_def cov_def)
  note ix = coverage_indexes(2)[OF keyed cov_def, unfolded cached_at_index_def]
  have lt: "unat anchor < unat n" using anchor by (simp add: word_less_nat_alt)
  note window = unat_saturating_sub[of anchor before] prefetch_window[OF lt, of after]
  have "filter (\<lambda>k. saturating_sub anchor before \<le> k
        \<and> k < min (saturating_add (saturating_add anchor after) 1) n)
      (filter (\<lambda>k. \<not> hm_contains (i, b, k) (chapter_cache s)) (u32_range n))
    = filter (\<lambda>k. unat anchor - unat before \<le> unat k
        \<and> unat k \<le> unat anchor + unat after \<and> \<not> hm_contains (i, b, k) (chapter_cache s)) (u32_range n)"
    unfolding filter_filter
    by (rule filter_cong[OF refl])
      (auto simp: word_le_nat_alt[of "saturating_sub _ _"] word_less_nat_alt window set_u32_range)
  then show ?thesis
    using key anchor m n window
    by (simp add: plan_chapter_cache_prefetch_def and_then_unit validate_chapter_anchor_def
        validate_chapter_count_def validate_prefetch_limit_def cov ix Let_def)
qed

theorem prefetch_plan_exact_witness:
  "\<exists>plan. plan_chapter_cache_prefetch sample_cache (lit ''s'') (lit ''b'') 3 2 4294967295 4294967295 5 = Inr plan
    \<and> pf_missing_indexes plan = [1]"
  using prefetch_plan_exact[OF cache_keyed_sample valid_sample_key, of 2 3 5 4294967295 4294967295]
  by (auto simp: u32_range_def sample_cache_def hm_contains_def upt_rec)

end
