(* ===== verification/Shelf.thy ===== *)
theory Shelf
  imports Stores
begin

text \<open>
  The bookshelf of \<open>InMemoryStorage\<close> (\<open>impl BookshelfStore\<close> in
  \<open>crates/reader-storage/src/lib.rs\<close>): upsert that keeps \<open>added_at\<close>, removal, the sorted
  listings, the filtered and paginated query, and the last-read and move updates.
\<close>

subsection \<open>Filters and orders\<close>

definition normalize_required_filter :: "ustr option \<Rightarrow> string \<Rightarrow> ustr option result" where
  "normalize_required_filter value field = (case value of
     None \<Rightarrow> Inr None
   | Some v \<Rightarrow> let trimmed = trim v in
       if trimmed = [] then Inl (InvalidKey field) else Inr (Some trimmed))"

definition normalize_keyword :: "ustr option \<Rightarrow> ustr option" where
  "normalize_keyword value = (case value of
     None \<Rightarrow> None
   | Some v \<Rightarrow> let w = to_ascii_lowercase (trim v) in if w = [] then None else Some w)"

definition normalize_group :: "ustr option \<Rightarrow> ustr option result" where
  "normalize_group value = normalize_required_filter value ''group''"

definition entry_matches_keyword :: "bookshelf_entry \<Rightarrow> ustr \<Rightarrow> bool" where
  "entry_matches_keyword e keyword =
     (contains (to_ascii_lowercase (be_title e)) keyword
      \<or> contains (to_ascii_lowercase (be_author e)) keyword
      \<or> contains (to_ascii_lowercase (be_book_id e)) keyword)"

definition entry_has_reading_progress :: "storage \<Rightarrow> bookshelf_entry \<Rightarrow> bool" where
  "entry_has_reading_progress s e = hm_contains (be_source_id e, be_book_id e) (progress s)"

definition shelf_cmp :: "bookshelf_entry cmp" where
  "shelf_cmp = chain (by_key be_sort_index) (chain (flip_cmp (by_key be_added_at))
     (chain (by_key be_source_id) (by_key be_book_id)))"

definition sort_shelf :: "bookshelf_entry list \<Rightarrow> bookshelf_entry list" where
  "sort_shelf es = sort_by shelf_cmp es"

fun shelf_field_cmp :: "bookshelf_sort_by \<Rightarrow> bookshelf_entry cmp" where
  "shelf_field_cmp SortManual = (\<lambda>a b. Equal)"
| "shelf_field_cmp SortAddedAt = by_key be_added_at"
| "shelf_field_cmp SortLastReadAt = by_key be_last_read_at"
| "shelf_field_cmp SortTitle = by_key be_title"
| "shelf_field_cmp SortAuthor = by_key be_author"

definition shelf_query_cmp ::
    "bookshelf_sort_by \<Rightarrow> bookshelf_sort_direction \<Rightarrow> bookshelf_entry cmp" where
  "shelf_query_cmp sort_by_field direction = chain
     (\<lambda>a b. if direction = Descending then rev_order (shelf_field_cmp sort_by_field a b)
            else shelf_field_cmp sort_by_field a b)
     (chain (by_key be_source_id) (by_key be_book_id))"

definition sort_shelf_query ::
    "bookshelf_sort_by \<Rightarrow> bookshelf_sort_direction \<Rightarrow> bookshelf_entry list \<Rightarrow> bookshelf_entry list" where
  "sort_shelf_query sort_by_field direction es =
     (if sort_by_field = SortManual
      then (if direction = Descending then rev (sort_shelf es) else sort_shelf es)
      else sort_by (shelf_query_cmp sort_by_field direction) es)"

definition paginate_shelf :: "bookshelf_entry list \<Rightarrow> nat \<Rightarrow> nat option \<Rightarrow> bookshelf_entry list" where
  "paginate_shelf es offset limit = (case limit of
     Some l \<Rightarrow> take l (drop offset es) | None \<Rightarrow> drop offset es)"

subsection \<open>Operations\<close>

definition add_to_shelf :: "storage \<Rightarrow> bookshelf_entry \<Rightarrow> (storage, bookshelf_entry) update" where
  "add_to_shelf s entry = try_state (validate_shelf_key (be_source_id entry) (be_book_id entry)) s
     (\<lambda>_. let key = entry_shelf_key entry;
              added_at = (case map_of (shelf s) key of
                 Some existing \<Rightarrow> be_added_at existing | None \<Rightarrow> be_added_at entry);
              stored = entry\<lparr>be_added_at := added_at\<rparr>
          in (Inr stored, s\<lparr>shelf := hm_insert key stored (shelf s)\<rparr>))"

definition remove_from_shelf :: "storage \<Rightarrow> ustr \<Rightarrow> ustr \<Rightarrow> (storage, unit) update" where
  "remove_from_shelf s source_id book_id = try_state (validate_shelf_key source_id book_id) s
     (\<lambda>_. (Inr (), s\<lparr>shelf := hm_remove (source_id, book_id) (shelf s)\<rparr>))"

definition get_shelf_entry :: "storage \<Rightarrow> ustr \<Rightarrow> ustr \<Rightarrow> bookshelf_entry option result" where
  "get_shelf_entry s source_id book_id = and_then (validate_shelf_key source_id book_id)
     (\<lambda>_. Inr (map_of (shelf s) (source_id, book_id)))"

definition list_shelf :: "storage \<Rightarrow> bookshelf_entry list" where
  "list_shelf s = sort_shelf (hm_values (shelf s))"

definition shelf_query_matches ::
    "storage \<Rightarrow> ustr option \<Rightarrow> ustr option \<Rightarrow> ustr option \<Rightarrow> bool option \<Rightarrow> bookshelf_entry \<Rightarrow> bool" where
  "shelf_query_matches s source_id grp keyword has_progress e =
     ((case source_id of Some i \<Rightarrow> be_source_id e = i | None \<Rightarrow> True)
      \<and> (case grp of Some g \<Rightarrow> be_group e = Some g | None \<Rightarrow> True)
      \<and> (case keyword of Some k \<Rightarrow> entry_matches_keyword e k | None \<Rightarrow> True)
      \<and> (case has_progress of Some expected \<Rightarrow> entry_has_reading_progress s e = expected
         | None \<Rightarrow> True))"

definition query_shelf :: "storage \<Rightarrow> bookshelf_query \<Rightarrow> bookshelf_entry list result" where
  "query_shelf s q =
     and_then (normalize_required_filter (bq_source_id q) ''source_id'') (\<lambda>source_id.
     and_then (normalize_group (bq_group q)) (\<lambda>grp.
       let keyword = normalize_keyword (bq_keyword q);
           entries = filter (shelf_query_matches s source_id grp keyword (bq_has_reading_progress q))
             (hm_values (shelf s))
       in Inr (paginate_shelf (sort_shelf_query (bq_sort_by q) (bq_sort_direction q) entries)
             (bq_offset q) (bq_limit q))))"

definition list_shelf_by_group :: "storage \<Rightarrow> ustr \<Rightarrow> bookshelf_entry list result" where
  "list_shelf_by_group s grp = and_then (normalize_group (Some grp)) (\<lambda>g. case g of
     None \<Rightarrow> Inl (Panicked ''normalize_group returns Some for Some input'')
   | Some g' \<Rightarrow> Inr (sort_shelf (filter (\<lambda>e. be_group e = Some g') (hm_values (shelf s)))))"

definition update_last_read :: "storage \<Rightarrow> ustr \<Rightarrow> ustr \<Rightarrow> int \<Rightarrow> (storage, unit) update" where
  "update_last_read s source_id book_id timestamp =
     try_state (validate_shelf_key source_id book_id) s
     (\<lambda>_. case map_of (shelf s) (source_id, book_id) of
        Some entry \<Rightarrow> (Inr (), s\<lparr>shelf := hm_modify (source_id, book_id)
           (\<lambda>e. e\<lparr>be_last_read_at := Some timestamp\<rparr>) (shelf s)\<rparr>)
      | None \<Rightarrow> (Inl (StorageNotFound source_id book_id), s))"

definition move_shelf_entry ::
    "storage \<Rightarrow> ustr \<Rightarrow> ustr \<Rightarrow> ustr option \<Rightarrow> int \<Rightarrow> (storage, bookshelf_entry) update" where
  "move_shelf_entry s source_id book_id grp sort_index =
     try_state (validate_shelf_key source_id book_id) s (\<lambda>_.
     try_state (normalize_group grp) s (\<lambda>g.
     case map_of (shelf s) (source_id, book_id) of
       None \<Rightarrow> (Inl (StorageNotFound source_id book_id), s)
     | Some entry \<Rightarrow> let moved = (\<lambda>e. e\<lparr>be_group := g, be_sort_index := sort_index\<rparr>)
         in (Inr (moved entry), s\<lparr>shelf := hm_modify (source_id, book_id) moved (shelf s)\<rparr>)))"

definition shelf_count :: "storage \<Rightarrow> nat" where
  "shelf_count s = length (shelf s)"

subsection \<open>Interfaces\<close>

definition shelf_upsert :: "bookshelf_entry option \<Rightarrow> bookshelf_entry \<Rightarrow> bookshelf_entry" where
  \<comment> \<open>what \<open>add_to_shelf\<close> promises to store\<close>
  "shelf_upsert old e = (case old of Some o' \<Rightarrow> e\<lparr>be_added_at := be_added_at o'\<rparr> | None \<Rightarrow> e)"

definition shelf_keyed :: "storage \<Rightarrow> bool" where
  "shelf_keyed s = keyed entry_shelf_key (shelf s)"

lemma entry_shelf_key_updates [simp]:
  "entry_shelf_key (e\<lparr>be_added_at := t\<rparr>) = entry_shelf_key e"
  "entry_shelf_key (e\<lparr>be_last_read_at := r\<rparr>) = entry_shelf_key e"
  "entry_shelf_key (e\<lparr>be_group := g, be_sort_index := i\<rparr>) = entry_shelf_key e"
  by (simp_all add: entry_shelf_key_def)

lemma add_to_shelf_eq:
  "add_to_shelf s e = (if valid_key (entry_shelf_key e)
     then let v = shelf_upsert (map_of (shelf s) (entry_shelf_key e)) e
          in (Inr v, s\<lparr>shelf := hm_insert (entry_shelf_key e) v (shelf s)\<rparr>)
     else (Inl (projl (validate_shelf_key (be_source_id e) (be_book_id e))), s))"
  by (cases "map_of (shelf s) (entry_shelf_key e)")
    (auto simp: add_to_shelf_def try_state_unit shelf_upsert_def entry_shelf_key_def Let_def)

interpretation shelf_store: deletable_store
  add_to_shelf "\<lambda>s k. get_shelf_entry s (fst k) (snd k)" entry_shelf_key shelf_upsert
  "\<lambda>e. valid_key (entry_shelf_key e)" valid_key "\<lambda>s. map_of (shelf s)" shelf_keyed
  "\<lambda>s k. remove_from_shelf s (fst k) (snd k)" valid_key
proof unfold_locales
  show "shelf_keyed (snd (add_to_shelf s v))" if "shelf_keyed s" for s v
    using that by (auto simp: add_to_shelf_eq shelf_keyed_def Let_def shelf_upsert_def
        intro!: keyed_insert split: option.splits)
  show "\<exists>e. get_shelf_entry s (fst k) (snd k) = Inl e" if "\<not> valid_key k" for s k
    using that by (simp add: get_shelf_entry_def and_then_unit)
  show "shelf_keyed (snd (remove_from_shelf s (fst k) (snd k)))" if "shelf_keyed s" for s k
    using that by (simp add: remove_from_shelf_def try_state_unit shelf_keyed_def keyed_remove)
qed (simp_all add: add_to_shelf_eq Let_def get_shelf_entry_def and_then_unit remove_from_shelf_def
    try_state_unit table_simps)

interpretation shelf_listing: sorted_listing shelf_cmp shelf entry_shelf_key "\<lambda>_. True" list_shelf
  unfolding sorted_listing_def sorted_listing_axioms_def
  by (auto simp: shelf_cmp_def list_shelf_def sort_shelf_def entry_shelf_key_def
      intro!: comparator_intros)

subsection \<open>Properties\<close>

definition sample_shelf_entry :: "nat \<Rightarrow> int \<Rightarrow> bookshelf_entry" where
  "sample_shelf_entry b t = \<lparr>be_source_id = lit ''local'', be_book_id = [b], be_title = [b],
     be_author = [], be_cover_url = None, be_intro = None, be_kind = None, be_last_chapter = None,
     be_added_at = t, be_last_read_at = None, be_group = None, be_sort_index = 0\<rparr>"

lemma shelf_store_trace:
  "shelf_store.put_all s [] = s"
  "shelf_store.put_all s (e # es) = shelf_store.put_all (snd (add_to_shelf s e)) es"
  by simp_all

text \<open>
  Adding the same book to the shelf any number of times keeps the \<open>added_at\<close> of the row that
  was first stored and overwrites everything else: after a first entry and any re-adds \<open>es\<close> under
  its key, the row is the last entry with the first entry's \<open>added_at\<close>, and no other row changed.
\<close>
theorem add_to_shelf_history:
  assumes valid: "valid_key (entry_shelf_key e)"
    and fresh: "map_of (shelf s) (entry_shelf_key e) = None"
    and same: "\<forall>x \<in> set es. entry_shelf_key x = entry_shelf_key e"
  shows "map_of (shelf (fold (\<lambda>x st. snd (add_to_shelf st x)) (e # es) s))
    = (map_of (shelf s))(entry_shelf_key e \<mapsto> (last (e # es))\<lparr>be_added_at := be_added_at e\<rparr>)"
proof -
  have step: "map_of (shelf (fold (\<lambda>x st. snd (add_to_shelf st x)) xs st)) =
      (map_of (shelf st))(entry_shelf_key e \<mapsto> (last (d # xs))\<lparr>be_added_at := be_added_at e\<rparr>)"
    if "\<forall>x \<in> set xs. entry_shelf_key x = entry_shelf_key e"
      "map_of (shelf st) (entry_shelf_key e) = Some (d\<lparr>be_added_at := be_added_at e\<rparr>)" for xs d st
    using that
  proof (induction xs arbitrary: st d)
    case Nil
    then show ?case by (simp add: map_upd_triv)
  next
    case (Cons x xs)
    let ?st = "snd (add_to_shelf st x)"
    have st: "map_of (shelf ?st)
        = (map_of (shelf st))(entry_shelf_key e \<mapsto> x\<lparr>be_added_at := be_added_at e\<rparr>)"
      using Cons.prems valid by (simp add: add_to_shelf_eq Let_def table_simps shelf_upsert_def)
    show ?case
      using Cons.IH[where d = x and st = ?st] Cons.prems(1) st by (auto simp: fun_eq_iff)
  qed
  show ?thesis
    using step[of es "snd (add_to_shelf s e)" e] same fresh valid
    by (simp add: add_to_shelf_eq Let_def table_simps shelf_upsert_def)
qed

theorem add_to_shelf_history_witness:
  "map_of (shelf (fold (\<lambda>x st. snd (add_to_shelf st x))
      [sample_shelf_entry 97 10, sample_shelf_entry 97 99] empty_storage))
    = [(lit ''local'', [97]) \<mapsto> sample_shelf_entry 97 10]"
proof -
  have "valid_key (entry_shelf_key (sample_shelf_entry 97 10))"
    by (simp add: valid_key_def entry_shelf_key_def sample_shelf_entry_def blank_iff is_whitespace_def)
  from add_to_shelf_history[OF this, of empty_storage "[sample_shelf_entry 97 99]"]
  show ?thesis
    by (simp add: empty_storage_def sample_shelf_entry_def entry_shelf_key_def)
qed

lemma fields_separate_shelf:
  "chain p (chain (by_key be_source_id) (by_key be_book_id)) a b = Equal \<Longrightarrow>
     entry_shelf_key a = entry_shelf_key b"
  by (simp add: entry_shelf_key_def)

lemma comparator_const_Equal: "comparator (\<lambda>a b. Equal)"
  by unfold_locales simp_all

lemma comparator_shelf_field: "comparator (shelf_field_cmp f)"
  by (cases f) (auto intro: comparator_intros comparator_const_Equal)

lemma comparator_rev_order:
  assumes "comparator d" shows "comparator (\<lambda>a b. rev_order (d a b))"
proof -
  have "(\<lambda>a b. rev_order (d a b)) = flip_cmp d"
  proof (intro ext)
    fix a b
    show "rev_order (d a b) = flip_cmp d a b"
      using comparator.cmp_swap[OF assms, of a b] comparator.cmp_swap[OF assms, of b a]
      by (cases "d a b"; cases "d b a") (auto simp: flip_cmp_def)
  qed
  with assms show ?thesis by (simp add: comparator_flip)
qed

lemma comparator_shelf_query: "comparator (shelf_query_cmp f d)"
  by (cases d) (auto simp: shelf_query_cmp_def comparator_rev_order comparator_shelf_field
      intro!: comparator_chain comparator_by_key)

lemma mset_sort_shelf_query [simp]: "mset (sort_shelf_query f d es) = mset es"
  by (simp add: sort_shelf_query_def sort_shelf_def)

lemma sort_shelf_query_unique:
  assumes "shelf_keyed s" and "shelf_keyed s'" and "map_of (shelf s) = map_of (shelf s')"
  shows "sort_shelf_query f d (filter P (hm_values (shelf s)))
    = sort_shelf_query f d (filter P (hm_values (shelf s')))"
proof -
  have k: "keyed entry_shelf_key (shelf s)" "keyed entry_shelf_key (shelf s')"
    using assms by (simp_all add: shelf_keyed_def)
  have sep: "shelf_cmp a b = Equal \<Longrightarrow> entry_shelf_key a = entry_shelf_key b" for a b
    by (simp add: shelf_cmp_def entry_shelf_key_def)
  have sepq: "shelf_query_cmp f d a b = Equal \<Longrightarrow> entry_shelf_key a = entry_shelf_key b" for a b
    by (simp add: shelf_query_cmp_def entry_shelf_key_def)
  show ?thesis
    using sort_listing_unique[OF shelf_listing.comparator_axioms k assms(3), of P]
      sort_listing_unique[OF comparator_shelf_query k assms(3), of f d P] sep sepq
    by (simp add: sort_shelf_query_def sort_shelf_def)
qed

text \<open>
  The shelf listing is deterministic and complete: it holds exactly the stored rows, each once,
  ordered by \<open>sort_index\<close> ascending and \<open>added_at\<close> descending, and two stores with the same rows
  list them identically whatever the iteration order of their hash maps.
\<close>
theorem list_shelf_deterministic:
  assumes "shelf_keyed s"
  shows "(\<forall>e. e \<in> set (list_shelf s) \<longleftrightarrow> map_of (shelf s) (entry_shelf_key e) = Some e)
    \<and> distinct (map entry_shelf_key (list_shelf s))
    \<and> sorted_wrt (\<lambda>a b. be_sort_index a < be_sort_index b
        \<or> be_sort_index a = be_sort_index b \<and> be_added_at a \<ge> be_added_at b) (list_shelf s)
    \<and> (\<forall>s'. shelf_keyed s' \<and> map_of (shelf s') = map_of (shelf s) \<longrightarrow> list_shelf s' = list_shelf s)"
proof -
  note k = assms[unfolded shelf_keyed_def]
  have "sorted_wrt (\<lambda>a b. be_sort_index a < be_sort_index b
        \<or> be_sort_index a = be_sort_index b \<and> be_added_at a \<ge> be_added_at b) (list_shelf s)"
    by (rule sorted_wrt_mono_rel[OF _ shelf_listing.listing_sorted])
      (auto simp: shelf_cmp_def chain_def then_with_Greater by_key_le flip_cmp_def by_key_def rcmp_def
        split: if_splits)
  moreover have "distinct (map entry_shelf_key (list_shelf s))"
    using keyed_distinct_values[OF k] by (simp add: list_shelf_def sort_shelf_def)
  moreover have "\<forall>e. e \<in> set (list_shelf s) \<longleftrightarrow> map_of (shelf s) (entry_shelf_key e) = Some e"
    by (simp add: shelf_listing.listing_mem[OF k])
  moreover have "list_shelf s' = list_shelf s"
    if "shelf_keyed s' \<and> map_of (shelf s') = map_of (shelf s)" for s'
    using that k by (intro shelf_listing.listing_deterministic) (simp_all add: shelf_keyed_def)
  ultimately show ?thesis by blast
qed

theorem list_shelf_deterministic_witness:
  "list_shelf (empty_storage\<lparr>shelf := [((lit ''local'', [97]), sample_shelf_entry 97 1),
      ((lit ''local'', [98]), sample_shelf_entry 98 2)]\<rparr>)
    = list_shelf (empty_storage\<lparr>shelf := [((lit ''local'', [98]), sample_shelf_entry 98 2),
      ((lit ''local'', [97]), sample_shelf_entry 97 1)]\<rparr>)"
proof -
  let ?a = "((lit ''local'', [97]), sample_shelf_entry 97 1)"
  let ?b = "((lit ''local'', [98]), sample_shelf_entry 98 2)"
  let ?s = "empty_storage\<lparr>shelf := [?b, ?a]\<rparr>" and ?t = "empty_storage\<lparr>shelf := [?a, ?b]\<rparr>"
  have keys: "shelf_keyed ?s" "shelf_keyed ?t"
    by (simp_all add: shelf_keyed_def keyed_def hm_ok_def entry_shelf_key_def sample_shelf_entry_def)
  have "map_of (shelf ?t) = map_of (shelf ?s)"
    by (auto simp: fun_eq_iff)
  with keys(2) list_shelf_deterministic[OF keys(1), THEN conjunct2, THEN conjunct2, THEN conjunct2]
  show ?thesis by blast
qed

lemma query_shelf_split:
  assumes "query_shelf s (q\<lparr>bq_offset := 0, bq_limit := None\<rparr>) = Inr rows"
  shows "query_shelf s (q\<lparr>bq_offset := i, bq_limit := Some l\<rparr>) = Inr (take l (drop i rows))"
  using assms by (auto simp: query_shelf_def and_then_eq_Inr paginate_shelf_def Let_def)

lemma concat_pages: "concat (map (\<lambda>k. take l (drop (k * l) xs)) [0..<n]) = take (n * l) xs"
proof (induction n)
  case (Suc n)
  have "take (n * l + l) xs = take (n * l) xs @ take l (drop (n * l) xs)"
    by (rule take_add)
  with Suc show ?case by (simp add: add.commute)
qed simp

text \<open>
  Pagination loses and repeats nothing: when the unpaginated query answers \<open>rows\<close>, the first
  \<open>n\<close> pages of size \<open>l\<close> are, one after the other, exactly the first \<open>n * l\<close> of \<open>rows\<close>.
\<close>
theorem query_shelf_pages:
  assumes "query_shelf s (q\<lparr>bq_offset := 0, bq_limit := None\<rparr>) = Inr rows"
  shows "concat (map (\<lambda>k. projr (query_shelf s (q\<lparr>bq_offset := k * l, bq_limit := Some l\<rparr>))) [0..<n])
    = take (n * l) rows"
  using query_shelf_split[OF assms] by (simp add: concat_pages)

theorem query_shelf_pages_witness:
  "concat (map (\<lambda>k. projr (query_shelf
      (empty_storage\<lparr>shelf := [((lit ''local'', [97]), sample_shelf_entry 97 1)]\<rparr>)
      (default_bookshelf_query\<lparr>bq_offset := k * 1, bq_limit := Some 1\<rparr>))) [0..<2])
    = [sample_shelf_entry 97 1]"
proof -
  let ?s = "empty_storage\<lparr>shelf := [((lit ''local'', [97]), sample_shelf_entry 97 1)]\<rparr>"
  have "query_shelf ?s (default_bookshelf_query\<lparr>bq_offset := 0, bq_limit := None\<rparr>)
      = Inr [sample_shelf_entry 97 1]"
    by (simp add: query_shelf_def default_bookshelf_query_def normalize_required_filter_def
        normalize_group_def normalize_keyword_def hm_values_def shelf_query_matches_def
        sort_shelf_query_def sort_shelf_def sort_by_def paginate_shelf_def)
  from query_shelf_pages[OF this, of 1 2] show ?thesis by simp
qed

text \<open>
  A shelf query answers exactly the rows that pass all four filters (source, group, keyword,
  progress), each once, it fails exactly when the source or group filter is blank, and its answer
  does not depend on the iteration order of the hash map.
\<close>
theorem query_shelf_exact:
  assumes "shelf_keyed s"
  shows "(is_ok (query_shelf s q) \<longleftrightarrow> \<not> blank_opt (bq_source_id q) \<and> \<not> blank_opt (bq_group q))
    \<and> (\<forall>rows. query_shelf s (q\<lparr>bq_offset := 0, bq_limit := None\<rparr>) = Inr rows \<longrightarrow>
        distinct (map entry_shelf_key rows)
        \<and> (\<forall>e. e \<in> set rows \<longleftrightarrow> map_of (shelf s) (entry_shelf_key e) = Some e
            \<and> shelf_query_matches s (map_option trim (bq_source_id q)) (map_option trim (bq_group q))
                (normalize_keyword (bq_keyword q)) (bq_has_reading_progress q) e))
    \<and> (\<forall>m. keyed entry_shelf_key m \<and> map_of m = map_of (shelf s) \<longrightarrow>
        query_shelf (s\<lparr>shelf := m\<rparr>) q = query_shelf s q)"
proof -
  note k = assms[unfolded shelf_keyed_def]
  have filter_value: "normalize_required_filter v f
      = (if blank_opt v then Inl (InvalidKey f) else Inr (map_option trim v))" for v f
    by (auto simp: normalize_required_filter_def blank_opt_def blank_def Let_def split: option.splits)
  have same: "shelf_query_matches (s\<lparr>shelf := m\<rparr>) = shelf_query_matches s" for m
    by (intro ext)
      (simp add: shelf_query_matches_def entry_has_reading_progress_def split: option.splits)
  have "distinct (map entry_shelf_key (sort_shelf_query f d (filter P (hm_values (shelf s)))))" for f d P
    using keyed_distinct_values[OF k] by (metis distinct_map_filter mset_eq_imp_distinct_iff
        mset_map mset_sort_shelf_query)
  moreover have "e \<in> set (sort_shelf_query f d (filter P (hm_values (shelf s))))
      \<longleftrightarrow> map_of (shelf s) (entry_shelf_key e) = Some e \<and> P e" for e f d P
  proof -
    have "set (sort_shelf_query f d (filter P (hm_values (shelf s)))) = {e \<in> set (hm_values (shelf s)). P e}"
      by (metis mset_sort_shelf_query set_filter set_mset_mset)
    then show ?thesis
      using in_values_iff[OF keyed_hm_ok[OF k]] keyedD[OF k] by (metis (lifting) mem_Collect_eq)
  qed
  moreover have "query_shelf (s\<lparr>shelf := m\<rparr>) q = query_shelf s q"
    if "keyed entry_shelf_key m" "map_of m = map_of (shelf s)" for m
    using that assms sort_shelf_query_unique[of "s\<lparr>shelf := m\<rparr>" s]
    by (simp add: query_shelf_def normalize_group_def filter_value and_then_def Let_def same
        shelf_keyed_def split: if_splits)
  ultimately show ?thesis
    by (auto simp: query_shelf_def normalize_group_def filter_value Let_def paginate_shelf_def)
qed

theorem query_shelf_exact_witness:
  "is_ok (query_shelf (empty_storage\<lparr>shelf := [((lit ''local'', [97]), sample_shelf_entry 97 1)]\<rparr>)
     default_bookshelf_query)"
proof -
  have "shelf_keyed (empty_storage\<lparr>shelf := [((lit ''local'', [97]), sample_shelf_entry 97 1)]\<rparr>)"
    by (simp add: shelf_keyed_def keyed_def hm_ok_def entry_shelf_key_def sample_shelf_entry_def)
  from query_shelf_exact[OF this, of default_bookshelf_query] show ?thesis
    by (simp add: default_bookshelf_query_def blank_opt_def)
qed

text \<open>
  The in-place shelf updates (\<open>update_last_read\<close>, \<open>move_shelf_entry\<close>) on a valid key fail
  exactly when the book is not on the shelf (or, for a move, the group is blank), leave the state
  untouched when they fail, and otherwise change that one row in the named fields only.
\<close>
theorem shelf_updates_in_place:
  assumes "valid_key (i, b)"
  shows "update_last_read s i b t = (case map_of (shelf s) (i, b) of
      None \<Rightarrow> (Inl (StorageNotFound i b), s)
    | Some e \<Rightarrow> (Inr (), snd (update_last_read s i b t)))
    \<and> (\<forall>e. map_of (shelf s) (i, b) = Some e \<longrightarrow>
        map_of (shelf (snd (update_last_read s i b t)))
          = (map_of (shelf s))((i, b) \<mapsto> e\<lparr>be_last_read_at := Some t\<rparr>)
        \<and> (\<not> blank_opt g \<longrightarrow> fst (move_shelf_entry s i b g n)
              = Inr (e\<lparr>be_group := map_option trim g, be_sort_index := n\<rparr>)
            \<and> map_of (shelf (snd (move_shelf_entry s i b g n)))
              = (map_of (shelf s))((i, b) \<mapsto> e\<lparr>be_group := map_option trim g, be_sort_index := n\<rparr>)))
    \<and> (blank_opt g \<or> map_of (shelf s) (i, b) = None \<longrightarrow>
        \<not> is_ok (fst (move_shelf_entry s i b g n)) \<and> snd (move_shelf_entry s i b g n) = s)"
  using assms
  by (cases "map_of (shelf s) (i, b)")
    (auto simp: update_last_read_def move_shelf_entry_def normalize_group_def blank_opt_def blank_def
      normalize_required_filter_def table_simps try_state_unit Let_def split: option.splits)

theorem shelf_updates_in_place_witness:
  "fst (update_last_read empty_storage [49] [50] 7) = Inl (StorageNotFound [49] [50])"
proof -
  have "valid_key ([49], [50])" by (simp add: valid_key_def blank_iff is_whitespace_def)
  from shelf_updates_in_place[OF this, of empty_storage 7] show ?thesis
    by (simp add: empty_storage_def)
qed

end
