(* ===== verification/Progress.thy ===== *)
theory Progress
  imports Shelf
begin

text \<open>
  Reading progress of \<open>InMemoryStorage\<close> (\<open>impl ReadingProgressStore\<close> in
  \<open>crates/reader-storage/src/lib.rs\<close>): the current position per book, advanced only by reports
  that are not older, the append-only history of accepted reports, and the shelf's last-read time.
\<close>

subsection \<open>Operations\<close>

definition progress_push :: "progress_entry \<Rightarrow> storage \<Rightarrow> storage" where
  \<comment> \<open>\<open>history.entry(key).or_default().push(entry)\<close>\<close>
  "progress_push e s = s\<lparr>progress_history := hm_insert (entry_progress_key e)
     ((case map_of (progress_history s) (entry_progress_key e) of Some h \<Rightarrow> h | None \<Rightarrow> []) @ [e])
     (progress_history s)\<rparr>"

definition shelf_last_read :: "reading_progress_key \<Rightarrow> int option \<Rightarrow> storage \<Rightarrow> storage" where
  \<comment> \<open>\<open>if let Some(shelf_entry) = inner.shelf.get_mut(..) { shelf_entry.last_read_at = .. }\<close>\<close>
  "shelf_last_read key t s
     = s\<lparr>shelf := hm_modify key (\<lambda>e. e\<lparr>be_last_read_at := t\<rparr>) (shelf s)\<rparr>"

definition save_reading_progress :: "storage \<Rightarrow> progress_entry \<Rightarrow> (storage, progress_entry) update" where
  "save_reading_progress s entry = try_state (validate_reading_progress entry) s (\<lambda>_.
     let key = entry_progress_key entry;
         s1 = progress_push entry s;
         should_advance = (case map_of (progress s1) key of
            Some current \<Rightarrow> pe_updated_at entry \<ge> pe_updated_at current | None \<Rightarrow> True)
     in if should_advance
        then (Inr entry, shelf_last_read key (Some (pe_updated_at entry))
                (s1\<lparr>progress := hm_insert key entry (progress s1)\<rparr>))
        else (case map_of (progress s1) key of
            Some current \<Rightarrow> (Inr current, s1)
          | None \<Rightarrow> (Inl (Panicked ''current progress exists when stale update is ignored''), s1)))"

definition get_reading_progress :: "storage \<Rightarrow> ustr \<Rightarrow> ustr \<Rightarrow> progress_entry option result" where
  "get_reading_progress s source_id book_id = and_then (validate_book_key source_id book_id)
     (\<lambda>_. Inr (map_of (progress s) (source_id, book_id)))"

definition progress_cmp :: "progress_entry cmp" where
  "progress_cmp = chain (flip_cmp (by_key pe_updated_at)) (by_key pe_book_id)"

definition list_reading_progress :: "storage \<Rightarrow> ustr \<Rightarrow> progress_entry list result" where
  "list_reading_progress s source_id = and_then (validate_source_id source_id)
     (\<lambda>_. Inr (sort_by progress_cmp
        (map snd (filter (\<lambda>((i, b), e). i = source_id) (progress s)))))"

definition history_cmp :: "progress_entry cmp" where
  "history_cmp = chain (by_key pe_updated_at) (by_key pe_device_id)"

definition reading_progress_history :: "storage \<Rightarrow> ustr \<Rightarrow> ustr \<Rightarrow> progress_entry list result" where
  "reading_progress_history s source_id book_id = and_then (validate_book_key source_id book_id)
     (\<lambda>_. Inr (sort_by history_cmp (case map_of (progress_history s) (source_id, book_id) of
        Some h \<Rightarrow> h | None \<Rightarrow> [])))"

definition clear_reading_progress :: "storage \<Rightarrow> ustr \<Rightarrow> ustr \<Rightarrow> (storage, unit) update" where
  "clear_reading_progress s source_id book_id = try_state (validate_book_key source_id book_id) s
     (\<lambda>_. let key = (source_id, book_id) in (Inr (), shelf_last_read key None
        (s\<lparr>progress := hm_remove key (progress s),
           progress_history := hm_remove key (progress_history s)\<rparr>)))"

subsection \<open>Interfaces\<close>

definition advance :: "progress_entry option \<Rightarrow> progress_entry \<Rightarrow> progress_entry" where
  \<comment> \<open>what \<open>save_reading_progress\<close> promises to keep: the newer report, the later one on a tie\<close>
  "advance old e = (case old of
     Some c \<Rightarrow> if pe_updated_at c \<le> pe_updated_at e then e else c | None \<Rightarrow> e)"

definition latest :: "progress_entry list \<Rightarrow> progress_entry option" where
  "latest h = fold (\<lambda>e old. Some (advance old e)) h None"

definition history_of :: "storage \<Rightarrow> reading_progress_key \<Rightarrow> progress_entry list" where
  "history_of s k = (case map_of (progress_history s) k of Some h \<Rightarrow> h | None \<Rightarrow> [])"

definition accepts_progress :: "progress_entry \<Rightarrow> bool" where
  "accepts_progress e = (valid_key (entry_progress_key e) \<and> is_fraction (pe_chapter_progress e)
     \<and> \<not> blank_opt (pe_device_id e))"

definition progress_inv :: "storage \<Rightarrow> bool" where
  "progress_inv s = (keyed entry_progress_key (progress s) \<and> hm_ok (progress_history s)
     \<and> (\<forall>(k, h) \<in> set (progress_history s). \<forall>e \<in> set h. entry_progress_key e = k)
     \<and> (\<forall>k. map_of (progress s) k = latest (history_of s k)))"

lemma latest_snoc: "latest (h @ [e]) = Some (advance (latest h) e)"
  by (simp add: latest_def)

lemma key_advance:
  "(\<And>c. old = Some c \<Longrightarrow> entry_progress_key c = entry_progress_key e) \<Longrightarrow>
     entry_progress_key (advance old e) = entry_progress_key e"
  by (simp add: advance_def split: option.splits)

lemma latest_spec:
  "latest h = Some c \<Longrightarrow> \<exists>pre post. h = pre @ c # post
     \<and> (\<forall>e \<in> set pre. pe_updated_at e \<le> pe_updated_at c)
     \<and> (\<forall>e \<in> set post. pe_updated_at e < pe_updated_at c)"
proof (induction h arbitrary: c rule: rev_induct)
  case (snoc x h)
  show ?case
  proof (cases "latest h")
    case None
    then have "h = []" by (cases h rule: rev_cases) (auto simp: latest_snoc)
    with snoc.prems have "h @ [x] = [] @ c # []" by (simp add: latest_def advance_def)
    then show ?thesis by (intro exI[of _ "[]"]) simp
  next
    case (Some d)
    from snoc.IH[OF Some] obtain pre post where h: "h = pre @ d # post"
      "\<forall>e \<in> set pre. pe_updated_at e \<le> pe_updated_at d"
      "\<forall>e \<in> set post. pe_updated_at e < pe_updated_at d" by blast
    show ?thesis
    proof (cases "pe_updated_at d \<le> pe_updated_at x")
      case True
      then have "c = x" using snoc.prems Some by (simp add: latest_snoc advance_def)
      with h True show ?thesis by (intro exI[of _ h] exI[of _ "[]"]) fastforce
    next
      case False
      then have "c = d" using snoc.prems Some by (simp add: latest_snoc advance_def)
      with h False show ?thesis by (intro exI[of _ pre] exI[of _ "post @ [x]"]) auto
    qed
  qed
qed (simp add: latest_def)

lemma save_reading_progress_eq:
  "save_reading_progress s e = (if accepts_progress e
     then let c = map_of (progress s) (entry_progress_key e); s1 = progress_push e s
          in (Inr (advance c e), if advance c e = e \<and> (\<forall>d. c = Some d \<longrightarrow> pe_updated_at d \<le> pe_updated_at e)
              then shelf_last_read (entry_progress_key e) (Some (pe_updated_at e))
                (s1\<lparr>progress := hm_insert (entry_progress_key e) e (progress s)\<rparr>) else s1)
     else (Inl (projl (validate_reading_progress e)), s))"
  by (auto simp: save_reading_progress_def try_state_unit validate_reading_progress_ok
      accepts_progress_def advance_def progress_push_def Let_def split: option.splits)

lemma progress_tables [simp]:
  "progress (progress_push e s) = progress s" "shelf (progress_push e s) = shelf s"
  "progress (shelf_last_read k t s) = progress s"
  "progress_history (shelf_last_read k t s) = progress_history s"
  by (simp_all add: progress_push_def shelf_last_read_def)

lemma progress_of_save:
  "accepts_progress e \<Longrightarrow> map_of (progress (snd (save_reading_progress s e)))
     = (map_of (progress s))(entry_progress_key e \<mapsto> advance (map_of (progress s) (entry_progress_key e)) e)"
  by (auto simp: save_reading_progress_eq Let_def table_simps advance_def fun_eq_iff split: option.splits)

lemma history_of_save:
  "accepts_progress e \<Longrightarrow> map_of (progress_history (snd (save_reading_progress s e)))
     = (map_of (progress_history s))(entry_progress_key e \<mapsto> history_of s (entry_progress_key e) @ [e])"
  by (simp add: save_reading_progress_eq Let_def progress_push_def history_of_def table_simps)

lemma progress_inv_save:
  assumes "progress_inv s" shows "progress_inv (snd (save_reading_progress s e))"
proof (cases "accepts_progress e")
  case True
  let ?k = "entry_progress_key e" and ?s = "snd (save_reading_progress s e)"
  have a: "keyed entry_progress_key (progress s)" "hm_ok (progress_history s)"
    "\<And>k h x. map_of (progress_history s) k = Some h \<Longrightarrow> x \<in> set h \<Longrightarrow> entry_progress_key x = k"
    "\<And>k. map_of (progress s) k = latest (history_of s k)"
    using assms by (auto simp: progress_inv_def dest!: map_of_SomeD)
  have "keyed entry_progress_key (progress ?s)"
    using True a(1) by (simp add: save_reading_progress_eq Let_def keyed_insert)
  moreover have ok: "hm_ok (progress_history ?s)"
    using True a(2) by (simp add: save_reading_progress_eq Let_def progress_push_def)
  moreover have "\<forall>(k, h) \<in> set (progress_history ?s). \<forall>x \<in> set h. entry_progress_key x = k"
  proof -
    have "entry_progress_key x = k"
      if "map_of (progress_history ?s) k = Some h" "x \<in> set h" for k h x
      using that a(3)[of k] unfolding history_of_save[OF True]
      by (auto simp: history_of_def split: if_splits option.splits)
    then show ?thesis using ok by (auto simp: in_set_iff_map_of)
  qed
  moreover have "map_of (progress ?s) k = latest (history_of ?s k)" for k
    using a(4) by (simp add: progress_of_save[OF True] history_of_def[of ?s] history_of_save[OF True]
        latest_snoc) (simp add: history_of_def)
  ultimately show ?thesis by (simp add: progress_inv_def)
qed (use assms in \<open>simp add: save_reading_progress_eq\<close>)

lemma progress_inv_clear:
  assumes "progress_inv s" shows "progress_inv (snd (clear_reading_progress s i b))"
proof (cases "valid_key (i, b)")
  case True
  let ?s = "snd (clear_reading_progress s i b)"
  have eq: "progress ?s = hm_remove (i, b) (progress s)"
    "progress_history ?s = hm_remove (i, b) (progress_history s)"
    using True by (simp_all add: clear_reading_progress_def try_state_unit Let_def)
  have "map_of (progress ?s) k = latest (history_of ?s k)" for k
    using assms by (cases k) (simp add: eq table_simps history_of_def progress_inv_def latest_def)
  moreover have "set (hm_remove (i, b) (progress_history s)) \<subseteq> set (progress_history s)"
    by (auto simp: hm_remove_def)
  ultimately show ?thesis
    using assms unfolding progress_inv_def eq by (blast intro: keyed_remove hm_ok_remove)
qed (use assms in \<open>simp add: clear_reading_progress_def try_state_unit\<close>)

interpretation progress_store: deletable_store
  save_reading_progress "\<lambda>s k. get_reading_progress s (fst k) (snd k)" entry_progress_key advance
  accepts_progress valid_key "\<lambda>s. map_of (progress s)" progress_inv
  "\<lambda>s k. clear_reading_progress s (fst k) (snd k)" valid_key
proof unfold_locales
  show "map_of (progress (snd (save_reading_progress s v))) =
      (map_of (progress s))(entry_progress_key v \<mapsto> advance (map_of (progress s) (entry_progress_key v)) v)"
    if "accepts_progress v" for s v
    using that by (rule progress_of_save)
  show "progress_inv (snd (save_reading_progress s v))" if "progress_inv s" for s v
    using that by (rule progress_inv_save)
  show "progress_inv (snd (clear_reading_progress s (fst k) (snd k)))" if "progress_inv s" for s k
    using that by (rule progress_inv_clear)
qed (simp_all add: save_reading_progress_eq Let_def get_reading_progress_def and_then_unit
    clear_reading_progress_def try_state_unit table_simps)

definition source_progress :: "ustr \<Rightarrow> storage \<Rightarrow> (ustr, progress_entry) hmap" where
  \<comment> \<open>one source's current rows under their book id alone\<close>
  "source_progress i s = sub_table (\<lambda>k. fst k = i) snd (progress s)"

lemma values_source_progress:
  "hm_values (source_progress i s) = map snd (filter (\<lambda>((j, b), e). j = i) (progress s))"
  by (simp add: source_progress_def values_sub_table case_prod_unfold)

lemma keyed_source_progress: "progress_inv s \<Longrightarrow> keyed pe_book_id (source_progress i s)"
  unfolding source_progress_def progress_inv_def
  by (rule keyed_sub_table) (auto simp: inj_on_def entry_progress_key_def)

interpretation progress_listing: sorted_listing progress_cmp "source_progress i" pe_book_id "\<lambda>_. True"
  "\<lambda>s. sort_by progress_cmp (map snd (filter (\<lambda>((j, b), e). j = i) (progress s)))" for i
  unfolding sorted_listing_def sorted_listing_axioms_def
  by (auto simp: values_source_progress progress_cmp_def intro!: comparator_intros)

subsection \<open>Properties\<close>

definition sample_progress :: "int \<Rightarrow> u32 \<Rightarrow> progress_entry" where
  "sample_progress t n = \<lparr>pe_source_id = lit ''s'', pe_book_id = lit ''b'', pe_chapter_index = n,
     pe_chapter_offset = 0, pe_chapter_progress = F64 0, pe_updated_at = t, pe_device_id = None\<rparr>"

lemma accepts_sample_progress: "accepts_progress (sample_progress t n)"
  by (simp add: accepts_progress_def sample_progress_def entry_progress_key_def valid_key_def
      blank_iff is_whitespace_def blank_opt_def is_fraction_iff)

lemma progress_inv_empty: "progress_inv empty_storage"
  by (simp add: progress_inv_def empty_storage_def history_of_def latest_def)

definition save_all_progress :: "storage \<Rightarrow> progress_entry list \<Rightarrow> storage" where
  \<comment> \<open>reports saved one after the other, in arrival order\<close>
  "save_all_progress s es = fold (\<lambda>e st. snd (save_reading_progress st e)) es s"

lemma save_all_progress_eq: "save_all_progress s es = progress_store.put_all s es"
  by (induction es arbitrary: s) (simp_all add: save_all_progress_def)



text \<open>
  In every state reached by saves and clears the current position of a book is the one recorded
  by its history: a report of the history that no earlier one exceeds and every later one is
  strictly below. An accepted save keeps this, never fails (the \<open>expect\<close> in the code cannot
  panic), appends to the history and answers the current position.
\<close>
theorem save_progress_latest:
  assumes inv: "progress_inv s" and ok: "accepts_progress e"
  shows "\<exists>c. fst (save_reading_progress s e) = Inr c
    \<and> progress_inv (snd (save_reading_progress s e))
    \<and> history_of (snd (save_reading_progress s e)) (entry_progress_key e)
        = history_of s (entry_progress_key e) @ [e]
    \<and> map_of (progress (snd (save_reading_progress s e))) (entry_progress_key e) = Some c
    \<and> (\<exists>pre post. history_of s (entry_progress_key e) @ [e] = pre @ c # post
        \<and> (\<forall>x \<in> set pre. pe_updated_at x \<le> pe_updated_at c)
        \<and> (\<forall>x \<in> set post. pe_updated_at x < pe_updated_at c))"
proof -
  let ?s = "snd (save_reading_progress s e)" and ?k = "entry_progress_key e"
  let ?c = "advance (map_of (progress s) ?k) e"
  have h: "history_of ?s ?k = history_of s ?k @ [e]"
    by (simp add: history_of_def[of ?s] history_of_save[OF ok])
  have inv': "progress_inv ?s" by (rule progress_store.put_inv[OF inv])
  have cur: "map_of (progress ?s) ?k = Some ?c" by (simp add: progress_of_save[OF ok])
  then have "latest (history_of s ?k @ [e]) = Some ?c"
    using inv' by (metis h progress_inv_def)
  from latest_spec[OF this] show ?thesis
    using inv' h cur progress_store.put_result[OF ok, of s] by blast
qed

theorem save_progress_latest_witness:
  "fst (save_reading_progress empty_storage (sample_progress 4 1)) = Inr (sample_progress 4 1)"
  using save_progress_latest[OF progress_inv_empty accepts_sample_progress[of 4 1]]
  by (auto simp: history_of_def empty_storage_def Cons_eq_append_conv)

text \<open>
  A report that advances the position stamps the book's shelf row with the report's time and a
  stale report leaves the shelf alone; clearing removes the position and its history and unstamps
  the shelf row. No operation adds or removes shelf rows.
\<close>
theorem progress_stamps_shelf:
  assumes "accepts_progress e" and "valid_key (i, b)"
  shows "map_of (shelf (snd (save_reading_progress s e))) = (
      if \<forall>c. map_of (progress s) (entry_progress_key e) = Some c \<longrightarrow> pe_updated_at c \<le> pe_updated_at e
      then (map_of (shelf s))(entry_progress_key e := map_option
        (\<lambda>r. r\<lparr>be_last_read_at := Some (pe_updated_at e)\<rparr>) (map_of (shelf s) (entry_progress_key e)))
      else map_of (shelf s))
    \<and> map_of (shelf (snd (clear_reading_progress s i b)))
      = (map_of (shelf s))((i, b) := map_option (\<lambda>r. r\<lparr>be_last_read_at := None\<rparr>) (map_of (shelf s) (i, b)))
    \<and> get_reading_progress (snd (clear_reading_progress s i b)) i b = Inr None
    \<and> reading_progress_history (snd (clear_reading_progress s i b)) i b = Inr []"
proof (intro conjI)
  let ?s = "snd (clear_reading_progress s i b)"
  have adv: "(advance c e = e \<and> (\<forall>d. c = Some d \<longrightarrow> pe_updated_at d \<le> pe_updated_at e))
      \<longleftrightarrow> (\<forall>d. c = Some d \<longrightarrow> pe_updated_at d \<le> pe_updated_at e)" for c
    by (cases c) (auto simp: advance_def)
  show "map_of (shelf (snd (save_reading_progress s e))) = (
      if \<forall>c. map_of (progress s) (entry_progress_key e) = Some c \<longrightarrow> pe_updated_at c \<le> pe_updated_at e
      then (map_of (shelf s))(entry_progress_key e := map_option
        (\<lambda>r. r\<lparr>be_last_read_at := Some (pe_updated_at e)\<rparr>) (map_of (shelf s) (entry_progress_key e)))
      else map_of (shelf s))"
    using assms(1) by (simp add: save_reading_progress_eq Let_def adv shelf_last_read_def table_simps) blast
  have eq: "shelf ?s = hm_modify (i, b) (\<lambda>r. r\<lparr>be_last_read_at := None\<rparr>) (shelf s)"
    "map_of (progress ?s) (i, b) = None" "map_of (progress_history ?s) (i, b) = None"
    using assms(2) by (simp_all add: clear_reading_progress_def try_state_unit Let_def
        shelf_last_read_def table_simps)
  show "map_of (shelf ?s)
      = (map_of (shelf s))((i, b) := map_option (\<lambda>r. r\<lparr>be_last_read_at := None\<rparr>) (map_of (shelf s) (i, b)))"
    by (simp only: eq map_of_hm_modify)
  show "get_reading_progress ?s i b = Inr None" "reading_progress_history ?s i b = Inr []"
    using assms(2) by (simp_all add: get_reading_progress_def reading_progress_history_def
        and_then_unit eq)
qed

theorem progress_stamps_shelf_witness:
  "map_of (shelf (snd (save_reading_progress (empty_storage\<lparr>shelf :=
      [((lit ''s'', lit ''b''), sample_shelf_entry 98 1)]\<rparr>) (sample_progress 4 1)))) (lit ''s'', lit ''b'')
    = Some ((sample_shelf_entry 98 1)\<lparr>be_last_read_at := Some 4\<rparr>)"
proof -
  have "valid_key (lit ''s'', lit ''b'')" by (simp add: valid_key_def blank_iff is_whitespace_def)
  from progress_stamps_shelf[OF accepts_sample_progress[of 4 1] this,
      of "empty_storage\<lparr>shelf := [((lit ''s'', lit ''b''), sample_shelf_entry 98 1)]\<rparr>"]
  show ?thesis by (simp add: sample_progress_def entry_progress_key_def empty_storage_def)
qed

lemma list_reading_progress_sorted:
  "list_reading_progress s i = Inr rows \<Longrightarrow>
     sorted_wrt (\<lambda>a b. pe_updated_at a \<ge> pe_updated_at b) rows"
proof -
  assume "list_reading_progress s i = Inr rows"
  then have rows: "rows = sort_by progress_cmp (map snd (filter (\<lambda>((j, b), e). j = i) (progress s)))"
    by (simp add: list_reading_progress_def and_then_eq_Inr)
  show ?thesis
    unfolding rows by (rule sorted_wrt_mono_rel[OF _ progress_listing.listing_sorted])
      (auto simp: progress_cmp_def chain_def then_with_Greater flip_cmp_def by_key_def rcmp_def
        split: if_splits)
qed

interpretation history_order: comparator history_cmp
  by (simp add: history_cmp_def comparator_intros)

lemma reading_progress_history_sorted:
  assumes "reading_progress_history s i b = Inr rows"
  shows "mset rows = mset (history_of s (i, b))"
    and "sorted_wrt (\<lambda>x y. pe_updated_at x \<le> pe_updated_at y) rows"
proof -
  have rows: "rows = sort_by history_cmp (history_of s (i, b))"
    using assms by (simp add: reading_progress_history_def and_then_eq_Inr history_of_def)
  then show "mset rows = mset (history_of s (i, b))" by simp
  show "sorted_wrt (\<lambda>x y. pe_updated_at x \<le> pe_updated_at y) rows"
    unfolding rows by (rule sorted_wrt_mono_rel[OF _ history_order.sorted_sort])
      (auto simp: history_cmp_def chain_def then_with_Greater by_key_def rcmp_def split: if_splits)
qed

end
