(* ===== verification/Snapshot.thy ===== *)
theory Snapshot
  imports Entities DownloadQueue ChapterCache Progress
begin

text \<open>
  Storage snapshots (\<open>StorageSnapshot::validate\<close>, \<open>export_snapshot\<close>, \<open>replace_with_snapshot\<close>,
  \<open>sort_storage_snapshot\<close> and \<open>storage_inner_from_snapshot\<close> in
  \<open>crates/reader-storage/src/lib.rs\<close>): what an export contains and in which order, which snapshots
  are accepted, and the round trip between a storage and its snapshot.
\<close>

subsection \<open>Validation\<close>

definition ensure_unique_snapshot_key :: "'k list \<Rightarrow> 'k \<Rightarrow> string \<Rightarrow> 'k list result" where
  "ensure_unique_snapshot_key seen key field
     = (if key \<in> set seen then Inl (InvalidSnapshot field) else Inr (key # seen))"

fun unique_rows :: "('a \<Rightarrow> unit result) \<Rightarrow> ('a \<Rightarrow> 'k) \<Rightarrow> string \<Rightarrow> 'k list \<Rightarrow> 'a list \<Rightarrow> unit result" where
  \<comment> \<open>one \<open>for\<close> loop of \<open>validate\<close>: each row is checked, then its key must be new\<close>
  "unique_rows check key field seen [] = Inr ()"
| "unique_rows check key field seen (x # xs) = and_then (check x) (\<lambda>_.
     and_then (ensure_unique_snapshot_key seen (key x) field)
       (\<lambda>seen'. unique_rows check key field seen' xs))"

definition validate_snapshot :: "storage_snapshot \<Rightarrow> unit result" where
  "validate_snapshot sn = checks
     [ensure (sn_schema_version sn = snapshot_schema_version) (InvalidSnapshot ''schema_version''),
      unique_rows validate_source src_source_id ''sources'' [] (sn_sources sn),
      unique_rows validate_book bk_book_id ''books'' [] (sn_books sn),
      unique_rows validate_cache_entry ce_key ''cache'' [] (sn_cache sn),
      unique_rows validate_domain_progress rp_book_id ''legacy_progress'' [] (sn_legacy_progress sn),
      unique_rows (\<lambda>e. validate_shelf_key (be_source_id e) (be_book_id e)) entry_shelf_key ''bookshelf'' [] (sn_bookshelf sn),
      unique_rows (\<lambda>e. validate_book_key (cc_source_id e) (cc_book_id e)) entry_cache_key ''chapter_cache'' [] (sn_chapter_cache sn),
      unique_rows validate_reading_progress entry_progress_key ''reading_progress'' [] (sn_progress sn),
      check_each validate_reading_progress (sn_progress_history sn),
      unique_rows validate_download_task task_download_key ''chapter_download_queue'' [] (sn_downloads sn),
      unique_rows (\<lambda>_. Inr ()) ttr_id ''txt_toc_rules'' [] (sn_txt_toc_rules sn),
      unique_rows (\<lambda>_. Inr ()) bm_time ''bookmarks'' [] (sn_bookmarks sn),
      unique_rows (\<lambda>_. Inr ()) rr_id ''replace_rules'' [] (sn_replace_rules sn),
      unique_rows (\<lambda>r. ensure (\<not> blank (dr_name r)) (InvalidKey ''dict_rules.name'')) dr_name ''dict_rules'' [] (sn_dict_rules sn),
      unique_rows (\<lambda>_. Inr ()) bg_group_id ''book_groups'' [] (sn_book_groups sn),
      unique_rows (\<lambda>r. ensure (\<not> blank (rd_book_name r)) (InvalidKey ''read_records.book_name'')) record_key ''read_records'' [] (sn_read_records sn)]"

subsection \<open>Export and import\<close>

definition compare_bookshelf_key :: "bookshelf_entry cmp" where
  "compare_bookshelf_key = chain (by_key be_source_id) (by_key be_book_id)"

definition compare_chapter_cache_key :: "chapter_cache_entry cmp" where
  "compare_chapter_cache_key
     = chain (by_key cc_source_id) (chain (by_key cc_book_id) (by_key cc_chapter_index))"

definition compare_reading_progress_key :: "progress_entry cmp" where
  "compare_reading_progress_key = chain (by_key pe_source_id) (by_key pe_book_id)"

definition compare_download_key :: "download_task cmp" where
  "compare_download_key
     = chain (by_key dt_source_id) (chain (by_key dt_book_id) (by_key dt_chapter_index))"

definition snapshot_history_cmp :: "progress_entry cmp" where
  "snapshot_history_cmp = chain compare_reading_progress_key (chain (by_key pe_updated_at)
     (chain (by_key pe_device_id) (chain (by_key pe_chapter_index) (by_key pe_chapter_offset))))"

definition sort_storage_snapshot :: "storage_snapshot \<Rightarrow> storage_snapshot" where
  "sort_storage_snapshot sn = sn\<lparr>
     sn_sources := sort_by (by_key src_source_id) (sn_sources sn),
     sn_books := sort_by (by_key bk_book_id) (sn_books sn),
     sn_cache := sort_by (by_key ce_key) (sn_cache sn),
     sn_legacy_progress := sort_by (by_key rp_book_id) (sn_legacy_progress sn),
     sn_bookshelf := sort_by compare_bookshelf_key (sn_bookshelf sn),
     sn_chapter_cache := sort_by compare_chapter_cache_key (sn_chapter_cache sn),
     sn_progress := sort_by compare_reading_progress_key (sn_progress sn),
     sn_progress_history := sort_by snapshot_history_cmp (sn_progress_history sn),
     sn_downloads := sort_by compare_download_key (sn_downloads sn),
     sn_txt_toc_rules := sort_by txt_toc_rule_cmp (sn_txt_toc_rules sn),
     sn_bookmarks := sort_by (by_key bm_time) (sn_bookmarks sn),
     sn_replace_rules := sort_by replace_rule_cmp (sn_replace_rules sn),
     sn_dict_rules := sort_by dict_rule_cmp (sn_dict_rules sn),
     sn_book_groups := sort_by book_group_cmp (sn_book_groups sn),
     sn_read_records := sort_by read_record_cmp (sn_read_records sn)\<rparr>"

definition snapshot_of :: "storage \<Rightarrow> int \<Rightarrow> storage_snapshot" where
  \<comment> \<open>the struct \<open>export_snapshot\<close> collects before it sorts and validates\<close>
  "snapshot_of s exported_at = \<lparr>sn_schema_version = snapshot_schema_version, sn_exported_at = exported_at,
     sn_sources = hm_values (sources s),
     sn_books = hm_values (books s),
     sn_cache = hm_values (cache s),
     sn_legacy_progress = hm_values (legacy_progress s),
     sn_bookshelf = hm_values (shelf s),
     sn_chapter_cache = hm_values (chapter_cache s),
     sn_progress = hm_values (progress s),
     sn_progress_history = concat (hm_values (progress_history s)),
     sn_downloads = hm_values (downloads s),
     sn_txt_toc_rules = hm_values (txt_toc_rules s),
     sn_bookmarks = hm_values (bookmarks s),
     sn_replace_rules = hm_values (replace_rules s),
     sn_dict_rules = hm_values (dict_rules s),
     sn_book_groups = hm_values (book_groups s),
     sn_read_records = hm_values (read_records s)\<rparr>"

definition export_snapshot :: "storage \<Rightarrow> int \<Rightarrow> storage_snapshot result" where
  "export_snapshot s exported_at = (let snapshot = sort_storage_snapshot (snapshot_of s exported_at)
     in and_then (validate_snapshot snapshot) (\<lambda>_. Inr snapshot))"

definition insert_all :: "('v \<Rightarrow> 'k) \<Rightarrow> 'v list \<Rightarrow> ('k, 'v) hmap" where
  "insert_all key rows = fold (\<lambda>v. hm_insert (key v) v) rows []"

definition push_history :: "progress_entry \<Rightarrow> (reading_progress_key, progress_entry list) hmap
    \<Rightarrow> (reading_progress_key, progress_entry list) hmap" where
  "push_history e h = hm_insert (entry_progress_key e)
     ((case map_of h (entry_progress_key e) of Some l \<Rightarrow> l | None \<Rightarrow> []) @ [e]) h"

definition storage_inner_from_snapshot :: "storage_snapshot \<Rightarrow> storage result" where
  "storage_inner_from_snapshot sn = Inr \<lparr>
     sources = insert_all src_source_id (sn_sources sn),
     books = insert_all bk_book_id (sn_books sn),
     cache = insert_all ce_key (sn_cache sn),
     legacy_progress = insert_all rp_book_id (sn_legacy_progress sn),
     shelf = insert_all entry_shelf_key (sn_bookshelf sn),
     chapter_cache = insert_all entry_cache_key (sn_chapter_cache sn),
     progress = insert_all entry_progress_key (sn_progress sn),
     progress_history = fold push_history (sn_progress_history sn) [],
     downloads = insert_all task_download_key (sn_downloads sn),
     txt_toc_rules = insert_all ttr_id (sn_txt_toc_rules sn),
     bookmarks = insert_all bm_time (sn_bookmarks sn),
     replace_rules = insert_all rr_id (sn_replace_rules sn),
     dict_rules = insert_all dr_name (sn_dict_rules sn),
     book_groups = insert_all bg_group_id (sn_book_groups sn),
     read_records = insert_all record_key (sn_read_records sn)\<rparr>"

definition replace_with_snapshot :: "storage \<Rightarrow> storage_snapshot \<Rightarrow> (storage, unit) update" where
  "replace_with_snapshot s sn = try_state (validate_snapshot sn) s (\<lambda>_.
     try_state (storage_inner_from_snapshot sn) s (\<lambda>replacement. (Inr (), replacement)))"

subsection \<open>What validation accepts\<close>

lemma unique_rows_seen:
  "unique_rows check key f seen xs = Inr () \<longleftrightarrow> (\<forall>x \<in> set xs. check x = Inr ())
     \<and> distinct (map key xs) \<and> set (map key xs) \<inter> set seen = {}"
  by (induction xs arbitrary: seen)
    (auto simp: and_then_eq_Inr ensure_unique_snapshot_key_def)

lemma unique_rows_ok [simp]:
  "unique_rows check key f [] xs = Inr () \<longleftrightarrow> (\<forall>x \<in> set xs. check x = Inr ()) \<and> distinct (map key xs)"
  by (simp add: unique_rows_seen)

definition snapshot_rows_valid :: "storage_snapshot \<Rightarrow> bool" where
  "snapshot_rows_valid sn = (
    (\<forall>x \<in> set (sn_sources sn). \<not> blank (src_source_id x))
   \<and> (\<forall>x \<in> set (sn_books sn). \<not> blank (bk_book_id x))
   \<and> (\<forall>x \<in> set (sn_cache sn). \<not> blank (ce_key x))
   \<and> (\<forall>x \<in> set (sn_legacy_progress sn). validate_domain_progress x = Inr ())
   \<and> (\<forall>x \<in> set (sn_bookshelf sn). valid_key (entry_shelf_key x))
   \<and> (\<forall>x \<in> set (sn_chapter_cache sn). cache_key_valid (entry_cache_key x))
   \<and> (\<forall>x \<in> set (sn_progress sn). accepts_progress x)
   \<and> (\<forall>x \<in> set (sn_progress_history sn). accepts_progress x)
   \<and> (\<forall>x \<in> set (sn_downloads sn). valid_task x)
   \<and> (\<forall>x \<in> set (sn_dict_rules sn). \<not> blank (dr_name x))
   \<and> (\<forall>x \<in> set (sn_read_records sn). \<not> blank (rd_book_name x)))"

definition snapshot_keys_distinct :: "storage_snapshot \<Rightarrow> bool" where
  "snapshot_keys_distinct sn = (
    distinct (map src_source_id (sn_sources sn))
   \<and> distinct (map bk_book_id (sn_books sn))
   \<and> distinct (map ce_key (sn_cache sn))
   \<and> distinct (map rp_book_id (sn_legacy_progress sn))
   \<and> distinct (map entry_shelf_key (sn_bookshelf sn))
   \<and> distinct (map entry_cache_key (sn_chapter_cache sn))
   \<and> distinct (map entry_progress_key (sn_progress sn))
   \<and> distinct (map task_download_key (sn_downloads sn))
   \<and> distinct (map ttr_id (sn_txt_toc_rules sn))
   \<and> distinct (map bm_time (sn_bookmarks sn))
   \<and> distinct (map rr_id (sn_replace_rules sn))
   \<and> distinct (map dr_name (sn_dict_rules sn))
   \<and> distinct (map bg_group_id (sn_book_groups sn))
   \<and> distinct (map record_key (sn_read_records sn)))"

lemma validate_snapshot_ok:
  "validate_snapshot sn = Inr () \<longleftrightarrow> sn_schema_version sn = snapshot_schema_version
     \<and> snapshot_rows_valid sn \<and> snapshot_keys_distinct sn"
  by (simp add: validate_snapshot_def check_each_ok snapshot_rows_valid_def snapshot_keys_distinct_def
      validate_source_def validate_source_id_def validate_book_def validate_cache_entry_def
      entry_shelf_key_def cache_key_valid_def entry_cache_key_def validate_reading_progress_ok
      accepts_progress_def validate_valid_task) blast

subsection \<open>Histories\<close>

definition history_keyed :: "(reading_progress_key, progress_entry list) hmap \<Rightarrow> bool" where
  "history_keyed h = (hm_ok h \<and> (\<forall>(k, l) \<in> set h. \<forall>e \<in> set l. entry_progress_key e = k))"

definition history_at :: "(reading_progress_key, progress_entry list) hmap \<Rightarrow> reading_progress_key
    \<Rightarrow> progress_entry list" where
  "history_at h k = (case map_of h k of Some l \<Rightarrow> l | None \<Rightarrow> [])"

lemma history_concat:
  assumes "history_keyed h" and "\<And>e. P e \<Longrightarrow> entry_progress_key e = k"
  shows "filter P (concat (hm_values h)) = filter P (history_at h k)"
  using assms(1)
proof (induction h)
  case (Cons row h)
  obtain j l where row: "row = (j, l)" by (cases row)
  have h: "history_keyed h" and l: "\<And>e. e \<in> set l \<Longrightarrow> entry_progress_key e = j"
    and j: "j \<notin> fst ` set h"
    using Cons.prems by (auto simp: history_keyed_def hm_ok_def row)
  have none: "filter P l = []" if "j \<noteq> k"
    using that l assms(2) by (fastforce simp: filter_empty_conv)
  have "history_at h k = []" if "j = k"
    using j that by (simp add: history_at_def map_of_eq_None_iff[THEN iffD2])
  then show ?case
    using Cons.IH[OF h] none by (cases "j = k") (simp_all add: hm_values_def history_at_def row)
qed (simp add: hm_values_def history_at_def)

lemma history_at_key: "history_keyed h \<Longrightarrow> e \<in> set (history_at h k) \<Longrightarrow> entry_progress_key e = k"
  by (cases "map_of h k") (auto simp: history_keyed_def history_at_def dest!: map_of_SomeD)

lemma push_history_eq: "push_history e h
    = hm_insert (entry_progress_key e) (history_at h (entry_progress_key e) @ [e]) h"
  by (simp add: push_history_def history_at_def)

lemma history_keyed_push:
  assumes "history_keyed h" shows "history_keyed (push_history e h)"
  using assms history_at_key[OF assms]
  by (auto simp: history_keyed_def push_history_eq set_hm_insert)

lemma history_at_push:
  "history_at (push_history e h) k = history_at h k @ (if entry_progress_key e = k then [e] else [])"
  by (auto simp: history_at_def push_history_def table_simps)

lemma history_at_push_all:
  "history_at (fold push_history es h) k = history_at h k @ filter (\<lambda>e. entry_progress_key e = k) es"
  by (induction es arbitrary: h) (simp_all add: history_at_push)

lemma history_keyed_push_all: "history_keyed h \<Longrightarrow> history_keyed (fold push_history es h)"
  by (induction es arbitrary: h) (simp_all add: history_keyed_push)

interpretation snapshot_history: comparator snapshot_history_cmp
  by (simp add: snapshot_history_cmp_def compare_reading_progress_key_def comparator_intros)

lemma history_cmp_key:
  "snapshot_history_cmp a e = Equal \<Longrightarrow> entry_progress_key e = entry_progress_key a"
  by (simp add: snapshot_history_cmp_def compare_reading_progress_key_def entry_progress_key_def)

lemma snapshot_history_unique:
  assumes "history_keyed h" and "history_keyed h'" and "history_at h = history_at h'"
  shows "sort_by snapshot_history_cmp (concat (hm_values h))
    = sort_by snapshot_history_cmp (concat (hm_values h'))"
proof (rule snapshot_history.sort_stable_unique)
  fix a
  show "filter (\<lambda>x. snapshot_history_cmp a x = Equal) (concat (hm_values h))
      = filter (\<lambda>x. snapshot_history_cmp a x = Equal) (concat (hm_values h'))"
    using history_concat[OF assms(1), of "\<lambda>x. snapshot_history_cmp a x = Equal" "entry_progress_key a"]
      history_concat[OF assms(2), of "\<lambda>x. snapshot_history_cmp a x = Equal" "entry_progress_key a"]
    by (simp add: assms(3) history_cmp_key)
qed

lemma snapshot_history_rebuilt:
  "sort_by snapshot_history_cmp (concat (hm_values (fold push_history es [])))
    = sort_by snapshot_history_cmp es"
proof (rule snapshot_history.sort_stable_unique)
  fix a
  let ?P = "\<lambda>x. snapshot_history_cmp a x = Equal" and ?k = "entry_progress_key a"
  have k: "history_keyed (fold push_history es [])"
    by (rule history_keyed_push_all) (simp add: history_keyed_def)
  have "filter ?P (concat (hm_values (fold push_history es [])))
      = filter ?P (filter (\<lambda>e. entry_progress_key e = ?k) es)"
    using history_concat[OF k, of ?P ?k] history_cmp_key
    by (simp add: history_at_push_all) (simp add: history_at_def)
  also have "\<dots> = filter ?P es"
    unfolding filter_filter by (rule filter_cong) (auto dest: history_cmp_key)
  finally show "filter ?P (concat (hm_values (fold push_history es []))) = filter ?P es" .
qed

subsection \<open>Tables\<close>

definition storage_keyed :: "storage \<Rightarrow> bool" where
  "storage_keyed s = (entities_keyed s \<and> shelf_keyed s \<and> cache_keyed s
     \<and> keyed entry_progress_key (progress s) \<and> history_keyed (progress_history s)
     \<and> keyed task_download_key (downloads s))"

definition same_rows :: "storage \<Rightarrow> storage \<Rightarrow> bool" where
  \<comment> \<open>equality of storages up to the iteration order of their hash maps\<close>
  "same_rows s s' = (
    map_of (sources s) = map_of (sources s')
   \<and> map_of (books s) = map_of (books s')
   \<and> map_of (cache s) = map_of (cache s')
   \<and> map_of (legacy_progress s) = map_of (legacy_progress s')
   \<and> map_of (shelf s) = map_of (shelf s')
   \<and> map_of (chapter_cache s) = map_of (chapter_cache s')
   \<and> map_of (progress s) = map_of (progress s')
   \<and> map_of (downloads s) = map_of (downloads s')
   \<and> map_of (txt_toc_rules s) = map_of (txt_toc_rules s')
   \<and> map_of (bookmarks s) = map_of (bookmarks s')
   \<and> map_of (replace_rules s) = map_of (replace_rules s')
   \<and> map_of (dict_rules s) = map_of (dict_rules s')
   \<and> map_of (book_groups s) = map_of (book_groups s')
   \<and> map_of (read_records s) = map_of (read_records s')
   \<and> history_at (progress_history s) = history_at (progress_history s'))"

lemmas storage_keyed_tables = storage_keyed_def entities_keyed_def shelf_keyed_def cache_keyed_def

lemma insert_all_distinct: "distinct (map f xs) \<Longrightarrow> insert_all f xs = map (\<lambda>v. (f v, v)) xs"
  by (simp add: insert_all_def hm_insert_all_fresh)

lemma values_insert_all: "distinct (map f xs) \<Longrightarrow> hm_values (insert_all f xs) = xs"
  by (simp add: insert_all_distinct hm_values_def comp_def)

lemma keyed_insert_all_rows: "keyed f (insert_all f xs)"
  by (simp add: insert_all_def keyed_insert_all)

lemma map_of_insert_all_sorted:
  assumes "keyed f m" shows "map_of (insert_all f (sort_by c (hm_values m))) = map_of m"
proof
  fix k
  have d: "distinct (map f (sort_by c (hm_values m)))" using keyed_distinct_values[OF assms] by simp
  have "map_of (insert_all f (sort_by c (hm_values m))) k = Some v \<longleftrightarrow> map_of m k = Some v" for v
  proof -
    have "(k, v) \<in> set (insert_all f (sort_by c (hm_values m))) \<longleftrightarrow> k = f v \<and> v \<in> set (hm_values m)"
      by (auto simp: insert_all_distinct[OF d])
    also have "\<dots> \<longleftrightarrow> map_of m k = Some v"
      using in_values_iff[OF keyed_hm_ok[OF assms]] keyedD[OF assms] by blast
    finally show ?thesis
      using in_set_iff_map_of[OF keyed_hm_ok[OF keyed_insert_all_rows]] by metis
  qed
  then show "map_of (insert_all f (sort_by c (hm_values m))) k = map_of m k"
    by (metis not_None_eq)
qed

lemma sort_values_unique:
  assumes "comparator c" and "\<And>a b. c a b = Equal \<Longrightarrow> f a = f b"
    and "keyed f m" and "keyed f m'" and "map_of m = map_of m'"
  shows "sort_by c (hm_values m) = sort_by c (hm_values m')"
  using sort_listing_unique[OF assms(1,3,4,5), of "\<lambda>_. True"] assms(2) by simp

lemmas snapshot_comparators = compare_bookshelf_key_def compare_chapter_cache_key_def
  compare_reading_progress_key_def compare_download_key_def txt_toc_rule_cmp_def replace_rule_cmp_def
  dict_rule_cmp_def book_group_cmp_def read_record_cmp_def

lemma sort_snapshot_invariants:
  "snapshot_rows_valid (sort_storage_snapshot sn) = snapshot_rows_valid sn"
  "snapshot_keys_distinct (sort_storage_snapshot sn) = snapshot_keys_distinct sn"
  "sn_schema_version (sort_storage_snapshot sn) = sn_schema_version sn"
  by (simp_all add: sort_storage_snapshot_def snapshot_rows_valid_def snapshot_keys_distinct_def)

lemma snapshot_of_distinct: "storage_keyed s \<Longrightarrow> snapshot_keys_distinct (snapshot_of s t)"
  by (simp add: snapshot_keys_distinct_def snapshot_of_def storage_keyed_tables keyed_distinct_values)

lemma export_snapshot_eq:
  "storage_keyed s \<Longrightarrow> export_snapshot s t = (if snapshot_rows_valid (snapshot_of s t)
     then Inr (sort_storage_snapshot (snapshot_of s t))
     else Inl (projl (validate_snapshot (sort_storage_snapshot (snapshot_of s t)))))"
  using snapshot_of_distinct[of s t]
  by (auto simp: export_snapshot_def Let_def and_then_unit validate_snapshot_ok sort_snapshot_invariants)
    (simp add: snapshot_of_def)+

subsection \<open>Properties\<close>

lemma imported_tables:
  assumes "validate_snapshot sn = Inr ()"
  obtains r where "storage_inner_from_snapshot sn = Inr r" "storage_keyed r"
    "snapshot_of r t = sn\<lparr>sn_exported_at := t,
       sn_progress_history := concat (hm_values (fold push_history (sn_progress_history sn) []))\<rparr>"
    "progress_history r = fold push_history (sn_progress_history sn) []"
proof -
  obtain r where r: "storage_inner_from_snapshot sn = Inr r"
    by (simp add: storage_inner_from_snapshot_def)
  have v: "sn_schema_version sn = snapshot_schema_version" "snapshot_keys_distinct sn"
    using assms by (simp_all add: validate_snapshot_ok)
  have "history_keyed (fold push_history (sn_progress_history sn) [])"
    by (rule history_keyed_push_all) (simp add: history_keyed_def)
  then have "storage_keyed r"
    using r by (auto simp: storage_inner_from_snapshot_def storage_keyed_tables keyed_insert_all_rows)
  moreover have "snapshot_of r t = sn\<lparr>sn_exported_at := t,
       sn_progress_history := concat (hm_values (fold push_history (sn_progress_history sn) []))\<rparr>"
    using v r by (auto simp: storage_inner_from_snapshot_def snapshot_of_def snapshot_keys_distinct_def
        values_insert_all)
  moreover have "progress_history r = fold push_history (sn_progress_history sn) []"
    using r by (auto simp: storage_inner_from_snapshot_def)
  ultimately show thesis using that r by blast
qed

lemma concat_history_set:
  "history_keyed h \<Longrightarrow> set (concat (hm_values h)) = (\<Union>k. set (history_at h k))"
proof -
  assume h: "history_keyed h"
  have "e \<in> set (concat (hm_values h)) \<longleftrightarrow> e \<in> set (history_at h (entry_progress_key e))" for e
    using arg_cong[OF history_concat[OF h, of "\<lambda>x. x = e" "entry_progress_key e"], of set] by auto
  then show ?thesis using history_at_key[OF h] by auto
qed

text \<open>
  C22: Importing an accepted snapshot and exporting it again gives the snapshot back in canonical
  order: nothing is lost, invented or merged, and the histories are regrouped without reordering
  reports that the canonical order does not separate.
\<close>
theorem import_export_roundtrip:
  assumes "validate_snapshot sn = Inr ()"
  shows "fst (replace_with_snapshot s sn) = Inr ()
    \<and> storage_keyed (snd (replace_with_snapshot s sn))
    \<and> export_snapshot (snd (replace_with_snapshot s sn)) (sn_exported_at sn)
      = Inr (sort_storage_snapshot sn)"
proof -
  obtain r where r: "storage_inner_from_snapshot sn = Inr r" "storage_keyed r"
    "snapshot_of r (sn_exported_at sn) = sn\<lparr>sn_exported_at := sn_exported_at sn,
       sn_progress_history := concat (hm_values (fold push_history (sn_progress_history sn) []))\<rparr>"
    by (rule imported_tables[OF assms])
  let ?h = "fold push_history (sn_progress_history sn) []"
  have h: "history_keyed ?h" by (rule history_keyed_push_all) (simp add: history_keyed_def)
  have "set (concat (hm_values ?h)) = set (sn_progress_history sn)"
    unfolding concat_history_set[OF h] by (auto simp: history_at_push_all) (simp add: history_at_def)
  then have "snapshot_rows_valid (snapshot_of r (sn_exported_at sn))"
    using assms by (simp add: r(3) validate_snapshot_ok snapshot_rows_valid_def)
  moreover have "sort_storage_snapshot (snapshot_of r (sn_exported_at sn)) = sort_storage_snapshot sn"
    by (simp add: r(3) sort_storage_snapshot_def snapshot_history_rebuilt del: set_sort_by)
  ultimately have "export_snapshot r (sn_exported_at sn) = Inr (sort_storage_snapshot sn)"
    by (simp add: export_snapshot_eq[OF r(2)])
  moreover have "replace_with_snapshot s sn = (Inr (), r)"
    by (simp add: replace_with_snapshot_def assms r(1))
  ultimately show ?thesis using r(2) by simp
qed

definition sample_snapshot :: storage_snapshot where
  "sample_snapshot = (empty_snapshot 77)\<lparr>sn_bookmarks := [sample_bookmark 2, sample_bookmark 1],
     sn_progress_history := [sample_progress 9 1, sample_progress 4 2]\<rparr>"

lemma validate_sample_snapshot: "validate_snapshot sample_snapshot = Inr ()"
  by (simp add: validate_snapshot_ok sample_snapshot_def empty_snapshot_def snapshot_rows_valid_def
      snapshot_keys_distinct_def accepts_sample_progress) (simp add: sample_bookmark_def)

theorem import_export_roundtrip_witness:
  "export_snapshot (snd (replace_with_snapshot empty_storage sample_snapshot)) (sn_exported_at sample_snapshot)
    = Inr (sort_storage_snapshot sample_snapshot)"
  using import_export_roundtrip[OF validate_sample_snapshot, of empty_storage] by blast

text \<open>
  Restoring an exported snapshot restores the storage: every table has the same rows, whatever
  storage it is restored into, and the history of each book is the exported one in chronological
  order (a permutation of the original).
\<close>
theorem export_restore_roundtrip:
  assumes keyed: "storage_keyed s" and exported: "export_snapshot s t = Inr sn"
  shows "fst (replace_with_snapshot s0 sn) = Inr ()
    \<and> (let r = snd (replace_with_snapshot s0 sn) in
        same_rows (s\<lparr>progress_history := []\<rparr>) (r\<lparr>progress_history := []\<rparr>)
        \<and> (\<forall>k. mset (history_at (progress_history r) k) = mset (history_at (progress_history s) k)
            \<and> sorted_wrt (\<lambda>a b. pe_updated_at a \<le> pe_updated_at b) (history_at (progress_history r) k)))"
proof -
  have valid: "snapshot_rows_valid (snapshot_of s t)" and sn: "sn = sort_storage_snapshot (snapshot_of s t)"
    using exported by (auto simp: export_snapshot_eq[OF keyed] split: if_splits)
  have "validate_snapshot sn = Inr ()"
    using exported by (auto simp: export_snapshot_def Let_def and_then_eq_Inr)
  then obtain r where r: "storage_inner_from_snapshot sn = Inr r"
      "progress_history r = fold push_history (sn_progress_history sn) []"
    by (rule imported_tables)
  have eq: "replace_with_snapshot s0 sn = (Inr (), r)"
    by (simp add: replace_with_snapshot_def \<open>validate_snapshot sn = Inr ()\<close> r(1))
  have "same_rows (s\<lparr>progress_history := []\<rparr>) (r\<lparr>progress_history := []\<rparr>)"
    using r(1) keyed unfolding sn
    by (auto simp: storage_inner_from_snapshot_def sort_storage_snapshot_def snapshot_of_def
        same_rows_def storage_keyed_tables map_of_insert_all_sorted)
  moreover have "mset (history_at (progress_history r) k) = mset (history_at (progress_history s) k)
      \<and> sorted_wrt (\<lambda>a b. pe_updated_at a \<le> pe_updated_at b) (history_at (progress_history r) k)" for k
  proof
    have h: "history_keyed (progress_history s)" using keyed by (simp add: storage_keyed_def)
    let ?P = "\<lambda>e. entry_progress_key e = k"
    let ?all = "concat (hm_values (progress_history s))"
    have k: "history_at (progress_history r) k = filter ?P (sort_by snapshot_history_cmp ?all)"
      by (simp add: r(2) history_at_push_all sn sort_storage_snapshot_def snapshot_of_def)
        (simp add: history_at_def)
    have "filter ?P (history_at (progress_history s) k) = history_at (progress_history s) k"
      using history_at_key[OF h] by (simp add: filter_id_conv)
    with history_concat[OF h, of ?P k] have "filter ?P ?all = history_at (progress_history s) k" by simp
    then show "mset (history_at (progress_history r) k) = mset (history_at (progress_history s) k)"
      by (simp add: k snapshot_history.filter_sort)
    show "sorted_wrt (\<lambda>a b. pe_updated_at a \<le> pe_updated_at b) (history_at (progress_history r) k)"
    proof (rule sorted_wrt_mono_rel[of _ "cmp_le snapshot_history_cmp"])
      show "sorted_wrt (cmp_le snapshot_history_cmp) (history_at (progress_history r) k)"
        by (simp add: k snapshot_history.filter_sort snapshot_history.sorted_sort)
      show "pe_updated_at x \<le> pe_updated_at y"
        if "x \<in> set (history_at (progress_history r) k)" "y \<in> set (history_at (progress_history r) k)"
          "cmp_le snapshot_history_cmp x y" for x y
        using that unfolding k
        by (auto simp: snapshot_history_cmp_def compare_reading_progress_key_def chain_def
            then_with_Greater by_key_def rcmp_def entry_progress_key_def split: if_splits)
    qed
  qed
  ultimately show ?thesis by (simp add: eq Let_def)
qed

theorem export_restore_roundtrip_witness:
  "\<exists>sn. export_snapshot empty_storage 5 = Inr sn \<and> fst (replace_with_snapshot sample_queue sn) = Inr ()"
proof -
  have k: "storage_keyed empty_storage"
    by (simp add: storage_keyed_tables empty_storage_def history_keyed_def)
  have "snapshot_rows_valid (snapshot_of empty_storage 5)"
    by (simp add: snapshot_rows_valid_def snapshot_of_def empty_storage_def hm_values_def)
  then have e: "export_snapshot empty_storage 5 = Inr (sort_storage_snapshot (snapshot_of empty_storage 5))"
    by (simp add: export_snapshot_eq[OF k])
  from export_restore_roundtrip[OF k e, of sample_queue] e show ?thesis by blast
qed

lemma snapshot_sort_unique:
  assumes s: "storage_keyed s" and s': "storage_keyed s'" and same: "same_rows s s'"
  shows "sort_storage_snapshot (snapshot_of s t) = sort_storage_snapshot (snapshot_of s' t)"
proof -
  note k = s[unfolded storage_keyed_tables] s'[unfolded storage_keyed_tables] same[unfolded same_rows_def]
  note keys = entry_shelf_key_def entry_cache_key_def entry_progress_key_def task_download_key_def
    record_key_def
  have "sort_by (by_key src_source_id) (hm_values (sources s)) = sort_by (by_key src_source_id) (hm_values (sources s'))"
    by (rule sort_values_unique[where f = src_source_id])
      (simp_all add: k snapshot_comparators comparator_intros keys)
  note this [simp]
  have "sort_by (by_key bk_book_id) (hm_values (books s)) = sort_by (by_key bk_book_id) (hm_values (books s'))"
    by (rule sort_values_unique[where f = bk_book_id])
      (simp_all add: k snapshot_comparators comparator_intros keys)
  note this [simp]
  have "sort_by (by_key ce_key) (hm_values (cache s)) = sort_by (by_key ce_key) (hm_values (cache s'))"
    by (rule sort_values_unique[where f = ce_key])
      (simp_all add: k snapshot_comparators comparator_intros keys)
  note this [simp]
  have "sort_by (by_key rp_book_id) (hm_values (legacy_progress s)) = sort_by (by_key rp_book_id) (hm_values (legacy_progress s'))"
    by (rule sort_values_unique[where f = rp_book_id])
      (simp_all add: k snapshot_comparators comparator_intros keys)
  note this [simp]
  have "sort_by compare_bookshelf_key (hm_values (shelf s)) = sort_by compare_bookshelf_key (hm_values (shelf s'))"
    by (rule sort_values_unique[where f = entry_shelf_key])
      (simp_all add: k snapshot_comparators comparator_intros keys)
  note this [simp]
  have "sort_by compare_chapter_cache_key (hm_values (chapter_cache s)) = sort_by compare_chapter_cache_key (hm_values (chapter_cache s'))"
    by (rule sort_values_unique[where f = entry_cache_key])
      (simp_all add: k snapshot_comparators comparator_intros keys)
  note this [simp]
  have "sort_by compare_reading_progress_key (hm_values (progress s)) = sort_by compare_reading_progress_key (hm_values (progress s'))"
    by (rule sort_values_unique[where f = entry_progress_key])
      (simp_all add: k snapshot_comparators comparator_intros keys)
  note this [simp]
  have "sort_by compare_download_key (hm_values (downloads s)) = sort_by compare_download_key (hm_values (downloads s'))"
    by (rule sort_values_unique[where f = task_download_key])
      (simp_all add: k snapshot_comparators comparator_intros keys)
  note this [simp]
  have "sort_by txt_toc_rule_cmp (hm_values (txt_toc_rules s)) = sort_by txt_toc_rule_cmp (hm_values (txt_toc_rules s'))"
    by (rule sort_values_unique[where f = ttr_id])
      (simp_all add: k snapshot_comparators comparator_intros keys)
  note this [simp]
  have "sort_by (by_key bm_time) (hm_values (bookmarks s)) = sort_by (by_key bm_time) (hm_values (bookmarks s'))"
    by (rule sort_values_unique[where f = bm_time])
      (simp_all add: k snapshot_comparators comparator_intros keys)
  note this [simp]
  have "sort_by replace_rule_cmp (hm_values (replace_rules s)) = sort_by replace_rule_cmp (hm_values (replace_rules s'))"
    by (rule sort_values_unique[where f = rr_id])
      (simp_all add: k snapshot_comparators comparator_intros keys)
  note this [simp]
  have "sort_by dict_rule_cmp (hm_values (dict_rules s)) = sort_by dict_rule_cmp (hm_values (dict_rules s'))"
    by (rule sort_values_unique[where f = dr_name])
      (simp_all add: k snapshot_comparators comparator_intros keys)
  note this [simp]
  have "sort_by book_group_cmp (hm_values (book_groups s)) = sort_by book_group_cmp (hm_values (book_groups s'))"
    by (rule sort_values_unique[where f = bg_group_id])
      (simp_all add: k snapshot_comparators comparator_intros keys)
  note this [simp]
  have "sort_by read_record_cmp (hm_values (read_records s)) = sort_by read_record_cmp (hm_values (read_records s'))"
    by (rule sort_values_unique[where f = record_key])
      (simp_all add: k snapshot_comparators comparator_intros keys)
  note this [simp]
  have "sort_by snapshot_history_cmp (concat (hm_values (progress_history s)))
      = sort_by snapshot_history_cmp (concat (hm_values (progress_history s')))"
    using k by (intro snapshot_history_unique) simp_all
  note this [simp]
  show ?thesis by (simp add: sort_storage_snapshot_def snapshot_of_def)
qed

text \<open>
  An export is a function of the stored rows: two storages with the same rows, in whatever
  order their hash maps iterate, export the same snapshot (or fail alike), so exports of one state
  are byte-stable.
\<close>
theorem export_deterministic:
  assumes "storage_keyed s" and "storage_keyed s'" and "same_rows s s'"
  shows "export_snapshot s t = export_snapshot s' t"
  using snapshot_sort_unique[OF assms] by (simp add: export_snapshot_def)

theorem export_deterministic_witness:
  "export_snapshot (empty_storage\<lparr>bookmarks := [(2, sample_bookmark 2), (1, sample_bookmark 1)]\<rparr>) 9
    = export_snapshot (empty_storage\<lparr>bookmarks := [(1, sample_bookmark 1), (2, sample_bookmark 2)]\<rparr>) 9"
  by (rule export_deterministic)
    (simp_all add: storage_keyed_tables empty_storage_def history_keyed_def keyed_def hm_ok_def
      sample_bookmark_def same_rows_def fun_eq_iff)

end
