(* ===== verification/StorageMachine.thy ===== *)
theory StorageMachine
  imports Snapshot
begin

text \<open>
  All mutating operations of \<open>InMemoryStorage\<close> as one state machine: a step relation whose labels
  are the calls a host can make, the states reachable from the empty storage, and the invariants
  every call keeps, whatever its arguments.
\<close>

subsection \<open>Calls\<close>

datatype storage_op =
    PutSource source
  | PutBook book
  | PutCache ustr ustr
  | PutProgress reading_progress
  | AddToShelf bookshelf_entry
  | RemoveFromShelf ustr ustr
  | UpdateLastRead ustr ustr int
  | MoveShelfEntry ustr ustr "ustr option" int
  | PutChapterCache chapter_cache_entry
  | RemoveChapterCache ustr ustr u32
  | ClearChapterCache ustr ustr
  | PruneChapterCache retention_policy
  | SaveReadingProgress progress_entry
  | ClearReadingProgress ustr ustr
  | EnqueueDownload download_task
  | QueueOp queue_op
  | PutTxtTocRule txt_toc_rule
  | DeleteTxtTocRule int
  | PutBookmark bookmark
  | DeleteBookmark int
  | PutReplaceRule replace_rule
  | DeleteReplaceRule int
  | PutDictRule dict_rule
  | DeleteDictRule ustr
  | PutBookGroup book_group
  | DeleteBookGroup int
  | PutReadRecord read_record
  | DeleteReadRecord ustr ustr
  | ReplaceWithSnapshot storage_snapshot

definition failure :: "'a result \<Rightarrow> storage_error option" where
  "failure r = (case r of Inl e \<Rightarrow> Some e | Inr _ \<Rightarrow> None)"

fun queue_answer :: "queue_op \<Rightarrow> storage \<Rightarrow> storage_error option" where
  "queue_answer (ClaimNext now) s = failure (fst (claim_next_chapter_download s now))"
| "queue_answer (ReportCompleted i b n now) s = failure (fst (mark_chapter_download_completed s i b n now))"
| "queue_answer (ReportFailed i b n e now) s = failure (fst (mark_chapter_download_failed s i b n e now))"
| "queue_answer (CancelTask i b n now) s = failure (fst (cancel_chapter_download s i b n now))"
| "queue_answer (ClearFinished i b) s = failure (fst (clear_finished_chapter_downloads s i b))"

fun storage_call :: "storage_op \<Rightarrow> storage \<Rightarrow> storage_error option \<times> storage" where
  \<comment> \<open>the error the call answers, if any, and the state it leaves\<close>
  "storage_call (PutSource a1) s = (failure (fst (put_source s a1)), snd (put_source s a1))"
| "storage_call (PutBook a1) s = (failure (fst (put_book s a1)), snd (put_book s a1))"
| "storage_call (PutCache a1 a2) s = (failure (fst (put_cache s a1 a2)), snd (put_cache s a1 a2))"
| "storage_call (PutProgress a1) s = (failure (fst (put_progress s a1)), snd (put_progress s a1))"
| "storage_call (AddToShelf a1) s = (failure (fst (add_to_shelf s a1)), snd (add_to_shelf s a1))"
| "storage_call (RemoveFromShelf a1 a2) s = (failure (fst (remove_from_shelf s a1 a2)), snd (remove_from_shelf s a1 a2))"
| "storage_call (UpdateLastRead a1 a2 a3) s = (failure (fst (update_last_read s a1 a2 a3)), snd (update_last_read s a1 a2 a3))"
| "storage_call (MoveShelfEntry a1 a2 a3 a4) s = (failure (fst (move_shelf_entry s a1 a2 a3 a4)), snd (move_shelf_entry s a1 a2 a3 a4))"
| "storage_call (PutChapterCache a1) s = (failure (fst (put_chapter_cache s a1)), snd (put_chapter_cache s a1))"
| "storage_call (RemoveChapterCache a1 a2 a3) s = (failure (fst (remove_chapter_cache s a1 a2 a3)), snd (remove_chapter_cache s a1 a2 a3))"
| "storage_call (ClearChapterCache a1 a2) s = (failure (fst (clear_chapter_cache s a1 a2)), snd (clear_chapter_cache s a1 a2))"
| "storage_call (PruneChapterCache a1) s = (failure (fst (prune_chapter_cache s a1)), snd (prune_chapter_cache s a1))"
| "storage_call (SaveReadingProgress a1) s = (failure (fst (save_reading_progress s a1)), snd (save_reading_progress s a1))"
| "storage_call (ClearReadingProgress a1 a2) s = (failure (fst (clear_reading_progress s a1 a2)), snd (clear_reading_progress s a1 a2))"
| "storage_call (EnqueueDownload a1) s = (failure (fst (enqueue_chapter_download s a1)), snd (enqueue_chapter_download s a1))"
| "storage_call (QueueOp op) s = (queue_answer op s, queue_step op s)"
| "storage_call (PutTxtTocRule a1) s = (failure (fst (put_txt_toc_rule s a1)), snd (put_txt_toc_rule s a1))"
| "storage_call (DeleteTxtTocRule a1) s = (failure (fst (delete_txt_toc_rule s a1)), snd (delete_txt_toc_rule s a1))"
| "storage_call (PutBookmark a1) s = (failure (fst (put_bookmark s a1)), snd (put_bookmark s a1))"
| "storage_call (DeleteBookmark a1) s = (failure (fst (delete_bookmark s a1)), snd (delete_bookmark s a1))"
| "storage_call (PutReplaceRule a1) s = (failure (fst (put_replace_rule s a1)), snd (put_replace_rule s a1))"
| "storage_call (DeleteReplaceRule a1) s = (failure (fst (delete_replace_rule s a1)), snd (delete_replace_rule s a1))"
| "storage_call (PutDictRule a1) s = (failure (fst (put_dict_rule s a1)), snd (put_dict_rule s a1))"
| "storage_call (DeleteDictRule a1) s = (failure (fst (delete_dict_rule s a1)), snd (delete_dict_rule s a1))"
| "storage_call (PutBookGroup a1) s = (failure (fst (put_book_group s a1)), snd (put_book_group s a1))"
| "storage_call (DeleteBookGroup a1) s = (failure (fst (delete_book_group s a1)), snd (delete_book_group s a1))"
| "storage_call (PutReadRecord a1) s = (failure (fst (put_read_record s a1)), snd (put_read_record s a1))"
| "storage_call (DeleteReadRecord a1 a2) s = (failure (fst (delete_read_record s a1 a2)), snd (delete_read_record s a1 a2))"
| "storage_call (ReplaceWithSnapshot a1) s = (failure (fst (replace_with_snapshot s a1)), snd (replace_with_snapshot s a1))"

inductive storage_step :: "storage \<Rightarrow> storage_op \<Rightarrow> storage_error option \<Rightarrow> storage \<Rightarrow> bool" where
  answered: "storage_call op s = (err, s') \<Longrightarrow> storage_step s op err s'"

inductive_simps storage_step_iff: "storage_step s op err s'"

inductive storage_run :: "(storage_op \<Rightarrow> bool) \<Rightarrow> storage \<Rightarrow> storage \<Rightarrow> bool" for allowed where
  start: "storage_run allowed s s"
| call: "storage_run allowed s t \<Longrightarrow> allowed op \<Longrightarrow> storage_step t op err u \<Longrightarrow> storage_run allowed s u"

lemma storage_run_invariant:
  assumes "storage_run allowed s t" and "P s"
    and "\<And>u op. P u \<Longrightarrow> allowed op \<Longrightarrow> P (snd (storage_call op u))"
  shows "P t"
  using assms(1,2)
proof (induction rule: storage_run.induct)
  case (call s t op err u)
  have "u = snd (storage_call op t)" using call.hyps(3) by (simp add: storage_step_iff)
  with call assms(3) show ?case by blast
qed

subsection \<open>Rows of a table\<close>

definition rows_all :: "('v \<Rightarrow> bool) \<Rightarrow> ('k, 'v) hmap \<Rightarrow> bool" where
  "rows_all P m = (\<forall>v \<in> set (hm_values m). P v)"

lemma rows_all_Nil [simp]: "rows_all P []"
  by (simp add: rows_all_def hm_values_def)

lemma rows_all_insert: "rows_all P m \<Longrightarrow> P v \<Longrightarrow> rows_all P (hm_insert k v m)"
  unfolding rows_all_def hm_values_def hm_insert_def by (induction m) auto

lemma rows_all_remove: "rows_all P m \<Longrightarrow> rows_all P (hm_remove k m)"
  by (auto simp: rows_all_def hm_values_def hm_remove_def)

lemma rows_all_retain: "rows_all P m \<Longrightarrow> rows_all P (hm_retain Q m)"
  by (auto simp: rows_all_def hm_values_def hm_retain_def)

lemma rows_all_modify: "rows_all P m \<Longrightarrow> (\<And>v. P v \<Longrightarrow> P (f v)) \<Longrightarrow> rows_all P (hm_modify k f m)"
  by (auto simp: rows_all_def hm_values_def hm_modify_def split: if_splits)

lemma rows_all_map_of: "rows_all P m \<Longrightarrow> map_of m k = Some v \<Longrightarrow> P v"
  by (force simp: rows_all_def hm_values_def dest: map_of_SomeD)

lemma rows_all_insert_all: "rows_all P m \<Longrightarrow> (\<And>v. v \<in> set xs \<Longrightarrow> P v) \<Longrightarrow>
    rows_all P (fold (\<lambda>v. hm_insert (key v) v) xs m)"
  by (induction xs arbitrary: m) (auto intro: rows_all_insert)

lemmas row_intros = rows_all_insert rows_all_remove rows_all_retain rows_all_modify
  keyed_insert keyed_remove keyed_retain keyed_modify

definition validated_rows :: "storage \<Rightarrow> bool" where
  \<comment> \<open>the rows every writer of the table validates\<close>
  "validated_rows s = (rows_all (\<lambda>e. valid_key (entry_shelf_key e)) (shelf s)
     \<and> rows_all (\<lambda>e. cache_key_valid (entry_cache_key e)) (chapter_cache s)
     \<and> rows_all accepts_progress (progress s)
     \<and> rows_all (list_all accepts_progress) (progress_history s)
     \<and> rows_all valid_task (downloads s)
     \<and> rows_all (\<lambda>r. \<not> blank (dr_name r)) (dict_rules s)
     \<and> rows_all (\<lambda>r. \<not> blank (rd_book_name r)) (read_records s))"

definition unchecked_rows :: "storage \<Rightarrow> bool" where
  \<comment> \<open>what \<open>validate\<close> asks of the tables whose \<open>put_*\<close> does not check its argument\<close>
  "unchecked_rows s = (rows_all (\<lambda>x. \<not> blank (src_source_id x)) (sources s)
     \<and> rows_all (\<lambda>x. \<not> blank (bk_book_id x)) (books s)
     \<and> rows_all (\<lambda>x. \<not> blank (ce_key x)) (cache s)
     \<and> rows_all (\<lambda>x. validate_domain_progress x = Inr ()) (legacy_progress s))"

definition storage_inv :: "storage \<Rightarrow> bool" where
  "storage_inv s = (storage_keyed s \<and> validated_rows s)"

lemma exportable_rows:
  "snapshot_rows_valid (snapshot_of s t) \<longleftrightarrow> unchecked_rows s \<and> validated_rows s"
  by (auto simp: snapshot_rows_valid_def snapshot_of_def unchecked_rows_def validated_rows_def
      rows_all_def list_all_iff)

subsection \<open>Every call keeps the invariant\<close>

lemma storage_inv_queue: "storage_inv s \<Longrightarrow> queue_inv s"
  by (force simp: storage_inv_def storage_keyed_def validated_rows_def queue_inv_def rows_all_def hm_values_def)

lemma queue_step_other: "queue_step op s = s\<lparr>downloads := downloads (queue_step op s)\<rparr>"
  by (cases op) (auto simp: claim_next_chapter_download_def mark_chapter_download_completed_def
      mark_chapter_download_failed_def cancel_chapter_download_def update_download_task_def
      chapter_download_key_def and_then_unit try_state_def clear_finished_chapter_downloads_def Let_def
      split: option.splits sum.splits)

lemma storage_inv_queue_step:
  assumes "storage_inv s" shows "storage_inv (queue_step op s)"
proof -
  have q: "queue_inv (queue_step op s)"
    by (rule queue_step_inv[OF storage_inv_queue[OF assms]])
  have "storage_inv (s\<lparr>downloads := d\<rparr>)" if "queue_inv (s\<lparr>downloads := d\<rparr>)" for d
    using assms that by (auto simp: storage_inv_def storage_keyed_tables validated_rows_def queue_inv_def
        rows_all_def hm_values_def)
  with q queue_step_other[of op s] show ?thesis by metis
qed

lemmas inv_unfold = storage_inv_def storage_keyed_tables validated_rows_def

lemma storage_inv_shelf:
  assumes "storage_inv s" and "keyed entry_shelf_key m" "rows_all (\<lambda>e. valid_key (entry_shelf_key e)) m"
  shows "storage_inv (s\<lparr>shelf := m\<rparr>)"
  using assms by (simp add: inv_unfold)

lemma storage_inv_modify_shelf:
  assumes "storage_inv s" and "\<And>e. entry_shelf_key (f e) = entry_shelf_key e"
  shows "storage_inv (s\<lparr>shelf := hm_modify k f (shelf s)\<rparr>)"
  using assms by (intro storage_inv_shelf) (auto simp: inv_unfold intro!: row_intros)

lemma storage_inv_shelf_ops:
  assumes "storage_inv s"
  shows "storage_inv (snd (add_to_shelf s e))" "storage_inv (snd (remove_from_shelf s i b))"
    "storage_inv (snd (update_last_read s i b t))" "storage_inv (snd (move_shelf_entry s i b g n))"
proof -
  have a: "keyed entry_shelf_key (shelf s)" "rows_all (\<lambda>e. valid_key (entry_shelf_key e)) (shelf s)"
    using assms by (simp_all add: inv_unfold)
  show "storage_inv (snd (add_to_shelf s e))"
    using assms a by (auto simp: add_to_shelf_eq Let_def shelf_upsert_def split: option.splits
        intro!: storage_inv_shelf row_intros)
  show "storage_inv (snd (remove_from_shelf s i b))"
    using assms a by (auto simp: remove_from_shelf_def try_state_unit intro!: storage_inv_shelf row_intros)
  show "storage_inv (snd (update_last_read s i b t))"
    using assms by (auto simp: update_last_read_def try_state_unit split: option.splits
        intro!: storage_inv_modify_shelf)
  show "storage_inv (snd (move_shelf_entry s i b g n))"
    using assms by (auto simp: move_shelf_entry_def try_state_def Let_def split: option.splits sum.splits
        intro!: storage_inv_modify_shelf)
qed

lemma storage_inv_cache:
  assumes "storage_inv s" and "keyed entry_cache_key m" "rows_all (\<lambda>e. cache_key_valid (entry_cache_key e)) m"
  shows "storage_inv (s\<lparr>chapter_cache := m\<rparr>)"
  using assms by (simp add: inv_unfold)

lemma storage_inv_cache_ops:
  assumes "storage_inv s"
  shows "storage_inv (snd (put_chapter_cache s e))" "storage_inv (snd (remove_chapter_cache s i b n))"
    "storage_inv (snd (clear_chapter_cache s i b))" "storage_inv (snd (prune_chapter_cache s policy))"
proof -
  have a: "keyed entry_cache_key (chapter_cache s)"
    "rows_all (\<lambda>e. cache_key_valid (entry_cache_key e)) (chapter_cache s)"
    using assms by (simp_all add: inv_unfold)
  show "storage_inv (snd (put_chapter_cache s e))"
    using assms a by (auto simp: put_chapter_cache_def try_state_unit cache_key_valid_def entry_cache_key_def
        intro!: storage_inv_cache row_intros)
  show "storage_inv (snd (remove_chapter_cache s i b n))"
    using assms a by (auto simp: remove_chapter_cache_def try_state_unit intro!: storage_inv_cache row_intros)
  show "storage_inv (snd (clear_chapter_cache s i b))"
    using assms a by (auto simp: clear_chapter_cache_def try_state_unit Let_def intro!: storage_inv_cache row_intros)
  show "storage_inv (snd (prune_chapter_cache s policy))"
  proof -
    let ?rows = "sort_chapter_cache_for_eviction (chapter_cache s)"
    have "cache_keyed s" using a(1) by (simp add: cache_keyed_def)
    from prune_chapter_cache_shape[OF this, of policy] obtain n kept where k:
      "snd (prune_chapter_cache s policy) = s\<lparr>chapter_cache := kept\<rparr>" "hm_ok kept"
      "set kept = set (drop n ?rows)" by auto
    have "set kept \<subseteq> set (chapter_cache s)"
      using k(3) set_drop_subset[of n ?rows] by (simp add: sort_chapter_cache_for_eviction_def)
    then have "keyed entry_cache_key kept" "rows_all (\<lambda>e. cache_key_valid (entry_cache_key e)) kept"
      using a k(2) by (auto simp: keyed_def rows_all_def hm_values_def)
    with k(1) storage_inv_cache[OF assms] show ?thesis by simp
  qed
qed

lemma storage_inv_progress:
  assumes "storage_inv s" and "keyed entry_progress_key m" "rows_all accepts_progress m"
    and "history_keyed h" "rows_all (list_all accepts_progress) h"
  shows "storage_inv (s\<lparr>progress := m, progress_history := h\<rparr>)"
    and "storage_inv (s\<lparr>progress_history := h, progress := m\<rparr>)"
  using assms by (simp_all add: inv_unfold)

lemma rows_all_history_at:
  "rows_all (list_all P) h \<Longrightarrow> list_all P (history_at h k)"
  by (cases "map_of h k") (auto simp: history_at_def dest: rows_all_map_of)

lemma storage_inv_progress_ops:
  assumes "storage_inv s"
  shows "storage_inv (snd (save_reading_progress s e))" "storage_inv (snd (clear_reading_progress s i b))"
proof -
  have a: "keyed entry_progress_key (progress s)" "rows_all accepts_progress (progress s)"
    "history_keyed (progress_history s)" "rows_all (list_all accepts_progress) (progress_history s)"
    using assms by (simp_all add: inv_unfold)
  have shelf: "storage_inv (shelf_last_read k t u)" if "storage_inv u" for k t u
    unfolding shelf_last_read_def by (rule storage_inv_modify_shelf[OF that]) simp
  have push: "progress_push e s = s\<lparr>progress := progress s, progress_history := push_history e (progress_history s)\<rparr>"
    by (simp add: progress_push_def push_history_def)
  have h: "rows_all (list_all accepts_progress) (push_history e (progress_history s))" if "accepts_progress e"
    using that rows_all_history_at[OF a(4)] a(4) by (simp add: push_history_eq rows_all_insert)
  have "storage_inv (progress_push e s)" if "accepts_progress e"
    unfolding push by (rule storage_inv_progress(1)[OF assms a(1,2) history_keyed_push[OF a(3)] h[OF that]])
  moreover have "storage_inv ((progress_push e s)\<lparr>progress := hm_insert (entry_progress_key e) e (progress s)\<rparr>)"
    if "accepts_progress e"
    using storage_inv_progress(2)[OF assms keyed_insert[OF a(1) refl] rows_all_insert[OF a(2) that]
        history_keyed_push[OF a(3)] h[OF that]] by (simp add: push)
  ultimately show "storage_inv (snd (save_reading_progress s e))"
    using assms shelf by (auto simp: save_reading_progress_eq Let_def)
  have "storage_inv (s\<lparr>progress := hm_remove (i, b) (progress s),
      progress_history := hm_remove (i, b) (progress_history s)\<rparr>)"
    using a(3) by (intro storage_inv_progress(1)[OF assms] row_intros a)
      (auto simp: history_keyed_def hm_remove_def hm_ok_def distinct_map_filter)
  then show "storage_inv (snd (clear_reading_progress s i b))"
    using assms shelf by (simp add: clear_reading_progress_def try_state_unit Let_def)
qed

lemma storage_inv_enqueue: "storage_inv s \<Longrightarrow> storage_inv (snd (enqueue_chapter_download s t))"
  by (auto simp: enqueue_eq Let_def inv_unfold intro!: row_intros valid_requeued)

lemma storage_inv_replace: "storage_inv s \<Longrightarrow> storage_inv (snd (replace_with_snapshot s sn))"
proof (cases "validate_snapshot sn = Inr ()")
  case True
  then obtain r where r: "storage_inner_from_snapshot sn = Inr r" "storage_keyed r"
    "snapshot_of r 0 = sn\<lparr>sn_exported_at := 0,
       sn_progress_history := concat (hm_values (fold push_history (sn_progress_history sn) []))\<rparr>"
    by (rule imported_tables)
  let ?h = "fold push_history (sn_progress_history sn) []"
  have h: "history_keyed ?h" by (rule history_keyed_push_all) (simp add: history_keyed_def)
  have "set (concat (hm_values ?h)) = set (sn_progress_history sn)"
    unfolding concat_history_set[OF h] by (auto simp: history_at_push_all) (simp add: history_at_def)
  then have "snapshot_rows_valid (snapshot_of r 0)"
    using True unfolding r(3) by (simp add: validate_snapshot_ok snapshot_rows_valid_def)
  then have "storage_inv r" using r(2) by (simp add: exportable_rows storage_inv_def)
  with r(1) True show ?thesis by (simp add: replace_with_snapshot_def)
qed (simp add: replace_with_snapshot_def try_state_def split: sum.splits)

lemma storage_inv_call:
  assumes "storage_inv s" shows "storage_inv (snd (storage_call op s))"
proof -
  note shelf = storage_inv_shelf_ops[OF assms] and cache = storage_inv_cache_ops[OF assms]
    and progress = storage_inv_progress_ops[OF assms]
  have unvalidated: "storage_inv (snd (put_source s x1))" "storage_inv (snd (put_book s x2))"
    "storage_inv (snd (put_cache s x3 x4))" "storage_inv (snd (put_progress s x5))" for x1 x2 x3 x4 x5
    using assms by (simp_all add: put_source_def put_book_def put_cache_def put_progress_def Let_def
        inv_unfold keyed_insert)
  have rules: "storage_inv (snd (put_txt_toc_rule s x1))" "storage_inv (snd (delete_txt_toc_rule s k1))"
    "storage_inv (snd (put_bookmark s x2))" "storage_inv (snd (delete_bookmark s k2))"
    "storage_inv (snd (put_replace_rule s x3))" "storage_inv (snd (delete_replace_rule s k3))"
    "storage_inv (snd (put_book_group s x5))" "storage_inv (snd (delete_book_group s k5))"
    for x1 k1 x2 k2 x3 k3 x5 k5
    using assms by (simp_all add: put_txt_toc_rule_def delete_txt_toc_rule_def put_bookmark_def
        delete_bookmark_def put_replace_rule_def delete_replace_rule_def put_book_group_def
        delete_book_group_def inv_unfold keyed_insert keyed_remove)
  have named: "storage_inv (snd (put_dict_rule s x4))" "storage_inv (snd (delete_dict_rule s k4))"
    "storage_inv (snd (put_read_record s x6))" "storage_inv (snd (delete_read_record s k6 l6))"
    for x4 k4 x6 k6 l6
    using assms by (simp_all add: put_dict_rule_def delete_dict_rule_def put_read_record_def
        delete_read_record_def inv_unfold keyed_insert keyed_remove rows_all_insert rows_all_remove)
  show ?thesis
    by (cases op) (simp_all add: shelf cache progress unvalidated rules named storage_inv_enqueue
        storage_inv_replace storage_inv_queue_step assms)
qed

subsection \<open>Failing calls\<close>

lemma failure_simps [simp]: "failure (Inr a) = None" "failure (Inl e) = Some e"
  by (simp_all add: failure_def)

definition no_panic :: "'a result \<Rightarrow> bool" where
  "no_panic r = (\<forall>m. r \<noteq> Inl (Panicked m))"

lemma no_panic_basic [simp]: "no_panic (Inr a)" "no_panic (Inl e) \<longleftrightarrow> (\<forall>m. e \<noteq> Panicked m)"
  by (simp_all add: no_panic_def)

lemma no_panic_ensure [simp]: "no_panic (ensure c e) \<longleftrightarrow> c \<or> (\<forall>m. e \<noteq> Panicked m)"
  by (cases c) simp_all

lemma no_panic_checks: "(\<And>c. c \<in> set cs \<Longrightarrow> no_panic c) \<Longrightarrow> no_panic (checks cs)"
proof (induction cs)
  case (Cons c cs)
  have "no_panic c" "no_panic (checks cs)" using Cons by simp_all
  then show ?case by (cases c) (simp_all add: checks.simps(2))
qed simp

lemma no_panic_validators [simp]:
  "no_panic (validate_book_key i b)" "no_panic (validate_shelf_key i b)" "no_panic (validate_source src)"
  "no_panic (validate_book bk)" "no_panic (validate_cache_entry ce)" "no_panic (validate_reading_progress p)"
  "no_panic (validate_download_task t)" "no_panic (validate_domain_progress d)"
proof -
  have key: "no_panic (validate_book_key i b)" for i b
    unfolding validate_book_key_def by (rule no_panic_checks) auto
  then show "no_panic (validate_book_key i b)" "no_panic (validate_shelf_key i b)"
    by (simp_all add: validate_shelf_key_def)
  show "no_panic (validate_source src)" "no_panic (validate_book bk)" "no_panic (validate_cache_entry ce)"
    by (simp_all add: validate_source_def validate_source_id_def validate_book_def validate_cache_entry_def)
  show "no_panic (validate_reading_progress p)" "no_panic (validate_download_task t)"
    "no_panic (validate_domain_progress d)"
    unfolding validate_reading_progress_def validate_download_task_def validate_domain_progress_def
    by (rule no_panic_checks; auto simp: key)+
qed

lemma no_panic_unique_rows: "(\<And>x. no_panic (check x)) \<Longrightarrow> no_panic (unique_rows check key f seen xs)"
proof (induction xs arbitrary: seen)
  case (Cons x xs)
  then show ?case
    by (cases "check x") (auto simp: ensure_unique_snapshot_key_def no_panic_def)
qed simp

lemma no_panic_check_each: "(\<And>x. no_panic (check x)) \<Longrightarrow> no_panic (check_each check xs)"
  unfolding check_each_def by (rule no_panic_checks) auto

lemma no_panic_validate_snapshot [simp]: "no_panic (validate_snapshot sn)"
  unfolding validate_snapshot_def
  by (rule no_panic_checks) (auto simp: no_panic_unique_rows no_panic_check_each)

definition atomic_call :: "storage \<Rightarrow> 'a result \<times> storage \<Rightarrow> bool" where
  \<comment> \<open>a failing call changes nothing, and no failure is a panic\<close>
  "atomic_call s r = (\<forall>e. fst r = Inl e \<longrightarrow> snd r = s \<and> (\<forall>m. e \<noteq> Panicked m))"

lemma atomic_ok [simp]: "atomic_call s (Inr a, t)"
  by (simp add: atomic_call_def)

lemma atomic_err [simp]: "atomic_call s (Inl e, t) \<longleftrightarrow> t = s \<and> (\<forall>m. e \<noteq> Panicked m)"
  by (simp add: atomic_call_def)

lemma atomic_try [simp]:
  "no_panic c \<Longrightarrow> (\<And>a. c = Inr a \<Longrightarrow> atomic_call s (f a)) \<Longrightarrow> atomic_call s (try_state c s f)"
  by (cases c) (simp_all add: no_panic_def)

lemma atomic_failure:
  "atomic_call s r \<Longrightarrow> failure (fst r) = Some e \<Longrightarrow> snd r = s \<and> e \<noteq> Panicked m"
  by (cases "fst r") (auto simp: atomic_call_def)

lemma atomic_report:
  assumes inv: "queue_inv s" and x: "\<not> blank_opt x"
  shows "atomic_call s (update_download_task s i b n (finish_update st now x))"
proof (cases "valid_key (i, b)")
  case True
  show ?thesis
  proof (cases "map_of (downloads s) (i, b, n)")
    case None
    with True show ?thesis
      by (simp add: update_download_task_def chapter_download_key_def and_then_unit)
  next
    case (Some t)
    have "valid_task t" using inv Some by (auto simp: queue_inv_def dest!: map_of_SomeD)
    then have "update_download_task s i b n (finish_update st now x) = (Inr (finish_update st now x t),
        s\<lparr>downloads := hm_modify (i, b, n) (finish_update st now x) (downloads s)\<rparr>)"
      using True Some x by (intro update_download_task_eq) (simp_all add: download_key_valid_def valid_finish)
    then show ?thesis by simp
  qed
next
  case False
  then obtain d where d: "validate_book_key i b = Inl d" by (cases "validate_book_key i b") auto
  then have "\<forall>m. d \<noteq> Panicked m" using no_panic_validators(1)[of i b] by simp
  with d show ?thesis by (simp add: update_download_task_def chapter_download_key_def)
qed

lemma atomic_queue_calls:
  assumes inv: "queue_inv s"
  shows "atomic_call s (claim_next_chapter_download s now)"
    "atomic_call s (mark_chapter_download_completed s i b n now)"
    "atomic_call s (mark_chapter_download_failed s i b n x now)"
    "atomic_call s (cancel_chapter_download s i b n now)"
    "atomic_call s (clear_finished_chapter_downloads s i b)"
proof -
  have none: "\<not> blank_opt None" by (simp add: blank_opt_def)
  show "atomic_call s (claim_next_chapter_download s now)"
    by (rule claim_cases[OF inv, of now]) simp_all
  show "atomic_call s (mark_chapter_download_failed s i b n x now)"
    using atomic_report[OF inv not_blank_error] by (simp add: mark_chapter_download_failed_def Let_def)
qed (simp_all add: mark_chapter_download_completed_def cancel_chapter_download_def inv
    atomic_report blank_opt_def clear_finished_chapter_downloads_def Let_def)

lemma atomic_shelf_calls:
  "atomic_call s (add_to_shelf s e)" "atomic_call s (remove_from_shelf s i b)"
  "atomic_call s (update_last_read s i b t)" "atomic_call s (move_shelf_entry s i b g n)"
  by (simp_all add: add_to_shelf_def remove_from_shelf_def update_last_read_def move_shelf_entry_def
      normalize_group_def normalize_required_filter_def Let_def split: option.split)

lemma atomic_cache_calls:
  "atomic_call s (put_chapter_cache s ce)" "atomic_call s (remove_chapter_cache s i b n)"
  "atomic_call s (clear_chapter_cache s i b)" "atomic_call s (prune_chapter_cache s policy)"
  by (simp_all add: put_chapter_cache_def remove_chapter_cache_def clear_chapter_cache_def
      prune_chapter_cache_def Let_def split: prod.split)

lemma atomic_progress_calls:
  "atomic_call s (save_reading_progress s p)" "atomic_call s (clear_reading_progress s i b)"
  by (auto simp: save_reading_progress_def clear_reading_progress_def Let_def split: option.split)

lemma atomic_other_calls:
  "atomic_call s (enqueue_chapter_download s t)" "atomic_call s (replace_with_snapshot s sn)"
  "atomic_call s (put_dict_rule s d)" "atomic_call s (put_read_record s r)"
  by (simp_all add: enqueue_chapter_download_def Let_def replace_with_snapshot_def
      storage_inner_from_snapshot_def put_dict_rule_def put_read_record_def)

lemma storage_failure:
  assumes inv: "storage_inv s" and err: "storage_call op s = (Some e, s')"
  shows "s' = s \<and> e \<noteq> Panicked m"
proof -
  note calls = atomic_shelf_calls atomic_cache_calls atomic_progress_calls atomic_other_calls
    atomic_queue_calls[OF storage_inv_queue[OF inv]]
  show ?thesis
  proof (cases op)
    case (QueueOp q)
    with err show ?thesis by (cases q) (auto dest: calls[THEN atomic_failure])
  qed (use err in \<open>auto dest: calls[THEN atomic_failure] simp: put_source_def put_book_def put_cache_def
      put_progress_def Let_def put_txt_toc_rule_def delete_txt_toc_rule_def put_bookmark_def
      delete_bookmark_def put_replace_rule_def delete_replace_rule_def delete_dict_rule_def
      put_book_group_def delete_book_group_def delete_read_record_def\<close>)
qed

subsection \<open>Properties\<close>

text \<open>
  C2: Whatever calls a host makes, with whatever arguments, in whatever order and however many of
  them fail: every table of the storage holds at most one row per key, under the row's own key, and
  the rows of the validated tables satisfy their validators; a call that fails changes nothing and
  no call panics.
\<close>
theorem storage_always_well_formed:
  assumes "storage_run (\<lambda>_. True) empty_storage s"
  shows "storage_inv s
    \<and> (\<forall>op e s'. storage_step s op (Some e) s' \<longrightarrow> s' = s \<and> (\<forall>m. e \<noteq> Panicked m))"
proof -
  have "storage_inv empty_storage"
    by (simp add: inv_unfold empty_storage_def history_keyed_def)
  then have inv: "storage_inv s"
    by (rule storage_run_invariant[OF assms]) (rule storage_inv_call)
  then show ?thesis
    using storage_failure[OF inv] by (auto simp: storage_step_iff)
qed

theorem storage_always_well_formed_witness:
  "storage_inv (snd (storage_call (PutBookmark (sample_bookmark 3)) empty_storage))"
proof -
  have "storage_run (\<lambda>_. True) empty_storage (snd (storage_call (PutBookmark (sample_bookmark 3)) empty_storage))"
    by (rule call[OF start TrueI, where err = None and op = "PutBookmark (sample_bookmark 3)"])
      (simp add: storage_step_iff put_bookmark_def)
  from storage_always_well_formed[OF this] show ?thesis by blast
qed

fun checked_call :: "storage_op \<Rightarrow> bool" where
  \<comment> \<open>what a host has to check itself: the arguments of the four \<open>put_*\<close> that accept anything\<close>
  "checked_call (PutSource x) = (\<not> blank (src_source_id x))"
| "checked_call (PutBook x) = (\<not> blank (bk_book_id x))"
| "checked_call (PutCache k v) = (\<not> blank k)"
| "checked_call (PutProgress x) = (\<not> blank (rp_book_id x) \<and> is_fraction (rp_chapter_progress x))"
| "checked_call op = True"

definition same_unchecked :: "storage \<Rightarrow> storage \<Rightarrow> bool" where
  "same_unchecked s t = (sources t = sources s \<and> books t = books s \<and> cache t = cache s
     \<and> legacy_progress t = legacy_progress s)"

lemma same_unchecked_rows: "same_unchecked s t \<Longrightarrow> unchecked_rows t = unchecked_rows s"
  by (simp add: same_unchecked_def unchecked_rows_def)

lemma same_unchecked_shelf_calls:
  "same_unchecked s (snd (add_to_shelf s e))" "same_unchecked s (snd (remove_from_shelf s i b))"
  "same_unchecked s (snd (update_last_read s i b t))" "same_unchecked s (snd (move_shelf_entry s i b g n))"
  unfolding add_to_shelf_def remove_from_shelf_def update_last_read_def move_shelf_entry_def
  by (simp_all add: same_unchecked_def try_state_def Let_def split: option.split sum.split)

lemma same_unchecked_cache_calls:
  "same_unchecked s (snd (put_chapter_cache s ce))" "same_unchecked s (snd (remove_chapter_cache s i b n))"
  "same_unchecked s (snd (clear_chapter_cache s i b))" "same_unchecked s (snd (prune_chapter_cache s policy))"
  unfolding put_chapter_cache_def remove_chapter_cache_def clear_chapter_cache_def
  by (simp_all add: same_unchecked_def try_state_def Let_def prune_chapter_cache_def
      split: prod.split sum.split)

lemma same_unchecked_progress_calls:
  "same_unchecked s (snd (save_reading_progress s p))" "same_unchecked s (snd (clear_reading_progress s i b))"
  unfolding save_reading_progress_def clear_reading_progress_def
  by (simp_all add: same_unchecked_def try_state_def Let_def progress_push_def shelf_last_read_def
      split: option.split sum.split)

lemma same_unchecked_queue_calls:
  "same_unchecked s (snd (enqueue_chapter_download s t))" "same_unchecked s (queue_step op s)"
  by (simp add: enqueue_eq same_unchecked_def Let_def)
    (subst queue_step_other, simp add: same_unchecked_def)

lemma same_unchecked_entity_calls:
  "same_unchecked s (snd (put_txt_toc_rule s x1))" "same_unchecked s (snd (delete_txt_toc_rule s k1))"
  "same_unchecked s (snd (put_bookmark s x2))" "same_unchecked s (snd (delete_bookmark s k2))"
  "same_unchecked s (snd (put_replace_rule s x3))" "same_unchecked s (snd (delete_replace_rule s k3))"
  "same_unchecked s (snd (put_dict_rule s x4))" "same_unchecked s (snd (delete_dict_rule s k4))"
  "same_unchecked s (snd (put_book_group s x5))" "same_unchecked s (snd (delete_book_group s k5))"
  "same_unchecked s (snd (put_read_record s x6))" "same_unchecked s (snd (delete_read_record s k6 l6))"
  by (simp_all add: same_unchecked_def put_txt_toc_rule_def delete_txt_toc_rule_def put_bookmark_def
      delete_bookmark_def put_replace_rule_def delete_replace_rule_def put_dict_rule_def
      delete_dict_rule_def put_book_group_def delete_book_group_def put_read_record_def
      delete_read_record_def)

lemmas same_unchecked_calls = same_unchecked_shelf_calls same_unchecked_cache_calls
  same_unchecked_progress_calls same_unchecked_queue_calls same_unchecked_entity_calls

lemma unchecked_rows_replace:
  assumes "unchecked_rows s" shows "unchecked_rows (snd (replace_with_snapshot s sn))"
proof (cases "validate_snapshot sn")
  case (Inr u)
  then have "snapshot_rows_valid sn" by (simp add: validate_snapshot_ok)
  with Inr show ?thesis
    by (auto simp: replace_with_snapshot_def storage_inner_from_snapshot_def unchecked_rows_def
        snapshot_rows_valid_def insert_all_def intro!: rows_all_insert_all)
qed (simp add: replace_with_snapshot_def assms)

lemma unchecked_rows_call:
  assumes "unchecked_rows s" and "checked_call op"
  shows "unchecked_rows (snd (storage_call op s))"
proof (cases op)
  case (PutProgress x)
  with assms show ?thesis
    by (auto simp: put_progress_def unchecked_rows_def validate_domain_progress_def intro!: rows_all_insert)
next
  case (ReplaceWithSnapshot sn)
  with unchecked_rows_replace[OF assms(1)] show ?thesis by simp
qed (use assms in \<open>simp_all add: put_source_def put_book_def put_cache_def Let_def
    same_unchecked_calls[THEN same_unchecked_rows]\<close>,
    (auto simp: unchecked_rows_def intro!: rows_all_insert)?)

text \<open>
  A host that passes non-blank keys (and a fraction as legacy progress) to the four unchecked
  \<open>put_*\<close> calls can always export: after any sequence of calls with otherwise arbitrary arguments,
  export succeeds at every time, and the export can be restored.
\<close>
theorem checked_host_can_export:
  assumes "storage_run checked_call empty_storage s"
  shows "\<exists>sn. export_snapshot s now = Inr sn \<and> validate_snapshot sn = Inr ()"
proof -
  have "storage_inv empty_storage \<and> unchecked_rows empty_storage"
    by (simp add: inv_unfold empty_storage_def history_keyed_def unchecked_rows_def)
  then have "storage_inv s \<and> unchecked_rows s"
    by (rule storage_run_invariant[OF assms]) (simp add: storage_inv_call unchecked_rows_call)
  then have "export_snapshot s now = Inr (sort_storage_snapshot (snapshot_of s now))"
    using export_snapshot_eq[of s now] by (simp add: storage_inv_def exportable_rows)
  then show ?thesis
    by (auto simp: export_snapshot_def Let_def and_then_eq_Inr)
qed

theorem checked_host_can_export_witness:
  "\<exists>sn. export_snapshot (snd (storage_call (PutCache (lit ''k'') []) empty_storage)) 3 = Inr sn"
proof -
  have "checked_call (PutCache (lit ''k'') [])" by (simp add: blank_iff is_whitespace_def)
  then have "storage_run checked_call empty_storage (snd (storage_call (PutCache (lit ''k'') []) empty_storage))"
    by (rule call[OF start, where err = None]) (simp add: storage_step_iff put_cache_def Let_def)
  from checked_host_can_export[OF this, of 3] show ?thesis by blast
qed



end
