(* ===== verification/Offline.thy ===== *)
theory Offline
  imports StorageTypes
begin

text \<open>
  Offline availability of \<open>crates/reader-storage/src/lib.rs\<close>: the validation of unified offline
  cache rows, the availability counts of a source and the next range of chapters to download.
  Counts are \<open>u32\<close> words with the source's saturating and checked arithmetic;
  \<open>availability_ratio\<close> (a rounded \<open>f64\<close> quotient for display) is not modelled.
\<close>

subsection \<open>Rows\<close>

record offline_entry =
  oe_source_id :: ustr
  oe_chapter_id :: ustr
  oe_status :: chapter_cache_status

record unified_offline_entry =
  uo_source_id :: ustr
  uo_book_id :: ustr
  uo_chapter_id :: ustr
  uo_source_content_locator_checksum :: ustr
  uo_content_checksum :: ustr
  uo_normalized_content_type :: ustr
  uo_byte_count :: u64
  uo_creation_timestamp :: ustr
  uo_last_access_timestamp :: ustr
  uo_validation_timestamp :: ustr
  uo_parser_runtime_version :: ustr
  uo_source_fingerprint :: ustr
  uo_encryption_at_rest_capability :: "ustr option"
  uo_state :: chapter_cache_status
  uo_pinned :: bool

record offline_availability =
  oa_source_id :: ustr
  oa_total_chapters :: u32
  oa_cached_chapters :: u32
  oa_stale_chapters :: u32
  oa_failed_chapters :: u32
  oa_missing_chapters :: int

record download_range =
  range_start :: u32
  range_end_inclusive :: u32

definition validate_chapter_cache_required :: "ustr \<Rightarrow> string \<Rightarrow> unit result" where
  "validate_chapter_cache_required v field = ensure (\<not> blank v) (InvalidChapterCache field)"

definition validate_chapter_cache_optional :: "ustr option \<Rightarrow> string \<Rightarrow> unit result" where
  "validate_chapter_cache_optional v field = ensure (\<not> blank_opt v) (InvalidChapterCache field)"

definition validate_offline_chapter_cache_entry :: "offline_entry \<Rightarrow> unit result" where
  "validate_offline_chapter_cache_entry e = checks [validate_source_id (oe_source_id e),
     ensure (\<not> blank (oe_chapter_id e)) (InvalidChapterCache ''chapter_id'')]"

definition new_offline_entry :: "ustr \<Rightarrow> ustr \<Rightarrow> chapter_cache_status \<Rightarrow> offline_entry result" where
  "new_offline_entry source_id chapter_id status = (
     let entry = \<lparr>oe_source_id = source_id, oe_chapter_id = chapter_id, oe_status = status\<rparr>
     in and_then (validate_offline_chapter_cache_entry entry) (\<lambda>_. Inr entry))"

definition validate_unified_offline_entry :: "unified_offline_entry \<Rightarrow> unit result" where
  "validate_unified_offline_entry e = checks
     [validate_book_key (uo_source_id e) (uo_book_id e),
      validate_chapter_cache_required (uo_chapter_id e) ''chapter_id'',
      validate_chapter_cache_required (uo_source_content_locator_checksum e)
        ''source_content_locator_checksum'',
      validate_chapter_cache_required (uo_content_checksum e) ''content_checksum'',
      validate_chapter_cache_required (uo_normalized_content_type e) ''normalized_content_type'',
      validate_chapter_cache_required (uo_creation_timestamp e) ''creation_timestamp'',
      validate_chapter_cache_required (uo_last_access_timestamp e) ''last_access_timestamp'',
      validate_chapter_cache_required (uo_validation_timestamp e) ''validation_timestamp'',
      validate_chapter_cache_required (uo_parser_runtime_version e) ''parser_runtime_version'',
      validate_chapter_cache_required (uo_source_fingerprint e)
        ''source_fingerprint_or_remote_toc_version'',
      validate_chapter_cache_optional (uo_encryption_at_rest_capability e)
        ''encryption_at_rest_capability'']"

subsection \<open>Operations\<close>

definition validate_unified_offline_chapter_cache ::
    "unified_offline_entry list \<Rightarrow> ustr \<Rightarrow> ustr \<Rightarrow> ustr \<Rightarrow> ustr \<Rightarrow> ustr \<Rightarrow> ustr option
      \<Rightarrow> chapter_cache_status result" where
  "validate_unified_offline_chapter_cache entries source_id book_id chapter_id fingerprint version checksum =
     and_then (checks
       [validate_book_key source_id book_id,
        validate_chapter_cache_required chapter_id ''chapter_id'',
        validate_chapter_cache_required fingerprint ''expected_fingerprint_or_remote_toc_version'',
        validate_chapter_cache_required version ''parser_runtime_version'',
        ensure (\<not> blank_opt checksum) (InvalidChapterCache ''normalized_content_checksum''),
        check_each validate_unified_offline_entry entries]) (\<lambda>_. Inr (
     case find (\<lambda>e. uo_source_id e = source_id \<and> uo_book_id e = book_id \<and> uo_chapter_id e = chapter_id) entries of
       None \<Rightarrow> CsMissing
     | Some e \<Rightarrow>
         if uo_parser_runtime_version e \<noteq> version then CsInvalidated
         else if uo_source_fingerprint e \<noteq> fingerprint then CsStale
         else if (case checksum of Some c \<Rightarrow> c \<noteq> uo_content_checksum e | None \<Rightarrow> False) then CsFailed
         else CsValidated))"

definition count_offline_status ::
    "offline_entry list \<Rightarrow> ustr \<Rightarrow> chapter_cache_status \<Rightarrow> u32 result" where
  "count_offline_status entries source_id status =
     (case u32_try_from_nat (length (filter
         (\<lambda>e. oe_source_id e = source_id \<and> oe_status e = status) entries)) of
        Some n \<Rightarrow> Inr n | None \<Rightarrow> Inl (InvalidChapterCache ''entry_count''))"

definition new_offline_availability ::
    "ustr \<Rightarrow> u32 \<Rightarrow> u32 \<Rightarrow> u32 \<Rightarrow> u32 \<Rightarrow> offline_availability result" where
  "new_offline_availability source_id total_chapters cached stale failed =
     and_then (validate_source_id source_id) (\<lambda>_. Inr
       \<lparr>oa_source_id = source_id, oa_total_chapters = total_chapters, oa_cached_chapters = cached,
        oa_stale_chapters = stale, oa_failed_chapters = failed,
        oa_missing_chapters = uint total_chapters - uint cached - uint stale - uint failed\<rparr>)"

definition compute_offline_availability ::
    "ustr \<Rightarrow> u32 \<Rightarrow> offline_entry list \<Rightarrow> offline_availability result" where
  "compute_offline_availability source_id total_chapters entries =
     and_then (validate_source_id source_id) (\<lambda>_.
     and_then (check_each validate_offline_chapter_cache_entry entries) (\<lambda>_.
     and_then (count_offline_status entries source_id CsAvailable) (\<lambda>cached.
     and_then (count_offline_status entries source_id CsStale) (\<lambda>stale.
     and_then (count_offline_status entries source_id CsFailed) (\<lambda>failed.
       new_offline_availability source_id total_chapters cached stale failed)))))"

definition next_download_range :: "offline_availability \<Rightarrow> u32 \<Rightarrow> download_range option" where
  "next_download_range a limit =
     (if oa_total_chapters a = 0 \<or> oa_cached_chapters a \<ge> oa_total_chapters a \<or> limit = 0 then None
      else let start = oa_cached_chapters a + 1
           in Some \<lparr>range_start = start, range_end_inclusive =
                min (saturating_sub (saturating_add start limit) 1) (oa_total_chapters a)\<rparr>)"

definition offline_can_read_chapter :: "offline_entry list \<Rightarrow> ustr \<Rightarrow> bool" where
  "offline_can_read_chapter entries chapter_id
     = list_ex (\<lambda>e. oe_chapter_id e = chapter_id \<and> oe_status e = CsAvailable) entries"

subsection \<open>Properties\<close>

definition sample_offline_entry :: unified_offline_entry where
  "sample_offline_entry = \<lparr>uo_source_id = lit ''s'', uo_book_id = lit ''b'', uo_chapter_id = lit ''c'',
     uo_source_content_locator_checksum = lit ''l'', uo_content_checksum = lit ''x'',
     uo_normalized_content_type = lit ''t'', uo_byte_count = 0, uo_creation_timestamp = lit ''1'',
     uo_last_access_timestamp = lit ''1'', uo_validation_timestamp = lit ''1'',
     uo_parser_runtime_version = lit ''v1'', uo_source_fingerprint = lit ''f1'',
     uo_encryption_at_rest_capability = None, uo_state = CsAvailable, uo_pinned = False\<rparr>"

text \<open>
  The offline validation orders its verdicts: for well-formed input the first row of the chapter
  decides; it is usable exactly when parser version, source fingerprint and (where given) content
  checksum all agree, a version mismatch outranks a stale fingerprint, which outranks a bad
  checksum, and the stored state of the row plays no role.
\<close>
theorem offline_validation_order:
  assumes "valid_key (s, b)" and "\<not> blank c" "\<not> blank fp" "\<not> blank v" "\<not> blank_opt chk"
    and "\<forall>e \<in> set es. is_ok (validate_unified_offline_entry e)"
  defines "hit \<equiv> (\<lambda>e. uo_source_id e = s \<and> uo_book_id e = b \<and> uo_chapter_id e = c)"
    and "verdict \<equiv> validate_unified_offline_chapter_cache es s b c fp v chk"
  shows "(verdict = Inr CsMissing \<longleftrightarrow> (\<forall>e \<in> set es. \<not> hit e))
    \<and> (\<forall>pre e post. es = pre @ e # post \<and> (\<forall>x \<in> set pre. \<not> hit x) \<and> hit e \<longrightarrow>
        (verdict = Inr CsValidated \<longleftrightarrow> uo_parser_runtime_version e = v \<and> uo_source_fingerprint e = fp
            \<and> (\<forall>x. chk = Some x \<longrightarrow> uo_content_checksum e = x))
        \<and> (verdict = Inr CsInvalidated \<longleftrightarrow> uo_parser_runtime_version e \<noteq> v)
        \<and> (verdict = Inr CsStale \<longleftrightarrow> uo_parser_runtime_version e = v \<and> uo_source_fingerprint e \<noteq> fp)
        \<and> (verdict = Inr CsFailed \<longleftrightarrow> uo_parser_runtime_version e = v \<and> uo_source_fingerprint e = fp
            \<and> (\<exists>x. chk = Some x \<and> uo_content_checksum e \<noteq> x)))"
proof -
  have eq: "verdict = Inr (case find hit es of None \<Rightarrow> CsMissing | Some e \<Rightarrow>
         if uo_parser_runtime_version e \<noteq> v then CsInvalidated
         else if uo_source_fingerprint e \<noteq> fp then CsStale
         else if (case chk of Some x \<Rightarrow> x \<noteq> uo_content_checksum e | None \<Rightarrow> False) then CsFailed
         else CsValidated)"
    using assms(1-6) by (simp add: verdict_def validate_unified_offline_chapter_cache_def and_then_unit
        checks_ok check_each_ok is_ok_unit validate_chapter_cache_required_def hit_def)
  have first: "find hit (pre @ e # post) = Some e" if "\<forall>x \<in> set pre. \<not> hit x" "hit e" for pre e post
    using that by (induction pre) auto
  have "find hit es = None \<longleftrightarrow> (\<forall>e \<in> set es. \<not> hit e)"
    by (auto simp: find_None_iff)
  then show ?thesis
    unfolding eq by (auto simp: first split: option.splits)
qed

theorem offline_validation_order_witness:
  "validate_unified_offline_chapter_cache [sample_offline_entry] (lit ''s'') (lit ''b'') (lit ''c'')
     (lit ''f2'') (lit ''v1'') None = Inr CsStale"
proof -
  have nb: "\<not> blank (lit ''s'')" "\<not> blank (lit ''b'')" "\<not> blank (lit ''c'')" "\<not> blank (lit ''f2'')"
    "\<not> blank (lit ''v1'')"
    by (simp_all add: blank_iff is_whitespace_def)
  have "is_ok (validate_unified_offline_entry sample_offline_entry)"
    by (simp add: validate_unified_offline_entry_def sample_offline_entry_def is_ok_unit checks_ok
        validate_chapter_cache_required_def validate_chapter_cache_optional_def valid_key_def blank_iff
        is_whitespace_def blank_opt_def)
  then have ok: "\<forall>e \<in> set [sample_offline_entry]. is_ok (validate_unified_offline_entry e)" by simp
  have key: "valid_key (lit ''s'', lit ''b'')" using nb by (simp add: valid_key_def)
  have "blank_opt None = False" by (simp add: blank_opt_def)
  then show ?thesis
    using offline_validation_order[OF key nb(3-5) _ ok, of None, THEN conjunct2, rule_format, of "[]"]
    by (simp add: sample_offline_entry_def)
qed

text \<open>
  The availability counts are exact and the next download range follows them: it exists exactly
  while chapters are missing and the limit is positive, it starts right after the cached prefix and
  holds the next \<open>limit\<close> chapters clipped to the book, except that an end of \<open>2^32 - 1\<close> is out of
  reach of the saturating arithmetic (so at the very last index the range can be empty).
\<close>
theorem next_download_range_exact:
  assumes ok: "compute_offline_availability src n es = Inr a"
  shows "unat (oa_cached_chapters a)
      = length (filter (\<lambda>e. oe_source_id e = src \<and> oe_status e = CsAvailable) es)
    \<and> oa_missing_chapters a = uint n - int (length (filter (\<lambda>e. oe_source_id e = src
        \<and> oe_status e \<in> {CsAvailable, CsStale, CsFailed}) es))
    \<and> (case next_download_range a limit of
        None \<Rightarrow> n \<le> oa_cached_chapters a \<or> limit = 0
      | Some r \<Rightarrow> oa_cached_chapters a < n \<and> limit \<noteq> 0
          \<and> unat (range_start r) = unat (oa_cached_chapters a) + 1
          \<and> unat (range_end_inclusive r)
              = min (min (unat (oa_cached_chapters a) + unat limit) (2 ^ 32 - 2)) (unat n))"
proof -
  let ?count = "\<lambda>st. length (filter (\<lambda>e. oe_source_id e = src \<and> oe_status e = st) es)"
  have count: "count_offline_status es src st = Inr k \<Longrightarrow> unat k = ?count st" for st k
    by (auto simp: count_offline_status_def dest: u32_try_from_nat_Some split: option.splits)
  obtain c t f where ctf: "count_offline_status es src CsAvailable = Inr c"
      "count_offline_status es src CsStale = Inr t" "count_offline_status es src CsFailed = Inr f"
    and a: "a = \<lparr>oa_source_id = src, oa_total_chapters = n, oa_cached_chapters = c,
        oa_stale_chapters = t, oa_failed_chapters = f, oa_missing_chapters = uint n - uint c - uint t - uint f\<rparr>"
    using ok by (auto simp: compute_offline_availability_def new_offline_availability_def and_then_eq_Inr)
  note counts = ctf[THEN count]
  have u: "uint c = int (?count CsAvailable)" "uint t = int (?count CsStale)" "uint f = int (?count CsFailed)"
    using counts by (simp_all add: uint_nat)
  have "length (filter (\<lambda>e. oe_source_id e = src \<and> oe_status e \<in> {CsAvailable, CsStale, CsFailed}) es)
      = ?count CsAvailable + ?count CsStale + ?count CsFailed"
    by (induction es) auto
  then have missing: "oa_missing_chapters a = uint n - int (length (filter (\<lambda>e. oe_source_id e = src
        \<and> oe_status e \<in> {CsAvailable, CsStale, CsFailed}) es))"
    by (simp add: a u)
  have range: "unat (c + 1) = unat c + 1
      \<and> unat (min (saturating_sub (saturating_add (c + 1) limit) 1) n)
        = min (min (unat c + unat limit) (2 ^ 32 - 2)) (unat n)"
    if "c < n" "limit \<noteq> 0"
  proof -
    have lt: "unat c < unat n" using that by (simp add: word_less_nat_alt)
    have "unat n < 2 ^ LENGTH(32)" by (rule unsigned_less)
    with lt have start: "unat (c + 1) = unat c + 1" by (simp add: unat_word_ariths)
    have "unat limit \<noteq> 0" using that(2) by (simp add: unat_eq_0)
    then show ?thesis
      by (simp add: start unat_min_word unat_saturating_sub unat_saturating_add)
  qed
  have "n = 0 \<or> n \<le> c \<or> limit = 0 \<longleftrightarrow> n \<le> c \<or> limit = 0" by auto
  then show ?thesis
    using missing counts(1) range
    by (auto simp: a next_download_range_def Let_def not_le)
qed

theorem next_download_range_exact_witness:
  "\<exists>a r. compute_offline_availability (lit ''s'') 5
      [\<lparr>oe_source_id = lit ''s'', oe_chapter_id = lit ''c'', oe_status = CsAvailable\<rparr>] = Inr a
    \<and> next_download_range a 2 = Some r \<and> unat (range_end_inclusive r) = 3"
proof -
  let ?es = "[\<lparr>oe_source_id = lit ''s'', oe_chapter_id = lit ''c'', oe_status = CsAvailable\<rparr>]"
  obtain a where a: "compute_offline_availability (lit ''s'') 5 ?es = Inr a" "oa_cached_chapters a = 1"
    by (simp add: compute_offline_availability_def and_then_unit validate_source_id_def blank_iff
        is_whitespace_def check_each_ok validate_offline_chapter_cache_entry_def checks_ok
        count_offline_status_def u32_try_from_nat_def new_offline_availability_def)
  with next_download_range_exact[OF a(1), of 2] show ?thesis
    by (cases "next_download_range a 2") (auto simp: min_def word_le_nat_alt)
qed

end
