(* ===== verification/UnifiedIndex.thy ===== *)
theory UnifiedIndex
  imports StorageTypes
begin

text \<open>
  The unified chapter index of \<open>crates/reader-storage/src/lib.rs\<close>: validation of index rows and
  reading locators, restoring a reading position against a current index
  (\<open>resolve_unified_reading_progress\<close>), locator canonicalization, and the diff that plans an index
  refresh (\<open>plan_unified_chapter_index_refresh\<close>).
\<close>

subsection \<open>Data\<close>

record chapter_row =
  ui_source_id :: ustr
  ui_book_id :: ustr
  ui_chapter_id :: ustr
  ui_ordinal :: int
  ui_title :: "ustr option"
  ui_canonical_locator :: ustr
  ui_origin_specific_locator :: "ustr option"
  ui_content_locator :: "ustr option"
  ui_content_checksum :: "ustr option"
  ui_diagnostics :: "ustr list"

datatype restore_state =
  ExactRestored | LocatorRestored | OrdinalRestored | NearestChapterRestored | ResetToBeginning

record reading_locator =
  rl_source_id :: ustr
  rl_book_id :: ustr
  rl_chapter_id :: "ustr option"
  rl_origin_specific_locator :: "ustr option"
  rl_canonical_locator :: "ustr option"
  rl_chapter_ordinal :: int
  rl_character_offset :: int
  rl_normalized_chapter_progress :: f64
  rl_normalized_book_progress :: f64
  rl_surrounding_text_checksum :: "ustr option"
  rl_remote_toc_version :: "ustr option"
  rl_local_fingerprint :: "ustr option"
  rl_content_checksum :: "ustr option"
  rl_timestamp :: ustr

record unified_progress =
  up_locator :: reading_locator
  up_restore_state :: restore_state
  up_diagnostics :: "ustr list"

datatype chapter_diff_type =
    DiffUnchanged | ChapterAdded | ChapterRemoved | ChapterTitleChanged | ChapterOrderChanged
  | ChapterLocatorChanged | ChapterContentLocatorChanged | DuplicateMerged
  | CanonicalLocatorChanged | BookMetadataChanged

record diff_entry =
  de_diff_type :: chapter_diff_type
  de_old_chapter_id :: "ustr option"
  de_new_chapter_id :: "ustr option"
  de_reason :: ustr

record index_refresh =
  ir_source_id :: ustr
  ir_book_id :: ustr
  ir_added_chapter_ids :: "ustr list"
  ir_removed_chapter_ids :: "ustr list"
  ir_changed_chapter_ids :: "ustr list"
  ir_reordered_chapter_ids :: "ustr list"
  ir_cache_invalidated_chapter_ids :: "ustr list"
  ir_progress_remapping_result :: "unified_progress option"
  ir_diff_entries :: "diff_entry list"
  ir_diagnostics :: "ustr list"

subsection \<open>Validation\<close>

definition validate_progress_required :: "ustr \<Rightarrow> string \<Rightarrow> unit result" where
  "validate_progress_required v field = ensure (\<not> blank v) (InvalidProgress field)"

definition validate_progress_optional :: "ustr option \<Rightarrow> string \<Rightarrow> unit result" where
  "validate_progress_optional v field = ensure (\<not> blank_opt v) (InvalidProgress field)"

definition validate_progress_diagnostics :: "ustr list \<Rightarrow> unit result" where
  "validate_progress_diagnostics ds = ensure (\<not> list_ex blank ds) (InvalidProgress ''diagnostics'')"

definition validate_progress_fraction :: "f64 \<Rightarrow> string \<Rightarrow> unit result" where
  "validate_progress_fraction v field = ensure (is_fraction v) (InvalidProgress field)"

definition validate_chapter_row :: "chapter_row \<Rightarrow> unit result" where
  "validate_chapter_row c = checks
     [validate_book_key (ui_source_id c) (ui_book_id c),
      validate_progress_required (ui_chapter_id c) ''chapter_id'',
      validate_progress_optional (ui_title c) ''title'',
      validate_progress_required (ui_canonical_locator c) ''canonical_locator'',
      validate_progress_optional (ui_origin_specific_locator c) ''origin_specific_locator'',
      validate_progress_optional (ui_content_locator c) ''content_locator'',
      validate_progress_optional (ui_content_checksum c) ''content_checksum'',
      validate_progress_diagnostics (ui_diagnostics c),
      ensure (\<not> ui_ordinal c < 0) (InvalidProgress ''ordinal'')]"

definition validate_reading_locator :: "reading_locator \<Rightarrow> unit result" where
  "validate_reading_locator l = checks
     [validate_book_key (rl_source_id l) (rl_book_id l),
      validate_progress_optional (rl_chapter_id l) ''chapter_id'',
      validate_progress_optional (rl_origin_specific_locator l) ''origin_specific_locator'',
      validate_progress_optional (rl_canonical_locator l) ''canonical_locator'',
      validate_progress_optional (rl_surrounding_text_checksum l) ''surrounding_text_checksum'',
      validate_progress_optional (rl_remote_toc_version l) ''remote_toc_version'',
      validate_progress_optional (rl_local_fingerprint l) ''local_fingerprint'',
      validate_progress_optional (rl_content_checksum l) ''content_checksum'',
      validate_progress_required (rl_timestamp l) ''timestamp'',
      ensure (\<not> rl_character_offset l < 0) (InvalidProgress ''character_offset''),
      validate_progress_fraction (rl_normalized_chapter_progress l) ''normalized_chapter_progress'',
      validate_progress_fraction (rl_normalized_book_progress l) ''normalized_book_progress'']"

definition validate_unified_progress :: "unified_progress \<Rightarrow> unit result" where
  "validate_unified_progress p = checks
     [validate_reading_locator (up_locator p),
      ensure (\<not> list_ex blank (up_diagnostics p)) (InvalidProgress ''diagnostics'')]"

subsection \<open>Locators\<close>

definition canonicalize_unified_locator_for_match :: "ustr \<Rightarrow> ustr" where
  "canonicalize_unified_locator_for_match locator0 = (
     let locator = trim locator0;
         without_fragment = (case split_once (of_char (CHR ''#'')) locator of
            Some (before, rest) \<Rightarrow> before | None \<Rightarrow> locator)
     in case split_once (of_char (CHR ''?'')) without_fragment of
          None \<Rightarrow> without_fragment
        | Some (path, query) \<Rightarrow>
            let parameters = sort_by (by_key (\<lambda>x. x))
                  (filter (\<lambda>p. p \<noteq> []) (split_on (\<lambda>c. c = of_char (CHR ''&'')) query))
            in if parameters = [] then path else path @ lit ''?'' @ join (lit ''&'') parameters)"

definition replacing_chapter :: "reading_locator \<Rightarrow> chapter_row \<Rightarrow> reading_locator" where
  "replacing_chapter l c = l\<lparr>rl_chapter_id := Some (ui_chapter_id c),
     rl_chapter_ordinal := ui_ordinal c, rl_canonical_locator := Some (ui_canonical_locator c),
     rl_origin_specific_locator := ui_origin_specific_locator c,
     rl_content_checksum := ui_content_checksum c\<rparr>"

definition reset_unified_reading_progress ::
    "unified_progress \<Rightarrow> ustr \<Rightarrow> ustr \<Rightarrow> chapter_row option \<Rightarrow> ustr \<Rightarrow> unified_progress" where
  "reset_unified_reading_progress p source_id book_id first_chapter diagnostic = \<lparr>
     up_locator = \<lparr>rl_source_id = source_id, rl_book_id = book_id,
       rl_chapter_id = map_option ui_chapter_id first_chapter,
       rl_origin_specific_locator = Option.bind first_chapter ui_origin_specific_locator,
       rl_canonical_locator = map_option ui_canonical_locator first_chapter,
       rl_chapter_ordinal = (case first_chapter of Some c \<Rightarrow> ui_ordinal c | None \<Rightarrow> 0),
       rl_character_offset = 0, rl_normalized_chapter_progress = F64 0,
       rl_normalized_book_progress = F64 0, rl_surrounding_text_checksum = None,
       rl_remote_toc_version = rl_remote_toc_version (up_locator p),
       rl_local_fingerprint = rl_local_fingerprint (up_locator p),
       rl_content_checksum = Option.bind first_chapter ui_content_checksum,
       rl_timestamp = rl_timestamp (up_locator p)\<rparr>,
     up_restore_state = ResetToBeginning, up_diagnostics = [diagnostic]\<rparr>"

definition find_unified_chapter_by_locator :: "chapter_row list \<Rightarrow> ustr \<Rightarrow> chapter_row option" where
  "find_unified_chapter_by_locator chapters locator = (
     let target = canonicalize_unified_locator_for_match locator
     in find (\<lambda>c. canonicalize_unified_locator_for_match (ui_canonical_locator c) = target
          \<or> map_option canonicalize_unified_locator_for_match (ui_origin_specific_locator c) = Some target)
        chapters)"

definition chapter_row_cmp :: "chapter_row cmp" where
  "chapter_row_cmp = chain (by_key ui_ordinal) (by_key ui_chapter_id)"

definition scoped_chapters :: "ustr \<Rightarrow> ustr \<Rightarrow> chapter_row list \<Rightarrow> chapter_row list" where
  \<comment> \<open>the rows of one book, in reading order\<close>
  "scoped_chapters source_id book_id chapters = sort_by chapter_row_cmp
     (filter (\<lambda>c. ui_source_id c = source_id \<and> ui_book_id c = book_id) chapters)"

definition locator_match :: "unified_progress \<Rightarrow> chapter_row list \<Rightarrow> (chapter_row \<times> ustr) option" where
  "locator_match p chapters =
     (case Option.bind (rl_origin_specific_locator (up_locator p)) (find_unified_chapter_by_locator chapters) of
        Some c \<Rightarrow> Some (c, lit ''origin_locator_canonicalized'')
      | None \<Rightarrow> (case Option.bind (rl_canonical_locator (up_locator p)) (find_unified_chapter_by_locator chapters) of
          Some c \<Rightarrow> Some (c, lit ''canonical_locator_canonicalized'')
        | None \<Rightarrow> None))"

definition nearest_index :: "int \<Rightarrow> nat \<Rightarrow> nat" where
  \<comment> \<open>\<open>ordinal.clamp(0, len.saturating_sub(1) as i64) as usize\<close>\<close>
  "nearest_index ordinal n = nat (max 0 (min ordinal (int (n - 1))))"

definition restore_from ::
    "unified_progress \<Rightarrow> ustr \<Rightarrow> ustr \<Rightarrow> chapter_row list \<Rightarrow> unified_progress" where
  \<comment> \<open>\<open>resolve_unified_reading_progress\<close> after validation, on the sorted rows of the book\<close>
  "restore_from p source_id book_id chapters =
     (if rl_source_id (up_locator p) \<noteq> source_id \<or> rl_book_id (up_locator p) \<noteq> book_id
      then reset_unified_reading_progress p source_id book_id
        (case chapters of [] \<Rightarrow> None | c # _ \<Rightarrow> Some c) (lit ''source_or_book_mismatch'')
      else if chapters = [] then reset_unified_reading_progress p source_id book_id None
        (lit ''missing_book_or_empty_index'')
      else if (case rl_chapter_id (up_locator p) of
                 Some i \<Rightarrow> list_ex (\<lambda>c. ui_chapter_id c = i) chapters | None \<Rightarrow> False)
      then \<lparr>up_locator = up_locator p, up_restore_state = ExactRestored, up_diagnostics = []\<rparr>
      else case locator_match p chapters of
        Some (c, d) \<Rightarrow> \<lparr>up_locator = replacing_chapter (up_locator p) c,
          up_restore_state = LocatorRestored, up_diagnostics = [d]\<rparr>
      | None \<Rightarrow> (case find (\<lambda>c. ui_ordinal c = rl_chapter_ordinal (up_locator p)) chapters of
          Some c \<Rightarrow> \<lparr>up_locator = replacing_chapter (up_locator p) c,
            up_restore_state = OrdinalRestored, up_diagnostics = []\<rparr>
        | None \<Rightarrow> \<lparr>up_locator = replacing_chapter (up_locator p)
              (chapters ! nearest_index (rl_chapter_ordinal (up_locator p)) (length chapters)),
            up_restore_state = NearestChapterRestored, up_diagnostics = [lit ''nearest_fallback'']\<rparr>))"

definition resolve_unified_reading_progress ::
    "unified_progress \<Rightarrow> ustr \<Rightarrow> ustr \<Rightarrow> chapter_row list \<Rightarrow> unified_progress result" where
  "resolve_unified_reading_progress p source_id book_id chapters = and_then (checks
     [validate_unified_progress p, validate_book_key source_id book_id,
      check_each validate_chapter_row chapters])
     (\<lambda>_. Inr (restore_from p source_id book_id (scoped_chapters source_id book_id chapters)))"

subsection \<open>Index refresh\<close>

fun unique_by_locator :: "ustr list \<Rightarrow> chapter_row list \<Rightarrow> chapter_row list" where
  "unique_by_locator seen [] = []"
| "unique_by_locator seen (c # cs) = (if ui_canonical_locator c \<in> set seen
     then unique_by_locator seen cs
     else c # unique_by_locator (ui_canonical_locator c # seen) cs)"

definition ordered_unique_unified_chapters :: "chapter_row list \<Rightarrow> ustr \<Rightarrow> ustr \<Rightarrow> chapter_row list" where
  "ordered_unique_unified_chapters chapters source_id book_id
     = unique_by_locator [] (scoped_chapters source_id book_id chapters)"

definition first_unified_chapter_by_canonical_locator ::
    "chapter_row list \<Rightarrow> (ustr, chapter_row) hmap" where
  "first_unified_chapter_by_canonical_locator chapters = fold (\<lambda>c m.
     if hm_contains (ui_canonical_locator c) m then m else hm_insert (ui_canonical_locator c) c m) chapters []"

definition unified_chapter_diff_entry ::
    "chapter_diff_type \<Rightarrow> ustr option \<Rightarrow> ustr option \<Rightarrow> string \<Rightarrow> diff_entry" where
  "unified_chapter_diff_entry t old_id new_id reason = \<lparr>de_diff_type = t, de_old_chapter_id = old_id,
     de_new_chapter_id = new_id, de_reason = lit reason\<rparr>"

fun unified_chapter_diff_type_wire_value :: "chapter_diff_type \<Rightarrow> ustr" where
  "unified_chapter_diff_type_wire_value DiffUnchanged = lit ''unchanged''"
| "unified_chapter_diff_type_wire_value ChapterAdded = lit ''chapter_added''"
| "unified_chapter_diff_type_wire_value ChapterRemoved = lit ''chapter_removed''"
| "unified_chapter_diff_type_wire_value ChapterTitleChanged = lit ''chapter_title_changed''"
| "unified_chapter_diff_type_wire_value ChapterOrderChanged = lit ''chapter_order_changed''"
| "unified_chapter_diff_type_wire_value ChapterLocatorChanged = lit ''chapter_locator_changed''"
| "unified_chapter_diff_type_wire_value ChapterContentLocatorChanged = lit ''chapter_content_locator_changed''"
| "unified_chapter_diff_type_wire_value DuplicateMerged = lit ''duplicate_merged''"
| "unified_chapter_diff_type_wire_value CanonicalLocatorChanged = lit ''canonical_locator_changed''"
| "unified_chapter_diff_type_wire_value BookMetadataChanged = lit ''book_metadata_changed''"

definition diff_entry_cmp :: "diff_entry cmp" where
  "diff_entry_cmp = chain (by_key (\<lambda>e. unified_chapter_diff_type_wire_value (de_diff_type e)))
     (chain (by_key de_old_chapter_id) (chain (by_key de_new_chapter_id) (by_key de_reason)))"

definition sort_unified_chapter_diff_entries :: "diff_entry list \<Rightarrow> diff_entry list" where
  "sort_unified_chapter_diff_entries es = sort_by diff_entry_cmp es"

definition merged_duplicate :: "chapter_row \<Rightarrow> bool" where
  "merged_duplicate c = list_ex (\<lambda>d. d = lit ''duplicate_canonical_locator_merged'') (ui_diagnostics c)"

definition changed_entries :: "chapter_row \<Rightarrow> chapter_row \<Rightarrow> diff_entry list" where
  \<comment> \<open>the body of the third loop of \<open>diff_unified_chapters\<close>\<close>
  "changed_entries previous c = (
     let entry = (\<lambda>changed t reason. if changed then [unified_chapter_diff_entry t
           (Some (ui_chapter_id previous)) (Some (ui_chapter_id c)) reason] else [])
     in entry (ui_title previous \<noteq> ui_title c) ChapterTitleChanged ''title_changed''
        @ entry (ui_ordinal previous \<noteq> ui_ordinal c) ChapterOrderChanged ''ordinal_changed''
        @ entry (ui_origin_specific_locator previous \<noteq> ui_origin_specific_locator c)
            ChapterLocatorChanged ''chapter_locator_changed''
        @ entry (ui_content_locator previous \<noteq> ui_content_locator c)
            ChapterContentLocatorChanged ''content_locator_changed''
        @ entry (merged_duplicate c \<and> \<not> merged_duplicate previous)
            DuplicateMerged ''canonical_duplicate_merged'')"

definition diff_unified_chapters :: "chapter_row list \<Rightarrow> chapter_row list \<Rightarrow> diff_entry list" where
  "diff_unified_chapters old new = (
     let old_by_locator = first_unified_chapter_by_canonical_locator old;
         new_by_locator = first_unified_chapter_by_canonical_locator new;
         added = concat (map (\<lambda>c. if \<not> hm_contains (ui_canonical_locator c) old_by_locator
            then [unified_chapter_diff_entry ChapterAdded None (Some (ui_chapter_id c)) ''canonical_locator_new'']
            else []) new);
         removed = concat (map (\<lambda>c. if \<not> hm_contains (ui_canonical_locator c) new_by_locator
            then [unified_chapter_diff_entry ChapterRemoved (Some (ui_chapter_id c)) None ''canonical_locator_missing'']
            else []) old);
         changed = concat (map (\<lambda>c. case map_of old_by_locator (ui_canonical_locator c) of
            None \<Rightarrow> [] | Some previous \<Rightarrow> changed_entries previous c) new);
         entries = added @ removed @ changed
     in sort_unified_chapter_diff_entries (if entries = []
          then [unified_chapter_diff_entry DiffUnchanged None None ''chapter_identity_stable''] else entries))"

definition filter_map :: "('a \<Rightarrow> 'b option) \<Rightarrow> 'a list \<Rightarrow> 'b list" where
  "filter_map f xs = concat (map (\<lambda>x. case f x of Some y \<Rightarrow> [y] | None \<Rightarrow> []) xs)"

definition sort_dedupe_strings :: "ustr list \<Rightarrow> ustr list" where
  "sort_dedupe_strings xs = remdups_adj (sort_by (by_key (\<lambda>x. x)) xs)"

definition old_or_new_id :: "diff_entry \<Rightarrow> ustr option" where
  "old_or_new_id e = (case de_old_chapter_id e of Some i \<Rightarrow> Some i | None \<Rightarrow> de_new_chapter_id e)"

definition plan_unified_chapter_index_refresh ::
    "ustr \<Rightarrow> ustr \<Rightarrow> chapter_row list \<Rightarrow> chapter_row list \<Rightarrow> unified_progress option \<Rightarrow> index_refresh result" where
  "plan_unified_chapter_index_refresh source_id book_id old_chapters new_chapters progress_opt =
     and_then (checks [validate_book_key source_id book_id,
       check_each validate_chapter_row (old_chapters @ new_chapters)]) (\<lambda>_.
     let old = ordered_unique_unified_chapters old_chapters source_id book_id;
         new = ordered_unique_unified_chapters new_chapters source_id book_id;
         diff_entries = diff_unified_chapters old new
     in and_then (case progress_opt of None \<Rightarrow> Inr None
          | Some p \<Rightarrow> and_then (resolve_unified_reading_progress p source_id book_id new) (\<lambda>r. Inr (Some r)))
        (\<lambda>remapped. Inr \<lparr>ir_source_id = source_id, ir_book_id = book_id,
           ir_added_chapter_ids = sort_dedupe_strings (filter_map de_new_chapter_id
             (filter (\<lambda>e. de_diff_type e = ChapterAdded) diff_entries)),
           ir_removed_chapter_ids = sort_dedupe_strings (filter_map de_old_chapter_id
             (filter (\<lambda>e. de_diff_type e = ChapterRemoved) diff_entries)),
           ir_changed_chapter_ids = sort_dedupe_strings (filter_map old_or_new_id
             (filter (\<lambda>e. de_diff_type e \<in> {ChapterTitleChanged, ChapterLocatorChanged,
                ChapterContentLocatorChanged, CanonicalLocatorChanged}) diff_entries)),
           ir_reordered_chapter_ids = sort_dedupe_strings (filter_map de_new_chapter_id
             (filter (\<lambda>e. de_diff_type e = ChapterOrderChanged) diff_entries)),
           ir_cache_invalidated_chapter_ids = sort_dedupe_strings (filter_map old_or_new_id
             (filter (\<lambda>e. de_diff_type e \<noteq> DiffUnchanged) diff_entries)),
           ir_progress_remapping_result = remapped, ir_diff_entries = diff_entries, ir_diagnostics = []\<rparr>))"

subsection \<open>Restoring a position\<close>

interpretation chapter_order: comparator chapter_row_cmp
  by (simp add: chapter_row_cmp_def comparator_intros)

lemma set_scoped [simp]:
  "set (scoped_chapters s b cs) = {c \<in> set cs. ui_source_id c = s \<and> ui_book_id c = b}"
  by (auto simp: scoped_chapters_def)

lemma validate_chapter_row_ok:
  "validate_chapter_row c = Inr u \<longleftrightarrow> valid_key (ui_source_id c, ui_book_id c) \<and> \<not> blank (ui_chapter_id c)
     \<and> \<not> blank_opt (ui_title c) \<and> \<not> blank (ui_canonical_locator c)
     \<and> \<not> blank_opt (ui_origin_specific_locator c) \<and> \<not> blank_opt (ui_content_locator c)
     \<and> \<not> blank_opt (ui_content_checksum c) \<and> \<not> list_ex blank (ui_diagnostics c) \<and> 0 \<le> ui_ordinal c"
  by (simp add: validate_chapter_row_def checks_ok validate_progress_required_def
      validate_progress_optional_def validate_progress_diagnostics_def not_less)

lemma validate_reading_locator_ok:
  "validate_reading_locator l = Inr u \<longleftrightarrow> valid_key (rl_source_id l, rl_book_id l)
     \<and> \<not> blank_opt (rl_chapter_id l) \<and> \<not> blank_opt (rl_origin_specific_locator l)
     \<and> \<not> blank_opt (rl_canonical_locator l) \<and> \<not> blank_opt (rl_surrounding_text_checksum l)
     \<and> \<not> blank_opt (rl_remote_toc_version l) \<and> \<not> blank_opt (rl_local_fingerprint l)
     \<and> \<not> blank_opt (rl_content_checksum l) \<and> \<not> blank (rl_timestamp l) \<and> 0 \<le> rl_character_offset l
     \<and> is_fraction (rl_normalized_chapter_progress l) \<and> is_fraction (rl_normalized_book_progress l)"
  by (simp add: validate_reading_locator_def checks_ok validate_progress_required_def
      validate_progress_optional_def validate_progress_fraction_def not_less)

lemma validate_unified_progress_ok:
  "validate_unified_progress p = Inr u \<longleftrightarrow>
     validate_reading_locator (up_locator p) = Inr () \<and> \<not> list_ex blank (up_diagnostics p)"
  by (simp add: validate_unified_progress_def checks_ok)

lemma blank_opt_simps [simp]: "\<not> blank_opt None" "blank_opt (Some v) = blank v"
  by (simp_all add: blank_opt_def)

lemma valid_replacing:
  "validate_reading_locator l = Inr () \<Longrightarrow> validate_chapter_row c = Inr () \<Longrightarrow>
     validate_reading_locator (replacing_chapter l c) = Inr ()"
  by (simp add: validate_reading_locator_ok validate_chapter_row_ok replacing_chapter_def)

lemma nearest_index_less: "0 < n \<Longrightarrow> nearest_index k n < n"
  by (auto simp: nearest_index_def)

lemma locator_match_in: "locator_match p cs = Some (c, d) \<Longrightarrow> c \<in> set cs \<and> \<not> blank d"
  by (auto simp: locator_match_def find_unified_chapter_by_locator_def Let_def bind_eq_Some_conv
      find_Some_iff blank_iff is_whitespace_def split: option.splits)

lemma find_in: "find P cs = Some c \<Longrightarrow> c \<in> set cs \<and> P c"
  by (auto simp: find_Some_iff)

lemma restore_from_cases:
  assumes "cs \<noteq> []"
  obtains (reset) "rl_source_id (up_locator p) \<noteq> s \<or> rl_book_id (up_locator p) \<noteq> b"
      "restore_from p s b cs = reset_unified_reading_progress p s b (Some (hd cs)) (lit ''source_or_book_mismatch'')"
    | (exact) i where "rl_source_id (up_locator p) = s" "rl_book_id (up_locator p) = b"
      "rl_chapter_id (up_locator p) = Some i" "i \<in> ui_chapter_id ` set cs"
      "restore_from p s b cs = \<lparr>up_locator = up_locator p, up_restore_state = ExactRestored, up_diagnostics = []\<rparr>"
    | (moved) c st d where "rl_source_id (up_locator p) = s" "rl_book_id (up_locator p) = b"
      "c \<in> set cs" "\<not> list_ex blank d"
      "st \<in> {LocatorRestored, OrdinalRestored, NearestChapterRestored}"
      "restore_from p s b cs = \<lparr>up_locator = replacing_chapter (up_locator p) c, up_restore_state = st,
         up_diagnostics = d\<rparr>"
proof (cases "rl_source_id (up_locator p) = s \<and> rl_book_id (up_locator p) = b")
  case False
  then show thesis using reset assms by (cases cs) (auto simp: restore_from_def)
next
  case same: True
  show thesis
  proof (cases "\<exists>i. rl_chapter_id (up_locator p) = Some i \<and> i \<in> ui_chapter_id ` set cs")
    case True
    then obtain i where i: "rl_chapter_id (up_locator p) = Some i" "i \<in> ui_chapter_id ` set cs" by blast
    then have "list_ex (\<lambda>c. ui_chapter_id c = i) cs" by (auto simp: list_ex_iff)
    with exact[OF _ _ i] same assms i(1) show thesis by (simp add: restore_from_def)
  next
    case False
    then have no: "\<not> (case rl_chapter_id (up_locator p) of
        Some i \<Rightarrow> list_ex (\<lambda>c. ui_chapter_id c = i) cs | None \<Rightarrow> False)"
      by (auto simp: list_ex_iff image_iff split: option.splits)
    have nb: "\<not> list_ex blank [lit ''nearest_fallback'']" by (simp add: blank_iff is_whitespace_def)
    have last: "cs ! nearest_index k (length cs) \<in> set cs" for k
      using assms nearest_index_less[of "length cs" k] by simp
    show thesis
    proof (cases "locator_match p cs")
      case (Some cd)
      obtain c d where cd: "cd = (c, d)" by (cases cd)
      then show thesis
        using Some locator_match_in[of p cs c d] moved[of c "[d]" LocatorRestored] no same assms
        by (simp add: restore_from_def)
    next
      case None
      show thesis
      proof (cases "find (\<lambda>c. ui_ordinal c = rl_chapter_ordinal (up_locator p)) cs")
        case (Some c)
        then show thesis
          using None find_in[OF Some] moved[of c "[]" OrdinalRestored] no same assms
          by (simp add: restore_from_def)
      next
        case none: None
        show thesis
          using None none moved[OF _ _ last nb, of NearestChapterRestored] no same assms
          by (simp add: restore_from_def)
      qed
    qed
  qed
qed

text \<open>
  Restoring a reading position lands in the current index and is stable: whenever the book has
  chapters, the restored locator names a chapter of that book, and resolving it again succeeds,
  keeps it unchanged and reports an exact restore. Only a reset moves the offset (to the start).
\<close>
theorem restore_lands_and_is_stable:
  assumes ok: "resolve_unified_reading_progress p s b cs = Inr q"
    and chapters: "scoped_chapters s b cs \<noteq> []"
  shows "\<exists>c \<in> set cs. ui_source_id c = s \<and> ui_book_id c = b
      \<and> rl_chapter_id (up_locator q) = Some (ui_chapter_id c)
    \<and> resolve_unified_reading_progress q s b cs
      = Inr \<lparr>up_locator = up_locator q, up_restore_state = ExactRestored, up_diagnostics = []\<rparr>
    \<and> (up_restore_state q \<noteq> ResetToBeginning \<longrightarrow>
        rl_character_offset (up_locator q) = rl_character_offset (up_locator p))"
proof -
  let ?cs = "scoped_chapters s b cs"
  have valid: "validate_reading_locator (up_locator p) = Inr ()" "valid_key (s, b)"
    "\<And>c. c \<in> set cs \<Longrightarrow> validate_chapter_row c = Inr ()"
    and q: "q = restore_from p s b ?cs"
    using ok by (auto simp: resolve_unified_reading_progress_def and_then_eq_Inr checks_ok check_each_ok
        validate_unified_progress_ok)
  have again: "\<exists>c \<in> set cs. ui_source_id c = s \<and> ui_book_id c = b
      \<and> rl_chapter_id (up_locator q) = Some (ui_chapter_id c)
      \<and> resolve_unified_reading_progress q s b cs
        = Inr \<lparr>up_locator = up_locator q, up_restore_state = ExactRestored, up_diagnostics = []\<rparr>"
    if "validate_unified_progress q = Inr ()" "rl_source_id (up_locator q) = s" "rl_book_id (up_locator q) = b"
      "rl_chapter_id (up_locator q) = Some (ui_chapter_id c)" "c \<in> set ?cs" for c
  proof (rule bexI[of _ c])
    have "restore_from q s b ?cs = \<lparr>up_locator = up_locator q, up_restore_state = ExactRestored, up_diagnostics = []\<rparr>"
      using that chapters by (auto simp: restore_from_def list_ex_iff)
    then show "ui_source_id c = s \<and> ui_book_id c = b \<and> rl_chapter_id (up_locator q) = Some (ui_chapter_id c)
      \<and> resolve_unified_reading_progress q s b cs
        = Inr \<lparr>up_locator = up_locator q, up_restore_state = ExactRestored, up_diagnostics = []\<rparr>"
      using that valid by (simp add: resolve_unified_reading_progress_def and_then_unit checks_ok check_each_ok)
  qed (use that in simp)
  show ?thesis
  proof (rule restore_from_cases[OF chapters, of p s b])
    assume eq: "restore_from p s b ?cs
        = reset_unified_reading_progress p s b (Some (hd ?cs)) (lit ''source_or_book_mismatch'')"
    have hd: "hd ?cs \<in> set ?cs" using chapters by (rule hd_in_set)
    then have "validate_chapter_row (hd ?cs) = Inr ()" using valid(3) by simp
    then have "validate_unified_progress q = Inr ()"
      using valid(1,2) by (simp add: q eq reset_unified_reading_progress_def validate_unified_progress_ok
          validate_reading_locator_ok validate_chapter_row_ok is_fraction_iff blank_iff is_whitespace_def)
    from again[OF this _ _ _ hd] show ?thesis
      by (simp add: q eq reset_unified_reading_progress_def)
  next
    fix i
    assume i: "rl_source_id (up_locator p) = s" "rl_book_id (up_locator p) = b"
      "rl_chapter_id (up_locator p) = Some i" "i \<in> ui_chapter_id ` set ?cs"
      and eq: "restore_from p s b ?cs = \<lparr>up_locator = up_locator p, up_restore_state = ExactRestored, up_diagnostics = []\<rparr>"
    then obtain c where c: "c \<in> set ?cs" "i = ui_chapter_id c" by blast
    have "validate_unified_progress q = Inr ()"
      using valid(1) by (simp add: q eq validate_unified_progress_ok)
    from again[OF this _ _ _ c(1)] i c(2) show ?thesis by (simp add: q eq)
  next
    fix c st d
    assume c: "rl_source_id (up_locator p) = s" "rl_book_id (up_locator p) = b" "c \<in> set ?cs"
      "\<not> list_ex blank d"
      and eq: "restore_from p s b ?cs = \<lparr>up_locator = replacing_chapter (up_locator p) c,
         up_restore_state = st, up_diagnostics = d\<rparr>"
    have "validate_chapter_row c = Inr ()" using valid(3) c(3) by simp
    then have "validate_unified_progress q = Inr ()"
      using valid(1) c(4) by (simp add: q eq validate_unified_progress_ok valid_replacing)
    from again[OF this _ _ _ c(3)] c show ?thesis by (simp add: q eq replacing_chapter_def)
  qed
qed

definition sample_chapter :: "ustr \<Rightarrow> int \<Rightarrow> ustr \<Rightarrow> chapter_row" where
  "sample_chapter i n loc = \<lparr>ui_source_id = lit ''s'', ui_book_id = lit ''b'', ui_chapter_id = i,
     ui_ordinal = n, ui_title = None, ui_canonical_locator = loc, ui_origin_specific_locator = None,
     ui_content_locator = None, ui_content_checksum = None, ui_diagnostics = []\<rparr>"

definition sample_position :: "ustr option \<Rightarrow> int \<Rightarrow> unified_progress" where
  "sample_position i n = \<lparr>up_locator = \<lparr>rl_source_id = lit ''s'', rl_book_id = lit ''b'', rl_chapter_id = i,
     rl_origin_specific_locator = None, rl_canonical_locator = None, rl_chapter_ordinal = n,
     rl_character_offset = 12, rl_normalized_chapter_progress = F64 0, rl_normalized_book_progress = F64 0,
     rl_surrounding_text_checksum = None, rl_remote_toc_version = None, rl_local_fingerprint = None,
     rl_content_checksum = None, rl_timestamp = lit ''t''\<rparr>, up_restore_state = ExactRestored,
     up_diagnostics = []\<rparr>"

lemmas sample_index_simps = sample_chapter_def sample_position_def resolve_unified_reading_progress_def
  and_then_unit checks_ok check_each_ok validate_unified_progress_ok validate_reading_locator_ok
  validate_chapter_row_ok valid_key_def blank_iff is_whitespace_def is_fraction_iff scoped_chapters_def
  restore_from_def locator_match_def sort_by_def nearest_index_def replacing_chapter_def

theorem restore_lands_and_is_stable_witness:
  "\<exists>q. resolve_unified_reading_progress (sample_position None 7) (lit ''s'') (lit ''b'')
      [sample_chapter (lit ''c1'') 0 (lit ''l'')] = Inr q
    \<and> rl_chapter_id (up_locator q) = Some (lit ''c1'')"
proof -
  let ?cs = "[sample_chapter (lit ''c1'') 0 (lit ''l'')]"
  have "is_ok (resolve_unified_reading_progress (sample_position None 7) (lit ''s'') (lit ''b'') ?cs)"
    by (simp add: sample_index_simps)
  then obtain q where q: "resolve_unified_reading_progress (sample_position None 7) (lit ''s'') (lit ''b'') ?cs = Inr q"
    by (auto simp: is_ok_iff)
  have "scoped_chapters (lit ''s'') (lit ''b'') ?cs \<noteq> []"
    by (simp add: scoped_chapters_def sample_chapter_def sort_by_def)
  from restore_lands_and_is_stable[OF q this] q show ?thesis by (auto simp: sample_chapter_def)
qed

text \<open>
  The restore order is chapter id, then locator, then ordinal, then nearest: with the book's
  index non-empty and the position taken in that book, the restore is exact iff the index has the
  chapter id, by locator iff not and one of the two locators canonically matches a row, by ordinal
  iff neither and a row has the ordinal, and the nearest row in reading order otherwise.
\<close>
theorem restore_preference:
  assumes ok: "resolve_unified_reading_progress p s b cs = Inr q"
    and chapters: "scoped_chapters s b cs \<noteq> []"
    and same: "rl_source_id (up_locator p) = s" "rl_book_id (up_locator p) = b"
  defines "rows \<equiv> {c \<in> set cs. ui_source_id c = s \<and> ui_book_id c = b}"
    and "known \<equiv> (\<exists>i. rl_chapter_id (up_locator p) = Some i
        \<and> i \<in> ui_chapter_id ` {c \<in> set cs. ui_source_id c = s \<and> ui_book_id c = b})"
    and "located \<equiv> (\<exists>l. (rl_origin_specific_locator (up_locator p) = Some l
            \<or> rl_canonical_locator (up_locator p) = Some l)
        \<and> (\<exists>c \<in> set cs. ui_source_id c = s \<and> ui_book_id c = b
            \<and> (canonicalize_unified_locator_for_match (ui_canonical_locator c)
                = canonicalize_unified_locator_for_match l
              \<or> map_option canonicalize_unified_locator_for_match (ui_origin_specific_locator c)
                = Some (canonicalize_unified_locator_for_match l))))"
    and "numbered \<equiv> (\<exists>c \<in> set cs. ui_source_id c = s \<and> ui_book_id c = b
        \<and> ui_ordinal c = rl_chapter_ordinal (up_locator p))"
  shows "up_restore_state q = (if known then ExactRestored else if located then LocatorRestored
      else if numbered then OrdinalRestored else NearestChapterRestored)"
proof -
  let ?cs = "scoped_chapters s b cs"
  have q: "q = restore_from p s b ?cs"
    using ok by (auto simp: resolve_unified_reading_progress_def and_then_eq_Inr)
  have k: "(case rl_chapter_id (up_locator p) of
      Some i \<Rightarrow> list_ex (\<lambda>c. ui_chapter_id c = i) ?cs | None \<Rightarrow> False) = known"
    by (auto simp: known_def list_ex_iff split: option.splits)
  have f: "find_unified_chapter_by_locator ?cs l \<noteq> None \<longleftrightarrow> (\<exists>c \<in> set cs. ui_source_id c = s \<and> ui_book_id c = b
      \<and> (canonicalize_unified_locator_for_match (ui_canonical_locator c)
            = canonicalize_unified_locator_for_match l
          \<or> map_option canonicalize_unified_locator_for_match (ui_origin_specific_locator c)
            = Some (canonicalize_unified_locator_for_match l)))" for l
    by (simp only: find_unified_chapter_by_locator_def Let_def find_None_iff set_scoped) blast
  have "locator_match p ?cs \<noteq> None \<longleftrightarrow>
      (\<exists>l. (rl_origin_specific_locator (up_locator p) = Some l \<or> rl_canonical_locator (up_locator p) = Some l)
        \<and> find_unified_chapter_by_locator ?cs l \<noteq> None)"
    by (cases "rl_origin_specific_locator (up_locator p)"; cases "rl_canonical_locator (up_locator p)")
      (auto simp: locator_match_def split: option.splits)
  then have l: "locator_match p ?cs \<noteq> None \<longleftrightarrow> located"
    unfolding located_def by (simp only: f)
  have n: "find (\<lambda>c. ui_ordinal c = rl_chapter_ordinal (up_locator p)) ?cs \<noteq> None \<longleftrightarrow> numbered"
    unfolding numbered_def by (auto simp: find_None_iff)
  show ?thesis
    unfolding q restore_from_def k using same chapters l n
    by (auto split: option.splits)
qed

theorem restore_preference_witness:
  "\<exists>q. resolve_unified_reading_progress (sample_position None 7) (lit ''s'') (lit ''b'')
      [sample_chapter (lit ''c1'') 0 (lit ''l'')] = Inr q
    \<and> up_restore_state q = NearestChapterRestored"
proof -
  let ?cs = "[sample_chapter (lit ''c1'') 0 (lit ''l'')]"
  have "is_ok (resolve_unified_reading_progress (sample_position None 7) (lit ''s'') (lit ''b'') ?cs)"
    by (simp add: sample_index_simps)
  then obtain q where q: "resolve_unified_reading_progress (sample_position None 7) (lit ''s'') (lit ''b'') ?cs = Inr q"
    by (auto simp: is_ok_iff)
  have c: "scoped_chapters (lit ''s'') (lit ''b'') ?cs \<noteq> []"
    by (simp add: scoped_chapters_def sample_chapter_def sort_by_def)
  from restore_preference[OF q c] q show ?thesis
    by (simp add: sample_position_def sample_chapter_def)
qed

subsection \<open>Canonical locators\<close>

lemma plain_delimiters:
  "plain {35} (lit ''&'')" "plain {35} (lit ''?'')" "plain {} (lit ''#'')"
  by (simp_all add: plain_def is_whitespace_def)

text \<open>
  Locator matching ignores the fragment, empty query parameters and the order of the query
  parameters: two locators with the same path and the same multiset of non-empty parameters (all
  without blanks and delimiters) have the same canonical form.
\<close>
theorem canonical_locator_invariant:
  assumes path: "plain {of_char (CHR ''#''), of_char (CHR ''?'')} path"
    and ps: "\<forall>p \<in> set ps \<union> set qs. plain {of_char (CHR ''#''), of_char (CHR ''&'')} p"
    and frag: "plain {} frag"
    and same: "filter_mset (\<lambda>p. p \<noteq> []) (mset ps) = filter_mset (\<lambda>p. p \<noteq> []) (mset qs)"
  shows "canonicalize_unified_locator_for_match
      (path @ lit ''?'' @ join (lit ''&'') ps @ lit ''#'' @ frag)
    = canonicalize_unified_locator_for_match (path @ lit ''?'' @ join (lit ''&'') qs)"
proof -
  let ?sorted = "\<lambda>ps. sort_by (by_key (\<lambda>x. x)) (filter (\<lambda>p. p \<noteq> []) ps) :: ustr list"
  let ?out = "\<lambda>ps. if ?sorted ps = [] then path else path @ lit ''?'' @ join (lit ''&'') (?sorted ps)"
  have codes: "of_char (CHR ''#'') = (35::nat)" "of_char (CHR ''?'') = (63::nat)" "of_char (CHR ''&'') = (38::nat)"
    by simp_all
  have out: "canonicalize_unified_locator_for_match (path @ lit ''?'' @ join (lit ''&'') rs @ rest) = ?out rs"
    if rs: "\<And>p. p \<in> set rs \<Longrightarrow> plain {35, 38} p" and rest: "rest = [] \<or> rest = lit ''#'' @ frag" for rs rest
  proof -
    let ?head = "path @ lit ''?'' @ join (lit ''&'') rs"
    have join: "plain {35} (join (lit ''&'') rs)"
      by (rule plain_join[OF plain_mono[OF rs]]) (simp_all add: plain_delimiters del: lit_simps)
    have head: "plain {35} ?head"
      using path join by (simp add: plain_delimiters codes plain_mono[of "{35, 63}" path] del: lit_simps)
    have "plain {} rest" using rest frag by (auto simp: plain_delimiters simp del: lit_simps) (simp add: plain_def)
    with head have "plain {} (?head @ rest)" by (simp only: plain_append) (blast intro: plain_mono)
    then have "trim (?head @ rest) = ?head @ rest" by (rule trim_plain)
    moreover have hash: "35 \<notin> set ?head" by (rule plain_avoids[OF head]) simp
    have "(case split_once 35 (?head @ rest) of Some (before, r) \<Rightarrow> before | None \<Rightarrow> ?head @ rest) = ?head"
      using rest
    proof
      assume "rest = []"
      with split_once_none[OF hash] show ?thesis by (simp del: lit_simps)
    next
      assume "rest = lit ''#'' @ frag"
      then have "?head @ rest = ?head @ 35 # frag" by simp
      with split_once_at[OF hash, of frag] show ?thesis by (simp only: option.case prod.case)
    qed
    moreover have "split_once 63 ?head = Some (path, join (lit ''&'') rs)"
    proof -
      have "63 \<notin> set path" using plain_avoids[OF path] by (simp add: codes)
      from split_once_at[OF this] show ?thesis by simp
    qed
    moreover have "filter (\<lambda>p. p \<noteq> []) (split_on (\<lambda>c. c = 38) (join (lit ''&'') rs)) = filter (\<lambda>p. p \<noteq> []) rs"
    proof (cases "rs = []")
      case False
      have "\<forall>p \<in> set rs. 38 \<notin> set p" using rs plain_avoids by fastforce
      from split_join[OF this False] show ?thesis by simp
    qed simp
    ultimately show ?thesis
      by (simp only: canonicalize_unified_locator_for_match_def append_assoc codes Let_def option.case prod.case)
  qed
  have "?sorted ps = ?sorted qs"
    by (rule comparator.sort_unique[OF comparator_by_key]) (use same in simp_all)
  moreover have "plain {35, 38} p" if "p \<in> set ps \<union> set qs" for p using ps that by (simp add: codes)
  ultimately show ?thesis
    using out[of ps "lit ''#'' @ frag"] out[of qs "[]"] by (simp del: lit_simps)
qed

theorem canonical_locator_invariant_witness:
  "canonicalize_unified_locator_for_match (lit ''/c?b=2&a=1#top'')
    = canonicalize_unified_locator_for_match (lit ''/c?a=1&&b=2'')"
proof -
  have "canonicalize_unified_locator_for_match
      (lit ''/c'' @ lit ''?'' @ join (lit ''&'') [lit ''b=2'', lit ''a=1''] @ lit ''#'' @ lit ''top'')
    = canonicalize_unified_locator_for_match
      (lit ''/c'' @ lit ''?'' @ join (lit ''&'') [lit ''a=1'', [], lit ''b=2''])"
    by (rule canonical_locator_invariant) (auto simp: plain_def is_whitespace_def)
  then show ?thesis by simp
qed

end
