(* ===== verification/RefreshPlan.thy ===== *)
theory RefreshPlan
  imports UnifiedIndex
begin

text \<open>
  What an index refresh plans (\<open>plan_unified_chapter_index_refresh\<close> of
  \<open>crates/reader-storage/src/lib.rs\<close>): membership of the diff entries by kind, and the claim
  that the id lists of a plan account for every chapter of both indexes.
\<close>

subsection \<open>Refresh plans\<close>

lemma strict_remdups_adj: "sorted xs \<Longrightarrow> sorted_wrt (<) (remdups_adj (xs :: 'a::linorder list))"
  by (induction xs rule: remdups_adj.induct) (auto simp: order.order_iff_strict)

lemma sort_dedupe_strict: "sorted_wrt (<) (sort_dedupe_strings xs)"
proof -
  have "sorted_wrt (cmp_le (by_key (\<lambda>x. x))) (sort_by (by_key (\<lambda>x. x)) xs)"
    by (rule comparator.sorted_sort[OF comparator_by_key])
  then have "sorted (sort_by (by_key (\<lambda>x. x)) xs)" by (simp only: by_key_le)
  then show ?thesis unfolding sort_dedupe_strings_def by (rule strict_remdups_adj)
qed

lemma set_sort_dedupe [simp]: "set (sort_dedupe_strings xs) = set xs"
  by (simp add: sort_dedupe_strings_def)

lemma set_filter_map [simp]: "set (filter_map f xs) = {y. \<exists>x \<in> set xs. f x = Some y}"
  by (auto simp: filter_map_def split: option.splits)

lemma first_by_locator_fold:
  "map_of (fold (\<lambda>c m. if hm_contains (ui_canonical_locator c) m then m
       else hm_insert (ui_canonical_locator c) c m) cs m) l
    = (case map_of m l of Some c \<Rightarrow> Some c | None \<Rightarrow> find (\<lambda>c. ui_canonical_locator c = l) cs)"
  by (induction cs arbitrary: m) (auto simp: hm_contains_def table_simps split: option.splits)

lemma first_by_locator:
  "map_of (first_unified_chapter_by_canonical_locator cs) l = find (\<lambda>c. ui_canonical_locator c = l) cs"
  by (simp add: first_unified_chapter_by_canonical_locator_def first_by_locator_fold)

lemma first_by_locator_contains:
  "hm_contains l (first_unified_chapter_by_canonical_locator cs) \<longleftrightarrow> l \<in> ui_canonical_locator ` set cs"
proof -
  have "hm_contains l (first_unified_chapter_by_canonical_locator cs)
      \<longleftrightarrow> find (\<lambda>c. ui_canonical_locator c = l) cs \<noteq> None"
    by (simp add: hm_contains_def first_by_locator)
  then show ?thesis unfolding find_None_iff by auto
qed

lemma diff_entry_fields [simp]:
  "de_diff_type (unified_chapter_diff_entry t old new r) = t"
  "de_old_chapter_id (unified_chapter_diff_entry t old new r) = old"
  "de_new_chapter_id (unified_chapter_diff_entry t old new r) = new"
  by (simp_all add: unified_chapter_diff_entry_def)

lemma changed_entries_types:
  "list_all (\<lambda>e. de_diff_type e \<notin> {ChapterAdded, ChapterRemoved, DiffUnchanged}) (changed_entries a c)"
proof -
  have "list_all P (if b then [x] else []) \<longleftrightarrow> (b \<longrightarrow> P x)" for P b and x :: diff_entry by simp
  then show ?thesis by (simp add: changed_entries_def Let_def del: if_split)
qed

lemma members_by_type:
  assumes "\<And>e. e \<in> set A \<Longrightarrow> T e = x" "\<And>e. e \<in> set R \<Longrightarrow> T e = y" "\<And>e. e \<in> set C \<Longrightarrow> T e \<notin> {x, y, z}"
    and "T u = z" "x \<noteq> y" "x \<noteq> z" "y \<noteq> z"
  shows "e \<in> set (if A @ R @ C = [] then [u] else A @ R @ C) \<and> T e = x \<longleftrightarrow> e \<in> set A"
    and "e \<in> set (if A @ R @ C = [] then [u] else A @ R @ C) \<and> T e = y \<longleftrightarrow> e \<in> set R"
proof -
  have "e \<in> set (if A @ R @ C = [] then [u] else A @ R @ C) \<longleftrightarrow>
      e \<in> set A \<or> e \<in> set R \<or> e \<in> set C \<or> (A = [] \<and> R = [] \<and> C = [] \<and> e = u)"
    by auto
  then show "e \<in> set (if A @ R @ C = [] then [u] else A @ R @ C) \<and> T e = x \<longleftrightarrow> e \<in> set A"
    and "e \<in> set (if A @ R @ C = [] then [u] else A @ R @ C) \<and> T e = y \<longleftrightarrow> e \<in> set R"
    using assms(1)[of e] assms(2)[of e] assms(3)[of e] assms(4-7) by blast+
qed

lemma diff_members:
  shows "e \<in> set (diff_unified_chapters old new) \<and> de_diff_type e = ChapterAdded \<longleftrightarrow>
     (\<exists>c \<in> set new. ui_canonical_locator c \<notin> ui_canonical_locator ` set old
        \<and> e = unified_chapter_diff_entry ChapterAdded None (Some (ui_chapter_id c)) ''canonical_locator_new'')"
    and "e \<in> set (diff_unified_chapters old new) \<and> de_diff_type e = ChapterRemoved \<longleftrightarrow>
     (\<exists>c \<in> set old. ui_canonical_locator c \<notin> ui_canonical_locator ` set new
        \<and> e = unified_chapter_diff_entry ChapterRemoved (Some (ui_chapter_id c)) None ''canonical_locator_missing'')"
proof -
  let ?added = "concat (map (\<lambda>c. if \<not> hm_contains (ui_canonical_locator c)
      (first_unified_chapter_by_canonical_locator old)
      then [unified_chapter_diff_entry ChapterAdded None (Some (ui_chapter_id c)) ''canonical_locator_new''] else []) new)"
  let ?removed = "concat (map (\<lambda>c. if \<not> hm_contains (ui_canonical_locator c)
      (first_unified_chapter_by_canonical_locator new)
      then [unified_chapter_diff_entry ChapterRemoved (Some (ui_chapter_id c)) None ''canonical_locator_missing''] else []) old)"
  let ?changed = "concat (map (\<lambda>c. case map_of (first_unified_chapter_by_canonical_locator old) (ui_canonical_locator c) of
      None \<Rightarrow> [] | Some previous \<Rightarrow> changed_entries previous c) new)"
  let ?u = "unified_chapter_diff_entry DiffUnchanged None None ''chapter_identity_stable''"
  have d: "set (diff_unified_chapters old new) = set (if ?added @ ?removed @ ?changed = [] then [?u]
      else ?added @ ?removed @ ?changed)"
    by (simp only: diff_unified_chapters_def Let_def sort_unified_chapter_diff_entries_def set_sort_by)
  have a: "e \<in> set ?added \<longleftrightarrow> (\<exists>c \<in> set new. ui_canonical_locator c \<notin> ui_canonical_locator ` set old
        \<and> e = unified_chapter_diff_entry ChapterAdded None (Some (ui_chapter_id c)) ''canonical_locator_new'')" for e
    unfolding first_by_locator_contains by (auto split: if_splits)
  have r: "e \<in> set ?removed \<longleftrightarrow> (\<exists>c \<in> set old. ui_canonical_locator c \<notin> ui_canonical_locator ` set new
        \<and> e = unified_chapter_diff_entry ChapterRemoved (Some (ui_chapter_id c)) None ''canonical_locator_missing'')" for e
    unfolding first_by_locator_contains by (auto split: if_splits)
  have c: "de_diff_type e \<notin> {ChapterAdded, ChapterRemoved, DiffUnchanged}" if "e \<in> set ?changed" for e
  proof -
    have "\<exists>c \<in> set new. e \<in> set (case map_of (first_unified_chapter_by_canonical_locator old)
        (ui_canonical_locator c) of None \<Rightarrow> [] | Some previous \<Rightarrow> changed_entries previous c)"
      using that by (simp only: set_concat set_map image_image UN_iff)
    then obtain prev c where "e \<in> set (changed_entries prev c)" by (fastforce split: option.splits)
    with changed_entries_types[of prev c] show ?thesis unfolding list_all_iff by blast
  qed
  have at: "de_diff_type e = ChapterAdded" if "e \<in> set ?added" for e
    using that unfolding a by auto
  have rt: "de_diff_type e = ChapterRemoved" if "e \<in> set ?removed" for e
    using that unfolding r by auto
  have ut: "de_diff_type ?u = DiffUnchanged" by simp
  note m = members_by_type[of ?added de_diff_type ChapterAdded ?removed ChapterRemoved ?changed DiffUnchanged ?u e,
      OF at rt c ut]
  show "e \<in> set (diff_unified_chapters old new) \<and> de_diff_type e = ChapterAdded \<longleftrightarrow>
     (\<exists>c \<in> set new. ui_canonical_locator c \<notin> ui_canonical_locator ` set old
        \<and> e = unified_chapter_diff_entry ChapterAdded None (Some (ui_chapter_id c)) ''canonical_locator_new'')"
    unfolding d a[symmetric] by (rule m(1)) simp_all
  show "e \<in> set (diff_unified_chapters old new) \<and> de_diff_type e = ChapterRemoved \<longleftrightarrow>
     (\<exists>c \<in> set old. ui_canonical_locator c \<notin> ui_canonical_locator ` set new
        \<and> e = unified_chapter_diff_entry ChapterRemoved (Some (ui_chapter_id c)) None ''canonical_locator_missing'')"
    unfolding d r[symmetric] by (rule m(2)) simp_all
qed

lemma unique_by_locator_distinct:
  "distinct (map ui_canonical_locator (unique_by_locator seen cs))
    \<and> ui_canonical_locator ` set (unique_by_locator seen cs) \<inter> set seen = {}"
  by (induction seen cs rule: unique_by_locator.induct) auto

lemma find_self:
  "distinct (map ui_canonical_locator cs) \<Longrightarrow> c \<in> set cs \<Longrightarrow>
     find (\<lambda>d. ui_canonical_locator d = ui_canonical_locator c) cs = Some c"
  by (induction cs) (auto simp: image_iff)

lemma changed_entries_self: "changed_entries c c = []"
  by (simp add: changed_entries_def)

lemma diff_same:
  assumes "distinct (map ui_canonical_locator cs)"
  shows "diff_unified_chapters cs cs
    = [unified_chapter_diff_entry DiffUnchanged None None ''chapter_identity_stable'']"
proof -
  have "concat (map (\<lambda>c. case map_of (first_unified_chapter_by_canonical_locator cs) (ui_canonical_locator c) of
      None \<Rightarrow> [] | Some previous \<Rightarrow> changed_entries previous c) cs) = []"
    by (simp add: first_by_locator find_self[OF assms] changed_entries_self)
  moreover have "concat (map (\<lambda>c. if \<not> hm_contains (ui_canonical_locator c)
        (first_unified_chapter_by_canonical_locator cs) then [g c] else []) cs) = []" for g :: "chapter_row \<Rightarrow> diff_entry"
    by (simp add: first_by_locator_contains)
  ultimately show ?thesis
    by (simp add: diff_unified_chapters_def Let_def sort_unified_chapter_diff_entries_def sort_by_def)
qed

text \<open>
  A refresh plan accounts for every chapter: after scoping both indexes to the book and merging
  duplicate locators, the added ids are those of the new rows whose locator is new, the removed ids
  those of the old rows whose locator is gone, every removed or changed chapter loses its cache, the
  id lists are strictly sorted, and refreshing an index with itself plans nothing.
\<close>
theorem refresh_plan_accounts:
  assumes ok: "plan_unified_chapter_index_refresh s b old new prog = Inr r"
  defines "O' \<equiv> ordered_unique_unified_chapters old s b"
    and "N \<equiv> ordered_unique_unified_chapters new s b"
  shows "set (ir_added_chapter_ids r)
      = ui_chapter_id ` {c \<in> set N. ui_canonical_locator c \<notin> ui_canonical_locator ` set O'}
    \<and> set (ir_removed_chapter_ids r)
      = ui_chapter_id ` {c \<in> set O'. ui_canonical_locator c \<notin> ui_canonical_locator ` set N}
    \<and> set (ir_removed_chapter_ids r) \<union> set (ir_changed_chapter_ids r)
      \<subseteq> set (ir_cache_invalidated_chapter_ids r)
    \<and> sorted_wrt (<) (ir_added_chapter_ids r) \<and> sorted_wrt (<) (ir_removed_chapter_ids r)
    \<and> sorted_wrt (<) (ir_changed_chapter_ids r) \<and> sorted_wrt (<) (ir_cache_invalidated_chapter_ids r)
    \<and> (old = new \<longrightarrow> ir_added_chapter_ids r = [] \<and> ir_removed_chapter_ids r = []
        \<and> ir_changed_chapter_ids r = [] \<and> ir_reordered_chapter_ids r = []
        \<and> ir_cache_invalidated_chapter_ids r = [])"
proof -
  let ?d = "diff_unified_chapters O' N"
  have r: "ir_added_chapter_ids r = sort_dedupe_strings (filter_map de_new_chapter_id
        (filter (\<lambda>e. de_diff_type e = ChapterAdded) ?d))"
    "ir_removed_chapter_ids r = sort_dedupe_strings (filter_map de_old_chapter_id
        (filter (\<lambda>e. de_diff_type e = ChapterRemoved) ?d))"
    "ir_changed_chapter_ids r = sort_dedupe_strings (filter_map old_or_new_id
        (filter (\<lambda>e. de_diff_type e \<in> {ChapterTitleChanged, ChapterLocatorChanged,
           ChapterContentLocatorChanged, CanonicalLocatorChanged}) ?d))"
    "ir_reordered_chapter_ids r = sort_dedupe_strings (filter_map de_new_chapter_id
        (filter (\<lambda>e. de_diff_type e = ChapterOrderChanged) ?d))"
    "ir_cache_invalidated_chapter_ids r = sort_dedupe_strings (filter_map old_or_new_id
        (filter (\<lambda>e. de_diff_type e \<noteq> DiffUnchanged) ?d))"
    using ok by (auto simp: plan_unified_chapter_index_refresh_def and_then_eq_Inr Let_def O'_def N_def)
  have "set (ir_added_chapter_ids r) = {i. \<exists>e. (e \<in> set ?d \<and> de_diff_type e = ChapterAdded) \<and> de_new_chapter_id e = Some i}"
    unfolding r set_sort_dedupe set_filter_map set_filter by blast
  also have "\<dots> = ui_chapter_id ` {c \<in> set N. ui_canonical_locator c \<notin> ui_canonical_locator ` set O'}"
    unfolding diff_members by (auto simp: image_iff) (metis diff_entry_fields)
  finally have added: "set (ir_added_chapter_ids r)
      = ui_chapter_id ` {c \<in> set N. ui_canonical_locator c \<notin> ui_canonical_locator ` set O'}" .
  have "set (ir_removed_chapter_ids r) = {i. \<exists>e. (e \<in> set ?d \<and> de_diff_type e = ChapterRemoved) \<and> de_old_chapter_id e = Some i}"
    unfolding r set_sort_dedupe set_filter_map set_filter by blast
  also have "\<dots> = ui_chapter_id ` {c \<in> set O'. ui_canonical_locator c \<notin> ui_canonical_locator ` set N}"
    unfolding diff_members by (auto simp: image_iff) (metis diff_entry_fields)
  finally have removed: "set (ir_removed_chapter_ids r)
      = ui_chapter_id ` {c \<in> set O'. ui_canonical_locator c \<notin> ui_canonical_locator ` set N}" .
  have "set (ir_removed_chapter_ids r) \<subseteq> set (ir_cache_invalidated_chapter_ids r)"
    unfolding r set_sort_dedupe set_filter_map set_filter by (auto simp: old_or_new_id_def)
  moreover have "set (ir_changed_chapter_ids r) \<subseteq> set (ir_cache_invalidated_chapter_ids r)"
    unfolding r set_sort_dedupe set_filter_map set_filter by auto
  ultimately have invalidated: "set (ir_removed_chapter_ids r) \<union> set (ir_changed_chapter_ids r)
      \<subseteq> set (ir_cache_invalidated_chapter_ids r)" by blast
  have same: "ir_added_chapter_ids r = [] \<and> ir_removed_chapter_ids r = [] \<and> ir_changed_chapter_ids r = []
      \<and> ir_reordered_chapter_ids r = [] \<and> ir_cache_invalidated_chapter_ids r = []" if "old = new"
  proof -
    have "?d = [unified_chapter_diff_entry DiffUnchanged None None ''chapter_identity_stable'']"
      using diff_same[of N] unique_by_locator_distinct[of "[]"] that
      by (simp add: O'_def N_def ordered_unique_unified_chapters_def)
    then show ?thesis
      unfolding r by (simp add: unified_chapter_diff_entry_def sort_dedupe_strings_def filter_map_def sort_by_def)
  qed
  have sorted: "sorted_wrt (<) (ir_added_chapter_ids r)" "sorted_wrt (<) (ir_removed_chapter_ids r)"
    "sorted_wrt (<) (ir_changed_chapter_ids r)" "sorted_wrt (<) (ir_cache_invalidated_chapter_ids r)"
    unfolding r by (rule sort_dedupe_strict)+
  show ?thesis using added removed invalidated sorted same by blast
qed

theorem refresh_plan_accounts_witness:
  "\<exists>r. plan_unified_chapter_index_refresh (lit ''s'') (lit ''b'') [sample_chapter (lit ''c1'') 0 (lit ''l1'')]
      [sample_chapter (lit ''c2'') 0 (lit ''l2'')] None = Inr r
    \<and> set (ir_added_chapter_ids r) = {lit ''c2''}"
proof -
  let ?o = "[sample_chapter (lit ''c1'') 0 (lit ''l1'')]" and ?n = "[sample_chapter (lit ''c2'') 0 (lit ''l2'')]"
  have "is_ok (plan_unified_chapter_index_refresh (lit ''s'') (lit ''b'') ?o ?n None)"
    by (simp add: plan_unified_chapter_index_refresh_def sample_index_simps Let_def)
  then obtain r where r: "plan_unified_chapter_index_refresh (lit ''s'') (lit ''b'') ?o ?n None = Inr r"
    by (auto simp: is_ok_iff)
  have "ordered_unique_unified_chapters ?o (lit ''s'') (lit ''b'') = ?o"
    "ordered_unique_unified_chapters ?n (lit ''s'') (lit ''b'') = ?n"
    by (simp_all add: ordered_unique_unified_chapters_def scoped_chapters_def sample_chapter_def sort_by_def)
  moreover have "{c \<in> set ?n. ui_canonical_locator c \<notin> ui_canonical_locator ` set ?o} = set ?n"
    by (auto simp: sample_chapter_def)
  ultimately have "set (ir_added_chapter_ids r) = ui_chapter_id ` set ?n"
    using refresh_plan_accounts[OF r, THEN conjunct1] by metis
  with r show ?thesis by (auto simp: sample_chapter_def)
qed

end
