(* ===== verification/Contract.thy ===== *)
theory Contract
  imports Domain
begin

text \<open>
  The protocol types of \<open>crates/reader-contract/src\<close>: errors (\<open>error.rs\<close>), commands and their
  envelope validation (\<open>command.rs\<close>), events and the assertions their constructors make
  (\<open>event.rs\<close>), host capabilities with their wire names (\<open>host.rs\<close>) and the runtime config
  (\<open>config.rs\<close>). JSON text is parsed by serde, so the model starts from \<open>serde_json::Value\<close>.
\<close>

subsection \<open>Errors\<close>

datatype error_code =
  UnknownMethod | InvalidParams | InvalidProtocolVersion | Cancelled | InvalidMessage | Internal

record core_error =
  err_code :: error_code
  err_message :: ustr
  err_retryable :: bool
  err_details :: json

definition core_error_new :: "error_code \<Rightarrow> ustr \<Rightarrow> bool \<Rightarrow> core_error" where
  "core_error_new code message retryable = \<lparr>err_code = code, err_message = message,
     err_retryable = retryable, err_details = JNull\<rparr>"

definition with_details :: "core_error \<Rightarrow> json \<Rightarrow> core_error" where
  "with_details e details = e\<lparr>err_details := details\<rparr>"

definition json_u64 :: "u64 \<Rightarrow> json" where
  "json_u64 n = JNum (PosInt n)"

definition unknown_method :: "ustr \<Rightarrow> core_error" where
  "unknown_method m = core_error_new UnknownMethod (lit ''unknown method: '' @ m) False"

definition invalid_message :: "ustr \<Rightarrow> core_error" where
  "invalid_message m = core_error_new InvalidMessage m False"

definition invalid_params :: "ustr \<Rightarrow> core_error" where
  "invalid_params m = core_error_new InvalidParams m False"

definition invalid_protocol_version :: "u32 \<Rightarrow> core_error" where
  "invalid_protocol_version v = core_error_new InvalidProtocolVersion
     (lit ''unsupported protocolVersion: '' @ decimal (unat v)) False"

definition cancelled_error :: core_error where
  "cancelled_error = core_error_new Cancelled (lit ''request cancelled'') False"

definition host_operation_not_found :: "u64 \<Rightarrow> core_error" where
  "host_operation_not_found op = with_details (core_error_new InvalidParams
     (lit ''unknown host operationId: '' @ decimal (unat op)) False)
     (JObj [(lit ''operationId'', json_u64 op)])"

definition internal_error :: "ustr \<Rightarrow> core_error" where
  "internal_error m = core_error_new Internal m True"

lemma error_codes [simp]:
  "err_code (with_details e d) = err_code e" "err_code (invalid_params m) = InvalidParams"
  "err_code (invalid_message m) = InvalidMessage" "err_code (internal_error m) = Internal"
  "err_code cancelled_error = Cancelled" "err_code (unknown_method m) = UnknownMethod"
  "err_code (invalid_protocol_version v) = InvalidProtocolVersion"
  "err_code (host_operation_not_found op) = InvalidParams"
  by (simp_all add: with_details_def core_error_new_def invalid_params_def invalid_message_def
      internal_error_def cancelled_error_def unknown_method_def invalid_protocol_version_def
      host_operation_not_found_def del: lit_simps)

subsection \<open>Commands\<close>

definition protocol_version :: u32 where
  "protocol_version = 1"

fun is_object :: "json \<Rightarrow> bool" where
  "is_object (JObj _) = True"
| "is_object _ = False"

record command =
  cmd_protocol_version :: u32
  cmd_request_id :: u64
  cmd_method :: ustr
  cmd_params :: json

definition new_command :: "u64 \<Rightarrow> ustr \<Rightarrow> json \<Rightarrow> command" where
  "new_command request_id method params = \<lparr>cmd_protocol_version = protocol_version,
     cmd_request_id = request_id, cmd_method = method, cmd_params = params\<rparr>"

definition is_valid_token_path :: "ustr \<Rightarrow> bool" where
  "is_valid_token_path value =
     (if list_ex is_whitespace value \<or> \<not> (of_char (CHR ''.'') \<in> set value) then False
      else list_all (\<lambda>segment. segment \<noteq> []) (split_on (\<lambda>c. c = of_char (CHR ''.'')) value))"

definition validate_command :: "command \<Rightarrow> core_error + unit" where
  "validate_command c = checks
     [ensure (cmd_protocol_version c = protocol_version) (invalid_protocol_version (cmd_protocol_version c)),
      ensure (cmd_request_id c \<noteq> 0) (invalid_message (lit ''command requestId must be greater than 0'')),
      ensure (\<not> blank (cmd_method c)) (invalid_message (lit ''command method must be a non-empty string'')),
      ensure (is_valid_token_path (cmd_method c)) (with_details
        (invalid_message (lit ''command method must be dot-separated non-empty tokens without whitespace''))
        (JObj [(lit ''method'', JStr (cmd_method c))])),
      ensure (is_object (cmd_params c)) (with_details
        (invalid_params (lit ''command params must be a JSON object''))
        (JObj [(lit ''method'', JStr (cmd_method c))]))]"

subsection \<open>Host capabilities\<close>

datatype host_capability =
    HostSmokeEcho | HttpExecute | CookieGet | CookieSet | WebViewEvaluateJavaScript | FileRead
  | FileWrite | CacheGet | CachePut | LogEmit | TimeNow | SystemInfo | PersistenceGet | PersistencePut

definition all_capabilities :: "host_capability list" where
  "all_capabilities = [HostSmokeEcho, HttpExecute, CookieGet, CookieSet, WebViewEvaluateJavaScript,
     FileRead, FileWrite, CacheGet, CachePut, LogEmit, TimeNow, SystemInfo, PersistenceGet, PersistencePut]"

fun capability_as_str :: "host_capability \<Rightarrow> ustr" where
  "capability_as_str HostSmokeEcho = lit ''host.smoke.echo''"
| "capability_as_str HttpExecute = lit ''http.execute''"
| "capability_as_str CookieGet = lit ''cookie.get''"
| "capability_as_str CookieSet = lit ''cookie.set''"
| "capability_as_str WebViewEvaluateJavaScript = lit ''webview.evaluateJavaScript''"
| "capability_as_str FileRead = lit ''file.read''"
| "capability_as_str FileWrite = lit ''file.write''"
| "capability_as_str CacheGet = lit ''cache.get''"
| "capability_as_str CachePut = lit ''cache.put''"
| "capability_as_str LogEmit = lit ''log.emit''"
| "capability_as_str TimeNow = lit ''time.now''"
| "capability_as_str SystemInfo = lit ''system.info''"
| "capability_as_str PersistenceGet = lit ''persistence.get''"
| "capability_as_str PersistencePut = lit ''persistence.put''"

record capability_parse_error =
  cpe_value :: ustr
  cpe_reason :: ustr

definition parse_capability :: "ustr \<Rightarrow> capability_parse_error + host_capability" where
  "parse_capability value =
     (if \<not> is_valid_token_path value
      then Inl \<lparr>cpe_value = value, cpe_reason = lit ''must be dot-separated non-empty tokens without whitespace''\<rparr>
      else case map_of [(lit ''host.smoke.echo'', HostSmokeEcho), (lit ''http.execute'', HttpExecute),
          (lit ''cookie.get'', CookieGet), (lit ''cookie.set'', CookieSet),
          (lit ''webview.evaluateJavaScript'', WebViewEvaluateJavaScript), (lit ''file.read'', FileRead),
          (lit ''file.write'', FileWrite), (lit ''cache.get'', CacheGet), (lit ''cache.put'', CachePut),
          (lit ''log.emit'', LogEmit), (lit ''time.now'', TimeNow), (lit ''system.info'', SystemInfo),
          (lit ''persistence.get'', PersistenceGet), (lit ''persistence.put'', PersistencePut)] value of
        Some c \<Rightarrow> Inr c
      | None \<Rightarrow> Inl \<lparr>cpe_value = value, cpe_reason = lit ''is not in the Core host capability contract''\<rparr>)"

text \<open>\<open>HostCapability\<close> derives \<open>Ord\<close>: the order of the variants in the enum.\<close>

definition capability_index :: "host_capability \<Rightarrow> nat" where
  "capability_index c = length (takeWhile (\<lambda>d. d \<noteq> c) all_capabilities)"

lemma capability_nth: "all_capabilities ! capability_index c = c"
  by (cases c) (simp_all add: capability_index_def all_capabilities_def)

instantiation host_capability :: linorder
begin

definition less_eq_host_capability :: "host_capability \<Rightarrow> host_capability \<Rightarrow> bool" where
  "less_eq_host_capability a b = (capability_index a \<le> capability_index b)"

definition less_host_capability :: "host_capability \<Rightarrow> host_capability \<Rightarrow> bool" where
  "less_host_capability a b = (capability_index a < capability_index b)"

instance
proof
  fix a b c :: host_capability
  show "(a < b) = (a \<le> b \<and> \<not> b \<le> a)"
    unfolding less_eq_host_capability_def less_host_capability_def by linarith
  show "a \<le> a" unfolding less_eq_host_capability_def by (rule le_refl)
  show "a \<le> c" if "a \<le> b" "b \<le> c"
    using that unfolding less_eq_host_capability_def by linarith
  show "a \<le> b \<or> b \<le> a" unfolding less_eq_host_capability_def by linarith
  show "a = b" if "a \<le> b" "b \<le> a"
  proof -
    have "capability_index a = capability_index b"
      using that unfolding less_eq_host_capability_def by linarith
    then show ?thesis by (metis capability_nth)
  qed
qed

end

subsection \<open>Events\<close>

datatype event =
    EvResult u64 json
  | EvError u64 core_error
  | EvHostRequest u64 u64 host_capability json

fun event_request :: "event \<Rightarrow> u64" where
  "event_request (EvResult r _) = r"
| "event_request (EvError r _) = r"
| "event_request (EvHostRequest r _ _ _) = r"

fun terminal :: "event \<Rightarrow> bool" where
  \<comment> \<open>a result or an error ends its request; a host request does not\<close>
  "terminal (EvHostRequest _ _ _ _) = False"
| "terminal _ = True"

fun event_assertions :: "event \<Rightarrow> bool" where
  \<comment> \<open>what \<open>assert_positive_id\<close> and \<open>assert_object_payload\<close> check when the event is built\<close>
  "event_assertions (EvResult r data) = (r > 0 \<and> is_object data)"
| "event_assertions (EvError r e) = True"
| "event_assertions (EvHostRequest r op c params) = (r > 0 \<and> op > 0 \<and> is_object params)"

subsection \<open>Runtime configuration\<close>

record runtime_config =
  cfg_data_directory :: "ustr option"
  cfg_cache_directory :: "ustr option"

definition validate_optional_directory :: "ustr \<Rightarrow> ustr option \<Rightarrow> core_error + unit" where
  "validate_optional_directory field value = (case value of
     Some path \<Rightarrow> ensure (\<not> blank path) (with_details
       (invalid_params (field @ lit '' must not be empty'')) (JObj [(lit ''field'', JStr field)]))
   | None \<Rightarrow> Inr ())"

definition validate_runtime_config :: "runtime_config \<Rightarrow> core_error + unit" where
  "validate_runtime_config c = checks
     [validate_optional_directory (lit ''dataDirectory'') (cfg_data_directory c),
      validate_optional_directory (lit ''cacheDirectory'') (cfg_cache_directory c)]"

definition core_info :: "ustr list \<Rightarrow> u32 \<Rightarrow> ustr \<Rightarrow> json" where
  \<comment> \<open>the first argument is \<open>V1_CAPABILITIES\<close>\<close>
  "core_info capabilities abi_version build_version = JObj
     [(lit ''abiVersion'', JNum (PosInt (ucast abi_version))),
      (lit ''protocolVersion'', JNum (PosInt (ucast protocol_version))),
      (lit ''buildVersion'', JStr build_version),
      (lit ''capabilities'', JArr (map JStr capabilities))]"

subsection \<open>Properties\<close>

definition token_segments :: "ustr list \<Rightarrow> bool" where
  \<comment> \<open>at least two non-empty segments without blanks and dots\<close>
  "token_segments segs = (2 \<le> length segs \<and> (\<forall>s \<in> set segs. s \<noteq> [] \<and> plain {46} s))"

lemma dot_code: "of_char (CHR ''.'') = (46 :: nat)"
  by simp

lemma valid_token_path_iff: "is_valid_token_path v \<longleftrightarrow> (\<exists>segs. token_segments segs \<and> v = join [46] segs)"
proof
  assume v: "is_valid_token_path v"
  let ?segs = "split_on (\<lambda>c. c = 46) v"
  have ws: "\<not> list_ex is_whitespace v" and dot: "46 \<in> set v" and ne: "list_all (\<lambda>s. s \<noteq> []) ?segs"
    using v by (auto simp: is_valid_token_path_def split: if_splits)
  have "filter (\<lambda>c. c = 46) v \<noteq> []" using dot by (auto simp: filter_empty_conv)
  then have "2 \<le> length ?segs"
    by (cases "filter (\<lambda>c. c = 46) v") (simp_all add: length_split_on)
  moreover have "s \<noteq> [] \<and> plain {46} s" if "s \<in> set ?segs" for s
    using that ne ws split_on_avoids[OF that] by (auto simp: plain_def list_all_iff list_ex_iff)
  ultimately have "token_segments ?segs" by (simp add: token_segments_def)
  moreover have "v = join [46] ?segs" by (simp add: join_split)
  ultimately show "\<exists>segs. token_segments segs \<and> v = join [46] segs" by blast
next
  assume "\<exists>segs. token_segments segs \<and> v = join [46] segs"
  then obtain segs where segs: "token_segments segs" and v: "v = join [46] segs" by blast
  have len: "2 \<le> length segs" and each: "\<And>s. s \<in> set segs \<Longrightarrow> s \<noteq> [] \<and> plain {46} s"
    using segs by (auto simp: token_segments_def)
  have split: "split_on (\<lambda>c. c = 46) v = segs"
    unfolding v by (rule split_join) (use each len in \<open>auto dest: plain_avoids\<close>)
  have "Suc (length (filter (\<lambda>c. c = 46) v)) = length segs"
    using length_split_on[of "\<lambda>c. c = 46" v] by (simp add: split)
  with len have "filter (\<lambda>c. c = 46) v \<noteq> []" by auto
  then have "46 \<in> set v" by (auto simp: filter_empty_conv)
  moreover have "plain {} v"
    unfolding v by (rule plain_join) (use each in \<open>auto intro: plain_mono simp: plain_def is_whitespace_def\<close>)
  ultimately show "is_valid_token_path v"
    using each by (auto simp: is_valid_token_path_def split plain_def list_ex_iff list_all_iff)
qed

lemma token_path_not_blank: "is_valid_token_path v \<Longrightarrow> \<not> blank v"
  by (auto simp: is_valid_token_path_def blank_iff list_ex_iff split: if_splits)

text \<open>
  The command envelope accepts exactly protocol version 1 with a positive request id, an object
  as parameters and a method of at least two dot-separated non-empty segments without blanks; a
  rejected command is told the first thing wrong with it: the version, the message shape, then the
  parameters.
\<close>
theorem command_envelope_exact:
  "(validate_command c = Inr () \<longleftrightarrow> cmd_protocol_version c = protocol_version \<and> cmd_request_id c \<noteq> 0
      \<and> (\<exists>segs. token_segments segs \<and> cmd_method c = join [46] segs) \<and> is_object (cmd_params c))
    \<and> (\<forall>e. validate_command c = Inl e \<longrightarrow> err_code e =
        (if cmd_protocol_version c \<noteq> protocol_version then InvalidProtocolVersion
         else if cmd_request_id c = 0 \<or> \<not> (\<exists>segs. token_segments segs \<and> cmd_method c = join [46] segs)
         then InvalidMessage else InvalidParams))"
  unfolding valid_token_path_iff[symmetric] validate_command_def
  by (auto simp del: lit_simps simp: token_path_not_blank)

theorem command_envelope_exact_witness:
  "validate_command (new_command 7 (lit ''runtime.ping'') (JObj [])) = Inr ()"
proof -
  let ?c = "new_command 7 (lit ''runtime.ping'') (JObj [])"
  have "token_segments [lit ''runtime'', lit ''ping'']" "cmd_method ?c = join [46] [lit ''runtime'', lit ''ping'']"
    by (simp_all add: token_segments_def plain_def is_whitespace_def new_command_def)
  then have "\<exists>segs. token_segments segs \<and> cmd_method ?c = join [46] segs" by blast
  then show ?thesis
    using command_envelope_exact[of ?c] by (simp add: new_command_def del: lit_simps)
qed

lemma capability_token_path: "is_valid_token_path (capability_as_str c)"
  by (cases c) (simp_all add: is_valid_token_path_def is_whitespace_def)

text \<open>
  The wire names of host capabilities round-trip: parsing accepts exactly the name of a
  capability and returns it, so the names are distinct; an unknown name is echoed in the error,
  with the reason telling malformed names from unsupported ones; and no capability is missing from
  the advertised list, which is in declaration order.
\<close>
theorem capability_names_roundtrip:
  "(parse_capability v = Inr c \<longleftrightarrow> v = capability_as_str c)
    \<and> (\<forall>e. parse_capability v = Inl e \<longrightarrow> cpe_value e = v \<and>
        (cpe_reason e = lit ''is not in the Core host capability contract'' \<longleftrightarrow> is_valid_token_path v))
    \<and> set all_capabilities = UNIV \<and> sorted_wrt (<) all_capabilities"
proof (intro conjI allI impI)
  show "parse_capability v = Inr c \<longleftrightarrow> v = capability_as_str c"
  proof
    assume "parse_capability v = Inr c"
    then show "v = capability_as_str c"
      by (auto simp: parse_capability_def simp del: lit_simps split: if_splits option.splits)
  next
    assume v: "v = capability_as_str c"
    show "parse_capability v = Inr c"
      unfolding v using capability_token_path[of c] by (cases c) (simp_all add: parse_capability_def)
  qed
  show "set all_capabilities = UNIV"
  proof -
    have "c \<in> set all_capabilities" for c by (cases c) (simp_all add: all_capabilities_def)
    then show ?thesis by blast
  qed
  show "sorted_wrt (<) all_capabilities"
    by (simp add: all_capabilities_def less_host_capability_def capability_index_def)
next
  fix e assume e: "parse_capability v = Inl e"
  show "cpe_value e = v"
    using e by (auto simp: parse_capability_def simp del: lit_simps split: if_splits option.splits)
  show "cpe_reason e = lit ''is not in the Core host capability contract'' \<longleftrightarrow> is_valid_token_path v"
    using e by (auto simp: parse_capability_def split: if_splits option.splits)
qed

theorem capability_names_roundtrip_witness:
  "parse_capability (lit ''file.read'') = Inr FileRead
    \<and> (\<exists>e. parse_capability (lit ''host.reboot'') = Inl e \<and> cpe_value e = lit ''host.reboot''
        \<and> cpe_reason e = lit ''is not in the Core host capability contract'')"
proof
  show "parse_capability (lit ''file.read'') = Inr FileRead"
    using capability_names_roundtrip[of "lit ''file.read''" FileRead] by (simp del: lit_simps)
  have "\<not> is_ok (parse_capability (lit ''host.reboot''))"
    by (simp add: parse_capability_def is_valid_token_path_def is_whitespace_def)
  then obtain e where e: "parse_capability (lit ''host.reboot'') = Inl e"
    by (cases "parse_capability (lit ''host.reboot'')") (auto simp del: lit_simps)
  have "is_valid_token_path (lit ''host.reboot'')"
    by (simp add: is_valid_token_path_def is_whitespace_def)
  with e capability_names_roundtrip[of "lit ''host.reboot''" FileRead]
  show "\<exists>e. parse_capability (lit ''host.reboot'') = Inl e \<and> cpe_value e = lit ''host.reboot''
      \<and> cpe_reason e = lit ''is not in the Core host capability contract''"
    by (auto simp del: lit_simps)
qed

end
