(* ===== verification/Tts.thy ===== *)
theory Tts
  imports Contract
begin

text \<open>
  Read-aloud: the text slicer and the per-chapter playback queue of
  \<open>crates/reader-runtime/src/tts.rs\<close>, with the types of \<open>crates/reader-contract/src/tts.rs\<close>.
  Character offsets are the source's \<open>u32\<close> words. The decoders and encoders that serde derives are
  the fields of \<open>tts_codec\<close>, a parameter of the dispatcher; a poisoned mutex is not modelled.
\<close>

subsection \<open>Types\<close>

record tts_chapter =
  tc_source_id :: ustr
  tc_book_id :: ustr
  tc_chapter_index :: u32
  tc_chapter_title :: ustr
  tc_chapter_url :: ustr

datatype slicing_strategy = Paragraph | Sentence | ParagraphThenSentence | LineBreak

record tts_slice =
  sl_index :: u32
  sl_text :: ustr
  sl_char_start :: u32
  sl_char_end :: u32
  sl_paragraph_index :: u32

record slice_plan =
  sp_chapter :: tts_chapter
  sp_strategy :: slicing_strategy
  sp_slices :: "tts_slice list"
  sp_source_char_count :: u32

datatype queue_state = Idle | Playing | Paused | Completed | Stopped

datatype slice_status = SlicePending | SliceSpeaking | SliceDone | SliceSkipped | SliceFailed

record queue_snapshot =
  qs_state :: queue_state
  qs_current_slice_index :: "u32 option"
  qs_total_slices :: u32
  qs_completed_slices :: u32
  qs_chapter :: tts_chapter
  qs_slice_statuses :: "slice_status list"

datatype drain_behavior = StopOnBoundary | AdvanceToNext

record chapter_transition =
  ct_current :: tts_chapter
  ct_next :: "tts_chapter option"
  ct_drain_behavior :: drain_behavior

subsection \<open>Slicing text\<close>

record text_line =
  ln_chars :: ustr
  ln_start :: u32

type_synonym segment = "ustr \<times> u32 \<times> u32 \<times> u32"

fun split_lines_from :: "nat \<Rightarrow> ustr \<Rightarrow> u32 \<Rightarrow> ustr \<Rightarrow> text_line list" where
  "split_lines_from i current start [] = [\<lparr>ln_chars = current, ln_start = start\<rparr>]"
| "split_lines_from i current start (c # cs) =
     (if c = 10 then \<lparr>ln_chars = current, ln_start = start\<rparr> # split_lines_from (i + 1) [] (of_nat (i + 1)) cs
      else split_lines_from (i + 1) (current @ [c]) start cs)"

definition split_lines :: "ustr \<Rightarrow> text_line list" where
  "split_lines chars = split_lines_from 0 [] 0 chars"

definition is_blank :: "ustr \<Rightarrow> bool" where
  "is_blank chars = list_all is_whitespace chars"

definition trim_segment :: "ustr \<Rightarrow> u32 \<Rightarrow> ustr \<times> u32 \<times> u32" where
  "trim_segment chars line_start = (
     let leading = length (takeWhile is_whitespace chars);
         trailing = length (takeWhile is_whitespace (rev chars));
         len = length chars - (leading + trailing);
         char_start = line_start + of_nat leading
     in (take len (drop leading chars), char_start, char_start + of_nat len))"

definition is_sentence_terminal :: "nat \<Rightarrow> bool" where
  "is_sentence_terminal c = (c \<in> set [0x3002, 0xFF01, 0xFF1F, 46, 33, 63])"

fun slice_line_break_from :: "u32 \<Rightarrow> text_line list \<Rightarrow> segment list" where
  "slice_line_break_from paragraph_index [] = []"
| "slice_line_break_from paragraph_index (line # ls) =
     (if is_blank (ln_chars line) then slice_line_break_from paragraph_index ls
      else let (text, char_start, char_end) = trim_segment (ln_chars line) (ln_start line)
        in if text \<noteq> [] then (text, char_start, char_end, paragraph_index)
             # slice_line_break_from (paragraph_index + 1) ls
           else slice_line_break_from paragraph_index ls)"

definition slice_line_break :: "ustr \<Rightarrow> segment list" where
  "slice_line_break chars = slice_line_break_from 0 (split_lines chars)"

definition blank_line :: "text_line \<Rightarrow> bool" where
  "blank_line l = is_blank (ln_chars l)"

function slice_paragraph_from :: "u32 \<Rightarrow> text_line list \<Rightarrow> segment list" where
  "slice_paragraph_from paragraph_index lines =
     (case dropWhile blank_line lines of
        [] \<Rightarrow> []
      | first # others \<Rightarrow>
          let para_lines = first # takeWhile (\<lambda>l. \<not> blank_line l) others;
              rest = dropWhile (\<lambda>l. \<not> blank_line l) others;
              text = trim (join [10] (map (\<lambda>l. trim (ln_chars l)) para_lines));
              (_, char_start, char_end) = trim_segment (ln_chars first) (ln_start first)
          in if text = [] then slice_paragraph_from paragraph_index rest
             else (text, char_start, char_end, paragraph_index)
               # slice_paragraph_from (paragraph_index + 1) rest)"
  by pat_completeness auto

lemma paragraph_rest_shorter:
  "dropWhile blank_line lines = first # others \<Longrightarrow>
     length (dropWhile (\<lambda>l. \<not> blank_line l) others) < length lines"
  using length_dropWhile_le[of blank_line lines] length_dropWhile_le[of "\<lambda>l. \<not> blank_line l" others]
  by simp

termination slice_paragraph_from
  by (relation "measure (\<lambda>(_, lines). length lines)") (simp_all add: paragraph_rest_shorter)

declare slice_paragraph_from.simps [simp del]

definition slice_paragraph :: "ustr \<Rightarrow> segment list" where
  "slice_paragraph chars = slice_paragraph_from 0 (split_lines chars)"

fun slice_sentence_from :: "nat \<Rightarrow> ustr \<Rightarrow> u32 \<Rightarrow> ustr \<Rightarrow> segment list" where
  "slice_sentence_from i current current_start [] =
     (let (text, char_start, char_end) = trim_segment current current_start
      in if text \<noteq> [] then [(text, char_start, char_end, 0)] else [])"
| "slice_sentence_from i current current_start (c # cs) =
     (let current' = current @ [c]
      in if is_sentence_terminal c
         then (let (text, char_start, char_end) = trim_segment current' current_start
               in if text \<noteq> [] then [(text, char_start, char_end, 0)] else [])
              @ slice_sentence_from (i + 1) [] (of_nat (i + 1)) cs
         else slice_sentence_from (i + 1) current' current_start cs)"

definition slice_sentence :: "ustr \<Rightarrow> segment list" where
  "slice_sentence chars = slice_sentence_from 0 [] 0 chars"

function slice_sentences_of :: "u32 \<Rightarrow> text_line list \<Rightarrow> segment list" where
  "slice_sentences_of paragraph_index lines =
     (case dropWhile blank_line lines of
        [] \<Rightarrow> []
      | first # others \<Rightarrow>
          let para_chars = fold (\<lambda>l chars. (if chars = [] then [] else chars @ [10]) @ ln_chars l)
                (first # takeWhile (\<lambda>l. \<not> blank_line l) others) [];
              rest = dropWhile (\<lambda>l. \<not> blank_line l) others
          in map (\<lambda>(text, rel_start, rel_end, _).
                 (text, ln_start first + rel_start, ln_start first + rel_end, paragraph_index))
               (slice_sentence para_chars)
             @ slice_sentences_of (paragraph_index + 1) rest)"
  by pat_completeness auto

termination slice_sentences_of
  by (relation "measure (\<lambda>(_, lines). length lines)") (simp_all add: paragraph_rest_shorter)

declare slice_sentences_of.simps [simp del]

definition slice_paragraph_then_sentence :: "ustr \<Rightarrow> segment list" where
  "slice_paragraph_then_sentence chars = slice_sentences_of 0 (split_lines chars)"

fun slice_segments :: "slicing_strategy \<Rightarrow> ustr \<Rightarrow> segment list" where
  "slice_segments LineBreak chars = slice_line_break chars"
| "slice_segments Paragraph chars = slice_paragraph chars"
| "slice_segments Sentence chars = slice_sentence chars"
| "slice_segments ParagraphThenSentence chars = slice_paragraph_then_sentence chars"

definition slice_chapter :: "tts_chapter \<Rightarrow> ustr \<Rightarrow> slicing_strategy \<Rightarrow> slice_plan" where
  "slice_chapter chapter content strategy = \<lparr>sp_chapter = chapter, sp_strategy = strategy,
     sp_slices = map (\<lambda>(i, (text, char_start, char_end, paragraph_index)).
         \<lparr>sl_index = of_nat i, sl_text = text, sl_char_start = char_start, sl_char_end = char_end,
          sl_paragraph_index = paragraph_index\<rparr>)
       (enumerate 0 (slice_segments strategy content)),
     sp_source_char_count = of_nat (length content)\<rparr>"

definition chapter_transition_for :: "tts_chapter \<Rightarrow> drain_behavior \<Rightarrow> chapter_transition" where
  "chapter_transition_for chapter behavior
     = \<lparr>ct_current = chapter, ct_next = None, ct_drain_behavior = behavior\<rparr>"

subsection \<open>The playback queue\<close>

type_synonym chapter_key = "ustr \<times> ustr \<times> u32"

definition chapter_key_of :: "tts_chapter \<Rightarrow> chapter_key" where
  "chapter_key_of ch = (tc_source_id ch, tc_book_id ch, tc_chapter_index ch)"

record queue_entry =
  qe_state :: queue_state
  qe_current_slice_index :: u32
  qe_slice_statuses :: "slice_status list"
  qe_plan :: slice_plan

type_synonym tts_state = "(chapter_key, queue_entry) hmap"

definition entry_snapshot :: "queue_entry \<Rightarrow> queue_snapshot" where
  "entry_snapshot e = \<lparr>qs_state = qe_state e, qs_current_slice_index = Some (qe_current_slice_index e),
     qs_total_slices = of_nat (length (sp_slices (qe_plan e))),
     qs_completed_slices = of_nat (length (filter (\<lambda>s. s \<in> {SliceDone, SliceFailed, SliceSkipped})
        (qe_slice_statuses e))),
     qs_chapter = sp_chapter (qe_plan e), qs_slice_statuses = qe_slice_statuses e\<rparr>"

definition snapshot_for :: "tts_state \<Rightarrow> tts_chapter \<Rightarrow> queue_snapshot" where
  "snapshot_for queues chapter = (case map_of queues (chapter_key_of chapter) of
     Some e \<Rightarrow> entry_snapshot e
   | None \<Rightarrow> \<lparr>qs_state = Idle, qs_current_slice_index = None, qs_total_slices = 0,
       qs_completed_slices = 0, qs_chapter = chapter, qs_slice_statuses = []\<rparr>)"

fun state_as_str :: "queue_state \<Rightarrow> ustr" where
  "state_as_str Idle = lit ''idle''"
| "state_as_str Playing = lit ''playing''"
| "state_as_str Paused = lit ''paused''"
| "state_as_str Completed = lit ''completed''"
| "state_as_str Stopped = lit ''stopped''"

fun state_debug :: "queue_state \<Rightarrow> ustr" where
  \<comment> \<open>\<open>{current:?}\<close>\<close>
  "state_debug Idle = lit ''Idle''"
| "state_debug Playing = lit ''Playing''"
| "state_debug Paused = lit ''Paused''"
| "state_debug Completed = lit ''Completed''"
| "state_debug Stopped = lit ''Stopped''"

definition state_error :: "string \<Rightarrow> queue_state \<Rightarrow> core_error" where
  "state_error action current = with_details (invalid_params
     (lit ''tts.queue.'' @ lit action @ lit '' rejected: invalid state transition from '' @ state_debug current))
     (JObj [(lit ''action'', JStr (lit action)), (lit ''currentState'', JStr (state_as_str current))])"

definition queue_play ::
    "slice_plan \<Rightarrow> u32 \<Rightarrow> tts_state \<Rightarrow> (core_error + queue_snapshot) \<times> tts_state" where
  "queue_play plan start_slice_index queues = (
     let total = of_nat (length (sp_slices plan)); action = (lit ''action'', JStr (lit ''play''))
     in if total = 0 then (Inl (with_details
            (invalid_params (lit ''tts.queue.play requires a non-empty slice plan'')) (JObj [action])), queues)
        else if start_slice_index \<ge> total then (Inl (with_details
            (invalid_params (lit ''tts.queue.play startSliceIndex out of range''))
            (JObj [action, (lit ''startSliceIndex'', JNum (PosInt (ucast start_slice_index))),
               (lit ''totalSlices'', JNum (PosInt (ucast total)))])), queues)
        else let key = chapter_key_of (sp_chapter plan)
          in case map_of queues key of
               Some existing \<Rightarrow> (if qe_state existing \<in> {Playing, Paused}
                 then (Inl (with_details (invalid_params
                     (lit ''tts.queue.play rejected: queue already active, use pause/resume''))
                     (JObj [action, (lit ''currentState'', JStr (state_as_str (qe_state existing)))])), queues)
                 else let entry = \<lparr>qe_state = Playing, qe_current_slice_index = start_slice_index,
                        qe_slice_statuses = (replicate (length (sp_slices plan)) SlicePending)
                          [unat start_slice_index := SliceSpeaking], qe_plan = plan\<rparr>
                   in (Inr (entry_snapshot entry), hm_insert key entry queues))
             | None \<Rightarrow> let entry = \<lparr>qe_state = Playing, qe_current_slice_index = start_slice_index,
                        qe_slice_statuses = (replicate (length (sp_slices plan)) SlicePending)
                          [unat start_slice_index := SliceSpeaking], qe_plan = plan\<rparr>
                   in (Inr (entry_snapshot entry), hm_insert key entry queues))"

definition queue_transition ::
    "(tts_chapter \<Rightarrow> json) \<Rightarrow> tts_chapter \<Rightarrow> string \<Rightarrow> (queue_entry \<Rightarrow> core_error + queue_entry)
      \<Rightarrow> tts_state \<Rightarrow> (core_error + queue_snapshot) \<times> tts_state" where
  \<comment> \<open>the first argument encodes a chapter reference for the error details\<close>
  "queue_transition enc chapter action f queues = (
     let key = chapter_key_of chapter
     in case map_of queues key of
          None \<Rightarrow> (Inl (with_details
            (invalid_params (lit ''tts queue control rejected: no queue loaded for chapter''))
            (JObj [(lit ''action'', JStr (lit action)), (lit ''chapter'', enc chapter)])), queues)
        | Some entry \<Rightarrow> (case f entry of
            Inl e \<Rightarrow> (Inl e, queues)
          | Inr entry' \<Rightarrow> (Inr (entry_snapshot entry'), hm_modify key (\<lambda>_. entry') queues)))"

definition pause_entry :: "queue_entry \<Rightarrow> core_error + queue_entry" where
  "pause_entry e = (if qe_state e \<noteq> Playing then Inl (state_error ''pause'' (qe_state e))
     else Inr (e\<lparr>qe_state := Paused\<rparr>))"

definition resume_entry :: "queue_entry \<Rightarrow> core_error + queue_entry" where
  "resume_entry e = (if qe_state e \<noteq> Paused then Inl (state_error ''resume'' (qe_state e))
     else Inr (e\<lparr>qe_state := Playing\<rparr>))"

definition stop_entry :: "queue_entry \<Rightarrow> core_error + queue_entry" where
  "stop_entry e = (if qe_state e \<in> {Stopped, Completed} then Inl (state_error ''stop'' (qe_state e))
     else Inr (e\<lparr>qe_state := Stopped\<rparr>))"

definition next_entry :: "queue_entry \<Rightarrow> core_error + queue_entry" where
  "next_entry e = (
     if qe_state e \<notin> {Playing, Paused} then Inl (state_error ''next'' (qe_state e))
     else let last_index = of_nat (length (sp_slices (qe_plan e)) - 1); cur = qe_current_slice_index e;
              statuses = (qe_slice_statuses e)[unat cur := SliceDone]
       in if cur \<ge> last_index then Inr (e\<lparr>qe_slice_statuses := statuses, qe_state := Completed\<rparr>)
          else Inr (e\<lparr>qe_slice_statuses := statuses[unat (cur + 1) := SliceSpeaking],
                      qe_current_slice_index := cur + 1\<rparr>))"

definition prev_entry :: "queue_entry \<Rightarrow> core_error + queue_entry" where
  "prev_entry e = (
     if qe_state e \<notin> {Playing, Paused} then Inl (state_error ''prev'' (qe_state e))
     else if qe_current_slice_index e = 0 then Inl (with_details
       (invalid_params (lit ''tts.queue.prev rejected: already at first slice''))
       (JObj [(lit ''action'', JStr (lit ''prev'')), (lit ''currentState'', JStr (state_as_str (qe_state e))),
          (lit ''currentSliceIndex'', JNum (PosInt (ucast (qe_current_slice_index e))))]))
     else let cur = qe_current_slice_index e;
              statuses = (qe_slice_statuses e)[unat cur := SlicePending]
       in Inr (e\<lparr>qe_slice_statuses := statuses[unat (cur - 1) := SliceSpeaking],
                 qe_current_slice_index := cur - 1\<rparr>))"

subsection \<open>Dispatch of the tts.* methods\<close>

record tts_codec =
  dec_slice_params :: "json \<Rightarrow> ustr + (tts_chapter \<times> ustr \<times> slicing_strategy)"
  dec_chapter_params :: "string \<Rightarrow> json \<Rightarrow> ustr + tts_chapter"  \<comment> \<open>one struct per method, all with the field chapter only\<close>
  dec_chapter_plan_params :: "json \<Rightarrow> ustr + (tts_chapter \<times> drain_behavior)"
  dec_play_params :: "json \<Rightarrow> ustr + (slice_plan \<times> u32)"
  enc_slice_data :: "slice_plan \<Rightarrow> json"
  enc_transition_data :: "chapter_transition \<Rightarrow> json"
  enc_snapshot_data :: "queue_snapshot \<Rightarrow> json"
  enc_chapter_ref :: "tts_chapter \<Rightarrow> json"

definition parse_params :: "string \<Rightarrow> (json \<Rightarrow> ustr + 'a) \<Rightarrow> json \<Rightarrow> core_error + 'a" where
  "parse_params m dec params = (case dec params of
     Inl serde_error \<Rightarrow> Inl (with_details (invalid_params (lit ''invalid params for '' @ lit m))
       (JObj [(lit ''source'', JStr serde_error), (lit ''method'', JStr (lit m))]))
   | Inr p \<Rightarrow> Inr p)"

definition queue_control ::
    "tts_codec \<Rightarrow> string \<Rightarrow> string \<Rightarrow> (queue_entry \<Rightarrow> core_error + queue_entry) \<Rightarrow> json \<Rightarrow> tts_state
      \<Rightarrow> (core_error + json) \<times> tts_state" where
  \<comment> \<open>the six-fold shape of a control handler: parse, transition, wrap the snapshot\<close>
  "queue_control K m action f params queues = (case parse_params m (dec_chapter_params K m) params of
     Inl e \<Rightarrow> (Inl e, queues)
   | Inr chapter \<Rightarrow> (let (r, queues') = queue_transition (enc_chapter_ref K) chapter action f queues
       in (map_sum id (enc_snapshot_data K) r, queues')))"

definition tts_handler :: "tts_codec \<Rightarrow> string \<Rightarrow> json \<Rightarrow> tts_state \<Rightarrow> (core_error + json) \<times> tts_state" where
  "tts_handler K m params queues = (
     if m = ''tts.slice'' then
       (map_sum id (\<lambda>(chapter, content, strategy). enc_slice_data K (slice_chapter chapter content strategy))
          (parse_params m (dec_slice_params K) params), queues)
     else if m = ''tts.queue.status'' then
       (map_sum id (\<lambda>chapter. enc_snapshot_data K (snapshot_for queues chapter))
          (parse_params m (dec_chapter_params K m) params), queues)
     else if m = ''tts.chapter.plan'' then
       (map_sum id (\<lambda>(chapter, behavior). enc_transition_data K (chapter_transition_for chapter behavior))
          (parse_params m (dec_chapter_plan_params K) params), queues)
     else if m = ''tts.queue.play'' then
       (case parse_params m (dec_play_params K) params of
          Inl e \<Rightarrow> (Inl e, queues)
        | Inr (plan, start) \<Rightarrow> (let (r, queues') = queue_play plan start queues
            in (map_sum id (enc_snapshot_data K) r, queues')))
     else if m = ''tts.queue.pause'' then queue_control K m ''pause'' pause_entry params queues
     else if m = ''tts.queue.resume'' then queue_control K m ''resume'' resume_entry params queues
     else if m = ''tts.queue.stop'' then queue_control K m ''stop'' stop_entry params queues
     else if m = ''tts.queue.next'' then queue_control K m ''next'' next_entry params queues
     else queue_control K m ''prev'' prev_entry params queues)"

definition tts_methods :: "string list" where
  "tts_methods = [''tts.slice'', ''tts.queue.status'', ''tts.chapter.plan'', ''tts.queue.play'', ''tts.queue.pause'',
     ''tts.queue.resume'', ''tts.queue.stop'', ''tts.queue.next'', ''tts.queue.prev'']"

definition dispatch_tts ::
    "tts_codec \<Rightarrow> command \<Rightarrow> tts_state \<Rightarrow> ((core_error + json) \<times> tts_state) option" where
  \<comment> \<open>\<open>None\<close> is \<open>NotHandled\<close>; the outcome is emitted by the caller's \<open>finish\<close>\<close>
  "dispatch_tts K cmd queues = map_option (\<lambda>m. tts_handler K m (cmd_params cmd) queues)
     (find (\<lambda>m. lit m = cmd_method cmd) tts_methods)"

definition sample_chapter_ref :: tts_chapter where
  "sample_chapter_ref = \<lparr>tc_source_id = lit ''s'', tc_book_id = lit ''b'', tc_chapter_index = 0,
     tc_chapter_title = [], tc_chapter_url = []\<rparr>"

end
