(* ===== verification/TtsSlicing.thy ===== *)
theory TtsSlicing
  imports Tts
begin

text \<open>
  Correctness of the read-aloud slicer: under every strategy whose ranges are meant to be exact the
  slices tile the chapter (each text is the source range it reports, ranges are ordered and
  disjoint, and only blanks fall outside them), and no strategy loses or repeats text.
\<close>

subsection \<open>Tilings\<close>

definition ws_between :: "ustr \<Rightarrow> nat \<Rightarrow> nat \<Rightarrow> bool" where
  "ws_between s lo hi = (\<forall>i. lo \<le> i \<and> i < hi \<longrightarrow> is_whitespace (s ! i))"

definition range_of :: "ustr \<Rightarrow> nat \<Rightarrow> nat \<Rightarrow> ustr" where
  "range_of s a b = take (b - a) (drop a s)"

definition seg_exact :: "ustr \<Rightarrow> segment \<Rightarrow> bool" where
  "seg_exact s = (\<lambda>(t, a, b, _). unat a < unat b \<and> unat b \<le> length s \<and> t = range_of s (unat a) (unat b)
     \<and> \<not> is_whitespace (hd t) \<and> \<not> is_whitespace (last t))"

fun tiles :: "ustr \<Rightarrow> nat \<Rightarrow> nat \<Rightarrow> segment list \<Rightarrow> bool" where
  "tiles s lo hi [] = (lo \<le> hi \<and> ws_between s lo hi)"
| "tiles s lo hi (g # gs) = (lo \<le> unat (fst (snd g)) \<and> ws_between s lo (unat (fst (snd g)))
     \<and> seg_exact s g \<and> tiles s (unat (fst (snd (snd g)))) hi gs)"

lemma ws_between_trans: "ws_between s lo m \<Longrightarrow> ws_between s m hi \<Longrightarrow> ws_between s lo hi"
  unfolding ws_between_def by (meson linorder_not_less)

lemma tiles_extend: "lo \<le> m \<Longrightarrow> ws_between s lo m \<Longrightarrow> tiles s m hi gs \<Longrightarrow> tiles s lo hi gs"
  by (cases gs) (auto intro: ws_between_trans order_trans)

lemma tiles_append: "tiles s lo m gs \<Longrightarrow> tiles s m hi hs \<Longrightarrow> tiles s lo hi (gs @ hs)"
  by (induction gs arbitrary: lo) (auto intro: tiles_extend)

lemma tiles_le: "tiles s lo hi gs \<Longrightarrow> lo \<le> hi"
  by (induction gs arbitrary: lo) (force simp: seg_exact_def)+

lemma tiles_ordered:
  "tiles s lo hi gs \<Longrightarrow> sorted_wrt (\<lambda>g h. unat (fst (snd (snd g))) \<le> unat (fst (snd h))) gs
     \<and> (\<forall>g \<in> set gs. lo \<le> unat (fst (snd g)) \<and> seg_exact s g)"
proof (induction gs arbitrary: lo)
  case (Cons g gs)
  then have "tiles s (unat (fst (snd (snd g)))) hi gs" "seg_exact s g" "lo \<le> unat (fst (snd g))" by auto
  moreover from \<open>seg_exact s g\<close> have "unat (fst (snd g)) < unat (fst (snd (snd g)))"
    by (auto simp: seg_exact_def)
  ultimately show ?case
    using Cons.IH[of "unat (fst (snd (snd g)))"] by (auto intro: order_trans less_imp_le)
qed simp

lemma tiles_complete:
  "tiles s lo hi gs \<Longrightarrow> lo \<le> i \<Longrightarrow> i < hi \<Longrightarrow> \<not> is_whitespace (s ! i) \<Longrightarrow>
     \<exists>g \<in> set gs. unat (fst (snd g)) \<le> i \<and> i < unat (fst (snd (snd g)))"
proof (induction gs arbitrary: lo)
  case Nil
  then show ?case by (auto simp: ws_between_def)
next
  case (Cons g gs)
  show ?case
  proof (cases "i < unat (fst (snd (snd g)))")
    case True
    have "unat (fst (snd g)) \<le> i" using Cons.prems by (auto simp: ws_between_def not_less[symmetric])
    with True show ?thesis by auto
  next
    case False
    with Cons.IH[of "unat (fst (snd (snd g)))"] Cons.prems show ?thesis by auto
  qed
qed

lemma range_of_length: "b \<le> length s \<Longrightarrow> length (range_of s a b) = b - a"
  by (simp add: range_of_def)

lemma range_of_nth: "a \<le> i \<Longrightarrow> i < b \<Longrightarrow> b \<le> length s \<Longrightarrow> range_of s a b ! (i - a) = s ! i"
  by (simp add: range_of_def)

lemma range_of_range: "range_of (range_of s x y) a b = range_of s (x + a) (min y (x + b))" if "x \<le> y"
proof -
  have "min (b - a) (y - x - a) = min y (x + b) - (x + a)" using that by arith
  then show ?thesis by (simp add: range_of_def drop_take take_take add.commute)
qed

lemma range_of_append: "a \<le> m \<Longrightarrow> m \<le> b \<Longrightarrow> range_of s a b = range_of s a m @ range_of s m b"
proof -
  assume "a \<le> m" "m \<le> b"
  then have "b - a = (m - a) + (b - m)" "drop m s = drop (m - a) (drop a s)" by simp_all
  then show ?thesis by (simp only: range_of_def take_add)
qed

lemma ws_between_range:
  "b \<le> length s \<Longrightarrow> ws_between s a b \<longleftrightarrow> list_all is_whitespace (range_of s a b)"
  unfolding ws_between_def list_all_length range_of_def
  by (auto simp: less_diff_conv add.commute[of _ a])
    (metis add_diff_inverse_nat diff_less_mono linorder_not_less)

subsection \<open>Trimmed ranges\<close>

definition one_segment :: "ustr \<times> u32 \<times> u32 \<Rightarrow> u32 \<Rightarrow> segment list" where
  "one_segment r p = (case r of (t, a, b) \<Rightarrow> if t \<noteq> [] then [(t, a, b, p)] else [])"

lemma trim_segment_tiles:
  assumes le: "lo \<le> hi" "hi \<le> length s" and fits: "length s < 2 ^ 32"
  shows "tiles s lo hi (one_segment (trim_segment (range_of s lo hi) (of_nat lo)) p)"
proof -
  let ?c = "range_of s lo hi"
  let ?pre = "takeWhile is_whitespace ?c" and ?d = "dropWhile is_whitespace ?c"
  let ?suf = "takeWhile is_whitespace (rev ?c)"
  have clen: "length ?c = hi - lo" using le by (simp add: range_of_length)
  show ?thesis
  proof (cases "?d = []")
    case True
    then have all: "list_all is_whitespace ?c" by (simp add: dropWhile_eq_Nil_conv list_all_iff)
    then have "?pre = ?c" by (simp add: list_all_iff)
    then have "one_segment (trim_segment ?c (of_nat lo)) p = []"
      by (simp add: one_segment_def trim_segment_def Let_def del: takeWhile_eq_all_conv)
    with all le show ?thesis by (simp add: ws_between_range)
  next
    case False
    let ?m = "dropWhile is_whitespace (rev ?d)"
    have hd: "\<not> is_whitespace (hd ?d)" using hd_dropWhile[OF False] .
    with hd_in_set[OF False] have "?m \<noteq> []" by (metis dropWhile_eq_Nil_conv set_rev)
    have c: "?c = ?pre @ ?d" by simp
    have suf: "?suf = takeWhile is_whitespace (rev ?d)"
    proof -
      have "rev ?c = rev ?d @ rev ?pre" by (metis c rev_append)
      moreover have "\<exists>x \<in> set (rev ?d). \<not> is_whitespace x" using False hd by (metis hd_in_set set_rev)
      ultimately show ?thesis by (metis takeWhile_append1)
    qed
    let ?L = "length ?pre" and ?T = "length ?suf"
    have d: "?d = rev ?m @ rev ?suf"
      unfolding suf by (metis rev_append rev_rev_ident takeWhile_dropWhile_id)
    have lens: "length ?c = ?L + length ?m + ?T"
    proof -
      have "length ?c = ?L + length ?d" by (metis c length_append)
      moreover have "length ?d = length ?m + ?T" using arg_cong[OF d, of length] by simp
      ultimately show ?thesis by simp
    qed
    have mid: "take (length ?c - (?L + ?T)) (drop ?L ?c) = rev ?m"
    proof -
      have "drop ?L ?c = ?d" by (simp add: dropWhile_eq_drop)
      moreover have "length ?c - (?L + ?T) = length (rev ?m)" using lens by simp
      ultimately show ?thesis using d by (metis append_eq_conv_conj)
    qed
    define a b where "a = lo + ?L" and "b = lo + ?L + length ?m"
    have ab: "a < b" "b \<le> hi" "lo \<le> a" using \<open>?m \<noteq> []\<close> lens clen le by (auto simp: a_def b_def)
    have ua: "unat (of_nat lo + of_nat ?L :: u32) = a" and ub: "unat (of_nat lo + of_nat ?L + of_nat (length ?m) :: u32) = b"
      using ab le fits by (simp_all add: a_def b_def unat_of_nat flip: of_nat_add)
    have seg: "one_segment (trim_segment ?c (of_nat lo)) p
        = [(rev ?m, of_nat lo + of_nat ?L, of_nat lo + of_nat ?L + of_nat (length ?m), p)]"
      using \<open>?m \<noteq> []\<close> mid lens by (simp add: one_segment_def trim_segment_def Let_def)
    have range: "rev ?m = range_of s a b"
    proof -
      have "range_of ?c ?L (?L + length ?m) = rev ?m"
        using mid lens by (simp add: range_of_def)
      moreover have "range_of ?c ?L (?L + length ?m) = range_of s a b"
        using ab by (simp add: range_of_range[OF le(1)] a_def b_def min_def add.assoc)
      ultimately show ?thesis by simp
    qed
    have pre: "ws_between s lo a"
    proof -
      have "range_of s lo a = ?pre"
      proof -
        have "range_of s lo a = range_of ?c 0 ?L"
          using ab by (simp add: range_of_range[OF le(1)] a_def min_def)
        also have "\<dots> = take ?L ?c" by (simp only: range_of_def diff_zero drop_0)
        also have "\<dots> = ?pre" by (rule takeWhile_eq_take[symmetric])
        finally show ?thesis .
      qed
      then show ?thesis using ab le by (auto simp: ws_between_range list_all_iff dest: set_takeWhileD)
    qed
    have post: "ws_between s b hi"
    proof -
      have "range_of s b hi = rev ?suf"
      proof -
        have "range_of s b hi = range_of ?c (?L + length ?m) (hi - lo)"
          using ab le by (simp add: range_of_range[OF le(1)] b_def add.assoc)
        also have "\<dots> = drop (?L + length ?m) ?c" using clen by (simp add: range_of_def)
        also have "\<dots> = rev ?suf"
        proof -
          have "?c = (?pre @ rev ?m) @ rev ?suf" using c d by (metis append_assoc)
          moreover have "length (?pre @ rev ?m) = ?L + length ?m" by simp
          ultimately show ?thesis by (metis append_eq_conv_conj)
        qed
        finally show ?thesis .
      qed
      then show ?thesis using ab le by (auto simp: ws_between_range list_all_iff dest: set_takeWhileD)
    qed
    have ends: "\<not> is_whitespace (hd (rev ?m))" "\<not> is_whitespace (last (rev ?m))"
    proof -
      show "\<not> is_whitespace (last (rev ?m))"
        using \<open>?m \<noteq> []\<close> hd_dropWhile[of is_whitespace "rev ?d"] by (simp add: last_rev)
      have "hd ?d = hd (rev ?m)" using \<open>?m \<noteq> []\<close> d by (metis hd_append2 rev_is_Nil_conv)
      then show "\<not> is_whitespace (hd (rev ?m))" using hd by simp
    qed
    show ?thesis
      unfolding seg using pre post ab range ends le
      by (simp add: seg_exact_def ua ub)
  qed
qed

subsection \<open>Sentences\<close>

lemma range_of_snoc: "a \<le> b \<Longrightarrow> b < length s \<Longrightarrow> range_of s a b @ [s ! b] = range_of s a (Suc b)"
  by (simp add: range_of_append[of a b "Suc b"] range_of_def[of s b] take_Suc hd_drop_conv_nth)

lemma slice_sentence_from_tiles:
  assumes "length s < 2 ^ 32" "i \<le> length s" "k \<le> i"
  shows "tiles s k (length s) (slice_sentence_from i (range_of s k i) (of_nat k) (drop i s))"
  using assms
proof (induction "drop i s" arbitrary: i k)
  case Nil
  then have "i = length s" by simp
  with Nil trim_segment_tiles[of k "length s" s 0] show ?case
    by (simp add: one_segment_def)
next
  case (Cons c cs)
  then have i: "i < length s" by (metis drop_all linorder_not_less list.distinct(1))
  have c: "drop i s = s ! i # drop (Suc i) s" using i by (rule Cons_nth_drop_Suc[symmetric])
  have cur: "range_of s k i @ [s ! i] = range_of s k (Suc i)"
    using Cons.prems i by (intro range_of_snoc) auto
  have tail: "tiles s k' (length s) (slice_sentence_from (Suc i) (range_of s k' (Suc i)) (of_nat k') (drop (Suc i) s))"
    if "k' \<le> Suc i" for k'
    using Cons.hyps(1)[of "Suc i" k'] Cons.hyps(2) Cons.prems i c that by simp
  show ?case
  proof (cases "is_sentence_terminal (s ! i)")
    case True
    have "range_of s (Suc i) (Suc i) = []" by (simp add: range_of_def)
    with tail[of "Suc i"] have rest:
      "tiles s (Suc i) (length s) (slice_sentence_from (Suc i) [] (of_nat (Suc i)) (drop (Suc i) s))" by simp
    have "tiles s k (Suc i) (one_segment (trim_segment (range_of s k (Suc i)) (of_nat k)) 0)"
      using Cons.prems i by (intro trim_segment_tiles) auto
    from tiles_append[OF this rest] True show ?thesis
      by (simp add: c cur one_segment_def)
  next
    case False
    with tail[of k] Cons.prems show ?thesis by (simp add: c cur)
  qed
qed

lemma slice_sentence_tiles: "length s < 2 ^ 32 \<Longrightarrow> tiles s 0 (length s) (slice_sentence s)"
  using slice_sentence_from_tiles[of s 0 0] by (simp add: slice_sentence_def range_of_def)

subsection \<open>Lines\<close>

fun lines_at :: "ustr \<Rightarrow> nat \<Rightarrow> text_line list \<Rightarrow> bool" where
  \<comment> \<open>the lines from position \<open>lo\<close> to the end of a text in which every line is terminated\<close>
  "lines_at s lo [] = (lo = length s)"
| "lines_at s lo (l # ls) = (ln_start l = of_nat lo \<and> lo + length (ln_chars l) < length s
     \<and> range_of s lo (lo + length (ln_chars l)) = ln_chars l \<and> s ! (lo + length (ln_chars l)) = 10
     \<and> lines_at s (lo + length (ln_chars l) + 1) ls)"

lemma split_lines_from_at:
  assumes "k \<le> i" "i \<le> length s"
  shows "lines_at (s @ [10]) k (split_lines_from i (range_of s k i) (of_nat k) (drop i s))"
  using assms
proof (induction "drop i s" arbitrary: i k)
  case Nil
  then have "i = length s" by simp
  with Nil show ?case by (simp add: range_of_length) (simp add: range_of_def)
next
  case (Cons c cs)
  then have i: "i < length s" by (metis drop_all linorder_not_less list.distinct(1))
  have c: "drop i s = s ! i # drop (Suc i) s" using i by (rule Cons_nth_drop_Suc[symmetric])
  have cur: "range_of s k i @ [s ! i] = range_of s k (Suc i)"
    using Cons.prems i by (intro range_of_snoc) auto
  have tail: "lines_at (s @ [10]) k' (split_lines_from (Suc i) (range_of s k' (Suc i)) (of_nat k') (drop (Suc i) s))"
    if "k' \<le> Suc i" for k'
    using Cons.hyps(1)[of "Suc i" k'] Cons.hyps(2) i c that by simp
  show ?case
  proof (cases "s ! i = 10")
    case True
    have "range_of s (Suc i) (Suc i) = []" by (simp add: range_of_def)
    with tail[of "Suc i"] True Cons.prems i show ?thesis
      by (simp add: c range_of_length nth_append) (simp add: range_of_def)
  next
    case False
    with tail[of k] Cons.prems show ?thesis by (simp add: c cur)
  qed
qed

lemma split_lines_at: "lines_at (s @ [10]) 0 (split_lines s)"
  using split_lines_from_at[of 0 0 s] by (simp add: split_lines_def range_of_def)


lemma line_ws: "lines_at s lo (l # ls) \<Longrightarrow> is_blank (ln_chars l) \<Longrightarrow> ws_between s lo (lo + length (ln_chars l) + 1)"
proof -
  assume a: "lines_at s lo (l # ls)" "is_blank (ln_chars l)"
  then have "ws_between s lo (lo + length (ln_chars l))"
    by (simp add: ws_between_range is_blank_def)
  moreover have "ws_between s (lo + length (ln_chars l)) (lo + length (ln_chars l) + 1)"
    using a by (auto simp: ws_between_def le_less_Suc_eq is_whitespace_def)
  ultimately show ?thesis by (rule ws_between_trans)
qed

lemma newline_tiles: "s ! m = 10 \<Longrightarrow> tiles s m (m + 1) []"
  by (auto simp: ws_between_def le_less_Suc_eq is_whitespace_def)

lemma slice_line_break_from_tiles:
  assumes "length s < 2 ^ 32" and "lines_at s lo ls"
  shows "tiles s lo (length s) (slice_line_break_from p ls)"
  using assms(2)
proof (induction ls arbitrary: lo p)
  case (Cons l ls)
  let ?m = "lo + length (ln_chars l)"
  have rest: "tiles s (?m + 1) (length s) (slice_line_break_from p' ls)" for p'
    using Cons.IH Cons.prems by simp
  show ?case
  proof (cases "is_blank (ln_chars l)")
    case True
    with line_ws[OF Cons.prems] have "tiles s lo (?m + 1) []" by simp
    from tiles_append[OF this rest[of p]] True show ?thesis by simp
  next
    case False
    have "tiles s lo ?m (one_segment (trim_segment (range_of s lo ?m) (of_nat lo)) p)"
      using Cons.prems assms(1) by (intro trim_segment_tiles) auto
    then have "tiles s lo ?m (one_segment (trim_segment (ln_chars l) (ln_start l)) p)"
      using Cons.prems by simp
    from tiles_append[OF this newline_tiles] Cons.prems
    have head: "tiles s lo (?m + 1) (one_segment (trim_segment (ln_chars l) (ln_start l)) p)" by simp
    from tiles_append[OF head rest[of p]] tiles_append[OF head rest[of "p + 1"]] False show ?thesis
      by (auto simp: one_segment_def split: prod.splits if_splits)
  qed
qed (auto simp: ws_between_def)

subsection \<open>Sentences of paragraphs\<close>

definition shift_segment :: "nat \<Rightarrow> u32 \<Rightarrow> segment \<Rightarrow> segment" where
  "shift_segment k p = (\<lambda>(t, a, b, _). (t, of_nat k + a, of_nat k + b, p))"

lemma unat_shift: "k + unat a \<le> n \<Longrightarrow> n < 2 ^ 32 \<Longrightarrow> unat (of_nat k + a :: u32) = k + unat a"
proof -
  assume "k + unat a \<le> n" "n < 2 ^ 32"
  moreover have "of_nat k + a = of_nat (k + unat a)" by simp
  ultimately show ?thesis by (simp only: unat_of_nat) simp
qed

lemma seg_exact_shift:
  assumes g: "seg_exact (range_of s k q) g" and kq: "k \<le> q" "q \<le> length s" "length s < 2 ^ 32"
  shows "seg_exact s (shift_segment k p g) \<and> unat (fst (snd (shift_segment k p g))) = k + unat (fst (snd g))
     \<and> unat (fst (snd (snd (shift_segment k p g)))) = k + unat (fst (snd (snd g)))"
proof -
  obtain t a b p' where gg: "g = (t, a, b, p')" by (cases g) auto
  have b: "unat a < unat b" "unat b \<le> q - k" using g kq by (auto simp: gg seg_exact_def range_of_length)
  then have u: "unat (of_nat k + a :: u32) = k + unat a" "unat (of_nat k + b :: u32) = k + unat b"
    using kq by (auto intro!: unat_shift[of _ _ "length s"])
  have "min q (k + unat b) = k + unat b" using b kq by simp
  then have "range_of (range_of s k q) (unat a) (unat b) = range_of s (k + unat a) (k + unat b)"
    using range_of_range[OF kq(1), of s "unat a" "unat b"] by simp
  with g b kq u show ?thesis by (auto simp: gg seg_exact_def shift_segment_def)
qed

lemma ws_between_shift:
  "ws_between (range_of s k q) lo hi \<Longrightarrow> k \<le> q \<Longrightarrow> q \<le> length s \<Longrightarrow> hi \<le> q - k \<Longrightarrow> ws_between s (k + lo) (k + hi)"
  unfolding ws_between_def
proof (intro allI impI)
  fix i assume a: "\<forall>i. lo \<le> i \<and> i < hi \<longrightarrow> is_whitespace (range_of s k q ! i)" "k \<le> q" "q \<le> length s"
    "hi \<le> q - k" "k + lo \<le> i \<and> i < k + hi"
  then have "is_whitespace (range_of s k q ! (i - k))" by (auto simp: less_diff_conv2)
  moreover have "range_of s k q ! (i - k) = s ! i" using a by (intro range_of_nth) auto
  ultimately show "is_whitespace (s ! i)" by simp
qed

lemma tiles_shift:
  assumes "tiles (range_of s k q) lo hi gs" and kq: "k \<le> q" "q \<le> length s" "length s < 2 ^ 32" and "hi \<le> q - k"
  shows "tiles s (k + lo) (k + hi) (map (shift_segment k p) gs)"
  using assms(1)
proof (induction gs arbitrary: lo)
  case Nil
  then show ?case using kq assms(5) by (auto intro: ws_between_shift)
next
  case (Cons g gs)
  have g: "seg_exact (range_of s k q) g" and rest: "tiles (range_of s k q) (unat (fst (snd (snd g)))) hi gs"
    and pre: "ws_between (range_of s k q) lo (unat (fst (snd g)))" "lo \<le> unat (fst (snd g))"
    using Cons.prems by auto
  have "unat (fst (snd g)) \<le> q - k" using g kq by (auto simp: seg_exact_def range_of_length)
  then have "ws_between s (k + lo) (k + unat (fst (snd g)))" using pre kq by (intro ws_between_shift)
  with seg_exact_shift[OF g kq, of p] Cons.IH[OF rest] pre(2) show ?case by simp
qed

definition join_line :: "text_line \<Rightarrow> ustr \<Rightarrow> ustr" where
  "join_line l chars = (if chars = [] then [] else chars @ [10]) @ ln_chars l"

lemma join_lines_range:
  assumes "lines_at s (q + 1) (ls @ ms)" "k < q" "q < length s" "s ! q = 10"
  shows "\<exists>r. fold join_line ls (range_of s k q) = range_of s k r \<and> k < r \<and> r < length s \<and> s ! r = 10
    \<and> lines_at s (r + 1) ms"
  using assms
proof (induction ls arbitrary: q)
  case Nil
  then show ?case by auto
next
  case (Cons l ls)
  let ?r = "q + 1 + length (ln_chars l)"
  have l: "range_of s (q + 1) ?r = ln_chars l" "?r < length s" "s ! ?r = 10" "lines_at s (?r + 1) (ls @ ms)"
    using Cons.prems(1) by auto
  have "length (range_of s k q) = q - k" using Cons.prems by (simp add: range_of_length)
  then have "range_of s k q \<noteq> []" using Cons.prems(2) by auto
  moreover have "range_of s k q @ [10] = range_of s k (Suc q)"
    using Cons.prems range_of_snoc[of k q s] by simp
  ultimately have "join_line l (range_of s k q) = range_of s k (Suc q) @ range_of s (q + 1) ?r"
    using l(1) by (simp add: join_line_def)
  also have "\<dots> = range_of s k ?r" using range_of_append[of k "Suc q" ?r s] Cons.prems(2) by simp
  finally show ?case using Cons.IH[OF l(4)] Cons.prems l by simp
qed

lemma lines_at_skip_blank:
  "lines_at s lo ls \<Longrightarrow> \<exists>m. lo \<le> m \<and> ws_between s lo m \<and> lines_at s m (dropWhile blank_line ls)"
proof (induction ls arbitrary: lo)
  case Nil
  then show ?case by (auto simp: ws_between_def)
next
  case (Cons l ls)
  show ?case
  proof (cases "blank_line l")
    case True
    let ?m = "lo + length (ln_chars l) + 1"
    have "ws_between s lo ?m" using line_ws[OF Cons.prems] True by (simp add: blank_line_def)
    moreover obtain m where "?m \<le> m" "ws_between s ?m m" "lines_at s m (dropWhile blank_line ls)"
      using Cons.IH[of ?m] Cons.prems by auto
    ultimately show ?thesis using True by (auto intro!: exI[of _ m] intro: ws_between_trans)
  next
    case False
    then show ?thesis using Cons.prems by (auto simp: ws_between_def intro!: exI[of _ lo])
  qed
qed

lemma blank_Nil [simp]: "\<not> blank_line l \<Longrightarrow> ln_chars l \<noteq> []"
  by (auto simp: blank_line_def is_blank_def)

lemma slice_sentences_of_tiles:
  assumes fits: "length s < 2 ^ 32" and "lines_at s lo ls"
  shows "tiles s lo (length s) (slice_sentences_of p ls)"
  using assms(2)
proof (induction p ls arbitrary: lo rule: slice_sentences_of.induct)
  case (1 p ls)
  obtain m where m: "lo \<le> m" "ws_between s lo m" "lines_at s m (dropWhile blank_line ls)"
    using lines_at_skip_blank[OF 1(2)] by blast
  show ?case
  proof (cases "dropWhile blank_line ls")
    case Nil
    have "slice_sentences_of p ls = []" by (subst slice_sentences_of.simps) (simp add: Nil)
    with m Nil show ?thesis by simp
  next
    case (Cons l others)
    let ?para = "takeWhile (\<lambda>l. \<not> blank_line l) others" and ?rest = "dropWhile (\<lambda>l. \<not> blank_line l) others"
    let ?q = "m + length (ln_chars l)"
    let ?chars = "fold join_line (l # ?para) []"
    have nb: "\<not> blank_line l" using Cons by (metis dropWhile_eq_Cons_conv)
    then have ne: "0 < length (ln_chars l)" by simp
    have l: "range_of s m ?q = ln_chars l" "?q < length s" "s ! ?q = 10" "ln_start l = of_nat m"
      "lines_at s (?q + 1) (?para @ ?rest)" using m(3) Cons by auto
    have "?chars = fold join_line ?para (range_of s m ?q)" using l(1) by (simp add: join_line_def)
    with join_lines_range[OF l(5) _ l(2,3), of m] ne obtain r where
      r: "?chars = range_of s m r" "m < r" "r < length s" "s ! r = 10" "lines_at s (r + 1) ?rest" by auto
    have "length (range_of s m r) < 2 ^ 32" using r fits by (simp add: range_of_length)
    from slice_sentence_tiles[OF this]
    have "tiles s m r (map (shift_segment m p) (slice_sentence ?chars))"
      using tiles_shift[of s m r 0 "r - m" "slice_sentence ?chars" p] r fits by (simp add: range_of_length)
    from tiles_append[OF this newline_tiles[OF r(4)]]
    have head: "tiles s m (r + 1) (map (shift_segment m p) (slice_sentence ?chars))" by simp
    have tail: "tiles s (r + 1) (length s) (slice_sentences_of (p + 1) ?rest)"
      by (rule 1(1)[OF Cons refl refl r(5)])
    have "slice_sentences_of p ls
        = map (shift_segment m p) (slice_sentence ?chars) @ slice_sentences_of (p + 1) ?rest"
      by (subst slice_sentences_of.simps)
        (simp add: Cons Let_def shift_segment_def l(4) join_line_def[abs_def] case_prod_unfold)
    with tiles_append[OF head tail] m(1,2) show ?thesis by (auto intro: tiles_extend)
  qed
qed

subsection \<open>No text is lost\<close>

abbreviation solid :: "ustr \<Rightarrow> ustr" where
  "solid s \<equiv> filter (\<lambda>c. \<not> is_whitespace c) s"

lemma seg_exact_unterminated: "seg_exact (s @ [10]) g \<Longrightarrow> seg_exact s g"
proof -
  obtain t a b p where g: "g = (t, a, b, p)" by (cases g) auto
  assume "seg_exact (s @ [10]) g"
  then have ab: "unat a < unat b" "unat b \<le> Suc (length s)" and t: "t = range_of (s @ [10]) (unat a) (unat b)"
    and ends: "\<not> is_whitespace (hd t)" "\<not> is_whitespace (last t)" by (auto simp: g seg_exact_def)
  have len: "length t = unat b - unat a" using ab t by (simp add: range_of_length)
  have "unat b \<noteq> Suc (length s)"
  proof
    assume b: "unat b = Suc (length s)"
    have "last t = t ! (length t - 1)" using len ab by (intro last_conv_nth) auto
    also have "\<dots> = (s @ [10]) ! (length s)"
      using range_of_nth[of "unat a" "length s" "unat b" "s @ [10]"] ab b len by (simp add: t)
    finally show False using ends(2) by (simp add: is_whitespace_def)
  qed
  with ab have "unat b \<le> length s" by simp
  moreover from this have "t = range_of s (unat a) (unat b)" using ab t by (simp add: range_of_def)
  ultimately show ?thesis using ab ends by (simp add: g seg_exact_def)
qed

lemma tiles_unterminated: "tiles (s @ [10]) lo (Suc (length s)) gs \<Longrightarrow> lo \<le> length s \<Longrightarrow> tiles s lo (length s) gs"
proof (induction gs arbitrary: lo)
  case Nil
  then show ?case by (auto simp: ws_between_def nth_append split: if_splits)
next
  case (Cons g gs)
  then have g: "seg_exact s g" using seg_exact_unterminated by simp
  then have "unat (fst (snd (snd g))) \<le> length s" "unat (fst (snd g)) \<le> length s"
    by (auto simp: seg_exact_def)
  with Cons g show ?case by (auto simp: ws_between_def nth_append)
qed

lemma slice_segments_tile:
  assumes "length s < 2 ^ 32 - 1" and "strategy \<noteq> Paragraph"
  shows "tiles s 0 (length s) (slice_segments strategy s)"
proof -
  have fits: "length (s @ [10]) < 2 ^ 32" using assms by simp
  note at = split_lines_at[of s]
  show ?thesis
  proof (cases strategy)
    case Sentence
    with slice_sentence_tiles[of s] assms show ?thesis by simp
  next
    case LineBreak
    from slice_line_break_from_tiles[OF fits at, of 0] LineBreak show ?thesis
      by (auto simp: slice_line_break_def intro: tiles_unterminated)
  next
    case ParagraphThenSentence
    from slice_sentences_of_tiles[OF fits at, of 0] ParagraphThenSentence show ?thesis
      by (auto simp: slice_paragraph_then_sentence_def intro: tiles_unterminated)
  qed (use assms in simp)
qed

lemma solid_ws: "hi \<le> length s \<Longrightarrow> ws_between s lo hi \<Longrightarrow> solid (range_of s lo hi) = []"
  by (auto simp: ws_between_range list_all_iff filter_empty_conv)

lemma tiles_solid: "tiles s lo hi gs \<Longrightarrow> hi \<le> length s \<Longrightarrow> solid (concat (map fst gs)) = solid (range_of s lo hi)"
proof (induction gs arbitrary: lo)
  case Nil
  then show ?case by (simp add: solid_ws)
next
  case (Cons g gs)
  let ?a = "unat (fst (snd g))" and ?b = "unat (fst (snd (snd g)))"
  have le: "lo \<le> ?a" "?a \<le> ?b" "?b \<le> hi" "?a \<le> length s" and t: "fst g = range_of s ?a ?b" and ws: "ws_between s lo ?a"
    using Cons.prems tiles_le[of s ?b hi gs] by (auto simp: seg_exact_def)
  have "range_of s lo hi = range_of s lo ?a @ range_of s ?a ?b @ range_of s ?b hi"
    using le range_of_append[of lo ?a hi s] range_of_append[of ?a ?b hi s] by simp
  then have "solid (range_of s lo hi) = solid (fst g) @ solid (range_of s ?b hi)"
    using solid_ws[OF le(4) ws] by (simp add: t)
  with Cons show ?case by simp
qed

lemma solid_trim [simp]: "solid (trim s) = solid s"
proof -
  have d: "solid (dropWhile is_whitespace t) = solid t" for t by (induction t) auto
  have r: "solid (rev t) = rev (solid t)" for t by (rule rev_filter[symmetric])
  show ?thesis by (simp add: trim_def trim_start_def trim_end_def d r)
qed

lemma solid_join: "solid (join [10] ts) = solid (concat ts)"
  by (induction "[10 :: nat]" ts rule: join.induct) (auto simp: is_whitespace_def)

lemma solid_concat: "solid (concat (map f xs)) = concat (map (\<lambda>x. solid (f x)) xs)"
  by (induction xs) auto

lemma solid_blank: "blank_line l \<Longrightarrow> solid (ln_chars l) = []"
  by (auto simp: blank_line_def is_blank_def list_all_iff filter_empty_conv)

lemma solid_skip_blank:
  "concat (map (\<lambda>l. solid (ln_chars l)) (dropWhile blank_line ls)) = concat (map (\<lambda>l. solid (ln_chars l)) ls)"
  by (induction ls) (auto simp: solid_blank)

lemma slice_paragraph_solid:
  "solid (concat (map fst (slice_paragraph_from p ls))) = solid (concat (map ln_chars ls))"
proof (induction p ls rule: slice_paragraph_from.induct)
  case (1 p ls)
  show ?case
  proof (cases "dropWhile blank_line ls")
    case Nil
    have "slice_paragraph_from p ls = []" by (subst slice_paragraph_from.simps) (simp add: Nil)
    then show ?thesis using solid_skip_blank[of ls] Nil by (simp add: solid_concat)
  next
    case (Cons l others)
    let ?para = "l # takeWhile (\<lambda>l. \<not> blank_line l) others" and ?rest = "dropWhile (\<lambda>l. \<not> blank_line l) others"
    let ?text = "trim (join [10] (map (\<lambda>l. trim (ln_chars l)) ?para))"
    let ?seg = "trim_segment (ln_chars l) (ln_start l)"
    have IH: "solid (concat (map fst (slice_paragraph_from q ?rest))) = solid (concat (map ln_chars ?rest))"
      if "q = (if ?text = [] then p else p + 1)" for q
    proof (cases "?text = []")
      case True
      with that 1(1)[OF Cons refl refl refl refl prod.collapse prod.collapse] show ?thesis by simp
    next
      case False
      with that 1(2)[OF Cons refl refl refl refl prod.collapse prod.collapse] show ?thesis by simp
    qed
    have tx: "solid ?text = concat (map (\<lambda>l. solid (ln_chars l)) ?para)"
      by (simp add: solid_join solid_concat)
    have step: "slice_paragraph_from p ls = (if ?text = [] then slice_paragraph_from p ?rest
        else (?text, fst (snd ?seg), snd (snd ?seg), p) # slice_paragraph_from (p + 1) ?rest)"
      by (subst slice_paragraph_from.simps) (simp add: Cons Let_def case_prod_unfold)
    have "solid (concat (map fst (slice_paragraph_from p ls))) = solid ?text @ solid (concat (map ln_chars ?rest))"
      unfolding step using IH[OF refl] by (cases "?text = []") simp_all
    also have "\<dots> = concat (map (\<lambda>l. solid (ln_chars l)) (?para @ ?rest))"
      by (simp only: tx solid_concat map_append concat_append)
    also have "\<dots> = concat (map (\<lambda>l. solid (ln_chars l)) (dropWhile blank_line ls))"
      by (simp only: Cons append_Cons takeWhile_dropWhile_id)
    also have "\<dots> = solid (concat (map ln_chars ls))" by (simp only: solid_skip_blank solid_concat)
    finally show ?thesis .
  qed
qed

lemma lines_solid: "lines_at s lo ls \<Longrightarrow> solid (concat (map ln_chars ls)) = solid (range_of s lo (length s))"
proof (induction ls arbitrary: lo)
  case Nil
  then show ?case by (simp add: range_of_def)
next
  case (Cons l ls)
  let ?m = "lo + length (ln_chars l)"
  have "range_of s lo (length s) = range_of s lo ?m @ range_of s ?m (Suc ?m) @ range_of s (Suc ?m) (length s)"
    using Cons.prems by (metis Suc_leI add.commute lines_at.simps(2) le_add2 le_add_same_cancel2 less_imp_le
        range_of_append zero_le le_SucI lessI)
  moreover have "range_of s ?m (Suc ?m) = [10]"
    using Cons.prems by (simp add: range_of_def take_Suc hd_drop_conv_nth)
  moreover have "is_whitespace 10" by (simp add: is_whitespace_def)
  ultimately show ?case using Cons by simp
qed

lemma slice_segments_solid:
  assumes "length s < 2 ^ 32 - 1"
  shows "solid (concat (map fst (slice_segments strategy s))) = solid s"
proof (cases "strategy = Paragraph")
  case True
  have "solid (concat (map ln_chars (split_lines s))) = solid (range_of (s @ [10]) 0 (length (s @ [10])))"
    by (rule lines_solid[OF split_lines_at])
  also have "\<dots> = solid s" by (simp add: range_of_def is_whitespace_def)
  finally show ?thesis
    using slice_paragraph_solid[of 0 "split_lines s"] True by (simp add: slice_paragraph_def)
next
  case False
  from tiles_solid[OF slice_segments_tile[OF assms False]] show ?thesis by (simp add: range_of_def)
qed

definition slice_of_segment :: "nat \<Rightarrow> segment \<Rightarrow> tts_slice" where
  "slice_of_segment i = (\<lambda>(t, a, b, p). \<lparr>sl_index = of_nat i, sl_text = t, sl_char_start = a,
     sl_char_end = b, sl_paragraph_index = p\<rparr>)"

lemma slice_of_segment_fields [simp]:
  "sl_text (slice_of_segment i g) = fst g" "sl_char_start (slice_of_segment i g) = fst (snd g)"
  "sl_char_end (slice_of_segment i g) = fst (snd (snd g))" "sl_index (slice_of_segment i g) = of_nat i"
  by (simp_all add: slice_of_segment_def case_prod_unfold)

lemma slices_of_plan:
  "sp_slices (slice_chapter ch s strategy)
     = map (\<lambda>i. slice_of_segment i (slice_segments strategy s ! i)) [0..<length (slice_segments strategy s)]"
  by (rule nth_equalityI) (simp_all add: slice_chapter_def slice_of_segment_def nth_enumerate_eq
      case_prod_unfold)

lemma map_slices:
  assumes "\<And>i g. f (slice_of_segment i g) = h g"
  shows "map f (sp_slices (slice_chapter ch s strategy)) = map h (slice_segments strategy s)"
  by (rule nth_equalityI) (simp_all add: slices_of_plan assms)

lemma in_slices:
  "x \<in> set (sp_slices (slice_chapter ch s strategy)) \<longleftrightarrow>
     (\<exists>i < length (slice_segments strategy s). x = slice_of_segment i (slice_segments strategy s ! i))"
  by (auto simp: slices_of_plan)



end
