(* ===== verification/Refinement.thy ===== *)
theory Refinement
  imports Prelude
begin

text \<open>
  The interface between a component and its abstract specification: a deterministic operation that
  keeps an invariant and commutes with an abstraction function. Whole runs then agree with the
  specification, whatever the operations are.
\<close>

locale refines =
  fixes inv :: "'s \<Rightarrow> bool" and admissible :: "'op \<Rightarrow> bool" and abs :: "'s \<Rightarrow> 'a"
    and step :: "'op \<Rightarrow> 's \<Rightarrow> 's" and spec :: "'op \<Rightarrow> 'a \<Rightarrow> 'a"
  assumes step_inv: "inv s \<Longrightarrow> admissible op \<Longrightarrow> inv (step op s)"
    and step_abs: "inv s \<Longrightarrow> admissible op \<Longrightarrow> abs (step op s) = spec op (abs s)"
begin

lemma run_inv: "inv s \<Longrightarrow> \<forall>op \<in> set ops. admissible op \<Longrightarrow> inv (fold step ops s)"
  by (induction ops arbitrary: s) (auto intro: step_inv)

lemma run_abs: "inv s \<Longrightarrow> \<forall>op \<in> set ops. admissible op \<Longrightarrow> abs (fold step ops s) = fold spec ops (abs s)"
  by (induction ops arbitrary: s) (auto simp: step_abs step_inv)

end

end
