(* ===== verification/TtsQueue.thy ===== *)
theory TtsQueue
  imports Tts Refinement
begin

text \<open>
  Correctness of the playback queue: the well-formedness of loaded queues (one speaking slice, at
  the cursor), the refinement of every control command to an abstract cursor per chapter, and
  progress: pressing next from any slice reaches completion in exactly the slices that remain.
\<close>

subsection \<open>Commands\<close>

datatype tts_op =
    OpPlay slice_plan u32 | OpPause tts_chapter | OpResume tts_chapter | OpStop tts_chapter
  | OpNext tts_chapter | OpPrev tts_chapter

fun queue_command :: "(tts_chapter \<Rightarrow> json) \<Rightarrow> tts_op \<Rightarrow> tts_state \<Rightarrow> (core_error + queue_snapshot) \<times> tts_state" where
  "queue_command enc (OpPlay plan i) = queue_play plan i"
| "queue_command enc (OpPause ch) = queue_transition enc ch ''pause'' pause_entry"
| "queue_command enc (OpResume ch) = queue_transition enc ch ''resume'' resume_entry"
| "queue_command enc (OpStop ch) = queue_transition enc ch ''stop'' stop_entry"
| "queue_command enc (OpNext ch) = queue_transition enc ch ''next'' next_entry"
| "queue_command enc (OpPrev ch) = queue_transition enc ch ''prev'' prev_entry"

fun op_key :: "tts_op \<Rightarrow> chapter_key" where
  "op_key (OpPlay plan i) = chapter_key_of (sp_chapter plan)"
| "op_key (OpPause ch) = chapter_key_of ch"
| "op_key (OpResume ch) = chapter_key_of ch"
| "op_key (OpStop ch) = chapter_key_of ch"
| "op_key (OpNext ch) = chapter_key_of ch"
| "op_key (OpPrev ch) = chapter_key_of ch"

subsection \<open>The abstract cursor\<close>

record cursor =
  cu_state :: queue_state
  cu_index :: nat
  cu_total :: nat

fun cursor_step :: "tts_op \<Rightarrow> cursor option \<Rightarrow> cursor option" where
  \<comment> \<open>the promised transitions of one chapter's queue; \<open>None\<close> is a rejected command\<close>
  "cursor_step (OpPlay plan i) c = (let n = length (sp_slices plan) in
     if unat i < n \<and> (\<forall>d. c = Some d \<longrightarrow> cu_state d \<notin> {Playing, Paused})
     then Some \<lparr>cu_state = Playing, cu_index = unat i, cu_total = n\<rparr> else None)"
| "cursor_step (OpPause ch) c = (case c of Some d \<Rightarrow>
     if cu_state d = Playing then Some (d\<lparr>cu_state := Paused\<rparr>) else None | None \<Rightarrow> None)"
| "cursor_step (OpResume ch) c = (case c of Some d \<Rightarrow>
     if cu_state d = Paused then Some (d\<lparr>cu_state := Playing\<rparr>) else None | None \<Rightarrow> None)"
| "cursor_step (OpStop ch) c = (case c of Some d \<Rightarrow>
     if cu_state d \<in> {Playing, Paused} then Some (d\<lparr>cu_state := Stopped\<rparr>) else None | None \<Rightarrow> None)"
| "cursor_step (OpNext ch) c = (case c of Some d \<Rightarrow>
     if cu_state d \<in> {Playing, Paused}
     then Some (if Suc (cu_index d) < cu_total d then d\<lparr>cu_index := Suc (cu_index d)\<rparr>
                else d\<lparr>cu_state := Completed\<rparr>)
     else None | None \<Rightarrow> None)"
| "cursor_step (OpPrev ch) c = (case c of Some d \<Rightarrow>
     if cu_state d \<in> {Playing, Paused} \<and> cu_index d > 0 then Some (d\<lparr>cu_index := cu_index d - 1\<rparr>) else None
   | None \<Rightarrow> None)"

definition cursors_step :: "tts_op \<Rightarrow> (chapter_key \<Rightarrow> cursor option) \<Rightarrow> chapter_key \<Rightarrow> cursor option" where
  "cursors_step op cs = (case cursor_step op (cs (op_key op)) of
     Some d \<Rightarrow> cs(op_key op := Some d) | None \<Rightarrow> cs)"

definition abs_entry :: "queue_entry \<Rightarrow> cursor" where
  "abs_entry e = \<lparr>cu_state = qe_state e, cu_index = unat (qe_current_slice_index e),
     cu_total = length (sp_slices (qe_plan e))\<rparr>"

definition abs_queues :: "tts_state \<Rightarrow> chapter_key \<Rightarrow> cursor option" where
  "abs_queues q k = map_option abs_entry (map_of q k)"

subsection \<open>Well-formed queues\<close>

definition wf_entry :: "queue_entry \<Rightarrow> bool" where
  "wf_entry e = (let n = length (sp_slices (qe_plan e)); cur = unat (qe_current_slice_index e); st = qe_slice_statuses e in
     length st = n \<and> n < 2 ^ 32 \<and> cur < n
     \<and> (\<forall>j. cur < j \<and> j < n \<longrightarrow> st ! j = SlicePending) \<and> (\<forall>j < cur. st ! j \<in> {SliceDone, SlicePending})
     \<and> qe_state e \<noteq> Idle
     \<and> (if qe_state e = Completed then Suc cur = n \<and> st ! cur = SliceDone else st ! cur = SliceSpeaking))"

definition queues_inv :: "tts_state \<Rightarrow> bool" where
  "queues_inv q = (keyed (\<lambda>e. chapter_key_of (sp_chapter (qe_plan e))) q \<and> (\<forall>(k, e) \<in> set q. wf_entry e))"

fun op_fits :: "tts_op \<Rightarrow> bool" where
  "op_fits (OpPlay plan i) = (length (sp_slices plan) < 2 ^ 32)"
| "op_fits _ = True"

lemma queues_inv_at: "queues_inv q \<Longrightarrow> map_of q k = Some e \<Longrightarrow> wf_entry e \<and> chapter_key_of (sp_chapter (qe_plan e)) = k"
  by (auto simp: queues_inv_def keyed_def dest!: map_of_SomeD)

lemma queues_inv_Nil [simp]: "queues_inv []"
  by (simp add: queues_inv_def)

lemma queues_inv_insert:
  assumes "queues_inv q" "wf_entry e" "chapter_key_of (sp_chapter (qe_plan e)) = k"
  shows "queues_inv (hm_insert k e q)"
proof -
  have "hm_ok q" using assms(1) by (simp add: queues_inv_def keyed_def)
  then show ?thesis
    using assms by (auto simp: queues_inv_def set_hm_insert intro!: keyed_insert)
qed

lemma queues_inv_replace:
  assumes q: "queues_inv q" and e: "map_of q k = Some e" and e': "wf_entry e'" and plan: "qe_plan e' = qe_plan e"
  shows "queues_inv (hm_modify k (\<lambda>_. e') q)"
proof -
  have key: "chapter_key_of (sp_chapter (qe_plan e')) = k" using queues_inv_at[OF q e] plan by simp
  have "keyed (\<lambda>e. chapter_key_of (sp_chapter (qe_plan e))) (hm_modify k (\<lambda>_. e') q)"
    using q key by (auto simp: queues_inv_def keyed_def hm_modify_def hm_ok_modify[unfolded hm_modify_def] split: if_splits)
  moreover have "\<forall>(k, e) \<in> set (hm_modify k (\<lambda>_. e') q). wf_entry e"
    using q e' by (auto simp: queues_inv_def hm_modify_def split: if_splits)
  ultimately show ?thesis by (simp add: queues_inv_def)
qed

subsection \<open>Each transition\<close>

definition entry_refines :: "(queue_entry \<Rightarrow> core_error + queue_entry) \<Rightarrow> tts_op \<Rightarrow> bool" where
  "entry_refines f op = (\<forall>e. wf_entry e \<longrightarrow> (case f e of
     Inl err \<Rightarrow> cursor_step op (Some (abs_entry e)) = None
   | Inr e' \<Rightarrow> wf_entry e' \<and> qe_plan e' = qe_plan e \<and> cursor_step op (Some (abs_entry e)) = Some (abs_entry e')))"

lemma pause_refines: "entry_refines pause_entry (OpPause ch)"
  by (auto simp: entry_refines_def pause_entry_def abs_entry_def wf_entry_def Let_def)

lemma resume_refines: "entry_refines resume_entry (OpResume ch)"
  by (auto simp: entry_refines_def resume_entry_def abs_entry_def wf_entry_def Let_def)

lemma stop_refines: "entry_refines stop_entry (OpStop ch)"
  unfolding entry_refines_def
proof (intro allI impI)
  fix e assume "wf_entry e"
  then show "case stop_entry e of
      Inl err \<Rightarrow> cursor_step (OpStop ch) (Some (abs_entry e)) = None
    | Inr e' \<Rightarrow> wf_entry e' \<and> qe_plan e' = qe_plan e \<and> cursor_step (OpStop ch) (Some (abs_entry e)) = Some (abs_entry e')"
    by (cases "qe_state e") (simp_all add: stop_entry_def abs_entry_def wf_entry_def Let_def)
qed

lemma unat_word_pred: "(w :: u32) \<noteq> 0 \<Longrightarrow> unat (w - 1) = unat w - 1"
  by (rule unat_minus_one)

lemma next_refines: "entry_refines next_entry (OpNext ch)"
  unfolding entry_refines_def
proof (intro allI impI)
  fix e assume wf: "wf_entry e"
  let ?n = "length (sp_slices (qe_plan e))" and ?w = "qe_current_slice_index e"
  have n: "?n < 2 ^ 32" "unat ?w < ?n" "length (qe_slice_statuses e) = ?n" using wf by (auto simp: wf_entry_def Let_def)
  have last: "unat (of_nat (?n - 1) :: u32) = ?n - 1" using n by (intro unat_of_nat_u32) simp
  have ge: "?w \<ge> of_nat (?n - 1) \<longleftrightarrow> \<not> Suc (unat ?w) < ?n" unfolding word_le_nat_alt last using n by linarith
  show "case next_entry e of
      Inl err \<Rightarrow> cursor_step (OpNext ch) (Some (abs_entry e)) = None
    | Inr e' \<Rightarrow> wf_entry e' \<and> qe_plan e' = qe_plan e \<and> cursor_step (OpNext ch) (Some (abs_entry e)) = Some (abs_entry e')"
  proof (cases "qe_state e \<in> {Playing, Paused}")
    case False
    then show ?thesis by (auto simp: next_entry_def abs_entry_def)
  next
    case active: True
    show ?thesis
    proof (cases "Suc (unat ?w) < ?n")
      case True
      then have u: "unat (?w + 1) = Suc (unat ?w)" using n by (subst unat_succ_u32) auto
      show ?thesis
        using active True ge wf n u
        by (auto simp: next_entry_def abs_entry_def wf_entry_def Let_def nth_list_update)
    next
      case False
      then show ?thesis
        using active ge wf n
        by (auto simp: next_entry_def abs_entry_def wf_entry_def Let_def nth_list_update)
    qed
  qed
qed

lemma prev_refines: "entry_refines prev_entry (OpPrev ch)"
  unfolding entry_refines_def
proof (intro allI impI)
  fix e assume wf: "wf_entry e"
  let ?w = "qe_current_slice_index e"
  show "case prev_entry e of
      Inl err \<Rightarrow> cursor_step (OpPrev ch) (Some (abs_entry e)) = None
    | Inr e' \<Rightarrow> wf_entry e' \<and> qe_plan e' = qe_plan e \<and> cursor_step (OpPrev ch) (Some (abs_entry e)) = Some (abs_entry e')"
  proof (cases "qe_state e \<in> {Playing, Paused} \<and> ?w \<noteq> 0")
    case False
    then show ?thesis by (auto simp: prev_entry_def abs_entry_def simp del: lit_simps)
  next
    case True
    then have u: "unat (?w - 1) = unat ?w - 1" "unat ?w > 0" using unat_word_pred[of ?w] by (auto simp: unat_gt_0)
    define j where "j = unat ?w - 1"
    have j: "unat ?w = Suc j" "unat (?w - 1) = j" using u by (auto simp: j_def)
    show ?thesis
      using True wf j
      by (auto simp: prev_entry_def abs_entry_def wf_entry_def Let_def nth_list_update simp del: lit_simps)
  qed
qed

subsection \<open>The queues refine the cursors\<close>

lemma transition_refines:
  fixes enc :: "tts_chapter \<Rightarrow> json" and act :: string
  assumes f: "entry_refines f op" and k: "op_key op = chapter_key_of ch" and q: "queues_inv q"
    and none: "cursor_step op None = None"
  defines "r \<equiv> queue_transition enc ch act f q"
  shows "queues_inv (snd r) \<and> abs_queues (snd r) = cursors_step op (abs_queues q)
    \<and> (is_ok (fst r) \<longleftrightarrow> cursor_step op (abs_queues q (op_key op)) \<noteq> None)
    \<and> (\<forall>s. fst r = Inr s \<longrightarrow> (\<exists>e. map_of (snd r) (op_key op) = Some e \<and> s = entry_snapshot e))"
proof (cases "map_of q (chapter_key_of ch)")
  case None
  then show ?thesis
    using q none by (auto simp: r_def queue_transition_def cursors_step_def abs_queues_def k simp del: lit_simps)
next
  case (Some e)
  have wf: "wf_entry e" using queues_inv_at[OF q Some] by simp
  show ?thesis
  proof (cases "f e")
    case (Inl err)
    with f wf have "cursor_step op (Some (abs_entry e)) = None" by (auto simp: entry_refines_def dest!: spec[of _ e])
    with Inl Some q show ?thesis
      by (auto simp: r_def queue_transition_def cursors_step_def abs_queues_def k)
  next
    case (Inr e')
    with f wf have e': "wf_entry e'" "qe_plan e' = qe_plan e" "cursor_step op (Some (abs_entry e)) = Some (abs_entry e')"
      by (auto simp: entry_refines_def dest!: spec[of _ e])
    have "abs_queues (hm_modify (chapter_key_of ch) (\<lambda>_. e') q) = (abs_queues q)(chapter_key_of ch := Some (abs_entry e'))"
      using Some by (auto simp: abs_queues_def table_simps fun_eq_iff)
    moreover have "map_of (hm_modify (chapter_key_of ch) (\<lambda>_. e') q) (chapter_key_of ch) = Some e'"
      using Some by (simp add: table_simps)
    ultimately show ?thesis
      using Inr Some e' queues_inv_replace[OF q Some e'(1,2)]
      by (simp add: r_def queue_transition_def cursors_step_def k) (simp add: abs_queues_def k)
  qed
qed

lemma play_refines:
  fixes i :: u32
  assumes q: "queues_inv q" and n: "length (sp_slices plan) < 2 ^ 32"
  defines "r \<equiv> queue_play plan i q" and "op \<equiv> OpPlay plan i"
  shows "queues_inv (snd r) \<and> abs_queues (snd r) = cursors_step op (abs_queues q)
    \<and> (is_ok (fst r) \<longleftrightarrow> cursor_step op (abs_queues q (op_key op)) \<noteq> None)
    \<and> (\<forall>s. fst r = Inr s \<longrightarrow> (\<exists>e. map_of (snd r) (op_key op) = Some e \<and> s = entry_snapshot e))"
proof -
  let ?n = "length (sp_slices plan)" and ?k = "chapter_key_of (sp_chapter plan)"
  let ?e = "\<lparr>qe_state = Playing, qe_current_slice_index = i,
    qe_slice_statuses = (replicate ?n SlicePending)[unat i := SliceSpeaking], qe_plan = plan\<rparr>"
  let ?free = "\<forall>d. abs_queues q ?k = Some d \<longrightarrow> cu_state d \<notin> {Playing, Paused}"
  have u: "unat (of_nat ?n :: u32) = ?n" using n by (rule unat_of_nat_u32)
  have guard: "\<not> (of_nat ?n = (0 :: u32)) \<and> \<not> (of_nat ?n \<le> i) \<longleftrightarrow> unat i < ?n"
    using u by (auto simp: word_le_nat_alt)
  have free: "?free \<longleftrightarrow> (\<forall>d. map_of q ?k = Some d \<longrightarrow> qe_state d \<notin> {Playing, Paused})"
    by (auto simp: abs_queues_def abs_entry_def)
  show ?thesis
  proof (cases "unat i < ?n \<and> ?free")
    case True
    have "wf_entry ?e" using True n by (auto simp: wf_entry_def Let_def nth_list_update)
    then have "queues_inv (hm_insert ?k ?e q)" using q by (intro queues_inv_insert) auto
    moreover have "r = (Inr (entry_snapshot ?e), hm_insert ?k ?e q)"
      using True guard free unfolding r_def queue_play_def Let_def by (cases "map_of q ?k") simp_all
    moreover have "abs_queues (hm_insert ?k ?e q) = (abs_queues q)(?k := Some (abs_entry ?e))"
      by (auto simp: abs_queues_def table_simps fun_eq_iff)
    moreover have "cursor_step op (abs_queues q ?k) = Some (abs_entry ?e)"
      using True by (simp add: op_def abs_entry_def)
    ultimately show ?thesis by (simp add: op_def cursors_step_def table_simps)
  next
    case False
    then have "cursor_step op (abs_queues q ?k) = None" by (auto simp: op_def)
    moreover have "\<exists>e. r = (Inl e, q)"
      using False guard free unfolding r_def queue_play_def Let_def
      by (cases "map_of q ?k") (auto simp del: lit_simps)
    ultimately show ?thesis using q by (auto simp: op_def cursors_step_def)
  qed
qed

lemma command_refines:
  fixes enc :: "tts_chapter \<Rightarrow> json"
  assumes q: "queues_inv q" and op: "op_fits op"
  defines "r \<equiv> queue_command enc op q"
  shows "queues_inv (snd r) \<and> abs_queues (snd r) = cursors_step op (abs_queues q)
    \<and> (is_ok (fst r) \<longleftrightarrow> cursor_step op (abs_queues q (op_key op)) \<noteq> None)
    \<and> (\<forall>s. fst r = Inr s \<longrightarrow> (\<exists>e. map_of (snd r) (op_key op) = Some e \<and> s = entry_snapshot e))"
proof (cases op)
  case (OpPlay plan i)
  with play_refines[OF q, of plan i] op show ?thesis by (simp add: r_def del: cursor_step.simps)
next
  case (OpPause ch)
  with transition_refines[OF pause_refines[of ch] _ q, of ch] show ?thesis by (simp add: r_def)
next
  case (OpResume ch)
  with transition_refines[OF resume_refines[of ch] _ q, of ch] show ?thesis by (simp add: r_def)
next
  case (OpStop ch)
  with transition_refines[OF stop_refines[of ch] _ q, of ch] show ?thesis by (simp add: r_def)
next
  case (OpNext ch)
  with transition_refines[OF next_refines[of ch] _ q, of ch] show ?thesis by (simp add: r_def)
next
  case (OpPrev ch)
  with transition_refines[OF prev_refines[of ch] _ q, of ch] show ?thesis by (simp add: r_def)
qed

definition queue_step :: "(tts_chapter \<Rightarrow> json) \<Rightarrow> tts_op \<Rightarrow> tts_state \<Rightarrow> tts_state" where
  "queue_step enc op q = snd (queue_command enc op q)"

interpretation tts: refines queues_inv op_fits abs_queues "queue_step enc" cursors_step for enc
  by unfold_locales (simp_all add: queue_step_def command_refines)

text \<open>
  C4: Whatever commands the host sends, in any order and for any chapters, the playback queues
  behave as one abstract cursor per chapter: after any run the state, cursor and length of every
  queue are those of the cursor machine, the next command is accepted exactly when the machine
  allows it (playing an active queue, resuming what is not paused, stopping a completed queue or
  stepping before the first slice are refused), and an accepted command answers the snapshot of the
  chapter's queue, whose speaking slice is the cursor.
\<close>
theorem tts_refines_cursor:
  fixes enc :: "tts_chapter \<Rightarrow> json"
  assumes "\<forall>op \<in> set ops. op_fits op" and "op_fits op"
  defines "q \<equiv> fold (queue_step enc) ops []"
  shows "abs_queues q = fold cursors_step ops (\<lambda>_. None)
    \<and> (is_ok (fst (queue_command enc op q)) \<longleftrightarrow> cursor_step op (abs_queues q (op_key op)) \<noteq> None)
    \<and> abs_queues (snd (queue_command enc op q)) = cursors_step op (abs_queues q)
    \<and> (\<forall>s. fst (queue_command enc op q) = Inr s \<longrightarrow> (\<exists>e. s = entry_snapshot e \<and> wf_entry e
        \<and> map_of (snd (queue_command enc op q)) (op_key op) = Some e))"
proof -
  have q: "queues_inv q" unfolding q_def by (rule tts.run_inv[OF queues_inv_Nil assms(1)])
  have "abs_queues q = fold cursors_step ops (abs_queues [])"
    unfolding q_def by (rule tts.run_abs[OF queues_inv_Nil assms(1)])
  moreover have "abs_queues [] = (\<lambda>_. None)" by (simp add: abs_queues_def fun_eq_iff)
  ultimately show ?thesis
    using command_refines[OF q assms(2), of enc] queues_inv_at by metis
qed

definition sample_plan :: slice_plan where
  "sample_plan = slice_chapter sample_chapter_ref (lit ''a.'') Sentence"

lemma sample_plan_simps [simp]: "length (sp_slices sample_plan) = 1" "sp_chapter sample_plan = sample_chapter_ref"
  by (simp_all add: sample_plan_def slice_chapter_def slice_sentence_def trim_segment_def
      is_sentence_terminal_def is_whitespace_def Let_def)

theorem tts_refines_cursor_witness:
  "abs_queues (fold (queue_step (\<lambda>_. JNull)) [OpPlay sample_plan 0, OpNext sample_chapter_ref] [])
      (chapter_key_of sample_chapter_ref) = Some \<lparr>cu_state = Completed, cu_index = 0, cu_total = 1\<rparr>
    \<and> \<not> is_ok (fst (queue_command (\<lambda>_. JNull) (OpStop sample_chapter_ref)
        (fold (queue_step (\<lambda>_. JNull)) [OpPlay sample_plan 0, OpNext sample_chapter_ref] [])))"
proof -
  let ?ops = "[OpPlay sample_plan 0, OpNext sample_chapter_ref]"
  have "\<forall>op \<in> set ?ops. op_fits op" "op_fits (OpStop sample_chapter_ref)" by simp_all
  note t = tts_refines_cursor[OF this, of "\<lambda>_. JNull"]
  have a: "abs_queues (fold (queue_step (\<lambda>_. JNull)) ?ops []) = fold cursors_step ?ops (\<lambda>_. None)"
    using t by blast
  have c: "fold cursors_step ?ops (\<lambda>_. None) (chapter_key_of sample_chapter_ref)
      = Some \<lparr>cu_state = Completed, cu_index = 0, cu_total = 1\<rparr>"
    by (simp add: cursors_step_def)
  from t have "is_ok (fst (queue_command (\<lambda>_. JNull) (OpStop sample_chapter_ref)
        (fold (queue_step (\<lambda>_. JNull)) ?ops []))) \<longleftrightarrow>
      cursor_step (OpStop sample_chapter_ref) (abs_queues (fold (queue_step (\<lambda>_. JNull)) ?ops [])
        (op_key (OpStop sample_chapter_ref))) \<noteq> None" by blast
  with a c show ?thesis by (simp del: fold_simps)
qed

subsection \<open>Reading to the end\<close>

lemma fold_replicate_Suc: "fold f (replicate (Suc j) x) s = f x (fold f (replicate j x) s)"
  by (simp add: replicate_append_same[symmetric] del: replicate.simps)

lemma queue_step_next:
  assumes "map_of q (chapter_key_of ch) = Some e" and "next_entry e = Inr e'"
  shows "map_of (queue_step enc (OpNext ch) q) = (map_of q)(chapter_key_of ch \<mapsto> e')"
  using assms by (simp add: queue_step_def queue_transition_def table_simps)

lemma next_entry_inside:
  assumes "wf_entry e" "qe_state e \<in> {Playing, Paused}" "Suc (unat (qe_current_slice_index e)) < length (sp_slices (qe_plan e))"
  shows "\<exists>e'. next_entry e = Inr e' \<and> wf_entry e' \<and> qe_plan e' = qe_plan e \<and> qe_state e' = qe_state e
    \<and> unat (qe_current_slice_index e') = Suc (unat (qe_current_slice_index e))
    \<and> (\<forall>i \<le> unat (qe_current_slice_index e). qe_slice_statuses e' ! i
        = (if i = unat (qe_current_slice_index e) then SliceDone else qe_slice_statuses e ! i))"
proof -
  let ?w = "qe_current_slice_index e" and ?n = "length (sp_slices (qe_plan e))"
  have n: "?n < 2 ^ 32" "length (qe_slice_statuses e) = ?n" using assms(1) by (auto simp: wf_entry_def Let_def)
  have u: "unat (?w + 1) = Suc (unat ?w)" using assms(3) n by (subst unat_succ_u32) auto
  have last: "unat (of_nat (?n - 1) :: u32) = ?n - 1" using n by (intro unat_of_nat_u32) simp
  have "\<not> ?w \<ge> of_nat (?n - 1)" unfolding word_le_nat_alt last using assms(3) by linarith
  then have e': "next_entry e = Inr (e\<lparr>qe_slice_statuses := (qe_slice_statuses e)[unat ?w := SliceDone, unat (?w + 1) := SliceSpeaking],
      qe_current_slice_index := ?w + 1\<rparr>)" using assms(2) by (simp add: next_entry_def Let_def)
  moreover have "wf_entry (e\<lparr>qe_slice_statuses := (qe_slice_statuses e)[unat ?w := SliceDone, unat (?w + 1) := SliceSpeaking],
      qe_current_slice_index := ?w + 1\<rparr>)"
    using next_refines[of undefined] assms(1) e' by (auto simp: entry_refines_def dest!: spec[of _ e])
  ultimately show ?thesis using u n assms(3) by (auto simp: nth_list_update)
qed

lemma next_entry_last:
  assumes "wf_entry e" "qe_state e \<in> {Playing, Paused}" "Suc (unat (qe_current_slice_index e)) = length (sp_slices (qe_plan e))"
  shows "next_entry e = Inr (e\<lparr>qe_slice_statuses := (qe_slice_statuses e)[unat (qe_current_slice_index e) := SliceDone],
      qe_state := Completed\<rparr>)"
proof -
  let ?n = "length (sp_slices (qe_plan e))"
  have "?n < 2 ^ 32" using assms(1) by (auto simp: wf_entry_def Let_def)
  then have last: "unat (of_nat (?n - 1) :: u32) = ?n - 1" by (intro unat_of_nat_u32) simp
  have "qe_current_slice_index e \<ge> of_nat (?n - 1)" unfolding word_le_nat_alt last using assms(3) by linarith
  then show ?thesis using assms(2) by (simp add: next_entry_def Let_def)
qed

lemma nexts_inside:
  fixes enc :: "tts_chapter \<Rightarrow> json"
  assumes q: "map_of q (chapter_key_of ch) = Some e" "wf_entry e" "qe_state e \<in> {Playing, Paused}"
    and j: "unat (qe_current_slice_index e) + j < length (sp_slices (qe_plan e))"
  defines "q' \<equiv> fold (queue_step enc) (replicate j (OpNext ch)) q"
  shows "\<exists>e'. map_of q' = (map_of q)(chapter_key_of ch \<mapsto> e') \<and> wf_entry e' \<and> qe_state e' = qe_state e
    \<and> qe_plan e' = qe_plan e \<and> unat (qe_current_slice_index e') = unat (qe_current_slice_index e) + j
    \<and> (\<forall>i. unat (qe_current_slice_index e) \<le> i \<and> i < unat (qe_current_slice_index e) + j \<longrightarrow>
        qe_slice_statuses e' ! i = SliceDone)"
  using j unfolding q'_def
proof (induction j)
  case 0
  have "(map_of q)(chapter_key_of ch \<mapsto> e) = map_of q" using q(1) by (rule fun_upd_idem)
  with q show ?case by (intro exI[of _ e]) auto
next
  case (Suc j)
  let ?q = "fold (queue_step enc) (replicate j (OpNext ch)) q"
  obtain e1 where e1: "map_of ?q = (map_of q)(chapter_key_of ch \<mapsto> e1)" "wf_entry e1" "qe_state e1 = qe_state e"
    "qe_plan e1 = qe_plan e" "unat (qe_current_slice_index e1) = unat (qe_current_slice_index e) + j"
    "\<forall>i. unat (qe_current_slice_index e) \<le> i \<and> i < unat (qe_current_slice_index e) + j \<longrightarrow>
        qe_slice_statuses e1 ! i = SliceDone"
  proof -
    have "unat (qe_current_slice_index e) + j < length (sp_slices (qe_plan e))" using Suc.prems by simp
    from Suc.IH[OF this] show ?thesis using that by blast
  qed
  obtain e2 where e2: "next_entry e1 = Inr e2" "wf_entry e2" "qe_plan e2 = qe_plan e1" "qe_state e2 = qe_state e1"
    "unat (qe_current_slice_index e2) = Suc (unat (qe_current_slice_index e1))"
    "\<forall>i \<le> unat (qe_current_slice_index e1). qe_slice_statuses e2 ! i
        = (if i = unat (qe_current_slice_index e1) then SliceDone else qe_slice_statuses e1 ! i)"
    using next_entry_inside[of e1] e1 q(3) Suc.prems by auto
  have "map_of (queue_step enc (OpNext ch) ?q) = (map_of q)(chapter_key_of ch \<mapsto> e2)"
    using queue_step_next[of ?q ch e1 e2 enc] e1(1) e2(1) by simp
  then show ?case
    using e1 e2 by (intro exI[of _ e2]) (auto simp: fold_replicate_Suc simp del: replicate.simps)
qed

text \<open>
  C27: Reading on always ends: from a playing or paused queue, pressing next once per remaining slice
  (the current one included) completes the queue, and not earlier; the slices read are then all
  done, and the queues of other chapters are untouched.
\<close>
theorem next_reaches_completion:
  assumes q: "queues_inv q" and e: "map_of q (chapter_key_of ch) = Some e" and active: "qe_state e \<in> {Playing, Paused}"
  defines "cur \<equiv> unat (qe_current_slice_index e)" and "n \<equiv> length (sp_slices (qe_plan e))"
  shows "(\<forall>j < n - cur. abs_queues (fold (queue_step enc) (replicate j (OpNext ch)) q) (chapter_key_of ch)
        = Some \<lparr>cu_state = qe_state e, cu_index = cur + j, cu_total = n\<rparr>)
    \<and> (\<exists>e'. map_of (fold (queue_step enc) (replicate (n - cur) (OpNext ch)) q) = (map_of q)(chapter_key_of ch \<mapsto> e')
        \<and> qe_state e' = Completed \<and> qe_plan e' = qe_plan e
        \<and> (\<forall>i. cur \<le> i \<and> i < n \<longrightarrow> qe_slice_statuses e' ! i = SliceDone))"
proof -
  have wf: "wf_entry e" using queues_inv_at[OF q e] by simp
  then have cur: "cur < n" "length (qe_slice_statuses e) = n" by (auto simp: wf_entry_def Let_def cur_def n_def)
  have during: "abs_queues (fold (queue_step enc) (replicate j (OpNext ch)) q) (chapter_key_of ch)
      = Some \<lparr>cu_state = qe_state e, cu_index = cur + j, cu_total = n\<rparr>" if "j < n - cur" for j
  proof -
    have "cur + j < n" using that by simp
    then obtain e' where "map_of (fold (queue_step enc) (replicate j (OpNext ch)) q) = (map_of q)(chapter_key_of ch \<mapsto> e')"
      "qe_state e' = qe_state e" "qe_plan e' = qe_plan e" "unat (qe_current_slice_index e') = cur + j"
      using nexts_inside[OF e wf active, of j enc] unfolding cur_def n_def by blast
    then show ?thesis by (simp add: abs_queues_def abs_entry_def n_def del: fold_replicate)
  qed
  define m where "m = n - cur - 1"
  let ?q = "fold (queue_step enc) (replicate m (OpNext ch)) q"
  have "cur + m < n" using cur by (simp add: m_def)
  then obtain e1 where e1: "map_of ?q = (map_of q)(chapter_key_of ch \<mapsto> e1)" "wf_entry e1" "qe_state e1 = qe_state e"
    "qe_plan e1 = qe_plan e" "unat (qe_current_slice_index e1) = cur + m"
    "\<forall>i. cur \<le> i \<and> i < cur + m \<longrightarrow> qe_slice_statuses e1 ! i = SliceDone"
    using nexts_inside[OF e wf active, of m enc] unfolding cur_def n_def by blast
  let ?e2 = "e1\<lparr>qe_slice_statuses := (qe_slice_statuses e1)[unat (qe_current_slice_index e1) := SliceDone], qe_state := Completed\<rparr>"
  have idx: "Suc (unat (qe_current_slice_index e1)) = n" using e1 cur by (simp add: m_def)
  have "next_entry e1 = Inr ?e2" using next_entry_last[of e1] e1 active idx by (simp add: n_def)
  then have "map_of (queue_step enc (OpNext ch) ?q) = (map_of q)(chapter_key_of ch \<mapsto> ?e2)"
    using queue_step_next[of ?q ch e1 ?e2 enc] e1(1) by simp
  moreover have "fold (queue_step enc) (replicate (n - cur) (OpNext ch)) q = queue_step enc (OpNext ch) ?q"
  proof -
    have "n - cur = Suc m" using cur by (simp add: m_def)
    then show ?thesis by (simp only: fold_replicate_Suc)
  qed
  moreover have "length (qe_slice_statuses e1) = n" using e1 by (auto simp: wf_entry_def Let_def n_def)
  moreover have "qe_slice_statuses ?e2 ! i = SliceDone" if "cur \<le> i" "i < n" for i
    using that e1 idx \<open>length (qe_slice_statuses e1) = n\<close> by (cases "i = unat (qe_current_slice_index e1)") auto
  ultimately show ?thesis using during e1 by (auto intro!: exI[of _ ?e2])
qed

theorem next_reaches_completion_witness:
  "\<exists>e'. map_of (fold (queue_step (\<lambda>_. JNull)) [OpNext sample_chapter_ref] (snd (queue_play sample_plan 0 [])))
      (chapter_key_of sample_chapter_ref) = Some e' \<and> qe_state e' = Completed"
proof -
  let ?q = "snd (queue_play sample_plan 0 [])"
  let ?e = "\<lparr>qe_state = Playing, qe_current_slice_index = 0, qe_slice_statuses = [SliceSpeaking], qe_plan = sample_plan\<rparr>"
  have q: "?q = [(chapter_key_of sample_chapter_ref, ?e)]"
    by (simp add: queue_play_def Let_def hm_insert_def)
  have "queues_inv ?q" using play_refines[of "[]" sample_plan 0] by simp
  moreover have "map_of ?q (chapter_key_of sample_chapter_ref) = Some ?e" unfolding q by simp
  moreover have "qe_state ?e \<in> {Playing, Paused}" by simp
  ultimately have "\<exists>e'. map_of (fold (queue_step (\<lambda>_. JNull)) (replicate (1 - 0) (OpNext sample_chapter_ref)) ?q)
      = (map_of ?q)(chapter_key_of sample_chapter_ref \<mapsto> e') \<and> qe_state e' = Completed"
    using next_reaches_completion[of ?q sample_chapter_ref ?e "\<lambda>_. JNull"] by auto
  then show ?thesis by auto
qed

end
