(* ===== verification/HostTypes.thy ===== *)
theory HostTypes
  imports Contract
begin

text \<open>
  The request and result payloads of the host capabilities and their validators
  (\<open>crates/reader-contract/src/host.rs\<close>). serde's derived decoders and encoders of these structs are
  the fields of \<open>host_codec\<close> (a decoder answers the text of the serde error or the struct); the
  validators, the capability dispatch of \<open>HostSmokeParams::validate\<close> and their error messages are
  those of the source.
\<close>

subsection \<open>Field checks\<close>

type_synonym check = "ustr + unit"

definition validate_optional_non_blank :: "ustr option \<Rightarrow> string \<Rightarrow> check" where
  "validate_optional_non_blank v field = (case v of
     Some s \<Rightarrow> ensure (\<not> blank s) (lit field @ lit '' must not be blank'') | None \<Rightarrow> Inr ())"

definition validate_required_non_blank :: "ustr \<Rightarrow> string \<Rightarrow> check" where
  "validate_required_non_blank v field = ensure (\<not> blank v) (lit field @ lit '' must not be blank'')"

definition validate_optional_positive :: "u64 option \<Rightarrow> string \<Rightarrow> check" where
  "validate_optional_positive v field
     = ensure (v \<noteq> Some 0) (lit field @ lit '' must be greater than 0'')"

definition validate_object_value :: "json \<Rightarrow> string \<Rightarrow> check" where
  "validate_object_value v field = ensure (is_object v) (lit field @ lit '' must be a JSON object'')"

fun validate_exactly_one_string_payload ::
    "ustr option \<Rightarrow> ustr option \<Rightarrow> string \<Rightarrow> string \<Rightarrow> string \<Rightarrow> check" where
  "validate_exactly_one_string_payload (Some _) None f g label = Inr ()"
| "validate_exactly_one_string_payload None (Some _) f g label = Inr ()"
| "validate_exactly_one_string_payload None None f g label
     = Inl (lit label @ lit '' requires '' @ lit f @ lit '' or '' @ lit g)"
| "validate_exactly_one_string_payload (Some _) (Some _) f g label
     = Inl (lit label @ lit '' must not include both '' @ lit f @ lit '' and '' @ lit g)"

definition with_self :: "string \<Rightarrow> json \<Rightarrow> check \<Rightarrow> core_error + unit" where
  \<comment> \<open>\<open>.map_err(|message| CoreError::invalid_params(message).with_details(json!({ label: self })))\<close>\<close>
  "with_self label self r = (case r of
     Inl message \<Rightarrow> Inl (with_details (invalid_params message) (JObj [(lit label, self)]))
   | Inr _ \<Rightarrow> Inr ())"

subsection \<open>Payloads\<close>

datatype webview_document_kind = DocHtml | DocUrl

record webview_document =
  wd_kind :: webview_document_kind
  wd_body :: "ustr option"
  wd_url :: "ustr option"
  wd_base_url :: "ustr option"

record webview_request =
  wq_document :: webview_document
  wq_java_script :: ustr
  wq_timeout_millis :: "u64 option"
  wq_profile_id :: "ustr option"

record webview_response =
  wr_value :: json
  wr_final_url :: "ustr option"
  wr_title :: "ustr option"

record file_read_request =
  frq_path :: ustr
  frq_encoding :: "ustr option"
  frq_byte_offset :: "u64 option"
  frq_max_bytes :: "u64 option"

record file_read_response =
  frr_content :: "ustr option"
  frr_content_base64 :: "ustr option"
  frr_encoding :: "ustr option"
  frr_byte_length :: "u64 option"

record file_write_request =
  fwq_path :: ustr
  fwq_content :: "ustr option"
  fwq_content_base64 :: "ustr option"
  fwq_encoding :: "ustr option"
  fwq_create_directories :: "bool option"
  fwq_append :: "bool option"

record file_write_response =
  fwr_written :: bool
  fwr_byte_length :: "u64 option"

record cache_get_request =
  cgq_namespace :: ustr
  cgq_key :: ustr

record cache_get_response =
  cgr_hit :: bool
  cgr_value :: "ustr option"
  cgr_value_base64 :: "ustr option"
  cgr_expires_at :: "ustr option"

record cache_put_request =
  cpq_namespace :: ustr
  cpq_key :: ustr
  cpq_value :: "ustr option"
  cpq_value_base64 :: "ustr option"
  cpq_ttl_millis :: "u64 option"

record cache_put_response =
  cpr_stored :: bool
  cpr_expires_at :: "ustr option"

record cookie_record =
  ck_name :: ustr
  ck_value :: "ustr option"
  ck_domain :: "ustr option"
  ck_path :: "ustr option"
  ck_expires_at :: "ustr option"
  ck_http_only :: "bool option"
  ck_secure :: "bool option"
  ck_same_site :: "ustr option"

record cookie_get_request =
  ckq_url :: "ustr option"
  ckq_domain :: "ustr option"
  ckq_name :: "ustr option"
  ckq_session_id :: "ustr option"

record cookie_get_response =
  ckr_cookies :: "cookie_record list"

record cookie_set_request =
  csq_cookie :: cookie_record
  csq_url :: "ustr option"
  csq_session_id :: "ustr option"

record cookie_set_response =
  csr_stored :: bool

datatype log_level = LogTrace | LogDebug | LogInfo | LogWarn | LogError

record log_emit_request =
  lgq_level :: log_level
  lgq_message :: ustr
  lgq_target :: "ustr option"
  lgq_fields :: json

record log_emit_response =
  lgr_emitted :: bool

record time_now_request =
  tnq_clock :: "ustr option"
  tnq_timezone :: "ustr option"

record time_now_response =
  tnr_unix_millis :: u64
  tnr_iso8601 :: ustr
  tnr_timezone :: "ustr option"

record system_info_request =
  siq_keys :: "ustr list"

record system_info_response =
  sir_info :: json

record persistence_get_request =
  pgq_namespace :: ustr
  pgq_key :: ustr

record persistence_get_response =
  pgr_found :: bool
  pgr_value :: "ustr option"
  pgr_value_base64 :: "ustr option"
  pgr_revision :: "ustr option"

record persistence_put_request =
  ppq_namespace :: ustr
  ppq_key :: ustr
  ppq_value :: "ustr option"
  ppq_value_base64 :: "ustr option"
  ppq_expected_revision :: "ustr option"

record persistence_put_response =
  ppr_stored :: bool
  ppr_revision :: "ustr option"

datatype host_payload =
    PWebViewDocument webview_document | PWebViewRequest webview_request | PWebViewResponse webview_response
  | PFileReadRequest file_read_request | PFileReadResponse file_read_response
  | PFileWriteRequest file_write_request | PFileWriteResponse file_write_response
  | PCacheGetRequest cache_get_request | PCacheGetResponse cache_get_response
  | PCachePutRequest cache_put_request | PCachePutResponse cache_put_response
  | PCookieRecord cookie_record
  | PCookieGetRequest cookie_get_request | PCookieGetResponse cookie_get_response
  | PCookieSetRequest cookie_set_request | PCookieSetResponse cookie_set_response
  | PLogEmitRequest log_emit_request | PLogEmitResponse log_emit_response
  | PTimeNowRequest time_now_request | PTimeNowResponse time_now_response
  | PSystemInfoRequest system_info_request | PSystemInfoResponse system_info_response
  | PPersistenceGetRequest persistence_get_request | PPersistenceGetResponse persistence_get_response
  | PPersistencePutRequest persistence_put_request | PPersistencePutResponse persistence_put_response

type_synonym encoder = "host_payload \<Rightarrow> json"

subsection \<open>Request validators\<close>

definition validate_webview_document :: "encoder \<Rightarrow> webview_document \<Rightarrow> core_error + unit" where
  "validate_webview_document enc d = (
     let self = enc (PWebViewDocument d);
         reject = (\<lambda>m. with_details (invalid_params (lit m)) (JObj [(lit ''document'', self)]))
     in case wd_kind d of
       DocHtml \<Rightarrow> checks
         [with_self ''document'' self (checks
            [validate_optional_non_blank (wd_body d) ''webview document body'',
             validate_optional_non_blank (wd_base_url d) ''webview document baseUrl'']),
          ensure (wd_url d = None) (reject ''webview html document must not include url''),
          ensure (wd_body d \<noteq> None) (reject ''webview html document requires body'')]
     | DocUrl \<Rightarrow> checks
         [with_self ''document'' self (validate_optional_non_blank (wd_url d) ''webview document url''),
          ensure (wd_body d = None \<and> wd_base_url d = None)
            (reject ''webview url document must not include body or baseUrl''),
          ensure (wd_url d \<noteq> None) (reject ''webview url document requires url'')])"

definition validate_webview_request :: "encoder \<Rightarrow> webview_request \<Rightarrow> core_error + unit" where
  "validate_webview_request enc q = checks
     [validate_webview_document enc (wq_document q),
      with_self ''params'' (enc (PWebViewRequest q)) (checks
        [validate_required_non_blank (wq_java_script q) ''webview.evaluateJavaScript javaScript'',
         validate_optional_non_blank (wq_profile_id q) ''webview.evaluateJavaScript profileId'']),
      ensure (wq_timeout_millis q \<noteq> Some 0) (with_details
        (invalid_params (lit ''webview.evaluateJavaScript timeoutMillis must be greater than 0''))
        (JObj [(lit ''timeoutMillis'', json_u64 0)]))]"

definition validate_file_read_request :: "encoder \<Rightarrow> file_read_request \<Rightarrow> core_error + unit" where
  "validate_file_read_request enc q = with_self ''params'' (enc (PFileReadRequest q)) (checks
     [validate_required_non_blank (frq_path q) ''file.read path'',
      validate_optional_non_blank (frq_encoding q) ''file.read encoding'',
      validate_optional_positive (frq_max_bytes q) ''file.read maxBytes''])"

definition validate_file_write_request :: "encoder \<Rightarrow> file_write_request \<Rightarrow> core_error + unit" where
  "validate_file_write_request enc q = with_self ''params'' (enc (PFileWriteRequest q)) (checks
     [validate_required_non_blank (fwq_path q) ''file.write path'',
      validate_exactly_one_string_payload (fwq_content q) (fwq_content_base64 q)
        ''content'' ''contentBase64'' ''file.write params'',
      validate_optional_non_blank (fwq_encoding q) ''file.write encoding''])"

definition validate_cache_get_request :: "encoder \<Rightarrow> cache_get_request \<Rightarrow> core_error + unit" where
  "validate_cache_get_request enc q = with_self ''params'' (enc (PCacheGetRequest q)) (checks
     [validate_required_non_blank (cgq_namespace q) ''cache.get namespace'',
      validate_required_non_blank (cgq_key q) ''cache.get key''])"

definition validate_cache_put_request :: "encoder \<Rightarrow> cache_put_request \<Rightarrow> core_error + unit" where
  "validate_cache_put_request enc q = with_self ''params'' (enc (PCachePutRequest q)) (checks
     [validate_required_non_blank (cpq_namespace q) ''cache.put namespace'',
      validate_required_non_blank (cpq_key q) ''cache.put key'',
      validate_exactly_one_string_payload (cpq_value q) (cpq_value_base64 q)
        ''value'' ''valueBase64'' ''cache.put params'',
      validate_optional_positive (cpq_ttl_millis q) ''cache.put ttlMillis''])"

definition validate_cookie_record :: "encoder \<Rightarrow> cookie_record \<Rightarrow> core_error + unit" where
  "validate_cookie_record enc c = with_self ''cookie'' (enc (PCookieRecord c)) (checks
     [validate_required_non_blank (ck_name c) ''cookie.name'',
      validate_optional_non_blank (ck_domain c) ''cookie.domain'',
      validate_optional_non_blank (ck_path c) ''cookie.path'',
      validate_optional_non_blank (ck_expires_at c) ''cookie.expiresAt'',
      validate_optional_non_blank (ck_same_site c) ''cookie.sameSite''])"

definition validate_cookie_get_request :: "encoder \<Rightarrow> cookie_get_request \<Rightarrow> core_error + unit" where
  "validate_cookie_get_request enc q = (let self = enc (PCookieGetRequest q) in checks
     [ensure (\<not> (ckq_url q = None \<and> ckq_domain q = None \<and> ckq_session_id q = None)) (with_details
        (invalid_params (lit ''cookie.get requires url, domain, or sessionId'')) (JObj [(lit ''params'', self)])),
      with_self ''params'' self (checks
        [validate_optional_non_blank (ckq_url q) ''cookie.get url'',
         validate_optional_non_blank (ckq_domain q) ''cookie.get domain'',
         validate_optional_non_blank (ckq_name q) ''cookie.get name'',
         validate_optional_non_blank (ckq_session_id q) ''cookie.get sessionId''])])"

definition validate_cookie_set_request :: "encoder \<Rightarrow> cookie_set_request \<Rightarrow> core_error + unit" where
  "validate_cookie_set_request enc q = checks
     [validate_cookie_record enc (csq_cookie q),
      with_self ''params'' (enc (PCookieSetRequest q)) (checks
        [validate_optional_non_blank (csq_url q) ''cookie.set url'',
         validate_optional_non_blank (csq_session_id q) ''cookie.set sessionId''])]"

definition validate_log_emit_request :: "encoder \<Rightarrow> log_emit_request \<Rightarrow> core_error + unit" where
  "validate_log_emit_request enc q = with_self ''params'' (enc (PLogEmitRequest q)) (checks
     [validate_required_non_blank (lgq_message q) ''log.emit message'',
      validate_optional_non_blank (lgq_target q) ''log.emit target'',
      validate_object_value (lgq_fields q) ''log.emit fields''])"

definition validate_time_now_request :: "encoder \<Rightarrow> time_now_request \<Rightarrow> core_error + unit" where
  "validate_time_now_request enc q = with_self ''params'' (enc (PTimeNowRequest q)) (checks
     [validate_optional_non_blank (tnq_clock q) ''time.now clock'',
      validate_optional_non_blank (tnq_timezone q) ''time.now timezone''])"

definition validate_system_info_request :: "encoder \<Rightarrow> system_info_request \<Rightarrow> core_error + unit" where
  "validate_system_info_request enc q = ensure (\<not> list_ex blank (siq_keys q)) (with_details
     (invalid_params (lit ''system.info keys must not be blank''))
     (JObj [(lit ''params'', enc (PSystemInfoRequest q))]))"

definition validate_persistence_get_request ::
    "encoder \<Rightarrow> persistence_get_request \<Rightarrow> core_error + unit" where
  "validate_persistence_get_request enc q = with_self ''params'' (enc (PPersistenceGetRequest q)) (checks
     [validate_required_non_blank (pgq_namespace q) ''persistence.get namespace'',
      validate_required_non_blank (pgq_key q) ''persistence.get key''])"

definition validate_persistence_put_request ::
    "encoder \<Rightarrow> persistence_put_request \<Rightarrow> core_error + unit" where
  "validate_persistence_put_request enc q = with_self ''params'' (enc (PPersistencePutRequest q)) (checks
     [validate_required_non_blank (ppq_namespace q) ''persistence.put namespace'',
      validate_required_non_blank (ppq_key q) ''persistence.put key'',
      validate_exactly_one_string_payload (ppq_value q) (ppq_value_base64 q)
        ''value'' ''valueBase64'' ''persistence.put params'',
      validate_optional_non_blank (ppq_expected_revision q) ''persistence.put expectedRevision''])"

subsection \<open>Result validators\<close>

definition acknowledged :: "bool \<Rightarrow> string \<Rightarrow> json \<Rightarrow> core_error + unit" where
  \<comment> \<open>the flag of an acknowledgement must be true\<close>
  "acknowledged flag message self = ensure flag
     (with_details (invalid_params (lit message)) (JObj [(lit ''result'', self)]))"

definition validate_webview_response :: "encoder \<Rightarrow> webview_response \<Rightarrow> core_error + unit" where
  "validate_webview_response enc r = with_self ''result'' (enc (PWebViewResponse r)) (checks
     [validate_optional_non_blank (wr_final_url r) ''webview.evaluateJavaScript finalUrl'',
      validate_optional_non_blank (wr_title r) ''webview.evaluateJavaScript title''])"

definition validate_file_read_response :: "encoder \<Rightarrow> file_read_response \<Rightarrow> core_error + unit" where
  "validate_file_read_response enc r = with_self ''result'' (enc (PFileReadResponse r)) (checks
     [validate_exactly_one_string_payload (frr_content r) (frr_content_base64 r)
        ''content'' ''contentBase64'' ''file.read result'',
      validate_optional_non_blank (frr_encoding r) ''file.read encoding''])"

definition validate_file_write_response :: "encoder \<Rightarrow> file_write_response \<Rightarrow> core_error + unit" where
  "validate_file_write_response enc r
     = acknowledged (fwr_written r) ''file.write result written must be true'' (enc (PFileWriteResponse r))"

definition validate_cache_get_response :: "encoder \<Rightarrow> cache_get_response \<Rightarrow> core_error + unit" where
  "validate_cache_get_response enc r = with_self ''result'' (enc (PCacheGetResponse r)) (checks
     [if cgr_hit r then validate_exactly_one_string_payload (cgr_value r) (cgr_value_base64 r)
          ''value'' ''valueBase64'' ''cache.get hit result''
      else if cgr_value r \<noteq> None \<or> cgr_value_base64 r \<noteq> None
      then Inl (lit ''cache.get miss result must not include value or valueBase64'')
      else Inr (),
      validate_optional_non_blank (cgr_expires_at r) ''cache.get expiresAt''])"

definition validate_cache_put_response :: "encoder \<Rightarrow> cache_put_response \<Rightarrow> core_error + unit" where
  "validate_cache_put_response enc r = (let self = enc (PCachePutResponse r) in checks
     [acknowledged (cpr_stored r) ''cache.put result stored must be true'' self,
      with_self ''result'' self (validate_optional_non_blank (cpr_expires_at r) ''cache.put expiresAt'')])"

definition validate_cookie_get_response :: "encoder \<Rightarrow> cookie_get_response \<Rightarrow> core_error + unit" where
  "validate_cookie_get_response enc r = check_each (validate_cookie_record enc) (ckr_cookies r)"

definition validate_cookie_set_response :: "encoder \<Rightarrow> cookie_set_response \<Rightarrow> core_error + unit" where
  "validate_cookie_set_response enc r
     = acknowledged (csr_stored r) ''cookie.set result stored must be true'' (enc (PCookieSetResponse r))"

definition validate_log_emit_response :: "encoder \<Rightarrow> log_emit_response \<Rightarrow> core_error + unit" where
  "validate_log_emit_response enc r
     = acknowledged (lgr_emitted r) ''log.emit result emitted must be true'' (enc (PLogEmitResponse r))"

definition validate_time_now_response :: "encoder \<Rightarrow> time_now_response \<Rightarrow> core_error + unit" where
  "validate_time_now_response enc r = with_self ''result'' (enc (PTimeNowResponse r)) (checks
     [validate_required_non_blank (tnr_iso8601 r) ''time.now iso8601'',
      validate_optional_non_blank (tnr_timezone r) ''time.now timezone''])"

definition validate_system_info_response :: "encoder \<Rightarrow> system_info_response \<Rightarrow> core_error + unit" where
  "validate_system_info_response enc r = with_self ''result'' (enc (PSystemInfoResponse r))
     (validate_object_value (sir_info r) ''system.info result info'')"

definition validate_persistence_get_response ::
    "encoder \<Rightarrow> persistence_get_response \<Rightarrow> core_error + unit" where
  "validate_persistence_get_response enc r = with_self ''result'' (enc (PPersistenceGetResponse r)) (checks
     [if pgr_found r then validate_exactly_one_string_payload (pgr_value r) (pgr_value_base64 r)
          ''value'' ''valueBase64'' ''persistence.get found result''
      else if pgr_value r \<noteq> None \<or> pgr_value_base64 r \<noteq> None
      then Inl (lit ''persistence.get miss result must not include value or valueBase64'')
      else Inr (),
      validate_optional_non_blank (pgr_revision r) ''persistence.get revision''])"

definition validate_persistence_put_response ::
    "encoder \<Rightarrow> persistence_put_response \<Rightarrow> core_error + unit" where
  "validate_persistence_put_response enc r = (let self = enc (PPersistencePutResponse r) in checks
     [acknowledged (ppr_stored r) ''persistence.put result stored must be true'' self,
      with_self ''result'' self (validate_optional_non_blank (ppr_revision r) ''persistence.put revision'')])"

subsection \<open>Dispatch on the capability\<close>

type_synonym 'a decoder = "json \<Rightarrow> ustr + 'a"

record host_codec =
  encode_payload :: encoder
  dec_webview_request :: "webview_request decoder"
  dec_file_read_request :: "file_read_request decoder"
  dec_file_write_request :: "file_write_request decoder"
  dec_cache_get_request :: "cache_get_request decoder"
  dec_cache_put_request :: "cache_put_request decoder"
  dec_cookie_get_request :: "cookie_get_request decoder"
  dec_cookie_set_request :: "cookie_set_request decoder"
  dec_log_emit_request :: "log_emit_request decoder"
  dec_time_now_request :: "time_now_request decoder"
  dec_system_info_request :: "system_info_request decoder"
  dec_persistence_get_request :: "persistence_get_request decoder"
  dec_persistence_put_request :: "persistence_put_request decoder"
  dec_webview_response :: "webview_response decoder"
  dec_file_read_response :: "file_read_response decoder"
  dec_file_write_response :: "file_write_response decoder"
  dec_cache_get_response :: "cache_get_response decoder"
  dec_cache_put_response :: "cache_put_response decoder"
  dec_cookie_get_response :: "cookie_get_response decoder"
  dec_cookie_set_response :: "cookie_set_response decoder"
  dec_log_emit_response :: "log_emit_response decoder"
  dec_time_now_response :: "time_now_response decoder"
  dec_system_info_response :: "system_info_response decoder"
  dec_persistence_get_response :: "persistence_get_response decoder"
  dec_persistence_put_response :: "persistence_put_response decoder"

definition decode_payload ::
    "string \<Rightarrow> host_capability \<Rightarrow> 'a decoder \<Rightarrow> ('a \<Rightarrow> core_error + unit) \<Rightarrow> json \<Rightarrow> core_error + unit" where
  \<comment> \<open>decode, naming what was invalid, then validate; every label is the capability's own name\<close>
  "decode_payload what capability dec validate v = (case dec v of
     Inl serde_error \<Rightarrow> Inl (with_details
       (invalid_params (lit ''invalid '' @ lit what @ lit '' for '' @ capability_as_str capability))
       (JObj [(lit ''source'', JStr serde_error), (lit ''capability'', JStr (capability_as_str capability))]))
   | Inr payload \<Rightarrow> validate payload)"

record host_smoke_params =
  hs_capability :: host_capability
  hs_params :: json

definition validate_host_smoke_params :: "host_codec \<Rightarrow> host_smoke_params \<Rightarrow> core_error + unit" where
  "validate_host_smoke_params K p = (
     let c = hs_capability p; v = hs_params p; enc = encode_payload K; what = ''params''
     in case c of
       WebViewEvaluateJavaScript \<Rightarrow> decode_payload what c (dec_webview_request K) (validate_webview_request enc) v
     | FileRead \<Rightarrow> decode_payload what c (dec_file_read_request K) (validate_file_read_request enc) v
     | FileWrite \<Rightarrow> decode_payload what c (dec_file_write_request K) (validate_file_write_request enc) v
     | CacheGet \<Rightarrow> decode_payload what c (dec_cache_get_request K) (validate_cache_get_request enc) v
     | CachePut \<Rightarrow> decode_payload what c (dec_cache_put_request K) (validate_cache_put_request enc) v
     | CookieGet \<Rightarrow> decode_payload what c (dec_cookie_get_request K) (validate_cookie_get_request enc) v
     | CookieSet \<Rightarrow> decode_payload what c (dec_cookie_set_request K) (validate_cookie_set_request enc) v
     | LogEmit \<Rightarrow> decode_payload what c (dec_log_emit_request K) (validate_log_emit_request enc) v
     | TimeNow \<Rightarrow> decode_payload what c (dec_time_now_request K) (validate_time_now_request enc) v
     | SystemInfo \<Rightarrow> decode_payload what c (dec_system_info_request K) (validate_system_info_request enc) v
     | PersistenceGet \<Rightarrow>
         decode_payload what c (dec_persistence_get_request K) (validate_persistence_get_request enc) v
     | PersistencePut \<Rightarrow>
         decode_payload what c (dec_persistence_put_request K) (validate_persistence_put_request enc) v
     | _ \<Rightarrow> Inr ())"

definition complete_echo_host_operation ::
    "host_codec \<Rightarrow> host_capability \<Rightarrow> json \<Rightarrow> core_error + json" where
  "complete_echo_host_operation K c v = (
     let enc = encode_payload K; what = ''result''
     in and_then (case c of
       WebViewEvaluateJavaScript \<Rightarrow> decode_payload what c (dec_webview_response K) (validate_webview_response enc) v
     | FileRead \<Rightarrow> decode_payload what c (dec_file_read_response K) (validate_file_read_response enc) v
     | FileWrite \<Rightarrow> decode_payload what c (dec_file_write_response K) (validate_file_write_response enc) v
     | CacheGet \<Rightarrow> decode_payload what c (dec_cache_get_response K) (validate_cache_get_response enc) v
     | CachePut \<Rightarrow> decode_payload what c (dec_cache_put_response K) (validate_cache_put_response enc) v
     | CookieGet \<Rightarrow> decode_payload what c (dec_cookie_get_response K) (validate_cookie_get_response enc) v
     | CookieSet \<Rightarrow> decode_payload what c (dec_cookie_set_response K) (validate_cookie_set_response enc) v
     | LogEmit \<Rightarrow> decode_payload what c (dec_log_emit_response K) (validate_log_emit_response enc) v
     | TimeNow \<Rightarrow> decode_payload what c (dec_time_now_response K) (validate_time_now_response enc) v
     | SystemInfo \<Rightarrow> decode_payload what c (dec_system_info_response K) (validate_system_info_response enc) v
     | PersistenceGet \<Rightarrow>
         decode_payload what c (dec_persistence_get_response K) (validate_persistence_get_response enc) v
     | PersistencePut \<Rightarrow>
         decode_payload what c (dec_persistence_put_response K) (validate_persistence_put_response enc) v
     | _ \<Rightarrow> Inr ()) (\<lambda>_. Inr v))"

subsection \<open>What the host may answer\<close>

lemma with_self_ok [simp]: "with_self l j r = Inr u \<longleftrightarrow> r = Inr ()"
  by (auto simp: with_self_def split: sum.splits)

lemma with_self_code: "with_self l j r = Inl e \<Longrightarrow> err_code e = InvalidParams"
  by (auto simp: with_self_def split: sum.splits)

lemma optional_non_blank_ok [simp]: "validate_optional_non_blank v f = Inr u \<longleftrightarrow> \<not> blank_opt v"
  by (auto simp: validate_optional_non_blank_def blank_opt_def split: option.splits)

lemma required_non_blank_ok [simp]: "validate_required_non_blank v f = Inr u \<longleftrightarrow> \<not> blank v"
  by (simp add: validate_required_non_blank_def)

lemma exactly_one_ok [simp]:
  "validate_exactly_one_string_payload a b f g l = Inr u \<longleftrightarrow> (a = None) \<noteq> (b = None)"
  by (cases a; cases b) auto

lemma object_value_ok [simp]: "validate_object_value v f = Inr u \<longleftrightarrow> is_object v"
  by (simp add: validate_object_value_def)

lemma acknowledged_ok [simp]: "acknowledged b m j = Inr u \<longleftrightarrow> b"
  by (simp add: acknowledged_def)

lemma decode_payload_ok:
  "decode_payload what c dec validate v = Inr u \<longleftrightarrow> (\<exists>p. dec v = Inr p \<and> validate p = Inr ())"
  by (auto simp: decode_payload_def split: sum.splits)

lemma decode_payload_code:
  "decode_payload what c dec validate v = Inl e \<Longrightarrow> (\<And>p e. validate p = Inl e \<Longrightarrow> err_code e = InvalidParams)
    \<Longrightarrow> err_code e = InvalidParams"
  by (auto simp: decode_payload_def simp del: lit_simps split: sum.splits)

lemmas response_defs = validate_webview_response_def validate_file_read_response_def
  validate_file_write_response_def validate_cache_get_response_def validate_cache_put_response_def
  validate_cookie_get_response_def validate_cookie_set_response_def validate_log_emit_response_def
  validate_time_now_response_def validate_system_info_response_def
  validate_persistence_get_response_def validate_persistence_put_response_def

lemma acknowledged_code: "acknowledged b m j = Inl e \<Longrightarrow> err_code e = InvalidParams"
  by (simp add: acknowledged_def)

lemma cookies_code: "check_each (validate_cookie_record enc) cs = Inl e \<Longrightarrow> err_code e = InvalidParams"
  by (drule check_each_Inl) (auto simp: validate_cookie_record_def dest: with_self_code)

lemma echo_code: "complete_echo_host_operation K c v = Inl e \<Longrightarrow> err_code e = InvalidParams"
  unfolding complete_echo_host_operation_def Let_def and_then_eq_Inl
  by (cases c) (auto elim!: decode_payload_code simp: response_defs Let_def simp del: lit_simps
      dest: with_self_code acknowledged_code cookies_code)


definition sample_codec :: host_codec where
  \<comment> \<open>a codec that knows file reads only: every other payload is refused\<close>
  "sample_codec = \<lparr>encode_payload = (\<lambda>p. JNull),
     dec_webview_request = (\<lambda>v. Inl []), dec_file_read_request = (\<lambda>v. Inl []), dec_file_write_request = (\<lambda>v. Inl []),
     dec_cache_get_request = (\<lambda>v. Inl []), dec_cache_put_request = (\<lambda>v. Inl []),
     dec_cookie_get_request = (\<lambda>v. Inl []), dec_cookie_set_request = (\<lambda>v. Inl []),
     dec_log_emit_request = (\<lambda>v. Inl []), dec_time_now_request = (\<lambda>v. Inl []),
     dec_system_info_request = (\<lambda>v. Inl []), dec_persistence_get_request = (\<lambda>v. Inl []),
     dec_persistence_put_request = (\<lambda>v. Inl []), dec_webview_response = (\<lambda>v. Inl []),
     dec_file_read_response = (\<lambda>v. case v of JObj [(k, JStr s)] \<Rightarrow>
       Inr \<lparr>frr_content = Some s, frr_content_base64 = None, frr_encoding = None, frr_byte_length = None\<rparr> | _ \<Rightarrow> Inl []),
     dec_file_write_response = (\<lambda>v. Inl []), dec_cache_get_response = (\<lambda>v. Inl []),
     dec_cache_put_response = (\<lambda>v. Inl []), dec_cookie_get_response = (\<lambda>v. Inl []),
     dec_cookie_set_response = (\<lambda>v. Inl []), dec_log_emit_response = (\<lambda>v. Inl []),
     dec_time_now_response = (\<lambda>v. Inl []), dec_system_info_response = (\<lambda>v. Inl []),
     dec_persistence_get_response = (\<lambda>v. Inl []), dec_persistence_put_response = (\<lambda>v. Inl [])\<rparr>"


end
