(* ===== verification/Runtime.thy ===== *)
theory Runtime
  imports HostTypes Tts
begin

text \<open>
  The runtime of \<open>crates/reader-runtime/src/runtime.rs\<close>: the command queue, the worker that
  dispatches it, cancellation, the host bus (host.request out, host.complete and host.error back)
  and shutdown. An operation is a function on the state that also returns the events handed to
  the sink, in order. The worker's loop is cut where another thread can change what it reads next:
  popping a command (with the first cancellation check), dispatching it, and, once a host
  operation is registered, the second cancellation check with the emission of host.request.
  Parameters are the decoders serde derives, the remote vertical (\<open>dispatch_remote\<close> and
  \<open>complete_remote_host\<close> on its own state) and the set of JS callbacks that wait for the host;
  poisoned locks and the join timeout of \<open>Drop\<close> are not modelled.
\<close>

subsection \<open>State\<close>

datatype 'c continuation = Echo | Remote 'c

record 'c host_operation =
  ho_request_id :: u64
  ho_capability :: host_capability
  ho_continuation :: "'c continuation"

datatype work_item = WorkCommand command | ProtocolShutdown command | WorkShutdown

datatype worker_state = WorkerIdle | Dispatching work_item | Requesting u64 u64 host_capability json

record ('c, 'r) runtime =
  rt_queue :: "work_item list"
  rt_worker :: worker_state
  rt_stopped :: bool
  rt_active :: "u64 set"
  rt_cancelled :: "u64 set"
  rt_operations :: "(u64, 'c host_operation) hmap"
  rt_next_operation :: u64
  rt_shutdown :: bool
  rt_callbacks :: "u64 set"
  rt_tts :: tts_state
  rt_remote :: 'r

record 'c pending_request =
  pr_capability :: host_capability
  pr_params :: json
  pr_continuation :: "'c"

datatype 'c remote_result = Complete json | Pending "'c pending_request"

record ('c, 'r, 'x) runtime_env =
  env_codec :: host_codec
  env_tts :: tts_codec
  dec_no_params :: "json \<Rightarrow> ustr + unit"
  dec_status_params :: "json \<Rightarrow> ustr + unit"
  dec_shutdown_params :: "json \<Rightarrow> ustr + unit"
  dec_smoke_params :: "json \<Rightarrow> ustr + host_smoke_params"
  dec_cancel_params :: "json \<Rightarrow> ustr + u64"
  dec_complete_params :: "json \<Rightarrow> ustr + (u64 \<times> json)"
  dec_error_params :: "json \<Rightarrow> ustr + (u64 \<times> core_error \<times> json option)"
    \<comment> \<open>the diagnostics re-encoded\<close>
  run_remote :: "'x \<Rightarrow> command \<Rightarrow> 'r \<Rightarrow> ((core_error + 'c remote_result) \<times> 'r) option"
    \<comment> \<open>the method table of \<open>dispatch_remote\<close>; \<open>'x\<close> is what JS callbacks received meanwhile\<close>
  resume_remote :: "'x \<Rightarrow> 'c \<Rightarrow> json \<Rightarrow> 'r \<Rightarrow> (core_error + 'c remote_result) \<times> 'r"

type_synonym ('c, 'r) handler = "('c, 'r) runtime \<Rightarrow> ('c, 'r) runtime \<times> event list"

definition runtime_new :: "'r \<Rightarrow> ('c, 'r) runtime" where
  "runtime_new remote = \<lparr>rt_queue = [], rt_worker = WorkerIdle, rt_stopped = False, rt_active = {},
     rt_cancelled = {}, rt_operations = [], rt_next_operation = 1, rt_shutdown = False,
     rt_callbacks = {}, rt_tts = [], rt_remote = remote\<rparr>"

definition runtime_new_with_config :: "'r \<Rightarrow> runtime_config \<Rightarrow> core_error + ('c, 'r) runtime" where
  "runtime_new_with_config remote config = and_then (validate_runtime_config config)
     (\<lambda>_. Inr (runtime_new remote))"

subsection \<open>Registries\<close>

definition finish_request :: "u64 \<Rightarrow> event \<Rightarrow> ('c, 'r) handler" where
  "finish_request r event s = (s\<lparr>rt_cancelled := rt_cancelled s - {r}, rt_active := rt_active s - {r}\<rparr>,
     [if r \<in> rt_cancelled s then EvError r cancelled_error else event])"

definition finish_unchecked :: "u64 \<Rightarrow> event \<Rightarrow> ('c, 'r) handler" where
  \<comment> \<open>\<open>finish\<close> of tts.rs and remote.rs: it does not look at the cancelled set\<close>
  "finish_unchecked r event s = (s\<lparr>rt_active := rt_active s - {r}\<rparr>, [event])"

definition remove_host_operations_for_request :: "u64 \<Rightarrow> ('c, 'r) runtime \<Rightarrow> bool \<times> ('c, 'r) runtime" where
  "remove_host_operations_for_request r s = (
     let kept = hm_retain (\<lambda>_ op. ho_request_id op \<noteq> r) (rt_operations s)
     in (length kept \<noteq> length (rt_operations s), s\<lparr>rt_operations := kept\<rparr>))"

definition cancel_request_by_id :: "u64 \<Rightarrow> ('c, 'r) runtime \<Rightarrow> bool \<times> ('c, 'r) runtime \<times> event list" where
  \<comment> \<open>also the body of \<open>Runtime::cancel\<close>\<close>
  "cancel_request_by_id r s = (
     if r \<notin> rt_active s then (False, s, [])
     else let (removed, s1) = remove_host_operations_for_request r (s\<lparr>rt_cancelled := insert r (rt_cancelled s)\<rparr>)
       in if removed
          then (True, s1\<lparr>rt_cancelled := rt_cancelled s1 - {r}, rt_active := rt_active s1 - {r}\<rparr>,
                [EvError r cancelled_error])
          else (True, s1, []))"

definition take_host_operation :: "u64 \<Rightarrow> ('c, 'r) runtime \<Rightarrow> ('c host_operation \<times> ('c, 'r) runtime) option" where
  "take_host_operation op s = (case map_of (rt_operations s) op of
     None \<Rightarrow> None
   | Some operation \<Rightarrow> Some (operation, s\<lparr>rt_operations := hm_remove op (rt_operations s)\<rparr>))"

definition register_pending_host_request ::
    "u64 \<Rightarrow> host_capability \<Rightarrow> 'c continuation \<Rightarrow> json \<Rightarrow> ('c, 'r) handler" where
  \<comment> \<open>up to the second cancellation check, which \<open>worker_emit\<close> makes\<close>
  "register_pending_host_request r capability continuation params s = (
     let op = rt_next_operation s
     in (s\<lparr>rt_next_operation := op + 1,
           rt_operations := hm_insert op \<lparr>ho_request_id = r, ho_capability = capability,
             ho_continuation = continuation\<rparr> (rt_operations s),
           rt_worker := Requesting r op capability params\<rparr>, []))"

definition worker_emit :: "('c, 'r) handler" where
  "worker_emit s = (case rt_worker s of
     Requesting r op capability params \<Rightarrow>
       if r \<in> rt_cancelled s
       then finish_request r (EvError r cancelled_error)
         (s\<lparr>rt_operations := hm_remove op (rt_operations s), rt_worker := WorkerIdle\<rparr>)
       else (s\<lparr>rt_worker := WorkerIdle\<rparr>, [EvHostRequest r op capability params])
   | _ \<Rightarrow> (s, []))"

subsection \<open>Command handlers\<close>

definition parse_cmd_params :: "(json \<Rightarrow> ustr + 'a) \<Rightarrow> command \<Rightarrow> core_error + 'a" where
  "parse_cmd_params dec cmd = (case dec (cmd_params cmd) of
     Inl serde_error \<Rightarrow> Inl (with_details (invalid_params (lit ''invalid params for '' @ cmd_method cmd))
       (JObj [(lit ''source'', JStr serde_error), (lit ''method'', JStr (cmd_method cmd))]))
   | Inr p \<Rightarrow> Inr p)"

fun json_get :: "ustr \<Rightarrow> json \<Rightarrow> json option" where
  "json_get k (JObj members) = map_of members k"
| "json_get k _ = None"

definition v1_capabilities :: "ustr list" where
  "v1_capabilities = map lit [''core.info'', ''runtime.ping'', ''runtime.hostSmoke'', ''runtime.cancel'',
     ''runtime.status'', ''runtime.shutdown'', ''host.complete'', ''host.error'', ''host.bus.v1'',
     ''http.execute'', ''runtime.config.v1'', ''remote.reading.v1'', ''rss.v1'', ''sync.v1'',
     ''local_book.v1'', ''bookshelf.v1'']"

definition dispatch_core_info :: "('c, 'r, 'x) runtime_env \<Rightarrow> command \<Rightarrow> ('c, 'r) handler" where
  "dispatch_core_info E cmd = (case parse_cmd_params (dec_no_params E) cmd of
     Inl e \<Rightarrow> finish_request (cmd_request_id cmd) (EvError (cmd_request_id cmd) e)
   | Inr _ \<Rightarrow> finish_request (cmd_request_id cmd) (EvResult (cmd_request_id cmd)
       (core_info v1_capabilities 1 (lit ''reader-core-native 0.1.0''))))"

definition dispatch_runtime_ping :: "('c, 'r, 'x) runtime_env \<Rightarrow> command \<Rightarrow> ('c, 'r) handler" where
  "dispatch_runtime_ping E cmd = (case parse_cmd_params (dec_no_params E) cmd of
     Inl e \<Rightarrow> finish_request (cmd_request_id cmd) (EvError (cmd_request_id cmd) e)
   | Inr _ \<Rightarrow> finish_request (cmd_request_id cmd) (EvResult (cmd_request_id cmd)
       (JObj [(lit ''pong'', JBool True), (lit ''method'', JStr (lit ''runtime.ping''))])))"

definition parse_host_smoke_params :: "('c, 'r, 'x) runtime_env \<Rightarrow> command \<Rightarrow> core_error + host_smoke_params" where
  "parse_host_smoke_params E cmd = (case dec_smoke_params E (cmd_params cmd) of
     Inl serde_error \<Rightarrow> Inl (with_details (invalid_params
       ((if contains (lit ''host capability'') serde_error then lit ''invalid capability for ''
         else lit ''invalid params for '') @ cmd_method cmd))
       (JObj [(lit ''source'', JStr serde_error), (lit ''method'', JStr (cmd_method cmd)),
          (lit ''capability'', case json_get (lit ''capability'') (cmd_params cmd) of Some v \<Rightarrow> v | None \<Rightarrow> JNull)]))
   | Inr p \<Rightarrow> and_then (validate_host_smoke_params (env_codec E) p) (\<lambda>_. Inr p))"

definition dispatch_host_smoke :: "('c, 'r, 'x) runtime_env \<Rightarrow> command \<Rightarrow> ('c, 'r) handler" where
  "dispatch_host_smoke E cmd = (let r = cmd_request_id cmd in case parse_host_smoke_params E cmd of
     Inl e \<Rightarrow> finish_request r (EvError r e)
   | Inr p \<Rightarrow>
       if \<not> is_object (hs_params p) then finish_request r (EvError r
         (invalid_params (lit ''runtime.hostSmoke params.params must be a JSON object'')))
       else register_pending_host_request r (hs_capability p) Echo (hs_params p))"

definition parse_runtime_cancel_params :: "('c, 'r, 'x) runtime_env \<Rightarrow> command \<Rightarrow> core_error + u64" where
  "parse_runtime_cancel_params E cmd = and_then (parse_cmd_params (dec_cancel_params E) cmd) (\<lambda>target.
     if target = 0 then Inl (with_details
       (invalid_params (lit ''runtime.cancel requestId must be greater than 0''))
       (JObj [(lit ''requestId'', json_u64 target)]))
     else Inr target)"

definition dispatch_runtime_cancel :: "('c, 'r, 'x) runtime_env \<Rightarrow> command \<Rightarrow> ('c, 'r) handler" where
  "dispatch_runtime_cancel E cmd s = (let r = cmd_request_id cmd in case parse_runtime_cancel_params E cmd of
     Inl e \<Rightarrow> finish_request r (EvError r e) s
   | Inr target \<Rightarrow>
       if target = r then finish_request r (EvError r (with_details
         (invalid_params (lit ''runtime.cancel requestId must differ from the cancel command requestId''))
         (JObj [(lit ''requestId'', json_u64 target)]))) s
       else let (did_cancel, s1, evs1) = cancel_request_by_id target s;
                (s2, evs2) = finish_request r (EvResult r (JObj [(lit ''cancelled'', JBool did_cancel)])) s1
         in (s2, evs1 @ evs2))"

definition operation_status :: "u64 \<times> 'c host_operation \<Rightarrow> json" where
  "operation_status = (\<lambda>(op, operation). JObj [(lit ''operationId'', json_u64 op),
     (lit ''requestId'', json_u64 (ho_request_id operation)),
     (lit ''capability'', JStr (capability_as_str (ho_capability operation))),
     (lit ''state'', JStr (lit ''pending''))])"

definition runtime_status_snapshot :: "u64 \<Rightarrow> ('c, 'r) runtime \<Rightarrow> json" where
  "runtime_status_snapshot current s = (
     let active = sorted_list_of_set (rt_active s - {current});
         pending = sort_by (by_key fst) (rt_operations s)
     in JObj [(lit ''activeRequestCount'', json_u64 (of_nat (length active))),
          (lit ''activeRequestIds'', JArr (map json_u64 active)),
          (lit ''pendingHostOperationCount'', json_u64 (of_nat (length pending))),
          (lit ''pendingHostOperations'', JArr (map operation_status pending)),
          (lit ''shuttingDown'', JBool (rt_shutdown s))])"

definition dispatch_runtime_status :: "('c, 'r, 'x) runtime_env \<Rightarrow> command \<Rightarrow> ('c, 'r) handler" where
  "dispatch_runtime_status E cmd s = (let r = cmd_request_id cmd in case dec_status_params E (cmd_params cmd) of
     Inl serde_error \<Rightarrow> finish_request r (EvError r (with_details
       (invalid_params (lit ''invalid params for '' @ cmd_method cmd)) (JObj [(lit ''source'', JStr serde_error)]))) s
   | Inr _ \<Rightarrow> finish_request r (EvResult r (runtime_status_snapshot r s)) s)"

definition cancel_active_requests_for_shutdown :: "u64 \<Rightarrow> ('c, 'r) runtime \<Rightarrow> u64 list \<times> ('c, 'r) runtime \<times> event list" where
  "cancel_active_requests_for_shutdown current s = (
     let ids = sorted_list_of_set (rt_active s - {current});
         removed = filter (\<lambda>(_, operation). ho_request_id operation \<noteq> current) (rt_operations s);
         all_ids = remdups (sort (ids @ map (\<lambda>(_, operation). ho_request_id operation) removed))
     in (all_ids,
         s\<lparr>rt_active := rt_active s - set ids,
           rt_operations := hm_retain (\<lambda>_ operation. ho_request_id operation = current) (rt_operations s),
           rt_cancelled := rt_cancelled s - set all_ids\<rparr>,
         map (\<lambda>r. EvError r cancelled_error) all_ids))"

definition dispatch_runtime_shutdown :: "('c, 'r, 'x) runtime_env \<Rightarrow> command \<Rightarrow> ('c, 'r) handler" where
  "dispatch_runtime_shutdown E cmd s = (let r = cmd_request_id cmd in
     case parse_cmd_params (dec_shutdown_params E) cmd of
       Inl e \<Rightarrow> finish_request r (EvError r e) s
     | Inr _ \<Rightarrow>
         let (ids, s1, evs1) = cancel_active_requests_for_shutdown r (s\<lparr>rt_shutdown := True\<rparr>);
             (s2, evs2) = finish_request r (EvResult r (JObj [(lit ''shuttingDown'', JBool True),
               (lit ''cancelledRequestIds'', JArr (map json_u64 ids))])) s1
         in (s2, evs1 @ evs2))"

definition settle_remote :: "u64 \<Rightarrow> (core_error + 'c remote_result) \<Rightarrow> (u64 \<Rightarrow> event \<Rightarrow> ('c, 'r) handler) \<Rightarrow> ('c, 'r) handler" where
  \<comment> \<open>a remote outcome ends the request through the given finish or asks the host again\<close>
  "settle_remote r outcome finish = (case outcome of
     Inl e \<Rightarrow> finish r (EvError r e)
   | Inr (Complete data) \<Rightarrow> finish r (EvResult r data)
   | Inr (Pending p) \<Rightarrow>
       register_pending_host_request r (pr_capability p) (Remote (pr_continuation p)) (pr_params p))"

definition parse_host_complete_params :: "('c, 'r, 'x) runtime_env \<Rightarrow> command \<Rightarrow> core_error + (u64 \<times> json)" where
  "parse_host_complete_params E cmd = and_then (parse_cmd_params (dec_complete_params E) cmd) (\<lambda>(op, result).
     if op = 0 then Inl (with_details
       (invalid_params (lit ''host.complete operationId must be greater than 0''))
       (JObj [(lit ''operationId'', json_u64 op)]))
     else Inr (op, result))"

definition dispatch_host_complete :: "('c, 'r, 'x) runtime_env \<Rightarrow> 'x \<Rightarrow> command \<Rightarrow> ('c, 'r) handler" where
  "dispatch_host_complete E x cmd s = (let r = cmd_request_id cmd in case parse_host_complete_params E cmd of
     Inl e \<Rightarrow> finish_request r (EvError r e) s
   | Inr (op, result) \<Rightarrow>
       if \<not> is_object result then finish_request r (EvError r
         (invalid_params (lit ''host.complete result must be a JSON object''))) s
       else let s0 = s\<lparr>rt_active := rt_active s - {r}\<rparr> in (case take_host_operation op s0 of
         None \<Rightarrow> (s0, [EvError r (host_operation_not_found op)])
       | Some (operation, s1) \<Rightarrow> let q = ho_request_id operation in (case ho_continuation operation of
           Echo \<Rightarrow> finish_request q
             (case complete_echo_host_operation (env_codec E) (ho_capability operation) result of
                Inl e \<Rightarrow> EvError q e | Inr data \<Rightarrow> EvResult q data) s1
         | Remote c \<Rightarrow> let (outcome, remote') = resume_remote E x c result (rt_remote s1)
             in settle_remote q outcome finish_request (s1\<lparr>rt_remote := remote'\<rparr>))))"

definition host_error_with_details :: "core_error \<Rightarrow> u64 \<Rightarrow> 'c host_operation \<Rightarrow> json option \<Rightarrow> core_error" where
  "host_error_with_details e op operation diagnostics = e\<lparr>err_details := JObj (
     (case err_details e of JObj existing \<Rightarrow> if existing = [] then [] else [(lit ''cause'', JObj existing)] | _ \<Rightarrow> [])
     @ [(lit ''host'', JObj (
         [(lit ''operationId'', json_u64 op), (lit ''requestId'', json_u64 (ho_request_id operation)),
          (lit ''capability'', JStr (capability_as_str (ho_capability operation)))]
         @ (case diagnostics of Some d \<Rightarrow> [(lit ''diagnostics'', d)] | None \<Rightarrow> [])))])\<rparr>"

definition parse_host_error_params ::
    "('c, 'r, 'x) runtime_env \<Rightarrow> command \<Rightarrow> core_error + (u64 \<times> core_error \<times> json option)" where
  "parse_host_error_params E cmd = and_then (parse_cmd_params (dec_error_params E) cmd) (\<lambda>(op, e, d).
     if op = 0 then Inl (with_details
       (invalid_params (lit ''host.error operationId must be greater than 0''))
       (JObj [(lit ''operationId'', json_u64 op)]))
     else Inr (op, e, d))"

definition dispatch_host_error :: "('c, 'r, 'x) runtime_env \<Rightarrow> command \<Rightarrow> ('c, 'r) handler" where
  "dispatch_host_error E cmd s = (let r = cmd_request_id cmd in case parse_host_error_params E cmd of
     Inl e \<Rightarrow> finish_request r (EvError r e) s
   | Inr (op, e, diagnostics) \<Rightarrow>
       let s0 = s\<lparr>rt_active := rt_active s - {r}\<rparr> in (case take_host_operation op s0 of
         None \<Rightarrow> (s0, [EvError r (host_operation_not_found op)])
       | Some (operation, s1) \<Rightarrow> let q = ho_request_id operation
           in finish_request q (EvError q (host_error_with_details e op operation diagnostics)) s1))"

definition dispatch_vertical :: "('c, 'r, 'x) runtime_env \<Rightarrow> 'x \<Rightarrow> command \<Rightarrow> ('c, 'r) handler" where
  \<comment> \<open>the last arm of \<open>dispatch_command\<close>: tts, then remote, then unknown\<close>
  "dispatch_vertical E x cmd s = (let r = cmd_request_id cmd in
     case dispatch_tts (env_tts E) cmd (rt_tts s) of
       Some (outcome, tts') \<Rightarrow> finish_unchecked r
         (case outcome of Inl e \<Rightarrow> EvError r e | Inr data \<Rightarrow> EvResult r data) (s\<lparr>rt_tts := tts'\<rparr>)
     | None \<Rightarrow> (case run_remote E x cmd (rt_remote s) of
         Some (outcome, remote') \<Rightarrow> settle_remote r outcome finish_unchecked (s\<lparr>rt_remote := remote'\<rparr>)
       | None \<Rightarrow> finish_request r (EvError r (unknown_method (cmd_method cmd))) s))"

definition dispatch_command :: "('c, 'r, 'x) runtime_env \<Rightarrow> 'x \<Rightarrow> command \<Rightarrow> ('c, 'r) handler" where
  \<comment> \<open>after the cancellation check, which \<open>worker_take\<close> makes\<close>
  "dispatch_command E x cmd = (let m = cmd_method cmd in
     if m = lit ''core.info'' then dispatch_core_info E cmd
     else if m = lit ''runtime.ping'' \<or> m = lit ''core.ping'' then dispatch_runtime_ping E cmd
     else if m = lit ''runtime.hostSmoke'' then dispatch_host_smoke E cmd
     else if m = lit ''runtime.cancel'' then dispatch_runtime_cancel E cmd
     else if m = lit ''runtime.status'' then dispatch_runtime_status E cmd
     else if m = lit ''runtime.shutdown'' then dispatch_runtime_shutdown E cmd
     else if m = lit ''host.complete'' then dispatch_host_complete E x cmd
     else if m = lit ''host.error'' then dispatch_host_error E cmd
     else dispatch_vertical E x cmd)"

subsection \<open>The worker\<close>

fun item_request :: "work_item \<Rightarrow> u64 list" where
  "item_request (WorkCommand cmd) = [cmd_request_id cmd]"
| "item_request (ProtocolShutdown cmd) = [cmd_request_id cmd]"
| "item_request WorkShutdown = []"

fun drain_queued_after_protocol_shutdown :: "work_item list \<Rightarrow> ('c, 'r) handler" where
  \<comment> \<open>the items left behind a \<open>Shutdown\<close> die with the channel\<close>
  "drain_queued_after_protocol_shutdown [] s = (s, [])"
| "drain_queued_after_protocol_shutdown (WorkShutdown # items) s = (s, [])"
| "drain_queued_after_protocol_shutdown (WorkCommand cmd # items) s = (
     let (s1, evs1) = finish_request (cmd_request_id cmd) (EvError (cmd_request_id cmd) cancelled_error) s;
         (s2, evs2) = drain_queued_after_protocol_shutdown items s1
     in (s2, evs1 @ evs2))"
| "drain_queued_after_protocol_shutdown (ProtocolShutdown cmd # items) s = (
     let (s1, evs1) = finish_request (cmd_request_id cmd) (EvError (cmd_request_id cmd) cancelled_error) s;
         (s2, evs2) = drain_queued_after_protocol_shutdown items s1
     in (s2, evs1 @ evs2))"

definition worker_take :: "('c, 'r) handler" where
  \<comment> \<open>the head of the loop: receive an item, leave on shutdown, drop an already cancelled command\<close>
  "worker_take s = (case (rt_stopped s, rt_worker s, rt_queue s) of
     (False, WorkerIdle, item # items) \<Rightarrow>
       let s1 = s\<lparr>rt_queue := items\<rparr> in
       if item = WorkShutdown \<or> rt_shutdown s then (s1\<lparr>rt_queue := [], rt_stopped := True\<rparr>, [])
       else let r = hd (item_request item) in
         if r \<in> rt_cancelled s then finish_request r (EvError r cancelled_error)
           (s1\<lparr>rt_cancelled := rt_cancelled s1 - {r}\<rparr>)
         else (s1\<lparr>rt_worker := Dispatching item\<rparr>, [])
   | _ \<Rightarrow> (s, []))"

definition worker_run :: "('c, 'r, 'x) runtime_env \<Rightarrow> 'x \<Rightarrow> ('c, 'r) handler" where
  "worker_run E x s = (case rt_worker s of
     Dispatching (WorkCommand cmd) \<Rightarrow> dispatch_command E x cmd (s\<lparr>rt_worker := WorkerIdle\<rparr>)
   | Dispatching (ProtocolShutdown cmd) \<Rightarrow>
       let (s1, evs1) = dispatch_command E x cmd (s\<lparr>rt_worker := WorkerIdle\<rparr>)
       in if rt_shutdown s1
          then let (s2, evs2) = drain_queued_after_protocol_shutdown (rt_queue s1) s1
            in (s2\<lparr>rt_queue := [], rt_stopped := True\<rparr>, evs1 @ evs2)
          else (s1, evs1)
   | _ \<Rightarrow> (s, []))"

subsection \<open>The host's side\<close>

definition callback_id :: "json \<Rightarrow> u64 option" where
  "callback_id params = (case json_get (lit ''operationId'') params of
     Some (JNum (PosInt op)) \<Rightarrow> Some op | _ \<Rightarrow> None)"

definition try_complete :: "command \<Rightarrow> ('c, 'r) runtime \<Rightarrow> bool \<times> ('c, 'r) runtime" where
  \<comment> \<open>of the JS host-callback bridge: which callback wakes up; the value it gets is part of \<open>'x\<close>\<close>
  "try_complete cmd s = (case callback_id (cmd_params cmd) of
     None \<Rightarrow> (False, s)
   | Some op \<Rightarrow> if op \<in> rt_callbacks s then (True, s\<lparr>rt_callbacks := rt_callbacks s - {op}\<rparr>) else (False, s))"

definition send :: "command \<Rightarrow> ('c, 'r) runtime \<Rightarrow> (core_error + unit) \<times> ('c, 'r) runtime" where
  "send cmd s = (case validate_command cmd of
     Inl e \<Rightarrow> (Inl e, s)
   | Inr _ \<Rightarrow>
       if rt_shutdown s then (Inl (internal_error (lit ''runtime shutting down'')), s)
       else let (intercepted, s1) =
              (if cmd_method cmd = lit ''host.complete'' \<or> cmd_method cmd = lit ''host.error''
               then try_complete cmd s else (False, s))
         in if intercepted then (Inr (), s1)
            else if cmd_request_id cmd \<in> rt_active s1 then (Inl (with_details
              (invalid_message (lit ''duplicate active requestId''))
              (JObj [(lit ''requestId'', json_u64 (cmd_request_id cmd))])), s1)
            else if rt_stopped s1 then (Inl (internal_error (lit ''runtime shutting down'')), s1)
            else (Inr (), s1\<lparr>rt_active := insert (cmd_request_id cmd) (rt_active s1),
              rt_queue := rt_queue s1 @ [if cmd_method cmd = lit ''runtime.shutdown''
                then ProtocolShutdown cmd else WorkCommand cmd]\<rparr>))"

definition cancel :: "u64 \<Rightarrow> ('c, 'r) handler" where
  "cancel r s = snd (cancel_request_by_id r s)"

definition drop_runtime :: "('c, 'r) handler" where
  "drop_runtime s = (s\<lparr>rt_shutdown := True, rt_callbacks := {},
     rt_queue := (if rt_stopped s then [] else rt_queue s @ [WorkShutdown])\<rparr>, [])"

subsection \<open>Runs\<close>

datatype 'x action =
    Send command | Cancel u64 | WorkerTake | WorkerRun 'x | WorkerEmit | Callbacks "u64 set" | DropRuntime

fun runtime_step :: "('c, 'r, 'x) runtime_env \<Rightarrow> 'x action \<Rightarrow> ('c, 'r) handler" where
  "runtime_step E (Send cmd) s = (snd (send cmd s), [])"
| "runtime_step E (Cancel r) s = cancel r s"
| "runtime_step E WorkerTake s = worker_take s"
| "runtime_step E (WorkerRun x) s = worker_run E x s"
| "runtime_step E WorkerEmit s = worker_emit s"
| "runtime_step E (Callbacks ids) s = (s\<lparr>rt_callbacks := ids\<rparr>, [])"
| "runtime_step E DropRuntime s = drop_runtime s"

fun runtime_run :: "('c, 'r, 'x) runtime_env \<Rightarrow> 'x action list \<Rightarrow> ('c, 'r) handler" where
  "runtime_run E [] s = (s, [])"
| "runtime_run E (a # as) s = (let (s1, evs1) = runtime_step E a s; (s2, evs2) = runtime_run E as s1
     in (s2, evs1 @ evs2))"

end
