(* ===== verification/RuntimeRuns.thy ===== *)
theory RuntimeRuns
  imports Runtime
begin

text \<open>
  What every interleaving of the host's calls with the worker keeps true: each request the runtime
  accepted is in exactly one place (queued, being dispatched, or waiting for one host operation)
  until it is answered, and it is answered exactly once.
\<close>

subsection \<open>Where requests are\<close>

definition queued :: "('c, 'r) runtime \<Rightarrow> u64 list" where
  "queued s = concat (map item_request (rt_queue s))"

definition op_requests :: "('c, 'r) runtime \<Rightarrow> u64 list" where
  "op_requests s = map (\<lambda>p. ho_request_id (snd p)) (rt_operations s)"

definition owned :: "('c, 'r) runtime \<Rightarrow> u64 list" where
  "owned s = (case rt_worker s of Dispatching item \<Rightarrow> item_request item | _ \<Rightarrow> [])"

definition placed :: "u64 list \<Rightarrow> ('c, 'r) runtime \<Rightarrow> bool" where
  \<comment> \<open>the first argument: what the worker holds\<close>
  "placed own s = (distinct (own @ queued s @ op_requests s)
     \<and> rt_active s = set (own @ queued s @ op_requests s) \<and> hm_ok (rt_operations s)
     \<and> (\<forall>op \<in> fst ` set (rt_operations s). 0 < op \<and> op < rt_next_operation s) \<and> 0 < rt_next_operation s)"

lemma placedI:
  assumes "queued s = Q" "op_requests s = R" "distinct (own @ Q @ R)" "rt_active s = set (own @ Q @ R)"
    "hm_ok (rt_operations s)" "\<forall>op \<in> fst ` set (rt_operations s). 0 < op \<and> op < rt_next_operation s"
    "0 < rt_next_operation s"
  shows "placed own s"
  unfolding placed_def assms(1,2) by (intro conjI assms(3-7))

definition announced :: "('c, 'r) runtime \<Rightarrow> bool" where
  \<comment> \<open>between the registration of a host operation and its host.request\<close>
  "announced s = (case rt_worker s of
     Requesting r op capability params \<Rightarrow> (case map_of (rt_operations s) op of
         Some operation \<Rightarrow> ho_request_id operation = r
       | None \<Rightarrow> r \<notin> rt_active s \<and> r \<notin> rt_cancelled s)
   | Dispatching item \<Rightarrow> item \<noteq> WorkShutdown
   | WorkerIdle \<Rightarrow> True)"

definition live :: "('c, 'r) runtime \<Rightarrow> bool" where
  "live s = (\<not> rt_stopped s \<and> WorkShutdown \<notin> set (rt_queue s) \<and> placed (owned s) s \<and> announced s)"

fun terms :: "u64 \<Rightarrow> event list \<Rightarrow> nat" where
  \<comment> \<open>how often a request is answered\<close>
  "terms r [] = 0"
| "terms r (e # es) = (if terminal e \<and> event_request e = r then 1 else 0) + terms r es"

lemma terms_append [simp]: "terms r (xs @ ys) = terms r xs + terms r ys"
  by (induction xs) auto

definition outcome :: "u64 list \<Rightarrow> u64 set \<Rightarrow> ('c, 'r) runtime \<Rightarrow> ('c, 'r) runtime \<times> event list \<Rightarrow> bool" where
  \<comment> \<open>a handler that leaves \<open>own\<close> with the worker, resumes the commands \<open>silent\<close> without an answer
    of their own, and answers exactly the requests that stop being active\<close>
  "outcome own silent s = (\<lambda>(s', evs). placed own s' \<and> rt_queue s' = rt_queue s \<and> rt_stopped s' = rt_stopped s
     \<and> rt_shutdown s' = rt_shutdown s \<and> unat (rt_next_operation s') \<le> unat (rt_next_operation s) + 1
     \<and> (\<forall>q. terms q evs + of_bool (q \<in> silent) + of_bool (q \<in> rt_active s') = (of_bool (q \<in> rt_active s) :: nat)))"

definition idle_after :: "('c, 'r) runtime \<times> event list \<Rightarrow> bool" where
  "idle_after = (\<lambda>(s', evs). rt_worker s' = WorkerIdle \<or> (\<exists>r op c p. rt_worker s' = Requesting r op c p
     \<and> (\<exists>operation. map_of (rt_operations s') op = Some operation \<and> ho_request_id operation = r)))"

lemma idle_after_announced: "idle_after (s', evs) \<Longrightarrow> announced s' \<and> owned s' = []"
  by (auto simp: idle_after_def announced_def owned_def)

subsection \<open>The registries\<close>

lemma placed_finish: "placed (r # own) s \<Longrightarrow> placed own (s\<lparr>rt_active := rt_active s - {r}\<rparr>)"
  by (auto simp: placed_def queued_def op_requests_def)

lemma placed_cong:
  assumes "rt_queue s' = rt_queue s" "rt_active s' = rt_active s" "rt_operations s' = rt_operations s"
    "rt_next_operation s' = rt_next_operation s"
  shows "placed own s' = placed own s"
  using assms by (simp add: placed_def queued_def op_requests_def)

lemma outcome_finish:
  assumes "placed (r # own) s" "event_request ev = r" "terminal ev"
  shows "outcome own {} s (finish_request r ev s)"
proof -
  have "placed own (s\<lparr>rt_cancelled := rt_cancelled s - {r}, rt_active := rt_active s - {r}\<rparr>)"
    using placed_finish[OF assms(1)] by (subst placed_cong[of _ "s\<lparr>rt_active := rt_active s - {r}\<rparr>"]) auto
  moreover have "r \<in> rt_active s" using assms(1) by (simp add: placed_def)
  ultimately show ?thesis using assms(2,3) by (auto simp: finish_request_def outcome_def)
qed

lemma outcome_finish_unchecked:
  assumes "placed (r # own) s" "event_request ev = r" "terminal ev"
  shows "outcome own {} s (finish_unchecked r ev s)"
proof -
  have "r \<in> rt_active s" using assms(1) by (simp add: placed_def)
  then show ?thesis using placed_finish[OF assms(1)] assms(2,3) by (auto simp: finish_unchecked_def outcome_def)
qed

lemma idle_after_finish [simp]:
  "rt_worker s = WorkerIdle \<Longrightarrow> idle_after (finish_request r ev s)"
  "rt_worker s = WorkerIdle \<Longrightarrow> idle_after (finish_unchecked r ev s)"
  by (simp_all add: finish_request_def finish_unchecked_def idle_after_def)

lemma outcome_register:
  assumes p: "placed (r # own) s" and room: "unat (rt_next_operation s) + 1 < 2 ^ 64"
  shows "outcome own {} s (register_pending_host_request r c k ps s)" "idle_after (register_pending_host_request r c k ps s)"
proof -
  let ?op = "rt_next_operation s"
  have fresh: "?op \<notin> set (map fst (rt_operations s))" using p by (fastforce simp: placed_def)
  have step: "unat (?op + 1) = unat ?op + 1" using room by (simp add: unat_word_ariths)
  have less: "op \<in> fst ` set (rt_operations s) \<Longrightarrow> 0 < op \<and> op < ?op + 1" for op
    using p step by (fastforce simp: placed_def word_less_nat_alt)
  have "?op < ?op + 1" "0 < ?op + 1" using step by (simp_all add: word_less_nat_alt)
  then have "placed own (fst (register_pending_host_request r c k ps s))"
    using p less fresh
    by (auto simp: placed_def register_pending_host_request_def queued_def op_requests_def Let_def
        hm_insert_fresh hm_ok_def)
  then show "outcome own {} s (register_pending_host_request r c k ps s)"
    using step by (auto simp: outcome_def register_pending_host_request_def Let_def)
  show "idle_after (register_pending_host_request r c k ps s)"
    by (auto simp: idle_after_def register_pending_host_request_def Let_def table_simps)
qed

lemma requests_retain:
  "map (\<lambda>p. ho_request_id (snd p)) (hm_retain (\<lambda>_ o'. ho_request_id o' \<noteq> q) m)
     = filter (\<lambda>r. r \<noteq> q) (map (\<lambda>p. ho_request_id (snd p)) m)"
  unfolding hm_retain_def by (induction m) auto

lemma requests_remove:
  assumes "hm_ok m" "map_of m op = Some operation" "distinct (map (\<lambda>p. ho_request_id (snd p)) m)"
  shows "map (\<lambda>p. ho_request_id (snd p)) (hm_remove op m)
     = filter (\<lambda>r. r \<noteq> ho_request_id operation) (map (\<lambda>p. ho_request_id (snd p)) m)"
  using assms
proof (induction m)
  case (Cons p m)
  show ?case
  proof (cases "fst p = op")
    case True
    then have "hm_remove op m = m" using Cons.prems(1) by (auto simp: hm_remove_def hm_ok_def filter_id_conv intro: rev_image_eqI)
    moreover have "filter (\<lambda>r. r \<noteq> ho_request_id (snd p)) (map (\<lambda>p. ho_request_id (snd p)) m)
        = map (\<lambda>p. ho_request_id (snd p)) m"
    proof (intro filter_True ballI)
      fix r assume "r \<in> set (map (\<lambda>p. ho_request_id (snd p)) m)"
      moreover have "ho_request_id (snd p) \<notin> set (map (\<lambda>p. ho_request_id (snd p)) m)"
        using Cons.prems(3) by (simp only: list.map distinct.simps) blast
      ultimately show "r \<noteq> ho_request_id (snd p)" by metis
    qed
    moreover have "operation = snd p" using True Cons.prems(2) by (cases p) simp
    ultimately show ?thesis using True by (simp add: hm_remove_def)
  next
    case False
    then have at: "map_of m op = Some operation" using Cons.prems(2) by (cases p) simp
    then have "ho_request_id operation \<in> set (map (\<lambda>p. ho_request_id (snd p)) m)"
      by (force dest: map_of_SomeD)
    moreover have "ho_request_id (snd p) \<notin> set (map (\<lambda>p. ho_request_id (snd p)) m)"
      using Cons.prems(3) by (simp only: list.map distinct.simps) blast
    ultimately have "ho_request_id (snd p) \<noteq> ho_request_id operation" by metis
    moreover have "hm_ok m" "distinct (map (\<lambda>p. ho_request_id (snd p)) m)"
      using Cons.prems(1,3) by (simp_all add: hm_ok_def)
    ultimately show ?thesis using Cons.IH[OF _ at] False by (simp add: hm_remove_def)
  qed
qed simp

lemma placed_retain:
  assumes p: "placed own s" and q: "q \<notin> set (own @ queued s)"
  shows "placed own (s\<lparr>rt_operations := hm_retain (\<lambda>_ o'. ho_request_id o' \<noteq> q) (rt_operations s),
    rt_active := rt_active s - {q}\<rparr>)"
proof -
  let ?m = "hm_retain (\<lambda>_ o'. ho_request_id o' \<noteq> q) (rt_operations s)"
  let ?ids = "own @ queued s"
  have keys: "fst ` set ?m \<subseteq> fst ` set (rt_operations s)" by (auto simp: hm_retain_def)
  have parts: "distinct (?ids @ op_requests s)" "rt_active s = set (?ids @ op_requests s)" "hm_ok (rt_operations s)"
    "\<forall>op \<in> fst ` set (rt_operations s). 0 < op \<and> op < rt_next_operation s" "0 < rt_next_operation s"
    using p by (simp_all add: placed_def)
  have "distinct (?ids @ filter (\<lambda>r. r \<noteq> q) (op_requests s))" using parts(1) by auto
  moreover have "rt_active s - {q} = set (?ids @ filter (\<lambda>r. r \<noteq> q) (op_requests s))" using parts(2) q by auto
  moreover have "\<forall>op \<in> fst ` set ?m. 0 < op \<and> op < rt_next_operation s" using keys parts(4) by blast
  ultimately show ?thesis using parts(3,5) by (simp add: placed_def queued_def op_requests_def requests_retain)
qed

lemma retain_length:
  "length (filter P xs) \<noteq> length xs \<longleftrightarrow> (\<exists>x \<in> set xs. \<not> P x)"
proof
  assume "\<exists>x \<in> set xs. \<not> P x"
  then show "length (filter P xs) \<noteq> length xs" using length_filter_less[of _ xs P] by fastforce
qed (metis filter_id_conv)

lemma cancel_by_id_cases:
  assumes "placed own s"
  obtains "q \<notin> rt_active s" "cancel_request_by_id q s = (False, s, [])"
  | "q \<in> set (op_requests s)"
    "cancel_request_by_id q s = (True, s\<lparr>rt_operations := hm_retain (\<lambda>_ o'. ho_request_id o' \<noteq> q) (rt_operations s),
       rt_cancelled := rt_cancelled s - {q}, rt_active := rt_active s - {q}\<rparr>, [EvError q cancelled_error])"
  | "q \<in> rt_active s" "q \<notin> set (op_requests s)"
    "cancel_request_by_id q s = (True, s\<lparr>rt_cancelled := insert q (rt_cancelled s)\<rparr>, [])"
proof (cases "q \<in> rt_active s")
  case False
  then show ?thesis using that(1) by (simp add: cancel_request_by_id_def)
next
  case active: True
  show ?thesis
  proof (cases "q \<in> set (op_requests s)")
    case True
    then have "length (hm_retain (\<lambda>_ o'. ho_request_id o' \<noteq> q) (rt_operations s)) \<noteq> length (rt_operations s)"
      unfolding op_requests_def hm_retain_def retain_length by auto
    then show ?thesis using that(2) True active
      by (simp add: cancel_request_by_id_def remove_host_operations_for_request_def Let_def insert_Diff_if)
  next
    case False
    then have "hm_retain (\<lambda>_ o'. ho_request_id o' \<noteq> q) (rt_operations s) = rt_operations s"
      by (force simp: op_requests_def hm_retain_def filter_id_conv)
    then show ?thesis using that(3) False active
      by (simp add: cancel_request_by_id_def remove_host_operations_for_request_def Let_def)
  qed
qed

lemma outcome_cancel_by_id:
  assumes "placed own s"
  shows "outcome own {} s (snd (cancel_request_by_id q s))"
  using assms
proof (cases rule: cancel_by_id_cases[of own s q])
  case 1
  then show ?thesis using assms by (simp add: outcome_def)
next
  case 2
  have "q \<notin> set (own @ queued s)" "q \<in> rt_active s" using assms 2(1) by (auto simp: placed_def)
  then show ?thesis using 2 placed_retain[OF assms \<open>q \<notin> set (own @ queued s)\<close>]
    by (auto simp: outcome_def placed_def queued_def op_requests_def)
next
  case 3
  then show ?thesis using assms by (simp add: outcome_def placed_def queued_def op_requests_def)
qed

lemma outcome_trans:
  assumes a: "outcome own1 silent s (s1, evs1)" and b: "outcome own2 {} s1 (s2, evs2)"
    and "rt_next_operation s1 = rt_next_operation s"
  shows "outcome own2 silent s (s2, evs1 @ evs2)"
proof -
  have "terms q (evs1 @ evs2) + of_bool (q \<in> silent) + of_bool (q \<in> rt_active s2)
      = (of_bool (q \<in> rt_active s) :: nat)" for q
  proof -
    have "terms q evs1 + of_bool (q \<in> silent) + of_bool (q \<in> rt_active s1) = (of_bool (q \<in> rt_active s) :: nat)"
      using a by (simp only: outcome_def prod.case)
    moreover have "terms q evs2 + of_bool (q \<in> {}) + of_bool (q \<in> rt_active s2) = (of_bool (q \<in> rt_active s1) :: nat)"
      using b by (simp only: outcome_def prod.case)
    ultimately show ?thesis by (simp only: terms_append) simp
  qed
  then show ?thesis using assms by (simp only: outcome_def prod.case) simp
qed

lemma cancel_by_id_frame [simp]:
  "rt_worker (fst (snd (cancel_request_by_id q s))) = rt_worker s"
  "rt_next_operation (fst (snd (cancel_request_by_id q s))) = rt_next_operation s"
  by (simp_all add: cancel_request_by_id_def remove_host_operations_for_request_def Let_def)

subsection \<open>The handlers\<close>

definition handles :: "u64 set \<Rightarrow> ('c, 'r) runtime \<Rightarrow> ('c, 'r) runtime \<times> event list \<Rightarrow> bool" where
  "handles silent s res = (outcome [] silent s res \<and> idle_after res)"

definition dispatchable :: "u64 \<Rightarrow> ('c, 'r) runtime \<Rightarrow> bool" where
  "dispatchable r s = (placed [r] s \<and> rt_worker s = WorkerIdle \<and> unat (rt_next_operation s) + 1 < 2 ^ 64)"

lemma handles_finish:
  "dispatchable r s \<Longrightarrow> event_request ev = r \<Longrightarrow> terminal ev \<Longrightarrow> handles {} s (finish_request r ev s)"
  "dispatchable r s \<Longrightarrow> event_request ev = r \<Longrightarrow> terminal ev \<Longrightarrow> handles {} s (finish_unchecked r ev s)"
  by (simp_all add: dispatchable_def handles_def outcome_finish outcome_finish_unchecked)

lemma handles_register: "dispatchable r s \<Longrightarrow> handles {} s (register_pending_host_request r c k ps s)"
  unfolding dispatchable_def handles_def using outcome_register[of r "[]" s] by blast

lemma handles_settle:
  assumes "dispatchable r s" "\<And>ev. event_request ev = r \<Longrightarrow> terminal ev \<Longrightarrow> handles {} s (fin r ev s)"
  shows "handles {} s (settle_remote r out fin s)"
  using assms handles_register[OF assms(1)] by (auto simp: settle_remote_def split: sum.split remote_result.split)

lemma handles_resumed:
  assumes s: "dispatchable r s" and res: "handles {} s1 res"
    and "rt_queue s1 = rt_queue s" "rt_stopped s1 = rt_stopped s" "rt_shutdown s1 = rt_shutdown s"
    "rt_next_operation s1 = rt_next_operation s" "rt_active s1 = rt_active s - {r}"
  shows "handles {r} s res"
proof -
  obtain s' evs where [simp]: "res = (s', evs)" by (cases res)
  have "r \<in> rt_active s" using s by (simp add: dispatchable_def placed_def)
  then have "terms q evs + of_bool (q \<in> {r}) + of_bool (q \<in> rt_active s') = (of_bool (q \<in> rt_active s) :: nat)" for q
  proof -
    have "terms q evs + of_bool (q \<in> {}) + of_bool (q \<in> rt_active s') = (of_bool (q \<in> rt_active s1) :: nat)"
      using res unfolding handles_def outcome_def \<open>res = (s', evs)\<close> prod.case by blast
    then show ?thesis using assms(7) \<open>r \<in> rt_active s\<close> by (cases "q = r") simp_all
  qed
  then show ?thesis using res assms(3-6) unfolding handles_def outcome_def \<open>res = (s', evs)\<close> prod.case by simp
qed

lemma placed_taken:
  assumes s: "placed own s" and op: "map_of (rt_operations s) op = Some operation"
  shows "placed (ho_request_id operation # own) (s\<lparr>rt_operations := hm_remove op (rt_operations s)\<rparr>)"
proof -
  let ?q = "ho_request_id operation"
  let ?s1 = "s\<lparr>rt_operations := hm_remove op (rt_operations s)\<rparr>"
  have parts: "distinct (own @ queued s @ op_requests s)" "rt_active s = set (own @ queued s @ op_requests s)"
    "hm_ok (rt_operations s)" "\<forall>op \<in> fst ` set (rt_operations s). 0 < op \<and> op < rt_next_operation s"
    "0 < rt_next_operation s"
    using s by (simp_all add: placed_def)
  have q: "?q \<in> set (op_requests s)" using map_of_SomeD[OF op] by (force simp: op_requests_def)
  show ?thesis
  proof (rule placedI)
    show "queued ?s1 = queued s" by (simp add: queued_def)
    show "op_requests ?s1 = filter (\<lambda>r. r \<noteq> ?q) (op_requests s)"
      using requests_remove[OF parts(3) op] parts(1) by (simp add: op_requests_def)
    show "distinct ((?q # own) @ queued s @ filter (\<lambda>r. r \<noteq> ?q) (op_requests s))" using parts(1) q by auto
    show "rt_active ?s1 = set ((?q # own) @ queued s @ filter (\<lambda>r. r \<noteq> ?q) (op_requests s))"
      using parts(1,2) q by auto
    show "\<forall>op' \<in> fst ` set (rt_operations ?s1). 0 < op' \<and> op' < rt_next_operation ?s1"
      using parts(4) by (auto simp: hm_remove_def)
  qed (use parts(3,5) in simp_all)
qed

lemma dispatchable_taken:
  assumes s: "dispatchable r s" and op: "map_of (rt_operations s) op = Some operation"
  shows "dispatchable (ho_request_id operation)
    (s\<lparr>rt_active := rt_active s - {r}, rt_operations := hm_remove op (rt_operations s)\<rparr>)"
proof -
  have "placed [] (s\<lparr>rt_active := rt_active s - {r}\<rparr>)" using s by (simp add: dispatchable_def placed_finish)
  from placed_taken[OF this, of op operation] op s show ?thesis by (simp add: dispatchable_def)
qed

definition resumes :: "('c, 'r, 'x) runtime_env \<Rightarrow> command \<Rightarrow> ('c, 'r) runtime \<Rightarrow> bool" where
  \<comment> \<open>a host answer that reaches its operation has no event of its own\<close>
  "resumes E cmd s = (
     if cmd_method cmd = lit ''host.complete'' then (case parse_host_complete_params E cmd of
       Inr (op, result) \<Rightarrow> is_object result \<and> map_of (rt_operations s) op \<noteq> None | Inl _ \<Rightarrow> False)
     else if cmd_method cmd = lit ''host.error'' then (case parse_host_error_params E cmd of
       Inr (op, _) \<Rightarrow> map_of (rt_operations s) op \<noteq> None | Inl _ \<Rightarrow> False)
     else False)"

lemma resumes_frame:
  assumes eq: "rt_operations s' = rt_operations s"
  shows "resumes E cmd s' = resumes E cmd s"
  unfolding resumes_def eq by (rule refl)

lemma dispatch_simple_handles:
  assumes "dispatchable (cmd_request_id cmd) s"
  shows "handles {} s (dispatch_core_info E cmd s)" "handles {} s (dispatch_runtime_ping E cmd s)"
    "handles {} s (dispatch_runtime_status E cmd s)" "handles {} s (dispatch_host_smoke E cmd s)"
  using assms
  by (auto simp: dispatch_core_info_def dispatch_runtime_ping_def dispatch_runtime_status_def dispatch_host_smoke_def
      Let_def handles_finish handles_register simp del: lit_simps split: sum.split)

lemma dispatch_cancel_handles:
  assumes s: "dispatchable (cmd_request_id cmd) s"
  shows "handles {} s (dispatch_runtime_cancel E cmd s)"
proof (cases "\<exists>target. parse_runtime_cancel_params E cmd = Inr target \<and> target \<noteq> cmd_request_id cmd")
  case True
  then obtain target where t: "parse_runtime_cancel_params E cmd = Inr target" "target \<noteq> cmd_request_id cmd" by blast
  let ?r = "cmd_request_id cmd"
  obtain d s1 evs1 where c: "cancel_request_by_id target s = (d, s1, evs1)" by (cases "cancel_request_by_id target s")
  have one: "outcome [?r] {} s (s1, evs1)" using outcome_cancel_by_id[of "[?r]" s target] s c
    by (simp add: dispatchable_def)
  have frame: "rt_worker s1 = rt_worker s" "rt_next_operation s1 = rt_next_operation s"
    using cancel_by_id_frame[of target s] c by simp_all
  have "dispatchable ?r s1" using one s frame by (simp add: dispatchable_def outcome_def)
  then have two: "handles {} s1 (finish_request ?r (EvResult ?r data) s1)" for data by (rule handles_finish) simp_all
  obtain s2 evs2 where f: "finish_request ?r (EvResult ?r (JObj [(lit ''cancelled'', JBool d)])) s1 = (s2, evs2)"
    by (cases "finish_request ?r (EvResult ?r (JObj [(lit ''cancelled'', JBool d)])) s1")
  have two': "outcome [] {} s1 (s2, evs2)" "idle_after (s2, evs2)"
    using two[of "JObj [(lit ''cancelled'', JBool d)]"] unfolding handles_def f by blast+
  have "dispatch_runtime_cancel E cmd s = (s2, evs1 @ evs2)"
    unfolding dispatch_runtime_cancel_def Let_def t(1) sum.case c prod.case f using t(2) by simp
  then show ?thesis using outcome_trans[OF one two'(1) frame(2)] two'(2) by (simp add: handles_def idle_after_def)
next
  case False
  then show ?thesis using handles_finish[OF s]
    by (auto simp: dispatch_runtime_cancel_def Let_def simp del: lit_simps split: sum.split)
qed

lemma dispatch_vertical_handles:
  assumes "dispatchable (cmd_request_id cmd) s"
  shows "handles {} s (dispatch_vertical E x cmd s)"
proof -
  have upd: "dispatchable (cmd_request_id cmd) (s\<lparr>rt_tts := t\<rparr>)" "dispatchable (cmd_request_id cmd) (s\<lparr>rt_remote := r\<rparr>)"
    "handles {} (s\<lparr>rt_tts := t\<rparr>) res = handles {} s res" "handles {} (s\<lparr>rt_remote := r\<rparr>) res = handles {} s res" for t r res
    using assms by (auto simp: dispatchable_def placed_def queued_def op_requests_def handles_def outcome_def)
  show ?thesis
  proof (cases "dispatch_tts (env_tts E) cmd (rt_tts s)")
    case (Some p)
    obtain out t where "p = (out, t)" by (cases p)
    then have "dispatch_vertical E x cmd s = finish_unchecked (cmd_request_id cmd)
        (case out of Inl e \<Rightarrow> EvError (cmd_request_id cmd) e | Inr data \<Rightarrow> EvResult (cmd_request_id cmd) data) (s\<lparr>rt_tts := t\<rparr>)"
      using Some by (simp add: dispatch_vertical_def Let_def)
    moreover have "handles {} (s\<lparr>rt_tts := t\<rparr>) (finish_unchecked (cmd_request_id cmd)
        (case out of Inl e \<Rightarrow> EvError (cmd_request_id cmd) e | Inr data \<Rightarrow> EvResult (cmd_request_id cmd) data) (s\<lparr>rt_tts := t\<rparr>))"
      by (rule handles_finish(2)[OF upd(1)]) (auto split: sum.split)
    ultimately show ?thesis by (simp add: upd(3))
  next
    case tts: None
    show ?thesis
    proof (cases "run_remote E x cmd (rt_remote s)")
      case (Some p)
      obtain out r where "p = (out, r)" by (cases p)
      then have "dispatch_vertical E x cmd s = settle_remote (cmd_request_id cmd) out finish_unchecked (s\<lparr>rt_remote := r\<rparr>)"
        using Some tts by (simp add: dispatch_vertical_def Let_def)
      moreover have "handles {} (s\<lparr>rt_remote := r\<rparr>) (settle_remote (cmd_request_id cmd) out finish_unchecked (s\<lparr>rt_remote := r\<rparr>))"
        by (rule handles_settle[OF upd(2)]) (rule handles_finish(2)[OF upd(2)])
      ultimately show ?thesis by (simp add: upd(4))
    next
      case None
      then show ?thesis using tts handles_finish(1)[OF assms] by (simp add: dispatch_vertical_def Let_def)
    qed
  qed
qed

lemma handles_unknown_operation:
  assumes "dispatchable r s"
  shows "handles {} s (s\<lparr>rt_active := rt_active s - {r}\<rparr>, [EvError r e])"
proof -
  have "r \<in> rt_active s" using assms by (simp add: dispatchable_def placed_def)
  then show ?thesis using assms placed_finish[of r "[]" s]
    by (auto simp: dispatchable_def handles_def outcome_def idle_after_def)
qed

lemma take_operation_cases:
  obtains "map_of (rt_operations s) op = None" "take_host_operation op (s\<lparr>rt_active := a\<rparr>) = None"
  | operation where "map_of (rt_operations s) op = Some operation"
    "take_host_operation op (s\<lparr>rt_active := a\<rparr>)
       = Some (operation, s\<lparr>rt_active := a, rt_operations := hm_remove op (rt_operations s)\<rparr>)"
  by (cases "map_of (rt_operations s) op") (auto simp: take_host_operation_def)

lemma dispatch_complete_handles:
  assumes s: "dispatchable (cmd_request_id cmd) s" and m: "cmd_method cmd = lit ''host.complete''"
  shows "handles (if resumes E cmd s then {cmd_request_id cmd} else {}) s (dispatch_host_complete E x cmd s)"
proof (cases "parse_host_complete_params E cmd")
  case (Inl e)
  then show ?thesis using handles_finish(1)[OF s] m
    by (simp add: dispatch_host_complete_def resumes_def Let_def del: lit_simps)
next
  case (Inr p)
  obtain op result where p: "parse_host_complete_params E cmd = Inr (op, result)" using Inr by (cases p) simp
  let ?r = "cmd_request_id cmd"
  show ?thesis
  proof (cases "is_object result")
    case False
    then show ?thesis using handles_finish(1)[OF s] m p
      by (simp add: dispatch_host_complete_def resumes_def Let_def del: lit_simps)
  next
    case obj: True
    show ?thesis
    proof (rule take_operation_cases[of s op "rt_active s - {?r}"])
      assume none: "map_of (rt_operations s) op = None"
        "take_host_operation op (s\<lparr>rt_active := rt_active s - {?r}\<rparr>) = None"
      have "dispatch_host_complete E x cmd s
          = (s\<lparr>rt_active := rt_active s - {?r}\<rparr>, [EvError ?r (host_operation_not_found op)])"
        using none(2) by (simp add: dispatch_host_complete_def Let_def p obj)
      then show ?thesis using handles_unknown_operation[OF s] p none(1) m by (simp add: resumes_def del: lit_simps)
    next
      fix operation
      let ?s1 = "s\<lparr>rt_active := rt_active s - {?r}, rt_operations := hm_remove op (rt_operations s)\<rparr>"
      assume some: "map_of (rt_operations s) op = Some operation"
        "take_host_operation op (s\<lparr>rt_active := rt_active s - {?r}\<rparr>) = Some (operation, ?s1)"
      let ?q = "ho_request_id operation"
      have taken: "dispatchable ?q ?s1" by (rule dispatchable_taken[OF s some(1)])
      have "handles {?r} s (dispatch_host_complete E x cmd s)"
      proof (cases "ho_continuation operation")
        case Echo
        define ev where "ev = (case complete_echo_host_operation (env_codec E) (ho_capability operation) result of
          Inl e \<Rightarrow> EvError ?q e | Inr data \<Rightarrow> EvResult ?q data)"
        have "event_request ev = ?q" "terminal ev" by (auto simp: ev_def split: sum.split)
        moreover have "dispatch_host_complete E x cmd s = finish_request ?q ev ?s1"
          using some(2) by (simp add: dispatch_host_complete_def Let_def p ev_def obj Echo)
        ultimately show ?thesis
          using handles_resumed[OF s handles_finish(1)[OF taken]] by simp
      next
        case (Remote c)
        obtain out r' where res: "resume_remote E x c result (rt_remote ?s1) = (out, r')"
          by (cases "resume_remote E x c result (rt_remote ?s1)")
        have "dispatchable ?q (?s1\<lparr>rt_remote := r'\<rparr>)"
          using taken by (simp add: dispatchable_def placed_def queued_def op_requests_def)
        then have "handles {} (?s1\<lparr>rt_remote := r'\<rparr>) (settle_remote ?q out finish_request (?s1\<lparr>rt_remote := r'\<rparr>))"
          using handles_settle handles_finish(1) by blast
        moreover have "dispatch_host_complete E x cmd s = settle_remote ?q out finish_request (?s1\<lparr>rt_remote := r'\<rparr>)"
          using some(2) res by (simp add: dispatch_host_complete_def Let_def p obj Remote)
        ultimately show ?thesis using handles_resumed[OF s] by simp
      qed
      then show ?thesis using p obj some(1) m by (simp add: resumes_def del: lit_simps)
    qed
  qed
qed

lemma dispatch_error_handles:
  assumes s: "dispatchable (cmd_request_id cmd) s" and m: "cmd_method cmd = lit ''host.error''"
  shows "handles (if resumes E cmd s then {cmd_request_id cmd} else {}) s (dispatch_host_error E cmd s)"
proof -
  have m': "cmd_method cmd \<noteq> lit ''host.complete''" using m by simp
  show ?thesis
  proof (cases "parse_host_error_params E cmd")
    case (Inl e)
    then show ?thesis using handles_finish(1)[OF s] m m'
      by (simp add: dispatch_host_error_def resumes_def Let_def del: lit_simps)
  next
    case (Inr p)
    obtain op e d where p: "parse_host_error_params E cmd = Inr (op, e, d)" using Inr by (cases p) simp
    let ?r = "cmd_request_id cmd"
    show ?thesis
    proof (rule take_operation_cases[of s op "rt_active s - {?r}"])
      assume none: "map_of (rt_operations s) op = None"
        "take_host_operation op (s\<lparr>rt_active := rt_active s - {?r}\<rparr>) = None"
      have "dispatch_host_error E cmd s
          = (s\<lparr>rt_active := rt_active s - {?r}\<rparr>, [EvError ?r (host_operation_not_found op)])"
        using none(2) by (simp add: dispatch_host_error_def Let_def p)
      then show ?thesis using handles_unknown_operation[OF s] p none(1) m m' by (simp add: resumes_def del: lit_simps)
    next
      fix operation
      let ?s1 = "s\<lparr>rt_active := rt_active s - {?r}, rt_operations := hm_remove op (rt_operations s)\<rparr>"
      assume some: "map_of (rt_operations s) op = Some operation"
        "take_host_operation op (s\<lparr>rt_active := rt_active s - {?r}\<rparr>) = Some (operation, ?s1)"
      let ?q = "ho_request_id operation"
      have taken: "dispatchable ?q ?s1" by (rule dispatchable_taken[OF s some(1)])
      have "dispatch_host_error E cmd s
          = finish_request ?q (EvError ?q (host_error_with_details e op operation d)) ?s1"
        using some(2) by (simp add: dispatch_host_error_def Let_def p)
      then have "handles {?r} s (dispatch_host_error E cmd s)"
        using handles_resumed[OF s handles_finish(1)[OF taken]] by simp
      then show ?thesis using p some(1) m m' by (simp add: resumes_def del: lit_simps)
    qed
  qed
qed

lemma dispatch_shutdown_cases:
  assumes "dispatchable (cmd_request_id cmd) s"
  shows "handles {} s (dispatch_runtime_shutdown E cmd s) \<or> rt_shutdown (fst (dispatch_runtime_shutdown E cmd s))"
proof (cases "parse_cmd_params (dec_shutdown_params E) cmd")
  case (Inl e)
  then show ?thesis using handles_finish(1)[OF assms] by (simp add: dispatch_runtime_shutdown_def Let_def)
next
  case (Inr p)
  then show ?thesis
    by (simp add: dispatch_runtime_shutdown_def cancel_active_requests_for_shutdown_def finish_request_def Let_def del: lit_simps)
qed

lemma handles_if:
  "(c \<Longrightarrow> handles A s (f s)) \<Longrightarrow> (\<not> c \<Longrightarrow> handles A s (g s)) \<Longrightarrow> handles A s ((if c then f else g) s)"
  by simp

lemma dispatch_handles:
  assumes "dispatchable (cmd_request_id cmd) s"
  shows "handles (if resumes E cmd s then {cmd_request_id cmd} else {}) s (dispatch_command E x cmd s)
    \<or> cmd_method cmd = lit ''runtime.shutdown'' \<and> rt_shutdown (fst (dispatch_command E x cmd s))"
proof -
  have [simp]: "\<not> resumes E cmd s" if "cmd_method cmd \<noteq> lit ''host.complete''" "cmd_method cmd \<noteq> lit ''host.error''"
    using that by (simp add: resumes_def del: lit_simps)
  show ?thesis
  proof (cases "cmd_method cmd = lit ''host.complete''")
    case True
    then have "dispatch_command E x cmd = dispatch_host_complete E x cmd" by (simp add: dispatch_command_def)
    then show ?thesis by (intro disjI1) (simp only: dispatch_complete_handles[OF assms True])
  next
    case not_complete: False
    show ?thesis
    proof (cases "cmd_method cmd = lit ''host.error''")
      case True
      then have "dispatch_command E x cmd = dispatch_host_error E cmd" by (simp add: dispatch_command_def)
      then show ?thesis by (intro disjI1) (simp only: dispatch_error_handles[OF assms True])
    next
      case not_error: False
      show ?thesis
      proof (cases "cmd_method cmd = lit ''runtime.shutdown''")
        case True
        then have "dispatch_command E x cmd = dispatch_runtime_shutdown E cmd" by (simp add: dispatch_command_def)
        then show ?thesis using dispatch_shutdown_cases[OF assms] True not_complete not_error by auto
      next
        case False
        have "handles {} s (dispatch_command E x cmd s)"
          unfolding dispatch_command_def Let_def
          by (intro handles_if dispatch_simple_handles[OF assms] dispatch_cancel_handles[OF assms]
              dispatch_vertical_handles[OF assms]) (use False not_complete not_error in blast)+
        then show ?thesis using not_complete not_error by simp
      qed
    qed
  qed
qed

subsection \<open>One step\<close>

definition timely :: "'x action \<Rightarrow> ('c, 'r) runtime \<Rightarrow> bool" where
  \<comment> \<open>no request id is reused in the instant between the registration of its host operation and
    the event that announces it\<close>
  "timely a s = (case (a, rt_worker s) of (Send cmd, Requesting r _ _ _) \<Rightarrow> cmd_request_id cmd \<noteq> r | _ \<Rightarrow> True)"

definition activates :: "u64 \<Rightarrow> 'x action \<Rightarrow> ('c, 'r) runtime \<Rightarrow> bool" where
  "activates q a s = (case a of
     Send cmd \<Rightarrow> q = cmd_request_id cmd \<and> q \<notin> rt_active s \<and> q \<in> rt_active (snd (send cmd s)) | _ \<Rightarrow> False)"

definition consumes :: "('c, 'r, 'x) runtime_env \<Rightarrow> u64 \<Rightarrow> 'x action \<Rightarrow> ('c, 'r) runtime \<Rightarrow> bool" where
  "consumes E q a s = (case (a, rt_worker s) of
     (WorkerRun _, Dispatching (WorkCommand cmd)) \<Rightarrow> q = cmd_request_id cmd \<and> resumes E cmd s
   | (WorkerRun _, Dispatching (ProtocolShutdown cmd)) \<Rightarrow> q = cmd_request_id cmd \<and> resumes E cmd s
   | _ \<Rightarrow> False)"

lemma no_effect_on_ledger [simp]:
  "\<not> consumes E q (Send cmd) s" "\<not> consumes E q (Cancel r) s" "\<not> consumes E q WorkerTake s"
  "\<not> consumes E q WorkerEmit s" "\<not> consumes E q (Callbacks ids) s" "\<not> consumes E q DropRuntime s"
  "\<not> activates q (Cancel r) s" "\<not> activates q WorkerTake s" "\<not> activates q (WorkerRun x) s"
  "\<not> activates q WorkerEmit s" "\<not> activates q (Callbacks ids) s" "\<not> activates q DropRuntime s"
  by (simp_all add: consumes_def activates_def)

definition accounted :: "('c, 'r, 'x) runtime_env \<Rightarrow> 'x action \<Rightarrow> ('c, 'r) runtime \<Rightarrow> ('c, 'r) runtime \<times> event list \<Rightarrow> bool" where
  "accounted E a s = (\<lambda>(s', evs). live s' \<and> unat (rt_next_operation s') \<le> unat (rt_next_operation s) + 1
     \<and> (\<forall>q. terms q evs + of_bool (consumes E q a s) + of_bool (q \<in> rt_active s')
          = (of_bool (q \<in> rt_active s) + of_bool (activates q a s) :: nat)))"

lemma accounted_same:
  assumes "live s'" "rt_active s' = rt_active s" "rt_next_operation s' = rt_next_operation s"
    "\<And>q. \<not> consumes E q a s" "\<And>q. \<not> activates q a s"
  shows "accounted E a s (s', [])"
  using assms by (simp add: accounted_def)

lemma live_callbacks: "live (s\<lparr>rt_callbacks := ids\<rparr>) = live s"
  by (simp add: live_def placed_def queued_def op_requests_def owned_def announced_def
      split: worker_state.split option.split)

definition queue_item :: "command \<Rightarrow> work_item" where
  "queue_item cmd = (if cmd_method cmd = lit ''runtime.shutdown'' then ProtocolShutdown cmd else WorkCommand cmd)"

lemma item_request_queue_item [simp]: "item_request (queue_item cmd) = [cmd_request_id cmd]" "queue_item cmd \<noteq> WorkShutdown" "WorkShutdown \<noteq> queue_item cmd"
  by (simp_all add: queue_item_def)

lemma send_cases:
  obtains ids where "snd (send cmd s) = s\<lparr>rt_callbacks := ids\<rparr>"
  | ids where "cmd_request_id cmd \<notin> rt_active s" "\<not> rt_shutdown s" "\<not> rt_stopped s"
    "snd (send cmd s) = s\<lparr>rt_callbacks := ids, rt_active := insert (cmd_request_id cmd) (rt_active s),
       rt_queue := rt_queue s @ [queue_item cmd]\<rparr>"
proof (cases "validate_command cmd = Inr () \<and> \<not> rt_shutdown s")
  case False
  then have "snd (send cmd s) = s\<lparr>rt_callbacks := rt_callbacks s\<rparr>"
    by (cases "validate_command cmd") (auto simp: send_def simp del: lit_simps)
  then show ?thesis using that(1) by blast
next
  case True
  define i where "i = (if cmd_method cmd = lit ''host.complete'' \<or> cmd_method cmd = lit ''host.error''
    then try_complete cmd s else (False, s))"
  have "\<exists>ids. snd i = s\<lparr>rt_callbacks := ids\<rparr>"
  proof -
    have same: "\<exists>ids. s = s\<lparr>rt_callbacks := ids\<rparr>" by (rule exI[of _ "rt_callbacks s"]) simp
    show ?thesis unfolding i_def try_complete_def
      by (cases "callback_id (cmd_params cmd)") (auto intro: same simp del: lit_simps)
  qed
  then obtain b ids where i: "i = (b, s\<lparr>rt_callbacks := ids\<rparr>)" by (cases i) auto
  let ?s1 = "s\<lparr>rt_callbacks := ids\<rparr>"
  let ?s2 = "?s1\<lparr>rt_active := insert (cmd_request_id cmd) (rt_active s), rt_queue := rt_queue s @ [queue_item cmd]\<rparr>"
  have eq: "snd (send cmd s) = (if b \<or> cmd_request_id cmd \<in> rt_active s \<or> rt_stopped s then ?s1 else ?s2)"
    using True unfolding send_def i_def[symmetric] i by (simp add: queue_item_def del: lit_simps)
  show ?thesis
  proof (cases "b \<or> cmd_request_id cmd \<in> rt_active s \<or> rt_stopped s")
    case True
    then have "snd (send cmd s) = ?s1" using eq by (simp only: if_True)
    then show ?thesis by (rule that(1))
  next
    case False
    then have "snd (send cmd s) = ?s2" using eq by (simp only: if_False)
    moreover have "cmd_request_id cmd \<notin> rt_active s" "\<not> rt_stopped s" using False by blast+
    ultimately show ?thesis using True by (intro that(2)) blast+
  qed
qed

lemma accounted_send:
  assumes s: "live s" and t: "timely (Send cmd) s"
  shows "accounted E (Send cmd) s (snd (send cmd s), [])"
proof (rule send_cases[of cmd s])
  fix ids assume same: "snd (send cmd s) = s\<lparr>rt_callbacks := ids\<rparr>"
  then show ?thesis using s live_callbacks[of ids s]
    by (intro accounted_same) (auto simp: consumes_def activates_def)
next
  let ?r = "cmd_request_id cmd"
  let ?item = "queue_item cmd"
  fix ids assume fresh: "?r \<notin> rt_active s" and s': "snd (send cmd s)
      = s\<lparr>rt_callbacks := ids, rt_active := insert ?r (rt_active s), rt_queue := rt_queue s @ [?item]\<rparr>"
  have "placed (owned s) (snd (send cmd s))"
    using s fresh unfolding s' live_def placed_def queued_def op_requests_def by auto
  moreover have "announced (snd (send cmd s))"
    using s t unfolding s' live_def announced_def timely_def
    by (auto split: worker_state.splits option.splits)
  moreover have "owned (snd (send cmd s)) = owned s" unfolding s' by (simp add: owned_def)
  ultimately have "live (snd (send cmd s))" using s unfolding live_def by (simp add: s')
  moreover have "activates q (Send cmd) s = (q = ?r)" for q using fresh s' by (auto simp: activates_def)
  moreover have "\<not> consumes E q (Send cmd) s" for q by (simp add: consumes_def)
  moreover have "rt_active (snd (send cmd s)) = insert ?r (rt_active s)" "rt_next_operation (snd (send cmd s)) = rt_next_operation s"
    by (simp_all add: s')
  ultimately show ?thesis using fresh by (auto simp: accounted_def)
qed

lemma accounted_cancel:
  assumes s: "live s"
  shows "accounted E (Cancel q) s (cancel q s)"
proof -
  have p: "placed (owned s) s" using s by (simp add: live_def)
  obtain s' evs where c: "cancel q s = (s', evs)" by (cases "cancel q s")
  have snd_c: "snd (cancel_request_by_id q s) = (s', evs)" using c by (simp add: cancel_def)
  have frame: "rt_worker s' = rt_worker s" "rt_next_operation s' = rt_next_operation s"
    using cancel_by_id_frame[of q s] unfolding snd_c by simp_all
  have out: "outcome (owned s) {} s (s', evs)" using outcome_cancel_by_id[OF p, of q] c by (simp add: cancel_def)
  have "announced s'"
  proof (rule cancel_by_id_cases[OF p, of q])
    assume "cancel_request_by_id q s = (False, s, [])"
    then show ?thesis using c s by (simp add: cancel_def live_def)
  next
    assume q: "q \<in> set (op_requests s)" and eq: "cancel_request_by_id q s = (True,
      s\<lparr>rt_operations := hm_retain (\<lambda>_ o'. ho_request_id o' \<noteq> q) (rt_operations s),
       rt_cancelled := rt_cancelled s - {q}, rt_active := rt_active s - {q}\<rparr>, [EvError q cancelled_error])"
    have "hm_ok (rt_operations s)" using p by (simp add: placed_def)
    then show ?thesis using c s q eq
      by (auto simp: cancel_def live_def announced_def table_simps split: worker_state.splits option.splits if_splits)
  next
    assume q: "q \<in> rt_active s" and eq: "cancel_request_by_id q s = (True, s\<lparr>rt_cancelled := insert q (rt_cancelled s)\<rparr>, [])"
    then show ?thesis using c s
      by (auto simp: cancel_def live_def announced_def split: worker_state.splits option.splits)
  qed
  moreover have "owned s' = owned s" using frame(1) by (simp add: owned_def)
  ultimately show ?thesis using out s frame by (simp add: c accounted_def outcome_def live_def)
qed

lemma accounted_take:
  assumes s: "live s" and idle: "rt_worker s = WorkerIdle" and q: "rt_queue s = item # items" and run: "\<not> rt_shutdown s"
  shows "accounted E WorkerTake s (worker_take s)"
proof -
  have up: "\<not> rt_stopped s" "item \<noteq> WorkShutdown" "WorkShutdown \<notin> set items" using s q by (auto simp: live_def)
  obtain r where r: "item_request item = [r]" using up(2) by (cases item) auto
  have p: "placed [] s" using s idle by (simp add: live_def owned_def)
  have p1: "placed [r] (s\<lparr>rt_queue := items\<rparr>)"
    using p q r by (auto simp: placed_def queued_def op_requests_def)
  show ?thesis
  proof (cases "r \<in> rt_cancelled s")
    case True
    let ?s1 = "s\<lparr>rt_queue := items, rt_cancelled := rt_cancelled s - {r}\<rparr>"
    have take: "worker_take s = finish_request r (EvError r cancelled_error) ?s1"
      using True idle q r up run by (simp add: worker_take_def Let_def)
    have "placed [r] ?s1" using p1 by (simp add: placed_def queued_def op_requests_def)
    then have out: "outcome [] {} ?s1 (worker_take s)" unfolding take by (rule outcome_finish) simp_all
    obtain s' evs where w: "worker_take s = (s', evs)" by (cases "worker_take s")
    have "rt_worker s' = WorkerIdle" using w idle by (auto simp: take finish_request_def)
    then show ?thesis using out up w by (simp add: outcome_def accounted_def live_def owned_def announced_def)
  next
    case False
    then have "worker_take s = (s\<lparr>rt_queue := items, rt_worker := Dispatching item\<rparr>, [])"
      using idle q r up run by (simp add: worker_take_def Let_def)
    moreover have "live (s\<lparr>rt_queue := items, rt_worker := Dispatching item\<rparr>)"
      using p1 up r by (simp add: live_def owned_def announced_def placed_def queued_def op_requests_def)
    ultimately show ?thesis by (simp add: accounted_def)
  qed
qed

lemma accounted_emit:
  assumes s: "live s" and w: "rt_worker s = Requesting r op c ps"
  shows "accounted E WorkerEmit s (worker_emit s)"
proof -
  have p: "placed [] s" using s w by (simp add: live_def owned_def)
  show ?thesis
  proof (cases "r \<in> rt_cancelled s")
    case True
    then obtain operation where op: "map_of (rt_operations s) op = Some operation" "ho_request_id operation = r"
      using s w by (auto simp: live_def announced_def split: option.splits)
    let ?s1 = "s\<lparr>rt_operations := hm_remove op (rt_operations s), rt_worker := WorkerIdle\<rparr>"
    have emit: "worker_emit s = finish_request r (EvError r cancelled_error) ?s1"
      using True w by (simp add: worker_emit_def)
    have "placed [r] ?s1" using placed_taken[OF p op(1)] op(2) by (simp add: placed_def queued_def op_requests_def)
    then have out: "outcome [] {} ?s1 (worker_emit s)" unfolding emit by (rule outcome_finish) simp_all
    obtain s' evs where w': "worker_emit s = (s', evs)" by (cases "worker_emit s")
    have "rt_worker s' = WorkerIdle" using w' by (auto simp: emit finish_request_def)
    then show ?thesis using out s w' by (simp add: outcome_def accounted_def live_def owned_def announced_def)
  next
    case False
    then have "worker_emit s = (s\<lparr>rt_worker := WorkerIdle\<rparr>, [EvHostRequest r op c ps])" using w by (simp add: worker_emit_def)
    moreover have "live (s\<lparr>rt_worker := WorkerIdle\<rparr>)"
      using s p by (simp add: live_def owned_def announced_def placed_def queued_def op_requests_def)
    ultimately show ?thesis by (simp add: accounted_def)
  qed
qed

lemma shutdown_drain [simp]: "rt_shutdown (fst (drain_queued_after_protocol_shutdown items s)) = rt_shutdown s"
proof (induction items arbitrary: s)
  case (Cons item items)
  then show ?case by (cases item) (simp_all add: finish_request_def Let_def case_prod_beta)
qed simp

lemma accounted_run:
  assumes s: "live s" and run: "\<not> rt_shutdown s" and room: "unat (rt_next_operation s) + 1 < 2 ^ 64"
  shows "accounted E (WorkerRun x) s (worker_run E x s) \<and> rt_queue (fst (worker_run E x s)) = rt_queue s
      \<and> owned (fst (worker_run E x s)) = [] \<or> rt_shutdown (fst (worker_run E x s))"
proof -
  let ?s0 = "s\<lparr>rt_worker := WorkerIdle\<rparr>"
  have dispatched: "accounted E (WorkerRun x) s (dispatch_command E x cmd ?s0)
      \<and> rt_queue (fst (dispatch_command E x cmd ?s0)) = rt_queue s \<and> owned (fst (dispatch_command E x cmd ?s0)) = []"
    if w: "rt_worker s = Dispatching item" "item \<in> {WorkCommand cmd, ProtocolShutdown cmd}"
      and out: "\<not> rt_shutdown (fst (dispatch_command E x cmd ?s0))" for item cmd
  proof -
    have "placed [cmd_request_id cmd] s" using s w by (auto simp: live_def owned_def)
    then have d: "dispatchable (cmd_request_id cmd) ?s0"
      using room by (simp add: dispatchable_def placed_def queued_def op_requests_def)
    have h: "handles (if resumes E cmd ?s0 then {cmd_request_id cmd} else {}) ?s0 (dispatch_command E x cmd ?s0)"
      using dispatch_handles[OF d, of E x] out by blast
    obtain s' evs where r: "dispatch_command E x cmd ?s0 = (s', evs)" by (cases "dispatch_command E x cmd ?s0")
    have o: "outcome [] (if resumes E cmd ?s0 then {cmd_request_id cmd} else {}) ?s0 (s', evs)" "announced s'" "owned s' = []"
      using h idle_after_announced[of s' evs] unfolding handles_def r by blast+
    have c: "of_bool (consumes E q (WorkerRun x) s)
        = (of_bool (q \<in> (if resumes E cmd ?s0 then {cmd_request_id cmd} else {})) :: nat)" for q
      using w resumes_frame[of ?s0 s E cmd] by (auto simp: consumes_def)
    show ?thesis unfolding r accounted_def prod.case c
      using o s unfolding outcome_def live_def prod.case by simp
  qed
  show ?thesis
  proof (cases "rt_worker s")
    case WorkerIdle
    then show ?thesis using s by (simp add: worker_run_def accounted_def consumes_def owned_def)
  next
    case (Requesting r op c ps)
    then show ?thesis using s by (simp add: worker_run_def accounted_def consumes_def owned_def)
  next
    case (Dispatching item)
    show ?thesis
    proof (cases item)
      case (WorkCommand cmd)
      then show ?thesis using dispatched[OF Dispatching] Dispatching by (auto simp: worker_run_def)
    next
      case (ProtocolShutdown cmd)
      show ?thesis
      proof (cases "rt_shutdown (fst (dispatch_command E x cmd ?s0))")
        case True
        then show ?thesis using Dispatching ProtocolShutdown by (simp add: worker_run_def Let_def case_prod_beta)
      next
        case False
        then have "worker_run E x s = dispatch_command E x cmd ?s0"
          using Dispatching ProtocolShutdown by (simp add: worker_run_def Let_def case_prod_beta)
        then show ?thesis using dispatched[OF Dispatching, of cmd] ProtocolShutdown False by simp
      qed
    next
      case WorkShutdown
      then show ?thesis using s Dispatching by (simp add: live_def announced_def)
    qed
  qed
qed

theorem step_accounted:
  assumes s: "live s" and run: "\<not> rt_shutdown s" and room: "unat (rt_next_operation s) + 1 < 2 ^ 64" and t: "timely a s"
  shows "accounted E a s (runtime_step E a s) \<or> rt_shutdown (fst (runtime_step E a s))"
proof (cases a)
  case (Send cmd)
  then show ?thesis using accounted_send[OF s t[unfolded Send], of E] by simp
next
  case (Cancel r)
  then show ?thesis using accounted_cancel[OF s, of E r] by simp
next
  case WorkerTake
  show ?thesis
  proof (cases "rt_worker s = WorkerIdle \<and> rt_queue s \<noteq> []")
    case True
    then obtain item items where "rt_queue s = item # items" by (cases "rt_queue s") auto
    then show ?thesis using accounted_take[OF s _ _ run, of item items E] True WorkerTake by simp
  next
    case False
    then have "worker_take s = (s, [])" by (auto simp: worker_take_def split: bool.split worker_state.split list.split)
    then show ?thesis using WorkerTake s by (simp add: accounted_def)
  qed
next
  case (WorkerRun x)
  then show ?thesis using accounted_run[OF s run room, of E x] by auto
next
  case WorkerEmit
  show ?thesis
  proof (cases "\<exists>r op c ps. rt_worker s = Requesting r op c ps")
    case True
    then obtain r op c ps where "rt_worker s = Requesting r op c ps" by blast
    from accounted_emit[OF s this, of E] show ?thesis using WorkerEmit by simp
  next
    case False
    then have "worker_emit s = (s, [])" by (auto simp: worker_emit_def split: worker_state.split)
    then show ?thesis using WorkerEmit s by (simp add: accounted_def)
  qed
next
  case (Callbacks ids)
  then show ?thesis using s live_callbacks[of ids s] by (simp add: accounted_def)
next
  case DropRuntime
  then show ?thesis by (simp add: drop_runtime_def)
qed

subsection \<open>Shutdown is final\<close>

lemma shutdown_kept [simp]:
  "rt_shutdown (fst (finish_request r e s)) = rt_shutdown s"
  "rt_shutdown (fst (finish_unchecked r e s)) = rt_shutdown s"
  "rt_shutdown (fst (register_pending_host_request r c k ps s)) = rt_shutdown s"
  "rt_shutdown (fst (snd (cancel_request_by_id r s))) = rt_shutdown s"
  by (simp_all add: finish_request_def finish_unchecked_def register_pending_host_request_def
      cancel_request_by_id_def remove_host_operations_for_request_def Let_def)

lemma shutdown_take_operation: "take_host_operation op s = Some (operation, s') \<Longrightarrow> rt_shutdown s' = rt_shutdown s"
  by (auto simp: take_host_operation_def split: option.splits)

lemma shutdown_settle:
  "(\<And>ev. rt_shutdown (fst (fin r ev s)) = rt_shutdown s) \<Longrightarrow> rt_shutdown (fst (settle_remote r out fin s)) = rt_shutdown s"
  by (auto simp: settle_remote_def split: sum.split remote_result.split)

lemma shutdown_settles [simp]:
  "rt_shutdown (fst (settle_remote r out finish_request s)) = rt_shutdown s"
  "rt_shutdown (fst (settle_remote r out finish_unchecked s)) = rt_shutdown s"
  by (simp_all add: shutdown_settle)

lemma shutdown_simple:
  "rt_shutdown (fst (dispatch_core_info E cmd s)) = rt_shutdown s"
  "rt_shutdown (fst (dispatch_runtime_ping E cmd s)) = rt_shutdown s"
  "rt_shutdown (fst (dispatch_host_smoke E cmd s)) = rt_shutdown s"
  "rt_shutdown (fst (dispatch_runtime_status E cmd s)) = rt_shutdown s"
  by (simp_all add: dispatch_core_info_def dispatch_runtime_ping_def dispatch_host_smoke_def
      dispatch_runtime_status_def Let_def del: lit_simps split: sum.split)

lemma shutdown_cancel: "rt_shutdown (fst (dispatch_runtime_cancel E cmd s)) = rt_shutdown s"
  by (simp add: dispatch_runtime_cancel_def Let_def case_prod_beta del: lit_simps split: sum.split)

lemma shutdown_complete: "rt_shutdown (fst (dispatch_host_complete E x cmd s)) = rt_shutdown s"
  by (auto simp: dispatch_host_complete_def Let_def case_prod_beta simp del: lit_simps
      split: sum.split option.split continuation.split dest!: shutdown_take_operation)

lemma shutdown_error: "rt_shutdown (fst (dispatch_host_error E cmd s)) = rt_shutdown s"
  by (auto simp: dispatch_host_error_def Let_def case_prod_beta simp del: lit_simps
      split: sum.split option.split dest!: shutdown_take_operation)

lemma shutdown_vertical: "rt_shutdown (fst (dispatch_vertical E x cmd s)) = rt_shutdown s"
  by (simp add: dispatch_vertical_def Let_def case_prod_beta del: lit_simps split: option.split)

lemma shutdown_shutdown: "rt_shutdown s \<Longrightarrow> rt_shutdown (fst (dispatch_runtime_shutdown E cmd s))"
  by (simp add: dispatch_runtime_shutdown_def cancel_active_requests_for_shutdown_def Let_def case_prod_beta
      del: lit_simps split: sum.split)

lemma if_apply: "(if c then f else g) s = (if c then f s else g s)"
  by simp

lemma shutdown_dispatch:
  assumes "rt_shutdown s"
  shows "rt_shutdown (fst (dispatch_command E x cmd s))"
  unfolding dispatch_command_def Let_def if_apply if_distrib[of fst] if_distrib[of rt_shutdown]
    shutdown_simple shutdown_cancel shutdown_complete shutdown_error shutdown_vertical
  using assms shutdown_shutdown[OF assms, of E cmd] by (simp del: lit_simps)

lemma shutdown_final:
  assumes "rt_shutdown s"
  shows "rt_shutdown (fst (runtime_step E a s))"
proof (cases a)
  case (Send cmd)
  show ?thesis using assms by (rule_tac send_cases[of cmd s]) (auto simp: Send)
next
  case (Cancel r)
  then show ?thesis using assms by (simp add: cancel_def)
next
  case WorkerTake
  then show ?thesis using assms
    by (auto simp: worker_take_def Let_def split: bool.split worker_state.split list.split)
next
  case (WorkerRun x)
  then show ?thesis using assms shutdown_dispatch[of "s\<lparr>rt_worker := WorkerIdle\<rparr>" E x]
    by (auto simp: worker_run_def Let_def case_prod_beta split: worker_state.split work_item.split)
next
  case WorkerEmit
  then show ?thesis using assms by (auto simp: worker_emit_def split: worker_state.split)
qed (use assms in \<open>simp_all add: drop_runtime_def\<close>)

subsection \<open>Whole runs\<close>

fun timely_run :: "('c, 'r, 'x) runtime_env \<Rightarrow> 'x action list \<Rightarrow> ('c, 'r) runtime \<Rightarrow> bool" where
  "timely_run E [] s = True"
| "timely_run E (a # as) s = (timely a s \<and> timely_run E as (fst (runtime_step E a s)))"

fun activations :: "('c, 'r, 'x) runtime_env \<Rightarrow> u64 \<Rightarrow> 'x action list \<Rightarrow> ('c, 'r) runtime \<Rightarrow> nat" where
  \<comment> \<open>how often a request was accepted\<close>
  "activations E q [] s = 0"
| "activations E q (a # as) s = of_bool (activates q a s) + activations E q as (fst (runtime_step E a s))"

fun resumptions :: "('c, 'r, 'x) runtime_env \<Rightarrow> u64 \<Rightarrow> 'x action list \<Rightarrow> ('c, 'r) runtime \<Rightarrow> nat" where
  \<comment> \<open>how often it was a host answer that resumed another request\<close>
  "resumptions E q [] s = 0"
| "resumptions E q (a # as) s = of_bool (consumes E q a s) + resumptions E q as (fst (runtime_step E a s))"

lemma runtime_run_Cons:
  "runtime_run E (a # as) s = (s', evs) \<Longrightarrow> \<exists>evs2. runtime_run E as (fst (runtime_step E a s)) = (s', evs2)
     \<and> evs = snd (runtime_step E a s) @ evs2"
  by (auto simp: Let_def split: prod.splits)

lemma shutdown_run: "rt_shutdown s \<Longrightarrow> runtime_run E acts s = (s', evs) \<Longrightarrow> rt_shutdown s'"
proof (induction acts arbitrary: s evs)
  case (Cons a acts)
  then show ?case using runtime_run_Cons[OF Cons.prems(2)] shutdown_final[OF Cons.prems(1)] by blast
qed simp

lemma run_accounted:
  assumes "live s" "unat (rt_next_operation s) + length acts < 2 ^ 64" "timely_run E acts s"
    "runtime_run E acts s = (s', evs)" "\<not> rt_shutdown s'"
  shows "live s' \<and> of_bool (q \<in> rt_active s) + activations E q acts s
    = terms q evs + resumptions E q acts s + of_bool (q \<in> rt_active s')"
  using assms
proof (induction acts arbitrary: s evs)
  case (Cons a acts)
  obtain s1 evs1 where step: "runtime_step E a s = (s1, evs1)" by (cases "runtime_step E a s")
  obtain evs2 where rest: "runtime_run E acts s1 = (s', evs2)" "evs = evs1 @ evs2"
    using runtime_run_Cons[OF Cons.prems(4)] step by auto
  have "\<not> rt_shutdown s1" using shutdown_run[OF _ rest(1)] Cons.prems(5) by blast
  moreover have "\<not> rt_shutdown s" using shutdown_run[OF _ Cons.prems(4)] Cons.prems(5) by blast
  moreover have "unat (rt_next_operation s) + 1 < 2 ^ 64" "timely a s" using Cons.prems(2,3) by simp_all
  ultimately have acc: "accounted E a s (s1, evs1)"
    using step_accounted[OF Cons.prems(1), of a E] step by simp
  then have after_step: "live s1" "unat (rt_next_operation s1) \<le> unat (rt_next_operation s) + 1"
    and now: "terms q evs1 + of_bool (consumes E q a s) + of_bool (q \<in> rt_active s1)
          = (of_bool (q \<in> rt_active s) + of_bool (activates q a s) :: nat)"
    by (simp_all only: accounted_def prod.case)
  have "unat (rt_next_operation s1) + length acts < 2 ^ 64" using after_step(2) Cons.prems(2) by simp
  moreover have "timely_run E acts s1" using Cons.prems(3) step by simp
  ultimately have "live s' \<and> of_bool (q \<in> rt_active s1) + activations E q acts s1
    = terms q evs2 + resumptions E q acts s1 + of_bool (q \<in> rt_active s')"
    using Cons.IH[OF after_step(1) _ _ rest(1) Cons.prems(5)] by blast
  with now show ?case using step by (simp only: activations.simps resumptions.simps terms_append rest(2) fst_conv simp_thms) linarith
qed simp

lemma run_room:
  assumes "live s" "unat (rt_next_operation s) + length acts < 2 ^ 64" "timely_run E acts s"
    "\<not> rt_shutdown (fst (runtime_run E acts s))"
  shows "live (fst (runtime_run E acts s)) \<and>
    unat (rt_next_operation (fst (runtime_run E acts s))) \<le> unat (rt_next_operation s) + length acts"
  using assms
proof (induction acts arbitrary: s)
  case (Cons a acts)
  let ?s1 = "fst (runtime_step E a s)"
  have run: "fst (runtime_run E (a # acts) s) = fst (runtime_run E acts ?s1)" by (simp add: Let_def case_prod_beta)
  have up1: "\<not> rt_shutdown ?s1"
    using Cons.prems(4) shutdown_run[of ?s1 E acts] unfolding run by (metis prod.collapse)
  have up: "\<not> rt_shutdown s" using up1 shutdown_final by blast
  have "unat (rt_next_operation s) + 1 < 2 ^ 64" "timely a s" using Cons.prems(2,3) by simp_all
  then have "accounted E a s (runtime_step E a s)" using step_accounted[OF Cons.prems(1) up] up1 by blast
  then have s1: "live ?s1" "unat (rt_next_operation ?s1) \<le> unat (rt_next_operation s) + 1"
    by (cases "runtime_step E a s", simp add: accounted_def)+
  have "live (fst (runtime_run E acts ?s1))
      \<and> unat (rt_next_operation (fst (runtime_run E acts ?s1))) \<le> unat (rt_next_operation ?s1) + length acts"
    using Cons.IH[OF s1(1)] s1(2) Cons.prems unfolding run by simp
  then show ?case using s1(2) unfolding run by simp
qed simp

lemma live_new: "live (runtime_new r0)"
  by (simp add: live_def runtime_new_def owned_def placed_def queued_def op_requests_def announced_def)

end
