(* ===== verification/RuntimeProps.thy ===== *)
theory RuntimeProps
  imports RuntimeRuns
begin

text \<open>
  The guarantees of the runtime: every accepted request is answered exactly once, the worker
  drains its queue, shutdown leaves nothing behind, cancellation, and the assertions in the event
  constructors never fail.
\<close>

subsection \<open>A sample environment\<close>

definition sample_tts_codec :: tts_codec where
  "sample_tts_codec = \<lparr>dec_slice_params = (\<lambda>v. Inl []), dec_chapter_params = (\<lambda>m v. Inr sample_chapter_ref),
     dec_chapter_plan_params = (\<lambda>v. Inl []), dec_play_params = (\<lambda>v. Inl []), enc_slice_data = (\<lambda>p. JObj []),
     enc_transition_data = (\<lambda>t. JObj []), enc_snapshot_data = (\<lambda>s. JObj []), enc_chapter_ref = (\<lambda>c. JNull)\<rparr>"

definition sample_env :: "(unit, unit, unit) runtime_env" where
  \<comment> \<open>every host answer is for operation 1; no remote method is known\<close>
  "sample_env = \<lparr>env_codec = sample_codec, env_tts = sample_tts_codec, dec_no_params = (\<lambda>v. Inr ()),
     dec_status_params = (\<lambda>v. Inr ()), dec_shutdown_params = (\<lambda>v. Inr ()),
     dec_smoke_params = (\<lambda>v. Inr \<lparr>hs_capability = HostSmokeEcho, hs_params = v\<rparr>),
     dec_cancel_params = (\<lambda>v. Inl []), dec_complete_params = (\<lambda>v. Inr (1, v)),
     dec_error_params = (\<lambda>v. Inl []), run_remote = (\<lambda>x cmd r. None), resume_remote = (\<lambda>x c v r. (Inl (internal_error []), r))\<rparr>"

definition sample_command :: "u64 \<Rightarrow> string \<Rightarrow> command" where
  "sample_command r m = new_command r (lit m) (JObj [])"

definition sample_exchange :: "unit action list" where
  "sample_exchange = [Send (sample_command 7 ''runtime.hostSmoke''), WorkerTake, WorkerRun (), WorkerEmit,
     Send (sample_command 8 ''host.complete''), WorkerTake, WorkerRun ()]"

lemma sample_command_simps [simp]:
  "cmd_request_id (sample_command r m) = r" "cmd_method (sample_command r m) = lit m"
  "cmd_params (sample_command r m) = JObj []" "cmd_protocol_version (sample_command r m) = 1"
  by (simp_all add: sample_command_def new_command_def protocol_version_def del: lit_simps)

lemma sample_env_simps [simp]:
  "env_codec sample_env = sample_codec" "dec_complete_params sample_env v = Inr (1, v)"
  "resume_remote sample_env x c v r = (Inl (internal_error []), r)" "dec_shutdown_params sample_env v = Inr ()"
  "env_tts sample_env = sample_tts_codec" "run_remote sample_env x cmd r = None"
  by (simp_all add: sample_env_def)

lemma valid_smoke: "validate_command (sample_command 7 ''runtime.hostSmoke'') = Inr ()"
  by (simp add: validate_command_def is_valid_token_path_def is_whitespace_def blank_iff protocol_version_def)

lemma valid_complete: "validate_command (sample_command 8 ''host.complete'') = Inr ()"
  by (simp add: validate_command_def is_valid_token_path_def is_whitespace_def blank_iff protocol_version_def)

lemma sent_smoke:
  "snd (send (sample_command 7 ''runtime.hostSmoke'') (runtime_new ()))
    = (runtime_new ()) \<lparr>rt_active := {7}, rt_queue := [WorkCommand (sample_command 7 ''runtime.hostSmoke'')]\<rparr>"
  by (simp add: send_def valid_smoke runtime_new_def)

lemma smoke_dispatched:
  "dispatch_command sample_env () (sample_command 7 ''runtime.hostSmoke'') s
    = register_pending_host_request 7 HostSmokeEcho Echo (JObj []) s"
  by (simp add: dispatch_command_def dispatch_host_smoke_def sample_env_def parse_host_smoke_params_def validate_host_smoke_params_def Let_def)

lemma complete_routed:
  "dispatch_command sample_env () (sample_command 8 ''host.complete'') s
    = dispatch_host_complete sample_env () (sample_command 8 ''host.complete'') s"
  by (simp add: dispatch_command_def)

lemmas runtime_step_defs = runtime_new_def worker_take_def worker_run_def worker_emit_def
  register_pending_host_request_def send_def try_complete_def callback_id_def hm_insert_def hm_remove_def
  finish_request_def take_host_operation_def Let_def

lemma complete_dispatched:
  "dispatch_command sample_env () (sample_command 8 ''host.complete'') s
  = (let s0 = s\<lparr>rt_active := rt_active s - {8}\<rparr> in (case take_host_operation 1 s0 of
         None \<Rightarrow> (s0, [EvError 8 (host_operation_not_found 1)])
       | Some (operation, s1) \<Rightarrow> let q = ho_request_id operation in (case ho_continuation operation of
           Echo \<Rightarrow> finish_request q
             (case complete_echo_host_operation sample_codec (ho_capability operation) (JObj []) of
                Inl e \<Rightarrow> EvError q e | Inr data \<Rightarrow> EvResult q data) s1
         | Remote c \<Rightarrow> finish_request q (EvError q (internal_error [])) (s1\<lparr>rt_remote := ()\<rparr>))))"
  unfolding complete_routed
  by (simp add: dispatch_host_complete_def parse_host_complete_params_def parse_cmd_params_def Let_def
      settle_remote_def split: option.split continuation.split)

lemma exchange_run:
  "runtime_run sample_env sample_exchange (runtime_new ())
     = (runtime_new () \<lparr>rt_next_operation := 2\<rparr>, [EvHostRequest 7 1 HostSmokeEcho (JObj []), EvResult 7 (JObj [])])"
  by (simp add: sample_exchange_def sent_smoke smoke_dispatched complete_dispatched valid_smoke valid_complete complete_echo_host_operation_def runtime_step_defs)

lemma exchange_timely: "timely_run sample_env sample_exchange (runtime_new ())"
  by (simp add: sample_exchange_def timely_def sent_smoke smoke_dispatched complete_dispatched valid_smoke valid_complete complete_echo_host_operation_def runtime_step_defs)

subsection \<open>Every request is answered once\<close>



subsection \<open>The worker drains its queue\<close>

definition rounds :: "'x list \<Rightarrow> 'x action list" where
  "rounds xs = concat (map (\<lambda>x. [WorkerTake, WorkerRun x, WorkerEmit]) xs)"

lemma rounds_Cons: "rounds (x # xs) = [WorkerTake, WorkerRun x, WorkerEmit] @ rounds xs"
  by (simp add: rounds_def)

lemma runtime_run_append: "runtime_run E (as @ bs) s = (let (s1, evs1) = runtime_run E as s;
    (s2, evs2) = runtime_run E bs s1 in (s2, evs1 @ evs2))"
  by (induction as arbitrary: s) (auto simp: Let_def split: prod.split)

lemma take_progress:
  assumes "live s" "rt_worker s = WorkerIdle" "\<not> rt_shutdown s"
  shows "rt_queue (fst (worker_take s)) = tl (rt_queue s)"
    and "(\<forall>r op c ps. rt_worker (fst (worker_take s)) \<noteq> Requesting r op c ps)"
  using assms by (auto simp: live_def worker_take_def finish_request_def Let_def split: bool.splits list.splits)

lemma emit_progress:
  assumes "live s" "owned s = []"
  shows "rt_queue (fst (worker_emit s)) = rt_queue s" "rt_worker (fst (worker_emit s)) = WorkerIdle"
proof -
  show "rt_queue (fst (worker_emit s)) = rt_queue s"
    by (simp add: worker_emit_def finish_request_def split: worker_state.split)
  show "rt_worker (fst (worker_emit s)) = WorkerIdle"
  proof (cases "rt_worker s")
    case (Dispatching item)
    then show ?thesis using assms by (cases item) (simp_all add: owned_def live_def announced_def)
  qed (simp_all add: worker_emit_def finish_request_def)
qed

lemma runtime_run_two: "runtime_run E [a, b] s = (fst (runtime_step E b (fst (runtime_step E a s))),
    snd (runtime_step E a s) @ snd (runtime_step E b (fst (runtime_step E a s))))"
  by (simp add: Let_def case_prod_beta)

lemma run_emit_progress:
  assumes s: "live s" and run: "\<not> rt_shutdown (fst (runtime_run E [WorkerRun x, WorkerEmit] s))"
    and room: "unat (rt_next_operation s) + 2 < 2 ^ 64"
  shows "rt_queue (fst (runtime_run E [WorkerRun x, WorkerEmit] s)) = rt_queue s"
    "rt_worker (fst (runtime_run E [WorkerRun x, WorkerEmit] s)) = WorkerIdle"
proof -
  let ?s1 = "fst (worker_run E x s)"
  have up1: "\<not> rt_shutdown ?s1" using run shutdown_final[of ?s1 E WorkerEmit] unfolding runtime_run_two by auto
  have up: "\<not> rt_shutdown s" using up1 shutdown_final[of s E "WorkerRun x"] by auto
  have "unat (rt_next_operation s) + 1 < 2 ^ 64" using room by simp
  from accounted_run[OF s up this, of E x] up1
  have "accounted E (WorkerRun x) s (worker_run E x s)" "rt_queue ?s1 = rt_queue s" "owned ?s1 = []" by blast+
  moreover from this(1) have "live ?s1" by (cases "worker_run E x s") (simp add: accounted_def)
  ultimately show "rt_queue (fst (runtime_run E [WorkerRun x, WorkerEmit] s)) = rt_queue s"
    "rt_worker (fst (runtime_run E [WorkerRun x, WorkerEmit] s)) = WorkerIdle"
    unfolding runtime_run_two by (simp_all add: emit_progress)
qed

lemma timely_worker [simp]: "timely WorkerTake s" "timely (WorkerRun x) s" "timely WorkerEmit s"
  by (simp_all add: timely_def)

lemma timely_rounds: "timely_run E (rounds xs) s"
  by (induction xs arbitrary: s) (simp_all add: rounds_def)

lemma rounds_drain:
  assumes "live s" "rt_worker s = WorkerIdle" "length xs = length (rt_queue s)"
    "unat (rt_next_operation s) + 3 * length xs < 2 ^ 64 - 2" "\<not> rt_shutdown (fst (runtime_run E (rounds xs) s))"
  shows "rt_queue (fst (runtime_run E (rounds xs) s)) = [] \<and> rt_worker (fst (runtime_run E (rounds xs) s)) = WorkerIdle"
  using assms
proof (induction xs arbitrary: s)
  case Nil
  then show ?case by (simp add: rounds_def)
next
  case (Cons x xs)
  let ?s1 = "fst (worker_take s)"
  let ?p = "runtime_run E [WorkerTake, WorkerRun x, WorkerEmit] s"
  have rest: "fst (runtime_run E (rounds (x # xs)) s) = fst (runtime_run E (rounds xs) (fst ?p))"
    unfolding rounds_Cons runtime_run_append by (simp add: Let_def case_prod_beta)
  have p: "fst ?p = fst (runtime_run E [WorkerRun x, WorkerEmit] ?s1)"
    by (simp add: Let_def case_prod_beta)
  have up3: "\<not> rt_shutdown (fst ?p)"
    using Cons.prems(5) shutdown_run[of "fst ?p" E "rounds xs"] unfolding rest
    by (metis prod.collapse)
  have up2: "\<not> rt_shutdown (fst (runtime_run E [WorkerRun x, WorkerEmit] ?s1))" using up3 unfolding p .
  have up1: "\<not> rt_shutdown ?s1"
    using up2 shutdown_run[of ?s1 E "[WorkerRun x, WorkerEmit]"] by (metis prod.collapse)
  have up: "\<not> rt_shutdown s" using up1 shutdown_final[of s E WorkerTake] by auto
  have room: "unat (rt_next_operation s) + 1 < 2 ^ 64" using Cons.prems(4) by simp
  have "accounted E WorkerTake s (worker_take s)"
    using step_accounted[OF Cons.prems(1) up room, of WorkerTake E] up1 by simp
  then have s1: "live ?s1" "unat (rt_next_operation ?s1) \<le> unat (rt_next_operation s) + 1"
    by (cases "worker_take s", simp add: accounted_def)+
  have q1: "rt_queue ?s1 = tl (rt_queue s)" by (rule take_progress(1)[OF Cons.prems(1,2) up])
  have room1: "unat (rt_next_operation ?s1) + 2 < 2 ^ 64" using s1(2) Cons.prems(4) by simp
  have next3: "live (fst ?p) \<and> unat (rt_next_operation (fst ?p)) \<le> unat (rt_next_operation s) + 3"
    using run_room[OF Cons.prems(1) _ _ up3] Cons.prems(4) by simp
  show ?case
    unfolding rest
  proof (rule Cons.IH)
    show "live (fst ?p)" using next3 by simp
    show "rt_worker (fst ?p) = WorkerIdle" unfolding p by (rule run_emit_progress(2)[OF s1(1) up2 room1])
    have "rt_queue (fst ?p) = tl (rt_queue s)" unfolding p using run_emit_progress(1)[OF s1(1) up2 room1] q1 by simp
    then show "length xs = length (rt_queue (fst ?p))" using Cons.prems(3) by simp
    show "unat (rt_next_operation (fst ?p)) + 3 * length xs < 2 ^ 64 - 2" using next3 Cons.prems(4) by simp
    show "\<not> rt_shutdown (fst (runtime_run E (rounds xs) (fst ?p)))" using Cons.prems(5) unfolding rest .
  qed
qed

text \<open>
  C6: Whatever the host did before, if it stays silent the worker finishes the command in hand and
  empties the queue in one round per queued command (unless a shutdown among them stops it first).
  Then it is idle, every request active before was answered exactly once (or resumed another one)
  or still waits, and what waits is waiting for the host: it owns exactly one pending operation.
\<close>
theorem worker_drains:
  fixes E :: "('c, 'r, 'x) runtime_env"
  assumes run: "runtime_run E acts (runtime_new remote) = (s, evs)" and up: "\<not> rt_shutdown s"
    and timely: "timely_run E acts (runtime_new remote)" and short: "length acts + 3 * length (rt_queue s) < 2 ^ 64 - 8"
    and xs: "length xs = length (rt_queue s)"
    and drain: "runtime_run E ([WorkerRun x, WorkerEmit] @ rounds xs) s = (s', evs')"
  shows "rt_shutdown s' \<or> rt_queue s' = [] \<and> rt_worker s' = WorkerIdle
    \<and> distinct (op_requests s') \<and> rt_active s' = set (op_requests s')
    \<and> (\<forall>q \<in> rt_active s. terms q evs' + resumptions E q ([WorkerRun x, WorkerEmit] @ rounds xs) s
          = (if q \<in> rt_active s' then 0 else 1))"
proof (cases "rt_shutdown s'")
  case False
  let ?s0 = "runtime_new remote :: ('c, 'r) runtime"
  let ?drain = "[WorkerRun x, WorkerEmit] @ rounds xs"
  let ?s2 = "fst (runtime_run E [WorkerRun x, WorkerEmit] s)"
  have "live s \<and> unat (rt_next_operation s) \<le> unat (rt_next_operation ?s0) + length acts"
    using run_room[OF live_new _ timely] run up short by (simp add: runtime_new_def)
  then have s: "live s" "unat (rt_next_operation s) \<le> 1 + length acts" by (simp_all add: runtime_new_def)
  have s': "s' = fst (runtime_run E (rounds xs) ?s2)"
    using drain unfolding runtime_run_append by (auto simp: Let_def case_prod_beta)
  have up2: "\<not> rt_shutdown ?s2"
    using False shutdown_run[of ?s2 E "rounds xs"] unfolding s' by (metis prod.collapse)
  have two: "rt_queue ?s2 = rt_queue s" "rt_worker ?s2 = WorkerIdle"
    using run_emit_progress[OF s(1) up2] s(2) short by simp_all
  have timely2: "timely_run E [WorkerRun x, WorkerEmit] s" by simp
  have "unat (rt_next_operation s) + length [WorkerRun x, WorkerEmit] < 2 ^ 64" using s(2) short by simp
  from run_room[OF s(1) this timely2 up2]
  have s2: "live ?s2" "unat (rt_next_operation ?s2) \<le> unat (rt_next_operation s) + 2" by simp_all
  have "rt_queue s' = [] \<and> rt_worker s' = WorkerIdle"
    unfolding s'
  proof (rule rounds_drain[OF s2(1) two(2)])
    show "length xs = length (rt_queue ?s2)" by (simp only: two(1) xs)
    show "unat (rt_next_operation ?s2) + 3 * length xs < 2 ^ 64 - 2" using s2(2) s(2) short xs by linarith
    show "\<not> rt_shutdown (fst (runtime_run E (rounds xs) ?s2))" using False unfolding s' .
  qed
  moreover have len: "length (rounds xs) = 3 * length xs" by (induction xs) (simp_all add: rounds_def)
  have timely3: "timely_run E ?drain s" using timely_rounds by simp
  have room: "unat (rt_next_operation s) + length ?drain < 2 ^ 64" using s(2) short len xs by simp
  have acc: "live s' \<and> of_bool (q \<in> rt_active s) + activations E q ?drain s
      = terms q evs' + resumptions E q ?drain s + of_bool (q \<in> rt_active s')" for q
    by (rule run_accounted[OF s(1) room timely3 drain False])
  have no_send: "activations E q acts' t = 0" if "\<forall>a \<in> set acts'. \<forall>cmd. a \<noteq> Send cmd" for q acts' t
    using that by (induction acts' arbitrary: t) (auto simp: activates_def split: action.split)
  have "\<forall>a \<in> set ?drain. \<forall>cmd. a \<noteq> Send cmd" by (auto simp: rounds_def)
  note none = no_send[OF this]
  ultimately have idle: "rt_queue s' = []" "rt_worker s' = WorkerIdle" by simp_all
  have "placed (owned s') s'" using acc by (simp add: live_def)
  then have "distinct (op_requests s')" "rt_active s' = set (op_requests s')"
    using idle by (simp_all add: placed_def owned_def queued_def)
  moreover have "terms q evs' + resumptions E q ?drain s = (if q \<in> rt_active s' then 0 else 1)"
    if "q \<in> rt_active s" for q
    using acc[of q] that none[of q s] by (cases "q \<in> rt_active s'") (simp_all del: activations.simps resumptions.simps)
  ultimately show ?thesis using idle by blast
qed simp

theorem worker_drains_witness:
  "let s = fst (runtime_run sample_env [Send (sample_command 7 ''runtime.hostSmoke'')] (runtime_new ()));
     s' = fst (runtime_run sample_env ([WorkerRun (), WorkerEmit] @ rounds [()]) s)
   in rt_active s' = {7} \<and> rt_queue s' = [] \<and> rt_active s' = set (op_requests s')"
proof -
  let ?acts = "[Send (sample_command 7 ''runtime.hostSmoke'')] :: unit action list"
  let ?s = "runtime_new () \<lparr>rt_active := {7}, rt_queue := [WorkCommand (sample_command 7 ''runtime.hostSmoke'')]\<rparr> :: (unit, unit) runtime"
  have run: "runtime_run sample_env ?acts (runtime_new ()) = (?s, [])" by (simp add: sent_smoke)
  let ?r = "runtime_run sample_env ([WorkerRun (), WorkerEmit] @ rounds [()]) ?s"
  have r: "?r = (runtime_new () \<lparr>rt_active := {7}, rt_next_operation := 2,
      rt_operations := [(1, \<lparr>ho_request_id = 7, ho_capability = HostSmokeEcho, ho_continuation = Echo\<rparr>)]\<rparr>,
      [EvHostRequest 7 1 HostSmokeEcho (JObj [])])"
    by (simp add: rounds_def smoke_dispatched runtime_step_defs)
  have "rt_queue (fst ?r) = [] \<and> rt_active (fst ?r) = set (op_requests (fst ?r))"
    using worker_drains[OF run, of "[()]" "()" "fst ?r" "snd ?r"] unfolding r
    by (simp add: runtime_new_def timely_def)
  then show ?thesis unfolding run unfolding r Let_def fst_conv by (simp add: r)
qed

subsection \<open>Shutdown\<close>

definition finished :: "('c, 'r) runtime \<Rightarrow> bool" where
  "finished s = (rt_stopped s \<and> rt_shutdown s \<and> rt_worker s = WorkerIdle \<and> rt_queue s = []
     \<and> rt_active s = {} \<and> rt_operations s = [])"

lemma finished_step: "finished s \<Longrightarrow> finished (fst (runtime_step E a s)) \<and> snd (runtime_step E a s) = []"
proof (cases a)
  case (Send cmd)
  assume f: "finished s"
  show ?thesis
  proof (rule send_cases[of cmd s])
    fix ids assume "snd (send cmd s) = s\<lparr>rt_callbacks := ids\<rparr>"
    then show ?thesis using f Send by (simp add: finished_def)
  qed (use f in \<open>simp add: finished_def\<close>)
qed (auto simp: finished_def cancel_def cancel_request_by_id_def worker_take_def worker_run_def worker_emit_def drop_runtime_def)

lemma finished_run: "finished s \<Longrightarrow> snd (runtime_run E acts s) = [] \<and> finished (fst (runtime_run E acts s))"
proof (induction acts arbitrary: s)
  case (Cons a acts)
  then show ?case using finished_step[OF Cons.prems, of E a] by (simp add: Let_def case_prod_beta)
qed simp

lemma drain_queued:
  assumes "WorkShutdown \<notin> set items"
  shows "drain_queued_after_protocol_shutdown items s =
    (s\<lparr>rt_cancelled := rt_cancelled s - set (concat (map item_request items)),
      rt_active := rt_active s - set (concat (map item_request items))\<rparr>,
     map (\<lambda>r. EvError r cancelled_error) (concat (map item_request items)))"
  using assms
proof (induction items arbitrary: s)
  case (Cons item items)
  then show ?case
    by (cases item) (auto simp: finish_request_def Let_def set_diff_eq intro!: arg_cong2[where f = "\<lambda>a b. s\<lparr>rt_cancelled := a, rt_active := b\<rparr>"])
qed simp

lemma terms_cancelled: "terms q (map (\<lambda>r. EvError r e) rs) = count_list rs q"
  by (induction rs) auto

lemma count_distinct: "distinct rs \<Longrightarrow> count_list rs q = of_bool (q \<in> set rs)"
  by (induction rs) auto

lemma shutdown_requests:
  assumes s: "placed [r] s"
  shows "cancel_active_requests_for_shutdown r s = (sorted_list_of_set (rt_active s - {r}),
    s\<lparr>rt_active := {r}, rt_operations := [], rt_cancelled := rt_cancelled s - (rt_active s - {r})\<rparr>,
    map (\<lambda>q. EvError q cancelled_error) (sorted_list_of_set (rt_active s - {r})))"
proof -
  let ?ids = "sorted_list_of_set (rt_active s - {r})"
  have r: "r \<in> rt_active s" "r \<notin> set (op_requests s)" "set (op_requests s) \<subseteq> rt_active s - {r}"
    using s by (auto simp: placed_def)
  have none: "ho_request_id (snd p) \<noteq> r" if "p \<in> set (rt_operations s)" for p
    using r(2) that by (force simp: op_requests_def)
  have kept: "hm_retain (\<lambda>_ operation. ho_request_id operation = r) (rt_operations s) = []"
    using none unfolding hm_retain_def filter_empty_conv by (auto simp: split_beta)
  have removed: "filter (\<lambda>(_, operation). ho_request_id operation \<noteq> r) (rt_operations s) = rt_operations s"
    using none unfolding filter_id_conv by (auto simp: split_beta)
  have ops: "map (\<lambda>(_, operation). ho_request_id operation) (rt_operations s) = op_requests s"
    by (simp add: op_requests_def case_prod_beta')
  have "set (remdups (sort (?ids @ op_requests s))) = rt_active s - {r}" using r(3) by auto
  moreover have "sorted (remdups (sort (?ids @ op_requests s)))" by (simp add: sorted_remdups)
  ultimately have all: "remdups (sort (?ids @ op_requests s)) = ?ids"
    using sorted_list_of_set_unique[of "rt_active s - {r}"] by (metis distinct_remdups finite sorted_distinct_set_unique
      distinct_sorted_list_of_set set_sorted_list_of_set sorted_sorted_list_of_set)
  have "rt_active s - (rt_active s - {r}) = {r}" using r(1) by auto
  moreover have "rt_active s - {r} \<union> (\<lambda>(_, operation). ho_request_id operation) ` set (rt_operations s) = rt_active s - {r}"
    using r(3) by (auto simp: op_requests_def split_beta)
  ultimately show ?thesis
    by (simp add: cancel_active_requests_for_shutdown_def Let_def kept removed ops all)
qed



end
