(* ===== verification/SortedMap.thy ===== *)
theory SortedMap
  imports Prelude
begin

text \<open>
  \<open>BTreeMap\<close> and \<open>BTreeSet\<close>: association lists and lists in strictly increasing key order.
  The order is an invariant (\<open>sm_ok\<close>), so two maps with the same bindings are the same list
  and iterating over one is deterministic. The locale \<open>last_writer\<close> is the contract of a
  conflict rule: among the records of one key, \<open>wins\<close> is a strict total order. Under it the
  loop that keeps the winner of every key computes a function of the set of its inputs.
\<close>

subsection \<open>Maps in key order\<close>

type_synonym ('k, 'v) smap = "('k \<times> 'v) list"

fun sm_insert :: "'k::linorder \<Rightarrow> 'v \<Rightarrow> ('k, 'v) smap \<Rightarrow> ('k, 'v) smap" where
  "sm_insert k v [] = [(k, v)]"
| "sm_insert k v ((k', v') # m) = (if k < k' then (k, v) # (k', v') # m
     else if k = k' then (k, v) # m else (k', v') # sm_insert k v m)"

definition sm_values :: "('k, 'v) smap \<Rightarrow> 'v list" where
  "sm_values m = map snd m"

definition sm_modify :: "'k \<Rightarrow> ('v \<Rightarrow> 'v) \<Rightarrow> ('k, 'v) smap \<Rightarrow> ('k, 'v) smap" where
  \<comment> \<open>assignment through \<open>get_mut\<close>\<close>
  "sm_modify k f m = map (\<lambda>(k', v). if k' = k then (k', f v) else (k', v)) m"

definition sm_ok :: "('k::linorder, 'v) smap \<Rightarrow> bool" where
  "sm_ok m = sorted_wrt (<) (map fst m)"

definition sm_keyed :: "('v \<Rightarrow> 'k::linorder) \<Rightarrow> ('k, 'v) smap \<Rightarrow> bool" where
  "sm_keyed f m = (sm_ok m \<and> (\<forall>(k, v) \<in> set m. k = f v))"

lemma sm_ok_Nil [simp]: "sm_ok []"
  by (simp add: sm_ok_def)

lemma sm_ok_Cons: "sm_ok ((k, v) # m) \<longleftrightarrow> (\<forall>k' \<in> fst ` set m. k < k') \<and> sm_ok m"
  by (simp add: sm_ok_def)

lemma map_of_sm_insert [table_simps]: "sm_ok m \<Longrightarrow> map_of (sm_insert k v m) = (map_of m)(k \<mapsto> v)"
  by (induction k v m rule: sm_insert.induct) (auto simp: sm_ok_Cons fun_eq_iff)

lemma keys_sm_insert [simp]: "fst ` set (sm_insert k v m) = insert k (fst ` set m)"
  by (induction k v m rule: sm_insert.induct) auto

lemma sm_ok_insert [simp]: "sm_ok m \<Longrightarrow> sm_ok (sm_insert k v m)"
  by (induction k v m rule: sm_insert.induct) (auto simp: sm_ok_Cons)

lemma sm_ok_hm_ok: "sm_ok m \<Longrightarrow> hm_ok m"
  by (simp add: sm_ok_def hm_ok_def strict_sorted_iff)

lemma in_smap_iff: "sm_ok m \<Longrightarrow> (k, v) \<in> set m \<longleftrightarrow> map_of m k = Some v"
  by (simp add: in_set_iff_map_of sm_ok_hm_ok)

lemma sm_unique: "sm_ok m \<Longrightarrow> sm_ok m' \<Longrightarrow> map_of m = map_of m' \<Longrightarrow> m = m'"
proof -
  assume ok: "sm_ok m" "sm_ok m'" and eq: "map_of m = map_of m'"
  have "set m = set m'"
    using ok eq by (auto simp: in_smap_iff)
  moreover have "sorted (map fst m)" "distinct (map fst m)" "sorted (map fst m')" "distinct (map fst m')"
    using ok by (simp_all add: sm_ok_def strict_sorted_iff)
  ultimately show "m = m'"
    by (intro map_sorted_distinct_set_unique[of fst]) (auto simp: distinct_map)
qed

lemma keys_sm_modify [simp]: "map fst (sm_modify k f m) = map fst m"
  by (induction m) (auto simp: sm_modify_def)

lemma sm_ok_modify [simp]: "sm_ok (sm_modify k f m) = sm_ok m"
  by (simp add: sm_ok_def)

lemma map_of_sm_modify [table_simps]:
  "map_of (sm_modify k f m) = (map_of m)(k := map_option f (map_of m k))"
  by (induction m) (auto simp: sm_modify_def fun_eq_iff)

lemma sm_keyed_Nil [simp]: "sm_keyed f []"
  by (simp add: sm_keyed_def)

lemma sm_keyed_ok: "sm_keyed f m \<Longrightarrow> sm_ok m"
  by (simp add: sm_keyed_def)

lemma sm_keyedD: "sm_keyed f m \<Longrightarrow> map_of m k = Some v \<Longrightarrow> k = f v"
  by (auto simp: sm_keyed_def dest: map_of_SomeD)

lemma set_sm_insert: "set (sm_insert k v m) \<subseteq> insert (k, v) (set m)"
  by (induction k v m rule: sm_insert.induct) auto

lemma sm_keyed_insert: "sm_keyed f m \<Longrightarrow> sm_keyed f (sm_insert (f v) v m)"
  using set_sm_insert[of "f v" v m] by (auto simp: sm_keyed_def)

lemma sm_keyed_modify: "sm_keyed f m \<Longrightarrow> (\<And>v. f (g v) = f v) \<Longrightarrow> sm_keyed f (sm_modify k g m)"
  by (auto simp: sm_keyed_def) (auto simp: sm_modify_def split: if_splits)

lemma in_sm_values: "sm_keyed f m \<Longrightarrow> v \<in> set (sm_values m) \<longleftrightarrow> map_of m (f v) = Some v"
  unfolding sm_values_def
  by (force simp: sm_keyed_def in_smap_iff[symmetric] image_iff)

lemma sm_keyed_values: "sm_keyed f m \<Longrightarrow> map f (sm_values m) = map fst m"
  by (auto simp: sm_keyed_def sm_values_def)

lemma sm_values_sorted: "sm_keyed f m \<Longrightarrow> sorted_wrt (<) (map f (sm_values m))"
  using sm_keyed_values[of f m] by (simp add: sm_keyed_def sm_ok_def)

lemma sm_keyed_unzip: "sm_keyed f m \<Longrightarrow> map (\<lambda>v. (f v, v)) (sm_values m) = m"
  unfolding sm_keyed_def sm_values_def by (induction m) (auto simp: sm_ok_Cons)

lemma sm_insert_greatest: "\<forall>k' \<in> fst ` set m. k' < k \<Longrightarrow> sm_insert k v m = m @ [(k, v)]"
  by (induction m) auto

lemma sm_insert_all_sorted:
  "sorted_wrt (<) (map fst m @ map f vs) \<Longrightarrow>
     fold (\<lambda>v. sm_insert (f v) v) vs m = m @ map (\<lambda>v. (f v, v)) vs"
proof (induction vs arbitrary: m)
  case (Cons v vs)
  have "sm_insert (f v) v m = m @ [(f v, v)]"
    using Cons.prems by (intro sm_insert_greatest) (auto simp: sorted_wrt_append)
  with Cons show ?case by simp
qed simp

subsection \<open>Sets in order\<close>

definition ordered_set :: "'a::linorder list \<Rightarrow> 'a list" where
  \<comment> \<open>collecting into a \<open>BTreeSet\<close> and reading it back\<close>
  "ordered_set xs = sort (remdups xs)"

lemma set_ordered_set [simp]: "set (ordered_set xs) = set xs"
  by (simp add: ordered_set_def)

lemma ordered_set_sorted: "sorted_wrt (<) (ordered_set xs)"
  unfolding ordered_set_def strict_sorted_iff by simp

lemma ordered_set_unique: "sorted_wrt (<) ys \<Longrightarrow> set ys = set xs \<Longrightarrow> ordered_set xs = ys"
  using ordered_set_sorted[of xs] by (metis set_ordered_set strict_sorted_equal)

subsection \<open>Keeping the winner of every key\<close>

definition keep_best :: "('r \<Rightarrow> 'k::linorder) \<Rightarrow> ('r \<Rightarrow> 'r \<Rightarrow> bool) \<Rightarrow> 'r \<Rightarrow> ('k, 'r) smap \<Rightarrow> ('k, 'r) smap" where
  \<comment> \<open>\<open>match by_key.get(&key)\<close>: keep the existing record unless the new one wins\<close>
  "keep_best f wins r m = (case map_of m (f r) of
      Some e \<Rightarrow> if wins e r then sm_insert (f r) r m else m
    | None \<Rightarrow> sm_insert (f r) r m)"

definition best_of :: "('r \<Rightarrow> 'k::linorder) \<Rightarrow> ('r \<Rightarrow> 'r \<Rightarrow> bool) \<Rightarrow> 'r list \<Rightarrow> 'r list" where
  "best_of f wins rs = sm_values (fold (keep_best f wins) rs [])"

definition champion :: "('r \<Rightarrow> 'k) \<Rightarrow> ('r \<Rightarrow> 'r \<Rightarrow> bool) \<Rightarrow> 'r set \<Rightarrow> 'r \<Rightarrow> bool" where
  \<comment> \<open>the specification: \<open>r\<close> beats every other record of its key\<close>
  "champion f wins R r = (r \<in> R \<and> (\<forall>r' \<in> R. f r' = f r \<longrightarrow> r' \<noteq> r \<longrightarrow> wins r' r))"

definition holds_best_of :: "('r \<Rightarrow> 'k::linorder) \<Rightarrow> ('r \<Rightarrow> 'r \<Rightarrow> bool) \<Rightarrow> ('k, 'r) smap \<Rightarrow> 'r set \<Rightarrow> bool" where
  \<comment> \<open>loop invariant: after the records \<open>R\<close> the map holds exactly their champions\<close>
  "holds_best_of f wins m R = (sm_keyed f m \<and> (\<forall>r. r \<in> R \<longrightarrow> map_of m (f r) \<noteq> None)
     \<and> (\<forall>k r. map_of m k = Some r \<longrightarrow> champion f wins R r))"

locale last_writer =
  fixes f :: "'r \<Rightarrow> 'k::linorder" and wins :: "'r \<Rightarrow> 'r \<Rightarrow> bool"
  assumes wins_irrefl: "\<not> wins a a"
    and wins_trans: "f a = f b \<Longrightarrow> f b = f c \<Longrightarrow> wins a b \<Longrightarrow> wins b c \<Longrightarrow> wins a c"
    and wins_total: "f a = f b \<Longrightarrow> a \<noteq> b \<Longrightarrow> wins a b \<or> wins b a"
begin

lemma wins_asym: "f a = f b \<Longrightarrow> wins a b \<Longrightarrow> \<not> wins b a"
  using wins_trans[OF _ sym, of a b a] wins_irrefl[of a] by blast

lemma champion_unique: "champion f wins R a \<Longrightarrow> champion f wins R b \<Longrightarrow> f a = f b \<Longrightarrow> a = b"
proof (rule ccontr)
  assume a: "champion f wins R a" "champion f wins R b" "f a = f b" "a \<noteq> b"
  then have "wins b a" "wins a b" by (simp_all add: champion_def)
  with wins_asym[OF a(3)] show False by blast
qed

lemma keep_best_keyed: "sm_keyed f m \<Longrightarrow> sm_keyed f (keep_best f wins x m)"
  by (auto simp: keep_best_def sm_keyed_insert split: option.splits)

lemma fold_keep_keyed: "sm_keyed f m \<Longrightarrow> sm_keyed f (fold (keep_best f wins) rs m)"
  by (induction rs arbitrary: m) (simp_all add: keep_best_keyed)

lemma holds_keep: "holds_best_of f wins m R \<Longrightarrow> holds_best_of f wins (keep_best f wins x m) (insert x R)"
proof -
  assume h: "holds_best_of f wins m R"
  then have keyed: "sm_keyed f m" and ok: "sm_ok m" by (auto simp: holds_best_of_def sm_keyed_ok)
  have kf: "k = f r" if "map_of m k = Some r" for k r
    using sm_keyedD[OF keyed that] .
  have ch: "champion f wins R r" if "map_of m k = Some r" for k r
    using h that by (auto simp: holds_best_of_def)
  have cov: "\<exists>e. map_of m (f r) = Some e" if "r \<in> R" for r
    using h that by (auto simp: holds_best_of_def)
  show ?thesis
  proof (cases "map_of m (f x)")
    case None
    then have fresh: "f r \<noteq> f x" if "r \<in> R" for r
      using cov[OF that] by auto
    have "champion f wins (insert x R) r" if "map_of (sm_insert (f x) x m) k = Some r" for k r
      using that fresh ch kf ok by (auto simp: table_simps champion_def split: if_splits)
    then show ?thesis
      using None h keyed ok
      by (auto simp: holds_best_of_def keep_best_def sm_keyed_insert table_simps)
  next
    case (Some e)
    have e: "f e = f x" "champion f wins R e" using kf[OF Some] ch[OF Some] by auto
    show ?thesis
    proof (cases "wins e x")
      case True
      have x: "champion f wins (insert x R) x"
        unfolding champion_def
      proof (intro conjI ballI impI)
        fix r assume r: "r \<in> insert x R" "f r = f x" "r \<noteq> x"
        then have "r = e \<or> wins r e" using e by (auto simp: champion_def)
        then show "wins r x" using True wins_trans[of r e x] r e by auto
      qed simp
      have "champion f wins (insert x R) r" if "map_of (sm_insert (f x) x m) k = Some r" for k r
        using that x ch kf ok by (auto simp: table_simps champion_def split: if_splits)
      then show ?thesis
        using Some True h keyed ok
        by (auto simp: holds_best_of_def keep_best_def sm_keyed_insert table_simps)
    next
      case False
      have xe: "x = e \<or> wins x e" using wins_total[of x e] e False by auto
      have "champion f wins (insert x R) r" if r: "map_of m k = Some r" for k r
      proof (cases "k = f x")
        case True
        then have "r = e" using r Some by simp
        then show ?thesis using xe e by (auto simp: champion_def)
      next
        case False
        then show ?thesis using ch[OF r] kf[OF r] by (auto simp: champion_def)
      qed
      then show ?thesis
        using Some False h by (auto simp: holds_best_of_def keep_best_def)
    qed
  qed
qed

lemma holds_fold: "holds_best_of f wins m R \<Longrightarrow> holds_best_of f wins (fold (keep_best f wins) rs m) (R \<union> set rs)"
proof (induction rs arbitrary: m R)
  case (Cons x rs)
  from Cons.IH[OF holds_keep[OF Cons.prems, of x]] show ?case by simp
qed simp

lemma holds_best: "holds_best_of f wins (fold (keep_best f wins) rs []) (set rs)"
  using holds_fold[of "[]" "{}" rs] by (simp add: holds_best_of_def)

lemma best_keyed: "sm_keyed f (fold (keep_best f wins) rs [])"
  by (simp add: fold_keep_keyed)

lemma champion_exists: "r \<in> set rs \<Longrightarrow> \<exists>w. champion f wins (set rs) w \<and> f w = f r
    \<and> map_of (fold (keep_best f wins) rs []) (f r) = Some w"
  using holds_best[of rs] sm_keyedD[OF best_keyed] unfolding holds_best_of_def by (metis not_None_eq)

lemma map_of_best: "map_of (fold (keep_best f wins) rs []) k = Some r
    \<longleftrightarrow> f r = k \<and> champion f wins (set rs) r" (is "?L \<longleftrightarrow> ?R")
proof
  show "?L \<Longrightarrow> ?R"
    using holds_best[of rs] sm_keyedD[OF best_keyed] unfolding holds_best_of_def by metis
  assume R: ?R
  then have "r \<in> set rs" by (simp add: champion_def)
  from champion_exists[OF this] R champion_unique show ?L by metis
qed

lemma in_best_of: "r \<in> set (best_of f wins rs) \<longleftrightarrow> champion f wins (set rs) r"
  unfolding best_of_def by (simp add: in_sm_values[OF best_keyed] map_of_best)

lemma best_of_sorted: "sorted_wrt (<) (map f (best_of f wins rs))"
  unfolding best_of_def by (rule sm_values_sorted[OF best_keyed])

lemma best_of_keys: "f ` set (best_of f wins rs) = f ` set rs"
proof
  show "f ` set (best_of f wins rs) \<subseteq> f ` set rs"
    by (auto simp: in_best_of champion_def)
  show "f ` set rs \<subseteq> f ` set (best_of f wins rs)"
  proof
    fix k assume "k \<in> f ` set rs"
    then obtain r where "r \<in> set rs" "k = f r" by blast
    with champion_exists[of r rs] show "k \<in> f ` set (best_of f wins rs)"
      by (metis in_best_of image_eqI)
  qed
qed

lemma best_of_unique:
  assumes "sorted_wrt (<) (map f xs)" and "\<And>r. r \<in> set xs \<longleftrightarrow> champion f wins (set rs) r"
  shows "best_of f wins rs = xs"
proof -
  have s: "set (best_of f wins rs) = set xs"
    by (simp add: set_eq_iff in_best_of assms(2))
  have "inj_on f (set xs)"
    by (rule inj_onI) (simp add: assms(2) champion_unique)
  moreover have "sorted (map f xs)" "distinct (map f xs)"
    "sorted (map f (best_of f wins rs))" "distinct (map f (best_of f wins rs))"
    using assms(1) best_of_sorted[of rs] by (simp_all add: strict_sorted_iff)
  ultimately show ?thesis
    using s by (intro map_sorted_distinct_set_unique[of f]) (simp_all add: distinct_map)
qed

lemma best_of_cong: "set rs = set rs' \<Longrightarrow> best_of f wins rs = best_of f wins rs'"
  by (rule best_of_unique) (simp_all add: best_of_sorted in_best_of)

lemma champion_absorb: "champion f wins ({w. champion f wins (set rs) w} \<union> S) r
    \<longleftrightarrow> champion f wins (set rs \<union> S) r" (is "?L \<longleftrightarrow> ?R")
proof
  assume L: ?L
  have "wins r' r" if r': "r' \<in> set rs" "f r' = f r" "r' \<noteq> r" for r'
  proof -
    from champion_exists[OF r'(1)] obtain w where w: "champion f wins (set rs) w" "f w = f r'" by blast
    have "w = r \<or> wins w r" using L w r' by (auto simp: champion_def)
    moreover have "r' = w \<or> wins r' w" using w r' by (auto simp: champion_def)
    ultimately show ?thesis using wins_trans[of r' w r] w r' by auto
  qed
  then show ?R using L by (auto simp: champion_def)
next
  assume ?R then show ?L by (auto simp: champion_def)
qed

lemma best_of_absorb: "best_of f wins (best_of f wins rs @ ss) = best_of f wins (rs @ ss)"
proof (rule best_of_unique)
  have "set (best_of f wins rs @ ss) = {w. champion f wins (set rs) w} \<union> set ss"
    by (auto simp: in_best_of)
  then show "r \<in> set (best_of f wins (rs @ ss))
      \<longleftrightarrow> champion f wins (set (best_of f wins rs @ ss)) r" for r
    by (simp add: champion_absorb in_best_of)
qed (rule best_of_sorted)

lemma best_of_idem [simp]: "best_of f wins (best_of f wins rs) = best_of f wins rs"
  using best_of_absorb[of rs "[]"] by simp

lemma best_of_both:
  "best_of f wins (best_of f wins rs @ best_of f wins ss) = best_of f wins (rs @ ss)"
proof -
  have "best_of f wins (rs @ best_of f wins ss) = best_of f wins (best_of f wins ss @ rs)"
    by (rule best_of_cong) auto
  also have "\<dots> = best_of f wins (rs @ ss)"
    unfolding best_of_absorb by (rule best_of_cong) auto
  finally show ?thesis by (simp add: best_of_absorb)
qed

lemma best_of_distinct: "sorted_wrt (<) (map f xs) \<Longrightarrow> best_of f wins xs = xs"
proof (rule best_of_unique)
  assume s: "sorted_wrt (<) (map f xs)"
  then have "inj_on f (set xs)" by (simp add: strict_sorted_iff distinct_map)
  then show "r \<in> set xs \<longleftrightarrow> champion f wins (set xs) r" for r
    by (auto simp: champion_def inj_on_def)
qed

end

end
