(* ===== verification/SyncTypes.thy ===== *)
theory SyncTypes
  imports SortedMap
begin

text \<open>
  The data of \<open>crates/reader-sync/src/lib.rs\<close>: collections, record keys, records, snapshots
  and packages with their constructors and \<open>validate\<close> methods, the rule \<open>choose_record\<close> that
  decides between two records of one key, and the normal form of a snapshot. The derived \<open>Ord\<close>
  of the collections and keys is an instance of the class \<open>linorder\<close>, so that the \<open>BTreeMap\<close>s
  of the merge code are the maps of \<open>SortedMap\<close>. The rule satisfies the contract
  \<open>last_writer\<close>, and the interpretation \<open>lww\<close> carries its consequences.
\<close>

subsection \<open>Collections and keys\<close>

datatype sync_error =
    InvalidRecord string
  | InvalidPackage string
  | InvalidBackup string
  | InvalidProgress string
  | InvalidRestore string
  | InvalidJournal string
  | UnresolvedConflict ustr
  | Codec ustr

type_synonym 'a sync_result = "sync_error + 'a"

datatype sync_collection =
    Bookshelf | ReadingProgress | LocalBook | ChapterCacheCollection | RssSubscription | RssEntry
  | ReplaceRule | DictRule | TxtTocRule | Bookmark | Custom ustr

fun collection_as_str :: "sync_collection \<Rightarrow> ustr" where
  "collection_as_str Bookshelf = lit ''bookshelf''"
| "collection_as_str ReadingProgress = lit ''readingProgress''"
| "collection_as_str LocalBook = lit ''localBook''"
| "collection_as_str ChapterCacheCollection = lit ''chapterCache''"
| "collection_as_str RssSubscription = lit ''rssSubscription''"
| "collection_as_str RssEntry = lit ''rssEntry''"
| "collection_as_str ReplaceRule = lit ''replaceRule''"
| "collection_as_str DictRule = lit ''dictRule''"
| "collection_as_str TxtTocRule = lit ''txtTocRule''"
| "collection_as_str Bookmark = lit ''bookmark''"
| "collection_as_str (Custom value) = value"

definition normalize_required :: "ustr \<Rightarrow> string \<Rightarrow> ustr sync_result" where
  "normalize_required value field =
     (let v = trim value in if v = [] then Inl (InvalidRecord field) else Inr v)"

definition custom_collection :: "ustr \<Rightarrow> sync_collection sync_result" where
  "custom_collection value = and_then (normalize_required value ''collection'') (\<lambda>v. Inr (Custom v))"

definition parse_collection :: "ustr \<Rightarrow> sync_collection sync_result" where
  "parse_collection value = and_then (normalize_required value ''collection'') (\<lambda>v. Inr (
     if v = lit ''bookshelf'' then Bookshelf
     else if v = lit ''readingProgress'' then ReadingProgress
     else if v = lit ''localBook'' then LocalBook
     else if v = lit ''chapterCache'' then ChapterCacheCollection
     else if v = lit ''rssSubscription'' then RssSubscription
     else if v = lit ''rssEntry'' then RssEntry
     else if v = lit ''replaceRule'' then ReplaceRule
     else if v = lit ''dictRule'' then DictRule
     else if v = lit ''txtTocRule'' then TxtTocRule
     else if v = lit ''bookmark'' then Bookmark
     else Custom v))"

fun collection_rank :: "sync_collection \<Rightarrow> nat \<times> ustr" where
  "collection_rank Bookshelf = (0, [])"
| "collection_rank ReadingProgress = (1, [])"
| "collection_rank LocalBook = (2, [])"
| "collection_rank ChapterCacheCollection = (3, [])"
| "collection_rank RssSubscription = (4, [])"
| "collection_rank RssEntry = (5, [])"
| "collection_rank ReplaceRule = (6, [])"
| "collection_rank DictRule = (7, [])"
| "collection_rank TxtTocRule = (8, [])"
| "collection_rank Bookmark = (9, [])"
| "collection_rank (Custom value) = (10, value)"

lemma collection_rank_inj: "collection_rank c = collection_rank d \<Longrightarrow> c = d"
  by (cases c; cases d) simp_all

instantiation sync_collection :: linorder
begin

definition less_eq_sync_collection :: "sync_collection \<Rightarrow> sync_collection \<Rightarrow> bool" where
  "less_eq_sync_collection c d = (collection_rank c \<le> collection_rank d)"

definition less_sync_collection :: "sync_collection \<Rightarrow> sync_collection \<Rightarrow> bool" where
  "less_sync_collection c d = (collection_rank c < collection_rank d)"

instance
  by standard (auto simp: less_eq_sync_collection_def less_sync_collection_def
      intro: collection_rank_inj)

end

datatype sync_record_key = SyncRecordKey (key_collection: sync_collection) (key_record_id: ustr)

lemma key_parts_inj: "key_collection a = key_collection b \<Longrightarrow> key_record_id a = key_record_id b \<Longrightarrow> a = b"
  by (cases a; cases b) simp

instantiation sync_record_key :: linorder
begin

definition less_eq_sync_record_key :: "sync_record_key \<Rightarrow> sync_record_key \<Rightarrow> bool" where
  "less_eq_sync_record_key a b =
     ((key_collection a, key_record_id a) \<le> (key_collection b, key_record_id b))"

definition less_sync_record_key :: "sync_record_key \<Rightarrow> sync_record_key \<Rightarrow> bool" where
  "less_sync_record_key a b =
     ((key_collection a, key_record_id a) < (key_collection b, key_record_id b))"

instance
  by standard (auto simp: less_eq_sync_record_key_def less_sync_record_key_def
      intro: key_parts_inj)

end

definition new_record_key :: "sync_collection \<Rightarrow> ustr \<Rightarrow> sync_record_key sync_result" where
  "new_record_key collection record_id =
     and_then (normalize_required record_id ''record_id'') (\<lambda>i. Inr (SyncRecordKey collection i))"

subsection \<open>Records\<close>

record sync_record =
  sr_collection :: sync_collection
  sr_record_id :: ustr
  sr_updated_at :: int
  sr_device_id :: ustr
  sr_revision :: u64
  sr_payload :: ustr
  sr_deleted :: bool

definition key_of_record :: "sync_record \<Rightarrow> sync_record_key" where
  "key_of_record r = SyncRecordKey (sr_collection r) (sr_record_id r)"

definition unit_of :: "'a sync_result \<Rightarrow> unit sync_result" where
  \<comment> \<open>\<open>expr?;\<close> for its error only\<close>
  "unit_of r = and_then r (\<lambda>_. Inr ())"

definition validate_record :: "sync_record \<Rightarrow> unit sync_result" where
  "validate_record r = checks [
     unit_of (new_record_key (sr_collection r) (sr_record_id r)),
     unit_of (normalize_required (sr_device_id r) ''device_id''),
     ensure (sr_deleted r \<or> \<not> blank (sr_payload r)) (InvalidRecord ''payload'')]"

definition build_record ::
    "sync_collection \<Rightarrow> ustr \<Rightarrow> ustr \<Rightarrow> bool \<Rightarrow> int \<Rightarrow> ustr \<Rightarrow> u64 \<Rightarrow> sync_record sync_result" where
  "build_record collection record_id payload deleted updated_at device_id revision =
     and_then (new_record_key collection record_id) (\<lambda>key.
     and_then (normalize_required device_id ''device_id'') (\<lambda>device.
     let r = \<lparr>sr_collection = key_collection key, sr_record_id = key_record_id key,
              sr_updated_at = updated_at, sr_device_id = device, sr_revision = revision,
              sr_payload = payload, sr_deleted = deleted\<rparr>
     in and_then (validate_record r) (\<lambda>_. Inr r)))"

definition upsert_record ::
    "sync_collection \<Rightarrow> ustr \<Rightarrow> ustr \<Rightarrow> int \<Rightarrow> ustr \<Rightarrow> u64 \<Rightarrow> sync_record sync_result" where
  "upsert_record collection record_id payload updated_at device_id revision =
     (if blank payload then Inl (InvalidRecord ''payload'')
      else build_record collection record_id payload False updated_at device_id revision)"

definition tombstone_record ::
    "sync_collection \<Rightarrow> ustr \<Rightarrow> int \<Rightarrow> ustr \<Rightarrow> u64 \<Rightarrow> sync_record sync_result" where
  "tombstone_record collection record_id updated_at device_id revision =
     build_record collection record_id [] True updated_at device_id revision"

datatype record_choice = Existing | Candidate

definition choose_record :: "sync_record \<Rightarrow> sync_record \<Rightarrow> record_choice" where
  "choose_record existing candidate =
     (if sr_updated_at candidate \<noteq> sr_updated_at existing then
        if sr_updated_at candidate > sr_updated_at existing then Candidate else Existing
      else if sr_deleted candidate \<noteq> sr_deleted existing then
        if sr_deleted candidate then Candidate else Existing
      else if sr_revision candidate \<noteq> sr_revision existing then
        if sr_revision candidate > sr_revision existing then Candidate else Existing
      else if sr_device_id candidate \<noteq> sr_device_id existing then
        if sr_device_id candidate > sr_device_id existing then Candidate else Existing
      else if sr_payload candidate > sr_payload existing then Candidate else Existing)"

subsection \<open>Snapshots and packages\<close>

record sync_snapshot =
  sn_snapshot_id :: ustr
  sn_device_id :: ustr
  sn_created_at :: int
  sn_records :: "sync_record list"

definition validate_sync_snapshot :: "sync_snapshot \<Rightarrow> unit sync_result" where
  "validate_sync_snapshot s = checks [
     unit_of (normalize_required (sn_snapshot_id s) ''snapshot_id''),
     unit_of (normalize_required (sn_device_id s) ''device_id''),
     check_each validate_record (sn_records s)]"

definition new_snapshot :: "ustr \<Rightarrow> ustr \<Rightarrow> int \<Rightarrow> sync_record list \<Rightarrow> sync_snapshot sync_result" where
  "new_snapshot snapshot_id device_id created_at records =
     and_then (normalize_required snapshot_id ''snapshot_id'') (\<lambda>i.
     and_then (normalize_required device_id ''device_id'') (\<lambda>d.
     let s = \<lparr>sn_snapshot_id = i, sn_device_id = d, sn_created_at = created_at, sn_records = records\<rparr>
     in and_then (validate_sync_snapshot s) (\<lambda>_. Inr s)))"

abbreviation record_wins :: "sync_record \<Rightarrow> sync_record \<Rightarrow> bool" where
  "record_wins existing candidate \<equiv> choose_record existing candidate = Candidate"

definition normalized_records :: "sync_snapshot \<Rightarrow> sync_record list sync_result" where
  "normalized_records s = and_then (validate_sync_snapshot s) (\<lambda>_.
     Inr (sm_values (fold (keep_best key_of_record record_wins) (sn_records s) [])))"

definition live_records :: "sync_snapshot \<Rightarrow> sync_record list sync_result" where
  "live_records s = and_then (normalized_records s) (\<lambda>rs. Inr (filter (\<lambda>r. \<not> sr_deleted r) rs))"

record sync_package =
  sp_schema_version :: u32
  sp_snapshot :: sync_snapshot

definition sync_package_schema_version :: u32 where
  "sync_package_schema_version = 1"

definition validate_package :: "sync_package \<Rightarrow> unit sync_result" where
  "validate_package p = (if sp_schema_version p \<noteq> sync_package_schema_version
     then Inl (InvalidPackage ''schema_version'') else validate_sync_snapshot (sp_snapshot p))"

definition new_package :: "sync_snapshot \<Rightarrow> sync_package sync_result" where
  "new_package s =
     and_then (normalized_records s) (\<lambda>rs.
     and_then (new_snapshot (sn_snapshot_id s) (sn_device_id s) (sn_created_at s) rs) (\<lambda>s'.
     let p = \<lparr>sp_schema_version = sync_package_schema_version, sp_snapshot = s'\<rparr>
     in and_then (validate_package p) (\<lambda>_. Inr p)))"

definition package_to_json :: "(sync_package \<Rightarrow> ustr + ustr) \<Rightarrow> sync_package \<Rightarrow> ustr sync_result" where
  \<comment> \<open>\<open>encode\<close> is \<open>serde_json::to_string\<close>\<close>
  "package_to_json encode p = and_then (validate_package p) (\<lambda>_.
     case encode p of Inl message \<Rightarrow> Inl (Codec message) | Inr json \<Rightarrow> Inr json)"

definition package_from_json :: "(ustr \<Rightarrow> ustr + sync_package) \<Rightarrow> ustr \<Rightarrow> sync_package sync_result" where
  \<comment> \<open>\<open>decode\<close> is \<open>serde_json::from_str\<close>\<close>
  "package_from_json decode json = (case decode json of
     Inl message \<Rightarrow> Inl (Codec message)
   | Inr p \<Rightarrow> and_then (validate_package p) (\<lambda>_. Inr p))"

subsection \<open>What the validators accept\<close>

lemma normalize_required_ok: "normalize_required v field = Inr w \<longleftrightarrow> \<not> blank v \<and> w = trim v"
  by (auto simp: normalize_required_def blank_def Let_def)

lemma normalize_required_err: "normalize_required v field = Inl e \<longleftrightarrow> blank v \<and> e = InvalidRecord field"
  by (auto simp: normalize_required_def blank_def Let_def)

lemma unit_of_ok: "unit_of r = Inr u \<longleftrightarrow> is_ok r"
  by (cases r) (auto simp: unit_of_def)

lemma new_record_key_ok:
  "new_record_key c i = Inr k \<longleftrightarrow> \<not> blank i \<and> k = SyncRecordKey c (trim i)"
  by (auto simp: new_record_key_def and_then_eq_Inr normalize_required_ok)

definition record_ok :: "sync_record \<Rightarrow> bool" where
  "record_ok r = (\<not> blank (sr_record_id r) \<and> \<not> blank (sr_device_id r)
     \<and> (sr_deleted r \<or> \<not> blank (sr_payload r)))"

lemma validate_record_ok: "validate_record r = Inr u \<longleftrightarrow> record_ok r"
  by (auto simp: validate_record_def record_ok_def unit_of_ok is_ok_iff new_record_key_ok normalize_required_ok)

definition snapshot_ok :: "sync_snapshot \<Rightarrow> bool" where
  "snapshot_ok s = (\<not> blank (sn_snapshot_id s) \<and> \<not> blank (sn_device_id s)
     \<and> (\<forall>r \<in> set (sn_records s). record_ok r))"

lemma validate_sync_snapshot_ok: "validate_sync_snapshot s = Inr u \<longleftrightarrow> snapshot_ok s"
  by (auto simp: validate_sync_snapshot_def snapshot_ok_def unit_of_ok is_ok_iff normalize_required_ok
      check_each_ok validate_record_ok)

lemma new_snapshot_ok:
  "new_snapshot i d t rs = Inr s \<longleftrightarrow> \<not> blank i \<and> \<not> blank d \<and> (\<forall>r \<in> set rs. record_ok r)
     \<and> s = \<lparr>sn_snapshot_id = trim i, sn_device_id = trim d, sn_created_at = t, sn_records = rs\<rparr>"
  by (auto simp: new_snapshot_def and_then_eq_Inr normalize_required_ok validate_sync_snapshot_ok Let_def
      snapshot_ok_def not_blank_trim)

lemma build_record_ok:
  "build_record c i p del t d n = Inr r \<longleftrightarrow> \<not> blank i \<and> \<not> blank d \<and> (del \<or> \<not> blank p)
     \<and> r = \<lparr>sr_collection = c, sr_record_id = trim i, sr_updated_at = t, sr_device_id = trim d,
            sr_revision = n, sr_payload = p, sr_deleted = del\<rparr>"
  by (auto simp: build_record_def and_then_eq_Inr normalize_required_ok new_record_key_ok
      validate_record_ok Let_def record_ok_def not_blank_trim)

subsection \<open>The rule between two records\<close>

lemma record_wins_iff:
  "record_wins a b \<longleftrightarrow>
     (sr_updated_at a, sr_deleted a, sr_revision a, sr_device_id a, sr_payload a)
     < (sr_updated_at b, sr_deleted b, sr_revision b, sr_device_id b, sr_payload b)"
  by (auto simp: choose_record_def less_bool_def)

lemma record_eqI:
  "key_of_record a = key_of_record b \<Longrightarrow>
   (sr_updated_at a, sr_deleted a, sr_revision a, sr_device_id a, sr_payload a)
     = (sr_updated_at b, sr_deleted b, sr_revision b, sr_device_id b, sr_payload b) \<Longrightarrow> a = b"
  by (simp add: key_of_record_def)

interpretation lww: last_writer key_of_record "\<lambda>a b. record_wins a b"
proof
  show "\<not> record_wins a a" for a by (simp add: record_wins_iff)
  show "record_wins a c" if "record_wins a b" "record_wins b c" for a b c
    using that unfolding record_wins_iff by (rule less_trans)
  show "record_wins a b \<or> record_wins b a" if "key_of_record a = key_of_record b" "a \<noteq> b" for a b
    using that record_eqI[of a b] unfolding record_wins_iff by (meson linorder_neqE)
qed

definition winners :: "sync_record list \<Rightarrow> sync_record list" where
  \<comment> \<open>the normal form: the winner of every key, in key order\<close>
  "winners rs = best_of key_of_record record_wins rs"

lemma normalized_records_ok:
  "normalized_records s = (if snapshot_ok s then Inr (winners (sn_records s))
     else Inl (projl (validate_sync_snapshot s)))"
  by (simp add: normalized_records_def and_then_unit validate_sync_snapshot_ok winners_def best_of_def)

lemma winners_subset: "set (winners rs) \<subseteq> set rs"
  unfolding winners_def by (auto simp: lww.in_best_of champion_def)

lemma winners_ok: "\<forall>r \<in> set rs. record_ok r \<Longrightarrow> \<forall>r \<in> set (winners rs). record_ok r"
  using winners_subset by blast

lemma new_package_ok:
  "new_package s = Inr p \<longleftrightarrow> snapshot_ok s \<and> p = \<lparr>sp_schema_version = sync_package_schema_version,
     sp_snapshot = \<lparr>sn_snapshot_id = trim (sn_snapshot_id s), sn_device_id = trim (sn_device_id s),
        sn_created_at = sn_created_at s, sn_records = winners (sn_records s)\<rparr>\<rparr>"
  using winners_ok[of "sn_records s"]
  by (auto simp: new_package_def and_then_eq_Inr normalized_records_ok new_snapshot_ok validate_package_def
      validate_sync_snapshot_ok Let_def snapshot_ok_def not_blank_trim split: if_splits)

end
