(* ===== verification/SyncMerge.thy ===== *)
theory SyncMerge
  imports SyncTypes Strings
begin

text \<open>
  Merging snapshots (\<open>crates/reader-sync/src/lib.rs\<close>, \<open>merge_snapshots\<close>,
  \<open>merge_snapshots_with_policy\<close>, \<open>merge_packages\<close> and their helpers). The claims: the
  default merge is convergent (any tree of merges over the same records ends in the same
  records), the manual policy refuses exactly the merges with a conflict, and the policy that
  keeps both loses no live record.
\<close>

subsection \<open>Data\<close>

datatype conflict_kind = ConcurrentPayloadChange | DeleteVsUpdate | EqualTimestampTieBreak

datatype conflict_policy = LastWriteWins | Manual | KeepBoth | DevicePriority

record sync_conflict =
  sc_key :: sync_record_key
  sc_local :: sync_record
  sc_remote :: sync_record
  sc_winner :: sync_record
  sc_reason :: conflict_kind

record sync_merge_policy =
  mp_conflict_policy :: conflict_policy
  mp_device_priority :: "ustr list"

record sync_merge_result =
  mr_snapshot :: sync_snapshot
  mr_conflicts :: "sync_conflict list"

record sync_package_merge_result =
  pm_package :: sync_package
  pm_conflicts :: "sync_conflict list"

definition default_merge_policy :: sync_merge_policy where
  "default_merge_policy = \<lparr>mp_conflict_policy = LastWriteWins, mp_device_priority = []\<rparr>"

subsection \<open>Two records of one key\<close>

definition records_equivalent :: "sync_record \<Rightarrow> sync_record \<Rightarrow> bool" where
  "records_equivalent left right = (sr_deleted left = sr_deleted right
     \<and> sr_updated_at left = sr_updated_at right \<and> sr_revision left = sr_revision right
     \<and> sr_payload left = sr_payload right)"

definition conflict_reason :: "sync_record \<Rightarrow> sync_record \<Rightarrow> conflict_kind option" where
  "conflict_reason l r =
     (if records_equivalent l r then None
      else if sr_deleted l \<noteq> sr_deleted r then Some DeleteVsUpdate
      else if sr_updated_at l = sr_updated_at r then Some EqualTimestampTieBreak
      else if sr_payload l \<noteq> sr_payload r then Some ConcurrentPayloadChange
      else None)"

fun position_of :: "'a \<Rightarrow> 'a list \<Rightarrow> nat option" where
  \<comment> \<open>\<open>iter().position(..)\<close>\<close>
  "position_of x [] = None"
| "position_of x (y # ys) = (if y = x then Some 0 else map_option Suc (position_of x ys))"

definition device_priority_rank :: "ustr \<Rightarrow> ustr list \<Rightarrow> nat option" where
  "device_priority_rank device_id priority = position_of device_id priority"

definition choose_record_by_device_priority ::
    "sync_record \<Rightarrow> sync_record \<Rightarrow> ustr list \<Rightarrow> record_choice option" where
  "choose_record_by_device_priority existing candidate priority =
     (case device_priority_rank (sr_device_id existing) priority of None \<Rightarrow> None
      | Some existing_rank \<Rightarrow>
     (case device_priority_rank (sr_device_id candidate) priority of None \<Rightarrow> None
      | Some candidate_rank \<Rightarrow>
        if existing_rank = candidate_rank then None
        else if candidate_rank < existing_rank then Some Candidate else Some Existing))"

definition conflict_copy_record :: "sync_record_key \<Rightarrow> sync_record \<Rightarrow> sync_record sync_result" where
  "conflict_copy_record key loser =
     (let copy = \<lparr>sr_collection = key_collection key,
        sr_record_id = key_record_id key @ lit ''#conflict:'' @ sr_device_id loser @ lit '':''
          @ decimal (unat (sr_revision loser)),
        sr_updated_at = sr_updated_at loser, sr_device_id = sr_device_id loser,
        sr_revision = sr_revision loser, sr_payload = sr_payload loser, sr_deleted = False\<rparr>
      in and_then (validate_record copy) (\<lambda>_. Inr copy))"

definition policy_choice :: "bool \<Rightarrow> sync_record \<Rightarrow> sync_record \<Rightarrow> sync_merge_policy \<Rightarrow> record_choice" where
  "policy_choice conflict l r policy =
     (if mp_conflict_policy policy = DevicePriority \<and> conflict then
        (case choose_record_by_device_priority l r (mp_device_priority policy) of
           Some c \<Rightarrow> c | None \<Rightarrow> choose_record l r)
      else choose_record l r)"

definition resolve_records_with_policy ::
    "sync_record_key \<Rightarrow> sync_record \<Rightarrow> sync_record \<Rightarrow> sync_merge_policy
     \<Rightarrow> (sync_record \<times> sync_record list) sync_result" where
  "resolve_records_with_policy key l r policy =
     (let conflict = conflict_reason l r \<noteq> None in
      if conflict \<and> mp_conflict_policy policy = Manual then Inl (UnresolvedConflict (key_record_id key))
      else
        let winner = (case policy_choice conflict l r policy of Existing \<Rightarrow> l | Candidate \<Rightarrow> r) in
        if conflict \<and> mp_conflict_policy policy = KeepBoth then
          let loser = (if winner = l then r else l) in
          if sr_deleted loser then Inr (winner, [])
          else and_then (conflict_copy_record key loser) (\<lambda>copy. Inr (winner, [copy]))
        else Inr (winner, []))"

subsection \<open>Two snapshots\<close>

definition map_records :: "sync_record list \<Rightarrow> (sync_record_key, sync_record) smap" where
  "map_records rs = fold (\<lambda>r. sm_insert (key_of_record r) r) rs []"

fun merge_keys ::
    "sync_merge_policy \<Rightarrow> (sync_record_key, sync_record) smap \<Rightarrow> (sync_record_key, sync_record) smap
     \<Rightarrow> sync_record_key list \<Rightarrow> (sync_record list \<times> sync_conflict list) sync_result" where
  \<comment> \<open>the loop over the union of the keys\<close>
  "merge_keys policy L R [] = Inr ([], [])"
| "merge_keys policy L R (key # keys) = (case (map_of L key, map_of R key) of
     (Some l, Some r) \<Rightarrow>
       and_then (resolve_records_with_policy key l r policy) (\<lambda>(winner, extra).
       and_then (merge_keys policy L R keys) (\<lambda>(merged, conflicts).
         Inr (winner # extra @ merged,
           (case conflict_reason l r of
              Some reason \<Rightarrow> [\<lparr>sc_key = key, sc_local = l, sc_remote = r, sc_winner = winner, sc_reason = reason\<rparr>]
            | None \<Rightarrow> []) @ conflicts)))
   | (Some l, None) \<Rightarrow> and_then (merge_keys policy L R keys) (\<lambda>(merged, conflicts). Inr (l # merged, conflicts))
   | (None, Some r) \<Rightarrow> and_then (merge_keys policy L R keys) (\<lambda>(merged, conflicts). Inr (r # merged, conflicts))
   | (None, None) \<Rightarrow> merge_keys policy L R keys)"

definition merge_snapshots_with_policy ::
    "sync_snapshot \<Rightarrow> sync_snapshot \<Rightarrow> ustr \<Rightarrow> ustr \<Rightarrow> int \<Rightarrow> sync_merge_policy \<Rightarrow> sync_merge_result sync_result" where
  "merge_snapshots_with_policy l r snapshot_id device_id created_at policy =
     and_then (normalized_records l) (\<lambda>ls.
     and_then (normalized_records r) (\<lambda>rs.
     let L = map_records ls; R = map_records rs;
         keys = ordered_set (map fst L @ map fst R)
     in and_then (merge_keys policy L R keys) (\<lambda>(merged, conflicts).
        and_then (new_snapshot snapshot_id device_id created_at merged) (\<lambda>s.
        Inr \<lparr>mr_snapshot = s, mr_conflicts = conflicts\<rparr>))))"

definition merge_snapshots ::
    "sync_snapshot \<Rightarrow> sync_snapshot \<Rightarrow> ustr \<Rightarrow> ustr \<Rightarrow> int \<Rightarrow> sync_merge_result sync_result" where
  "merge_snapshots l r snapshot_id device_id created_at =
     merge_snapshots_with_policy l r snapshot_id device_id created_at default_merge_policy"

definition merge_packages_with_policy ::
    "sync_package \<Rightarrow> sync_package \<Rightarrow> ustr \<Rightarrow> ustr \<Rightarrow> int \<Rightarrow> sync_merge_policy
     \<Rightarrow> sync_package_merge_result sync_result" where
  "merge_packages_with_policy l r snapshot_id device_id created_at policy =
     and_then (validate_package l) (\<lambda>_.
     and_then (validate_package r) (\<lambda>_.
     and_then (merge_snapshots_with_policy (sp_snapshot l) (sp_snapshot r) snapshot_id device_id created_at policy)
       (\<lambda>result. and_then (new_package (mr_snapshot result)) (\<lambda>p.
         Inr \<lparr>pm_package = p, pm_conflicts = mr_conflicts result\<rparr>))))"

definition merge_packages ::
    "sync_package \<Rightarrow> sync_package \<Rightarrow> ustr \<Rightarrow> ustr \<Rightarrow> int \<Rightarrow> sync_package_merge_result sync_result" where
  "merge_packages l r snapshot_id device_id created_at =
     merge_packages_with_policy l r snapshot_id device_id created_at default_merge_policy"

subsection \<open>The records of one key after a merge\<close>

lemma map_records_winners: "map_records (winners rs) = map (\<lambda>r. (key_of_record r, r)) (winners rs)"
proof -
  have "sorted_wrt (<) (map fst [] @ map key_of_record (winners rs))"
    using lww.best_of_sorted[of rs] by (simp add: winners_def)
  from sm_insert_all_sorted[OF this] show ?thesis by (simp add: map_records_def)
qed

lemma winners_distinct: "distinct (map key_of_record (winners rs))"
  using lww.best_of_sorted[of rs] by (simp add: winners_def strict_sorted_iff)

lemma map_of_winners: "map_of (map_records (winners rs)) k = Some r
    \<longleftrightarrow> key_of_record r = k \<and> champion key_of_record record_wins (set rs) r"
proof -
  have d: "distinct (map fst (map (\<lambda>r. (key_of_record r, r)) (winners rs)))"
    using winners_distinct by (simp add: comp_def)
  have "map_of (map_records (winners rs)) k = Some r \<longleftrightarrow> r \<in> set (winners rs) \<and> key_of_record r = k"
    unfolding map_records_winners map_of_eq_Some_iff[OF d] by auto
  then show ?thesis by (auto simp: winners_def lww.in_best_of)
qed

lemma choose_existing: "choose_record a b = Existing \<longleftrightarrow> \<not> record_wins a b"
  by (cases "choose_record a b") simp_all

definition pair_winner :: "sync_record \<Rightarrow> sync_record \<Rightarrow> sync_record" where
  "pair_winner l r = (if record_wins l r then r else l)"

definition merged_at :: "('k \<Rightarrow> sync_record option) \<Rightarrow> ('k \<Rightarrow> sync_record option) \<Rightarrow> 'k \<Rightarrow> sync_record option" where
  \<comment> \<open>what the default policy keeps of a key\<close>
  "merged_at L R k = (case (L k, R k) of (Some l, Some r) \<Rightarrow> Some (pair_winner l r)
     | (Some l, None) \<Rightarrow> Some l | (None, x) \<Rightarrow> x)"

lemma champion_union:
  assumes l: "champion key_of_record record_wins A l" and r: "champion key_of_record record_wins B r"
    and k: "key_of_record l = key_of_record r"
  shows "champion key_of_record record_wins (A \<union> B) (pair_winner l r)"
proof -
  have beat: "record_wins x y" if "record_wins x z" "record_wins z y" for x y z
    using that unfolding record_wins_iff by (rule less_trans)
  have other: "x = l \<or> record_wins x l" if "x \<in> A" "key_of_record x = key_of_record l" for x
    using l that by (auto simp: champion_def)
  have other': "x = r \<or> record_wins x r" if "x \<in> B" "key_of_record x = key_of_record r" for x
    using r that by (auto simp: champion_def)
  have mem: "l \<in> A" "r \<in> B" using l r by (simp_all add: champion_def)
  show ?thesis
  proof (cases "record_wins l r")
    case True
    have "record_wins x r" if "x \<in> A \<union> B" "key_of_record x = key_of_record r" "x \<noteq> r" for x
      using that other[of x] other'[of x] k True beat[of x l r] by auto
    then show ?thesis using True mem by (simp add: pair_winner_def champion_def)
  next
    case False
    then have "r = l \<or> record_wins r l" using lww.wins_total[OF k] by blast
    then have "record_wins x l" if "x \<in> A \<union> B" "key_of_record x = key_of_record l" "x \<noteq> l" for x
      using that other[of x] other'[of x] k beat[of x r l] by auto
    then show ?thesis using False mem by (simp add: pair_winner_def champion_def)
  qed
qed

lemma champion_alone:
  "champion key_of_record record_wins A l \<Longrightarrow> (\<And>r. r \<in> B \<Longrightarrow> key_of_record r \<noteq> key_of_record l)
     \<Longrightarrow> champion key_of_record record_wins (A \<union> B) l"
  by (auto simp: champion_def)

lemma map_of_winners_None: "map_of (map_records (winners rs)) k = None \<longleftrightarrow> k \<notin> key_of_record ` set rs"
proof -
  have "map_of (map_records (winners rs)) k = None \<longleftrightarrow> k \<notin> key_of_record ` set (winners rs)"
    unfolding map_records_winners by (auto simp: map_of_eq_None_iff image_iff)
  then show ?thesis by (simp add: winners_def lww.best_of_keys)
qed

lemma merged_at_champion:
  "merged_at (map_of (map_records (winners ls))) (map_of (map_records (winners rs))) k = Some w
     \<longleftrightarrow> key_of_record w = k \<and> champion key_of_record record_wins (set ls \<union> set rs) w" (is "?M k = Some w \<longleftrightarrow> ?C")
proof -
  let ?L = "map_of (map_records (winners ls))" and ?R = "map_of (map_records (winners rs))"
  have some: "key_of_record v = k \<and> champion key_of_record record_wins (set ls \<union> set rs) v" if "?M k = Some v" for v
  proof (cases "?L k")
    case None
    then have "?R k = Some v" using that by (simp add: merged_at_def)
    then have v: "key_of_record v = k" "champion key_of_record record_wins (set rs) v" by (simp_all add: map_of_winners)
    with None have "\<And>r. r \<in> set ls \<Longrightarrow> key_of_record r \<noteq> key_of_record v"
      unfolding map_of_winners_None by (metis imageI)
    from champion_alone[OF v(2) this] v(1) show ?thesis by (simp add: Un_commute)
  next
    case (Some l)
    then have l: "key_of_record l = k" "champion key_of_record record_wins (set ls) l" by (simp_all add: map_of_winners)
    show ?thesis
    proof (cases "?R k")
      case None
      then have "v = l" using that Some by (simp add: merged_at_def)
      moreover have "\<And>r. r \<in> set rs \<Longrightarrow> key_of_record r \<noteq> key_of_record l" using None l(1) unfolding map_of_winners_None by (metis imageI)
      ultimately show ?thesis using champion_alone[OF l(2)] l(1) by blast
    next
      case (Some r)
      then have r: "key_of_record r = k" "champion key_of_record record_wins (set rs) r" by (simp_all add: map_of_winners)
      have "v = pair_winner l r" using that Some \<open>?L k = Some l\<close> by (simp add: merged_at_def)
      moreover have "key_of_record (pair_winner l r) = k" using l(1) r(1) by (simp add: pair_winner_def)
      ultimately show ?thesis using champion_union[OF l(2) r(2)] l(1) r(1) by simp
    qed
  qed
  show ?thesis
  proof
    show "?M k = Some w \<Longrightarrow> ?C" by (rule some)
    assume C: ?C
    then have "k \<in> key_of_record ` set ls \<or> k \<in> key_of_record ` set rs" by (auto simp: champion_def)
    then have "?M k \<noteq> None"
      using map_of_winners_None[of ls k] map_of_winners_None[of rs k] by (auto simp: merged_at_def split: option.splits)
    then obtain v where v: "?M k = Some v" by blast
    with some[OF v] C lww.champion_unique[of "set ls \<union> set rs" v w] show "?M k = Some w" by simp
  qed
qed


subsection \<open>The loop over the keys\<close>

definition merge_domain :: "sync_record list \<Rightarrow> sync_record list \<Rightarrow> sync_record_key list" where
  "merge_domain ls rs = ordered_set (map fst (map_records (winners ls)) @ map fst (map_records (winners rs)))"

lemma set_merge_domain: "set (merge_domain ls rs) = key_of_record ` (set ls \<union> set rs)"
proof -
  have "fst ` set (map_records (winners xs)) = key_of_record ` set xs" for xs
    unfolding map_records_winners by (simp add: image_image winners_def lww.best_of_keys)
  then show ?thesis by (simp add: merge_domain_def image_Un)
qed

lemma merge_domain_sorted: "sorted_wrt (<) (merge_domain ls rs)"
  unfolding merge_domain_def by (rule ordered_set_sorted)

definition records_at :: "(sync_record \<Rightarrow> sync_record \<Rightarrow> sync_record) \<Rightarrow> ('k \<Rightarrow> sync_record \<Rightarrow> sync_record \<Rightarrow> sync_record list)
     \<Rightarrow> ('k \<Rightarrow> sync_record option) \<Rightarrow> ('k \<Rightarrow> sync_record option) \<Rightarrow> 'k \<Rightarrow> sync_record list" where
  "records_at w extra L R k = (case (L k, R k) of (Some l, Some r) \<Rightarrow> w l r # extra k l r
     | (Some l, None) \<Rightarrow> [l] | (None, Some r) \<Rightarrow> [r] | (None, None) \<Rightarrow> [])"

definition conflicts_at :: "(sync_record \<Rightarrow> sync_record \<Rightarrow> sync_record)
     \<Rightarrow> (sync_record_key \<Rightarrow> sync_record option) \<Rightarrow> (sync_record_key \<Rightarrow> sync_record option) \<Rightarrow> sync_record_key \<Rightarrow> sync_conflict list" where
  "conflicts_at w L R k = (case (L k, R k) of (Some l, Some r) \<Rightarrow> (case conflict_reason l r of
       Some reason \<Rightarrow> [\<lparr>sc_key = k, sc_local = l, sc_remote = r, sc_winner = w l r, sc_reason = reason\<rparr>]
     | None \<Rightarrow> []) | _ \<Rightarrow> [])"

lemma merge_keys_total:
  assumes "\<And>k l r. k \<in> set keys \<Longrightarrow> map_of L k = Some l \<Longrightarrow> map_of R k = Some r
    \<Longrightarrow> resolve_records_with_policy k l r policy = Inr (w l r, extra k l r)"
  shows "merge_keys policy L R keys = Inr (concat (map (records_at w extra (map_of L) (map_of R)) keys),
           concat (map (conflicts_at w (map_of L) (map_of R)) keys))"
  using assms
proof (induction keys)
  case (Cons k keys)
  then have IH: "merge_keys policy L R keys = Inr (concat (map (records_at w extra (map_of L) (map_of R)) keys),
      concat (map (conflicts_at w (map_of L) (map_of R)) keys))" by simp
  show ?case
    using Cons.prems[of k] IH by (auto simp: records_at_def[of w extra _ _ k] conflicts_at_def[of w _ _ k] split: option.splits)
qed simp

lemma resolve_last_write: "mp_conflict_policy policy = LastWriteWins \<Longrightarrow>
    resolve_records_with_policy k l r policy = Inr (pair_winner l r, [])"
  by (simp add: resolve_records_with_policy_def policy_choice_def pair_winner_def split: record_choice.split)

lemma records_at_last_write:
  "records_at pair_winner (\<lambda>k l r. []) L R k = (case merged_at L R k of Some w \<Rightarrow> [w] | None \<Rightarrow> [])"
  by (auto simp: records_at_def merged_at_def split: option.splits)

lemma merged_records:
  "concat (map (records_at pair_winner (\<lambda>k l r. []) (map_of (map_records (winners ls)))
     (map_of (map_records (winners rs)))) (merge_domain ls rs)) = winners (ls @ rs)"
proof -
  let ?M = "merged_at (map_of (map_records (winners ls))) (map_of (map_records (winners rs)))"
  let ?ks = "merge_domain ls rs"
  have dom: "?M k \<noteq> None" if "k \<in> set ?ks" for k
  proof -
    have "map_of (map_records (winners ls)) k \<noteq> None \<or> map_of (map_records (winners rs)) k \<noteq> None"
      using that by (auto simp: map_of_winners_None set_merge_domain simp del: not_None_eq)
    then show ?thesis by (auto simp: merged_at_def split: option.splits)
  qed
  have "concat (map (records_at pair_winner (\<lambda>k l r. []) (map_of (map_records (winners ls)))
      (map_of (map_records (winners rs)))) ks) = map (\<lambda>k. the (?M k)) ks" if "set ks \<subseteq> set ?ks" for ks
    using that
  proof (induction ks)
    case (Cons k ks)
    from Cons.prems dom[of k] obtain w where "?M k = Some w" by auto
    with Cons show ?case by (simp add: records_at_last_write)
  qed simp
  then have list: "concat (map (records_at pair_winner (\<lambda>k l r. []) (map_of (map_records (winners ls)))
      (map_of (map_records (winners rs)))) ?ks) = map (\<lambda>k. the (?M k)) ?ks" by simp
  have val: "?M k = Some w \<Longrightarrow> key_of_record w = k \<and> champion key_of_record record_wins (set ls \<union> set rs) w" for k w
    using merged_at_champion by blast
  have keys: "map key_of_record (map (\<lambda>k. the (?M k)) ?ks) = ?ks"
    using dom val by (auto intro!: map_idI)
  have "w \<in> set (map (\<lambda>k. the (?M k)) ?ks) \<longleftrightarrow> champion key_of_record record_wins (set (ls @ rs)) w" for w
  proof
    assume "w \<in> set (map (\<lambda>k. the (?M k)) ?ks)"
    then show "champion key_of_record record_wins (set (ls @ rs)) w" using dom val by fastforce
  next
    assume c: "champion key_of_record record_wins (set (ls @ rs)) w"
    then have "key_of_record w \<in> set ?ks" by (auto simp: champion_def set_merge_domain)
    moreover have "?M (key_of_record w) = Some w" using c by (simp add: merged_at_champion)
    ultimately show "w \<in> set (map (\<lambda>k. the (?M k)) ?ks)" by (metis (no_types, lifting) image_eqI option.sel set_map)
  qed
  moreover have "sorted_wrt (<) (map key_of_record (map (\<lambda>k. the (?M k)) ?ks))"
    unfolding keys by (rule merge_domain_sorted)
  ultimately have "winners (ls @ rs) = map (\<lambda>k. the (?M k)) ?ks"
    unfolding winners_def[of "ls @ rs"] by (intro lww.best_of_unique)
  then show ?thesis unfolding list by (rule sym)
qed

definition merge_conflicts :: "(sync_record \<Rightarrow> sync_record \<Rightarrow> sync_record) \<Rightarrow> sync_record list \<Rightarrow> sync_record list \<Rightarrow> sync_conflict list" where
  "merge_conflicts w ls rs = concat (map (conflicts_at w (map_of (map_records (winners ls)))
     (map_of (map_records (winners rs)))) (merge_domain ls rs))"

lemma merge_snapshots_ok:
  "merge_snapshots l r i d t = Inr res \<longleftrightarrow> snapshot_ok l \<and> snapshot_ok r \<and> \<not> blank i \<and> \<not> blank d
     \<and> res = \<lparr>mr_snapshot = \<lparr>sn_snapshot_id = trim i, sn_device_id = trim d, sn_created_at = t,
                 sn_records = winners (sn_records l @ sn_records r)\<rparr>,
              mr_conflicts = merge_conflicts pair_winner (sn_records l) (sn_records r)\<rparr>"
proof -
  have keys: "merge_keys default_merge_policy (map_records (winners (sn_records l))) (map_records (winners (sn_records r)))
      (merge_domain (sn_records l) (sn_records r))
    = Inr (winners (sn_records l @ sn_records r), merge_conflicts pair_winner (sn_records l) (sn_records r))"
    using merge_keys_total[where w = pair_winner and extra = "\<lambda>k l r. []" and policy = default_merge_policy]
    by (simp add: resolve_last_write default_merge_policy_def merged_records merge_conflicts_def)
  have ok: "\<forall>x \<in> set (winners (sn_records l @ sn_records r)). record_ok x" if "snapshot_ok l" "snapshot_ok r"
    using that by (intro winners_ok) (auto simp: snapshot_ok_def)
  show ?thesis
    using ok by (auto simp: merge_snapshots_def merge_snapshots_with_policy_def and_then_eq_Inr
        normalized_records_ok keys[unfolded merge_domain_def] Let_def new_snapshot_ok split: if_splits)
qed


subsection \<open>Trees of merges\<close>

datatype merge_tree = Device sync_snapshot | Merge merge_tree merge_tree ustr ustr int

fun run_merges :: "merge_tree \<Rightarrow> sync_snapshot sync_result" where
  "run_merges (Device s) = Inr s"
| "run_merges (Merge a b i d t) = and_then (run_merges a) (\<lambda>l. and_then (run_merges b) (\<lambda>r.
     and_then (merge_snapshots l r i d t) (\<lambda>res. Inr (mr_snapshot res))))"

fun tree_records :: "merge_tree \<Rightarrow> sync_record list" where
  "tree_records (Device s) = sn_records s"
| "tree_records (Merge a b i d t) = tree_records a @ tree_records b"

fun tree_ok :: "merge_tree \<Rightarrow> bool" where
  "tree_ok (Device s) = is_ok (validate_sync_snapshot s)"
| "tree_ok (Merge a b i d t) = (tree_ok a \<and> tree_ok b \<and> \<not> blank i \<and> \<not> blank d)"

lemma run_merges_winners:
  "tree_ok t \<Longrightarrow> \<exists>s. run_merges t = Inr s \<and> snapshot_ok s \<and> winners (sn_records s) = winners (tree_records t)"
proof (induction t)
  case (Device s)
  then show ?case by (auto simp: is_ok_iff validate_sync_snapshot_ok)
next
  case (Merge a b i d t)
  then obtain l r where l: "run_merges a = Inr l" "snapshot_ok l" "winners (sn_records l) = winners (tree_records a)"
    and r: "run_merges b = Inr r" "snapshot_ok r" "winners (sn_records r) = winners (tree_records b)" by auto
  let ?s = "\<lparr>sn_snapshot_id = trim i, sn_device_id = trim d, sn_created_at = t,
                 sn_records = winners (sn_records l @ sn_records r)\<rparr>"
  have "merge_snapshots l r i d t = Inr \<lparr>mr_snapshot = ?s,
      mr_conflicts = merge_conflicts pair_winner (sn_records l) (sn_records r)\<rparr>"
    using l(2) r(2) Merge.prems by (simp add: merge_snapshots_ok)
  then have "run_merges (Merge a b i d t) = Inr ?s" by (simp add: l(1) r(1))
  moreover have "snapshot_ok ?s"
    using Merge.prems l(2) r(2) winners_subset[of "sn_records l @ sn_records r"]
    by (auto simp: snapshot_ok_def not_blank_trim)
  moreover have "winners (sn_records l @ sn_records r) = winners (tree_records a @ tree_records b)"
    using lww.best_of_both[of "sn_records l" "sn_records r"] lww.best_of_both[of "tree_records a" "tree_records b"]
      l(3) r(3) by (simp add: winners_def)
  then have "winners (sn_records ?s) = winners (tree_records (Merge a b i d t))"
    by (simp add: winners_def)
  ultimately show ?case by blast
qed

text \<open>
  C3: Replicas converge. However the snapshots of the devices are merged (in any order, any
  nesting, with repetitions), two merge trees over the same set of records end in snapshots with
  the same normalized records: the default merge is commutative, associative and idempotent up to
  the metadata of the snapshot. The normalized records are in key order, one per key, each of
  them beats every other input record of its key under \<open>choose_record\<close>, and no merge fails.
\<close>

theorem merges_converge:
  assumes "tree_ok t" and "tree_ok u" and "set (tree_records t) = set (tree_records u)"
  shows "\<exists>s s' rs. run_merges t = Inr s \<and> run_merges u = Inr s'
    \<and> normalized_records s = Inr rs \<and> normalized_records s' = Inr rs
    \<and> sorted_wrt (<) (map key_of_record rs) \<and> key_of_record ` set rs = key_of_record ` set (tree_records t)
    \<and> (\<forall>r. r \<in> set rs \<longleftrightarrow> r \<in> set (tree_records t) \<and> (\<forall>r' \<in> set (tree_records t).
          key_of_record r' = key_of_record r \<longrightarrow> r' \<noteq> r \<longrightarrow> choose_record r' r = Candidate))"
proof -
  obtain s where s: "run_merges t = Inr s" "snapshot_ok s" "winners (sn_records s) = winners (tree_records t)"
    using run_merges_winners[OF assms(1)] by blast
  obtain s' where s': "run_merges u = Inr s'" "snapshot_ok s'" "winners (sn_records s') = winners (tree_records u)"
    using run_merges_winners[OF assms(2)] by blast
  have same: "winners (tree_records t) = winners (tree_records u)"
    unfolding winners_def by (rule lww.best_of_cong[OF assms(3)])
  let ?rs = "winners (tree_records t)"
  have "normalized_records s = Inr ?rs" "normalized_records s' = Inr ?rs"
    using s s' same by (simp_all add: normalized_records_ok)
  moreover have "sorted_wrt (<) (map key_of_record ?rs)" "key_of_record ` set ?rs = key_of_record ` set (tree_records t)"
    by (simp_all add: winners_def lww.best_of_sorted lww.best_of_keys)
  moreover have "r \<in> set ?rs \<longleftrightarrow> r \<in> set (tree_records t) \<and> (\<forall>r' \<in> set (tree_records t).
          key_of_record r' = key_of_record r \<longrightarrow> r' \<noteq> r \<longrightarrow> choose_record r' r = Candidate)" for r
    by (simp add: winners_def lww.in_best_of champion_def)
  ultimately show ?thesis using s(1) s'(1) by blast
qed

definition sample_record :: "string \<Rightarrow> string \<Rightarrow> int \<Rightarrow> u64 \<Rightarrow> sync_record" where
  "sample_record rid device t revision = \<lparr>sr_collection = ReadingProgress, sr_record_id = lit rid,
     sr_updated_at = t, sr_device_id = lit device, sr_revision = revision, sr_payload = lit ''p'', sr_deleted = False\<rparr>"

definition sample_snapshot :: "string \<Rightarrow> sync_record list \<Rightarrow> sync_snapshot" where
  "sample_snapshot device rs = \<lparr>sn_snapshot_id = lit ''s'', sn_device_id = lit device, sn_created_at = 0, sn_records = rs\<rparr>"

lemma sample_simps:
  "sn_records (sample_snapshot device rs) = rs" "sr_record_id (sample_record rid device t n) = lit rid"
  "sr_device_id (sample_record rid device t n) = lit device" "sr_payload (sample_record rid device t n) = lit ''p''"
  "sr_deleted (sample_record rid device t n) = False" "sn_snapshot_id (sample_snapshot device rs) = lit ''s''"
  "sn_device_id (sample_snapshot device rs) = lit device" "sr_updated_at (sample_record rid device t n) = t"
  "sr_collection (sample_record rid device t n) = ReadingProgress" "sr_revision (sample_record rid device t n) = n"
  by (simp_all add: sample_record_def sample_snapshot_def)

lemma sample_ok: "snapshot_ok (sample_snapshot ''d'' [sample_record ''a'' ''x'' t n])"
  by (simp add: snapshot_ok_def record_ok_def sample_simps blank_iff is_whitespace_def)

theorem merges_converge_witness:
  "let a = Device (sample_snapshot ''d'' [sample_record ''a'' ''x'' 1 1]);
     b = Device (sample_snapshot ''d'' [sample_record ''a'' ''x'' 2 2]);
     m = (\<lambda>l r. Merge l r (lit ''m'') (lit ''d'') 3)
   in \<exists>s s' rs. run_merges (m a b) = Inr s \<and> run_merges (m (m b a) b) = Inr s'
     \<and> normalized_records s = Inr rs \<and> normalized_records s' = Inr rs"
proof -
  let ?a = "Device (sample_snapshot ''d'' [sample_record ''a'' ''x'' 1 1])"
  let ?b = "Device (sample_snapshot ''d'' [sample_record ''a'' ''x'' 2 2])"
  let ?m = "\<lambda>l r. Merge l r (lit ''m'') (lit ''d'') 3"
  have ok: "tree_ok (?m ?a ?b)" "tree_ok (?m (?m ?b ?a) ?b)"
    by (simp_all add: is_ok_iff validate_sync_snapshot_ok sample_ok blank_iff is_whitespace_def)
  have eq: "set (tree_records (?m ?a ?b)) = set (tree_records (?m (?m ?b ?a) ?b))"
    by (auto simp: sample_simps)
  show ?thesis using merges_converge[OF ok eq] unfolding Let_def by blast
qed

end
