(* ===== verification/SyncPolicies.thy ===== *)
theory SyncPolicies
  imports SyncMerge
begin

text \<open>
  The policies of \<open>merge_snapshots_with_policy\<close> that do not silently drop a change: \<open>Manual\<close>
  refuses exactly the merges with a conflict and names the first one, \<open>KeepBoth\<close> keeps every
  live record, \<open>DevicePriority\<close> follows the configured order of devices.
\<close>

subsection \<open>Manual\<close>

definition normal_form :: "sync_snapshot \<Rightarrow> sync_record list" where
  "normal_form s = winners (sn_records s)"

definition clash :: "sync_snapshot \<Rightarrow> sync_snapshot \<Rightarrow> sync_record_key \<Rightarrow> bool" where
  "clash l r k = (\<exists>a \<in> set (normal_form l). \<exists>b \<in> set (normal_form r).
     key_of_record a = k \<and> key_of_record b = k \<and> conflict_reason a b \<noteq> None)"

lemma map_of_normal: "map_of (map_records (normal_form s)) k = Some r \<longleftrightarrow> r \<in> set (normal_form s) \<and> key_of_record r = k"
  unfolding normal_form_def map_of_winners by (auto simp: winners_def lww.in_best_of)

lemma clash_iff: "clash l r k \<longleftrightarrow> (\<exists>a b. map_of (map_records (normal_form l)) k = Some a
    \<and> map_of (map_records (normal_form r)) k = Some b \<and> conflict_reason a b \<noteq> None)"
  unfolding map_of_normal clash_def by blast

lemma merge_with_policy_unfold:
  assumes "snapshot_ok l" and "snapshot_ok r"
  shows "merge_snapshots_with_policy l r i d t policy =
    and_then (merge_keys policy (map_records (normal_form l)) (map_records (normal_form r))
        (merge_domain (sn_records l) (sn_records r)))
      (\<lambda>(merged, conflicts). and_then (new_snapshot i d t merged) (\<lambda>s.
         Inr \<lparr>mr_snapshot = s, mr_conflicts = conflicts\<rparr>))"
  using assms by (simp add: merge_snapshots_with_policy_def normalized_records_ok Let_def merge_domain_def normal_form_def)

lemma resolve_manual:
  "mp_conflict_policy policy = Manual \<Longrightarrow> resolve_records_with_policy k l r policy =
     (if conflict_reason l r = None then resolve_records_with_policy k l r default_merge_policy
      else Inl (UnresolvedConflict (key_record_id k)))"
  by (simp add: resolve_records_with_policy_def policy_choice_def default_merge_policy_def)

lemma merge_keys_manual:
  assumes m: "mp_conflict_policy policy = Manual"
    and L: "L = map_records (normal_form l)" and R: "R = map_records (normal_form r)"
  shows "(\<forall>k \<in> set keys. \<not> clash l r k) \<Longrightarrow> merge_keys policy L R keys = merge_keys default_merge_policy L R keys"
    and "k \<in> set keys \<Longrightarrow> clash l r k \<Longrightarrow> sorted_wrt (<) keys \<Longrightarrow> (\<And>k'. k' < k \<Longrightarrow> \<not> clash l r k') \<Longrightarrow>
      merge_keys policy L R keys = Inl (UnresolvedConflict (key_record_id k))"
proof (induction keys)
  case (Cons q keys)
  have quiet: "resolve_records_with_policy q a b policy = resolve_records_with_policy q a b default_merge_policy"
    if "\<not> clash l r q" "map_of L q = Some a" "map_of R q = Some b" for a b
    using that unfolding clash_iff L[symmetric] R[symmetric] by (simp add: resolve_manual[OF m])
  have sound: "resolve_records_with_policy q a b default_merge_policy = Inr (pair_winner a b, [])" for a b
    by (simp add: resolve_last_write default_merge_policy_def)
  {
    case 1
    then show ?case
      using Cons.IH(1) quiet by (auto split: option.splits)
  next
    case 2
    show ?case
    proof (cases "q = k")
      case True
      then obtain a b where "map_of L q = Some a" "map_of R q = Some b" "conflict_reason a b \<noteq> None"
        using 2(2) unfolding clash_iff L[symmetric] R[symmetric] by blast
      then show ?thesis using True by (cases "conflict_reason a b") (simp_all add: resolve_manual[OF m])
    next
      case False
      then have "k \<in> set keys" "q < k" using 2(1,3) by auto
      then have rest: "merge_keys policy L R keys = Inl (UnresolvedConflict (key_record_id k))"
        and calm: "\<not> clash l r q"
        using Cons.IH(2) 2 by auto
      show ?thesis
        using quiet[OF calm] by (auto simp: rest sound split: option.splits)
    qed
  }
qed simp_all

text \<open>
  C29: The manual policy refuses exactly the merges with a conflict. For two valid snapshots and
  usable metadata, when no key is in conflict the merge equals the default merge; otherwise it
  fails with \<open>UnresolvedConflict\<close> and the record id of the smallest key in conflict, and no
  record is picked.
\<close>

theorem manual_refuses_exactly:
  assumes "validate_sync_snapshot l = Inr ()" and "validate_sync_snapshot r = Inr ()"
    and "mp_conflict_policy policy = Manual"
  shows "(if \<exists>k. clash l r k
    then \<exists>k. clash l r k \<and> (\<forall>k'. clash l r k' \<longrightarrow> k \<le> k')
       \<and> merge_snapshots_with_policy l r i d t policy = Inl (UnresolvedConflict (key_record_id k))
    else merge_snapshots_with_policy l r i d t policy = merge_snapshots l r i d t)"
proof -
  have ok: "snapshot_ok l" "snapshot_ok r" using assms(1,2) by (simp_all add: validate_sync_snapshot_ok)
  note unfold = merge_with_policy_unfold[OF ok]
  note manual = merge_keys_manual[OF assms(3) refl refl]
  show ?thesis
  proof (cases "\<exists>k. clash l r k")
    case False
    then have "merge_snapshots_with_policy l r i d t policy = merge_snapshots l r i d t"
      unfolding merge_snapshots_def unfold by (subst manual(1)) auto
    with False show ?thesis by simp
  next
    case True
    have fin: "{k. clash l r k} \<subseteq> set (merge_domain (sn_records l) (sn_records r))"
      unfolding set_merge_domain clash_def normal_form_def using winners_subset by fastforce
    let ?k = "Min {k. clash l r k}"
    have F: "finite {k. clash l r k}" using fin finite_subset by blast
    have k: "clash l r ?k" using Min_in[OF F] True by blast
    have least: "\<forall>k'. clash l r k' \<longrightarrow> ?k \<le> k'" using F by simp
    have "merge_keys policy (map_records (normal_form l)) (map_records (normal_form r))
        (merge_domain (sn_records l) (sn_records r)) = Inl (UnresolvedConflict (key_record_id ?k))"
    proof (rule manual(2)[OF _ k merge_domain_sorted])
      show "?k \<in> set (merge_domain (sn_records l) (sn_records r))" using k fin by blast
      show "\<not> clash l r k'" if "k' < ?k" for k' using that least by (meson not_le)
    qed
    then have "merge_snapshots_with_policy l r i d t policy = Inl (UnresolvedConflict (key_record_id ?k))"
      unfolding unfold by simp
    with True k least show ?thesis by auto
  qed
qed

lemma normal_form_single [simp]: "normal_form (sample_snapshot device [r]) = [r]"
  by (simp add: normal_form_def winners_def sample_simps lww.best_of_distinct)

lemma sample_clash:
  "clash (sample_snapshot ''d'' [sample_record ''a'' ''x'' 1 1]) (sample_snapshot ''d'' [sample_record ''a'' ''x'' 1 2])
     (SyncRecordKey ReadingProgress (lit ''a''))"
  by (simp add: clash_def key_of_record_def sample_simps conflict_reason_def records_equivalent_def)

lemma sample_valid: "validate_sync_snapshot (sample_snapshot ''d'' [sample_record ''a'' ''x'' t n]) = Inr ()"
  by (simp add: validate_sync_snapshot_ok sample_ok)

theorem manual_refuses_exactly_witness:
  "\<exists>k. merge_snapshots_with_policy (sample_snapshot ''d'' [sample_record ''a'' ''x'' 1 1])
      (sample_snapshot ''d'' [sample_record ''a'' ''x'' 1 2]) (lit ''m'') (lit ''d'') 3
      \<lparr>mp_conflict_policy = Manual, mp_device_priority = []\<rparr> = Inl (UnresolvedConflict (key_record_id k))"
proof -
  let ?p = "\<lparr>mp_conflict_policy = Manual, mp_device_priority = []\<rparr>"
  note claim = manual_refuses_exactly[OF sample_valid sample_valid, where policy = ?p and i = "lit ''m''" and d = "lit ''d''" and t = 3]
  show ?thesis
    using claim[of 1 1 1 2] sample_clash by (simp del: lit_simps split: if_splits) blast
qed

subsection \<open>Keep both\<close>

definition conflict_copy_id :: "sync_record \<Rightarrow> ustr" where
  "conflict_copy_id r = sr_record_id r @ lit ''#conflict:'' @ sr_device_id r @ lit '':'' @ decimal (unat (sr_revision r))"

definition conflict_copy :: "sync_record \<Rightarrow> sync_record" where
  "conflict_copy r = r\<lparr>sr_record_id := conflict_copy_id r, sr_deleted := False\<rparr>"

definition kept_extra :: "sync_record_key \<Rightarrow> sync_record \<Rightarrow> sync_record \<Rightarrow> sync_record list" where
  "kept_extra k l r = (let loser = (if pair_winner l r = l then r else l)
     in if conflict_reason l r \<noteq> None \<and> \<not> sr_deleted loser then [conflict_copy loser] else [])"

lemma conflict_copy_ok: "record_ok r \<Longrightarrow> \<not> sr_deleted r \<Longrightarrow> record_ok (conflict_copy r)"
  by (auto simp: record_ok_def conflict_copy_def conflict_copy_id_def blank_iff)

lemma conflict_copy_made:
  assumes "record_ok r" and "\<not> sr_deleted r" and "key_of_record r = k"
  shows "conflict_copy_record k r = Inr (conflict_copy r)"
proof -
  have eq: "\<lparr>sr_collection = key_collection k,
        sr_record_id = key_record_id k @ lit ''#conflict:'' @ sr_device_id r @ lit '':''
          @ decimal (unat (sr_revision r)),
        sr_updated_at = sr_updated_at r, sr_device_id = sr_device_id r,
        sr_revision = sr_revision r, sr_payload = sr_payload r, sr_deleted = False\<rparr> = conflict_copy r"
    using assms(3) by (auto simp: conflict_copy_def conflict_copy_id_def key_of_record_def simp del: lit_simps)
  have "validate_record (conflict_copy r) = Inr ()"
    using conflict_copy_ok[OF assms(1,2)] by (simp add: validate_record_ok)
  then show ?thesis by (simp add: conflict_copy_record_def eq Let_def del: lit_simps)
qed

lemma resolve_keep_both:
  assumes "mp_conflict_policy policy = KeepBoth" and "record_ok l" and "record_ok r"
    and "key_of_record l = k" and "key_of_record r = k"
  shows "resolve_records_with_policy k l r policy = Inr (pair_winner l r, kept_extra k l r)"
proof -
  have w: "(case policy_choice c l r policy of Existing \<Rightarrow> l | Candidate \<Rightarrow> r) = pair_winner l r" for c
    using assms(1) by (simp add: policy_choice_def pair_winner_def split: record_choice.split)
  let ?loser = "if pair_winner l r = l then r else l"
  have loser: "record_ok ?loser" "key_of_record ?loser = k" using assms by auto
  show ?thesis
    using assms(1) conflict_copy_made[OF loser(1) _ loser(2)]
    by (simp add: resolve_records_with_policy_def w kept_extra_def Let_def)
qed

lemma no_conflict_same:
  "conflict_reason l r = None \<Longrightarrow> sr_deleted l = sr_deleted r \<and> sr_payload l = sr_payload r"
  by (auto simp: conflict_reason_def records_equivalent_def split: if_splits)

lemma pair_kept:
  assumes "x = l \<or> x = r" and "key_of_record l = key_of_record r" and "\<not> sr_deleted x"
  shows "\<exists>m \<in> set (pair_winner l r # kept_extra k l r). sr_collection m = sr_collection x
    \<and> sr_payload m = sr_payload x \<and> \<not> sr_deleted m \<and> sr_record_id m \<in> {sr_record_id x, conflict_copy_id x}"
proof (cases "pair_winner l r = x \<or> conflict_reason l r = None")
  case True
  have "pair_winner l r = l \<or> pair_winner l r = r" by (simp add: pair_winner_def)
  then have "sr_payload (pair_winner l r) = sr_payload x \<and> sr_deleted (pair_winner l r) = sr_deleted x
      \<and> sr_collection (pair_winner l r) = sr_collection x \<and> sr_record_id (pair_winner l r) = sr_record_id x"
    using True assms(1,2) no_conflict_same[of l r] by (auto simp: key_of_record_def)
  then show ?thesis using assms(3) by auto
next
  case False
  then have "x = (if pair_winner l r = l then r else l)"
    using assms(1) by (auto simp: pair_winner_def split: if_splits)
  then have "conflict_copy x \<in> set (kept_extra k l r)"
    using False assms(3) by (auto simp: kept_extra_def Let_def)
  then show ?thesis by (intro bexI[of _ "conflict_copy x"]) (simp_all add: conflict_copy_def)
qed

text \<open>
  C28: Keeping both loses nothing. A merge of two valid snapshots under \<open>KeepBoth\<close> succeeds; every
  live record of either side survives with its payload in the same collection, under its own id or
  under the id of its conflict copy; and every key still holds the record the default merge keeps.
\<close>

theorem keep_both_loses_nothing:
  assumes "validate_sync_snapshot l = Inr ()" and "validate_sync_snapshot r = Inr ()"
    and "mp_conflict_policy policy = KeepBoth" and "\<not> blank i" and "\<not> blank d"
  shows "\<exists>res. merge_snapshots_with_policy l r i d t policy = Inr res
    \<and> (\<forall>x \<in> set (normal_form l) \<union> set (normal_form r). \<not> sr_deleted x \<longrightarrow>
        (\<exists>m \<in> set (sn_records (mr_snapshot res)). sr_collection m = sr_collection x
          \<and> sr_payload m = sr_payload x \<and> \<not> sr_deleted m
          \<and> sr_record_id m \<in> {sr_record_id x, conflict_copy_id x}))
    \<and> set (winners (sn_records l @ sn_records r)) \<subseteq> set (sn_records (mr_snapshot res))"
proof -
  let ?L = "map_of (map_records (normal_form l))" and ?R = "map_of (map_records (normal_form r))"
  let ?ks = "merge_domain (sn_records l) (sn_records r)"
  let ?at = "records_at pair_winner kept_extra ?L ?R"
  let ?merged = "concat (map ?at ?ks)"
  have ok: "snapshot_ok l" "snapshot_ok r" using assms(1,2) by (simp_all add: validate_sync_snapshot_ok)
  have rec: "record_ok x" if "x \<in> set (normal_form l) \<union> set (normal_form r)" for x
    using that ok winners_subset by (auto simp: normal_form_def snapshot_ok_def)
  have keys: "merge_keys policy (map_records (normal_form l)) (map_records (normal_form r)) ?ks
      = Inr (?merged, concat (map (conflicts_at pair_winner ?L ?R) ?ks))"
    using rec by (intro merge_keys_total resolve_keep_both assms(3)) (auto simp: map_of_normal)
  have extra: "record_ok m" if "m \<in> set (kept_extra k a b)" "record_ok a" "record_ok b" for m k a b
    using that by (auto simp: kept_extra_def Let_def conflict_copy_ok split: if_splits)
  have good: "record_ok m" if "m \<in> set (?at k)" for m k
  proof -
    consider (both) a b where "?L k = Some a" "?R k = Some b" "m = pair_winner a b \<or> m \<in> set (kept_extra k a b)"
      | (one) "?L k = Some m \<or> ?R k = Some m"
      using \<open>m \<in> set (?at k)\<close> by (auto simp: records_at_def[of _ _ _ _ k] split: option.splits)
    then show ?thesis
    proof cases
      case both
      then have "record_ok a" "record_ok b" using rec by (auto simp: map_of_normal)
      then show ?thesis using both(3) extra by (auto simp: pair_winner_def split: if_splits)
    qed (use rec in \<open>auto simp: map_of_normal\<close>)
  qed
  have snap: "new_snapshot i d t ?merged = Inr \<lparr>sn_snapshot_id = trim i, sn_device_id = trim d,
      sn_created_at = t, sn_records = ?merged\<rparr>"
    using assms(4,5) good by (auto simp: new_snapshot_ok)
  have dom: "key_of_record x \<in> set ?ks" if "x \<in> set (normal_form l) \<union> set (normal_form r)" for x
    using that winners_subset by (auto simp: set_merge_domain normal_form_def)
  have kept: "\<exists>m \<in> set ?merged. sr_collection m = sr_collection x \<and> sr_payload m = sr_payload x
      \<and> \<not> sr_deleted m \<and> sr_record_id m \<in> {sr_record_id x, conflict_copy_id x}"
    if x: "x \<in> set (normal_form l) \<union> set (normal_form r)" and live: "\<not> sr_deleted x" for x
  proof -
    let ?k = "key_of_record x"
    have one: "?L ?k = Some x \<or> ?R ?k = Some x" using x by (auto simp: map_of_normal)
    have "\<exists>m \<in> set (?at ?k). sr_collection m = sr_collection x \<and> sr_payload m = sr_payload x
      \<and> \<not> sr_deleted m \<and> sr_record_id m \<in> {sr_record_id x, conflict_copy_id x}"
    proof (cases "\<exists>a b. ?L ?k = Some a \<and> ?R ?k = Some b")
      case True
      then obtain a b where ab: "?L ?k = Some a" "?R ?k = Some b" by blast
      moreover from ab one have "x = a \<or> x = b" by auto
      ultimately have "key_of_record a = key_of_record b" "x = a \<or> x = b" by (auto simp: map_of_normal)
      from pair_kept[OF this(2,1) live, of ?k] show ?thesis by (simp add: records_at_def[of _ _ _ _ ?k] ab)
    next
      case False
      then have "?at ?k = [x]" using one by (auto simp: records_at_def[of _ _ _ _ ?k] split: option.splits)
      then show ?thesis using live by simp
    qed
    then show ?thesis using dom[OF x] by auto
  qed
  have "set (winners (sn_records l @ sn_records r)) \<subseteq> set ?merged"
  proof -
    have "set (records_at pair_winner (\<lambda>k l r. []) ?L ?R k) \<subseteq> set (?at k)" for k
      by (auto simp: records_at_def[of _ _ _ _ k] split: option.splits)
    then show ?thesis
      unfolding merged_records[of "sn_records l" "sn_records r", folded normal_form_def, symmetric] by fastforce
  qed
  with kept show ?thesis
    unfolding merge_with_policy_unfold[OF ok] keys by (simp add: snap)
qed

theorem keep_both_loses_nothing_witness:
  "\<exists>res. merge_snapshots_with_policy (sample_snapshot ''d'' [sample_record ''a'' ''x'' 1 1])
      (sample_snapshot ''d'' [sample_record ''a'' ''x'' 1 2]) (lit ''m'') (lit ''d'') 3
      \<lparr>mp_conflict_policy = KeepBoth, mp_device_priority = []\<rparr> = Inr res
    \<and> (\<exists>m \<in> set (sn_records (mr_snapshot res)). sr_payload m = lit ''p'')"
proof -
  let ?p = "\<lparr>mp_conflict_policy = KeepBoth, mp_device_priority = []\<rparr>"
  have names: "\<not> blank (lit ''m'')" "\<not> blank (lit ''d'')" by (simp_all add: blank_iff is_whitespace_def)
  show ?thesis
    using keep_both_loses_nothing[OF sample_valid sample_valid, where policy = ?p, OF _ names, of 1 1 1 2 3]
    by (auto simp: sample_simps simp del: lit_simps)
qed

end
