(* ===== verification/SyncJournal.thy ===== *)
theory SyncJournal
  imports SyncTypes
begin

text \<open>
  The journal of pending local changes (\<open>SyncJournal\<close> and \<open>SyncJournalSnapshot\<close> of
  \<open>crates/reader-sync/src/lib.rs\<close>). A method is a function from the journal to its result and
  the next journal. The counters are 64-bit and wrap; the claims are about runs of fewer than
  \<open>2 ^ 64 - 1\<close> operations, in which they do not.
\<close>

subsection \<open>Data\<close>

datatype journal_entry_status = Pending | Acknowledged

record journal_entry =
  je_sequence :: u64
  je_record :: sync_record
  je_status :: journal_entry_status
  je_queued_at :: int
  je_acknowledged_at :: "int option"

definition entry_key :: "journal_entry \<Rightarrow> sync_record_key" where
  "entry_key e = key_of_record (je_record e)"

record journal_snapshot =
  js_schema_version :: u32
  js_device_id :: ustr
  js_next_sequence :: u64
  js_next_revision :: u64
  js_entries :: "journal_entry list"

record sync_journal =
  jn_device_id :: ustr
  jn_next_sequence :: u64
  jn_next_revision :: u64
  jn_entries :: "(sync_record_key, journal_entry) smap"

definition journal_schema_version :: u32 where
  "journal_schema_version = 1"

subsection \<open>Validation\<close>

definition validate_journal_entry :: "journal_entry \<Rightarrow> ustr \<Rightarrow> unit sync_result" where
  "validate_journal_entry e device_id = checks [
     ensure (je_sequence e \<noteq> 0) (InvalidJournal ''entries.sequence''),
     validate_record (je_record e),
     ensure (sr_device_id (je_record e) = device_id) (InvalidJournal ''entries.record.device_id''),
     (case je_status e of
        Pending \<Rightarrow> ensure (je_acknowledged_at e = None) (InvalidJournal ''entries.acknowledged_at'')
      | Acknowledged \<Rightarrow> ensure (je_acknowledged_at e \<noteq> None) (InvalidJournal ''entries.acknowledged_at''))]"

fun scan_entries ::
    "ustr \<Rightarrow> sync_record_key list \<Rightarrow> u64 \<Rightarrow> u64 \<Rightarrow> journal_entry list \<Rightarrow> (u64 \<times> u64) sync_result" where
  \<comment> \<open>the loop of \<open>validate\<close>: the keys seen so far and the greatest sequence and revision\<close>
  "scan_entries device_id seen max_sequence max_revision [] = Inr (max_sequence, max_revision)"
| "scan_entries device_id seen max_sequence max_revision (e # es) =
     and_then (validate_journal_entry e device_id) (\<lambda>_.
       if entry_key e \<in> set seen then Inl (InvalidJournal ''entries'')
       else scan_entries device_id (entry_key e # seen) (max max_sequence (je_sequence e))
              (max max_revision (sr_revision (je_record e))) es)"

definition validate_journal_snapshot :: "journal_snapshot \<Rightarrow> unit sync_result" where
  "validate_journal_snapshot s =
     (if js_schema_version s \<noteq> journal_schema_version then Inl (InvalidJournal ''schema_version'') else
      and_then (normalize_required (js_device_id s) ''device_id'') (\<lambda>device_id.
      if js_next_sequence s = 0 then Inl (InvalidJournal ''next_sequence'')
      else if js_next_revision s = 0 then Inl (InvalidJournal ''next_revision'')
      else and_then (scan_entries device_id [] 0 0 (js_entries s)) (\<lambda>(max_sequence, max_revision).
        if js_next_sequence s \<le> max_sequence then Inl (InvalidJournal ''next_sequence'')
        else if js_next_revision s \<le> max_revision then Inl (InvalidJournal ''next_revision'')
        else Inr ())))"

subsection \<open>Operations\<close>

definition journal_new :: "ustr \<Rightarrow> sync_journal sync_result" where
  "journal_new device_id = and_then (normalize_required device_id ''device_id'') (\<lambda>d.
     Inr \<lparr>jn_device_id = d, jn_next_sequence = 1, jn_next_revision = 1, jn_entries = []\<rparr>)"

definition journal_from_snapshot :: "journal_snapshot \<Rightarrow> sync_journal sync_result" where
  "journal_from_snapshot s = and_then (validate_journal_snapshot s) (\<lambda>_.
     Inr \<lparr>jn_device_id = js_device_id s, jn_next_sequence = js_next_sequence s,
          jn_next_revision = js_next_revision s,
          jn_entries = fold (\<lambda>e. sm_insert (entry_key e) e) (js_entries s) []\<rparr>)"

definition journal_export :: "sync_journal \<Rightarrow> journal_snapshot sync_result" where
  "journal_export j =
     (let s = \<lparr>js_schema_version = journal_schema_version, js_device_id = jn_device_id j,
        js_next_sequence = jn_next_sequence j, js_next_revision = jn_next_revision j,
        js_entries = sm_values (jn_entries j)\<rparr>
      in and_then (validate_journal_snapshot s) (\<lambda>_. Inr s))"

definition take_sequence :: "sync_journal \<Rightarrow> u64 \<times> sync_journal" where
  "take_sequence j = (jn_next_sequence j, j\<lparr>jn_next_sequence := jn_next_sequence j + 1\<rparr>)"

definition record_change :: "sync_record \<Rightarrow> int \<Rightarrow> sync_journal \<Rightarrow> journal_entry sync_result \<times> sync_journal" where
  "record_change r queued_at j =
     (if sr_device_id r \<noteq> jn_device_id j then (Inl (InvalidJournal ''record.device_id''), j) else
      let (sequence, j1) = take_sequence j;
          e = \<lparr>je_sequence = sequence, je_record = r, je_status = Pending, je_queued_at = queued_at,
               je_acknowledged_at = None\<rparr>
      in case validate_journal_entry e (jn_device_id j1) of
           Inl err \<Rightarrow> (Inl err, j1)
         | Inr _ \<Rightarrow> (Inr e, j1\<lparr>jn_entries := sm_insert (entry_key e) e (jn_entries j1)\<rparr>))"

definition record_built :: "sync_record sync_result \<Rightarrow> int \<Rightarrow> sync_journal \<Rightarrow> journal_entry sync_result \<times> sync_journal" where
  \<comment> \<open>the common tail of \<open>record_upsert\<close> and \<open>record_tombstone\<close>\<close>
  "record_built built queued_at j = (case built of
     Inl err \<Rightarrow> (Inl err, j)
   | Inr r \<Rightarrow> record_change r queued_at (j\<lparr>jn_next_revision := jn_next_revision j + 1\<rparr>))"

definition record_upsert ::
    "sync_collection \<Rightarrow> ustr \<Rightarrow> ustr \<Rightarrow> int \<Rightarrow> int \<Rightarrow> sync_journal \<Rightarrow> journal_entry sync_result \<times> sync_journal" where
  "record_upsert collection record_id payload updated_at queued_at j =
     record_built (upsert_record collection record_id payload updated_at (jn_device_id j) (jn_next_revision j))
       queued_at j"

definition record_tombstone ::
    "sync_collection \<Rightarrow> ustr \<Rightarrow> int \<Rightarrow> int \<Rightarrow> sync_journal \<Rightarrow> journal_entry sync_result \<times> sync_journal" where
  "record_tombstone collection record_id updated_at queued_at j =
     record_built (tombstone_record collection record_id updated_at (jn_device_id j) (jn_next_revision j))
       queued_at j"

definition pending_records :: "sync_journal \<Rightarrow> sync_record list" where
  "pending_records j = map je_record (filter (\<lambda>e. je_status e = Pending) (sm_values (jn_entries j)))"

definition pending_package :: "ustr \<Rightarrow> int \<Rightarrow> sync_journal \<Rightarrow> sync_package sync_result" where
  "pending_package snapshot_id created_at j =
     and_then (new_snapshot snapshot_id (jn_device_id j) created_at (pending_records j)) new_package"

definition acknowledge_entry :: "int \<Rightarrow> journal_entry \<Rightarrow> journal_entry" where
  "acknowledge_entry acked_at e = e\<lparr>je_status := Acknowledged, je_acknowledged_at := Some acked_at\<rparr>"

fun acknowledge_records ::
    "int \<Rightarrow> sync_record list \<Rightarrow> (sync_record_key, journal_entry) smap
     \<Rightarrow> nat \<times> (sync_record_key, journal_entry) smap" where
  "acknowledge_records acked_at [] m = (0, m)"
| "acknowledge_records acked_at (r # rs) m = (case map_of m (key_of_record r) of
     None \<Rightarrow> acknowledge_records acked_at rs m
   | Some e \<Rightarrow> if je_status e = Pending \<and> je_record e = r
       then (let (n, m') = acknowledge_records acked_at rs (sm_modify (key_of_record r) (acknowledge_entry acked_at) m)
             in (n + 1, m'))
       else acknowledge_records acked_at rs m)"

definition acknowledge_package :: "sync_package \<Rightarrow> int \<Rightarrow> sync_journal \<Rightarrow> nat sync_result \<times> sync_journal" where
  "acknowledge_package p acked_at j = (case and_then (validate_package p) (\<lambda>_. normalized_records (sp_snapshot p)) of
     Inl err \<Rightarrow> (Inl err, j)
   | Inr rs \<Rightarrow> (let (n, m) = acknowledge_records acked_at rs (jn_entries j) in (Inr n, j\<lparr>jn_entries := m\<rparr>)))"

definition journal_entries :: "sync_journal \<Rightarrow> journal_entry list" where
  "journal_entries j = sm_values (jn_entries j)"

subsection \<open>Runs\<close>

datatype journal_op =
    Upsert sync_collection ustr ustr int int
  | Tombstone sync_collection ustr int int
  | Acknowledge sync_package int

fun journal_step :: "journal_op \<Rightarrow> sync_journal \<Rightarrow> sync_journal" where
  "journal_step (Upsert c i p t q) j = snd (record_upsert c i p t q j)"
| "journal_step (Tombstone c i t q) j = snd (record_tombstone c i t q j)"
| "journal_step (Acknowledge p acked_at) j = snd (acknowledge_package p acked_at j)"

definition journal_run :: "journal_op list \<Rightarrow> sync_journal \<Rightarrow> sync_journal" where
  "journal_run ops j = fold journal_step ops j"

subsection \<open>The invariant\<close>

definition entry_ok :: "ustr \<Rightarrow> u64 \<Rightarrow> u64 \<Rightarrow> journal_entry \<Rightarrow> bool" where
  "entry_ok d seq revision e = (validate_journal_entry e d = Inr () \<and> je_sequence e < seq \<and> sr_revision (je_record e) < revision)"

definition journal_ok :: "nat \<Rightarrow> sync_journal \<Rightarrow> bool" where
  \<comment> \<open>\<open>n\<close> bounds the number of changes so far\<close>
  "journal_ok n j = (trim (jn_device_id j) = jn_device_id j \<and> jn_device_id j \<noteq> []
     \<and> 0 < unat (jn_next_sequence j) \<and> unat (jn_next_sequence j) \<le> Suc n
     \<and> 0 < unat (jn_next_revision j) \<and> unat (jn_next_revision j) \<le> Suc n
     \<and> sm_keyed entry_key (jn_entries j)
     \<and> (\<forall>e \<in> set (sm_values (jn_entries j)). entry_ok (jn_device_id j) (jn_next_sequence j) (jn_next_revision j) e))"

lemma unat_succ_u64: "unat (w :: u64) + 1 < 2 ^ 64 \<Longrightarrow> unat (w + 1) = unat w + 1"
  by (simp add: unat_word_ariths)

lemma less_succ_u64: "unat (w :: u64) + 1 < 2 ^ 64 \<Longrightarrow> w < w + 1"
  by (simp add: word_less_nat_alt unat_succ_u64)

lemma entry_ok_mono: "entry_ok d seq revision e \<Longrightarrow> seq \<le> seq' \<Longrightarrow> revision \<le> revision' \<Longrightarrow> entry_ok d seq' revision' e"
  by (auto simp: entry_ok_def)

lemma validate_entry_ok:
  "validate_journal_entry e d = Inr u \<longleftrightarrow> je_sequence e \<noteq> 0 \<and> record_ok (je_record e)
     \<and> sr_device_id (je_record e) = d \<and> (je_status e = Pending \<longleftrightarrow> je_acknowledged_at e = None)"
  by (cases "je_status e") (auto simp: validate_journal_entry_def validate_record_ok)

lemma trim_nonempty: "trim d = d \<Longrightarrow> d \<noteq> [] \<Longrightarrow> \<not> blank d"
  by (simp add: blank_def)

lemma set_values_insert: "set (sm_values (sm_insert k v m)) \<subseteq> insert v (set (sm_values m))"
  using set_sm_insert[of k v m] by (auto simp: sm_values_def)

lemma built_shape:
  assumes "upsert_record c i p t d n = Inr r \<or> tombstone_record c i t d n = Inr r" and "trim d = d"
  shows "record_ok r \<and> sr_device_id r = d \<and> sr_revision r = n"
  using assms not_blank_trim[of i]
  by (auto simp: upsert_record_def tombstone_record_def build_record_ok record_ok_def split: if_splits)

lemma record_built_step:
  assumes ok: "journal_ok n j" and n: "n + 2 < 2 ^ 64"
    and r: "record_ok r" "sr_device_id r = jn_device_id j" "sr_revision r = jn_next_revision j"
  shows "record_built (Inr r) q j = (Inr \<lparr>je_sequence = jn_next_sequence j, je_record = r, je_status = Pending,
      je_queued_at = q, je_acknowledged_at = None\<rparr>,
    j\<lparr>jn_next_revision := jn_next_revision j + 1, jn_next_sequence := jn_next_sequence j + 1,
      jn_entries := sm_insert (key_of_record r) \<lparr>je_sequence = jn_next_sequence j, je_record = r, je_status = Pending,
      je_queued_at = q, je_acknowledged_at = None\<rparr> (jn_entries j)\<rparr>)"
proof -
  let ?e = "\<lparr>je_sequence = jn_next_sequence j, je_record = r, je_status = Pending, je_queued_at = q, je_acknowledged_at = None\<rparr>"
  have "jn_next_sequence j \<noteq> 0" using ok by (auto simp: journal_ok_def)
  then have v: "validate_journal_entry ?e (jn_device_id j) = Inr ()" using r by (simp add: validate_entry_ok)
  then show ?thesis using r by (simp add: record_built_def record_change_def take_sequence_def entry_key_def Let_def)
qed

lemma record_built_ok:
  assumes ok: "journal_ok n j" and n: "n + 2 < 2 ^ 64"
    and r: "record_ok r" "sr_device_id r = jn_device_id j" "sr_revision r = jn_next_revision j"
  shows "journal_ok (Suc n) (snd (record_built (Inr r) q j))"
proof -
  have b: "unat (jn_next_sequence j) + 1 < 2 ^ 64" "unat (jn_next_revision j) + 1 < 2 ^ 64"
    using ok n by (auto simp: journal_ok_def)
  note less = less_succ_u64[OF b(1)] less_succ_u64[OF b(2)]
  let ?e = "\<lparr>je_sequence = jn_next_sequence j, je_record = r, je_status = Pending, je_queued_at = q, je_acknowledged_at = None\<rparr>"
  let ?m = "sm_insert (key_of_record r) ?e (jn_entries j)"
  have new: "entry_ok (jn_device_id j) (jn_next_sequence j + 1) (jn_next_revision j + 1) ?e"
    using r ok less by (auto simp: entry_ok_def validate_entry_ok journal_ok_def)
  have old: "entry_ok (jn_device_id j) (jn_next_sequence j + 1) (jn_next_revision j + 1) e"
    if "e \<in> set (sm_values (jn_entries j))" for e
    using that ok less by (auto simp: journal_ok_def intro: entry_ok_mono[OF _ order_less_imp_le order_less_imp_le])
  have entries: "\<forall>e \<in> set (sm_values ?m). entry_ok (jn_device_id j) (jn_next_sequence j + 1) (jn_next_revision j + 1) e"
    using new old set_values_insert[of "key_of_record r" ?e "jn_entries j"] by blast
  have keyed: "sm_keyed entry_key ?m"
    using sm_keyed_insert[of entry_key "jn_entries j" ?e] ok by (simp add: entry_key_def journal_ok_def)
  show ?thesis
    unfolding record_built_step[OF assms] using ok entries keyed unat_succ_u64[OF b(1)] unat_succ_u64[OF b(2)]
    by (simp add: journal_ok_def)
qed

lemma acknowledge_records_ok:
  assumes "sm_keyed entry_key m" and "\<forall>e \<in> set (sm_values m). entry_ok d s r e"
  shows "sm_keyed entry_key (snd (acknowledge_records acked_at rs m))
    \<and> (\<forall>e \<in> set (sm_values (snd (acknowledge_records acked_at rs m))). entry_ok d s r e)"
  using assms
proof (induction acked_at rs m rule: acknowledge_records.induct)
  case (2 acked_at x rs m)
  let ?m = "sm_modify (key_of_record x) (acknowledge_entry acked_at) m"
  have key: "entry_key (acknowledge_entry acked_at e) = entry_key e" for e
    by (simp add: entry_key_def acknowledge_entry_def)
  have eok: "entry_ok d s r (acknowledge_entry acked_at e)" if "entry_ok d s r e" for e
    using that by (simp add: entry_ok_def validate_entry_ok acknowledge_entry_def)
  have "sm_keyed entry_key ?m" using 2(4) by (simp add: sm_keyed_modify key)
  moreover have "\<forall>e \<in> set (sm_values ?m). entry_ok d s r e"
    using 2(5) eok by (auto simp: sm_values_def sm_modify_def)
  ultimately show ?case using 2 by (auto simp: split_beta split: option.split)
qed simp

lemma journal_step_ok: "journal_ok n j \<Longrightarrow> n + 2 < 2 ^ 64 \<Longrightarrow> journal_ok (Suc n) (journal_step x j)"
proof -
  assume ok: "journal_ok n j" and n: "n + 2 < 2 ^ 64"
  have weak: "journal_ok (Suc n) j" using ok by (simp add: journal_ok_def)
  have d: "trim (jn_device_id j) = jn_device_id j" using ok by (simp add: journal_ok_def)
  have built: "journal_ok (Suc n) (snd (record_built b q j))"
    if "\<And>r. b = Inr r \<Longrightarrow> record_ok r \<and> sr_device_id r = jn_device_id j \<and> sr_revision r = jn_next_revision j" for b q
  proof (cases b)
    case (Inl e) then show ?thesis using weak by (simp add: record_built_def)
  next
    case (Inr r) then show ?thesis using that record_built_ok[OF ok n] by blast
  qed
  show ?thesis
  proof (cases x)
    case (Upsert c i p t q)
    have "journal_ok (Suc n) (snd (record_upsert c i p t q j))"
      unfolding record_upsert_def by (rule built, rule built_shape[OF _ d]) blast
    then show ?thesis by (simp add: Upsert)
  next
    case (Tombstone c i t q)
    have "journal_ok (Suc n) (snd (record_tombstone c i t q j))"
      unfolding record_tombstone_def by (rule built, rule built_shape[OF _ d]) blast
    then show ?thesis by (simp add: Tombstone)
  next
    case (Acknowledge p acked_at)
    then show ?thesis
      using weak acknowledge_records_ok[of "jn_entries j" "jn_device_id j" "jn_next_sequence j" "jn_next_revision j" acked_at]
      by (auto simp: acknowledge_package_def journal_ok_def split_beta split: sum.split)
  qed
qed

lemma journal_run_ok: "journal_ok n j \<Longrightarrow> n + length ops + 1 < 2 ^ 64 \<Longrightarrow> journal_ok (n + length ops) (journal_run ops j)"
proof (induction ops arbitrary: n j)
  case (Cons x ops)
  have "journal_ok (Suc n) (journal_step x j)" using Cons.prems by (intro journal_step_ok) auto
  from Cons.IH[OF this] Cons.prems show ?case by (simp add: journal_run_def)
qed (simp add: journal_run_def)

lemma journal_new_ok: "journal_new d = Inr j \<Longrightarrow> journal_ok 0 j"
  by (auto simp: journal_new_def and_then_eq_Inr normalize_required_ok journal_ok_def sm_values_def blank_def)


lemma journal_ok_run:
  "journal_new d = Inr j0 \<Longrightarrow> length ops < 2 ^ 64 - 1 \<Longrightarrow> journal_ok (length ops) (journal_run ops j0)"
  using journal_run_ok[OF journal_new_ok, of d j0 ops] by simp

subsection \<open>Export and import\<close>

lemma scan_entries_ok:
  assumes "\<forall>e \<in> set es. entry_ok d s r e" and "distinct (map entry_key es)"
    and "set seen \<inter> entry_key ` set es = {}" and "a < s" and "b < r"
  shows "\<exists>a' b'. scan_entries d seen a b es = Inr (a', b') \<and> a' < s \<and> b' < r"
  using assms
proof (induction es arbitrary: seen a b)
  case (Cons e es)
  have e: "validate_journal_entry e d = Inr ()" "je_sequence e < s" "sr_revision (je_record e) < r"
    using Cons.prems(1) by (simp_all add: entry_ok_def)
  have "\<exists>a' b'. scan_entries d (entry_key e # seen) (max a (je_sequence e)) (max b (sr_revision (je_record e))) es
      = Inr (a', b') \<and> a' < s \<and> b' < r"
    using Cons.prems e by (intro Cons.IH) auto
  then show ?case using e Cons.prems(3) by simp
qed simp

lemma export_ok:
  assumes "journal_ok n j"
  shows "journal_export j = Inr \<lparr>js_schema_version = journal_schema_version, js_device_id = jn_device_id j,
        js_next_sequence = jn_next_sequence j, js_next_revision = jn_next_revision j,
        js_entries = sm_values (jn_entries j)\<rparr>"
proof -
  have keyed: "sm_keyed entry_key (jn_entries j)" using assms by (simp add: journal_ok_def)
  have "distinct (map entry_key (sm_values (jn_entries j)))"
    using sm_values_sorted[OF keyed] by (simp add: strict_sorted_iff)
  moreover have "0 < jn_next_sequence j" "0 < jn_next_revision j"
    using assms by (auto simp: journal_ok_def word_less_nat_alt)
  ultimately obtain a b where scan: "scan_entries (jn_device_id j) [] 0 0 (sm_values (jn_entries j)) = Inr (a, b)"
    and less: "a < jn_next_sequence j" "b < jn_next_revision j"
    using scan_entries_ok[of "sm_values (jn_entries j)" "jn_device_id j" "jn_next_sequence j" "jn_next_revision j" "[]" 0 0]
      assms by (auto simp: journal_ok_def)
  have dev: "normalize_required (jn_device_id j) ''device_id'' = Inr (jn_device_id j)"
    using assms by (simp add: journal_ok_def normalize_required_def)
  have nz: "jn_next_sequence j \<noteq> 0" "jn_next_revision j \<noteq> 0" using assms by (auto simp: journal_ok_def)
  show ?thesis
    using less nz by (simp add: journal_export_def validate_journal_snapshot_def dev scan Let_def not_le)
qed

text \<open>
  C30: A journal survives saving and loading. After any sequence of upserts, tombstones and
  acknowledgements on a fresh journal (fewer than \<open>2 ^ 64 - 1\<close> of them, failing ones included),
  the journal can be exported, and loading the export gives back exactly that journal, with its
  counters and all its entries.
\<close>

theorem journal_roundtrip:
  assumes "journal_new d = Inr j0" and "length ops < 2 ^ 64 - 1"
  shows "\<exists>s. journal_export (journal_run ops j0) = Inr s \<and> journal_from_snapshot s = Inr (journal_run ops j0)"
proof -
  let ?j = "journal_run ops j0"
  have ok: "journal_ok (length ops) ?j" by (rule journal_ok_run[OF assms])
  then have keyed: "sm_keyed entry_key (jn_entries ?j)" by (simp add: journal_ok_def)
  have "sorted_wrt (<) (map fst [] @ map entry_key (sm_values (jn_entries ?j)))"
    using sm_values_sorted[OF keyed] by simp
  from sm_insert_all_sorted[OF this]
  have "fold (\<lambda>e. sm_insert (entry_key e) e) (sm_values (jn_entries ?j)) [] = jn_entries ?j"
    by (simp add: sm_keyed_unzip[OF keyed])
  moreover have "validate_journal_snapshot \<lparr>js_schema_version = journal_schema_version, js_device_id = jn_device_id ?j,
        js_next_sequence = jn_next_sequence ?j, js_next_revision = jn_next_revision ?j,
        js_entries = sm_values (jn_entries ?j)\<rparr> = Inr ()"
    using export_ok[OF ok] by (auto simp: journal_export_def Let_def and_then_eq_Inr)
  ultimately show ?thesis
    by (simp add: export_ok[OF ok] journal_from_snapshot_def)
qed

theorem journal_roundtrip_witness:
  "\<exists>j0 s. journal_new (lit ''phone'') = Inr j0
    \<and> journal_export (journal_run [Upsert Bookshelf (lit ''b'') (lit ''p'') 1 1, Tombstone Bookshelf (lit ''b'') 2 2] j0) = Inr s
    \<and> journal_from_snapshot s = Inr (journal_run [Upsert Bookshelf (lit ''b'') (lit ''p'') 1 1, Tombstone Bookshelf (lit ''b'') 2 2] j0)"
proof -
  have "\<not> blank (lit ''phone'')" by (simp add: blank_iff is_whitespace_def)
  then obtain j0 where "journal_new (lit ''phone'') = Inr j0"
    by (auto simp: journal_new_def normalize_required_def blank_def Let_def simp del: lit_simps)
  with journal_roundtrip[OF this, of "[Upsert Bookshelf (lit ''b'') (lit ''p'') 1 1, Tombstone Bookshelf (lit ''b'') 2 2]"]
  show ?thesis by (simp del: lit_simps)
qed

subsection \<open>Acknowledgement\<close>

definition acknowledged_by :: "int \<Rightarrow> sync_record set \<Rightarrow> journal_entry \<Rightarrow> journal_entry" where
  "acknowledged_by acked_at R e =
     (if je_status e = Pending \<and> je_record e \<in> R then acknowledge_entry acked_at e else e)"

lemma acknowledge_records_map:
  "sm_keyed entry_key m \<Longrightarrow>
     snd (acknowledge_records acked_at rs m) = map (\<lambda>(k, e). (k, acknowledged_by acked_at (set rs) e)) m"
proof (induction acked_at rs m rule: acknowledge_records.induct)
  case (1 acked_at m)
  show ?case by (simp add: acknowledged_by_def case_prod_beta')
next
  case (2 acked_at r rs m)
  have inm: "k = key_of_record (je_record e) \<and> map_of m k = Some e" if "(k, e) \<in> set m" for k e
    using that 2(4) in_smap_iff[of m k e] by (auto simp: sm_keyed_def entry_key_def)
  show ?case
  proof (cases "\<exists>e. map_of m (key_of_record r) = Some e \<and> je_status e = Pending \<and> je_record e = r")
    case True
    then obtain e0 where e0: "map_of m (key_of_record r) = Some e0" "je_status e0 = Pending" "je_record e0 = r" by blast
    let ?m = "sm_modify (key_of_record r) (acknowledge_entry acked_at) m"
    have "sm_keyed entry_key ?m"
      using 2(4) by (rule sm_keyed_modify) (simp add: entry_key_def acknowledge_entry_def)
    with 2(2)[OF e0(1)] e0 have "snd (acknowledge_records acked_at (r # rs) m)
        = map (\<lambda>(k, e). (k, acknowledged_by acked_at (set rs) e)) ?m" by (simp add: split_beta)
    also have "\<dots> = map (\<lambda>(k, e). (k, acknowledged_by acked_at (set (r # rs)) e)) m"
    proof -
      have each: "acknowledged_by acked_at (set rs) (if k = key_of_record r then acknowledge_entry acked_at e else e)
          = acknowledged_by acked_at (set (r # rs)) e" if ke: "(k, e) \<in> set m" for k e
      proof (cases "k = key_of_record r")
        case True
        then have "e = e0" using inm[OF ke] e0(1) by (metis option.inject)
        then show ?thesis using True e0(2,3) by (simp add: acknowledged_by_def acknowledge_entry_def)
      next
        case False
        then have "je_record e \<noteq> r" using inm[OF ke] by blast
        then show ?thesis using False by (simp add: acknowledged_by_def)
      qed
      have "map (\<lambda>(k, e). (k, acknowledged_by acked_at (set rs) e)) ?m
          = map (\<lambda>(k, e). (k, acknowledged_by acked_at (set rs) (if k = key_of_record r then acknowledge_entry acked_at e else e))) m"
        by (simp add: sm_modify_def) (simp add: case_prod_beta')
      also have "\<dots> = map (\<lambda>(k, e). (k, acknowledged_by acked_at (set (r # rs)) e)) m"
      proof (rule map_cong[OF refl])
        show "(case p of (k, e) \<Rightarrow> (k, acknowledged_by acked_at (set rs) (if k = key_of_record r then acknowledge_entry acked_at e else e)))
            = (case p of (k, e) \<Rightarrow> (k, acknowledged_by acked_at (set (r # rs)) e))" if "p \<in> set m" for p
          using each[of "fst p" "snd p"] that by (simp add: case_prod_beta)
      qed
      finally show ?thesis .
    qed
    finally show ?thesis .
  next
    case False
    then have "snd (acknowledge_records acked_at (r # rs) m) = snd (acknowledge_records acked_at rs m)"
      by (auto split: option.split)
    also have "\<dots> = map (\<lambda>(k, e). (k, acknowledged_by acked_at (set rs) e)) m"
      using 2 False by (cases "map_of m (key_of_record r)") auto
    also have "\<dots> = map (\<lambda>(k, e). (k, acknowledged_by acked_at (set (r # rs)) e)) m"
    proof -
      have "acknowledged_by acked_at (set rs) e = acknowledged_by acked_at (set (r # rs)) e" if "(k, e) \<in> set m" for k e
        using inm[OF that] False by (auto simp: acknowledged_by_def)
      then show ?thesis by auto
    qed
    finally show ?thesis .
  qed
qed

lemma modify_pending_count:
  "hm_ok m \<Longrightarrow> map_of m k = Some e \<Longrightarrow> P e \<Longrightarrow> \<not> P (f e) \<Longrightarrow>
     Suc (length (filter P (sm_values (sm_modify k f m)))) = length (filter P (sm_values m))"
proof (induction m)
  case (Cons p m)
  obtain k' e' where p: "p = (k', e')" by (cases p)
  show ?case
  proof (cases "k' = k")
    case True
    then have "map (\<lambda>(k', v). if k' = k then (k', f v) else (k', v)) m = m"
      using Cons.prems(1) p by (intro map_idI) (force simp: hm_ok_def)
    then show ?thesis using True Cons.prems p by (simp add: sm_values_def sm_modify_def)
  next
    case False
    then show ?thesis using Cons p by (simp add: sm_values_def sm_modify_def hm_ok_def)
  qed
qed simp

lemma acknowledge_records_count:
  "sm_keyed entry_key m \<Longrightarrow>
     fst (acknowledge_records acked_at rs m)
       + length (filter (\<lambda>e. je_status e = Pending) (sm_values (snd (acknowledge_records acked_at rs m))))
     = length (filter (\<lambda>e. je_status e = Pending) (sm_values m))"
proof (induction acked_at rs m rule: acknowledge_records.induct)
  case (2 acked_at r rs m)
  let ?m = "sm_modify (key_of_record r) (acknowledge_entry acked_at) m"
  have "sm_keyed entry_key ?m"
    using 2(4) by (rule sm_keyed_modify) (simp add: entry_key_def acknowledge_entry_def)
  moreover have "hm_ok m" using 2(4) by (simp add: sm_keyed_ok sm_ok_hm_ok)
  ultimately show ?case
    using 2 modify_pending_count[of m "key_of_record r" _ "\<lambda>e. je_status e = Pending" "acknowledge_entry acked_at"]
    by (auto simp: split_beta acknowledge_entry_def split: option.split)
qed simp


lemma acknowledged_pending:
  assumes "sm_keyed entry_key m"
  shows "map je_record (filter (\<lambda>e. je_status e = Pending) (sm_values (snd (acknowledge_records acked_at rs m))))
    = filter (\<lambda>r. r \<notin> set rs) (map je_record (filter (\<lambda>e. je_status e = Pending) (sm_values m)))"
proof -
  have "map je_record (filter (\<lambda>e. je_status e = Pending) (map (acknowledged_by acked_at R) es))
      = filter (\<lambda>r. r \<notin> R) (map je_record (filter (\<lambda>e. je_status e = Pending) es))" for R es
    by (induction es) (auto simp: acknowledged_by_def acknowledge_entry_def)
  moreover have "sm_values (snd (acknowledge_records acked_at rs m)) = map (acknowledged_by acked_at (set rs)) (sm_values m)"
    unfolding acknowledge_records_map[OF assms] by (auto simp: sm_values_def)
  ultimately show ?thesis by simp
qed

definition is_change :: "journal_op \<Rightarrow> bool" where
  "is_change x = (\<forall>p acked_at. x \<noteq> Acknowledge p acked_at)"

definition changed_since :: "sync_journal \<Rightarrow> sync_journal \<Rightarrow> bool" where
  "changed_since j j' = (jn_next_revision j \<le> jn_next_revision j'
     \<and> (\<forall>e \<in> set (sm_values (jn_entries j')). e \<in> set (sm_values (jn_entries j))
          \<or> jn_next_revision j \<le> sr_revision (je_record e)))"

lemma changed_since_built:
  assumes ok: "journal_ok n j'" and n: "n + 2 < 2 ^ 64" and since: "changed_since j j'"
    and b: "\<And>r. b = Inr r \<Longrightarrow> record_ok r \<and> sr_device_id r = jn_device_id j' \<and> sr_revision r = jn_next_revision j'"
  shows "changed_since j (snd (record_built b q j'))"
proof (cases b)
  case (Inl e) then show ?thesis using since by (simp add: record_built_def)
next
  case (Inr r)
  have r: "record_ok r" "sr_device_id r = jn_device_id j'" "sr_revision r = jn_next_revision j'" using b[OF Inr] by auto
  have "jn_next_revision j' \<le> jn_next_revision j' + 1"
    using ok n by (intro order_less_imp_le less_succ_u64) (auto simp: journal_ok_def)
  then show ?thesis
    unfolding Inr record_built_step[OF ok n r] using since r(3) set_values_insert
    by (fastforce simp: changed_since_def)
qed

lemma changed_since_step:
  assumes ok: "journal_ok n j'" and n: "n + 2 < 2 ^ 64" and since: "changed_since j j'" and x: "is_change x"
  shows "changed_since j (journal_step x j')"
proof (cases x)
  have d: "trim (jn_device_id j') = jn_device_id j'" using ok by (simp add: journal_ok_def)
  {
    case (Upsert c i p t q)
    have "changed_since j (snd (record_upsert c i p t q j'))"
      unfolding record_upsert_def by (rule changed_since_built[OF ok n since], rule built_shape[OF _ d]) blast
    then show ?thesis by (simp add: Upsert)
  next
    case (Tombstone c i t q)
    have "changed_since j (snd (record_tombstone c i t q j'))"
      unfolding record_tombstone_def by (rule changed_since_built[OF ok n since], rule built_shape[OF _ d]) blast
    then show ?thesis by (simp add: Tombstone)
  next
    case (Acknowledge p acked_at) then show ?thesis using x by (simp add: is_change_def)
  }
qed

lemma changed_since_run:
  "journal_ok n j' \<Longrightarrow> n + length ops + 1 < 2 ^ 64 \<Longrightarrow> changed_since j j' \<Longrightarrow> \<forall>x \<in> set ops. is_change x
     \<Longrightarrow> changed_since j (journal_run ops j')"
proof (induction ops arbitrary: n j')
  case (Cons x ops)
  have n: "n + 2 < 2 ^ 64" using Cons.prems(2) by simp
  have "journal_ok (Suc n) (journal_step x j')" by (rule journal_step_ok[OF Cons.prems(1) n])
  moreover have "changed_since j (journal_step x j')"
    using Cons.prems by (intro changed_since_step[OF _ n]) auto
  ultimately have "changed_since j (journal_run ops (journal_step x j'))"
    using Cons.prems by (intro Cons.IH[of "Suc n"]) auto
  then show ?case by (simp add: journal_run_def)
qed (simp add: journal_run_def)

lemma pending_sorted:
  assumes "sm_keyed entry_key (jn_entries j)"
  shows "sorted_wrt (<) (map key_of_record (pending_records j))"
proof -
  have "sorted_wrt (<) (map entry_key (filter (\<lambda>e. je_status e = Pending) (sm_values (jn_entries j))))"
    using sm_values_sorted[OF assms] unfolding sorted_wrt_map by (rule sorted_wrt_filter)
  then show ?thesis by (simp add: pending_records_def comp_def entry_key_def[abs_def])
qed

lemma pending_package_records:
  assumes ok: "journal_ok n j" and p: "pending_package sid t j = Inr p"
  shows "validate_package p = Inr () \<and> normalized_records (sp_snapshot p) = Inr (pending_records j)"
proof -
  have "winners (pending_records j) = pending_records j"
    using ok pending_sorted[of j] by (simp add: winners_def journal_ok_def lww.best_of_distinct)
  with p show ?thesis
    by (auto simp: pending_package_def and_then_eq_Inr new_snapshot_ok new_package_ok validate_package_def
        validate_sync_snapshot_ok normalized_records_ok snapshot_ok_def not_blank_trim)
qed

text \<open>
  C8: Acknowledging a package never clears a change made after the package was taken. Take the
  pending package of a journal, let any local changes happen while it is being sent, and
  acknowledge it: exactly the changes made since are still pending (they are the pending records
  whose revision is at least the revision counter at the time of the package), and the reported
  number is the number of entries that stopped being pending.
\<close>

theorem acknowledge_keeps_newer:
  assumes "journal_new d = Inr j0" and "length ops + length changes < 2 ^ 64 - 1"
    and "\<forall>x \<in> set changes. is_change x"
    and "pending_package sid t (journal_run ops j0) = Inr p"
    and "acknowledge_package p acked_at (journal_run (ops @ changes) j0) = (res, j2)"
  shows "(\<exists>n. res = Inr n
      \<and> n + length (pending_records j2) = length (pending_records (journal_run (ops @ changes) j0)))
    \<and> pending_records j2 = filter (\<lambda>r. jn_next_revision (journal_run ops j0) \<le> sr_revision r)
        (pending_records (journal_run (ops @ changes) j0))"
proof -
  let ?j = "journal_run ops j0" and ?j1 = "journal_run (ops @ changes) j0"
  have j1: "?j1 = journal_run changes ?j" by (simp add: journal_run_def)
  have ok: "journal_ok (length ops) ?j" using assms(1,2) by (intro journal_ok_run) auto
  have "journal_ok (length (ops @ changes)) ?j1" using assms(1,2) by (intro journal_ok_run) auto
  then have keyed: "sm_keyed entry_key (jn_entries ?j1)" by (simp add: journal_ok_def)
  have since: "changed_since ?j ?j1"
    unfolding j1 using assms(2,3) by (intro changed_since_run[OF ok]) (auto simp: changed_since_def)
  have pk: "validate_package p = Inr ()" "normalized_records (sp_snapshot p) = Inr (pending_records ?j)"
    using pending_package_records[OF ok assms(4)] by auto
  let ?rs = "pending_records ?j"
  have res: "res = Inr (fst (acknowledge_records acked_at ?rs (jn_entries ?j1)))"
    and j2: "jn_entries j2 = snd (acknowledge_records acked_at ?rs (jn_entries ?j1))"
    using assms(5) pk by (auto simp: acknowledge_package_def split_beta)
  have old: "sr_revision r < jn_next_revision ?j" if "r \<in> set ?rs" for r
    using that ok by (auto simp: pending_records_def journal_ok_def entry_ok_def)
  have new: "r \<in> set ?rs \<or> jn_next_revision ?j \<le> sr_revision r" if "r \<in> set (pending_records ?j1)" for r
    using that since by (auto simp: pending_records_def changed_since_def)
  have "pending_records j2 = filter (\<lambda>r. r \<notin> set ?rs) (pending_records ?j1)"
    using acknowledged_pending[OF keyed, of acked_at ?rs] by (simp add: pending_records_def[of j2] pending_records_def[of ?j1] j2)
  also have "\<dots> = filter (\<lambda>r. jn_next_revision ?j \<le> sr_revision r) (pending_records ?j1)"
    using old new by (intro filter_cong refl) (meson not_le)
  finally have pend: "pending_records j2 = filter (\<lambda>r. jn_next_revision ?j \<le> sr_revision r) (pending_records ?j1)" .
  have "fst (acknowledge_records acked_at ?rs (jn_entries ?j1)) + length (pending_records j2) = length (pending_records ?j1)"
    using acknowledge_records_count[OF keyed, of acked_at ?rs]
    by (simp add: pending_records_def[of j2] pending_records_def[of ?j1] j2)
  with res pend show ?thesis by blast
qed

theorem acknowledge_keeps_newer_witness:
  "\<exists>j0 p n j2. journal_new (lit ''phone'') = Inr j0
    \<and> pending_package (lit ''s'') 5 (journal_run [Upsert Bookshelf (lit ''b'') (lit ''p'') 1 1] j0) = Inr p
    \<and> acknowledge_package p 9 (journal_run ([Upsert Bookshelf (lit ''b'') (lit ''p'') 1 1] @ [Tombstone Bookshelf (lit ''b'') 2 2]) j0) = (Inr n, j2)
    \<and> pending_records j2 = filter (\<lambda>r. jn_next_revision (journal_run [Upsert Bookshelf (lit ''b'') (lit ''p'') 1 1] j0) \<le> sr_revision r)
        (pending_records (journal_run ([Upsert Bookshelf (lit ''b'') (lit ''p'') 1 1] @ [Tombstone Bookshelf (lit ''b'') 2 2]) j0))"
proof -
  let ?ops = "[Upsert Bookshelf (lit ''b'') (lit ''p'') 1 1]" and ?changes = "[Tombstone Bookshelf (lit ''b'') 2 2]"
  have names: "\<not> blank (lit ''phone'')" "\<not> blank (lit ''s'')" by (simp_all add: blank_iff is_whitespace_def)
  then obtain j0 where j0: "journal_new (lit ''phone'') = Inr j0"
    by (auto simp: journal_new_def normalize_required_def blank_def Let_def simp del: lit_simps)
  let ?j = "journal_run ?ops j0"
  have ok: "journal_ok (length ?ops) ?j" by (rule journal_ok_run[OF j0]) simp
  then have "\<forall>r \<in> set (pending_records ?j). record_ok r" "\<not> blank (jn_device_id ?j)"
    by (auto simp: pending_records_def journal_ok_def entry_ok_def validate_entry_ok trim_nonempty)
  then obtain p where p: "pending_package (lit ''s'') 5 ?j = Inr p"
    using names(2) by (auto simp: pending_package_def and_then_eq_Inr new_snapshot_ok new_package_ok snapshot_ok_def
        not_blank_trim simp del: lit_simps)
  obtain res j2 where a: "acknowledge_package p 9 (journal_run (?ops @ ?changes) j0) = (res, j2)"
    by (cases "acknowledge_package p 9 (journal_run (?ops @ ?changes) j0)")
  have "length ?ops + length ?changes < 2 ^ 64 - 1" "\<forall>x \<in> set ?changes. is_change x"
    by (simp_all add: is_change_def)
  note claim = acknowledge_keeps_newer[OF j0 this p a]
  then obtain n where "res = Inr n" by blast
  with claim a p j0 show ?thesis by blast
qed

end
