(* ===== verification/SyncProgress.thy ===== *)
theory SyncProgress
  imports SyncMerge
begin

text \<open>
  Cloud synchronization of reading progress (\<open>ProgressCloudSyncRecord\<close> and its merge in
  \<open>crates/reader-sync/src/lib.rs\<close>, \<open>resolve_with_journal\<close> in \<open>webdav_conflict.rs\<close>). A
  fraction is the exact rational of \<open>Prelude\<close> plus the negative zero, which \<open>total_cmp\<close>
  separates from zero; only validated records are compared, so the single NaN is never compared.
\<close>

subsection \<open>Records\<close>

datatype fraction = Frac f64 | NegZero

fun fraction_value :: "fraction \<Rightarrow> f64" where
  "fraction_value (Frac v) = v"
| "fraction_value NegZero = F64 0"

fun total_rank :: "fraction \<Rightarrow> nat \<times> rat \<times> nat" where
  \<comment> \<open>the order of \<open>f64::total_cmp\<close>\<close>
  "total_rank (Frac F64_neg_inf) = (0, 0, 0)"
| "total_rank (Frac (F64 q)) = (1, q, 1)"
| "total_rank NegZero = (1, 0, 0)"
| "total_rank (Frac F64_inf) = (2, 0, 0)"
| "total_rank (Frac F64_nan) = (3, 0, 0)"

definition total_cmp :: "fraction \<Rightarrow> fraction \<Rightarrow> cmp_order" where
  "total_cmp a b = rcmp (total_rank a) (total_rank b)"

definition f64_eq :: "fraction \<Rightarrow> fraction \<Rightarrow> bool" where
  \<comment> \<open>\<open>==\<close> on \<open>f64\<close>\<close>
  "f64_eq a b = (fraction_value a = fraction_value b \<and> fraction_value a \<noteq> F64_nan)"

type_synonym progress_sync_key = "ustr \<times> u32 \<times> ustr"

record progress_sync_record =
  pr_book_id :: ustr
  pr_chapter_index :: u32
  pr_chapter_title :: "ustr option"
  pr_progress_fraction :: fraction
  pr_updated_at :: int
  pr_device_id :: ustr
  pr_sync_version :: u32

definition progress_key :: "progress_sync_record \<Rightarrow> progress_sync_key" where
  "progress_key r = (pr_book_id r, pr_chapter_index r, pr_device_id r)"

definition validate_progress_required_string :: "ustr \<Rightarrow> string \<Rightarrow> unit sync_result" where
  "validate_progress_required_string value field = ensure (\<not> blank value) (InvalidProgress field)"

definition validate_progress_optional_string :: "ustr option \<Rightarrow> string \<Rightarrow> unit sync_result" where
  "validate_progress_optional_string value field = ensure (\<not> blank_opt value) (InvalidProgress field)"

definition normalize_progress_required :: "ustr \<Rightarrow> string \<Rightarrow> ustr sync_result" where
  "normalize_progress_required value field =
     (let v = trim value in if v = [] then Inl (InvalidProgress field) else Inr v)"

definition validate_progress_record :: "progress_sync_record \<Rightarrow> unit sync_result" where
  "validate_progress_record r = checks [
     validate_progress_required_string (pr_book_id r) ''book_id'',
     validate_progress_required_string (pr_device_id r) ''device_id'',
     validate_progress_optional_string (pr_chapter_title r) ''chapter_title'',
     ensure (is_fraction (fraction_value (pr_progress_fraction r))) (InvalidProgress ''progress_fraction''),
     ensure (pr_sync_version r \<noteq> 0) (InvalidProgress ''sync_version'')]"

definition default_sync_version :: u32 where
  "default_sync_version = 1"

definition new_progress_record :: "ustr \<Rightarrow> u32 \<Rightarrow> fraction \<Rightarrow> int \<Rightarrow> ustr \<Rightarrow> progress_sync_record sync_result" where
  "new_progress_record book_id chapter_index fraction updated_at device_id =
     and_then (normalize_progress_required book_id ''book_id'') (\<lambda>b.
     and_then (normalize_progress_required device_id ''device_id'') (\<lambda>d.
     let r = \<lparr>pr_book_id = b, pr_chapter_index = chapter_index, pr_chapter_title = None,
              pr_progress_fraction = fraction, pr_updated_at = updated_at, pr_device_id = d,
              pr_sync_version = default_sync_version\<rparr>
     in and_then (validate_progress_record r) (\<lambda>_. Inr r)))"

datatype progress_strategy = StrategyLastWriteWins | StrategyDevicePriority | StrategyManual

record progress_sync_config =
  pc_sync_interval_minutes :: u32
  pc_conflict_strategy :: progress_strategy
  pc_auto_sync_enabled :: bool
  pc_max_records_per_book :: nat

definition default_progress_config :: progress_sync_config where
  "default_progress_config = \<lparr>pc_sync_interval_minutes = 15, pc_conflict_strategy = StrategyLastWriteWins,
     pc_auto_sync_enabled = True, pc_max_records_per_book = 50\<rparr>"

definition validate_progress_config :: "progress_sync_config \<Rightarrow> unit sync_result" where
  "validate_progress_config c = checks [
     ensure (pc_sync_interval_minutes c \<noteq> 0) (InvalidProgress ''sync_interval_minutes''),
     ensure (pc_max_records_per_book c \<noteq> 0) (InvalidProgress ''max_records_per_book'')]"

subsection \<open>Orders\<close>

definition runtime_order :: "progress_sync_record cmp" where
  \<comment> \<open>\<open>compare_progress_runtime_order\<close>, also the comparator of \<open>sort_progress_cloud_records\<close>\<close>
  "runtime_order = chain (by_key pr_book_id) (chain (by_key pr_chapter_index)
     (chain (by_key pr_device_id) (chain (by_key pr_updated_at) (by_key pr_sync_version))))"

definition webdav_order :: "progress_sync_record cmp" where
  \<comment> \<open>\<open>compare_progress_webdav_last_write_wins_order\<close>\<close>
  "webdav_order = chain (flip_cmp (by_key pr_updated_at)) runtime_order"

definition retention_order :: "progress_sync_record cmp" where
  \<comment> \<open>\<open>compare_progress_retention_order\<close>\<close>
  "retention_order = chain (flip_cmp (by_key pr_updated_at)) (chain (flip_cmp (by_key pr_sync_version))
     (chain (flip_cmp (by_key pr_chapter_index)) (flip_cmp (by_key pr_device_id))))"

definition sort_progress :: "progress_sync_record list \<Rightarrow> progress_sync_record list" where
  "sort_progress rs = sort_by runtime_order rs"

interpretation ro: comparator runtime_order
  unfolding runtime_order_def by (intro comparator_intros)

interpretation wo: comparator webdav_order
  unfolding webdav_order_def by (intro comparator_intros ro.comparator_axioms)

interpretation ko: comparator retention_order
  unfolding retention_order_def by (intro comparator_intros)

subsection \<open>Pulling and pushing\<close>

definition progress_records_since :: "progress_sync_record list \<Rightarrow> int option \<Rightarrow> progress_sync_record list sync_result" where
  "progress_records_since rs since = and_then (check_each validate_progress_record rs) (\<lambda>_.
     Inr (sort_progress (filter (\<lambda>r. case since of Some s \<Rightarrow> pr_updated_at r > s | None \<Rightarrow> True) rs)))"

record progress_push_plan =
  pp_resolved :: "progress_sync_record list"
  pp_pushed_count :: nat

fun keep_first :: "('a \<Rightarrow> 'k) \<Rightarrow> 'k list \<Rightarrow> 'a list \<Rightarrow> 'a list" where
  \<comment> \<open>\<open>filter(|x| seen.insert(key(x)))\<close>\<close>
  "keep_first f seen [] = []"
| "keep_first f seen (x # xs) =
     (if f x \<in> set seen then keep_first f seen xs else x # keep_first f (f x # seen) xs)"

definition plan_progress_push ::
    "progress_sync_record list \<Rightarrow> progress_sync_record list \<Rightarrow> conflict_policy \<Rightarrow> progress_push_plan sync_result" where
  "plan_progress_push l r policy = and_then (check_each validate_progress_record (l @ r)) (\<lambda>_.
     let resolved = sort_progress (case policy of
           LastWriteWins \<Rightarrow> keep_first progress_key [] (sort_by webdav_order (l @ r))
         | _ \<Rightarrow> l @ r)
     in Inr \<lparr>pp_resolved = resolved, pp_pushed_count = length resolved\<rparr>)"

datatype push_step = PullRemoteBeforePush | ResolveConflicts | PushResolvedRecords

record progress_push_execution =
  px_steps :: "push_step list"
  px_remote_pull_since :: "int option"
  px_remote_before_push_count :: nat
  px_conflict_policy :: conflict_policy
  px_push_plan :: progress_push_plan

definition plan_progress_push_execution ::
    "progress_sync_record list \<Rightarrow> progress_sync_record list \<Rightarrow> conflict_policy \<Rightarrow> progress_push_execution sync_result" where
  "plan_progress_push_execution l remote_before_push policy =
     and_then (check_each validate_progress_record l) (\<lambda>_.
     if l = [] then Inr \<lparr>px_steps = [], px_remote_pull_since = None, px_remote_before_push_count = 0,
         px_conflict_policy = policy, px_push_plan = \<lparr>pp_resolved = [], pp_pushed_count = 0\<rparr>\<rparr>
     else and_then (plan_progress_push l remote_before_push policy) (\<lambda>plan.
       Inr \<lparr>px_steps = [PullRemoteBeforePush, ResolveConflicts, PushResolvedRecords],
         px_remote_pull_since = None, px_remote_before_push_count = length remote_before_push,
         px_conflict_policy = policy, px_push_plan = plan\<rparr>))"

subsection \<open>The audit journal of \<open>webdav_conflict.rs\<close>\<close>

record conflict_resolution =
  cr_key :: progress_sync_key
  cr_policy :: conflict_policy
  cr_resolved_at :: int
  cr_kept :: progress_sync_record
  cr_discarded :: "progress_sync_record list"

record conflict_journal =
  cj_created_at :: int
  cj_entries :: "conflict_resolution list"

definition group_push :: "('a \<Rightarrow> 'k::linorder) \<Rightarrow> 'a \<Rightarrow> ('k, 'a list) smap \<Rightarrow> ('k, 'a list) smap" where
  \<comment> \<open>\<open>groups.entry(key).or_default().push(record)\<close>\<close>
  "group_push f x m = sm_insert (f x) ((case map_of m (f x) of Some ys \<Rightarrow> ys | None \<Rightarrow> []) @ [x]) m"

definition group_by :: "('a \<Rightarrow> 'k::linorder) \<Rightarrow> 'a list \<Rightarrow> ('k, 'a list) smap" where
  "group_by f xs = fold (group_push f) xs []"

definition resolve_group :: "int \<Rightarrow> progress_sync_key \<times> progress_sync_record list \<Rightarrow> conflict_resolution list" where
  "resolve_group resolved_at g = (let discarded = tl (snd g) in
     if discarded = [] then [] else
       [\<lparr>cr_key = fst g, cr_policy = LastWriteWins, cr_resolved_at = resolved_at,
         cr_kept = hd (snd g), cr_discarded = sort_by runtime_order discarded\<rparr>])"

definition resolve_with_journal ::
    "progress_sync_record list \<Rightarrow> progress_sync_record list \<Rightarrow> conflict_policy \<Rightarrow> int
     \<Rightarrow> (progress_sync_record list \<times> conflict_journal) sync_result" where
  "resolve_with_journal l r policy resolved_at = and_then (check_each validate_progress_record (l @ r)) (\<lambda>_.
     let (resolved, entries) = (case policy of
           LastWriteWins \<Rightarrow> (let groups = group_by progress_key (sort_by webdav_order (l @ r)) in
             (map (\<lambda>g. hd (snd g)) groups, concat (map (resolve_group resolved_at) groups)))
         | _ \<Rightarrow> (l @ r, []))
     in Inr (sort_progress resolved, \<lparr>cj_created_at = resolved_at, cj_entries = entries\<rparr>))"

subsection \<open>Merging under a strategy\<close>

definition choose_progress_record :: "progress_sync_record \<Rightarrow> progress_sync_record \<Rightarrow> record_choice" where
  "choose_progress_record existing candidate =
     (if pr_updated_at candidate \<noteq> pr_updated_at existing then
        if pr_updated_at candidate > pr_updated_at existing then Candidate else Existing
      else if pr_sync_version candidate \<noteq> pr_sync_version existing then
        if pr_sync_version candidate > pr_sync_version existing then Candidate else Existing
      else case total_cmp (pr_progress_fraction candidate) (pr_progress_fraction existing) of
        Greater \<Rightarrow> Candidate
      | Less \<Rightarrow> Existing
      | Equal \<Rightarrow>
        if pr_chapter_title candidate \<noteq> pr_chapter_title existing then
          if pr_chapter_title candidate > pr_chapter_title existing then Candidate else Existing
        else Existing)"

definition progress_records_equivalent :: "progress_sync_record \<Rightarrow> progress_sync_record \<Rightarrow> bool" where
  "progress_records_equivalent l r = (pr_updated_at l = pr_updated_at r
     \<and> pr_sync_version l = pr_sync_version r
     \<and> f64_eq (pr_progress_fraction l) (pr_progress_fraction r)
     \<and> pr_chapter_title l = pr_chapter_title r)"

definition progress_record_key_string :: "progress_sync_key \<Rightarrow> ustr" where
  "progress_record_key_string k = (case k of (b, c, d) \<Rightarrow> b @ lit '':'' @ decimal (unat c) @ lit '':'' @ d)"

definition apply_progress_record_limit :: "progress_sync_record list \<Rightarrow> nat \<Rightarrow> progress_sync_record list" where
  "apply_progress_record_limit rs limit =
     sort_progress (concat (map (\<lambda>g. take limit (sort_by retention_order (snd g))) (group_by pr_book_id rs)))"

fun merge_progress_loop ::
    "progress_strategy \<Rightarrow> progress_sync_record list \<Rightarrow> (progress_sync_key, progress_sync_record) smap
     \<Rightarrow> (progress_sync_key, progress_sync_record) smap sync_result" where
  "merge_progress_loop strategy [] m = Inr m"
| "merge_progress_loop strategy (r # rs) m = and_then (validate_progress_record r) (\<lambda>_.
     case map_of m (progress_key r) of
       Some e \<Rightarrow>
         if strategy = StrategyManual \<and> \<not> progress_records_equivalent e r
         then Inl (UnresolvedConflict (progress_record_key_string (progress_key r)))
         else if choose_progress_record e r = Existing then merge_progress_loop strategy rs m
         else merge_progress_loop strategy rs (sm_insert (progress_key r) r m)
     | None \<Rightarrow> merge_progress_loop strategy rs (sm_insert (progress_key r) r m))"

definition merge_progress_records ::
    "progress_sync_record list \<Rightarrow> progress_sync_record list \<Rightarrow> progress_sync_config
     \<Rightarrow> progress_sync_record list sync_result" where
  "merge_progress_records l r config = and_then (validate_progress_config config) (\<lambda>_.
     and_then (merge_progress_loop (pc_conflict_strategy config) (l @ r) []) (\<lambda>m.
     Inr (apply_progress_record_limit (sm_values m) (pc_max_records_per_book config))))"


subsection \<open>The order between two records of one key\<close>

lemma total_rank_inj: "total_rank a = total_rank b \<Longrightarrow> a = b"
  by (cases a rule: total_rank.cases; cases b rule: total_rank.cases) simp_all

abbreviation progress_wins :: "progress_sync_record \<Rightarrow> progress_sync_record \<Rightarrow> bool" where
  "progress_wins existing candidate \<equiv> choose_progress_record existing candidate = Candidate"

lemma progress_wins_iff:
  "progress_wins a b \<longleftrightarrow>
     (pr_updated_at a, pr_sync_version a, total_rank (pr_progress_fraction a), pr_chapter_title a)
     < (pr_updated_at b, pr_sync_version b, total_rank (pr_progress_fraction b), pr_chapter_title b)"
  unfolding choose_progress_record_def total_cmp_def rcmp_def
  by (simp only: less_prod_simp) (auto split: if_splits)

lemma progress_eqI:
  assumes "progress_key a = progress_key b"
    and "(pr_updated_at a, pr_sync_version a, total_rank (pr_progress_fraction a), pr_chapter_title a)
     = (pr_updated_at b, pr_sync_version b, total_rank (pr_progress_fraction b), pr_chapter_title b)"
  shows "a = b"
  using assms total_rank_inj[of "pr_progress_fraction a" "pr_progress_fraction b"] by (simp add: progress_key_def)

interpretation plw: last_writer progress_key "\<lambda>a b. progress_wins a b"
proof
  show "\<not> progress_wins a a" for a unfolding progress_wins_iff by simp
  show "progress_wins a c" if "progress_wins a b" "progress_wins b c" for a b c
    using that unfolding progress_wins_iff by (rule less_trans)
  show "progress_wins a b \<or> progress_wins b a" if "progress_key a = progress_key b" "a \<noteq> b" for a b
    using that progress_eqI[of a b] unfolding progress_wins_iff by (meson linorder_neqE)
qed

lemma merge_progress_loop_best:
  assumes "strategy \<noteq> StrategyManual" and "\<forall>r \<in> set rs. validate_progress_record r = Inr ()"
  shows "merge_progress_loop strategy rs m = Inr (fold (keep_best progress_key progress_wins) rs m)"
proof -
  have other: "choose_progress_record a b = Existing \<longleftrightarrow> \<not> progress_wins a b" for a b
    by (cases "choose_progress_record a b") simp_all
  show ?thesis
    using assms by (induction rs arbitrary: m) (auto simp: keep_best_def other split: option.split)
qed

subsection \<open>Grouping\<close>

lemma group_by_gen:
  assumes "sm_ok m"
  shows "sm_ok (fold (group_push f) xs m) \<and> map_of (fold (group_push f) xs m) k
    = (if filter (\<lambda>x. f x = k) xs = [] then map_of m k
       else Some ((case map_of m k of Some ys \<Rightarrow> ys | None \<Rightarrow> []) @ filter (\<lambda>x. f x = k) xs))"
  using assms
proof (induction xs arbitrary: m)
  case (Cons x xs)
  have "sm_ok (group_push f x m)" using Cons.prems by (simp add: group_push_def)
  from Cons.IH[OF this] show ?case
    using Cons.prems by (auto simp: group_push_def table_simps split: option.splits)
qed simp

lemma group_by_ok: "sm_ok (group_by f xs)"
  using group_by_gen[of "[]" f xs] by (simp add: group_by_def)

lemma map_of_group_by: "map_of (group_by f xs) k
    = (if filter (\<lambda>x. f x = k) xs = [] then None else Some (filter (\<lambda>x. f x = k) xs))"
  using group_by_gen[of "[]" f xs k] by (simp add: group_by_def)

lemma group_by_set: "(k, g) \<in> set (group_by f xs) \<longleftrightarrow> g = filter (\<lambda>x. f x = k) xs \<and> g \<noteq> []"
  by (auto simp: in_smap_iff[OF group_by_ok] map_of_group_by)

lemma group_by_keys: "distinct (map fst (group_by f xs))"
  using group_by_ok[of f xs] by (simp add: sm_ok_def strict_sorted_iff)

lemma hd_filter_key: "filter (\<lambda>x. f x = k) xs \<noteq> [] \<Longrightarrow> f (hd (filter (\<lambda>x. f x = k) xs)) = k"
  by (drule hd_in_set) simp

subsection \<open>The limit of records per book\<close>

lemma in_take_sorted:
  assumes "comparator c" and "sorted_wrt (cmp_le c) xs" and "distinct xs"
    and sep: "\<And>a b. a \<in> set xs \<Longrightarrow> b \<in> set xs \<Longrightarrow> c a b = Equal \<Longrightarrow> a = b"
  shows "r \<in> set (take n xs) \<longleftrightarrow> r \<in> set xs \<and> card {r' \<in> set xs. c r' r = Less} < n"
proof (cases "r \<in> set xs")
  case True
  then obtain ys zs where xs: "xs = ys @ r # zs" by (meson split_list)
  have before: "c y r = Less" if y: "y \<in> set ys" for y
  proof -
    have "cmp_le c y r" "y \<noteq> r" using assms(2,3) y by (auto simp: xs sorted_wrt_append)
    then show ?thesis using sep[of y r] y by (cases "c y r") (auto simp: xs)
  qed
  have after: "c z r \<noteq> Less" if z: "z \<in> set (r # zs)" for z
  proof -
    have "cmp_le c r z" using assms(2) z comparator.cmp_refl[OF assms(1), of r] by (auto simp: xs sorted_wrt_append)
    then show ?thesis using comparator.cmp_swap[OF assms(1), of r z] by auto
  qed
  have "{r' \<in> set xs. c r' r = Less} = set ys" using before after by (auto simp: xs)
  then have "card {r' \<in> set xs. c r' r = Less} = length ys"
    using assms(3) by (simp add: xs distinct_card)
  moreover have "r \<in> set (take n xs) \<longleftrightarrow> length ys < n"
  proof
    assume "r \<in> set (take n xs)"
    then show "length ys < n" using assms(3) by (auto simp: xs not_less[symmetric] dest: in_set_takeD)
  next
    assume "length ys < n"
    then obtain m where "n - length ys = Suc m" by (metis Suc_diff_Suc)
    then show "r \<in> set (take n xs)" by (simp add: xs)
  qed
  ultimately show ?thesis using True by simp
next
  case False
  then show ?thesis by (auto dest: in_set_takeD)
qed

definition newer :: "progress_sync_record \<Rightarrow> progress_sync_record \<Rightarrow> bool" where
  "newer a b = (pr_book_id a = pr_book_id b \<and> retention_order a b = Less)"

definition within_limit :: "nat \<Rightarrow> progress_sync_record set \<Rightarrow> progress_sync_record set" where
  \<comment> \<open>the specification of the limit: fewer than \<open>n\<close> records of the book are newer\<close>
  "within_limit n R = {r \<in> R. card {r' \<in> R. newer r' r} < n}"

lemma retention_less: "retention_order a b = Less \<longleftrightarrow>
    (pr_updated_at b, pr_sync_version b, pr_chapter_index b, pr_device_id b)
      < (pr_updated_at a, pr_sync_version a, pr_chapter_index a, pr_device_id a)"
  by (auto simp: retention_order_def chain_def flip_cmp_def by_key_def rcmp_def)

lemma retention_equal: "retention_order a b = Equal \<Longrightarrow> pr_book_id a = pr_book_id b \<Longrightarrow> progress_key a = progress_key b"
  by (simp add: retention_order_def progress_key_def)

lemma limit_set:
  assumes "distinct (map progress_key rs)"
  shows "set (apply_progress_record_limit rs n) = within_limit n (set rs)"
proof -
  have inj: "a = b" if "a \<in> set rs" "b \<in> set rs" "progress_key a = progress_key b" for a b
    using assms that by (auto simp: distinct_map inj_on_def)
  have group: "r \<in> set (take n (sort_by retention_order (filter (\<lambda>x. pr_book_id x = b) rs)))
      \<longleftrightarrow> r \<in> set rs \<and> pr_book_id r = b \<and> card {r' \<in> set rs. newer r' r} < n" for r b
  proof -
    let ?g = "filter (\<lambda>x. pr_book_id x = b) rs"
    have "r \<in> set (take n (sort_by retention_order ?g)) \<longleftrightarrow> r \<in> set (sort_by retention_order ?g)
        \<and> card {r' \<in> set (sort_by retention_order ?g). retention_order r' r = Less} < n"
      using assms inj retention_equal
      by (intro in_take_sorted ko.comparator_axioms ko.sorted_sort) (auto simp: distinct_map)
    moreover have "{r' \<in> set (sort_by retention_order ?g). retention_order r' r = Less} = {r' \<in> set rs. newer r' r}"
      if "pr_book_id r = b" using that by (auto simp: newer_def)
    ultimately show ?thesis by auto
  qed
  show ?thesis
  proof (rule set_eqI)
    fix r
    have "r \<in> set (apply_progress_record_limit rs n)
        \<longleftrightarrow> (\<exists>b g. (b, g) \<in> set (group_by pr_book_id rs) \<and> r \<in> set (take n (sort_by retention_order g)))"
      by (force simp: apply_progress_record_limit_def sort_progress_def)
    also have "\<dots> \<longleftrightarrow> (\<exists>b. filter (\<lambda>x. pr_book_id x = b) rs \<noteq> []
        \<and> r \<in> set (take n (sort_by retention_order (filter (\<lambda>x. pr_book_id x = b) rs))))"
      by (auto simp: group_by_set)
    also have "\<dots> \<longleftrightarrow> r \<in> within_limit n (set rs)"
      unfolding group by (auto simp: within_limit_def filter_empty_conv)
    finally show "r \<in> set (apply_progress_record_limit rs n) \<longleftrightarrow> r \<in> within_limit n (set rs)" .
  qed
qed


lemma distinct_grouped:
  assumes "distinct (map fst gs)" and "\<And>b g. (b, g) \<in> set gs \<Longrightarrow> distinct (h g) \<and> (\<forall>x \<in> set (h g). f x = b)"
  shows "distinct (concat (map (\<lambda>p. h (snd p)) gs))"
  using assms
proof (induction gs)
  case (Cons p gs)
  obtain b g where p: "p = (b, g)" by (cases p)
  have "distinct (h g)" "\<forall>x \<in> set (h g). f x = b" using Cons.prems(2)[of b g] p by auto
  moreover have "f x \<noteq> b" if "x \<in> set (concat (map (\<lambda>p. h (snd p)) gs))" for x
  proof -
    from that obtain q where q: "q \<in> set gs" "x \<in> set (h (snd q))" by auto
    then have "f x = fst q" using Cons.prems(2)[of "fst q" "snd q"] by auto
    then show ?thesis using Cons.prems(1) q(1) p by auto
  qed
  moreover have "distinct (concat (map (\<lambda>p. h (snd p)) gs))"
    using Cons.prems by (intro Cons.IH) auto
  ultimately show ?case using p by auto
qed simp

lemma limit_distinct: "distinct rs \<Longrightarrow> distinct (apply_progress_record_limit rs n)"
  unfolding apply_progress_record_limit_def sort_progress_def distinct_sort_by
  by (rule distinct_grouped[OF group_by_keys, where f = pr_book_id])
    (auto simp: group_by_set dest: in_set_takeD)

lemma runtime_equal: "runtime_order a b = Equal \<Longrightarrow> progress_key a = progress_key b"
  by (simp add: runtime_order_def progress_key_def)

lemma sort_progress_unique:
  assumes "set xs = set ys" and "distinct (map progress_key xs)" and "distinct ys"
  shows "sort_progress xs = sort_progress ys"
  unfolding sort_progress_def
proof (rule ro.sort_unique)
  show "mset xs = mset ys"
    using assms by (metis distinct_map set_eq_iff_mset_eq_distinct)
  show "a = b" if "a \<in> set xs" "b \<in> set xs" "runtime_order a b = Equal" for a b
    using that assms(2) runtime_equal by (auto simp: distinct_map inj_on_def)
qed

lemma limit_unique:
  assumes "distinct (map progress_key rs)" and "distinct (map progress_key rs')"
    and "within_limit n (set rs) = within_limit n (set rs')"
  shows "apply_progress_record_limit rs n = apply_progress_record_limit rs' n"
proof -
  let ?x = "apply_progress_record_limit rs n" and ?y = "apply_progress_record_limit rs' n"
  have d: "distinct ?x" "distinct ?y" using assms(1,2) by (simp_all add: limit_distinct distinct_map)
  have s: "set ?x = set ?y" using assms by (simp add: limit_set)
  have "set ?x \<subseteq> set rs" by (simp add: limit_set[OF assms(1)] within_limit_def)
  then have "distinct (map progress_key ?x)"
    using assms(1) d(1) by (auto simp: distinct_map intro: inj_on_subset)
  from sort_progress_unique[OF s this d(2)] have "sort_progress ?x = sort_progress ?y" .
  then show ?thesis by (simp add: apply_progress_record_limit_def sort_progress_def ro.sort_idem)
qed

subsection \<open>Incremental merging\<close>

definition champions :: "progress_sync_record set \<Rightarrow> progress_sync_record set" where
  "champions R = {r. champion progress_key progress_wins R r}"

definition kept :: "nat \<Rightarrow> progress_sync_record set \<Rightarrow> progress_sync_record set" where
  "kept n R = within_limit n (champions R)"

definition retention_key :: "progress_sync_record \<Rightarrow> int \<times> u32 \<times> u32 \<times> ustr" where
  "retention_key r = (pr_updated_at r, pr_sync_version r, pr_chapter_index r, pr_device_id r)"

lemma newer_iff: "newer a b \<longleftrightarrow> pr_book_id a = pr_book_id b \<and> retention_key b < retention_key a"
  by (simp only: newer_def retention_less retention_key_def)

lemma newer_trans: "newer a b \<Longrightarrow> newer b c \<Longrightarrow> newer a c"
  unfolding newer_iff using less_trans[of "retention_key c" "retention_key b" "retention_key a"] by simp

lemma newer_wins:
  \<comment> \<open>a record that beats another of its key is newer than everything the other is newer than\<close>
  assumes "progress_key a = progress_key b" and "a = b \<or> progress_wins b a"
  shows "newer b c \<Longrightarrow> newer a c" and "newer c a \<Longrightarrow> newer c b"
proof -
  have k: "pr_book_id a = pr_book_id b" "pr_chapter_index a = pr_chapter_index b" "pr_device_id a = pr_device_id b"
    using assms(1) by (simp_all add: progress_key_def)
  have le: "retention_key b \<le> retention_key a"
    using assms(2) k(2,3) unfolding progress_wins_iff by (auto simp: retention_key_def)
  show "newer b c \<Longrightarrow> newer a c"
    using k(1) less_le_trans[OF _ le] by (simp only: newer_iff)
  show "newer c a \<Longrightarrow> newer c b"
    using k(1) le_less_trans[OF le] by (simp only: newer_iff)
qed

lemma champion_above:
  assumes "finite R" and "r \<in> R"
  obtains w where "w \<in> champions R" and "progress_key w = progress_key r" and "w = r \<or> progress_wins r w"
proof -
  obtain rs where rs: "set rs = R" using assms(1) finite_list by blast
  then obtain w where "champion progress_key progress_wins R w" "progress_key w = progress_key r"
    using plw.champion_exists[of r rs] assms(2) by auto
  then show thesis using that[of w] assms(2) by (auto simp: champions_def champion_def)
qed

lemma champions_key: "a \<in> champions R \<Longrightarrow> b \<in> champions R \<Longrightarrow> progress_key a = progress_key b \<Longrightarrow> a = b"
  unfolding champions_def using plw.champion_unique by blast

lemma finite_champions: "finite R \<Longrightarrow> finite (champions R)"
  by (rule finite_subset[of _ R]) (auto simp: champions_def champion_def)

lemma newer_count_mono:
  \<comment> \<open>raising records to the champions of their keys in a larger set does not lower the count\<close>
  assumes fin: "finite R'" and sub: "Y \<subseteq> R'" and Y: "\<And>y. y \<in> Y \<Longrightarrow> newer y r"
    and inj: "inj_on progress_key Y"
  shows "card Y \<le> card {w \<in> champions R'. newer w r}"
proof -
  have ex: "\<exists>w. w \<in> champions R' \<and> progress_key w = progress_key y \<and> newer w r" if "y \<in> Y" for y
  proof -
    obtain w where w: "w \<in> champions R'" "progress_key w = progress_key y" "w = y \<or> progress_wins y w"
      using champion_above[OF fin, of y] sub \<open>y \<in> Y\<close> by blast
    then show ?thesis using newer_wins(1)[OF w(2,3) Y[OF \<open>y \<in> Y\<close>]] by blast
  qed
  then obtain h where h: "\<And>y. y \<in> Y \<Longrightarrow> h y \<in> champions R' \<and> progress_key (h y) = progress_key y \<and> newer (h y) r"
    by metis
  have "inj_on h Y"
  proof (rule inj_onI)
    fix x y assume "x \<in> Y" "y \<in> Y" "h x = h y"
    then have "progress_key x = progress_key y" using h by metis
    then show "x = y" using inj \<open>x \<in> Y\<close> \<open>y \<in> Y\<close> by (simp add: inj_on_def)
  qed
  moreover have "h ` Y \<subseteq> {w \<in> champions R'. newer w r}" using h by auto
  moreover have "finite {w \<in> champions R'. newer w r}" using finite_champions[OF fin] by simp
  ultimately show ?thesis using card_inj_on_le by blast
qed

lemma champions_inj: "Y \<subseteq> champions R \<Longrightarrow> inj_on progress_key Y"
  by (rule inj_onI) (meson champions_key subsetD)

lemma newer_irrefl: "\<not> newer a a"
  by (simp add: newer_def ko.cmp_refl)

lemma newer_total: "a \<in> champions R \<Longrightarrow> b \<in> champions R \<Longrightarrow> pr_book_id a = pr_book_id b \<Longrightarrow> a \<noteq> b \<Longrightarrow> newer a b \<or> newer b a"
  using retention_equal[of a b] champions_key[of a R b] ko.cmp_swap[of a b]
  by (cases "retention_order a b") (auto simp: newer_def)

lemma dropped_beaten:
  \<comment> \<open>a champion that is dropped is older than \<open>n\<close> kept ones\<close>
  assumes fin: "finite R" and r: "r \<in> champions R" "r \<notin> kept n R"
  shows "\<exists>Y. Y \<subseteq> kept n R \<and> card Y = n \<and> (\<forall>y \<in> Y. newer y r)"
proof -
  let ?N = "{w \<in> champions R. newer w r}"
  have finN: "finite ?N" using finite_champions[OF fin] by simp
  obtain rs where rs: "set rs = ?N" "distinct rs" using finite_distinct_list[OF finN] by blast
  let ?s = "sort_by retention_order rs"
  have sep: "a = b" if "a \<in> set rs" "b \<in> set rs" "retention_order a b = Equal" for a b
    using that retention_equal[of a b] champions_key[of a R b] by (auto simp: rs newer_def)
  have "n \<le> card ?N" using r by (simp add: kept_def within_limit_def not_less)
  then have len: "n \<le> length rs" using rs by (metis distinct_card)
  have "set (take n ?s) \<subseteq> kept n R"
  proof
    fix y assume y: "y \<in> set (take n ?s)"
    have iff: "y \<in> set (take n ?s) \<longleftrightarrow> y \<in> set ?s \<and> card {r' \<in> set ?s. retention_order r' y = Less} < n"
      using sep rs(2) by (intro in_take_sorted ko.comparator_axioms ko.sorted_sort) auto
    have yN: "y \<in> ?N" using y iff rs by simp
    have "{w \<in> champions R. newer w y} = {r' \<in> set ?s. retention_order r' y = Less}"
      using yN newer_trans[of _ y r] by (auto simp: rs newer_def)
    then have "card {w \<in> champions R. newer w y} < n" using y iff by simp
    then show "y \<in> kept n R" using yN by (simp add: kept_def within_limit_def)
  qed
  moreover have "card (set (take n ?s)) = n"
  proof -
    have "distinct (take n ?s)" using rs(2) by (intro distinct_take) simp
    from distinct_card[OF this] show ?thesis using len by simp
  qed
  moreover have "\<forall>y \<in> set (take n ?s). newer y r"
  proof
    fix y assume "y \<in> set (take n ?s)"
    then have "y \<in> set rs" using in_set_takeD[of y n ?s] by simp
    then show "newer y r" by (simp add: rs(1))
  qed
  ultimately show ?thesis by (intro exI[of _ "set (take n ?s)"] conjI)
qed

lemma champions_restrict: "w \<in> champions R \<Longrightarrow> w \<in> B \<Longrightarrow> B \<subseteq> R \<Longrightarrow> w \<in> champions B"
  by (auto simp: champions_def champion_def)

lemma kept_subset: "kept n R \<subseteq> champions R"
  by (auto simp: kept_def within_limit_def)

lemma champions_subset: "champions R \<subseteq> R"
  by (auto simp: champions_def champion_def)

lemma keptI: "r \<in> champions R \<Longrightarrow> card {w \<in> champions R. newer w r} < n \<Longrightarrow> r \<in> kept n R"
  by (simp add: kept_def within_limit_def)

lemma kept_absorb:
  assumes A: "finite A" and C: "finite C"
  shows "kept n (kept n A \<union> C) = kept n (A \<union> C)"
proof -
  let ?B = "kept n A \<union> C"
  have sub: "?B \<subseteq> A \<union> C" using kept_subset[of n A] champions_subset[of A] by blast
  have finB: "finite ?B" and finAC: "finite (A \<union> C)" using sub A C finite_subset by auto
  have crowd: "\<not> card {w \<in> champions R. newer w r} < n"
    if Y: "Y \<subseteq> kept n A" "card Y = n" "\<forall>y \<in> Y. newer y r" and R: "finite R" "?B \<subseteq> R" for Y R r
  proof -
    have "card Y \<le> card {w \<in> champions R. newer w r}"
      using Y R kept_subset[of n A] by (intro newer_count_mono champions_inj[of Y A]) auto
    then show ?thesis using Y(2) by simp
  qed
  show ?thesis
  proof (intro equalityI subsetI)
    fix r assume r: "r \<in> kept n (A \<union> C)"
    then have ch: "r \<in> champions (A \<union> C)" and few: "card {w \<in> champions (A \<union> C). newer w r} < n"
      by (simp_all add: kept_def within_limit_def)
    have rB: "r \<in> ?B"
    proof (rule ccontr)
      assume no: "r \<notin> ?B"
      then have "r \<in> champions A" using ch by (auto simp: champions_def champion_def)
      from dropped_beaten[OF A this] no obtain Y where "Y \<subseteq> kept n A" "card Y = n" "\<forall>y \<in> Y. newer y r" by blast
      from crowd[OF this finAC sub] few show False by simp
    qed
    then have "r \<in> champions ?B" using champions_restrict[OF ch _ sub] by blast
    moreover have "card {w \<in> champions ?B. newer w r} \<le> card {w \<in> champions (A \<union> C). newer w r}"
      using sub champions_subset[of ?B] finAC by (intro newer_count_mono champions_inj[of _ ?B]) auto
    ultimately show "r \<in> kept n ?B" using few by (intro keptI) auto
  next
    fix r assume r: "r \<in> kept n ?B"
    then have ch: "r \<in> champions ?B" and few: "card {w \<in> champions ?B. newer w r} < n"
      by (simp_all add: kept_def within_limit_def)
    have rest: "w \<in> ?B" if w: "w \<in> champions (A \<union> C)" and up: "w = r \<or> newer w r \<or> (progress_key w = progress_key r \<and> progress_wins r w)" for w
    proof (rule ccontr)
      assume no: "w \<notin> ?B"
      then have "w \<in> champions A" using w by (auto simp: champions_def champion_def)
      from dropped_beaten[OF A this] no obtain Y where Y: "Y \<subseteq> kept n A" "card Y = n" "\<forall>y \<in> Y. newer y w" by blast
      have "\<forall>y \<in> Y. newer y r"
        using Y(3) up newer_trans[of _ w r] newer_wins(2)[of w r] by blast
      from crowd[OF Y(1,2) this finB] few show False by simp
    qed
    have "r \<in> A \<union> C" using ch sub champions_subset by blast
    then obtain w where w: "w \<in> champions (A \<union> C)" "progress_key w = progress_key r" "w = r \<or> progress_wins r w"
      using champion_above[OF finAC] by blast
    then have "w \<in> ?B" using rest by blast
    then have "w \<in> champions ?B" using champions_restrict[OF w(1) _ sub] by blast
    then have "w = r" using champions_key[OF _ ch w(2)] by blast
    then have chAC: "r \<in> champions (A \<union> C)" using w(1) by simp
    have "{w \<in> champions (A \<union> C). newer w r} \<subseteq> {w \<in> champions ?B. newer w r}"
    proof
      fix w assume "w \<in> {w \<in> champions (A \<union> C). newer w r}"
      then have "w \<in> champions (A \<union> C)" "newer w r" by simp_all
      then show "w \<in> {w \<in> champions ?B. newer w r}"
        using rest[of w] champions_restrict[OF _ _ sub, of w] by simp
    qed
    then have "card {w \<in> champions (A \<union> C). newer w r} \<le> card {w \<in> champions ?B. newer w r}"
      using finite_champions[OF finB] by (intro card_mono) auto
    then show "r \<in> kept n (A \<union> C)" using few chAC by (intro keptI) auto
  qed
qed

end
