(* ===== verification/SyncProgressProps.thy ===== *)
theory SyncProgressProps
  imports SyncProgress
begin

text \<open>
  Claims about progress synchronization: merging in steps gives what merging everything at once
  gives, although every step truncates the records of a book; the push plan and the audited
  resolution of \<open>webdav_conflict.rs\<close> agree and keep the newest record of a key.
\<close>

subsection \<open>Merging in steps\<close>

definition progress_valid :: "progress_sync_record list \<Rightarrow> bool" where
  "progress_valid rs = (\<forall>r \<in> set rs. validate_progress_record r = Inr ())"

lemma merge_progress_ok:
  assumes "validate_progress_config cfg = Inr ()" and "pc_conflict_strategy cfg \<noteq> StrategyManual"
    and "progress_valid (l @ r)"
  shows "merge_progress_records l r cfg
    = Inr (apply_progress_record_limit (best_of progress_key progress_wins (l @ r)) (pc_max_records_per_book cfg))"
  using assms merge_progress_loop_best[of "pc_conflict_strategy cfg" "l @ r" "[]"]
  by (simp add: merge_progress_records_def best_of_def progress_valid_def)

lemma best_distinct: "distinct (map progress_key (best_of progress_key progress_wins rs))"
  using plw.best_of_sorted[of rs] by (simp add: strict_sorted_iff)

lemma best_set: "set (best_of progress_key progress_wins rs) = champions (set rs)"
  by (auto simp: champions_def plw.in_best_of)

lemma merged_set: "set (apply_progress_record_limit (best_of progress_key progress_wins rs) n) = kept n (set rs)"
  by (simp add: limit_set[OF best_distinct] best_set kept_def)

lemma merged_unique:
  "kept n (set rs) = kept n (set rs') \<Longrightarrow> apply_progress_record_limit (best_of progress_key progress_wins rs) n
     = apply_progress_record_limit (best_of progress_key progress_wins rs') n"
  by (rule limit_unique[OF best_distinct best_distinct]) (simp add: best_set kept_def)

text \<open>
  C7: Incremental progress synchronization loses nothing that a full synchronization keeps. Under
  the strategies that merge automatically, merging \<open>a\<close> with \<open>b\<close> and the truncated result with
  \<open>c\<close> succeeds with the same list as merging all the records at once, split between the two
  sides in any way, in any order and with any repetitions. That list holds, of every key, the
  record that beats the others of its key, unless the limit of its book is taken by newer ones.
\<close>

theorem progress_merge_incremental:
  assumes "validate_progress_config cfg = Inr ()" and "pc_conflict_strategy cfg \<noteq> StrategyManual"
    and "\<forall>x \<in> set (a @ b @ c). validate_progress_record x = Inr ()"
  shows "\<exists>ab res. merge_progress_records a b cfg = Inr ab \<and> merge_progress_records ab c cfg = Inr res
    \<and> (\<forall>l r. set (l @ r) = set (a @ b @ c) \<longrightarrow> merge_progress_records l r cfg = Inr res)
    \<and> set res = within_limit (pc_max_records_per_book cfg)
        {x. champion progress_key progress_wins (set (a @ b @ c)) x}"
proof -
  let ?n = "pc_max_records_per_book cfg"
  let ?best = "best_of progress_key progress_wins"
  let ?ab = "apply_progress_record_limit (?best (a @ b)) ?n"
  let ?res = "apply_progress_record_limit (?best (a @ b @ c)) ?n"
  have ab: "merge_progress_records a b cfg = Inr ?ab"
    using assms by (intro merge_progress_ok) (auto simp: progress_valid_def)
  have set_ab: "set ?ab = kept ?n (set (a @ b))" by (rule merged_set)
  have "set ?ab \<subseteq> set (a @ b)"
    unfolding set_ab using kept_subset champions_subset by blast
  then have "merge_progress_records ?ab c cfg = Inr (apply_progress_record_limit (?best (?ab @ c)) ?n)"
    using assms by (intro merge_progress_ok) (auto simp: progress_valid_def)
  also have "apply_progress_record_limit (?best (?ab @ c)) ?n = ?res"
    using kept_absorb[of "set (a @ b)" "set c" ?n] by (intro merged_unique) (simp add: set_ab Un_assoc)
  finally have inc: "merge_progress_records ?ab c cfg = Inr ?res" .
  have one: "merge_progress_records l r cfg = Inr ?res" if eq: "set (l @ r) = set (a @ b @ c)" for l r
  proof -
    have "progress_valid (l @ r)" using assms(3) unfolding progress_valid_def eq by blast
    from merge_progress_ok[OF assms(1,2) this] merged_unique[of ?n "l @ r" "a @ b @ c"] eq show ?thesis by simp
  qed
  have "set ?res = within_limit ?n {x. champion progress_key progress_wins (set (a @ b @ c)) x}"
    unfolding merged_set by (simp add: kept_def champions_def)
  with ab inc one show ?thesis by blast
qed

definition sample_progress :: "string \<Rightarrow> u32 \<Rightarrow> int \<Rightarrow> u32 \<Rightarrow> rat \<Rightarrow> progress_sync_record" where
  "sample_progress b c t v q = \<lparr>pr_book_id = lit b, pr_chapter_index = c, pr_chapter_title = None,
     pr_progress_fraction = Frac (F64 q), pr_updated_at = t, pr_device_id = lit ''d'', pr_sync_version = v\<rparr>"

lemma sample_progress_valid:
  "b = ''x'' \<Longrightarrow> v \<noteq> 0 \<Longrightarrow> 0 \<le> q \<Longrightarrow> q \<le> 1 \<Longrightarrow> validate_progress_record (sample_progress b c t v q) = Inr ()"
  by (simp add: sample_progress_def validate_progress_record_def validate_progress_required_string_def
      validate_progress_optional_string_def blank_iff is_whitespace_def blank_opt_def is_fraction_iff)

theorem progress_merge_incremental_witness:
  "let cfg = default_progress_config \<lparr>pc_max_records_per_book := 1\<rparr>;
       a = [sample_progress ''x'' 1 10 1 0]; b = [sample_progress ''x'' 2 20 1 0]; c = [sample_progress ''x'' 1 30 1 1]
   in \<exists>ab res. merge_progress_records a b cfg = Inr ab \<and> merge_progress_records ab c cfg = Inr res
     \<and> merge_progress_records (c @ b) (a @ b) cfg = Inr res"
proof -
  let ?cfg = "default_progress_config \<lparr>pc_max_records_per_book := 1\<rparr>"
  let ?a = "[sample_progress ''x'' 1 10 1 0]" and ?b = "[sample_progress ''x'' 2 20 1 0]"
    and ?c = "[sample_progress ''x'' 1 30 1 1]"
  have cfg: "validate_progress_config ?cfg = Inr ()" "pc_conflict_strategy ?cfg \<noteq> StrategyManual"
    by (simp_all add: default_progress_config_def validate_progress_config_def)
  have valid: "\<forall>x \<in> set (?a @ ?b @ ?c). validate_progress_record x = Inr ()"
    by (simp add: sample_progress_valid)
  have "set ((?c @ ?b) @ (?a @ ?b)) = set (?a @ ?b @ ?c)" by auto
  with progress_merge_incremental[OF cfg valid] show ?thesis unfolding Let_def by metis
qed

subsection \<open>Pushing\<close>

lemma keep_first_in: "x \<in> set (keep_first f seen xs) \<Longrightarrow> x \<in> set xs \<and> f x \<notin> set seen"
  by (induction f seen xs rule: keep_first.induct) (auto split: if_splits)

lemma keep_first_distinct: "distinct (map f (keep_first f seen xs))"
  by (induction f seen xs rule: keep_first.induct) (auto dest: keep_first_in)

lemma keep_first_iff:
  "x \<in> set (keep_first f seen xs) \<longleftrightarrow> f x \<notin> set seen \<and> filter (\<lambda>y. f y = f x) xs \<noteq> []
     \<and> x = hd (filter (\<lambda>y. f y = f x) xs)"
  by (induction f seen xs rule: keep_first.induct) (auto dest: keep_first_in)

lemma group_heads: "x \<in> set (map (\<lambda>g. hd (snd g)) (group_by f xs))
    \<longleftrightarrow> filter (\<lambda>y. f y = f x) xs \<noteq> [] \<and> x = hd (filter (\<lambda>y. f y = f x) xs)"
proof
  assume "x \<in> set (map (\<lambda>g. hd (snd g)) (group_by f xs))"
  then obtain k where k: "filter (\<lambda>y. f y = k) xs \<noteq> []" "x = hd (filter (\<lambda>y. f y = k) xs)"
    by (auto simp: group_by_set)
  moreover have "f x = k" using hd_filter_key[OF k(1)] k(2) by simp
  ultimately show "filter (\<lambda>y. f y = f x) xs \<noteq> [] \<and> x = hd (filter (\<lambda>y. f y = f x) xs)" by simp
next
  assume a: "filter (\<lambda>y. f y = f x) xs \<noteq> [] \<and> x = hd (filter (\<lambda>y. f y = f x) xs)"
  then have "(f x, filter (\<lambda>y. f y = f x) xs) \<in> set (group_by f xs)" by (simp add: group_by_set)
  with a show "x \<in> set (map (\<lambda>g. hd (snd g)) (group_by f xs))" by force
qed

lemma group_heads_keys: "map f (map (\<lambda>g. hd (snd g)) (group_by f xs)) = map fst (group_by f xs)"
  using hd_filter_key[of f _ xs] by (auto simp: group_by_set)

lemma push_heads:
  "sort_progress (keep_first progress_key [] xs) = sort_progress (map (\<lambda>g. hd (snd g)) (group_by progress_key xs))"
proof (rule sort_progress_unique[OF _ keep_first_distinct])
  have d: "distinct (map progress_key (map (\<lambda>g. hd (snd g)) (group_by progress_key xs)))"
    unfolding group_heads_keys by (rule group_by_keys)
  show "distinct (map (\<lambda>g. hd (snd g)) (group_by progress_key xs))" using d by (metis distinct_map)
  show "set (keep_first progress_key [] xs) = set (map (\<lambda>g. hd (snd g)) (group_by progress_key xs))"
    by (rule set_eqI) (simp only: keep_first_iff group_heads empty_iff list.set not_False_eq_True simp_thms)
qed

text \<open>
  The audited conflict resolution of \<open>webdav_conflict.rs\<close> and the push plan agree: for every
  policy and every input both accept the same records, they resolve to the same list, and the
  count the plan reports is the length of that list.
\<close>

theorem push_plan_matches_journal:
  "map_sum id pp_resolved (plan_progress_push l r policy) = map_sum id fst (resolve_with_journal l r policy t)
   \<and> (case plan_progress_push l r policy of Inl e \<Rightarrow> True | Inr p \<Rightarrow> pp_pushed_count p = length (pp_resolved p))"
proof (cases "check_each validate_progress_record (l @ r)")
  case (Inr u)
  then show ?thesis
    by (cases policy) (simp_all add: plan_progress_push_def resolve_with_journal_def push_heads Let_def)
qed (simp add: plan_progress_push_def resolve_with_journal_def)

lemma webdav_order_same_key:
  "progress_key a = progress_key b \<Longrightarrow>
     cmp_le webdav_order a b \<longleftrightarrow> pr_updated_at b < pr_updated_at a
       \<or> (pr_updated_at a = pr_updated_at b \<and> pr_sync_version a \<le> pr_sync_version b)"
  by (auto simp: webdav_order_def runtime_order_def chain_def flip_cmp_def by_key_def rcmp_def progress_key_def
      then_with_Greater)

lemma webdav_order_Equal:
  "webdav_order a b = Equal \<longleftrightarrow> progress_key a = progress_key b \<and> pr_updated_at a = pr_updated_at b
     \<and> pr_sync_version a = pr_sync_version b"
  by (auto simp: webdav_order_def runtime_order_def progress_key_def)



end
