(* ===== verification/SyncBackup.thy ===== *)
theory SyncBackup
  imports SyncTypes Strings
begin

text \<open>
  Backups (\<open>BackupConfig\<close> to \<open>plan_backup_retention\<close>, \<open>RestorePolicy\<close> and
  \<open>plan_backup_restore\<close> in \<open>crates/reader-sync/src/lib.rs\<close>): manifests and their validation,
  which remote packages a retention run deletes, which entries a restore writes.
\<close>

subsection \<open>Validators\<close>

definition validate_backup_required :: "ustr \<Rightarrow> string \<Rightarrow> unit sync_result" where
  "validate_backup_required value field = ensure (\<not> blank value) (InvalidBackup field)"

definition validate_backup_optional_string :: "ustr option \<Rightarrow> string \<Rightarrow> unit sync_result" where
  "validate_backup_optional_string value field = ensure (\<not> blank_opt value) (InvalidBackup field)"

definition normalize_backup_required :: "ustr \<Rightarrow> string \<Rightarrow> ustr sync_result" where
  "normalize_backup_required value field =
     (let v = trim value in if v = [] then Inl (InvalidBackup field) else Inr v)"

definition validate_sync_string_list :: "ustr list \<Rightarrow> string \<Rightarrow> unit sync_result" where
  "validate_sync_string_list values field = ensure (\<forall>v \<in> set values. \<not> blank v) (InvalidBackup field)"

fun all_inserted :: "'a list \<Rightarrow> 'a list \<Rightarrow> bool" where
  \<comment> \<open>every \<open>seen.insert(x)\<close> of a loop answers \<open>true\<close>\<close>
  "all_inserted seen [] = True"
| "all_inserted seen (x # xs) = (x \<notin> set seen \<and> all_inserted (x # seen) xs)"

definition validate_unique_sync_string_list :: "ustr list \<Rightarrow> string \<Rightarrow> ustr list sync_result" where
  \<comment> \<open>the set of the values\<close>
  "validate_unique_sync_string_list values field =
     and_then (validate_sync_string_list values field) (\<lambda>_.
       if all_inserted [] values then Inr values else Inl (InvalidBackup field))"

definition validate_backup_relative_path :: "ustr \<Rightarrow> unit sync_result" where
  "validate_backup_relative_path relative_path =
     and_then (validate_backup_required relative_path ''relative_path'') (\<lambda>_.
       let p = trim relative_path in
       if starts_with p (lit ''/'')
          \<or> (\<exists>c \<in> set (split_on (\<lambda>x. x = 47) p). c = [] \<or> c = lit ''.'' \<or> c = lit ''..'')
       then Inl (InvalidBackup ''relative_path'') else Inr ())"

subsection \<open>Configuration and schedule\<close>

record backup_config =
  bc_target_url :: ustr
  bc_auth_credential_id :: "ustr option"
  bc_compression_enabled :: bool
  bc_encryption_enabled :: bool
  bc_max_backups :: u32
  bc_max_age_days :: "u32 option"

definition default_max_backups :: u32 where
  "default_max_backups = 5"

definition validate_backup_config :: "backup_config \<Rightarrow> unit sync_result" where
  "validate_backup_config c = checks [
     validate_backup_required (bc_target_url c) ''target_url'',
     validate_backup_optional_string (bc_auth_credential_id c) ''auth_credential_id'',
     ensure (bc_max_backups c \<noteq> 0) (InvalidBackup ''max_backups'')]"

definition new_backup_config :: "ustr \<Rightarrow> backup_config sync_result" where
  "new_backup_config target_url = and_then (normalize_backup_required target_url ''target_url'') (\<lambda>u.
     let c = \<lparr>bc_target_url = u, bc_auth_credential_id = None, bc_compression_enabled = False,
       bc_encryption_enabled = False, bc_max_backups = default_max_backups, bc_max_age_days = None\<rparr>
     in and_then (validate_backup_config c) (\<lambda>_. Inr c))"

datatype backup_frequency = FrequencyManual | FrequencyHourly | FrequencyDaily | FrequencyWeekly

record backup_schedule =
  bs_frequency :: backup_frequency
  bs_preferred_hour :: "8 word option"
  bs_preferred_weekday :: "8 word option"

definition validate_backup_schedule :: "backup_schedule \<Rightarrow> unit sync_result" where
  "validate_backup_schedule s = checks [
     ensure (case bs_preferred_hour s of Some h \<Rightarrow> \<not> h > 23 | None \<Rightarrow> True) (InvalidBackup ''preferred_hour''),
     ensure (case bs_preferred_weekday s of Some d \<Rightarrow> 1 \<le> d \<and> d \<le> 7 | None \<Rightarrow> True)
       (InvalidBackup ''preferred_weekday'')]"

subsection \<open>Manifests and packages\<close>

record backup_manifest_entry =
  bm_relative_path :: ustr
  bm_sha256 :: "ustr option"
  bm_size_bytes :: u64
  bm_modified_at :: int

definition validate_manifest_entry :: "backup_manifest_entry \<Rightarrow> unit sync_result" where
  "validate_manifest_entry e = checks [
     validate_backup_relative_path (bm_relative_path e),
     validate_backup_optional_string (bm_sha256 e) ''sha256'']"

record backup_manifest =
  ma_backup_id :: ustr
  ma_created_at :: int
  ma_entries :: "backup_manifest_entry list"
  ma_total_bytes :: u64
  ma_book_count :: u32

fun scan_manifest :: "ustr list \<Rightarrow> u64 \<Rightarrow> backup_manifest_entry list \<Rightarrow> u64 sync_result" where
  \<comment> \<open>the loop of \<open>BackupManifest::validate\<close>: the paths seen and the saturating sum of the sizes\<close>
  "scan_manifest paths acc [] = Inr acc"
| "scan_manifest paths acc (e # es) = and_then (validate_manifest_entry e) (\<lambda>_.
     if bm_relative_path e \<in> set paths then Inl (InvalidBackup ''entries.relative_path'')
     else scan_manifest (bm_relative_path e # paths) (saturating_add acc (bm_size_bytes e)) es)"

definition validate_manifest :: "backup_manifest \<Rightarrow> unit sync_result" where
  "validate_manifest m = and_then (validate_backup_required (ma_backup_id m) ''backup_id'') (\<lambda>_.
     and_then (scan_manifest [] 0 (ma_entries m)) (\<lambda>acc.
     if ma_total_bytes m < acc then Inl (InvalidBackup ''total_bytes'')
     else if unat (ma_book_count m) > length (ma_entries m) then Inl (InvalidBackup ''book_count'')
     else Inr ()))"

datatype backup_archive_format = ArchiveZip | ArchiveTar | ArchiveDirectory

record backup_package =
  bp_manifest :: backup_manifest
  bp_format :: backup_archive_format
  bp_checksum :: "ustr option"

definition validate_backup_package :: "backup_package \<Rightarrow> unit sync_result" where
  "validate_backup_package p = checks [
     validate_manifest (bp_manifest p),
     validate_backup_optional_string (bp_checksum p) ''checksum'']"

definition new_backup_package :: "backup_manifest \<Rightarrow> backup_package sync_result" where
  "new_backup_package m =
     (let p = \<lparr>bp_manifest = m, bp_format = ArchiveZip, bp_checksum = None\<rparr>
      in and_then (validate_backup_package p) (\<lambda>_. Inr p))"

definition backup_package_to_json :: "(backup_package \<Rightarrow> ustr + ustr) \<Rightarrow> backup_package \<Rightarrow> ustr sync_result" where
  "backup_package_to_json encode p = and_then (validate_backup_package p) (\<lambda>_.
     case encode p of Inl message \<Rightarrow> Inl (Codec message) | Inr json \<Rightarrow> Inr json)"

definition backup_package_from_json :: "(ustr \<Rightarrow> ustr + backup_package) \<Rightarrow> ustr \<Rightarrow> backup_package sync_result" where
  "backup_package_from_json decode json = (case decode json of
     Inl message \<Rightarrow> Inl (Codec message)
   | Inr p \<Rightarrow> and_then (validate_backup_package p) (\<lambda>_. Inr p))"

subsection \<open>Retention\<close>

record retention_item =
  ri_manifest :: backup_manifest
  ri_remote_path :: ustr

definition validate_retention_item :: "retention_item \<Rightarrow> unit sync_result" where
  "validate_retention_item i = checks [
     validate_manifest (ri_manifest i),
     validate_backup_required (ri_remote_path i) ''remote_path'']"

definition i64_saturate :: "int \<Rightarrow> int" where
  \<comment> \<open>the result of a saturating \<open>i64\<close> operation with the exact result \<open>x\<close>\<close>
  "i64_saturate x = max (- (2 ^ 63)) (min (2 ^ 63 - 1) x)"

definition manifest_order :: "backup_manifest cmp" where
  \<comment> \<open>newest first, then by id\<close>
  "manifest_order = chain (flip_cmp (by_key ma_created_at)) (by_key ma_backup_id)"

definition candidate_order :: "retention_item cmp" where
  "candidate_order a b = manifest_order (ri_manifest a) (ri_manifest b)"

definition retention_cutoff :: "int \<Rightarrow> u32 \<Rightarrow> int" where
  "retention_cutoff evaluated_at max_age_days =
     i64_saturate (evaluated_at - i64_saturate (int (unat max_age_days) * (24 * 60 * 60)))"

definition plan_backup_retention ::
    "backup_config \<Rightarrow> ustr \<Rightarrow> int \<Rightarrow> retention_item list \<Rightarrow> ustr list sync_result" where
  \<comment> \<open>\<open>paths_to_delete\<close> of the plan\<close>
  "plan_backup_retention config preserving evaluated_at candidates =
     and_then (validate_backup_config config) (\<lambda>_.
     and_then (validate_backup_required preserving ''preserving_backup_id'') (\<lambda>_.
     and_then (check_each validate_retention_item candidates) (\<lambda>_.
     let cs = sort_by candidate_order candidates;
         disposable = (\<lambda>c. ma_backup_id (ri_manifest c) \<noteq> preserving);
         surplus = filter disposable (drop (unat (bc_max_backups config)) cs);
         aged = (case bc_max_age_days config of
             Some days \<Rightarrow> filter (\<lambda>c. ma_created_at (ri_manifest c) < retention_cutoff evaluated_at days \<and> disposable c) cs
           | None \<Rightarrow> [])
     in Inr (ordered_set (map ri_remote_path (surplus @ aged))))))"

subsection \<open>Restore\<close>

datatype restore_mode = RestoreFull | RestoreSelective | RestoreDryRun

record restore_policy =
  rp_mode :: restore_mode
  rp_selected_book_ids :: "ustr list option"
  rp_overwrite_existing :: bool

definition validate_restore_policy :: "restore_policy \<Rightarrow> unit sync_result" where
  "validate_restore_policy p =
     (if rp_mode p = RestoreSelective \<and> (case rp_selected_book_ids p of Some ids \<Rightarrow> ids = [] | None \<Rightarrow> True)
      then Inl (InvalidRestore ''selected_book_ids'')
      else let ids = map trim (case rp_selected_book_ids p of Some ids \<Rightarrow> ids | None \<Rightarrow> [])
           in ensure ([] \<notin> set ids \<and> all_inserted [] ids) (InvalidRestore ''selected_book_ids''))"

record backup_restore_plan =
  br_mode :: restore_mode
  br_selected_book_ids :: "ustr list option"
  br_overwrite_existing :: bool
  br_restore_entries :: "backup_manifest_entry list"
  br_result_entries :: "backup_manifest_entry list"

definition sort_backup_entries :: "backup_manifest_entry list \<Rightarrow> backup_manifest_entry list" where
  "sort_backup_entries es = sort_by (by_key bm_relative_path) es"

definition plan_backup_restore :: "backup_package \<Rightarrow> restore_policy \<Rightarrow> backup_restore_plan sync_result" where
  "plan_backup_restore package policy =
     and_then (validate_backup_package package) (\<lambda>_.
     and_then (validate_restore_policy policy) (\<lambda>_.
     let all = ma_entries (bp_manifest package);
         entries = (case rp_mode policy of
             RestoreDryRun \<Rightarrow> all
           | _ \<Rightarrow> (case rp_selected_book_ids policy of
               Some ids \<Rightarrow> filter (\<lambda>e. bm_relative_path e \<in> set ids) all
             | None \<Rightarrow> all))
     in Inr \<lparr>br_mode = rp_mode policy, br_selected_book_ids = rp_selected_book_ids policy,
          br_overwrite_existing = rp_overwrite_existing policy, br_restore_entries = entries,
          br_result_entries = sort_backup_entries entries\<rparr>))"

subsection \<open>What a manifest promises\<close>

lemma all_inserted_iff: "all_inserted seen xs \<longleftrightarrow> distinct xs \<and> set seen \<inter> set xs = {}"
  by (induction seen xs rule: all_inserted.induct) auto

lemma scan_manifest_ok:
  "scan_manifest paths acc es = Inr t \<longleftrightarrow> (\<forall>e \<in> set es. validate_manifest_entry e = Inr ())
     \<and> distinct (map bm_relative_path es) \<and> set paths \<inter> bm_relative_path ` set es = {}
     \<and> unat t = min (2 ^ 64 - 1) (unat acc + sum_list (map (unat \<circ> bm_size_bytes) es))"
proof (induction es arbitrary: paths acc)
  case Nil
  have "unat acc < 2 ^ 64" using unsigned_less[of acc] by simp
  then show ?case by (auto simp: word_unat_eq_iff)
next
  case (Cons e es)
  have "min (2 ^ 64 - 1) (unat (saturating_add acc (bm_size_bytes e)) + s)
      = min (2 ^ 64 - 1) (unat acc + (unat (bm_size_bytes e) + s))" for s
    by (simp add: unat_saturating_add min_def)
  with Cons.IH show ?case by (auto simp: and_then_eq_Inr)
qed

lemma validate_manifest_ok:
  "validate_manifest m = Inr u \<longleftrightarrow> \<not> blank (ma_backup_id m)
     \<and> (\<forall>e \<in> set (ma_entries m). validate_manifest_entry e = Inr ())
     \<and> distinct (map bm_relative_path (ma_entries m))
     \<and> min (2 ^ 64 - 1) (sum_list (map (unat \<circ> bm_size_bytes) (ma_entries m))) \<le> unat (ma_total_bytes m)
     \<and> unat (ma_book_count m) \<le> length (ma_entries m)" (is "?L \<longleftrightarrow> ?R")
proof -
  let ?s = "min (2 ^ 64 - 1) (sum_list (map (unat \<circ> bm_size_bytes) (ma_entries m)))"
  have s: "unat (of_nat ?s :: u64) = ?s" by (simp add: unat_of_nat)
  have scan: "scan_manifest [] 0 (ma_entries m) = Inr t \<longleftrightarrow> (\<forall>e \<in> set (ma_entries m). validate_manifest_entry e = Inr ())
     \<and> distinct (map bm_relative_path (ma_entries m)) \<and> unat t = ?s" for t
    by (simp add: scan_manifest_ok)
  show ?thesis
  proof
    show "?L \<Longrightarrow> ?R"
      by (auto simp: validate_manifest_def and_then_eq_Inr validate_backup_required_def scan word_less_nat_alt not_less
          split: if_splits)
    assume R: ?R
    then have "scan_manifest [] 0 (ma_entries m) = Inr (of_nat ?s)" using s scan by blast
    with R s show ?L
      by (simp add: validate_manifest_def validate_backup_required_def word_less_nat_alt not_less min_le_iff_disj)
  qed
qed


subsection \<open>Which packages a retention run deletes\<close>

lemma comparator_pull_back [comparator_intros]:
  assumes "comparator c" shows "comparator (\<lambda>a b. c (f a) (f b))"
  using assms unfolding comparator_def by blast

interpretation co: comparator candidate_order
  unfolding candidate_order_def[abs_def] manifest_order_def by (intro comparator_intros)

lemma drop_sorted:
  assumes "comparator c" and "sorted_wrt (cmp_le c) xs" and "x \<in> set xs"
  shows "x \<in> set (drop n xs) \<Longrightarrow> n < length (filter (\<lambda>y. cmp_le c y x) xs)"
    and "n \<le> length (filter (\<lambda>y. c y x = Less) xs) \<Longrightarrow> x \<in> set (drop n xs)"
proof -
  have split: "\<forall>a \<in> set (take n xs). \<forall>b \<in> set (drop n xs). cmp_le c a b"
    using assms(2) sorted_wrt_append[of "cmp_le c" "take n xs" "drop n xs"] unfolding append_take_drop_id by blast
  show "n < length (filter (\<lambda>y. cmp_le c y x) xs)" if x: "x \<in> set (drop n xs)"
  proof -
    have "filter (\<lambda>y. cmp_le c y x) (take n xs) = take n xs"
      using split x by (intro filter_True) auto
    moreover have "filter (\<lambda>y. cmp_le c y x) (drop n xs) \<noteq> []"
      using x comparator.cmp_refl[OF assms(1), of x] by (auto simp: filter_empty_conv intro!: bexI[of _ x])
    moreover have "n < length xs" using x by (metis drop_all empty_iff list.set(1) not_le)
    ultimately have "n < length (filter (\<lambda>y. cmp_le c y x) (take n xs) @ filter (\<lambda>y. cmp_le c y x) (drop n xs))"
      by simp
    then show ?thesis by (metis append_take_drop_id filter_append)
  qed
  show "x \<in> set (drop n xs)" if n: "n \<le> length (filter (\<lambda>y. c y x = Less) xs)"
  proof (rule ccontr)
    assume no: "x \<notin> set (drop n xs)"
    then have x: "x \<in> set (take n xs)" using assms(3) by (metis Un_iff append_take_drop_id set_append)
    have "c y x \<noteq> Less" if "y \<in> set (drop n xs)" for y
    proof -
      have "cmp_le c x y" using split x that by auto
      then show ?thesis using comparator.cmp_swap[OF assms(1), of x y] by auto
    qed
    then have "filter (\<lambda>y. c y x = Less) (drop n xs) = []" by (simp add: filter_empty_conv)
    then have "length (filter (\<lambda>y. c y x = Less) xs) = length (filter (\<lambda>y. c y x = Less) (take n xs))"
      by (metis append_Nil2 append_take_drop_id filter_append)
    also have "\<dots> < length (take n xs)"
      using x comparator.cmp_refl[OF assms(1), of x] by (intro length_filter_less[of x]) auto
    finally show False using n by simp
  qed
qed

lemma count_filter_sort: "length (filter P (sort_by c xs)) = length (filter P xs)"
  by (metis mset_filter mset_sort_by size_mset)

text \<open>
  A retention run deletes what the policy says. The plan lists each path once, in order. A
  path is listed only for a candidate that is not the backup just created and that is older than
  the cutoff or has at least \<open>max_backups\<close> others at least as new (newer, or as new with an id not
  greater); and every candidate that is not the backup just created and that is older than the
  cutoff or has \<open>max_backups\<close> strictly newer ones (newer, or as new with a smaller id) is listed.
\<close>

theorem retention_exact:
  assumes "plan_backup_retention config preserving evaluated_at candidates = Inr paths"
  shows "sorted_wrt (<) paths
    \<and> (\<forall>p \<in> set paths. \<exists>c \<in> set candidates. ri_remote_path c = p \<and> ma_backup_id (ri_manifest c) \<noteq> preserving
        \<and> ((\<exists>days. bc_max_age_days config = Some days
              \<and> ma_created_at (ri_manifest c) < retention_cutoff evaluated_at days)
          \<or> unat (bc_max_backups config) < length (filter (\<lambda>d. candidate_order d c \<noteq> Greater) candidates)))
    \<and> (\<forall>c \<in> set candidates. ma_backup_id (ri_manifest c) \<noteq> preserving
        \<and> ((\<exists>days. bc_max_age_days config = Some days
              \<and> ma_created_at (ri_manifest c) < retention_cutoff evaluated_at days)
          \<or> unat (bc_max_backups config) \<le> length (filter (\<lambda>d. candidate_order d c = Less) candidates))
        \<longrightarrow> ri_remote_path c \<in> set paths)"
proof -
  let ?cs = "sort_by candidate_order candidates" and ?n = "unat (bc_max_backups config)"
  let ?surplus = "filter (\<lambda>c. ma_backup_id (ri_manifest c) \<noteq> preserving) (drop ?n ?cs)"
  let ?aged = "case bc_max_age_days config of
      Some days \<Rightarrow> filter (\<lambda>c. ma_created_at (ri_manifest c) < retention_cutoff evaluated_at days
        \<and> ma_backup_id (ri_manifest c) \<noteq> preserving) ?cs
    | None \<Rightarrow> []"
  have paths: "paths = ordered_set (map ri_remote_path (?surplus @ ?aged))"
    using assms by (auto simp: plan_backup_retention_def and_then_eq_Inr Let_def)
  have sorted: "sorted_wrt (<) paths" unfolding paths by (rule ordered_set_sorted)
  have aged: "c \<in> set ?aged \<longleftrightarrow> c \<in> set candidates \<and> ma_backup_id (ri_manifest c) \<noteq> preserving
      \<and> (\<exists>days. bc_max_age_days config = Some days \<and> ma_created_at (ri_manifest c) < retention_cutoff evaluated_at days)" for c
    by (cases "bc_max_age_days config") auto
  have mem: "p \<in> set paths \<longleftrightarrow> (\<exists>c. ri_remote_path c = p \<and> (c \<in> set ?surplus \<or> c \<in> set ?aged))" for p
    unfolding paths set_ordered_set by (auto simp del: set_filter)
  note rank = drop_sorted[OF co.comparator_axioms co.sorted_sort, of _ candidates ?n, unfolded count_filter_sort set_sort_by]
  have from_path: "\<exists>c \<in> set candidates. ri_remote_path c = p \<and> ma_backup_id (ri_manifest c) \<noteq> preserving
        \<and> ((\<exists>days. bc_max_age_days config = Some days
              \<and> ma_created_at (ri_manifest c) < retention_cutoff evaluated_at days)
          \<or> ?n < length (filter (\<lambda>d. candidate_order d c \<noteq> Greater) candidates))" if "p \<in> set paths" for p
  proof -
    from that obtain c where c: "ri_remote_path c = p" "c \<in> set ?surplus \<or> c \<in> set ?aged" unfolding mem by blast
    from c(2) show ?thesis
    proof
      assume s: "c \<in> set ?surplus"
      then have "c \<in> set candidates" using set_drop_subset[of ?n ?cs] by auto
      with s rank(1)[OF this] c(1) show ?thesis by auto
    next
      assume "c \<in> set ?aged" then show ?thesis using c(1) unfolding aged by blast
    qed
  qed
  have to_path: "ri_remote_path c \<in> set paths"
    if c: "c \<in> set candidates" "ma_backup_id (ri_manifest c) \<noteq> preserving"
      and why: "(\<exists>days. bc_max_age_days config = Some days \<and> ma_created_at (ri_manifest c) < retention_cutoff evaluated_at days)
          \<or> ?n \<le> length (filter (\<lambda>d. candidate_order d c = Less) candidates)" for c
    using why
  proof
    assume "\<exists>days. bc_max_age_days config = Some days \<and> ma_created_at (ri_manifest c) < retention_cutoff evaluated_at days"
    then have "c \<in> set ?aged" using c unfolding aged by blast
    then show ?thesis unfolding mem by blast
  next
    assume "?n \<le> length (filter (\<lambda>d. candidate_order d c = Less) candidates)"
    then have "c \<in> set ?surplus" using rank(2)[OF c(1)] c(2) by simp
    then show ?thesis unfolding mem by blast
  qed
  show ?thesis using sorted from_path to_path by blast
qed

definition sample_item :: "string \<Rightarrow> int \<Rightarrow> retention_item" where
  "sample_item name created = \<lparr>ri_manifest = \<lparr>ma_backup_id = lit name, ma_created_at = created, ma_entries = [],
     ma_total_bytes = 0, ma_book_count = 0\<rparr>, ri_remote_path = lit name\<rparr>"

lemma sample_item_valid: "name \<in> {''a'', ''b'', ''c''} \<Longrightarrow> validate_retention_item (sample_item name created) = Inr ()"
  by (auto simp: sample_item_def validate_retention_item_def validate_manifest_def validate_backup_required_def
      blank_iff is_whitespace_def)

theorem retention_exact_witness:
  "\<exists>paths. plan_backup_retention \<lparr>bc_target_url = lit ''u'', bc_auth_credential_id = None, bc_compression_enabled = False,
       bc_encryption_enabled = False, bc_max_backups = 1, bc_max_age_days = Some 1\<rparr> (lit ''b'') 100000
       [sample_item ''a'' 99000, sample_item ''b'' 98000, sample_item ''c'' 10] = Inr paths
    \<and> lit ''c'' \<in> set paths"
proof -
  let ?cfg = "\<lparr>bc_target_url = lit ''u'', bc_auth_credential_id = None, bc_compression_enabled = False,
       bc_encryption_enabled = False, bc_max_backups = 1, bc_max_age_days = Some 1\<rparr>"
  let ?cs = "[sample_item ''a'' 99000, sample_item ''b'' 98000, sample_item ''c'' 10]"
  have "validate_backup_config ?cfg = Inr ()" "validate_backup_required (lit ''b'') ''preserving_backup_id'' = Inr ()"
    "check_each validate_retention_item ?cs = Inr ()"
    by (simp_all add: validate_backup_config_def validate_backup_required_def validate_backup_optional_string_def
        blank_opt_def blank_iff is_whitespace_def check_each_ok sample_item_valid)
  then obtain paths where paths: "plan_backup_retention ?cfg (lit ''b'') 100000 ?cs = Inr paths"
    by (auto simp: plan_backup_retention_def Let_def)
  have "ri_remote_path (sample_item ''c'' 10) \<in> set paths"
    using retention_exact[OF paths] by (simp add: retention_cutoff_def i64_saturate_def sample_item_def)
  with paths show ?thesis by (auto simp: sample_item_def)
qed

end
