(* ===== verification/TextOps.thy ===== *)
theory TextOps
  imports Strings
begin

text \<open>
  The operations of \<open>str\<close> beyond splitting on characters: prefix tests, replacing and splitting
  on a substring, lines, UTF-8 bytes, and the FNV-1a hash with its rendering as sixteen
  hexadecimal digits.
\<close>

subsection \<open>ASCII tests\<close>

definition is_ascii_whitespace :: "nat \<Rightarrow> bool" where
  "is_ascii_whitespace c = (c \<in> {9, 10, 12, 13, 32})"

definition is_ascii_alphanumeric :: "nat \<Rightarrow> bool" where
  "is_ascii_alphanumeric c = (48 \<le> c \<and> c \<le> 57 \<or> 65 \<le> c \<and> c \<le> 90 \<or> 97 \<le> c \<and> c \<le> 122)"

definition is_ascii_letter :: "nat \<Rightarrow> bool" where
  "is_ascii_letter c = (65 \<le> c \<and> c \<le> 90 \<or> 97 \<le> c \<and> c \<le> 122)"

definition eq_ignore_case :: "ustr \<Rightarrow> ustr \<Rightarrow> bool" where
  \<comment> \<open>\<open>eq_ignore_ascii_case\<close>\<close>
  "eq_ignore_case s t = (to_ascii_lowercase s = to_ascii_lowercase t)"

subsection \<open>Prefixes\<close>

definition strip_prefix :: "ustr \<Rightarrow> ustr \<Rightarrow> ustr option" where
  "strip_prefix p s = (if starts_with s p then Some (drop (length p) s) else None)"

definition ends_with :: "ustr \<Rightarrow> ustr \<Rightarrow> bool" where
  "ends_with s p = starts_with (rev s) (rev p)"

definition trim_matches :: "('a \<Rightarrow> bool) \<Rightarrow> 'a list \<Rightarrow> 'a list" where
  "trim_matches P s = rev (dropWhile P (rev (dropWhile P s)))"

lemma starts_with_set: "starts_with s p \<Longrightarrow> set p \<subseteq> set s"
  by (induction s p rule: starts_with.induct) auto

lemma starts_with_iff: "starts_with s p \<longleftrightarrow> (\<exists>t. s = p @ t)"
  by (induction s p rule: starts_with.induct) auto

lemma starts_with_append: "starts_with (p @ s) p"
  by (simp add: starts_with_iff)

lemma starts_with_split: "starts_with s p \<Longrightarrow> s = p @ drop (length p) s"
  by (auto simp: starts_with_iff)

lemma strip_prefix_Some: "strip_prefix p s = Some t \<longleftrightarrow> s = p @ t"
  by (auto simp: strip_prefix_def starts_with_iff)

subsection \<open>Substrings\<close>

function str_replace :: "ustr \<Rightarrow> ustr \<Rightarrow> ustr \<Rightarrow> ustr" where
  \<comment> \<open>\<open>s.replace(p, r)\<close>: the matches from left to right, without overlaps\<close>
  "str_replace p r s = (if p = [] then concat (map (\<lambda>c. r @ [c]) s) @ r
     else case s of [] \<Rightarrow> []
       | c # cs \<Rightarrow> if starts_with s p then r @ str_replace p r (drop (length p) s)
           else c # str_replace p r cs)"
  by pat_completeness auto
termination
  by (relation "measure (\<lambda>(p, r, s). length s)") auto

declare str_replace.simps [simp del]

function split_str :: "ustr \<Rightarrow> ustr \<Rightarrow> ustr list" where
  \<comment> \<open>\<open>s.split(p)\<close> on a non-empty substring\<close>
  "split_str p s = (case s of [] \<Rightarrow> [[]]
     | c # cs \<Rightarrow> if p \<noteq> [] \<and> starts_with s p then [] # split_str p (drop (length p) s)
         else (case split_str p cs of [] \<Rightarrow> [[c]] | w # ws \<Rightarrow> (c # w) # ws))"
  by pat_completeness auto
termination
  by (relation "measure (\<lambda>(p, s). length s)") auto

declare split_str.simps [simp del]

lemma str_replace_Nil [simp]: "p \<noteq> [] \<Longrightarrow> str_replace p r [] = []"
  by (simp add: str_replace.simps)

lemma str_replace_hit:
  "p \<noteq> [] \<Longrightarrow> str_replace p r (p @ s) = r @ str_replace p r s"
proof (cases p)
  case (Cons c cs)
  have "str_replace p r (p @ s) = r @ str_replace p r (drop (length p) (p @ s))"
    using starts_with_append[of p s] by (subst str_replace.simps) (simp add: Cons)
  then show ?thesis by simp
qed simp

lemma str_replace_miss:
  "p \<noteq> [] \<Longrightarrow> \<not> starts_with (c # s) p \<Longrightarrow> str_replace p r (c # s) = c # str_replace p r s"
  by (subst str_replace.simps) simp

lemma replace_induct [consumes 1, case_names Nil hit miss]:
  \<comment> \<open>the scan for a substring: at the end, at a match, at a character that starts no match\<close>
  assumes "p \<noteq> []" and "P []" and "\<And>s. P s \<Longrightarrow> P (p @ s)"
    and "\<And>c s. \<not> starts_with (c # s) p \<Longrightarrow> P s \<Longrightarrow> P (c # s)"
  shows "P s"
proof (induction s rule: length_induct)
  case (1 s)
  show ?case
  proof (cases "starts_with s p")
    case True
    then obtain t where s: "s = p @ t" by (auto simp: starts_with_iff)
    with \<open>p \<noteq> []\<close> have "length t < length s" by simp
    with 1 have "P t" by blast
    with assms(3) s show ?thesis by simp
  next
    case False
    show ?thesis
    proof (cases s)
      case Nil
      with assms(2) show ?thesis by simp
    next
      case (Cons c cs)
      with 1 have "P cs" by simp
      with assms(4) False Cons show ?thesis by simp
    qed
  qed
qed

lemma str_replace_absent: "p \<noteq> [] \<Longrightarrow> hd p \<notin> set s \<Longrightarrow> str_replace p r s = s"
proof (induction s)
  case (Cons c s)
  then have "\<not> starts_with (c # s) p" by (cases p) auto
  with Cons show ?case by (simp add: str_replace_miss)
qed simp

lemma set_str_replace:
  assumes "p \<noteq> []" shows "set (str_replace p r s) \<subseteq> set r \<union> set s"
  by (induction s rule: replace_induct[OF assms])
    (auto simp: str_replace_hit str_replace_miss assms)

lemma filter_str_replace:
  \<comment> \<open>characters outside the pattern and the replacement stay, in order\<close>
  assumes "p \<noteq> []" and "\<And>c. c \<in> set p \<union> set r \<Longrightarrow> \<not> P c"
  shows "filter P (str_replace p r s) = filter P s"
proof -
  have "filter P p = []" "filter P r = []" using assms(2) by (auto simp: filter_empty_conv)
  then show ?thesis
    using assms(1) by (induction s rule: replace_induct[OF assms(1)])
      (simp_all add: str_replace_hit str_replace_miss)
qed

lemma split_str_nonempty [simp]: "split_str p s \<noteq> []"
  by (subst split_str.simps) (auto split: list.splits)

lemma split_str_hit: "p \<noteq> [] \<Longrightarrow> split_str p (p @ s) = [] # split_str p s"
proof (cases p)
  case (Cons c cs)
  have "split_str p (p @ s) = [] # split_str p (drop (length p) (p @ s))"
    using starts_with_append[of p s] by (subst split_str.simps) (simp add: Cons)
  then show ?thesis by simp
qed simp

lemma split_str_miss:
  "\<not> starts_with (c # s) p \<Longrightarrow>
     split_str p (c # s) = (c # hd (split_str p s)) # tl (split_str p s)"
  by (subst split_str.simps) (cases "split_str p s"; simp)

lemma filter_split_str:
  assumes "p \<noteq> []" and "\<And>c. c \<in> set p \<Longrightarrow> \<not> P c"
  shows "concat (map (filter P) (split_str p s)) = filter P s"
proof (induction s rule: replace_induct[OF assms(1)])
  case 1
  show ?case by (simp add: split_str.simps)
next
  case (2 s)
  have "filter P p = []" using assms(2) by (auto simp: filter_empty_conv)
  with 2 show ?case by (simp add: split_str_hit assms(1))
next
  case (3 c s)
  have "split_str p s = hd (split_str p s) # tl (split_str p s)" by simp
  then have "filter P s = filter P (hd (split_str p s)) @ concat (map (filter P) (tl (split_str p s)))"
    using 3(2) by (metis concat.simps(2) list.map(2))
  with 3(1) show ?case by (simp add: split_str_miss)
qed

fun find_str :: "ustr \<Rightarrow> ustr \<Rightarrow> (ustr \<times> ustr) option" where
  \<comment> \<open>\<open>s.find(p)\<close>: the text before the first match and the text after it\<close>
  "find_str p [] = (if p = [] then Some ([], []) else None)"
| "find_str p (c # cs) = (if starts_with (c # cs) p then Some ([], drop (length p) (c # cs))
     else map_option (\<lambda>(a, b). (c # a, b)) (find_str p cs))"

lemma find_str_Some: "find_str p s = Some (a, b) \<Longrightarrow> s = a @ p @ b"
  by (induction p s arbitrary: a rule: find_str.induct)
    (auto split: if_splits simp: starts_with_split)

subsection \<open>Lines\<close>

definition strip_cr :: "ustr \<Rightarrow> ustr" where
  "strip_cr s = (if s \<noteq> [] \<and> last s = 13 then butlast s else s)"

definition str_lines :: "ustr \<Rightarrow> ustr list" where
  \<comment> \<open>\<open>str::lines\<close>: a final line break ends the last line\<close>
  "str_lines s = (let pieces = split_on (\<lambda>c. c = 10) s in
     map strip_cr (butlast pieces) @ (if last pieces = [] then [] else [last pieces]))"

lemma strip_cr_none: "13 \<notin> set s \<Longrightarrow> strip_cr s = s"
  by (auto simp: strip_cr_def dest: last_in_set)

lemma str_lines_join:
  \<comment> \<open>lines without line breaks that do not end in an empty line are read back\<close>
  assumes "\<forall>l \<in> set ls. 10 \<notin> set l \<and> 13 \<notin> set l" and "ls \<noteq> [] \<Longrightarrow> last ls \<noteq> []"
  shows "str_lines (join [10] ls) = ls"
proof (cases "ls = []")
  case False
  then have "split_on (\<lambda>c. c = 10) (join [10] ls) = ls"
    using assms by (intro split_join) auto
  moreover have "map strip_cr (butlast ls) = butlast ls"
    using assms by (intro map_idI strip_cr_none) (auto dest: in_set_butlastD)
  ultimately show ?thesis
    using assms False by (simp add: str_lines_def)
qed (simp add: str_lines_def)

lemma str_lines_avoid: "l \<in> set (str_lines s) \<Longrightarrow> c \<in> set l \<Longrightarrow> c \<noteq> 10 \<and> c \<in> set s"
proof -
  assume l: "l \<in> set (str_lines s)" and c: "c \<in> set l"
  have strip: "set (strip_cr w) \<subseteq> set w" for w
    by (auto simp: strip_cr_def dest: in_set_butlastD)
  have "\<exists>w \<in> set (split_on (\<lambda>c. c = 10) s). c \<in> set w"
    using l c strip by (auto simp: str_lines_def Let_def split: if_splits dest!: in_set_butlastD
        intro: last_in_set[OF split_on_nonempty])
  then show ?thesis using split_on_avoids by blast
qed

lemma filter_str_lines:
  assumes "\<not> P 10" and "\<not> P 13"
  shows "concat (map (filter P) (str_lines s)) = filter P s"
proof -
  let ?pieces = "split_on (\<lambda>c. c = 10) s"
  have strip: "filter P (strip_cr w) = filter P w" for w
  proof (cases "w \<noteq> [] \<and> last w = 13")
    case True
    then have "w = butlast w @ [13]" by (metis append_butlast_last_id)
    then have "filter P w = filter P (butlast w)"
      using assms by (metis append_Nil2 filter.simps filter_append)
    with True show ?thesis by (simp add: strip_cr_def)
  qed (auto simp: strip_cr_def)
  have all: "concat (map (filter P) ?pieces) = filter P s"
    using assms(1)
  proof (induction s)
    case (Cons c s)
    then show ?case by (cases "split_on (\<lambda>c. c = 10) s") auto
  qed simp
  have "map (filter P) ?pieces = map (filter P) (butlast ?pieces) @ [filter P (last ?pieces)]"
    by (metis append_butlast_last_id list.map map_append split_on_nonempty)
  then have "concat (map (filter P) ?pieces)
      = concat (map (filter P) (butlast ?pieces)) @ filter P (last ?pieces)" by simp
  with all show ?thesis
    by (auto simp: str_lines_def Let_def strip comp_def)
qed

subsection \<open>Bytes and the FNV-1a hash\<close>

definition utf8_bytes :: "nat \<Rightarrow> nat list" where
  "utf8_bytes c = (if c < 128 then [c]
     else if c < 2048 then [192 + c div 64, 128 + c mod 64]
     else if c < 65536 then [224 + c div 4096, 128 + c div 64 mod 64, 128 + c mod 64]
     else [240 + c div 262144, 128 + c div 4096 mod 64, 128 + c div 64 mod 64, 128 + c mod 64])"

definition fnv1a :: "nat list \<Rightarrow> u64" where
  "fnv1a bytes = fold (\<lambda>b h. (Bit_Operations.xor h (of_nat b)) * 1099511628211) bytes 14695981039346656037"

definition hex_digit :: "nat \<Rightarrow> nat" where
  "hex_digit d = (if d < 10 then 48 + d else 87 + d)"

definition hex16 :: "u64 \<Rightarrow> ustr" where
  \<comment> \<open>\<open>format!("{hash:016x}")\<close>\<close>
  "hex16 h = map (\<lambda>i. hex_digit (unat h div 16 ^ i mod 16)) (rev [0..<16])"

lemma length_hex16 [simp]: "length (hex16 h) = 16"
  by (simp add: hex16_def)

end
