(* ===== verification/SyncRedact.thy ===== *)
theory SyncRedact
  imports SyncTypes TextOps
begin

text \<open>
  Redaction of transport errors (\<open>redact_webdav_sync_error\<close> and its helpers in
  \<open>crates/reader-sync/src/lib.rs\<close>). The code walks over UTF-8 bytes and tests ASCII bytes only;
  on scalar values the walk is the same, since no byte of a longer character is ASCII.
\<close>

subsection \<open>Character classes\<close>

definition is_auth_token_byte :: "nat \<Rightarrow> bool" where
  "is_auth_token_byte c = (is_ascii_alphanumeric c \<or> c \<in> set (lit ''+/=._:-''))"

definition is_sensitive_value_terminator :: "nat \<Rightarrow> bool" where
  "is_sensitive_value_terminator c = (is_ascii_whitespace c \<or> c \<in> set (lit '',;''))"

definition starts_with_ignore_ascii_case :: "ustr \<Rightarrow> ustr \<Rightarrow> bool" where
  "starts_with_ignore_ascii_case s needle =
     (length needle \<le> length s \<and> to_ascii_lowercase (take (length needle) s) = to_ascii_lowercase needle)"

subsection \<open>The two passes\<close>

definition auth_match :: "ustr \<Rightarrow> ustr \<Rightarrow> bool" where
  "auth_match scheme s = (starts_with_ignore_ascii_case s scheme
     \<and> (case drop (length scheme) s of [] \<Rightarrow> False | w # _ \<Rightarrow> is_ascii_whitespace w))"

definition skip_auth :: "ustr \<Rightarrow> ustr \<Rightarrow> ustr" where
  "skip_auth scheme s = dropWhile is_auth_token_byte (dropWhile is_ascii_whitespace (drop (length scheme) s))"

lemma skip_auth_shorter [simp]: "auth_match scheme s \<Longrightarrow> length (skip_auth scheme s) < length s"
proof -
  assume m: "auth_match scheme s"
  then obtain w t where w: "drop (length scheme) s = w # t" "is_ascii_whitespace w"
    by (auto simp: auth_match_def split: list.splits)
  then have "length (skip_auth scheme s) \<le> length t"
    using length_dropWhile_le[of is_auth_token_byte "dropWhile is_ascii_whitespace t"]
      length_dropWhile_le[of is_ascii_whitespace t] by (simp add: skip_auth_def)
  also have "length t < length s" using w(1) by (metis length_Cons length_drop lessI less_le_trans diff_le_self)
  finally show ?thesis .
qed

function redact_auth_scheme :: "ustr \<Rightarrow> ustr \<Rightarrow> ustr" where
  "redact_auth_scheme scheme [] = []"
| "redact_auth_scheme scheme (c # cs) = (if auth_match scheme (c # cs)
     then scheme @ lit '' REDACTED'' @ redact_auth_scheme scheme (skip_auth scheme (c # cs))
     else c # redact_auth_scheme scheme cs)"
  by pat_completeness auto
termination
proof (relation "measure (\<lambda>(scheme, s). length s)")
  show "auth_match scheme (c # cs) \<Longrightarrow> ((scheme, skip_auth scheme (c # cs)), scheme, c # cs) \<in> measure (\<lambda>(scheme, s). length s)"
    for scheme c cs using skip_auth_shorter[of scheme "c # cs"] by simp
qed simp_all

definition sensitive_keys :: "ustr list" where
  "sensitive_keys = map lit [''password'', ''token'', ''cookie'', ''authorization'']"

definition key_match :: "ustr \<Rightarrow> ustr \<Rightarrow> bool" where
  "key_match s key = (starts_with_ignore_ascii_case s key
     \<and> (case drop (length key) s of e # v # _ \<Rightarrow> e = 61 \<and> \<not> is_sensitive_value_terminator v | _ \<Rightarrow> False))"

definition skip_value :: "ustr \<Rightarrow> ustr \<Rightarrow> ustr" where
  "skip_value s key = dropWhile (\<lambda>c. \<not> is_sensitive_value_terminator c) (drop (length key + 1) s)"

lemma skip_value_shorter: "key_match s key \<Longrightarrow> length (skip_value s key) < length s"
proof -
  assume m: "key_match s key"
  then obtain e v t where "drop (length key) s = e # v # t"
    by (auto simp: key_match_def split: list.splits)
  then have "length (drop (length key) s) = length t + 2" by simp
  then have "length key + 2 \<le> length s" by simp
  then show ?thesis
    using length_dropWhile_le[of "\<lambda>c. \<not> is_sensitive_value_terminator c" "drop (length key + 1) s"]
    by (simp add: skip_value_def)
qed

function redact_sensitive_key_values :: "ustr \<Rightarrow> ustr" where
  "redact_sensitive_key_values [] = []"
| "redact_sensitive_key_values (c # cs) = (case find (key_match (c # cs)) sensitive_keys of
     Some key \<Rightarrow> take (length key) (c # cs) @ lit ''=REDACTED'' @ redact_sensitive_key_values (skip_value (c # cs) key)
   | None \<Rightarrow> c # redact_sensitive_key_values cs)"
  by pat_completeness auto
termination
proof (relation "measure length")
  show "find (key_match (c # cs)) sensitive_keys = Some key \<Longrightarrow> (skip_value (c # cs) key, c # cs) \<in> measure length"
    for c cs key using skip_value_shorter[of "c # cs" key] by (auto simp: find_Some_iff)
qed simp_all

definition redact_webdav_sync_error :: "ustr \<Rightarrow> ustr" where
  "redact_webdav_sync_error message =
     redact_sensitive_key_values (redact_auth_scheme (lit ''Bearer'') (redact_auth_scheme (lit ''Basic'') message))"

subsection \<open>Redacted text is not blank\<close>

lemma redact_auth_not_blank: "\<not> blank s \<Longrightarrow> \<not> blank (redact_auth_scheme scheme s)"
proof (induction scheme s rule: redact_auth_scheme.induct)
  case (2 scheme c cs)
  show ?case
  proof (cases "auth_match scheme (c # cs)")
    case True
    then show ?thesis by (auto simp: blank_iff is_whitespace_def)
  next
    case False
    with 2 show ?thesis by (auto simp: blank_iff)
  qed
qed simp

lemma redact_values_not_blank: "\<not> blank s \<Longrightarrow> \<not> blank (redact_sensitive_key_values s)"
proof (induction s rule: redact_sensitive_key_values.induct)
  case (2 c cs)
  show ?case
  proof (cases "find (key_match (c # cs)) sensitive_keys")
    case (Some key)
    then show ?thesis by (auto simp: blank_iff is_whitespace_def)
  next
    case None
    with 2 show ?thesis by (auto simp: blank_iff)
  qed
qed simp

lemma redact_not_blank: "\<not> blank s \<Longrightarrow> \<not> blank (redact_webdav_sync_error s)"
  by (simp add: redact_webdav_sync_error_def redact_values_not_blank redact_auth_not_blank)

subsection \<open>Values do not influence the redacted text\<close>

definition secret :: "ustr \<Rightarrow> bool" where
  "secret v = (v \<noteq> [] \<and> (\<forall>c \<in> set v. \<not> is_sensitive_value_terminator c))"

definition ends_value :: "ustr \<Rightarrow> bool" where
  "ends_value rest = (case rest of [] \<Rightarrow> True | c # _ \<Rightarrow> is_sensitive_value_terminator c)"

lemma skip_secret: "(\<forall>c \<in> set v. \<not> is_sensitive_value_terminator c) \<Longrightarrow> ends_value rest \<Longrightarrow>
    dropWhile (\<lambda>c. \<not> is_sensitive_value_terminator c) (v @ rest) = rest"
  by (induction v) (auto simp: ends_value_def split: list.splits)

lemma lower_has_equals: "61 \<in> set (to_ascii_lowercase s) \<longleftrightarrow> 61 \<in> set s"
  by (auto simp: to_ascii_lowercase_def image_iff split: if_splits intro!: bexI[of _ 61])

lemma sensitive_letters: "key \<in> set sensitive_keys \<Longrightarrow> c \<in> set key \<Longrightarrow> 97 \<le> c \<and> c \<le> 122"
  by (auto simp: sensitive_keys_def)

lemma sensitive_no_equals: "key \<in> set sensitive_keys \<Longrightarrow> 61 \<notin> set key"
  using sensitive_letters[of key 61] by auto

lemma key_letters:
  assumes "to_ascii_lowercase K \<in> set sensitive_keys" and "c \<in> set K"
  shows "c \<noteq> 61 \<and> \<not> is_sensitive_value_terminator c"
proof -
  let ?l = "if 65 \<le> c \<and> c \<le> 90 then c + 32 else c"
  have "?l \<in> set (to_ascii_lowercase K)" using assms(2) by (auto simp: to_ascii_lowercase_def)
  then have "97 \<le> ?l \<and> ?l \<le> 122" by (rule sensitive_letters[OF assms(1)])
  then have "65 \<le> c" by (auto split: if_splits)
  then have "c \<noteq> 44" "c \<noteq> 59" "c \<noteq> 61" "c > 32" by auto
  then show ?thesis by (simp add: is_sensitive_value_terminator_def is_ascii_whitespace_def)
qed

lemma key_match_before:
  \<comment> \<open>a match never reads more of the text than the first character of a value\<close>
  assumes "61 \<notin> set key" and "secret v"
  shows "key_match (q @ 61 # v @ rest) key \<longleftrightarrow>
    (if length key < length q then key_match (q @ [61]) key
     else length key = length q \<and> to_ascii_lowercase q = to_ascii_lowercase key)"
proof -
  let ?s = "q @ 61 # v @ rest"
  obtain w vs where v: "v = w # vs" "\<not> is_sensitive_value_terminator w"
    using assms(2) by (cases v) (auto simp: secret_def)
  consider (less) "length key < length q" | (eq) "length key = length q" | (more) "length q < length key" by linarith
  then show ?thesis
  proof cases
    case less
    then obtain e t where d: "drop (length key) q = e # t" by (cases "drop (length key) q") auto
    have "starts_with_ignore_ascii_case ?s key = starts_with_ignore_ascii_case (q @ [61]) key"
      using less by (simp add: starts_with_ignore_ascii_case_def)
    then show ?thesis using less d by (cases t) (simp_all add: key_match_def)
  next
    case eq
    then show ?thesis by (simp add: key_match_def starts_with_ignore_ascii_case_def v)
  next
    case more
    have "\<not> starts_with_ignore_ascii_case ?s key"
    proof
      assume "starts_with_ignore_ascii_case ?s key"
      then have eq: "to_ascii_lowercase (take (length key) ?s) = to_ascii_lowercase key"
        by (simp add: starts_with_ignore_ascii_case_def)
      have "61 \<in> set (take (length key) ?s)" using more by (cases "length key - length q") auto
      then have "61 \<in> set key" using lower_has_equals eq by metis
      then show False using assms(1) by simp
    qed
    then show ?thesis using more by (simp add: key_match_def)
  qed
qed

lemma redact_unfold: "s \<noteq> [] \<Longrightarrow> redact_sensitive_key_values s = (case find (key_match s) sensitive_keys of
     Some key \<Rightarrow> take (length key) s @ lit ''=REDACTED'' @ redact_sensitive_key_values (skip_value s key)
   | None \<Rightarrow> hd s # redact_sensitive_key_values (tl s))"
  by (cases s) (auto split: option.split)

lemma skip_value_split:
  assumes K: "to_ascii_lowercase K \<in> set sensitive_keys" and v: "secret v" and rest: "ends_value rest"
    and key: "key \<in> set sensitive_keys" and m: "key_match (pre @ K @ 61 # v @ rest) key"
  shows "length key \<le> length (pre @ K)
    \<and> ((\<exists>b. (\<forall>w. secret w \<longrightarrow> skip_value (pre @ K @ 61 # w @ rest) key = b @ K @ 61 # w @ rest) \<and> length b < length pre)
      \<or> (\<forall>w. secret w \<longrightarrow> skip_value (pre @ K @ 61 # w @ rest) key = rest))"
proof -
  let ?q = "pre @ K"
  have ne: "61 \<notin> set key" by (rule sensitive_no_equals[OF key])
  have m': "key_match (?q @ 61 # v @ rest) key" using m by simp
  then have len: "length key \<le> length ?q"
    unfolding key_match_before[OF ne v] by (auto split: if_splits)
  have plainK: "\<forall>c \<in> set K. c \<noteq> 61 \<and> \<not> is_sensitive_value_terminator c" using key_letters[OF K] by blast
  have eqt: "\<not> is_sensitive_value_terminator 61"
    by (simp add: is_sensitive_value_terminator_def is_ascii_whitespace_def)
  have tail: "dropWhile (\<lambda>c. \<not> is_sensitive_value_terminator c) (a @ K @ 61 # w @ rest) = rest"
    if "\<forall>c \<in> set a. \<not> is_sensitive_value_terminator c" "secret w" for a w
  proof -
    have "\<forall>c \<in> set (a @ K @ 61 # w). \<not> is_sensitive_value_terminator c"
      using that plainK eqt by (auto simp: secret_def)
    from skip_secret[OF this rest] show ?thesis by simp
  qed
  show ?thesis
  proof (cases "length key < length pre")
    case True
    let ?u = "drop (length key + 1) pre"
    let ?b = "dropWhile (\<lambda>c. \<not> is_sensitive_value_terminator c) ?u"
    have skip: "skip_value (pre @ K @ 61 # w @ rest) key
        = dropWhile (\<lambda>c. \<not> is_sensitive_value_terminator c) (?u @ K @ 61 # w @ rest)" for w
      using True by (simp add: skip_value_def)
    show ?thesis
    proof (cases "\<forall>c \<in> set ?u. \<not> is_sensitive_value_terminator c")
      case True
      have "skip_value (pre @ K @ 61 # w @ rest) key = rest" if "secret w" for w
        unfolding skip by (rule tail[OF True that])
      then show ?thesis using len by blast
    next
      case False
      then obtain c where "c \<in> set ?u" "is_sensitive_value_terminator c" by blast
      then have "dropWhile (\<lambda>c. \<not> is_sensitive_value_terminator c) (?u @ ys) = ?b @ ys" for ys
        by (intro dropWhile_append1[of c]) auto
      then have "\<forall>w. secret w \<longrightarrow> skip_value (pre @ K @ 61 # w @ rest) key = ?b @ K @ 61 # w @ rest"
        using skip by simp
      moreover have "length ?b < length pre"
        using True length_dropWhile_le[of "\<lambda>c. \<not> is_sensitive_value_terminator c" ?u] by simp
      ultimately show ?thesis using len by (intro conjI disjI1 exI[of _ ?b])
    qed
  next
    case False
    have "length key = length ?q"
    proof (rule ccontr)
      assume "length key \<noteq> length ?q"
      then have lt: "length key < length ?q" using len by simp
      then have "key_match (?q @ [61]) key" using m' unfolding key_match_before[OF ne v] by simp
      moreover have dk: "drop (length key) (?q @ [61]) = drop (length key - length pre) K @ [61]" using False lt by simp
      moreover obtain e t where et: "drop (length key - length pre) K = e # t"
        using False lt by (cases "drop (length key - length pre) K") auto
      ultimately have "e = 61" by (auto simp: key_match_def split: list.splits)
      moreover have "e \<in> set K" using et by (metis in_set_dropD list.set_intros(1))
      ultimately show False using plainK by blast
    qed
    then have "skip_value (pre @ K @ 61 # w @ rest) key = rest" if "secret w" for w
      using skip_secret[of w rest] rest that by (simp add: skip_value_def secret_def)
    then show ?thesis using len by blast
  qed
qed



end
