(* ===== verification/SyncImport.thy ===== *)
theory SyncImport
  imports SyncBackup SyncRedact TextOps
begin

text \<open>
  Import of remote WebDAV books (\<open>RemoteBookMetadata\<close> to
  \<open>plan_webdav_remote_book_local_import_input\<close> in \<open>crates/reader-sync/src/lib.rs\<close>): the
  candidate plan, the adapter operations, the summary of an import run, the declared file name,
  media type and path checksum handed to the local-book import.
\<close>

subsection \<open>Remote books\<close>

record remote_book =
  rb_remote_path :: ustr
  rb_title :: ustr
  rb_author :: "ustr option"
  rb_format :: "ustr option"
  rb_file_size :: "u64 option"
  rb_remote_modified_at :: "int option"
  rb_etag :: "ustr option"

definition validate_remote_book :: "remote_book \<Rightarrow> unit sync_result" where
  "validate_remote_book b = checks [
     validate_backup_required (rb_remote_path b) ''remote_path'',
     validate_backup_required (rb_title b) ''title'',
     validate_backup_optional_string (rb_author b) ''author'',
     validate_backup_optional_string (rb_format b) ''format'',
     validate_backup_optional_string (rb_etag b) ''etag'']"

fun path_set :: "string \<Rightarrow> ustr list \<Rightarrow> remote_book list \<Rightarrow> ustr list sync_result" where
  \<comment> \<open>the loop of \<open>validate_remote_book_path_set\<close>\<close>
  "path_set field seen [] = Inr seen"
| "path_set field seen (b # bs) = and_then (validate_remote_book b) (\<lambda>_.
     if rb_remote_path b \<in> set seen then Inl (InvalidBackup (field @ ''.remote_path''))
     else path_set field (rb_remote_path b # seen) bs)"

definition validate_remote_book_path_set :: "remote_book list \<Rightarrow> string \<Rightarrow> ustr list sync_result" where
  "validate_remote_book_path_set bs field = path_set field [] bs"

datatype import_mode = MetadataOnly | IndexOnly | LazyContent | EagerFirstChapter | EagerAllContent
  | ValidateExisting | ReimportChanged

record import_request =
  ir_directory_path :: "ustr option"
  ir_remote_books :: "remote_book list"
  ir_selected_remote_paths :: "ustr list option"
  ir_import_mode :: import_mode
  ir_maximum_book_count :: nat
  ir_preview_limit :: u32
  ir_require_connection_test :: bool

definition max_preview_limit :: u32 where
  "max_preview_limit = 64"

definition default_import_request :: import_request where
  "default_import_request = \<lparr>ir_directory_path = None, ir_remote_books = [], ir_selected_remote_paths = None,
     ir_import_mode = LazyContent, ir_maximum_book_count = 32, ir_preview_limit = max_preview_limit,
     ir_require_connection_test = True\<rparr>"

definition effective_preview_limit :: "import_request \<Rightarrow> u32" where
  "effective_preview_limit r = min (ir_preview_limit r) max_preview_limit"

definition validate_import_request :: "import_request \<Rightarrow> unit sync_result" where
  "validate_import_request r = checks [
     validate_backup_optional_string (ir_directory_path r) ''remote_book_directory_path'',
     (case ir_selected_remote_paths r of None \<Rightarrow> Inr ()
      | Some paths \<Rightarrow> check_each (\<lambda>p. validate_backup_required p ''selected_remote_paths'') paths),
     check_each validate_remote_book (ir_remote_books r)]"

record import_plan =
  ip_effective_preview_limit :: u32
  ip_import_mode :: import_mode
  ip_listed :: "remote_book list"
  ip_importable :: "remote_book list"
  ip_skipped_paths :: "ustr list"
  ip_operation_log :: "ustr list"

definition validate_import_plan :: "import_plan \<Rightarrow> unit sync_result" where
  "validate_import_plan p =
     and_then (ensure (ip_effective_preview_limit p \<noteq> 0) (InvalidBackup ''effective_preview_limit'')) (\<lambda>_.
     and_then (validate_remote_book_path_set (ip_listed p) ''listed_remote_books'') (\<lambda>listed.
     and_then (validate_remote_book_path_set (ip_importable p) ''importable_remote_books'') (\<lambda>importable.
     and_then (ensure (set importable \<subseteq> set listed) (InvalidBackup ''importable_remote_books.remote_path'')) (\<lambda>_.
     and_then (validate_unique_sync_string_list (ip_skipped_paths p) ''skipped_remote_paths'') (\<lambda>skipped.
     and_then (ensure (\<forall>q \<in> set skipped. q \<in> set listed \<and> q \<notin> set importable) (InvalidBackup ''skipped_remote_paths'')) (\<lambda>_.
     checks [
       check_each validate_remote_book (ip_listed p),
       check_each validate_remote_book (ip_importable p),
       validate_sync_string_list (ip_skipped_paths p) ''skipped_remote_paths'',
       validate_sync_string_list (ip_operation_log p) ''operation_log'']))))))"

subsection \<open>Formats\<close>

definition rsplit_once :: "nat \<Rightarrow> ustr \<Rightarrow> (ustr \<times> ustr) option" where
  \<comment> \<open>\<open>str::rsplit_once\<close> on one character\<close>
  "rsplit_once c s = (if c \<in> set s
     then Some (rev (tl (dropWhile (\<lambda>x. x \<noteq> c) (rev s))), rev (takeWhile (\<lambda>x. x \<noteq> c) (rev s))) else None)"

definition last_component :: "ustr \<Rightarrow> ustr" where
  \<comment> \<open>\<open>rsplit('/').next()\<close>\<close>
  "last_component path = last (split_on (\<lambda>x. x = 47) path)"

definition trim_dots :: "ustr \<Rightarrow> ustr" where
  \<comment> \<open>\<open>trim_matches('.')\<close>\<close>
  "trim_dots s = rev (dropWhile (\<lambda>c. c = 46) (rev (dropWhile (\<lambda>c. c = 46) s)))"

definition remote_path_extension :: "ustr \<Rightarrow> ustr option" where
  "remote_path_extension path = (case rsplit_once 46 (trim (last_component path)) of
     None \<Rightarrow> None
   | Some (_, e) \<Rightarrow> (let extension = to_ascii_lowercase (trim e)
                     in if extension = [] then None else Some extension))"

definition remote_book_extension :: "remote_book \<Rightarrow> ustr option" where
  "remote_book_extension b =
     (let from_format = (case rb_format b of None \<Rightarrow> None | Some f \<Rightarrow>
          (let format = to_ascii_lowercase (trim_dots (trim f)) in if format = [] then None else Some format))
      in case from_format of Some f \<Rightarrow> Some f | None \<Rightarrow> remote_path_extension (rb_remote_path b))"

definition supported_extensions :: "ustr list" where
  "supported_extensions = map lit [''txt'', ''epub'', ''pdf'', ''mobi'', ''azw'', ''azw3'', ''kf8'', ''umd'',
     ''zip'', ''cbz'', ''archive'', ''tar'', ''webdav'', ''webdavbook'']"

definition is_supported_remote_book :: "remote_book \<Rightarrow> bool" where
  "is_supported_remote_book b =
     (case remote_book_extension b of None \<Rightarrow> False | Some e \<Rightarrow> e \<in> set supported_extensions)"

definition media_type_for_extension :: "ustr \<Rightarrow> ustr" where
  "media_type_for_extension e =
     (if e = lit ''txt'' then lit ''text/plain''
      else if e = lit ''epub'' then lit ''application/epub+zip''
      else if e = lit ''pdf'' then lit ''application/pdf''
      else if e = lit ''mobi'' then lit ''application/x-mobipocket-ebook''
      else if e \<in> {lit ''azw'', lit ''azw3'', lit ''kf8''} then lit ''application/vnd.amazon.ebook''
      else if e = lit ''umd'' then lit ''application/x-umd''
      else if e \<in> {lit ''zip'', lit ''cbz'', lit ''archive''} then lit ''application/zip''
      else if e = lit ''tar'' then lit ''application/x-tar''
      else if e \<in> {lit ''webdav'', lit ''webdavbook''} then lit ''application/vnd.reader-core.webdav-local-book+json''
      else lit ''application/octet-stream'')"

definition remote_book_media_type :: "remote_book \<Rightarrow> ustr" where
  "remote_book_media_type b = (case remote_book_extension b of
     Some e \<Rightarrow> media_type_for_extension e | None \<Rightarrow> lit ''application/octet-stream'')"

definition filename_has_extension :: "ustr \<Rightarrow> bool" where
  "filename_has_extension filename = (case rsplit_once 46 (last_component filename) of
     None \<Rightarrow> False | Some (_, e) \<Rightarrow> \<not> blank e)"

definition declared_filename :: "remote_book \<Rightarrow> ustr option \<Rightarrow> ustr" where
  "declared_filename b extension =
     (let component = trim (last_component (rb_remote_path b));
          path_name = (if component = [] then lit ''remote-book'' else component);
          named = (if blank (rb_title b) then path_name else trim (rb_title b));
          filename = (if blank named then lit ''remote-book'' else named)
      in if filename_has_extension filename then filename
         else case extension of
           Some e \<Rightarrow> if blank e then filename else filename @ lit ''.'' @ e
         | None \<Rightarrow> filename)"

subsection \<open>The checksum of a remote path\<close>

definition stable_import_checksum :: "ustr list \<Rightarrow> ustr" where
  "stable_import_checksum parts =
     lit ''fnv1a64:'' @ hex16 (fnv1a (concat (map utf8_bytes (join (lit ''|'') parts))))"

subsection \<open>The candidate plan\<close>

definition put_first :: "remote_book \<Rightarrow> (ustr, remote_book) smap \<Rightarrow> (ustr, remote_book) smap" where
  \<comment> \<open>\<open>entry(path).or_insert_with(..)\<close>\<close>
  "put_first b m = (case map_of m (rb_remote_path b) of Some _ \<Rightarrow> m | None \<Rightarrow> sm_insert (rb_remote_path b) b m)"

definition unique_sorted_remote_books :: "remote_book list \<Rightarrow> remote_book list" where
  "unique_sorted_remote_books bs = sm_values (fold put_first bs [])"

definition plan_remote_book_import :: "import_request \<Rightarrow> import_plan sync_result" where
  "plan_remote_book_import r = and_then (validate_import_request r) (\<lambda>_.
     let listed = unique_sorted_remote_books (ir_remote_books r);
         chosen = (\<lambda>b. case ir_selected_remote_paths r of Some ps \<Rightarrow> rb_remote_path b \<in> set ps | None \<Rightarrow> True);
         candidates = take (ir_maximum_book_count r) (filter chosen listed);
         skipped = map rb_remote_path (filter (\<lambda>b. \<not> is_supported_remote_book b) candidates)
     in Inr \<lparr>ip_effective_preview_limit = effective_preview_limit r, ip_import_mode = ir_import_mode r,
          ip_listed = listed, ip_importable = filter is_supported_remote_book candidates,
          ip_skipped_paths = skipped,
          ip_operation_log = map (\<lambda>p. lit ''remote_book:skip_unsupported:'' @ p) skipped\<rparr>)"

datatype import_operation_kind = OpConnectionTest | OpListDirectory | OpDownloadFile

record import_operation =
  io_kind :: import_operation_kind
  io_path :: "ustr option"

definition or_default :: "ustr option \<Rightarrow> ustr" where
  "or_default p = (case p of Some s \<Rightarrow> s | None \<Rightarrow> [])"

definition validate_import_operation :: "import_operation \<Rightarrow> unit sync_result" where
  "validate_import_operation q = (case io_kind q of
     OpConnectionTest \<Rightarrow> ensure (io_path q = None) (InvalidBackup ''operation.path'')
   | _ \<Rightarrow> validate_backup_required (or_default (io_path q)) ''operation.path'')"

record import_execution_plan =
  ie_candidate_plan :: import_plan
  ie_operations :: "import_operation list"

definition validate_import_execution_plan :: "import_execution_plan \<Rightarrow> unit sync_result" where
  "validate_import_execution_plan p = checks [
     validate_import_plan (ie_candidate_plan p),
     check_each validate_import_operation (ie_operations p)]"

definition plan_remote_book_import_execution :: "import_request \<Rightarrow> import_execution_plan sync_result" where
  "plan_remote_book_import_execution r = and_then (plan_remote_book_import r) (\<lambda>cp.
     let test = (if ir_require_connection_test r then [\<lparr>io_kind = OpConnectionTest, io_path = None\<rparr>] else []);
         listing = (case ir_directory_path r of
             Some d \<Rightarrow> if blank d then [] else [\<lparr>io_kind = OpListDirectory, io_path = Some (trim d)\<rparr>]
           | None \<Rightarrow> []);
         downloads = map (\<lambda>b. \<lparr>io_kind = OpDownloadFile, io_path = Some (rb_remote_path b)\<rparr>) (ip_importable cp);
         p = \<lparr>ie_candidate_plan = cp, ie_operations = test @ listing @ downloads\<rparr>
     in and_then (validate_import_execution_plan p) (\<lambda>_. Inr p))"

definition import_adapter_operations :: "import_execution_plan \<Rightarrow> ustr list sync_result" where
  "import_adapter_operations p = and_then (validate_import_execution_plan p) (\<lambda>_.
     Inr (map (\<lambda>q. case io_kind q of
         OpConnectionTest \<Rightarrow> lit ''connectionTest''
       | OpListDirectory \<Rightarrow> lit ''listDirectory:'' @ or_default (io_path q)
       | OpDownloadFile \<Rightarrow> lit ''downloadFile:'' @ or_default (io_path q)) (ie_operations p)))"

subsection \<open>Input of the local import\<close>

record import_source_metadata =
  im_byte_count :: u64
  im_modification_timestamp :: "int option"
  im_resource_identifier_hint :: "ustr option"
  im_source_path_checksum :: "ustr option"

record local_import_input =
  li_remote_book :: remote_book
  li_declared_filename :: ustr
  li_declared_extension :: "ustr option"
  li_declared_mime_type :: "ustr option"
  li_source_metadata :: import_source_metadata

definition plan_local_import_input :: "remote_book \<Rightarrow> u64 \<Rightarrow> local_import_input sync_result" where
  "plan_local_import_input b downloaded = and_then (checks [
       validate_backup_required (rb_remote_path b) ''remote_path'',
       validate_backup_optional_string (rb_author b) ''author'',
       validate_backup_optional_string (rb_format b) ''format'',
       validate_backup_optional_string (rb_etag b) ''etag'',
       ensure (is_supported_remote_book b) (InvalidBackup ''remote_book.format'')]) (\<lambda>_.
     let extension = remote_book_extension b
     in Inr \<lparr>li_remote_book = b, li_declared_filename = declared_filename b extension,
          li_declared_extension = extension,
          li_declared_mime_type = map_option media_type_for_extension extension,
          li_source_metadata = \<lparr>im_byte_count = downloaded, im_modification_timestamp = rb_remote_modified_at b,
            im_resource_identifier_hint = rb_etag b,
            im_source_path_checksum = Some (stable_import_checksum [lit ''webdav-remote-path'', rb_remote_path b])\<rparr>\<rparr>)"

subsection \<open>The result of an import run\<close>

datatype import_status = ImportSuccess | ImportPartialFailure | ImportFailure

definition classify_import_status :: "nat \<Rightarrow> ustr list \<Rightarrow> import_status" where
  "classify_import_status imported errors =
     (if errors = [] then ImportSuccess else if imported > 0 then ImportPartialFailure else ImportFailure)"

record imported_book =
  ib_remote_book :: remote_book
  ib_detected_format :: ustr
  ib_chapters_materialized :: u32
  ib_downloaded_byte_count :: u64

definition imported_path :: "imported_book \<Rightarrow> ustr" where
  "imported_path b = rb_remote_path (ib_remote_book b)"

definition validate_imported_book :: "imported_book \<Rightarrow> unit sync_result" where
  "validate_imported_book b = checks [
     validate_remote_book (ib_remote_book b),
     validate_backup_required (ib_detected_format b) ''detected_format'']"

fun imported_paths_ok :: "ustr list \<Rightarrow> ustr list \<Rightarrow> imported_book list \<Rightarrow> ustr list sync_result" where
  \<comment> \<open>the loop over the imported books: known to the plan, and each once\<close>
  "imported_paths_ok allowed seen [] = Inr seen"
| "imported_paths_ok allowed seen (b # bs) = and_then (validate_imported_book b) (\<lambda>_.
     if imported_path b \<notin> set allowed \<or> imported_path b \<in> set seen
     then Inl (InvalidBackup ''imported_books.remote_path'')
     else imported_paths_ok allowed (imported_path b # seen) bs)"

record import_result_request =
  rr_require_connection_test :: bool
  rr_connection_ok :: bool
  rr_plan :: import_plan
  rr_imported_books :: "imported_book list"
  rr_import_errors :: "ustr list"

definition validate_import_result_request :: "import_result_request \<Rightarrow> unit sync_result" where
  "validate_import_result_request r = and_then (validate_import_plan (rr_plan r)) (\<lambda>_.
     and_then (imported_paths_ok (map rb_remote_path (ip_importable (rr_plan r))) [] (rr_imported_books r)) (\<lambda>_.
     validate_sync_string_list (rr_import_errors r) ''import_errors''))"

record import_result =
  is_status :: import_status
  is_connection_ok :: bool
  is_listed :: "remote_book list"
  is_imported_books :: "imported_book list"
  is_skipped_paths :: "ustr list"
  is_operation_log :: "ustr list"
  is_errors :: "ustr list"

definition validate_import_result :: "import_result \<Rightarrow> unit sync_result" where
  "validate_import_result r =
     and_then (validate_remote_book_path_set (is_listed r) ''listed_remote_books'') (\<lambda>listed.
     and_then (imported_paths_ok listed [] (is_imported_books r)) (\<lambda>imported.
     and_then (validate_unique_sync_string_list (is_skipped_paths r) ''skipped_remote_paths'') (\<lambda>skipped.
     and_then (ensure (\<forall>q \<in> set skipped. q \<in> set listed \<and> q \<notin> set imported) (InvalidBackup ''skipped_remote_paths'')) (\<lambda>_.
     checks [
       validate_sync_string_list (is_operation_log r) ''operation_log'',
       validate_sync_string_list (is_errors r) ''errors'',
       ensure (is_status r = classify_import_status (length (is_imported_books r)) (is_errors r))
         (InvalidBackup ''status'')]))))"

definition import_log :: "import_result_request \<Rightarrow> imported_book list \<Rightarrow> ustr list \<Rightarrow> ustr list" where
  "import_log r imported errors =
     (if rr_require_connection_test r then [lit ''connection_test:success''] else [])
     @ [lit ''remote_books:list:'' @ decimal (length (ip_listed (rr_plan r)))]
     @ ip_operation_log (rr_plan r)
     @ concat (map (\<lambda>b. [
          lit ''remote_book:download:'' @ imported_path b @ lit '':'' @ decimal (unat (ib_downloaded_byte_count b)),
          lit ''remote_book:import:'' @ imported_path b @ lit '':'' @ ib_detected_format b]) imported)
     @ map (\<lambda>e. lit ''remote_book:import_failed:'' @ e) errors"

definition summarize_import_result :: "import_result_request \<Rightarrow> import_result sync_result" where
  "summarize_import_result r = and_then (validate_import_result_request r) (\<lambda>_.
     if rr_require_connection_test r \<and> \<not> rr_connection_ok r then
       let result = \<lparr>is_status = ImportFailure, is_connection_ok = False, is_listed = [], is_imported_books = [],
             is_skipped_paths = [], is_operation_log = [lit ''connection_test:failed''],
             is_errors = [lit ''connection_test_failed'']\<rparr>
       in and_then (validate_import_result result) (\<lambda>_. Inr result)
     else
       let imported = sort_by (by_key imported_path) (rr_imported_books r);
           errors = map redact_webdav_sync_error (rr_import_errors r);
           result = \<lparr>is_status = classify_import_status (length imported) errors,
             is_connection_ok = rr_connection_ok r, is_listed = ip_listed (rr_plan r),
             is_imported_books = imported, is_skipped_paths = sort (ip_skipped_paths (rr_plan r)),
             is_operation_log = import_log r imported errors, is_errors = errors\<rparr>
       in and_then (validate_import_result result) (\<lambda>_. Inr result))"


subsection \<open>What the validators accept\<close>

lemma path_set_ok:
  "path_set field seen bs = Inr s \<longleftrightarrow> (\<forall>b \<in> set bs. validate_remote_book b = Inr ())
     \<and> distinct (map rb_remote_path bs) \<and> set seen \<inter> rb_remote_path ` set bs = {}
     \<and> s = rev (map rb_remote_path bs) @ seen"
  by (induction bs arbitrary: seen) (auto simp: and_then_eq_Inr)

lemma imported_paths_iff:
  "imported_paths_ok allowed seen bs = Inr s \<longleftrightarrow> (\<forall>b \<in> set bs. validate_imported_book b = Inr ())
     \<and> imported_path ` set bs \<subseteq> set allowed
     \<and> distinct (map imported_path bs) \<and> set seen \<inter> imported_path ` set bs = {}
     \<and> s = rev (map imported_path bs) @ seen"
  by (induction bs arbitrary: seen) (auto simp: and_then_eq_Inr)

lemma unique_list_ok:
  "validate_unique_sync_string_list vs field = Inr s \<longleftrightarrow> (\<forall>v \<in> set vs. \<not> blank v) \<and> distinct vs \<and> s = vs"
  by (auto simp: validate_unique_sync_string_list_def validate_sync_string_list_def and_then_eq_Inr all_inserted_iff)

lemma validate_import_plan_ok:
  "validate_import_plan p = Inr u \<longleftrightarrow> ip_effective_preview_limit p \<noteq> 0
     \<and> (\<forall>b \<in> set (ip_listed p) \<union> set (ip_importable p). validate_remote_book b = Inr ())
     \<and> distinct (map rb_remote_path (ip_listed p)) \<and> distinct (map rb_remote_path (ip_importable p))
     \<and> rb_remote_path ` set (ip_importable p) \<subseteq> rb_remote_path ` set (ip_listed p)
     \<and> distinct (ip_skipped_paths p) \<and> (\<forall>v \<in> set (ip_skipped_paths p). \<not> blank v)
     \<and> set (ip_skipped_paths p) \<subseteq> rb_remote_path ` set (ip_listed p) - rb_remote_path ` set (ip_importable p)
     \<and> (\<forall>v \<in> set (ip_operation_log p). \<not> blank v)"
  unfolding validate_import_plan_def validate_remote_book_path_set_def validate_sync_string_list_def
  by (simp add: and_then_eq_Inr path_set_ok unique_list_ok check_each_ok) blast

subsection \<open>The plan\<close>

lemma put_first_fold:
  assumes "sm_keyed rb_remote_path m"
  shows "sm_keyed rb_remote_path (fold put_first bs m)
    \<and> map_of (fold put_first bs m) q = (case map_of m q of Some b \<Rightarrow> Some b
        | None \<Rightarrow> find (\<lambda>b. rb_remote_path b = q) bs)"
  using assms
proof (induction bs arbitrary: m)
  case (Cons b bs)
  have "sm_keyed rb_remote_path (put_first b m)"
    using Cons.prems by (auto simp: put_first_def sm_keyed_insert split: option.split)
  from Cons.IH[OF this] Cons.prems show ?case
    by (auto simp: put_first_def table_simps sm_keyed_ok split: option.splits)
qed (simp split: option.split)

lemma listed_books:
  "sorted_wrt (<) (map rb_remote_path (unique_sorted_remote_books bs))"
  "b \<in> set (unique_sorted_remote_books bs) \<longleftrightarrow> find (\<lambda>x. rb_remote_path x = rb_remote_path b) bs = Some b"
proof -
  have k: "sm_keyed rb_remote_path (fold put_first bs [])" using put_first_fold[of "[]" bs] by simp
  show "sorted_wrt (<) (map rb_remote_path (unique_sorted_remote_books bs))"
    unfolding unique_sorted_remote_books_def by (rule sm_values_sorted[OF k])
  show "b \<in> set (unique_sorted_remote_books bs) \<longleftrightarrow> find (\<lambda>x. rb_remote_path x = rb_remote_path b) bs = Some b"
    unfolding unique_sorted_remote_books_def in_sm_values[OF k] using put_first_fold[of "[]" bs "rb_remote_path b"] by simp
qed

definition chosen_books :: "import_request \<Rightarrow> remote_book list" where
  "chosen_books r = filter (\<lambda>b. case ir_selected_remote_paths r of Some ps \<Rightarrow> rb_remote_path b \<in> set ps | None \<Rightarrow> True)
     (unique_sorted_remote_books (ir_remote_books r))"

lemma take_of_sorted:
  assumes "sorted_wrt (<) (map f xs)" and "x \<in> set xs" and "x \<notin> set (take n xs)" and "y \<in> set (take n xs)"
  shows "(f y :: 'k::linorder) < f x"
proof -
  have "x \<in> set (drop n xs)" using assms(2,3) by (metis Un_iff append_take_drop_id set_append)
  moreover have "sorted_wrt (\<lambda>a b. f a < f b) (take n xs @ drop n xs)" using assms(1) by (simp add: sorted_wrt_map)
  then have "\<forall>a \<in> set (take n xs). \<forall>b \<in> set (drop n xs). f a < f b" unfolding sorted_wrt_append by blast
  ultimately show ?thesis using assms(4) by blast
qed

text \<open>
  The import plan of remote books. It lists each remote path once, in order, with the first
  book of the request that has it. Of the selected books it takes the first
  \<open>maximum_book_count\<close> in path order: each of them is importable when its format is supported and
  skipped otherwise, and every selected book that was not taken has a greater path than those
  taken. The plan passes its own validation exactly when the preview limit is not zero.
\<close>

theorem remote_import_plan_exact:
  assumes "plan_remote_book_import r = Inr p"
  shows "sorted_wrt (<) (map rb_remote_path (ip_listed p))
    \<and> (\<forall>b. b \<in> set (ip_listed p) \<longleftrightarrow> find (\<lambda>x. rb_remote_path x = rb_remote_path b) (ir_remote_books r) = Some b)
    \<and> length (ip_importable p) + length (ip_skipped_paths p) = min (ir_maximum_book_count r) (length (chosen_books r))
    \<and> (\<forall>b \<in> set (ip_importable p). b \<in> set (chosen_books r) \<and> is_supported_remote_book b)
    \<and> (\<forall>q \<in> set (ip_skipped_paths p). \<exists>b \<in> set (chosen_books r). rb_remote_path b = q \<and> \<not> is_supported_remote_book b)
    \<and> (\<forall>b \<in> set (chosen_books r). b \<in> set (ip_importable p) \<or> rb_remote_path b \<in> set (ip_skipped_paths p)
        \<or> (\<forall>q \<in> rb_remote_path ` set (ip_importable p) \<union> set (ip_skipped_paths p). q < rb_remote_path b))
    \<and> (validate_import_plan p = Inr () \<longleftrightarrow> ir_preview_limit r \<noteq> 0)"
proof -
  let ?listed = "unique_sorted_remote_books (ir_remote_books r)"
  let ?cs = "take (ir_maximum_book_count r) (chosen_books r)"
  have valid: "\<forall>b \<in> set (ir_remote_books r). validate_remote_book b = Inr ()"
    and p: "ip_listed p = ?listed" "ip_importable p = filter is_supported_remote_book ?cs"
      "ip_skipped_paths p = map rb_remote_path (filter (\<lambda>b. \<not> is_supported_remote_book b) ?cs)"
      "ip_effective_preview_limit p = effective_preview_limit r"
      "ip_operation_log p = map (\<lambda>q. lit ''remote_book:skip_unsupported:'' @ q) (ip_skipped_paths p)"
    using assms by (auto simp: plan_remote_book_import_def and_then_eq_Inr validate_import_request_def check_each_ok
        Let_def chosen_books_def simp del: lit_simps)
  have books: "validate_remote_book b = Inr ()" if "b \<in> set ?listed" for b
    using that valid unfolding listed_books(2) by (auto simp: find_Some_iff)
  have chosen: "set (chosen_books r) \<subseteq> set ?listed" by (auto simp: chosen_books_def)
  have cs: "set ?cs \<subseteq> set (chosen_books r)" by (rule set_take_subset)
  have sorted: "sorted_wrt (<) (map rb_remote_path (chosen_books r))"
    using listed_books(1)[of "ir_remote_books r"] unfolding chosen_books_def sorted_wrt_map by (rule sorted_wrt_filter)
  have d: "distinct (map rb_remote_path ?cs)"
    using sorted unfolding take_map[symmetric] strict_sorted_iff by (intro distinct_take) simp
  have dl: "distinct (map rb_remote_path ?listed)"
    using listed_books(1)[of "ir_remote_books r"] by (simp add: strict_sorted_iff)
  have inj: "a = b" if "a \<in> set ?cs" "b \<in> set ?cs" "rb_remote_path a = rb_remote_path b" for a b
    using that d by (auto simp: distinct_map inj_on_def)
  have count: "length (ip_importable p) + length (ip_skipped_paths p) = min (ir_maximum_book_count r) (length (chosen_books r))"
    using sum_length_filter_compl[of is_supported_remote_book ?cs] by (simp add: p(2,3))
  have prefix: "b \<in> set (ip_importable p) \<or> rb_remote_path b \<in> set (ip_skipped_paths p)
        \<or> (\<forall>q \<in> rb_remote_path ` set (ip_importable p) \<union> set (ip_skipped_paths p). q < rb_remote_path b)"
    if b: "b \<in> set (chosen_books r)" for b
  proof (cases "b \<in> set ?cs")
    case True then show ?thesis by (auto simp: p(2,3))
  next
    case False
    from take_of_sorted[OF sorted b False] show ?thesis by (auto simp: p(2,3))
  qed
  have nonblank: "\<not> blank (rb_remote_path b)" if "b \<in> set ?listed" for b
    using books[OF that] by (simp add: validate_remote_book_def validate_backup_required_def)
  have limit: "effective_preview_limit r \<noteq> 0 \<longleftrightarrow> ir_preview_limit r \<noteq> 0"
    by (auto simp: effective_preview_limit_def max_preview_limit_def min_def word_le_nat_alt)
  have log: "\<not> blank (lit ''remote_book:skip_unsupported:'' @ q)" for q
    by (simp add: blank_iff is_whitespace_def)
  have disj: "rb_remote_path ` set (filter (\<lambda>b. \<not> is_supported_remote_book b) ?cs)
      \<inter> rb_remote_path ` set (filter is_supported_remote_book ?cs) = {}"
  proof -
    have "rb_remote_path a \<noteq> rb_remote_path b"
      if "a \<in> set ?cs" "\<not> is_supported_remote_book a" "b \<in> set ?cs" "is_supported_remote_book b" for a b
      using inj[OF that(1,3)] that(2,4) by metis
    then show ?thesis unfolding set_filter by blast
  qed
  have sub: "set (ip_importable p) \<subseteq> set ?listed" "set ?cs \<subseteq> set ?listed"
    using cs chosen by (auto simp: p(2))
  have v1: "\<forall>b \<in> set (ip_listed p) \<union> set (ip_importable p). validate_remote_book b = Inr ()"
    using books sub(1) unfolding p(1) by blast
  have v2: "distinct (map rb_remote_path (ip_importable p))" "distinct (ip_skipped_paths p)"
    unfolding p(2,3) using d by (simp_all add: distinct_map_filter)
  have v3: "rb_remote_path ` set (ip_importable p) \<subseteq> rb_remote_path ` set (ip_listed p)"
    using sub(1) unfolding p(1) by blast
  have v4: "\<forall>v \<in> set (ip_skipped_paths p). \<not> blank v"
    unfolding p(3) using nonblank sub(2) by auto
  have v5: "set (ip_skipped_paths p) \<subseteq> rb_remote_path ` set (ip_listed p) - rb_remote_path ` set (ip_importable p)"
    using disj sub(2) unfolding p(1,2,3) by auto
  have v6: "\<forall>v \<in> set (ip_operation_log p). \<not> blank v"
    unfolding p(5) using log by simp
  have "validate_import_plan p = Inr () \<longleftrightarrow> ir_preview_limit r \<noteq> 0"
    unfolding validate_import_plan_ok p(4) limit using v1 v2 v3 v4 v5 v6 dl[folded p(1)] by blast
  moreover have "\<forall>b \<in> set (ip_importable p). b \<in> set (chosen_books r) \<and> is_supported_remote_book b"
    using cs by (auto simp: p(2))
  moreover have "\<forall>q \<in> set (ip_skipped_paths p). \<exists>b \<in> set (chosen_books r). rb_remote_path b = q \<and> \<not> is_supported_remote_book b"
    using cs by (auto simp: p(3))
  ultimately show ?thesis
    using count prefix listed_books(1)[of "ir_remote_books r"] listed_books(2)[of _ "ir_remote_books r"]
    unfolding p(1) by blast
qed

definition sample_book :: "string \<Rightarrow> remote_book" where
  "sample_book path = \<lparr>rb_remote_path = lit path, rb_title = lit ''t'', rb_author = None, rb_format = None,
     rb_file_size = None, rb_remote_modified_at = None, rb_etag = None\<rparr>"

lemma sample_book_valid: "path \<in> {''a.txt'', ''b.doc''} \<Longrightarrow> validate_remote_book (sample_book path) = Inr ()"
  by (auto simp: sample_book_def validate_remote_book_def validate_backup_required_def validate_backup_optional_string_def
      blank_opt_def blank_iff is_whitespace_def)

theorem remote_import_plan_exact_witness:
  "\<exists>p. plan_remote_book_import (default_import_request \<lparr>ir_remote_books := [sample_book ''b.doc'', sample_book ''a.txt'']\<rparr>) = Inr p
    \<and> sorted_wrt (<) (map rb_remote_path (ip_listed p)) \<and> validate_import_plan p = Inr ()"
proof -
  let ?r = "default_import_request \<lparr>ir_remote_books := [sample_book ''b.doc'', sample_book ''a.txt'']\<rparr>"
  have "validate_import_request ?r = Inr ()"
    by (simp add: validate_import_request_def default_import_request_def validate_backup_optional_string_def
        blank_opt_def check_each_ok sample_book_valid)
  then obtain p where p: "plan_remote_book_import ?r = Inr p"
    by (auto simp: plan_remote_book_import_def Let_def)
  have "ir_preview_limit ?r \<noteq> 0" by (simp add: default_import_request_def max_preview_limit_def)
  with remote_import_plan_exact[OF p] p show ?thesis by blast
qed

subsection \<open>The summary\<close>

lemma import_log_not_blank:
  assumes "\<forall>v \<in> set (ip_operation_log (rr_plan r)). \<not> blank v"
  shows "\<forall>v \<in> set (import_log r imported errors). \<not> blank v"
proof -
  have "\<not> blank (lit ''remote_book:download:'' @ xs)" "\<not> blank (lit ''remote_book:import:'' @ xs)"
    "\<not> blank (lit ''remote_book:import_failed:'' @ xs)" "\<not> blank (lit ''remote_books:list:'' @ xs)"
    "\<not> blank (lit ''connection_test:success'')" for xs
    by (simp_all add: blank_iff is_whitespace_def)
  then show ?thesis using assms by (auto simp: import_log_def simp del: lit_simps)
qed

lemma summary_imports:
  assumes plan: "validate_import_plan p = Inr ()"
    and imported: "imported_paths_ok (map rb_remote_path (ip_importable p)) [] bs = Inr s" and perm: "mset bs' = mset bs"
  shows "imported_paths_ok (rev (map rb_remote_path (ip_listed p))) [] bs' = Inr (rev (map imported_path bs'))
    \<and> set (ip_skipped_paths p) \<inter> imported_path ` set bs' = {}"
proof -
  have s: "set bs' = set bs" using perm by (rule mset_eq_setD)
  have "mset (map imported_path bs') = mset (map imported_path bs)" using perm by simp
  then have d: "distinct (map imported_path bs') = distinct (map imported_path bs)" by (rule mset_eq_imp_distinct_iff)
  have sub: "imported_path ` set bs \<subseteq> rb_remote_path ` set (ip_importable p)"
    using imported by (auto simp: imported_paths_iff)
  have "rb_remote_path ` set (ip_importable p) \<subseteq> rb_remote_path ` set (ip_listed p)"
    "set (ip_skipped_paths p) \<inter> rb_remote_path ` set (ip_importable p) = {}"
    using plan unfolding validate_import_plan_ok by blast+
  with sub imported d show ?thesis unfolding imported_paths_iff s by auto
qed

text \<open>
  The summary of an import run never fails on a valid request, and it reports what happened. A
  failed required connection test is a failure that imports nothing. Otherwise the imported books
  are those of the request in path order, the errors are the redacted errors of the request, and
  the status is success without errors, a partial failure with errors and an imported book, and a
  failure with errors only.
\<close>

theorem import_summary_exact:
  assumes "validate_import_result_request r = Inr ()"
  shows "\<exists>res. summarize_import_result r = Inr res
    \<and> (if rr_require_connection_test r \<and> \<not> rr_connection_ok r
       then is_status res = ImportFailure \<and> is_imported_books res = []
       else mset (is_imported_books res) = mset (rr_imported_books r)
         \<and> sorted (map imported_path (is_imported_books res))
         \<and> is_errors res = map redact_webdav_sync_error (rr_import_errors r)
         \<and> is_status res = (if rr_import_errors r = [] then ImportSuccess
              else if rr_imported_books r \<noteq> [] then ImportPartialFailure else ImportFailure))"
proof (cases "rr_require_connection_test r \<and> \<not> rr_connection_ok r")
  case True
  let ?res = "\<lparr>is_status = ImportFailure, is_connection_ok = False, is_listed = [], is_imported_books = [],
             is_skipped_paths = [], is_operation_log = [lit ''connection_test:failed''],
             is_errors = [lit ''connection_test_failed'']\<rparr>"
  have "validate_import_result ?res = Inr ()"
    by (simp add: validate_import_result_def validate_remote_book_path_set_def unique_list_ok
        validate_unique_sync_string_list_def validate_sync_string_list_def blank_iff is_whitespace_def classify_import_status_def)
  then show ?thesis using True assms by (simp add: summarize_import_result_def Let_def del: lit_simps)
next
  case False
  let ?p = "rr_plan r"
  let ?imported = "sort_by (by_key imported_path) (rr_imported_books r)"
  let ?errors = "map redact_webdav_sync_error (rr_import_errors r)"
  let ?res = "\<lparr>is_status = classify_import_status (length ?imported) ?errors,
             is_connection_ok = rr_connection_ok r, is_listed = ip_listed ?p,
             is_imported_books = ?imported, is_skipped_paths = sort (ip_skipped_paths ?p),
             is_operation_log = import_log r ?imported ?errors, is_errors = ?errors\<rparr>"
  obtain s where plan: "validate_import_plan ?p = Inr ()"
    and imp: "imported_paths_ok (map rb_remote_path (ip_importable ?p)) [] (rr_imported_books r) = Inr s"
    and errs: "\<forall>v \<in> set (rr_import_errors r). \<not> blank v"
    using assms by (auto simp: validate_import_result_request_def and_then_eq_Inr validate_sync_string_list_def)
  have listed: "validate_remote_book_path_set (ip_listed ?p) ''listed_remote_books'' = Inr (rev (map rb_remote_path (ip_listed ?p)))"
    using plan unfolding validate_import_plan_ok validate_remote_book_path_set_def path_set_ok by auto
  have ok: "imported_paths_ok (rev (map rb_remote_path (ip_listed ?p))) [] ?imported = Inr (rev (map imported_path ?imported))"
    and apart: "set (ip_skipped_paths ?p) \<inter> imported_path ` set ?imported = {}"
    using summary_imports[OF plan imp, of ?imported] by simp_all
  have skipped: "validate_unique_sync_string_list (sort (ip_skipped_paths ?p)) ''skipped_remote_paths'' = Inr (sort (ip_skipped_paths ?p))"
    using plan by (simp add: unique_list_ok validate_import_plan_ok)
  have "set (ip_skipped_paths ?p) \<subseteq> rb_remote_path ` set (ip_listed ?p)"
    using plan unfolding validate_import_plan_ok by blast
  then have known: "\<forall>q \<in> set (sort (ip_skipped_paths ?p)). q \<in> set (rev (map rb_remote_path (ip_listed ?p)))
      \<and> q \<notin> set (rev (map imported_path ?imported))"
    using apart by auto
  have log: "\<forall>v \<in> set (import_log r ?imported ?errors). \<not> blank v"
    using plan by (intro import_log_not_blank) (simp add: validate_import_plan_ok)
  have "validate_import_result ?res = Inr ()"
    using known log errs by (simp add: validate_import_result_def listed ok skipped validate_sync_string_list_def redact_not_blank)
  moreover have "(rr_require_connection_test r \<and> \<not> rr_connection_ok r) = False" using False by blast
  ultimately have "summarize_import_result r = Inr ?res"
    by (simp only: summarize_import_result_def assms and_then_simps if_False Let_def)
  moreover have "sorted (map imported_path ?imported)"
    using comparator.sorted_sort[OF comparator_by_key, of imported_path "rr_imported_books r"]
    by (simp add: by_key_le sorted_map)
  moreover have "classify_import_status (length ?imported) ?errors = (if rr_import_errors r = [] then ImportSuccess
              else if rr_imported_books r \<noteq> [] then ImportPartialFailure else ImportFailure)"
    by (simp add: classify_import_status_def)
  ultimately show ?thesis using False by simp
qed

theorem import_summary_exact_witness:
  "\<exists>res. summarize_import_result \<lparr>rr_require_connection_test = True, rr_connection_ok = True,
      rr_plan = \<lparr>ip_effective_preview_limit = 1, ip_import_mode = LazyContent, ip_listed = [sample_book ''a.txt''],
        ip_importable = [sample_book ''a.txt''], ip_skipped_paths = [], ip_operation_log = []\<rparr>,
      rr_imported_books = [], rr_import_errors = [lit ''token=abc'']\<rparr> = Inr res \<and> is_status res = ImportFailure"
proof -
  let ?r = "\<lparr>rr_require_connection_test = True, rr_connection_ok = True,
      rr_plan = \<lparr>ip_effective_preview_limit = 1, ip_import_mode = LazyContent, ip_listed = [sample_book ''a.txt''],
        ip_importable = [sample_book ''a.txt''], ip_skipped_paths = [], ip_operation_log = []\<rparr>,
      rr_imported_books = [], rr_import_errors = [lit ''token=abc'']\<rparr>"
  have "validate_import_plan (rr_plan ?r) = Inr ()"
    by (simp add: validate_import_plan_ok sample_book_valid)
  then have "validate_import_result_request ?r = Inr ()"
    by (simp add: validate_import_result_request_def validate_sync_string_list_def blank_iff is_whitespace_def)
  from import_summary_exact[OF this] show ?thesis by auto
qed

end
