(* ===== verification/SyncPlan.thy ===== *)
theory SyncPlan
  imports SyncImport SyncProgress
begin

text \<open>
  The main WebDAV synchronization run (\<open>WebDavSyncRequest\<close> to \<open>summarize_webdav_sync_result\<close>
  in \<open>crates/reader-sync/src/lib.rs\<close>): the operations a request asks for, the trace of running
  them with at most one failing, and the result envelope.
\<close>

subsection \<open>Requests and plans\<close>

datatype sync_status = SyncSuccess | SyncPartialFailure | SyncFailure

datatype sync_operation = ConnectionTest | ListRemoteBooks | PushProgress | PullProgress | CreateBackup
  | ListBackups | RestoreBackup

record sync_request =
  sq_directory_path :: "ustr option"
  sq_local_progress :: "progress_sync_record list"
  sq_progress_pull_since :: "int option"
  sq_should_pull_progress :: bool
  sq_conflict_policy :: conflict_policy
  sq_backup_config :: "backup_config option"
  sq_backup_entries :: "backup_manifest_entry list"
  sq_should_list_backups :: bool
  sq_restore_package :: "backup_package option"
  sq_restore_policy :: "restore_policy option"
  sq_require_connection_test :: bool

definition default_sync_request :: sync_request where
  "default_sync_request = \<lparr>sq_directory_path = None, sq_local_progress = [], sq_progress_pull_since = None,
     sq_should_pull_progress = False, sq_conflict_policy = LastWriteWins, sq_backup_config = None,
     sq_backup_entries = [], sq_should_list_backups = False, sq_restore_package = None, sq_restore_policy = None,
     sq_require_connection_test = True\<rparr>"

definition validate_if_some :: "('a \<Rightarrow> unit sync_result) \<Rightarrow> 'a option \<Rightarrow> unit sync_result" where
  "validate_if_some f x = (case x of Some v \<Rightarrow> f v | None \<Rightarrow> Inr ())"

definition validate_sync_request :: "sync_request \<Rightarrow> unit sync_result" where
  "validate_sync_request r = checks [
     validate_backup_optional_string (sq_directory_path r) ''remote_book_directory_path'',
     check_each validate_progress_record (sq_local_progress r),
     validate_if_some validate_backup_config (sq_backup_config r),
     check_each validate_manifest_entry (sq_backup_entries r),
     validate_if_some validate_backup_package (sq_restore_package r),
     validate_if_some validate_restore_policy (sq_restore_policy r)]"

definition plan_sync_operations :: "sync_request \<Rightarrow> sync_operation list sync_result" where
  "plan_sync_operations r = and_then (validate_sync_request r) (\<lambda>_. Inr (
     (if sq_require_connection_test r then [ConnectionTest] else [])
     @ (if (case sq_directory_path r of Some p \<Rightarrow> \<not> blank p | None \<Rightarrow> False) then [ListRemoteBooks] else [])
     @ (if sq_local_progress r \<noteq> [] then [PushProgress] else [])
     @ (if sq_should_pull_progress r \<or> sq_progress_pull_since r \<noteq> None then [PullProgress] else [])
     @ (if sq_backup_config r \<noteq> None \<and> sq_backup_entries r \<noteq> [] then [CreateBackup] else [])
     @ (if sq_backup_config r \<noteq> None \<and> sq_should_list_backups r then [ListBackups] else [])
     @ (if sq_restore_package r \<noteq> None \<and> sq_restore_policy r \<noteq> None then [RestoreBackup] else [])))"

record sync_execution_plan =
  se_operations :: "sync_operation list"
  se_backup_entries :: "backup_manifest_entry list"
  se_restore_plan :: "backup_restore_plan option"

definition plan_sync_execution :: "sync_request \<Rightarrow> sync_execution_plan sync_result" where
  "plan_sync_execution r = and_then (plan_sync_operations r) (\<lambda>operations.
     let entries = (if sq_backup_config r \<noteq> None \<and> sq_backup_entries r \<noteq> [] then sq_backup_entries r else [])
     in and_then (case (sq_restore_package r, sq_restore_policy r) of
          (Some package, Some policy) \<Rightarrow> and_then (plan_backup_restore package policy) (\<lambda>p. Inr (Some p))
        | _ \<Rightarrow> Inr None) (\<lambda>restore.
        Inr \<lparr>se_operations = operations, se_backup_entries = sort_backup_entries entries, se_restore_plan = restore\<rparr>))"

subsection \<open>The trace\<close>

record sync_metrics =
  sx_remote_book_count :: nat
  sx_pushed_progress_count :: nat
  sx_pulled_progress_count :: nat
  sx_created_backup_id :: "ustr option"
  sx_backup_manifest_count :: nat
  sx_restored_entry_count :: nat

record sync_operation_failure =
  sf_operation :: sync_operation
  sf_error :: ustr

record sync_trace =
  st_status :: sync_status
  st_connection_ok :: bool
  st_attempted :: "sync_operation list"
  st_skipped :: "sync_operation list"
  st_operation_log :: "ustr list"
  st_errors :: "ustr list"

definition is_successful_sync_log :: "ustr \<Rightarrow> bool" where
  "is_successful_sync_log e = (ends_with e (lit '':success'') \<or> contains e (lit '':list:'')
     \<or> contains e (lit '':push:'') \<or> contains e (lit '':create:'') \<or> contains e (lit '':restore:''))"

definition classify_sync_status :: "ustr list \<Rightarrow> ustr list \<Rightarrow> sync_status" where
  "classify_sync_status lines errors = (if errors = [] then SyncSuccess
     else if \<exists>e \<in> set lines. is_successful_sync_log e then SyncPartialFailure else SyncFailure)"

definition validate_sync_text_list :: "ustr list \<Rightarrow> string \<Rightarrow> unit sync_result" where
  "validate_sync_text_list values field = ensure (\<forall>v \<in> set values. \<not> blank v) (InvalidBackup field)"

definition validate_sync_execution_plan :: "sync_execution_plan \<Rightarrow> unit sync_result" where
  "validate_sync_execution_plan p = checks [
     check_each validate_manifest_entry (se_backup_entries p),
     validate_if_some (\<lambda>q. checks [
       check_each validate_manifest_entry (br_restore_entries q @ br_result_entries q),
       ensure (case br_selected_book_ids q of Some ids \<Rightarrow> \<forall>i \<in> set ids. \<not> blank i | None \<Rightarrow> True)
         (InvalidRestore ''selected_book_ids'')]) (se_restore_plan p)]"

definition validate_sync_metrics :: "sync_metrics \<Rightarrow> unit sync_result" where
  "validate_sync_metrics m = ensure (\<not> blank_opt (sx_created_backup_id m)) (InvalidBackup ''created_backup_id'')"

definition validate_sync_failure :: "sync_execution_plan \<Rightarrow> sync_operation_failure \<Rightarrow> unit sync_result" where
  "validate_sync_failure p f = checks [
     ensure (sf_operation f \<in> set (se_operations p)) (InvalidBackup ''failure.operation''),
     ensure (\<not> blank (sf_error f)) (InvalidBackup ''failure.error'')]"

definition validate_sync_trace :: "sync_trace \<Rightarrow> unit sync_result" where
  "validate_sync_trace t = checks [
     validate_sync_text_list (st_operation_log t) ''operation_log'',
     validate_sync_text_list (st_errors t) ''errors'',
     ensure (st_status t = classify_sync_status (st_operation_log t) (st_errors t)) (InvalidBackup ''status'')]"

fun sync_success_log :: "sync_operation \<Rightarrow> sync_metrics \<Rightarrow> ustr sync_result" where
  "sync_success_log ConnectionTest m = Inr (lit ''connection_test:success'')"
| "sync_success_log ListRemoteBooks m = Inr (lit ''remote_books:list:'' @ decimal (sx_remote_book_count m))"
| "sync_success_log PushProgress m = Inr (lit ''progress:push:'' @ decimal (sx_pushed_progress_count m))"
| "sync_success_log PullProgress m = Inr (lit ''progress:pull:'' @ decimal (sx_pulled_progress_count m))"
| "sync_success_log CreateBackup m = (case sx_created_backup_id m of
     Some i \<Rightarrow> Inr (lit ''backup:create:'' @ i) | None \<Rightarrow> Inl (InvalidBackup ''created_backup_id''))"
| "sync_success_log ListBackups m = Inr (lit ''backup:list:'' @ decimal (sx_backup_manifest_count m))"
| "sync_success_log RestoreBackup m = Inr (lit ''backup:restore:'' @ decimal (sx_restored_entry_count m))"

fun sync_failure_log :: "sync_operation \<Rightarrow> ustr" where
  "sync_failure_log ConnectionTest = lit ''connection_test:failed''"
| "sync_failure_log ListRemoteBooks = lit ''remote_books:list_failed''"
| "sync_failure_log PushProgress = lit ''progress:push_failed''"
| "sync_failure_log PullProgress = lit ''progress:pull_failed''"
| "sync_failure_log CreateBackup = lit ''backup:create_failed''"
| "sync_failure_log ListBackups = lit ''backup:list_failed''"
| "sync_failure_log RestoreBackup = lit ''backup:restore_failed''"

fun trace_operations ::
    "sync_operation option \<Rightarrow> sync_metrics \<Rightarrow> sync_operation list
     \<Rightarrow> (sync_operation list \<times> sync_operation list \<times> ustr list) sync_result" where
  \<comment> \<open>the loop: attempted and skipped operations and the lines; after the failing operation the rest is skipped\<close>
  "trace_operations failing m [] = Inr ([], [], [])"
| "trace_operations failing m (q # qs) =
     (if Some q = failing then Inr ([q], qs, [sync_failure_log q])
      else and_then (sync_success_log q m) (\<lambda>line.
        and_then (trace_operations failing m qs) (\<lambda>(attempted, skipped, lines).
          Inr (q # attempted, skipped, line # lines))))"

definition trace_sync_execution ::
    "sync_execution_plan \<Rightarrow> sync_metrics \<Rightarrow> sync_operation_failure option \<Rightarrow> sync_trace sync_result" where
  "trace_sync_execution p m failure =
     and_then (validate_sync_execution_plan p) (\<lambda>_.
     and_then (validate_sync_metrics m) (\<lambda>_.
     and_then (validate_if_some (validate_sync_failure p) failure) (\<lambda>_.
     and_then (trace_operations (map_option sf_operation failure) m (se_operations p)) (\<lambda>(attempted, skipped, lines).
     let errors = (case failure of Some f \<Rightarrow> [redact_webdav_sync_error (sf_error f)] | None \<Rightarrow> []);
         t = \<lparr>st_status = classify_sync_status lines errors,
           st_connection_ok = (map_option sf_operation failure \<noteq> Some ConnectionTest),
           st_attempted = attempted, st_skipped = skipped, st_operation_log = lines, st_errors = errors\<rparr>
     in and_then (validate_sync_trace t) (\<lambda>_. Inr t)))))"

subsection \<open>The result\<close>

record sync_result_envelope =
  sv_status :: sync_status
  sv_connection_ok :: bool
  sv_remote_books :: "remote_book list"
  sv_pushed_progress_count :: nat
  sv_pulled_progress :: "progress_sync_record list"
  sv_resolved_progress :: "progress_sync_record list"
  sv_created_backup :: "backup_package option"
  sv_backup_manifests :: "backup_manifest list"
  sv_restored_entries :: "backup_manifest_entry list"
  sv_operation_log :: "ustr list"
  sv_errors :: "ustr list"

definition validate_sync_result :: "sync_result_envelope \<Rightarrow> unit sync_result" where
  "validate_sync_result r = checks [
     check_each validate_remote_book (sv_remote_books r),
     ensure (sv_pushed_progress_count r = length (sv_resolved_progress r)) (InvalidProgress ''pushed_progress_count''),
     check_each validate_progress_record (sv_pulled_progress r @ sv_resolved_progress r),
     validate_if_some validate_backup_package (sv_created_backup r),
     check_each validate_manifest (sv_backup_manifests r),
     check_each validate_manifest_entry (sv_restored_entries r),
     validate_sync_text_list (sv_operation_log r) ''operation_log'',
     validate_sync_text_list (sv_errors r) ''errors'',
     ensure (sv_status r = classify_sync_status (sv_operation_log r) (sv_errors r)) (InvalidBackup ''status'')]"

definition validate_push_plan :: "progress_push_plan \<Rightarrow> unit sync_result" where
  "validate_push_plan p = checks [
     ensure (pp_pushed_count p = length (pp_resolved p)) (InvalidProgress ''pushed_progress_count''),
     check_each validate_progress_record (pp_resolved p)]"

definition summarize_sync_result ::
    "bool \<Rightarrow> remote_book list \<Rightarrow> progress_push_plan option \<Rightarrow> progress_sync_record list \<Rightarrow> backup_package option
     \<Rightarrow> backup_manifest list \<Rightarrow> backup_manifest_entry list \<Rightarrow> ustr list \<Rightarrow> ustr list \<Rightarrow> sync_result_envelope sync_result" where
  "summarize_sync_result connection_ok books push pulled created manifests restored lines errors =
     and_then (checks [
       validate_sync_text_list lines ''operation_log'',
       validate_sync_text_list errors ''errors'',
       check_each validate_remote_book books,
       validate_if_some validate_push_plan push,
       check_each validate_progress_record pulled,
       validate_if_some validate_backup_package created,
       check_each validate_manifest manifests,
       check_each validate_manifest_entry restored]) (\<lambda>_.
     let resolved = sort_progress (case push of Some p \<Rightarrow> pp_resolved p | None \<Rightarrow> []);
         shown = map redact_webdav_sync_error errors;
         result = \<lparr>sv_status = classify_sync_status lines shown, sv_connection_ok = connection_ok,
           sv_remote_books = sort_by (by_key rb_remote_path) books,
           sv_pushed_progress_count = length resolved, sv_pulled_progress = sort_progress pulled,
           sv_resolved_progress = resolved, sv_created_backup = created,
           sv_backup_manifests = sort_by manifest_order manifests,
           sv_restored_entries = sort_backup_entries restored, sv_operation_log = lines, sv_errors = shown\<rparr>
     in and_then (validate_sync_result result) (\<lambda>_. Inr result))"


subsection \<open>Which log lines count as success\<close>

lemma contains_set: "contains s p \<Longrightarrow> set p \<subseteq> set s"
proof (induction s p rule: contains.induct)
  case (2 c s p)
  then show ?case using starts_with_set[of "c # s" p] by auto
qed simp

lemma contains_after: "contains s p \<Longrightarrow> contains (q @ s) p"
  by (induction q) auto

lemma contains_prefix: "contains (q @ p @ s) p"
  by (rule contains_after) (cases "p @ s"; use starts_with_append[of p s] in auto)

lemma pull_line_not_success: "\<not> is_successful_sync_log (lit ''progress:pull:'' @ decimal n)"
proof -
  let ?d = "decimal n"
  have no: "c \<notin> set ?d" if "c < 48 \<or> 57 < c" for c using that digits_decimal[of c n] by auto
  have inner: "\<not> starts_with ?d (c # cs)" if "57 < c" for c cs
    using starts_with_set[of ?d "c # cs"] no[of c] that by auto
  have outer: "\<not> contains ?d (c # cs)" if "57 < c" for c cs
    using contains_set[of ?d "c # cs"] no[of c] that by auto
  obtain x xs where x: "rev ?d = x # xs" using decimal_nonempty[of n] by (cases "rev ?d") auto
  then have "x \<in> set ?d" by (metis list.set_intros(1) set_rev)
  then have "x \<noteq> 115" using no[of 115] by auto
  then have e: "\<not> ends_with (lit ''progress:pull:'' @ ?d) (lit '':success'')" by (simp add: ends_with_def x)
  show ?thesis
    using e inner outer by (simp add: is_successful_sync_log_def)
qed

lemma success_line: "sync_success_log q m = Inr line \<Longrightarrow> is_successful_sync_log line \<longleftrightarrow> q \<noteq> PullProgress"
proof (cases q)
  case ConnectionTest
  assume "sync_success_log q m = Inr line"
  then show ?thesis by (auto simp: ConnectionTest is_successful_sync_log_def ends_with_def)
next
  case ListRemoteBooks
  assume "sync_success_log q m = Inr line"
  then show ?thesis
    using contains_prefix[of "lit ''remote_books''" "lit '':list:''" "decimal (sx_remote_book_count m)"]
    by (simp add: ListRemoteBooks is_successful_sync_log_def)
next
  case PushProgress
  assume "sync_success_log q m = Inr line"
  then show ?thesis
    using contains_prefix[of "lit ''progress''" "lit '':push:''" "decimal (sx_pushed_progress_count m)"]
    by (simp add: PushProgress is_successful_sync_log_def)
next
  case PullProgress
  assume "sync_success_log q m = Inr line"
  then show ?thesis using pull_line_not_success by (simp add: PullProgress del: lit_simps) blast
next
  case CreateBackup
  assume "sync_success_log q m = Inr line"
  then obtain i where "line = lit ''backup:create:'' @ i" by (auto simp: CreateBackup split: option.splits)
  then show ?thesis
    using contains_prefix[of "lit ''backup''" "lit '':create:''" i] by (simp add: CreateBackup is_successful_sync_log_def)
next
  case ListBackups
  assume "sync_success_log q m = Inr line"
  then show ?thesis
    using contains_prefix[of "lit ''backup''" "lit '':list:''" "decimal (sx_backup_manifest_count m)"]
    by (simp add: ListBackups is_successful_sync_log_def)
next
  case RestoreBackup
  assume "sync_success_log q m = Inr line"
  then show ?thesis
    using contains_prefix[of "lit ''backup''" "lit '':restore:''" "decimal (sx_restored_entry_count m)"]
    by (simp add: RestoreBackup is_successful_sync_log_def)
qed

lemma failure_line: "\<not> is_successful_sync_log (sync_failure_log q)"
  by (cases q) (simp_all add: is_successful_sync_log_def ends_with_def)

lemma success_line_not_blank: "sync_success_log q m = Inr line \<Longrightarrow> \<not> blank line"
  by (cases q) (auto simp: blank_iff is_whitespace_def split: option.splits)

lemma failure_line_not_blank: "\<not> blank (sync_failure_log q)"
  by (cases q) (simp_all add: blank_iff is_whitespace_def)

subsection \<open>The trace\<close>

lemma trace_all:
  "trace_operations None m qs = Inr (a, s, ls) \<Longrightarrow> a = qs \<and> s = [] \<and> length ls = length qs"
  by (induction qs arbitrary: a s ls) (auto simp: and_then_eq_Inr)

lemma trace_until:
  assumes "f \<in> set qs" and "trace_operations (Some f) m qs = Inr (a, s, ls)"
  shows "\<exists>before. a = before @ [f] \<and> qs = a @ s \<and> f \<notin> set before \<and> length ls = length a
    \<and> ((\<exists>l \<in> set ls. is_successful_sync_log l) \<longleftrightarrow> (\<exists>q \<in> set before. q \<noteq> PullProgress))"
  using assms
proof (induction qs arbitrary: a s ls)
  case (Cons q qs)
  show ?case
  proof (cases "q = f")
    case True
    then show ?thesis using Cons.prems by (auto simp: failure_line)
  next
    case False
    then obtain line a' ls' where line: "sync_success_log q m = Inr line"
      and rec: "trace_operations (Some f) m qs = Inr (a', s, ls')" and eq: "a = q # a'" "ls = line # ls'"
      using Cons.prems(2) by (auto simp: and_then_eq_Inr)
    have "f \<in> set qs" using False Cons.prems(1) by simp
    from Cons.IH[OF this rec] obtain before where
      before: "a' = before @ [f]" "qs = a' @ s" "f \<notin> set before" "length ls' = length a'"
      "(\<exists>l \<in> set ls'. is_successful_sync_log l) \<longleftrightarrow> (\<exists>q \<in> set before. q \<noteq> PullProgress)" by blast
    show ?thesis
      using before False success_line[OF line] eq by (intro exI[of _ "q # before"]) auto
  qed
qed simp

text \<open>
  What the trace of a synchronization run reports. Without a failure every operation was
  attempted, none skipped, and the status is success. With a failing operation the attempted
  operations end at its first occurrence and the rest is skipped; the connection is reported as
  lost exactly when the connection test failed; the only error is the redacted message; and the
  status is a partial failure exactly when an operation other than a progress pull succeeded
  before. There is one log line per attempted operation.
\<close>

theorem sync_trace_exact:
  assumes "trace_sync_execution p m failure = Inr t"
  shows "st_attempted t @ st_skipped t = se_operations p
    \<and> length (st_operation_log t) = length (st_attempted t)
    \<and> (case failure of
        None \<Rightarrow> st_skipped t = [] \<and> st_errors t = [] \<and> st_status t = SyncSuccess \<and> st_connection_ok t
      | Some f \<Rightarrow> (\<exists>before. st_attempted t = before @ [sf_operation f] \<and> sf_operation f \<notin> set before
          \<and> st_status t = (if \<exists>q \<in> set before. q \<noteq> PullProgress then SyncPartialFailure else SyncFailure))
          \<and> st_errors t = [redact_webdav_sync_error (sf_error f)]
          \<and> (st_connection_ok t \<longleftrightarrow> sf_operation f \<noteq> ConnectionTest))"
proof (cases failure)
  case None
  then obtain a s ls where "trace_operations None m (se_operations p) = Inr (a, s, ls)"
    and t: "t = \<lparr>st_status = classify_sync_status ls [], st_connection_ok = True, st_attempted = a,
      st_skipped = s, st_operation_log = ls, st_errors = []\<rparr>"
    using assms by (auto simp: trace_sync_execution_def and_then_eq_Inr Let_def)
  from trace_all[OF this(1)] show ?thesis by (simp add: t None classify_sync_status_def)
next
  case (Some f)
  then obtain a s ls where run: "trace_operations (Some (sf_operation f)) m (se_operations p) = Inr (a, s, ls)"
    and known: "sf_operation f \<in> set (se_operations p)"
    and t: "t = \<lparr>st_status = classify_sync_status ls [redact_webdav_sync_error (sf_error f)],
      st_connection_ok = (sf_operation f \<noteq> ConnectionTest), st_attempted = a,
      st_skipped = s, st_operation_log = ls, st_errors = [redact_webdav_sync_error (sf_error f)]\<rparr>"
    using assms by (auto simp: trace_sync_execution_def and_then_eq_Inr Let_def validate_if_some_def validate_sync_failure_def)
  from trace_until[OF known run] show ?thesis
    by (auto simp: t Some classify_sync_status_def)
qed

theorem sync_trace_exact_witness:
  "\<exists>t. trace_sync_execution \<lparr>se_operations = [PullProgress, ListBackups, PushProgress], se_backup_entries = [], se_restore_plan = None\<rparr>
       \<lparr>sx_remote_book_count = 0, sx_pushed_progress_count = 0, sx_pulled_progress_count = 3, sx_created_backup_id = None,
         sx_backup_manifest_count = 0, sx_restored_entry_count = 0\<rparr>
       (Some \<lparr>sf_operation = ListBackups, sf_error = lit ''timeout''\<rparr>) = Inr t
    \<and> st_skipped t = [PushProgress] \<and> st_status t = SyncFailure"
proof -
  let ?p = "\<lparr>se_operations = [PullProgress, ListBackups, PushProgress], se_backup_entries = [], se_restore_plan = None\<rparr>"
  let ?m = "\<lparr>sx_remote_book_count = 0, sx_pushed_progress_count = 0, sx_pulled_progress_count = 3, sx_created_backup_id = None,
         sx_backup_manifest_count = 0, sx_restored_entry_count = 0\<rparr>"
  let ?f = "\<lparr>sf_operation = ListBackups, sf_error = lit ''timeout''\<rparr>"
  have "validate_sync_execution_plan ?p = Inr ()" "validate_sync_metrics ?m = Inr ()" "validate_sync_failure ?p ?f = Inr ()"
    by (simp_all add: validate_sync_execution_plan_def validate_sync_metrics_def validate_sync_failure_def
        validate_if_some_def blank_opt_def check_each_ok blank_iff is_whitespace_def)
  moreover have "\<not> blank (redact_webdav_sync_error (lit ''timeout''))"
    by (rule redact_not_blank) (simp add: blank_iff is_whitespace_def)
  moreover have "\<forall>v \<in> set [lit ''progress:pull:'' @ decimal 3, sync_failure_log ListBackups]. \<not> blank v"
    using success_line_not_blank[of PullProgress ?m] failure_line_not_blank[of ListBackups] by (simp del: lit_simps)
  ultimately obtain t where t: "trace_sync_execution ?p ?m (Some ?f) = Inr t"
    by (simp add: trace_sync_execution_def validate_if_some_def validate_sync_trace_def validate_sync_text_list_def Let_def del: lit_simps)
  from sync_trace_exact[OF this] obtain before where
    "before @ [ListBackups] @ st_skipped t = [PullProgress, ListBackups, PushProgress]" "ListBackups \<notin> set before"
    "st_status t = (if \<exists>q \<in> set before. q \<noteq> PullProgress then SyncPartialFailure else SyncFailure)" by auto
  then have "before = [PullProgress] \<and> st_skipped t = [PushProgress]" by (cases before; cases "tl before") auto
  then show ?thesis using t \<open>st_status t = _\<close> by auto
qed

end
