(* ===== verification/ContentText.thy ===== *)
theory ContentText
  imports TextOps
begin

text \<open>
  Normalization of chapter text (\<open>crates/reader-content/src/normalization.rs\<close> and
  \<open>normalize_chapter_content\<close> to \<open>stable_fingerprint\<close> in
  \<open>crates/reader-content/src/lib.rs\<close>): line endings and blank lines, the HTML formatter with
  its entity decoder, the removal of a repeated chapter title, paragraphs and fingerprints. The
  scans of the code move a byte index that always stands on a character boundary; here they move
  the rest of the text. The one place that slices at a byte index which may fall inside a
  character, \<open>name[..5]\<close> in \<open>first_html_data_attr_value\<close>, returns the panic as a value.
\<close>

subsection \<open>What a scan leaves\<close>

lemma dropWhile_shorter: "length (dropWhile P (dropWhile Q s)) \<le> length s"
  using length_dropWhile_le[of P "dropWhile Q s"] length_dropWhile_le[of Q s] by simp

lemma after_match_shorter: "s \<noteq> [] \<Longrightarrow> length (dropWhile P (dropWhile Q s)) - Suc 0 < length s"
  using dropWhile_shorter[of P Q s] by (cases s) auto

lemma rest_shorter: "takeWhile P s \<noteq> [] \<Longrightarrow> length (dropWhile P s) < length s"
  by (metis add_less_cancel_right add_0 length_append length_greater_0_conv takeWhile_dropWhile_id)

lemma token_shorter:
  "takeWhile P (dropWhile Q (dropWhile R s)) \<noteq> [] \<Longrightarrow>
     length (dropWhile P (dropWhile Q (dropWhile R s))) < length s"
  using rest_shorter[of P "dropWhile Q (dropWhile R s)"] dropWhile_shorter[of Q R s] by linarith

subsection \<open>Line endings and blank lines\<close>

definition normalize_line_endings :: "ustr \<Rightarrow> ustr" where
  "normalize_line_endings s = str_replace [13] [10] (str_replace [13, 10] [10] s)"

fun collapse_from :: "nat \<Rightarrow> ustr \<Rightarrow> ustr" where
  \<comment> \<open>the loop, with \<open>blank_run\<close> as its state\<close>
  "collapse_from blank_run [] = []"
| "collapse_from blank_run (c # cs) =
     (if c = 10
      then (if blank_run + 1 \<le> 2 then c # collapse_from (blank_run + 1) cs
            else collapse_from (blank_run + 1) cs)
      else c # collapse_from 0 cs)"

definition collapse_blank_lines :: "ustr \<Rightarrow> ustr" where
  "collapse_blank_lines s = collapse_from 0 s"

definition normalize_content :: "ustr \<Rightarrow> ustr" where
  "normalize_content s =
     trim_matches (\<lambda>c. c = 10 \<or> c = 13) (collapse_blank_lines (normalize_line_endings s))"

definition strip_bom :: "ustr \<Rightarrow> ustr" where
  "strip_bom s = (case strip_prefix [0xFEFF] s of Some t \<Rightarrow> t | None \<Rightarrow> s)"

subsection \<open>Entities\<close>

definition digit_value :: "nat \<Rightarrow> nat \<Rightarrow> nat option" where
  \<comment> \<open>\<open>char::to_digit\<close> for a radix of at most 36\<close>
  "digit_value radix c =
     (let d = (if 48 \<le> c \<and> c \<le> 57 then c - 48
               else if 97 \<le> c \<and> c \<le> 122 then c - 87
               else if 65 \<le> c \<and> c \<le> 90 then c - 55 else radix)
      in if d < radix then Some d else None)"

fun parse_digits :: "nat \<Rightarrow> nat \<Rightarrow> ustr \<Rightarrow> nat option" where
  "parse_digits radix acc [] = Some acc"
| "parse_digits radix acc (c # cs) = (case digit_value radix c of None \<Rightarrow> None
     | Some d \<Rightarrow> parse_digits radix (acc * radix + d) cs)"

definition parse_u32_radix :: "nat \<Rightarrow> ustr \<Rightarrow> u32 option" where
  \<comment> \<open>\<open>u32::from_str_radix(s, radix).ok()\<close>: an optional plus sign, then digits without overflow\<close>
  "parse_u32_radix radix s =
     (let digits = (if s \<noteq> [] \<and> hd s = 43 then tl s else s)
      in if digits = [] then None
         else case parse_digits radix 0 digits of None \<Rightarrow> None | Some n \<Rightarrow> u32_try_from_nat n)"

definition char_from_u32 :: "u32 \<Rightarrow> nat option" where
  "char_from_u32 w = (if unat w < 0xD800 \<or> 0xE000 \<le> unat w \<and> unat w \<le> 0x10FFFF
     then Some (unat w) else None)"

definition named_entities :: "(string \<times> ustr) list" where
  "named_entities = [(''nbsp'', [32]), (''ensp'', [32]), (''emsp'', [32]),
     (''thinsp'', []), (''zwnj'', []), (''zwj'', []),
     (''amp'', [38]), (''lt'', [60]), (''gt'', [62]), (''quot'', [34]),
     (''apos'', [39]), (''#39'', [39]),
     (''lsquo'', [0x2018]), (''rsquo'', [0x2019]), (''ldquo'', [0x201C]), (''rdquo'', [0x201D]),
     (''ndash'', [0x2013]), (''mdash'', [0x2014]), (''hellip'', [0x2026]), (''middot'', [0xB7])]"

definition decode_html_entity :: "ustr \<Rightarrow> ustr option" where
  "decode_html_entity entity =
     (case map_of (map (\<lambda>(n, v). (lit n, v)) named_entities) entity of
        Some v \<Rightarrow> Some v
      | None \<Rightarrow>
          if starts_with entity (lit ''#x'') \<or> starts_with entity (lit ''#X'')
          then (case parse_u32_radix 16 (drop 2 entity) of None \<Rightarrow> None
                | Some w \<Rightarrow> map_option (\<lambda>c. [c]) (char_from_u32 w))
          else if starts_with entity (lit ''#'')
          then (case parse_u32_radix 10 (drop 1 entity) of None \<Rightarrow> None
                | Some w \<Rightarrow> map_option (\<lambda>c. [c]) (char_from_u32 w))
          else None)"

function decode_html_entities :: "ustr \<Rightarrow> ustr" where
  "decode_html_entities s =
     (let before = takeWhile (\<lambda>c. c \<noteq> 38) s; rest = dropWhile (\<lambda>c. c \<noteq> 38) s
      in if rest = [] then s
         else if 59 \<notin> set rest then before @ rest
         else let entity = takeWhile (\<lambda>c. c \<noteq> 59) (tl rest);
                  after = tl (dropWhile (\<lambda>c. c \<noteq> 59) rest);
                  shown = (if 32 < byte_len entity then 38 # entity @ [59]
                    else case decode_html_entity entity of Some v \<Rightarrow> v | None \<Rightarrow> 38 # entity @ [59])
              in before @ shown @ decode_html_entities after)"
  by pat_completeness auto
termination
  by (relation "measure length") (auto intro!: after_match_shorter simp: dropWhile_eq_Nil_conv)

declare decode_html_entities.simps [simp del]

subsection \<open>The HTML formatter\<close>

fun contains_html_tag :: "ustr \<Rightarrow> bool" where
  "contains_html_tag [] = False"
| "contains_html_tag (c # cs) =
     (if c \<noteq> 60 then contains_html_tag cs
      else let token = (if cs \<noteq> [] \<and> hd cs = 47 then tl cs else cs)
           in (case dropWhile is_ascii_whitespace token of
                 [] \<Rightarrow> contains_html_tag cs
               | d # _ \<Rightarrow> is_ascii_letter d \<or> contains_html_tag cs))"

function strip_html_comments :: "ustr \<Rightarrow> ustr" where
  "strip_html_comments s =
     (case find_str (lit ''<!--'') s of None \<Rightarrow> s
      | Some (before, inside) \<Rightarrow>
          (case find_str (lit ''-->'') inside of None \<Rightarrow> before
           | Some (_, after) \<Rightarrow> before @ strip_html_comments after))"
  by pat_completeness auto
termination
  by (relation "measure length") (auto dest!: find_str_Some)

declare strip_html_comments.simps [simp del]

definition remove_no_print_chars :: "ustr \<Rightarrow> ustr" where
  "remove_no_print_chars s = filter (\<lambda>c. c \<notin> set [0x2009, 0x200C, 0x200D]) s"

definition html_tag_name :: "ustr \<Rightarrow> ustr option" where
  "html_tag_name tag =
     (let t = trim_start tag;
          t' = trim_start (case strip_prefix [47] t of Some u \<Rightarrow> u | None \<Rightarrow> t);
          name = to_ascii_lowercase (takeWhile is_ascii_alphanumeric t')
      in if name = [] then None else Some name)"

definition is_html_block_tag :: "ustr \<Rightarrow> bool" where
  "is_html_block_tag name = (name \<in> set (map lit [''article'', ''br'', ''dd'', ''div'', ''dl'',
     ''h1'', ''h2'', ''h3'', ''h4'', ''h5'', ''h6'', ''hr'', ''li'', ''p'']))"

fun attr_scan :: "ustr \<Rightarrow> nat option \<Rightarrow> ustr \<Rightarrow> ustr option" where
  \<comment> \<open>the loop of \<open>html_attr_value\<close>; the second argument is the character before the index\<close>
  "attr_scan attr before [] = None"
| "attr_scan attr before (c # cs) =
     (let s = c # cs; after = drop (length attr) s; value = dropWhile is_ascii_whitespace after
      in if length attr \<le> length s \<and> eq_ignore_case (take (length attr) s) attr
           \<and> (case before of None \<Rightarrow> True | Some b \<Rightarrow> is_ascii_whitespace b \<or> b = 47 \<or> b = 60)
           \<and> (after = [] \<or> is_ascii_whitespace (hd after) \<or> hd after = 61)
           \<and> value \<noteq> [] \<and> hd value = 61
         then (case dropWhile is_ascii_whitespace (tl value) of
             [] \<Rightarrow> None
           | q # rest \<Rightarrow> if q = 39 \<or> q = 34 then Some (takeWhile (\<lambda>x. x \<noteq> q) rest)
               else Some (takeWhile (\<lambda>x. \<not> is_ascii_whitespace x \<and> x \<noteq> 62) (q # rest)))
         else attr_scan attr (Some c) cs)"

definition html_attr_value :: "ustr \<Rightarrow> ustr \<Rightarrow> ustr option" where
  \<comment> \<open>an empty attribute name has no first byte\<close>
  "html_attr_value tag attr = (if attr = [] then None else attr_scan attr None tag)"

datatype slice_panic = NotACharBoundary

fun byte_prefix :: "nat \<Rightarrow> ustr \<Rightarrow> slice_panic + ustr" where
  \<comment> \<open>\<open>&s[..n]\<close>\<close>
  "byte_prefix n [] = (if n = 0 then Inr [] else Inl NotACharBoundary)"
| "byte_prefix n (c # cs) = (if n = 0 then Inr []
     else if utf8_len c \<le> n then and_then (byte_prefix (n - utf8_len c) cs) (\<lambda>p. Inr (c # p))
     else Inl NotACharBoundary)"

definition attr_name_char :: "nat \<Rightarrow> bool" where
  "attr_name_char c = (\<not> is_ascii_whitespace c \<and> c \<notin> set [61, 62, 47])"

function data_attr_scan :: "ustr \<Rightarrow> ustr \<Rightarrow> slice_panic + ustr option" where
  \<comment> \<open>the loop of \<open>first_html_data_attr_value\<close> from the cursor on\<close>
  "data_attr_scan tag s =
     (if s = [] then Inr None
      else let token = dropWhile is_ascii_whitespace (dropWhile (\<lambda>c. \<not> is_ascii_whitespace c) s);
               name = takeWhile attr_name_char token; after = dropWhile attr_name_char token
           in if name = [] then data_attr_scan tag (tl token)
              else if byte_len name \<le> 5 then data_attr_scan tag after
              else and_then (byte_prefix 5 name) (\<lambda>p.
                if eq_ignore_case p (lit ''data-'') \<and> \<not> eq_ignore_case name (lit ''data-src'')
                then (case html_attr_value tag name of None \<Rightarrow> Inr None
                  | Some v \<Rightarrow> if v \<noteq> [] then Inr (Some v) else data_attr_scan tag after)
                else data_attr_scan tag after))"
  by pat_completeness auto
termination
  by (relation "measure (\<lambda>(tag, s). length s)") (auto intro!: after_match_shorter token_shorter)

declare data_attr_scan.simps [simp del]

definition first_html_data_attr_value :: "ustr \<Rightarrow> slice_panic + ustr option" where
  "first_html_data_attr_value tag = data_attr_scan tag tag"

definition html_image_source :: "ustr \<Rightarrow> slice_panic + ustr option" where
  \<comment> \<open>\<open>src\<close>, else \<open>data-src\<close>, else the first other data attribute with a value\<close>
  "html_image_source tag = (case html_attr_value tag (lit ''src'') of
      Some v \<Rightarrow> Inr (Some v)
    | None \<Rightarrow> (case html_attr_value tag (lit ''data-src'') of
        Some v \<Rightarrow> Inr (Some v)
      | None \<Rightarrow> first_html_data_attr_value tag))"

definition format_tag :: "ustr \<Rightarrow> slice_panic + ustr" where
  \<comment> \<open>what replaces \<open>'<' raw '>'\<close>\<close>
  "format_tag raw = (let tag = trim raw in
     (case html_tag_name tag of
        Some name \<Rightarrow>
          if is_html_block_tag name then Inr [10]
          else if name = lit ''img'' then and_then (html_image_source tag) (\<lambda>src.
            Inr (case src of Some v \<Rightarrow> lit ''<img src=\"'' @ v @ lit ''\">'' | None \<Rightarrow> []))
          else Inr []
      | None \<Rightarrow> Inr (60 # raw @ [62])))"

function format_tags :: "ustr \<Rightarrow> slice_panic + ustr" where
  "format_tags s =
     (let before = takeWhile (\<lambda>c. c \<noteq> 60) s; rest = dropWhile (\<lambda>c. c \<noteq> 60) s
      in if rest = [] then Inr s
         else if 62 \<notin> set rest then Inr (before @ rest)
         else let raw = takeWhile (\<lambda>c. c \<noteq> 62) (tl rest); after = tl (dropWhile (\<lambda>c. c \<noteq> 62) rest)
              in and_then (format_tag raw) (\<lambda>shown.
                 and_then (format_tags after) (\<lambda>t. Inr (before @ shown @ t))))"
  by pat_completeness auto
termination
  by (relation "measure length") (auto intro!: after_match_shorter simp: dropWhile_eq_Nil_conv)

declare format_tags.simps [simp del]

definition format_html_fragment :: "ustr \<Rightarrow> slice_panic + ustr" where
  "format_html_fragment s = and_then (format_tags (strip_html_comments s)) (\<lambda>output.
     Inr (join [10] (filter (\<lambda>l. l \<noteq> []) (map trim
       (str_lines (remove_no_print_chars (decode_html_entities output)))))))"

definition normalize_extracted_content :: "ustr \<Rightarrow> slice_panic + ustr" where
  "normalize_extracted_content s = (let t = strip_bom s in
     if contains_html_tag t then format_html_fragment t
     else Inr (normalize_content (remove_no_print_chars (decode_html_entities t))))"

subsection \<open>Chapter bodies\<close>

fun squeeze_blank :: "nat \<Rightarrow> ustr list \<Rightarrow> ustr list" where
  \<comment> \<open>the loop over the lines, with \<open>blank_run\<close> as its state\<close>
  "squeeze_blank blank_run [] = []"
| "squeeze_blank blank_run (l # ls) =
     (let line = trim_end l
      in if blank line
         then (if blank_run + 1 \<le> 1 then [] # squeeze_blank (blank_run + 1) ls
               else squeeze_blank (blank_run + 1) ls)
         else line # squeeze_blank 0 ls)"

definition trim_blank_lines :: "ustr list \<Rightarrow> ustr list" where
  \<comment> \<open>the two \<open>while\<close> loops that drop empty lines at both ends\<close>
  "trim_blank_lines ls = trim_matches (\<lambda>l. l = []) ls"

definition normalize_chapter_content :: "ustr \<Rightarrow> ustr" where
  "normalize_chapter_content raw =
     join [10] (trim_blank_lines (squeeze_blank 0
       (str_lines (normalize_line_endings (dropWhile (\<lambda>c. c = 0xFEFF) raw)))))"

definition is_ascii_punctuation :: "nat \<Rightarrow> bool" where
  "is_ascii_punctuation c = (33 \<le> c \<and> c \<le> 47 \<or> 58 \<le> c \<and> c \<le> 64 \<or> 91 \<le> c \<and> c \<le> 96 \<or> 123 \<le> c \<and> c \<le> 126)"

definition is_title_separator :: "nat \<Rightarrow> bool" where
  \<comment> \<open>\<open>is_duplicate_title_prefix_separator\<close>\<close>
  "is_title_separator c = (is_whitespace c \<or> is_ascii_punctuation c
     \<or> c \<in> set [0x3000, 0x3002, 0xFF0C, 0xFF1A, 0xFF1B, 0x3001, 0xFF01, 0xFF1F, 0x300A, 0x300B,
         0x300C, 0x300D, 0x300E, 0x300F, 0xFF08, 0xFF09, 0x3010, 0x3011, 0x2014, 0x2013, 0x2026, 0xB7])"

definition skip_title_tokens :: "ustr \<Rightarrow> ustr \<Rightarrow> ustr" where
  \<comment> \<open>\<open>skip_duplicate_title_prefix_tokens\<close>: separators, then one occurrence of the book title\<close>
  "skip_title_tokens book_title s =
     (let t = dropWhile is_title_separator s
      in if book_title \<noteq> [] \<and> starts_with t book_title then drop (length book_title) t else t)"

lemma skip_title_tokens_le: "length (skip_title_tokens b s) \<le> length s"
  using length_dropWhile_le[of is_title_separator s] by (auto simp: skip_title_tokens_def Let_def)

lemma skip_title_tokens_less: "skip_title_tokens b s \<noteq> s \<Longrightarrow> length (skip_title_tokens b s) < length s"
proof -
  assume ne: "skip_title_tokens b s \<noteq> s"
  have "length (dropWhile is_title_separator s) < length s \<or> dropWhile is_title_separator s = s"
    by (metis length_dropWhile_le le_neq_implies_less append_eq_conv_conj append_self_conv2
        length_0_conv length_append takeWhile_dropWhile_id add_cancel_left_left)
  moreover have "length (drop (length b) s) < length s" if "b \<noteq> []" "starts_with s b"
    using that by (auto simp: starts_with_iff)
  ultimately show ?thesis
    using ne by (fastforce simp: skip_title_tokens_def Let_def split: if_splits)
qed

function skip_all_title_tokens :: "ustr \<Rightarrow> ustr \<Rightarrow> ustr" where
  \<comment> \<open>the \<open>loop\<close> of \<open>leading_duplicate_chapter_title_end\<close>\<close>
  "skip_all_title_tokens book_title s =
     (let t = skip_title_tokens book_title s
      in if t = s then s else skip_all_title_tokens book_title t)"
  by pat_completeness auto
termination
  by (relation "measure (\<lambda>(b, s). length s)") (auto simp: skip_title_tokens_less)

declare skip_all_title_tokens.simps [simp del]

fun match_title :: "ustr \<Rightarrow> ustr \<Rightarrow> ustr option" where
  \<comment> \<open>\<open>match_flexible_title_at\<close>: what follows the title\<close>
  "match_title [] s = Some s"
| "match_title (e # es) s = (if is_whitespace e then match_title es (dropWhile is_whitespace s)
     else case s of [] \<Rightarrow> None | c # cs \<Rightarrow> if c = e then match_title es cs else None)"

definition after_duplicate_title :: "ustr \<Rightarrow> ustr \<Rightarrow> ustr \<Rightarrow> ustr option" where
  \<comment> \<open>\<open>leading_duplicate_chapter_title_end\<close>: the text from the returned index on\<close>
  "after_duplicate_title content book_title chapter_title =
     (let title = trim chapter_title
      in if title = [] then None
         else case match_title title (skip_all_title_tokens (trim book_title) content) of
             None \<Rightarrow> None
           | Some s \<Rightarrow> if s \<noteq> [] \<and> \<not> is_whitespace (hd s) then None
               else Some (dropWhile is_whitespace s))"

definition remove_leading_duplicate_chapter_title :: "ustr \<Rightarrow> ustr \<Rightarrow> ustr \<Rightarrow> ustr" where
  "remove_leading_duplicate_chapter_title content book_title chapter_title =
     (case after_duplicate_title content book_title chapter_title of
        None \<Rightarrow> content | Some s \<Rightarrow> normalize_chapter_content s)"

definition split_paragraphs :: "ustr \<Rightarrow> ustr list" where
  "split_paragraphs content =
     map (str_replace [10] [10]) (filter (\<lambda>p. p \<noteq> []) (map trim (split_str [10, 10] content)))"

definition stable_fingerprint :: "ustr \<Rightarrow> ustr" where
  "stable_fingerprint content = hex16 (fnv1a (concat (map utf8_bytes content)))"

end
