(* ===== verification/ContentTextProps.thy ===== *)
theory ContentTextProps
  imports ContentText
begin

text \<open>
  What normalization makes of a text: the canonical texts are exactly the fixed points of each
  normalizer, and only blanks are lost.
\<close>

subsection \<open>Line breaks of an extracted text\<close>

lemma no_cr_line_endings: "13 \<notin> set (normalize_line_endings s)"
proof -
  have "13 \<notin> set (str_replace [13] [10] t)" for t
  proof (induction t)
    case (Cons c t)
    then show ?case
      using str_replace_hit[of "[13]" "[10]" t] str_replace_miss[of "[13]" c t "[10]"]
      by (cases "c = 13") auto
  qed simp
  then show ?thesis by (simp add: normalize_line_endings_def)
qed

lemma line_endings_unchanged: "13 \<notin> set s \<Longrightarrow> normalize_line_endings s = s"
  by (simp add: normalize_line_endings_def str_replace_absent)

lemma filter_line_endings: "\<not> P 10 \<Longrightarrow> \<not> P 13 \<Longrightarrow> filter P (normalize_line_endings s) = filter P s"
proof -
  assume P: "\<not> P 10" "\<not> P 13"
  have "filter P (str_replace [13] [10] t) = filter P t" "filter P (str_replace [13, 10] [10] t) = filter P t" for t
    using P by (intro filter_str_replace; auto)+
  then show ?thesis by (simp add: normalize_line_endings_def)
qed

fun runs_ok :: "nat \<Rightarrow> ustr \<Rightarrow> bool" where
  \<comment> \<open>no run of more than two line feeds, the first one counted from a given length\<close>
  "runs_ok k [] = True"
| "runs_ok k (c # cs) = (if c = 10 then k + 1 \<le> 2 \<and> runs_ok (k + 1) cs else runs_ok 0 cs)"

lemma contains_iff: "contains s p \<longleftrightarrow> (\<exists>a b. s = a @ p @ b)"
proof (induction s p rule: contains.induct)
  case (2 c s p)
  have "(\<exists>a b. c # s = a @ p @ b) \<longleftrightarrow> (\<exists>b. c # s = p @ b) \<or> (\<exists>a b. s = a @ p @ b)"
    by (metis append_Cons append_Nil list.exhaust_sel list.sel(3) list.inject)
  with 2 show ?case by (simp add: starts_with_iff)
qed simp

lemma runs_ok_mono: "runs_ok k s \<Longrightarrow> j \<le> k \<Longrightarrow> runs_ok j s"
  by (induction k s arbitrary: j rule: runs_ok.induct) (auto split: if_splits)

lemma runs_ok_contains: "k \<le> 2 \<Longrightarrow>
    runs_ok k s \<longleftrightarrow> \<not> contains s [10, 10, 10] \<and> \<not> starts_with s (replicate (3 - k) 10)"
proof (induction k s rule: runs_ok.induct)
  case (1 k)
  then have "3 - k = Suc (2 - k)" by simp
  then show ?case by simp
next
  case (2 k c cs)
  consider "k = 0" | "k = 1" | "k = 2" using 2(3) by linarith
  moreover have "starts_with cs [10, 10, 10] \<Longrightarrow> contains cs [10, 10, 10]"
    by (cases cs) auto
  moreover have "starts_with cs [10, 10] \<Longrightarrow> starts_with cs [10]"
    by (cases cs) auto
  ultimately show ?case
    using 2 by cases (auto simp: numeral_3_eq_3 numeral_2_eq_2)
qed

lemma collapse_runs: "runs_ok (min k 2) (collapse_from k s)"
proof (induction k s rule: collapse_from.induct)
  case (2 k c cs)
  consider "k \<le> 1" | "k = 2" | "2 < k" by linarith
  then show ?case using 2 by cases (auto simp: numeral_2_eq_2)
qed simp

lemma collapse_unchanged: "runs_ok k s \<Longrightarrow> collapse_from k s = s"
  by (induction k s rule: collapse_from.induct) (auto split: if_splits)

lemma filter_collapse: "\<not> P 10 \<Longrightarrow> filter P (collapse_from k s) = filter P s"
  by (induction k s rule: collapse_from.induct) auto

lemma set_collapse: "set (collapse_from k s) \<subseteq> set s"
  by (induction k s rule: collapse_from.induct) auto

lemma dropWhile_trim_matches:
  "dropWhile P s = trim_matches P s @ rev (takeWhile P (rev (dropWhile P s)))"
  unfolding trim_matches_def by (metis rev_append rev_rev_ident takeWhile_dropWhile_id)

lemma trim_matches_split:
  "\<exists>a b. s = a @ trim_matches P s @ b \<and> (\<forall>c \<in> set a \<union> set b. P c)"
proof -
  let ?m = "dropWhile P s"
  have "s = takeWhile P s @ ?m" by simp
  also have "?m = trim_matches P s @ rev (takeWhile P (rev ?m))" by (rule dropWhile_trim_matches)
  finally have "s = takeWhile P s @ trim_matches P s @ rev (takeWhile P (rev ?m))" .
  moreover have "\<forall>c \<in> set (takeWhile P s) \<union> set (rev (takeWhile P (rev ?m))). P c"
    by (auto dest: set_takeWhileD)
  ultimately show ?thesis by blast
qed

lemma trim_matches_ends:
  assumes "trim_matches P s \<noteq> []"
  shows "\<not> P (hd (trim_matches P s))" and "\<not> P (last (trim_matches P s))"
proof -
  let ?m = "dropWhile P s"
  have ne: "dropWhile P (rev ?m) \<noteq> []" using assms by (simp add: trim_matches_def)
  then show "\<not> P (last (trim_matches P s))"
    by (simp add: trim_matches_def last_rev hd_dropWhile)
  have "?m = trim_matches P s @ rev (takeWhile P (rev ?m))" by (rule dropWhile_trim_matches)
  then have "hd ?m = hd (trim_matches P s)" "?m \<noteq> []"
    using assms by (metis hd_append2, metis append_is_Nil_conv)
  then show "\<not> P (hd (trim_matches P s))" using hd_dropWhile[of P s] by metis
qed

lemma trim_matches_unchanged:
  "s = [] \<or> \<not> P (hd s) \<and> \<not> P (last s) \<Longrightarrow> trim_matches P s = s"
proof -
  assume a: "s = [] \<or> \<not> P (hd s) \<and> \<not> P (last s)"
  then have "dropWhile P s = s" by (cases s) auto
  moreover have "dropWhile P (rev s) = rev s" using a by (cases s rule: rev_cases) auto
  ultimately show ?thesis by (simp add: trim_matches_def)
qed

definition canonical_text :: "ustr \<Rightarrow> bool" where
  \<comment> \<open>line feeds only, no blank-line runs, no line break at either end\<close>
  "canonical_text s = (13 \<notin> set s \<and> \<not> contains s [10, 10, 10] \<and> (s = [] \<or> hd s \<noteq> 10 \<and> last s \<noteq> 10))"

text \<open>
  \<open>normalize_content\<close> always yields a canonical text (only line feeds, never three in a
  row, none at the ends), keeps every character that is not a line break in order, and leaves a
  text alone exactly when it is canonical already.
\<close>
theorem normalized_text_canonical:
  "canonical_text (normalize_content s)
   \<and> filter (\<lambda>c. c \<noteq> 10 \<and> c \<noteq> 13) (normalize_content s) = filter (\<lambda>c. c \<noteq> 10 \<and> c \<noteq> 13) s
   \<and> (normalize_content s = s \<longleftrightarrow> canonical_text s)"
proof -
  let ?P = "\<lambda>c::nat. c = 10 \<or> c = 13" and ?Q = "\<lambda>c::nat. c \<noteq> 10 \<and> c \<noteq> 13"
  let ?t = "collapse_blank_lines (normalize_line_endings s)"
  obtain a b where t: "?t = a @ normalize_content s @ b" and ab: "\<forall>c \<in> set a \<union> set b. ?P c"
    using trim_matches_split[of ?t ?P] unfolding normalize_content_def by blast
  have cr: "13 \<notin> set (normalize_content s)"
    using t set_collapse[of 0 "normalize_line_endings s"] no_cr_line_endings[of s]
    by (auto simp: collapse_blank_lines_def dest: arg_cong[of _ _ set])
  have "runs_ok 0 ?t"
    using collapse_runs[of 0] by (simp add: collapse_blank_lines_def)
  then have "\<not> contains ?t [10, 10, 10]" using runs_ok_contains[of 0 ?t] by simp
  then have "\<not> contains (normalize_content s) [10, 10, 10]"
    unfolding contains_iff t by (metis append.assoc)
  then have canonical: "canonical_text (normalize_content s)"
    using cr trim_matches_ends[of ?P ?t] unfolding canonical_text_def normalize_content_def by blast
  have "filter ?Q a = []" "filter ?Q b = []" using ab by (auto simp: filter_empty_conv)
  then have "filter ?Q (normalize_content s) = filter ?Q ?t"
    using arg_cong[OF t, of "filter ?Q"] by simp
  also have "\<dots> = filter ?Q s"
    by (simp add: collapse_blank_lines_def filter_collapse filter_line_endings)
  finally have kept: "filter ?Q (normalize_content s) = filter ?Q s" .
  have "normalize_content s = s" if c: "canonical_text s"
  proof -
    have "runs_ok 0 s"
      using c runs_ok_contains[of 0 s] contains_iff starts_with_iff
      by (auto simp: canonical_text_def numeral_3_eq_3)
    then have "?t = s"
      using c by (simp add: canonical_text_def collapse_blank_lines_def line_endings_unchanged collapse_unchanged)
    moreover have "hd s \<noteq> 13 \<and> last s \<noteq> 13" if "s \<noteq> []"
      using c that hd_in_set[OF that] last_in_set[OF that] unfolding canonical_text_def by metis
    ultimately show ?thesis
      using c trim_matches_unchanged[of s ?P] by (auto simp: normalize_content_def canonical_text_def)
  qed
  with canonical kept show ?thesis by metis
qed

subsection \<open>Lines of a chapter body\<close>

definition canonical_lines :: "ustr list \<Rightarrow> bool" where
  \<comment> \<open>right-trimmed lines, no two blank ones in a row and none at the ends\<close>
  "canonical_lines ls = ((\<forall>l \<in> set ls. 10 \<notin> set l \<and> 13 \<notin> set l \<and> trim_end l = l)
     \<and> successively (\<lambda>a b. a \<noteq> [] \<or> b \<noteq> []) ls \<and> (ls = [] \<or> hd ls \<noteq> [] \<and> last ls \<noteq> []))"

definition canonical_chapter :: "ustr \<Rightarrow> bool" where
  "canonical_chapter s = (canonical_lines (str_lines s) \<and> join [10] (str_lines s) = s)"

lemma trim_end_idem [simp]: "trim_end (trim_end s) = trim_end s"
  by (simp add: trim_end_def)

lemma set_trim_end: "set (trim_end s) \<subseteq> set s"
  by (auto simp: trim_end_def dest: set_dropWhileD)

lemma blank_trim_end: "blank (trim_end s) \<longleftrightarrow> trim_end s = []"
proof
  assume b: "blank (trim_end s)"
  show "trim_end s = []"
  proof (rule ccontr)
    assume "trim_end s \<noteq> []"
    then have "\<not> is_whitespace (last (trim_end s))"
      by (simp add: trim_end_def last_rev hd_dropWhile)
    with b \<open>trim_end s \<noteq> []\<close> show False by (simp add: blank_iff)
  qed
qed (simp add: blank_iff)

definition solid_text :: "ustr \<Rightarrow> ustr" where
  \<comment> \<open>the characters that are not white space, in order\<close>
  "solid_text s = filter (\<lambda>c. \<not> is_whitespace c) s"

lemma solid_text_simps [simp]:
  "solid_text [] = []" "solid_text (s @ t) = solid_text s @ solid_text t"
  "is_whitespace c \<Longrightarrow> solid_text (c # s) = solid_text s"
  "\<not> is_whitespace c \<Longrightarrow> solid_text (c # s) = c # solid_text s"
  by (simp_all add: solid_text_def)

lemma solid_text_blank: "blank s \<longleftrightarrow> solid_text s = []"
  by (simp add: blank_iff solid_text_def filter_empty_conv)

lemma solid_text_concat: "solid_text (concat ss) = concat (map solid_text ss)"
  by (induction ss) simp_all

lemma breaks_are_white [simp]: "is_whitespace 10" "is_whitespace 13"
  by (simp_all add: is_whitespace_def)

lemma solid_dropWhile [simp]: "solid_text (dropWhile is_whitespace s) = solid_text s"
  by (induction s) auto

lemma solid_rev [simp]: "solid_text (rev s) = rev (solid_text s)"
  by (simp add: solid_text_def rev_filter)

lemma solid_trims [simp]:
  "solid_text (trim_start s) = solid_text s" "solid_text (trim_end s) = solid_text s"
  "solid_text (trim s) = solid_text s"
  by (simp_all add: trim_def trim_start_def trim_end_def)

lemma solid_text_join [simp]: "solid_text (join [10] ls) = concat (map solid_text ls)"
  by (induction "[10] :: ustr" ls rule: join.induct) auto

lemma solid_lines [simp]: "concat (map solid_text (str_lines s)) = solid_text s"
  using filter_str_lines[of "\<lambda>c. \<not> is_whitespace c" s] by (simp add: solid_text_def[abs_def])

lemma solid_line_endings [simp]: "solid_text (normalize_line_endings s) = solid_text s"
  by (simp add: solid_text_def filter_line_endings)

lemma solid_squeeze: "concat (map solid_text (squeeze_blank k ls)) = concat (map solid_text ls)"
proof (induction k ls rule: squeeze_blank.induct)
  case (2 k l ls)
  have "solid_text l = []" if "blank (trim_end l)" using that solid_text_blank[of "trim_end l"] by simp
  with 2 show ?case by (auto simp: Let_def)
qed simp

lemma squeeze_lines: "l \<in> set (squeeze_blank k ls) \<Longrightarrow> trim_end l = l \<and> (\<exists>l' \<in> set ls. set l \<subseteq> set l')"
proof (induction k ls rule: squeeze_blank.induct)
  case (2 k l' ls)
  then show ?case using set_trim_end[of l'] by (auto simp: Let_def trim_end_def split: if_splits)
qed simp

lemma squeeze_successive:
  "successively (\<lambda>a b. a \<noteq> [] \<or> b \<noteq> []) (squeeze_blank k ls)
   \<and> (0 < k \<and> squeeze_blank k ls \<noteq> [] \<longrightarrow> hd (squeeze_blank k ls) \<noteq> [])"
proof (induction k ls rule: squeeze_blank.induct)
  case (2 k l ls)
  then show ?case
    using blank_trim_end[of l] by (auto simp: Let_def successively_Cons)
qed simp

lemma squeeze_unchanged:
  assumes "successively (\<lambda>a b. a \<noteq> [] \<or> b \<noteq> []) ls" and "\<forall>l \<in> set ls. trim_end l = l"
    and "k = 0 \<or> ls = [] \<or> hd ls \<noteq> []"
  shows "squeeze_blank k ls = ls"
  using assms
proof (induction k ls rule: squeeze_blank.induct)
  case (2 k l ls)
  then show ?case
    using blank_trim_end[of l] by (cases "l = []") (auto simp: Let_def successively_Cons)
qed simp

lemma successively_sublist: "successively P (a @ m @ b) \<Longrightarrow> successively P m"
  by (simp add: successively_append_iff)

lemma solid_trim_blank: "concat (map solid_text (trim_blank_lines ls)) = concat (map solid_text ls)"
proof -
  obtain a b where ls: "ls = a @ trim_blank_lines ls @ b" and ab: "\<forall>l \<in> set a \<union> set b. l = []"
    using trim_matches_split[of ls "\<lambda>l. l = []"] unfolding trim_blank_lines_def by blast
  have "solid_text l = []" if "l \<in> set a \<union> set b" for l
    using ab that by (metis solid_text_simps(1))
  then have "concat (map solid_text a) = []" "concat (map solid_text b) = []" by auto
  moreover have "concat (map solid_text ls) = concat (map solid_text a)
      @ concat (map solid_text (trim_blank_lines ls)) @ concat (map solid_text b)"
    by (subst ls) simp
  ultimately show ?thesis by (simp only: append_Nil append_Nil2)
qed

lemma trim_blank_canonical:
  assumes "\<forall>l \<in> set ls. 10 \<notin> set l \<and> 13 \<notin> set l \<and> trim_end l = l"
    and "successively (\<lambda>a b. a \<noteq> [] \<or> b \<noteq> []) ls"
  shows "canonical_lines (trim_blank_lines ls)"
proof -
  obtain a b where ls: "ls = a @ trim_blank_lines ls @ b"
    using trim_matches_split[of ls "\<lambda>l. l = []"] unfolding trim_blank_lines_def by blast
  have "successively (\<lambda>a b. a \<noteq> [] \<or> b \<noteq> []) (trim_blank_lines ls)"
    using assms(2) ls by (metis successively_sublist)
  moreover have "set (trim_blank_lines ls) \<subseteq> set ls" by (subst (2) ls) auto
  ultimately show ?thesis
    using assms(1) trim_matches_ends[of "\<lambda>l. l = []" ls]
    unfolding canonical_lines_def trim_blank_lines_def by blast
qed

lemma canonical_lines_join:
  assumes "canonical_lines ls" shows "str_lines (join [10] ls) = ls"
  using assms by (intro str_lines_join) (auto simp: canonical_lines_def)

lemma canonical_chapter_join: "canonical_lines ls \<Longrightarrow> canonical_chapter (join [10] ls)"
  by (simp add: canonical_chapter_def canonical_lines_join)

lemma set_join: "set (join sep ls) \<subseteq> set sep \<union> (\<Union>l \<in> set ls. set l)"
  by (induction sep ls rule: join.induct) auto

lemma normalize_chapter_lines:
  defines "ls \<equiv> \<lambda>s. trim_blank_lines (squeeze_blank 0 (str_lines (normalize_line_endings s)))"
  shows "canonical_lines (ls s)"
proof -
  have "10 \<notin> set l \<and> 13 \<notin> set l \<and> trim_end l = l"
    if l: "l \<in> set (squeeze_blank 0 (str_lines (normalize_line_endings s)))" for l
  proof -
    from squeeze_lines[OF l] obtain l' where "trim_end l = l" "set l \<subseteq> set l'"
      and l': "l' \<in> set (str_lines (normalize_line_endings s))" by blast
    then show ?thesis
      using str_lines_avoid[OF l'] no_cr_line_endings[of s] by auto
  qed
  then show ?thesis
    using squeeze_successive unfolding ls_def by (intro trim_blank_canonical) blast+
qed

lemma chapter_content_canonical: "canonical_chapter (normalize_chapter_content s)"
  using canonical_chapter_join[OF normalize_chapter_lines] by (simp add: normalize_chapter_content_def)

lemma chapter_content_solid:
  "solid_text (normalize_chapter_content s) = solid_text (dropWhile (\<lambda>c. c = 0xFEFF) s)"
  by (simp add: normalize_chapter_content_def solid_trim_blank solid_squeeze)

lemma chapter_content_unchanged:
  assumes c: "canonical_chapter s" and bom: "s = [] \<or> hd s \<noteq> 0xFEFF"
  shows "normalize_chapter_content s = s"
proof -
  let ?ls = "str_lines s"
  have lines: "canonical_lines ?ls" and s: "join [10] ?ls = s"
    using c by (simp_all add: canonical_chapter_def)
  have "13 \<notin> set s"
    using set_join[of "[10]" ?ls] lines unfolding s by (auto simp: canonical_lines_def)
  moreover have "dropWhile (\<lambda>c. c = 0xFEFF) s = s" using bom by (cases s) auto
  moreover have "squeeze_blank 0 ?ls = ?ls"
    using lines by (intro squeeze_unchanged) (auto simp: canonical_lines_def)
  moreover have "trim_blank_lines ?ls = ?ls"
    using lines trim_matches_unchanged[of ?ls "\<lambda>l. l = []"] by (auto simp: trim_blank_lines_def canonical_lines_def)
  ultimately show ?thesis
    using s by (simp add: normalize_chapter_content_def line_endings_unchanged)
qed

subsection \<open>When the HTML formatter panics\<close>

definition ascii :: "ustr \<Rightarrow> bool" where
  "ascii s = (\<forall>c \<in> set s. c < 128)"

lemma ascii_sub: "ascii s \<Longrightarrow> set t \<subseteq> set s \<Longrightarrow> ascii t"
  by (auto simp: ascii_def)

lemma set_tl_sub: "set (tl s) \<subseteq> set s"
  by (cases s) auto

lemma byte_prefix_ascii: "ascii s \<Longrightarrow> n \<le> byte_len s \<Longrightarrow> is_ok (byte_prefix n s)"
proof (induction n s rule: byte_prefix.induct)
  case (2 n c s)
  then have c: "utf8_len c = 1" "ascii s" by (simp_all add: ascii_def utf8_len_def)
  then have "n - 1 \<le> byte_len s" using 2(3) by (simp add: byte_len_def)
  with 2(1) c show ?case by (cases "n = 0") (auto simp: is_ok_iff)
qed (simp add: byte_len_def)

lemma data_attr_scan_ascii: "ascii s \<Longrightarrow> is_ok (data_attr_scan tag s)"
proof (induction tag s rule: data_attr_scan.induct)
  case (1 tag s)
  let ?token = "dropWhile is_ascii_whitespace (dropWhile (\<lambda>c. \<not> is_ascii_whitespace c) s)"
  let ?name = "takeWhile attr_name_char ?token" and ?after = "dropWhile attr_name_char ?token"
  have sub: "set ?token \<subseteq> set s" by (auto dest!: set_dropWhileD)
  have name: "ascii ?name" using 1(5) by (rule ascii_sub) (use sub in \<open>auto dest: set_takeWhileD\<close>)
  have after: "ascii ?after" using 1(5) by (rule ascii_sub) (use sub in \<open>auto dest: set_dropWhileD\<close>)
  have tail: "ascii (tl ?token)" using 1(5) by (rule ascii_sub) (rule order_trans[OF set_tl_sub sub])
  show ?case
  proof (cases "s = []")
    case True
    then show ?thesis by (simp add: data_attr_scan.simps)
  next
    case False
    consider "?name = []" | "?name \<noteq> []" "byte_len ?name \<le> 5"
      | p where "?name \<noteq> []" "\<not> byte_len ?name \<le> 5" "byte_prefix 5 ?name = Inr p"
      using byte_prefix_ascii[OF name, of 5] unfolding is_ok_iff by (meson nle_le)
    then show ?thesis
    proof cases
      case 1
      with \<open>s \<noteq> []\<close> have "data_attr_scan tag s = data_attr_scan tag (tl ?token)"
        by (subst data_attr_scan.simps) (simp add: Let_def)
      with "1.IH"(1)[OF False refl refl refl 1 tail] show ?thesis by simp
    next
      case 2
      with \<open>s \<noteq> []\<close> have "data_attr_scan tag s = data_attr_scan tag ?after"
        by (subst data_attr_scan.simps) (simp add: Let_def)
      with "1.IH"(2)[OF False refl refl refl 2 after] show ?thesis by simp
    next
      case 3
      with \<open>s \<noteq> []\<close> have unfold: "data_attr_scan tag s =
          (if eq_ignore_case p (lit ''data-'') \<and> \<not> eq_ignore_case ?name (lit ''data-src'')
           then (case html_attr_value tag ?name of None \<Rightarrow> Inr None
             | Some v \<Rightarrow> if v \<noteq> [] then Inr (Some v) else data_attr_scan tag ?after)
           else data_attr_scan tag ?after)"
        by (subst data_attr_scan.simps) (simp add: Let_def del: lit_simps)
      note IH3 = "1.IH"(3)[OF False refl refl refl 3(1,2)] and IH4 = "1.IH"(4)[OF False refl refl refl 3(1,2)]
      show ?thesis
        unfolding unfold using IH3 IH4 after by (auto simp del: lit_simps split: option.splits)
    qed
  qed
qed

lemma format_tag_ascii: "ascii raw \<Longrightarrow> is_ok (format_tag raw)"
proof -
  assume "ascii raw"
  then have "ascii (trim raw)" by (rule ascii_sub[OF _ set_trim])
  then have "is_ok (html_image_source (trim raw))"
    using data_attr_scan_ascii
    by (auto simp: html_image_source_def first_html_data_attr_value_def simp del: lit_simps split: option.splits)
  then show ?thesis
    by (auto simp: format_tag_def Let_def is_ok_iff simp del: lit_simps split: option.splits)
qed

lemma format_tags_ascii: "ascii s \<Longrightarrow> is_ok (format_tags s)"
proof (induction s rule: format_tags.induct)
  case (1 s)
  let ?rest = "dropWhile (\<lambda>c. c \<noteq> 60) s"
  let ?raw = "takeWhile (\<lambda>c. c \<noteq> 62) (tl ?rest)" and ?after = "tl (dropWhile (\<lambda>c. c \<noteq> 62) ?rest)"
  have rest: "set ?rest \<subseteq> set s" by (auto dest: set_dropWhileD)
  have "set ?raw \<subseteq> set (tl ?rest)" by (auto dest: set_takeWhileD)
  then have "set ?raw \<subseteq> set s" using set_tl_sub[of ?rest] rest by (rule order_trans[OF _ order_trans])
  with 1(2) have raw: "ascii ?raw" by (rule ascii_sub)
  have "set (dropWhile (\<lambda>c. c \<noteq> 62) ?rest) \<subseteq> set ?rest" by (auto dest: set_dropWhileD)
  then have "set ?after \<subseteq> set s" using rest by (rule order_trans[OF order_trans[OF set_tl_sub]])
  with 1(2) have after: "ascii ?after" by (rule ascii_sub)
  show ?case
  proof (cases "?rest = [] \<or> 62 \<notin> set ?rest")
    case True
    then show ?thesis by (subst format_tags.simps) (auto simp: Let_def)
  next
    case False
    then have ne: "?rest \<noteq> []" "\<not> 62 \<notin> set ?rest" by auto
    obtain shown where shown: "format_tag ?raw = Inr shown"
      using format_tag_ascii[OF raw] by (auto simp: is_ok_iff)
    have "is_ok (format_tags ?after)"
      using "1.IH"[OF refl refl ne refl refl after] by blast
    with shown ne show ?thesis
      by (subst format_tags.simps) (auto simp: Let_def is_ok_iff)
  qed
qed

lemma strip_comments_sub: "set (strip_html_comments s) \<subseteq> set s"
proof (induction s rule: strip_html_comments.induct)
  case (1 s)
  show ?case
  proof (cases "find_str (lit ''<!--'') s")
    case None
    then show ?thesis by (subst strip_html_comments.simps) (simp del: lit_simps)
  next
    case (Some p)
    obtain a b where p: "p = (a, b)" by (cases p)
    have s: "s = a @ lit ''<!--'' @ b" using Some p by (simp add: find_str_Some del: lit_simps)
    show ?thesis
    proof (cases "find_str (lit ''-->'') b")
      case None
      then show ?thesis using Some p s by (subst strip_html_comments.simps) (auto simp del: lit_simps)
    next
      case (Some q)
      obtain a' c where q: "q = (a', c)" by (cases q)
      have b: "b = a' @ lit ''-->'' @ c" using Some q by (simp add: find_str_Some del: lit_simps)
      have "strip_html_comments s = a @ strip_html_comments c"
        using Some q p \<open>find_str (lit ''<!--'') s = Some p\<close> by (subst strip_html_comments.simps) (simp del: lit_simps)
      moreover have "set (strip_html_comments c) \<subseteq> set c"
        using 1[OF \<open>find_str (lit ''<!--'') s = Some p\<close> p[symmetric] Some q[symmetric]] by simp
      ultimately show ?thesis using s b by auto
    qed
  qed
qed

definition picture_fragment :: ustr where
  \<comment> \<open>an image tag with a two-character CJK attribute and no source\<close>
  "picture_fragment = lit ''<img '' @ [0x56FE, 0x7247] @ lit ''>''"

text \<open>
  C25: The normalizer of extracted text never panics on ASCII text. On other text it can: the
  formatter cuts the first five bytes off an attribute name without asking whether a character
  ends there, so an image tag without source and with the attribute \<open>0x56FE 0x7247\<close> aborts it.
\<close>
theorem extracted_text_panics:
  "(\<forall>s. ascii s \<longrightarrow> is_ok (normalize_extracted_content s))
   \<and> normalize_extracted_content picture_fragment = Inl NotACharBoundary"
proof
  have bom: "ascii (strip_bom s)" if "ascii s" for s
    using that by (auto simp: strip_bom_def strip_prefix_def ascii_def split: option.splits if_splits dest: in_set_dropD)
  show "\<forall>s. ascii s \<longrightarrow> is_ok (normalize_extracted_content s)"
  proof (intro allI impI)
    fix s assume "ascii s"
    then have "ascii (strip_html_comments (strip_bom s))"
      using bom strip_comments_sub ascii_sub by blast
    then have "is_ok (format_html_fragment (strip_bom s))"
      using format_tags_ascii by (auto simp: format_html_fragment_def is_ok_iff and_then_eq_Inr)
    then show "is_ok (normalize_extracted_content s)"
      by (simp add: normalize_extracted_content_def Let_def)
  qed
  have "data_attr_scan (tl (butlast picture_fragment)) (tl (butlast picture_fragment)) = Inl NotACharBoundary"
    by (subst data_attr_scan.simps)
      (simp add: picture_fragment_def Let_def is_ascii_whitespace_def attr_name_char_def byte_len_def utf8_len_def)
  then show "normalize_extracted_content picture_fragment = Inl NotACharBoundary"
    by (simp add: normalize_extracted_content_def picture_fragment_def format_html_fragment_def strip_bom_def
        strip_prefix_def is_ascii_whitespace_def is_ascii_letter_def strip_html_comments.simps format_tags.simps
        format_tag_def trim_def trim_start_def trim_end_def is_whitespace_def html_tag_name_def
        is_ascii_alphanumeric_def to_ascii_lowercase_def is_html_block_tag_def html_image_source_def
        html_attr_value_def eq_ignore_case_def first_html_data_attr_value_def Let_def)
qed

theorem extracted_text_panics_witness: "is_ok (normalize_extracted_content (lit ''<p>a''))"
  using extracted_text_panics by (simp add: ascii_def)

end
