(* ===== verification/ContentDocs.thy ===== *)
theory ContentDocs
  imports ContentTextProps Domain
begin

text \<open>
  Content documents (\<open>NormalizedChapter\<close>, \<open>ContentDocument\<close>, \<open>ContentLibrarySnapshot\<close>,
  \<open>ContentDocumentLibrary\<close> and \<open>normalize_chapter\<close> in \<open>crates/reader-content/src/lib.rs\<close>):
  how a chapter body becomes a cache row, what a valid document is, and the library of documents
  with its export and import. The library is a table keyed by source and book id.
\<close>

subsection \<open>Chapters\<close>

datatype content_error = InvalidChapter string | InvalidDocument string

record toc_entry =
  te_index :: u32
  te_title :: ustr
  te_url :: ustr

record normalized_chapter =
  nc_source_id :: ustr
  nc_book_id :: ustr
  nc_chapter_index :: u32
  nc_title :: ustr
  nc_url :: ustr
  nc_content :: ustr
  nc_paragraphs :: "ustr list"
  nc_char_len :: nat
  nc_fingerprint :: ustr
  nc_cache_key :: ustr

definition validate_non_empty :: "string \<Rightarrow> ustr \<Rightarrow> content_error + unit" where
  "validate_non_empty field v = ensure (\<not> blank v) (InvalidChapter field)"

definition content_cache_key :: "ustr \<Rightarrow> ustr \<Rightarrow> u32 \<Rightarrow> ustr \<Rightarrow> ustr" where
  \<comment> \<open>\<open>format!("{}:{}:{}:{}", ..)\<close>\<close>
  "content_cache_key source_id book_id index fingerprint =
     source_id @ [58] @ book_id @ [58] @ decimal (unat index) @ [58] @ fingerprint"

definition normalize_chapter :: "source \<Rightarrow> book \<Rightarrow> toc_entry \<Rightarrow> ustr \<Rightarrow> content_error + normalized_chapter" where
  "normalize_chapter src bk toc raw =
     and_then (validate_non_empty ''source_id'' (src_source_id src)) (\<lambda>_.
     and_then (validate_non_empty ''book_id'' (bk_book_id bk)) (\<lambda>_.
       let content = remove_leading_duplicate_chapter_title (normalize_chapter_content raw) (bk_title bk) (te_title toc);
           fingerprint = stable_fingerprint content
       in and_then (ensure (\<not> blank content) (InvalidChapter ''content'')) (\<lambda>_.
         Inr \<lparr>nc_source_id = src_source_id src, nc_book_id = bk_book_id bk, nc_chapter_index = te_index toc,
           nc_title = te_title toc, nc_url = te_url toc, nc_content = content,
           nc_paragraphs = split_paragraphs content, nc_char_len = length content,
           nc_fingerprint = fingerprint,
           nc_cache_key = content_cache_key (src_source_id src) (bk_book_id bk) (te_index toc) fingerprint\<rparr>)))"

subsection \<open>Documents\<close>

record content_document =
  cd_source_id :: ustr
  cd_book :: book
  cd_toc :: "toc_entry list"
  cd_chapters :: "normalized_chapter list"
  cd_updated_at :: int
  cd_fingerprint :: ustr

type_synonym document_key = "ustr \<times> ustr"

definition document_key :: "content_document \<Rightarrow> document_key" where
  "document_key d = (cd_source_id d, bk_book_id (cd_book d))"

definition content_document_fingerprint :: "content_document \<Rightarrow> ustr" where
  "content_document_fingerprint d = stable_fingerprint (join [0x1F]
     (cd_source_id d # bk_book_id (cd_book d)
      # concat (map (\<lambda>t. [te_title t, te_url t]) (cd_toc d)) @ map nc_fingerprint (cd_chapters d)))"

definition validate_document_non_empty :: "string \<Rightarrow> ustr \<Rightarrow> content_error + unit" where
  "validate_document_non_empty field v = ensure (\<not> blank v) (InvalidDocument field)"

definition validate_chapter_for_document ::
  "content_document \<Rightarrow> toc_entry \<Rightarrow> normalized_chapter \<Rightarrow> content_error + unit" where
  \<comment> \<open>\<open>validate_normalized_chapter_for_document\<close>\<close>
  "validate_chapter_for_document d toc ch = checks
     [ensure (nc_source_id ch = cd_source_id d) (InvalidDocument ''chapters.source_id''),
      ensure (nc_book_id ch = bk_book_id (cd_book d)) (InvalidDocument ''chapters.book_id''),
      ensure (nc_title ch = te_title toc) (InvalidDocument ''chapters.title''),
      ensure (nc_url ch = te_url toc) (InvalidDocument ''chapters.url''),
      ensure (\<not> blank (nc_content ch)) (InvalidDocument ''chapters.content''),
      ensure (nc_char_len ch = length (nc_content ch)) (InvalidDocument ''chapters.char_len''),
      ensure (nc_fingerprint ch = stable_fingerprint (nc_content ch)) (InvalidDocument ''chapters.content_fingerprint''),
      ensure (nc_cache_key ch = content_cache_key (nc_source_id ch) (nc_book_id ch) (nc_chapter_index ch) (nc_fingerprint ch))
        (InvalidDocument ''chapters.cache_key'')]"

fun validate_document_rows ::
  "content_document \<Rightarrow> nat \<Rightarrow> (toc_entry \<times> normalized_chapter) list \<Rightarrow> content_error + unit" where
  \<comment> \<open>the \<open>enumerate\<close> loop; the index is cast to \<open>u32\<close>\<close>
  "validate_document_rows d i [] = Inr ()"
| "validate_document_rows d i ((toc, ch) # rows) = checks
     [ensure (te_index toc = of_nat i) (InvalidDocument ''toc.index''),
      ensure (nc_chapter_index ch = of_nat i) (InvalidDocument ''chapters.index''),
      validate_chapter_for_document d toc ch,
      validate_document_rows d (i + 1) rows]"

definition validate_content_document :: "content_document \<Rightarrow> content_error + unit" where
  "validate_content_document d = checks
     [validate_document_non_empty ''source_id'' (cd_source_id d),
      validate_document_non_empty ''book.book_id'' (bk_book_id (cd_book d)),
      ensure (cd_toc d \<noteq> [] \<and> cd_chapters d \<noteq> []) (InvalidDocument ''chapters''),
      ensure (length (cd_toc d) = length (cd_chapters d)) (InvalidDocument ''toc''),
      validate_document_rows d 0 (zip (cd_toc d) (cd_chapters d)),
      ensure (cd_fingerprint d = content_document_fingerprint d) (InvalidDocument ''content_fingerprint'')]"

definition new_document ::
  "ustr \<Rightarrow> book \<Rightarrow> toc_entry list \<Rightarrow> normalized_chapter list \<Rightarrow> int \<Rightarrow> content_error + content_document" where
  \<comment> \<open>\<open>ContentDocument::new\<close>\<close>
  "new_document source_id bk toc chapters updated_at =
     (let d = \<lparr>cd_source_id = trim source_id, cd_book = bk, cd_toc = toc, cd_chapters = chapters,
                cd_updated_at = updated_at, cd_fingerprint = []\<rparr>;
          document = d\<lparr>cd_fingerprint := content_document_fingerprint d\<rparr>
      in and_then (validate_content_document document) (\<lambda>_. Inr document))"

subsection \<open>The library\<close>

record library_snapshot =
  ls_schema_version :: u32
  ls_exported_at :: int
  ls_documents :: "content_document list"

definition library_schema_version :: u32 where
  "library_schema_version = 1"

definition empty_library_snapshot :: "int \<Rightarrow> library_snapshot" where
  "empty_library_snapshot t =
     \<lparr>ls_schema_version = library_schema_version, ls_exported_at = t, ls_documents = []\<rparr>"

fun scan_documents :: "document_key list \<Rightarrow> content_document list \<Rightarrow> content_error + unit" where
  "scan_documents seen [] = Inr ()"
| "scan_documents seen (d # ds) = and_then (validate_content_document d) (\<lambda>_.
     if document_key d \<in> set seen then Inl (InvalidDocument ''documents'')
     else scan_documents (document_key d # seen) ds)"

definition validate_library_snapshot :: "library_snapshot \<Rightarrow> content_error + unit" where
  "validate_library_snapshot sn = checks
     [ensure (ls_schema_version sn = library_schema_version) (InvalidDocument ''schema_version''),
      scan_documents [] (ls_documents sn)]"

type_synonym library = "(document_key, content_document) hmap"

definition upsert_document :: "library \<Rightarrow> content_document \<Rightarrow> (content_error + content_document) \<times> library" where
  "upsert_document l d = (case validate_content_document d of Inl e \<Rightarrow> (Inl e, l)
     | Inr _ \<Rightarrow> (Inr d, hm_insert (document_key d) d l))"

definition content_document_key :: "ustr \<Rightarrow> ustr \<Rightarrow> content_error + document_key" where
  "content_document_key source_id book_id =
     and_then (validate_document_non_empty ''source_id'' source_id) (\<lambda>_.
     and_then (validate_document_non_empty ''book_id'' book_id) (\<lambda>_.
       Inr (trim source_id, trim book_id)))"

definition get_document :: "library \<Rightarrow> ustr \<Rightarrow> ustr \<Rightarrow> content_error + content_document option" where
  "get_document l source_id book_id =
     and_then (content_document_key source_id book_id) (\<lambda>k. Inr (map_of l k))"

definition document_cmp :: "content_document cmp" where
  \<comment> \<open>\<open>compare_content_document_key\<close>\<close>
  "document_cmp = chain (by_key cd_source_id) (by_key (\<lambda>d. bk_book_id (cd_book d)))"

definition list_documents :: "library \<Rightarrow> content_document list" where
  "list_documents l = sort_by document_cmp (hm_values l)"

definition get_chapter :: "library \<Rightarrow> ustr \<Rightarrow> ustr \<Rightarrow> u32 \<Rightarrow> content_error + normalized_chapter option" where
  "get_chapter l source_id book_id index =
     and_then (get_document l source_id book_id) (\<lambda>found. case found of None \<Rightarrow> Inr None
       | Some d \<Rightarrow> Inr (List.find (\<lambda>ch. nc_chapter_index ch = index) (cd_chapters d)))"

definition remove_document :: "library \<Rightarrow> ustr \<Rightarrow> ustr \<Rightarrow> (content_error + bool) \<times> library" where
  "remove_document l source_id book_id = (case content_document_key source_id book_id of
       Inl e \<Rightarrow> (Inl e, l) | Inr k \<Rightarrow> (Inr (hm_contains k l), hm_remove k l))"

definition export_library :: "library \<Rightarrow> int \<Rightarrow> content_error + library_snapshot" where
  \<comment> \<open>\<open>export_snapshot\<close> with \<open>sort_content_snapshot\<close>\<close>
  "export_library l t =
     (let sn = \<lparr>ls_schema_version = library_schema_version, ls_exported_at = t,
                 ls_documents = sort_by document_cmp (hm_values l)\<rparr>
      in and_then (validate_library_snapshot sn) (\<lambda>_. Inr sn))"

definition import_library :: "library \<Rightarrow> library_snapshot \<Rightarrow> (content_error + unit) \<times> library" where
  \<comment> \<open>\<open>replace_with_snapshot\<close>\<close>
  "import_library l sn = (case validate_library_snapshot sn of Inl e \<Rightarrow> (Inl e, l)
     | Inr _ \<Rightarrow> (Inr (), fold (\<lambda>d. hm_insert (document_key d) d) (ls_documents sn) []))"

datatype library_call = UpsertDocument content_document | RemoveDocument ustr ustr
  | ImportLibrary library_snapshot

fun library_step :: "library_call \<Rightarrow> library \<Rightarrow> library" where
  "library_step (UpsertDocument d) l = snd (upsert_document l d)"
| "library_step (RemoveDocument s b) l = snd (remove_document l s b)"
| "library_step (ImportLibrary sn) l = snd (import_library l sn)"

definition library_run :: "library_call list \<Rightarrow> library \<Rightarrow> library" where
  "library_run calls l = fold library_step calls l"

subsection \<open>What the removal of a repeated title removes\<close>

definition title_prefix :: "ustr \<Rightarrow> ustr \<Rightarrow> bool" where
  \<comment> \<open>separators and occurrences of the book title\<close>
  "title_prefix book_title p = (\<exists>ts. p = concat ts \<and> (\<forall>t \<in> set ts. t = book_title \<or> (\<exists>c. t = [c] \<and> is_title_separator c)))"

lemma title_prefix_append: "title_prefix b p \<Longrightarrow> title_prefix b q \<Longrightarrow> title_prefix b (p @ q)"
proof -
  assume "title_prefix b p" "title_prefix b q"
  then obtain ps qs where "p = concat ps" "q = concat qs"
    "\<forall>t \<in> set (ps @ qs). t = b \<or> (\<exists>c. t = [c] \<and> is_title_separator c)"
    unfolding title_prefix_def by (metis Un_iff set_append)
  then show ?thesis unfolding title_prefix_def by (intro exI[of _ "ps @ qs"]) simp
qed

lemma title_prefix_seps: "\<forall>c \<in> set p. is_title_separator c \<Longrightarrow> title_prefix b p"
  unfolding title_prefix_def by (intro exI[of _ "map (\<lambda>c. [c]) p"]) auto

lemma title_prefix_book: "title_prefix b b"
  unfolding title_prefix_def by (intro exI[of _ "[b]"]) simp

lemma skip_title_tokens_prefix: "\<exists>p. s = p @ skip_title_tokens b s \<and> title_prefix b p"
proof -
  let ?w = "takeWhile is_title_separator s" and ?t = "dropWhile is_title_separator s"
  have w: "title_prefix b ?w" by (rule title_prefix_seps) (auto dest: set_takeWhileD)
  show ?thesis
  proof (cases "b \<noteq> [] \<and> starts_with ?t b")
    case True
    then have "s = (?w @ b) @ skip_title_tokens b s"
      using starts_with_split[of ?t b] by (simp add: skip_title_tokens_def Let_def)
    then show ?thesis using title_prefix_append[OF w title_prefix_book] by blast
  next
    case False
    then have "s = ?w @ skip_title_tokens b s" by (auto simp: skip_title_tokens_def Let_def)
    then show ?thesis using w by blast
  qed
qed

lemma skip_all_prefix: "\<exists>p. s = p @ skip_all_title_tokens b s \<and> title_prefix b p"
proof (induction b s rule: skip_all_title_tokens.induct)
  case (1 b s)
  show ?case
  proof (cases "skip_title_tokens b s = s")
    case True
    then show ?thesis
      by (subst skip_all_title_tokens.simps) (auto simp: title_prefix_def intro: exI[of _ "[]"])
  next
    case False
    obtain p where p: "s = p @ skip_title_tokens b s" "title_prefix b p"
      using skip_title_tokens_prefix by blast
    obtain q where q: "skip_title_tokens b s = q @ skip_all_title_tokens b (skip_title_tokens b s)" "title_prefix b q"
      using 1[OF refl False] by blast
    have "skip_all_title_tokens b s = skip_all_title_tokens b (skip_title_tokens b s)"
      using False by (subst skip_all_title_tokens.simps) simp
    moreover have "s = (p @ q) @ skip_all_title_tokens b (skip_title_tokens b s)"
      using p(1) q(1) by (metis append.assoc)
    ultimately show ?thesis using title_prefix_append[OF p(2) q(2)] by metis
  qed
qed

lemma match_title_split: "match_title t s = Some r \<Longrightarrow> \<exists>m. s = m @ r \<and> solid_text m = solid_text t"
proof (induction t s rule: match_title.induct)
  case (2 e es s)
  show ?case
  proof (cases "is_whitespace e")
    case True
    with 2 obtain m where m: "dropWhile is_whitespace s = m @ r" "solid_text m = solid_text es" by auto
    have white: "solid_text (takeWhile is_whitespace s) = []"
      by (auto simp: solid_text_def filter_empty_conv dest: set_takeWhileD)
    have "s = takeWhile is_whitespace s @ dropWhile is_whitespace s" by simp
    then have "s = (takeWhile is_whitespace s @ m) @ r" by (simp only: m(1) append.assoc)
    moreover have "solid_text (takeWhile is_whitespace s @ m) = solid_text (e # es)"
      using True m(2) white by simp
    ultimately show ?thesis by blast
  next
    case False
    with 2(3) obtain cs where s: "s = e # cs" "match_title es cs = Some r"
      by (auto split: list.splits if_splits)
    with 2(2)[OF False s(1)] obtain m where "cs = m @ r" "solid_text m = solid_text es" by auto
    with False s(1) show ?thesis by (intro exI[of _ "e # m"]) simp
  qed
qed auto

lemma after_title_split:
  assumes "after_duplicate_title content b t = Some rest"
  shows "\<exists>pre mid ws. content = pre @ mid @ ws @ rest \<and> title_prefix (trim b) pre
    \<and> solid_text mid = solid_text t \<and> blank ws \<and> (rest = [] \<or> ws \<noteq> [])"
proof -
  obtain s where s: "match_title (trim t) (skip_all_title_tokens (trim b) content) = Some s"
      "s = [] \<or> is_whitespace (hd s)" and rest: "rest = dropWhile is_whitespace s"
    using assms by (auto simp: after_duplicate_title_def Let_def split: if_splits option.splits)
  obtain pre where pre: "content = pre @ skip_all_title_tokens (trim b) content" "title_prefix (trim b) pre"
    using skip_all_prefix by blast
  obtain mid where mid: "skip_all_title_tokens (trim b) content = mid @ s" "solid_text mid = solid_text t"
    using match_title_split[OF s(1)] by auto
  have "s = takeWhile is_whitespace s @ rest" by (simp add: rest)
  moreover have "blank (takeWhile is_whitespace s)" by (auto simp: blank_iff dest: set_takeWhileD)
  moreover have "rest = [] \<or> takeWhile is_whitespace s \<noteq> []" using s(2) rest by (cases s) auto
  ultimately show ?thesis using pre mid by (metis append.assoc)
qed

lemma match_title_self:
  assumes "t = [] \<or> \<not> is_whitespace (last t)"
  shows "match_title t (t @ s) = Some s"
    and "t \<noteq> [] \<Longrightarrow> match_title t (dropWhile is_whitespace (t @ s)) = Some s"
proof -
  have "match_title t (t @ s) = Some s \<and> (t \<noteq> [] \<longrightarrow> match_title t (dropWhile is_whitespace (t @ s)) = Some s)"
    using assms
  proof (induction t)
    case (Cons e es)
    have IH: "match_title es (es @ s) = Some s" "es \<noteq> [] \<Longrightarrow> match_title es (dropWhile is_whitespace (es @ s)) = Some s"
      using Cons by (cases "es = []", simp, simp, cases "es = []", simp, simp)
    show ?case
    proof (cases "is_whitespace e")
      case True
      then have "es \<noteq> []" using Cons.prems by auto
      with True IH(2) show ?thesis by simp
    next
      case False
      with IH(1) show ?thesis by simp
    qed
  qed simp
  then show "match_title t (t @ s) = Some s"
    and "t \<noteq> [] \<Longrightarrow> match_title t (dropWhile is_whitespace (t @ s)) = Some s" by blast+
qed

lemma title_line_removed:
  \<comment> \<open>a title line at the start of the body is found\<close>
  assumes t: "t \<noteq> []" "trim t = t" "\<not> is_title_separator (hd t)"
    and b: "\<not> starts_with (t @ w # s) (trim b) \<or> blank b" and w: "is_whitespace w"
  shows "after_duplicate_title (t @ w # s) b t = Some (dropWhile is_whitespace s)"
proof -
  have "skip_title_tokens (trim b) (t @ w # s) = t @ w # s"
    using t b by (cases t) (auto simp: skip_title_tokens_def blank_def)
  then have skip: "skip_all_title_tokens (trim b) (t @ w # s) = t @ w # s"
    by (subst skip_all_title_tokens.simps) simp
  have "\<not> is_whitespace (last t)"
  proof -
    have "trim_end (trim_start t) = t" using t(2) by (simp add: trim_def)
    moreover have "trim_start t \<noteq> []" using t(1) calculation by (auto simp: trim_end_def)
    ultimately show ?thesis
      using t(1) by (metis (no_types, lifting) hd_dropWhile last_rev rev_is_Nil_conv trim_end_def)
  qed
  then have "match_title t (t @ w # s) = Some (w # s)" by (intro match_title_self) simp
  with skip t w show ?thesis by (simp add: after_duplicate_title_def)
qed

subsection \<open>Paragraphs and bodies\<close>

lemma replace_line_feed [simp]: "str_replace [10] [10] s = s"
proof (induction s)
  case (Cons c s)
  then show ?case
    using str_replace_hit[of "[10]" "[10]" s] str_replace_miss[of "[10]" c s "[10]"]
    by (cases "c = 10") auto
qed simp

lemma paragraphs_trimmed: "p \<in> set (split_paragraphs s) \<Longrightarrow> \<not> blank p \<and> trim p = p"
  by (auto simp: split_paragraphs_def blank_def)

lemma paragraphs_solid: "concat (map solid_text (split_paragraphs s)) = solid_text s"
proof -
  have drop: "concat (map solid_text (filter (\<lambda>p. p \<noteq> []) (map trim ps))) = concat (map solid_text ps)" for ps
  proof (induction ps)
    case (Cons p ps)
    then show ?case using solid_trims(3)[of p] by (cases "trim p = []") (auto simp del: solid_trims)
  qed simp
  have "concat (map solid_text (split_str [10, 10] s)) = solid_text s"
    using filter_split_str[of "[10, 10]" "\<lambda>c. \<not> is_whitespace c" s] by (simp add: solid_text_def[abs_def])
  then show ?thesis by (simp add: split_paragraphs_def drop map_idI)
qed

definition bom_text :: "ustr \<Rightarrow> ustr" where
  \<comment> \<open>the text behind the byte order marks at its start\<close>
  "bom_text s = dropWhile (\<lambda>c. c = 0xFEFF) s"

lemma bom_split: "\<exists>bom. solid_text s = bom @ solid_text (bom_text s) \<and> set bom \<subseteq> {0xFEFF}"
proof -
  have "s = takeWhile (\<lambda>c. c = 0xFEFF) s @ bom_text s" by (simp add: bom_text_def)
  then have "solid_text s = solid_text (takeWhile (\<lambda>c. c = 0xFEFF) s) @ solid_text (bom_text s)"
    by (metis solid_text_simps(2))
  moreover have "set (solid_text (takeWhile (\<lambda>c. c = 0xFEFF) s)) \<subseteq> {0xFEFF}"
    by (auto simp: solid_text_def dest: set_takeWhileD)
  ultimately show ?thesis by blast
qed

definition dropped_title :: "ustr \<Rightarrow> ustr \<Rightarrow> ustr \<Rightarrow> bool" where
  \<comment> \<open>the solid characters that go with a repeated title: separators and book titles, the title,
    byte order marks\<close>
  "dropped_title book_title title x = (\<exists>p bom. x = solid_text p @ solid_text title @ bom
     \<and> title_prefix (trim book_title) p \<and> set bom \<subseteq> {0xFEFF})"

lemma body_solid:
  fixes raw bt t
  defines "body \<equiv> remove_leading_duplicate_chapter_title (normalize_chapter_content raw) bt t"
  shows "canonical_chapter body
    \<and> (\<exists>x. solid_text (bom_text raw) = x @ solid_text body \<and> (x = [] \<or> dropped_title bt t x))"
proof -
  let ?c = "normalize_chapter_content raw"
  have c: "solid_text ?c = solid_text (bom_text raw)" by (simp add: chapter_content_solid bom_text_def)
  show ?thesis
  proof (cases "after_duplicate_title ?c bt t")
    case None
    then have "body = ?c" by (simp add: body_def remove_leading_duplicate_chapter_title_def)
    with c chapter_content_canonical show ?thesis by simp
  next
    case (Some rest)
    then have body: "body = normalize_chapter_content rest"
      by (simp add: body_def remove_leading_duplicate_chapter_title_def)
    obtain pre mid ws where split: "?c = pre @ mid @ ws @ rest" "title_prefix (trim bt) pre"
        "solid_text mid = solid_text t" "blank ws"
      using after_title_split[OF Some] by blast
    obtain bom where bom: "solid_text rest = bom @ solid_text (bom_text rest)" "set bom \<subseteq> {0xFEFF}"
      using bom_split by blast
    have "solid_text ?c = solid_text pre @ solid_text mid @ solid_text ws @ solid_text rest"
      by (simp add: split(1))
    also have "\<dots> = (solid_text pre @ solid_text t @ bom) @ solid_text body"
      using split(3,4) by (simp add: solid_text_blank bom(1) body chapter_content_solid bom_text_def)
    finally have "solid_text (bom_text raw) = (solid_text pre @ solid_text t @ bom) @ solid_text body"
      by (simp add: c)
    moreover have "dropped_title bt t (solid_text pre @ solid_text t @ bom)"
      using split(2) bom(2) unfolding dropped_title_def by blast
    ultimately show ?thesis using chapter_content_canonical body by blast
  qed
qed

lemma normalize_chapter_ok:
  "normalize_chapter src bk toc raw = Inr ch \<longleftrightarrow>
     (let body = remove_leading_duplicate_chapter_title (normalize_chapter_content raw) (bk_title bk) (te_title toc)
      in \<not> blank (src_source_id src) \<and> \<not> blank (bk_book_id bk) \<and> \<not> blank body
        \<and> ch = \<lparr>nc_source_id = src_source_id src, nc_book_id = bk_book_id bk, nc_chapter_index = te_index toc,
           nc_title = te_title toc, nc_url = te_url toc, nc_content = body,
           nc_paragraphs = split_paragraphs body, nc_char_len = length body,
           nc_fingerprint = stable_fingerprint body,
           nc_cache_key = content_cache_key (src_source_id src) (bk_book_id bk) (te_index toc) (stable_fingerprint body)\<rparr>)"
  by (auto simp: normalize_chapter_def validate_non_empty_def and_then_eq_Inr Let_def)

lemma normalized_chapter_valid:
  assumes "normalize_chapter src bk toc raw = Inr ch"
    and "cd_source_id d = src_source_id src" and "bk_book_id (cd_book d) = bk_book_id bk"
  shows "validate_chapter_for_document d toc ch = Inr ()"
  using assms by (simp add: normalize_chapter_ok validate_chapter_for_document_def Let_def)

text \<open>
  C24: A chapter body is normalized exactly when the ids and the remaining body are not blank. The
  row it gives is canonical text, loses from the raw body only white space, leading byte order
  marks and a repeated title (with the separators and book titles before it), cuts it into
  paragraphs that lose only white space, and passes the checks of every document of that book.
\<close>
theorem normalize_chapter_exact:
  "let body = remove_leading_duplicate_chapter_title (normalize_chapter_content raw) (bk_title bk) (te_title toc) in
     is_ok (normalize_chapter src bk toc raw) = (\<not> blank (src_source_id src) \<and> \<not> blank (bk_book_id bk) \<and> \<not> blank body)
     \<and> (\<forall>ch. normalize_chapter src bk toc raw = Inr ch \<longrightarrow>
          nc_content ch = body \<and> canonical_chapter body
          \<and> (\<exists>x. solid_text (bom_text raw) = x @ solid_text body
                \<and> (x = [] \<or> dropped_title (bk_title bk) (te_title toc) x))
          \<and> concat (map solid_text (nc_paragraphs ch)) = solid_text body
          \<and> (\<forall>p \<in> set (nc_paragraphs ch). \<not> blank p \<and> trim p = p)
          \<and> (\<forall>d. cd_source_id d = src_source_id src \<and> bk_book_id (cd_book d) = bk_book_id bk \<longrightarrow>
                validate_chapter_for_document d toc ch = Inr ()))"
  using body_solid[of raw "bk_title bk" "te_title toc"] paragraphs_trimmed paragraphs_solid
    normalized_chapter_valid[of src bk toc raw]
  unfolding Let_def is_ok_iff normalize_chapter_ok
  by (intro conjI allI impI) auto

definition novel_source :: source where
  "novel_source = \<lparr>src_source_id = lit ''s'', src_name = [], src_base_url = [],
     src_rules = \<lparr>rules_search = JNull, rules_explore = JNull, rules_detail = JNull, rules_toc = JNull, rules_chapter = JNull\<rparr>,
     src_book_source = JNull\<rparr>"

definition novel_book :: book where
  "novel_book = \<lparr>bk_book_id = lit ''b'', bk_title = [], bk_author = [], bk_cover_url = None, bk_intro = None,
     bk_kind = None, bk_last_chapter = None\<rparr>"

definition novel_entry :: toc_entry where
  "novel_entry = \<lparr>te_index = 0, te_title = lit ''One'', te_url = lit ''/1''\<rparr>"

definition novel_raw :: ustr where
  "novel_raw = lit ''One'' @ 10 # lit ''Hi''"

lemma canonical_samples: "canonical_chapter novel_raw" "canonical_chapter (lit ''Hi'')"
  by (simp_all add: canonical_chapter_def canonical_lines_def str_lines_def strip_cr_def novel_raw_def trim_end_def
      is_whitespace_def)

lemma novel_body: "remove_leading_duplicate_chapter_title (normalize_chapter_content novel_raw) [] (lit ''One'') = lit ''Hi''"
proof -
  have raw: "normalize_chapter_content novel_raw = novel_raw"
    using canonical_samples(1) by (rule chapter_content_unchanged) (simp add: novel_raw_def)
  have "after_duplicate_title novel_raw [] (lit ''One'') = Some (dropWhile is_whitespace (lit ''Hi''))"
    unfolding novel_raw_def
    by (rule title_line_removed)
      (simp_all add: trim_def trim_start_def trim_end_def is_whitespace_def is_title_separator_def
        is_ascii_punctuation_def blank_def)
  then have "after_duplicate_title novel_raw [] (lit ''One'') = Some (lit ''Hi'')"
    by (simp add: is_whitespace_def)
  moreover have "normalize_chapter_content (lit ''Hi'') = lit ''Hi''"
    using canonical_samples(2) by (rule chapter_content_unchanged) simp
  ultimately show ?thesis
    by (simp only: raw remove_leading_duplicate_chapter_title_def option.case)
qed

lemma novel_fields: "src_source_id novel_source = lit ''s''" "bk_book_id novel_book = lit ''b''"
  "bk_title novel_book = []" "te_title novel_entry = lit ''One''" "te_index novel_entry = 0"
  by (simp_all add: novel_source_def novel_book_def novel_entry_def)

lemma novel_not_blank: "\<not> blank (lit ''s'')" "\<not> blank (lit ''b'')" "\<not> blank (lit ''Hi'')"
  by (simp_all add: blank_iff is_whitespace_def)

lemma novel_chapter: "\<exists>ch. normalize_chapter novel_source novel_book novel_entry novel_raw = Inr ch"
  unfolding normalize_chapter_ok Let_def novel_fields novel_body using novel_not_blank by blast

theorem normalize_chapter_exact_witness:
  "\<exists>ch. normalize_chapter novel_source novel_book novel_entry novel_raw = Inr ch
     \<and> nc_content ch = lit ''Hi'' \<and> concat (map solid_text (nc_paragraphs ch)) = solid_text (lit ''Hi'')"
proof -
  note exact = normalize_chapter_exact[of novel_raw novel_book novel_entry novel_source,
      unfolded novel_fields novel_body Let_def]
  from exact have "is_ok (normalize_chapter novel_source novel_book novel_entry novel_raw)"
    using novel_not_blank by blast
  then obtain ch where "normalize_chapter novel_source novel_book novel_entry novel_raw = Inr ch"
    unfolding is_ok_iff by blast
  with exact show ?thesis by blast
qed

end
