(* ===== verification/ContentLibrary.thy ===== *)
theory ContentLibrary
  imports ContentDocs
begin

text \<open>
  Properties of the document library: what validation accepts, the invariant of every reachable
  library, lookups, and export followed by import.
\<close>

subsection \<open>What validation accepts\<close>

lemma document_rows_ok:
  "validate_document_rows d i rows = Inr () \<longleftrightarrow>
     (\<forall>j < length rows. te_index (fst (rows ! j)) = of_nat (i + j)
        \<and> nc_chapter_index (snd (rows ! j)) = of_nat (i + j)
        \<and> validate_chapter_for_document d (fst (rows ! j)) (snd (rows ! j)) = Inr ())"
proof (induction d i rows rule: validate_document_rows.induct)
  case (2 d i toc ch rows)
  then show ?case by (auto simp: All_less_Suc2)
qed simp

lemma scan_documents_ok:
  "scan_documents seen ds = Inr () \<longleftrightarrow> (\<forall>d \<in> set ds. validate_content_document d = Inr ())
     \<and> distinct (map document_key ds) \<and> set (map document_key ds) \<inter> set seen = {}"
  by (induction ds arbitrary: seen) (auto simp: and_then_eq_Inr)

lemma library_snapshot_ok:
  "validate_library_snapshot sn = Inr () \<longleftrightarrow> ls_schema_version sn = library_schema_version
     \<and> (\<forall>d \<in> set (ls_documents sn). validate_content_document d = Inr ())
     \<and> distinct (map document_key (ls_documents sn))"
  by (simp add: validate_library_snapshot_def scan_documents_ok)

subsection \<open>The invariant\<close>

definition library_ok :: "library \<Rightarrow> bool" where
  "library_ok l = (keyed document_key l \<and> (\<forall>d \<in> set (hm_values l). validate_content_document d = Inr ()))"

lemma values_hm_insert: "hm_ok l \<Longrightarrow> set (hm_values (hm_insert k v l)) \<subseteq> insert v (set (hm_values l))"
  by (auto simp: hm_values_def set_hm_insert)

lemma values_hm_remove: "set (hm_values (hm_remove k l)) \<subseteq> set (hm_values l)"
  by (auto simp: hm_values_def hm_remove_def)

lemma imported_table:
  assumes "distinct (map document_key ds)"
  shows "fold (\<lambda>d. hm_insert (document_key d) d) ds [] = map (\<lambda>d. (document_key d, d)) ds"
  using hm_insert_all_fresh[of "[]" document_key ds] assms by simp

lemma library_ok_step: "library_ok l \<Longrightarrow> library_ok (library_step c l)"
proof (cases c)
  case (UpsertDocument d)
  assume "library_ok l"
  with UpsertDocument show ?thesis
    using values_hm_insert[of l "document_key d" d]
    by (auto simp: library_ok_def upsert_document_def keyed_insert keyed_hm_ok split: sum.splits dest!: subsetD)
next
  case (RemoveDocument s b)
  assume "library_ok l"
  with RemoveDocument show ?thesis
    using values_hm_remove[of _ l]
    by (auto simp: library_ok_def remove_document_def keyed_remove split: sum.splits)
next
  case (ImportLibrary sn)
  assume "library_ok l"
  with ImportLibrary show ?thesis
    by (auto simp: library_ok_def import_library_def library_snapshot_ok imported_table keyed_def hm_ok_def
        hm_values_def comp_def split: sum.splits)
qed

lemma library_ok_run: "library_ok l \<Longrightarrow> library_ok (library_run calls l)"
  unfolding library_run_def by (induction calls arbitrary: l) (simp_all add: library_ok_step)

lemma library_ok_Nil: "library_ok []"
  by (simp add: library_ok_def hm_values_def)

subsection \<open>Listing and export\<close>

interpretation documents: comparator document_cmp
  unfolding document_cmp_def by (intro comparator_intros)

lemma document_cmp_le: "cmp_le document_cmp a b \<longleftrightarrow> document_key a \<le> document_key b"
  by (auto simp: document_cmp_def chain_def by_key_def rcmp_def document_key_def less_eq_prod_def
      then_with_Greater split: if_splits)

lemma document_keys_sorted:
  assumes "keyed document_key l"
  shows "sorted_wrt (<) (map document_key (sort_by document_cmp (hm_values l)))"
proof -
  let ?ds = "sort_by document_cmp (hm_values l)"
  have "sorted_wrt (\<lambda>a b. document_key a \<le> document_key b) ?ds"
    using documents.sorted_sort[of "hm_values l"] by (simp add: document_cmp_le)
  then have "sorted (map document_key ?ds)" by (simp add: sorted_map)
  moreover have "distinct (map document_key ?ds)"
    using keyed_distinct_values[OF assms] by simp
  ultimately show ?thesis by (simp add: strict_sorted_iff)
qed

lemma map_of_keyed_values:
  assumes "keyed f l" and "mset vs = mset (hm_values l)"
  shows "map_of (map (\<lambda>v. (f v, v)) vs) = map_of l"
proof -
  have l: "map (\<lambda>v. (f v, v)) (hm_values l) = l"
    using assms(1) by (auto simp: keyed_def hm_values_def intro!: map_idI)
  have "mset (map (\<lambda>v. (f v, v)) vs) = mset (map (\<lambda>v. (f v, v)) (hm_values l))"
    using assms(2) by simp
  then have m: "mset (map (\<lambda>v. (f v, v)) vs) = mset l" by (simp only: l)
  have d: "distinct (map fst l)" using assms(1) by (simp add: keyed_def hm_ok_def)
  have "mset (map fst (map (\<lambda>v. (f v, v)) vs)) = mset (map fst l)"
    using arg_cong[OF m, of "image_mset fst"] by (simp only: mset_map)
  then have d': "distinct (map fst (map (\<lambda>v. (f v, v)) vs))" using d mset_eq_imp_distinct_iff by blast
  show ?thesis
    using map_of_inject_set[OF d' d] mset_eq_setD[OF m] by blast
qed

text \<open>
  C23: Whatever calls made a library, exporting it succeeds; the export lists exactly its documents
  in strictly increasing key order, and importing it into any library gives back every document
  under its key and nothing else. A refused import changes nothing.
\<close>
theorem library_roundtrip:
  "(let l = library_run calls [] in
     \<exists>sn. export_library l t = Inr sn \<and> set (ls_documents sn) = set (hm_values l)
       \<and> sorted_wrt (<) (map document_key (ls_documents sn))
       \<and> fst (import_library l' sn) = Inr ()
       \<and> map_of (snd (import_library l' sn)) = map_of l)
   \<and> (\<forall>sn'. fst (import_library l' sn') \<noteq> Inr () \<longrightarrow> snd (import_library l' sn') = l')"
proof -
  let ?l = "library_run calls []" and ?sn = "\<lambda>l. \<lparr>ls_schema_version = library_schema_version,
     ls_exported_at = t, ls_documents = sort_by document_cmp (hm_values l)\<rparr>"
  have ok: "library_ok ?l" by (rule library_ok_run[OF library_ok_Nil])
  then have keyed: "keyed document_key ?l" by (simp add: library_ok_def)
  have valid: "validate_library_snapshot (?sn ?l) = Inr ()"
    using ok keyed_distinct_values[OF keyed] by (simp add: library_snapshot_ok library_ok_def)
  have exported: "export_library ?l t = Inr (?sn ?l)"
    using valid by (simp add: export_library_def)
  have imported: "import_library l' (?sn ?l) = (Inr (), map (\<lambda>d. (document_key d, d)) (ls_documents (?sn ?l)))"
    using imported_table[of "ls_documents (?sn ?l)"] valid[unfolded library_snapshot_ok]
    by (simp only: import_library_def valid sum.case)
  have map: "map_of (map (\<lambda>d. (document_key d, d)) (ls_documents (?sn ?l))) = map_of ?l"
    by (rule map_of_keyed_values[OF keyed]) simp
  have refused: "\<forall>sn'. fst (import_library l' sn') \<noteq> Inr () \<longrightarrow> snd (import_library l' sn') = l'"
    by (simp add: import_library_def split: sum.splits)
  show ?thesis
    unfolding Let_def
    by (intro conjI refused exI[of _ "?sn ?l"] exported)
      (use imported map document_keys_sorted[OF keyed] in simp_all)
qed


subsection \<open>Documents of normalized chapters\<close>

lemma content_document_key_ok:
  "content_document_key s b = Inr k \<longleftrightarrow> \<not> blank s \<and> \<not> blank b \<and> k = (trim s, trim b)"
  by (auto simp: content_document_key_def validate_document_non_empty_def and_then_eq_Inr)

lemma upserted_lookup:
  assumes "upsert_document l d = (Inr d, l')"
  shows "get_document l' s b = Inr (Some d') \<longleftrightarrow> \<not> blank s \<and> \<not> blank b
    \<and> (if (trim s, trim b) = document_key d then d' = d else map_of l (trim s, trim b) = Some d')"
  using assms by (auto simp: get_document_def and_then_eq_Inr content_document_key_ok upsert_document_def
      table_simps split: sum.splits if_splits)

text \<open>
  C31: A document made of the normalized chapters of a numbered table of contents is accepted
  exactly when the source id carries no surrounding white space (the constructor trims it in the
  document but not in the chapters). Stored in a library, the document can be looked up exactly
  when its book id carries none either: lookups trim their arguments, the key does not.
\<close>
theorem document_of_normalized_chapters:
  assumes chapters: "list_all2 (\<lambda>t ch. \<exists>raw. normalize_chapter src bk t raw = Inr ch) toc chs"
    and toc: "toc \<noteq> []" "\<forall>i < length toc. te_index (toc ! i) = of_nat i"
  shows "(is_ok (new_document (src_source_id src) bk toc chs t) \<longleftrightarrow> trim (src_source_id src) = src_source_id src)
    \<and> (\<forall>d l. new_document (src_source_id src) bk toc chs t = Inr d \<and> d \<notin> set (hm_values l) \<longrightarrow>
         fst (upsert_document l d) = Inr d
         \<and> ((\<exists>s b. get_document (snd (upsert_document l d)) s b = Inr (Some d))
            \<longleftrightarrow> trim (bk_book_id bk) = bk_book_id bk))"
proof -
  define d0 where "d0 = \<lparr>cd_source_id = trim (src_source_id src), cd_book = bk, cd_toc = toc, cd_chapters = chs,
     cd_updated_at = t, cd_fingerprint = []\<rparr>"
  define doc where "doc = d0\<lparr>cd_fingerprint := content_document_fingerprint d0\<rparr>"
  have new: "new_document (src_source_id src) bk toc chs t = and_then (validate_content_document doc) (\<lambda>_. Inr doc)"
    by (simp add: new_document_def Let_def doc_def d0_def)
  have fields: "cd_source_id doc = trim (src_source_id src)" "cd_book doc = bk" "cd_toc doc = toc" "cd_chapters doc = chs"
    by (simp_all add: doc_def d0_def)
  have fingerprint: "cd_fingerprint doc = content_document_fingerprint doc"
    by (simp add: doc_def d0_def content_document_fingerprint_def)
  have len: "length toc = length chs" using chapters by (rule list_all2_lengthD)
  have row: "\<exists>raw. normalize_chapter src bk (toc ! i) raw = Inr (chs ! i)" if "i < length toc" for i
    using chapters that by (rule list_all2_nthD)
  have ids: "\<not> blank (src_source_id src)" "\<not> blank (bk_book_id bk)"
    using row[of 0] toc(1) by (auto simp: normalize_chapter_ok Let_def)
  have source: "nc_source_id (chs ! i) = src_source_id src" "nc_chapter_index (chs ! i) = te_index (toc ! i)"
    if "i < length toc" for i
    using row[OF that] by (auto simp: normalize_chapter_ok Let_def)
  have rows: "validate_document_rows doc 0 (zip toc chs) = Inr () \<longleftrightarrow> trim (src_source_id src) = src_source_id src"
  proof
    assume "validate_document_rows doc 0 (zip toc chs) = Inr ()"
    then have all: "\<forall>j < length (zip toc chs).
        validate_chapter_for_document doc (fst (zip toc chs ! j)) (snd (zip toc chs ! j)) = Inr ()"
      unfolding document_rows_ok by blast
    have pos: "0 < length toc" "0 < length chs" using toc(1) len by (cases toc; cases chs; simp)+
    then have "validate_chapter_for_document doc (toc ! 0) (chs ! 0) = Inr ()"
      using all[rule_format, of 0] by simp
    then have "nc_source_id (chs ! 0) = trim (src_source_id src)"
      by (simp add: validate_chapter_for_document_def fields(1))
    then show "trim (src_source_id src) = src_source_id src" using source(1)[of 0] toc(1) by simp
  next
    assume trimmed: "trim (src_source_id src) = src_source_id src"
    have "validate_chapter_for_document doc (toc ! i) (chs ! i) = Inr ()" if i: "i < length toc" for i
      using row[OF i] normalized_chapter_valid[of src bk "toc ! i" _ "chs ! i" doc] fields trimmed by auto
    then show "validate_document_rows doc 0 (zip toc chs) = Inr ()"
      using toc(2) source(2) len by (simp add: document_rows_ok)
  qed
  have valid: "validate_content_document doc = Inr () \<longleftrightarrow> trim (src_source_id src) = src_source_id src"
    using rows toc(1) len ids fingerprint not_blank_trim[OF ids(1)]
    by (auto simp: validate_content_document_def validate_document_non_empty_def fields)
  have ok: "is_ok (new_document (src_source_id src) bk toc chs t) \<longleftrightarrow> trim (src_source_id src) = src_source_id src"
    using valid by (cases "validate_content_document doc") (simp_all add: new is_ok_def)
  have stored: "fst (upsert_document l d) = Inr d
      \<and> ((\<exists>s b. get_document (snd (upsert_document l d)) s b = Inr (Some d)) \<longleftrightarrow> trim (bk_book_id bk) = bk_book_id bk)"
    if d: "new_document (src_source_id src) bk toc chs t = Inr d" and fresh: "d \<notin> set (hm_values l)" for d l
  proof -
    have "d = doc" and v: "validate_content_document doc = Inr ()"
      using d by (auto simp: new and_then_eq_Inr)
    then have up: "upsert_document l d = (Inr d, hm_insert (document_key d) d l)"
      by (simp add: upsert_document_def)
    have key: "document_key d = (src_source_id src, bk_book_id bk)" and trimmed: "trim (src_source_id src) = src_source_id src"
      using v valid \<open>d = doc\<close> fields by (simp_all add: document_key_def)
    have "map_of l k \<noteq> Some d" for k
      using fresh by (force simp: hm_values_def dest: map_of_SomeD)
    then have "get_document (snd (upsert_document l d)) s b = Inr (Some d)
        \<longleftrightarrow> \<not> blank s \<and> \<not> blank b \<and> (trim s, trim b) = document_key d" for s b
      using upserted_lookup[OF up, of s b d] up by auto
    moreover have "(\<exists>s b. \<not> blank s \<and> \<not> blank b \<and> (trim s, trim b) = document_key d)
        \<longleftrightarrow> trim (bk_book_id bk) = bk_book_id bk"
      using key trim_trim ids trimmed by (metis prod.inject)
    ultimately show ?thesis using up by simp
  qed
  show ?thesis using ok stored by blast
qed

theorem document_of_normalized_chapters_witness:
  "\<exists>chs d. new_document (src_source_id novel_source) novel_book [novel_entry] chs 7 = Inr d
     \<and> (\<exists>s b. get_document (snd (upsert_document [] d)) s b = Inr (Some d))"
proof -
  obtain ch where ch: "normalize_chapter novel_source novel_book novel_entry novel_raw = Inr ch"
    using novel_chapter by blast
  have trimmed: "trim (lit ''s'') = lit ''s''" "trim (lit ''b'') = lit ''b''"
    by (simp_all add: trim_def trim_start_def trim_end_def is_whitespace_def)
  have "list_all2 (\<lambda>t ch. \<exists>raw. normalize_chapter novel_source novel_book t raw = Inr ch) [novel_entry] [ch]"
    using ch by auto
  note doc = document_of_normalized_chapters[OF this, of 7, unfolded novel_fields trimmed]
  have "is_ok (new_document (lit ''s'') novel_book [novel_entry] [ch] 7)"
    using doc by (simp add: novel_fields del: lit_simps)
  then obtain d where d: "new_document (lit ''s'') novel_book [novel_entry] [ch] 7 = Inr d"
    unfolding is_ok_iff by blast
  with doc have "\<exists>s b. get_document (snd (upsert_document [] d)) s b = Inr (Some d)"
    by (simp add: novel_fields hm_values_def del: lit_simps)
  with d show ?thesis unfolding novel_fields by blast
qed

theorem library_roundtrip_witness:
  "snd (import_library [] ((empty_library_snapshot 3)\<lparr>ls_schema_version := 2\<rparr>)) = []"
  by (rule conjunct2[OF library_roundtrip[of "[]" 0 "[]"], rule_format])
    (simp add: import_library_def validate_library_snapshot_def library_schema_version_def empty_library_snapshot_def)

end
