(* ===== verification/TocDiff.thy ===== *)
theory TocDiff
  imports ContentDocs
begin

text \<open>
  Refreshing a table of contents (\<open>diff_toc\<close>, \<open>remap_reading_progress\<close> and their helpers in
  \<open>crates/reader-content/src/lib.rs\<close>): which chapter of the new table continues a chapter of
  the old one, and where a reading position goes.
\<close>

subsection \<open>Identities\<close>

datatype identity_kind = ByUrl | ByTitle

record chapter_identity =
  ci_index :: u32
  ci_value :: ustr
  ci_occurrence :: nat
  ci_kind :: identity_kind

definition normalize_identity :: "ustr \<Rightarrow> ustr option" where
  "normalize_identity v = (let v = trim v in
     if v = [] then None
     else let w = trim (hd (split_on (\<lambda>c. c = 35) v)) in
       if w = [] then None else Some (to_ascii_lowercase w))"

definition count_of :: "'k \<Rightarrow> ('k, nat) hmap \<Rightarrow> nat" where
  \<comment> \<open>\<open>*counts.get(&k).unwrap_or(&0)\<close>\<close>
  "count_of k m = (case map_of m k of Some n \<Rightarrow> n | None \<Rightarrow> 0)"

fun identities_from :: "(ustr, nat) hmap \<Rightarrow> (ustr, nat) hmap \<Rightarrow> toc_entry list \<Rightarrow> chapter_identity list" where
  "identities_from urls titles [] = []"
| "identities_from urls titles (e # es) = (case normalize_identity (te_url e) of
       Some url \<Rightarrow> \<lparr>ci_index = te_index e, ci_value = url, ci_occurrence = count_of url urls, ci_kind = ByUrl\<rparr>
         # identities_from (hm_insert url (count_of url urls + 1) urls) titles es
     | None \<Rightarrow> (let title = (case normalize_identity (te_title e) of Some t \<Rightarrow> t | None \<Rightarrow> decimal (unat (te_index e)))
         in \<lparr>ci_index = te_index e, ci_value = title, ci_occurrence = count_of title titles, ci_kind = ByTitle\<rparr>
           # identities_from urls (hm_insert title (count_of title titles + 1) titles) es))"

definition toc_identities :: "toc_entry list \<Rightarrow> chapter_identity list" where
  "toc_identities toc = identities_from [] [] toc"

fun title_occurrence_from :: "(ustr, nat) hmap \<Rightarrow> u32 \<Rightarrow> toc_entry list \<Rightarrow> (ustr \<times> nat) option" where
  "title_occurrence_from counts index [] = None"
| "title_occurrence_from counts index (e # es) = (case normalize_identity (te_title e) of
       None \<Rightarrow> title_occurrence_from counts index es
     | Some title \<Rightarrow> if te_index e = index then Some (title, count_of title counts)
         else title_occurrence_from (hm_insert title (count_of title counts + 1) counts) index es)"

definition title_occurrence_for :: "toc_entry list \<Rightarrow> u32 \<Rightarrow> (ustr \<times> nat) option" where
  "title_occurrence_for toc index = title_occurrence_from [] index toc"

definition title_occurrences :: "toc_entry list \<Rightarrow> (ustr \<times> nat) option list" where
  "title_occurrences toc = map (\<lambda>e. title_occurrence_for toc (te_index e)) toc"

subsection \<open>The diff\<close>

record toc_remap =
  tm_old_index :: u32
  tm_new_index :: "u32 option"
  tm_kind :: identity_kind
  tm_identity :: ustr

record toc_diff =
  td_old_len :: nat
  td_new_len :: nat
  td_mappings :: "toc_remap list"
  td_inserted :: "toc_entry list"
  td_removed :: "toc_entry list"

type_synonym locator_map = "(ustr \<times> nat, u32) hmap"

definition index_entry :: "toc_entry list \<Rightarrow> toc_entry \<times> chapter_identity \<Rightarrow> locator_map \<times> locator_map \<Rightarrow> locator_map \<times> locator_map" where
  \<comment> \<open>one round of the loop that fills \<open>url_map\<close> and \<open>title_map\<close>\<close>
  "index_entry new_toc row maps =
     (let (entry, ident) = row; (urls, titles) = maps; key = (ci_value ident, ci_occurrence ident);
          (urls', titles') = (case ci_kind ident of
             ByUrl \<Rightarrow> (hm_insert key (ci_index ident) urls, titles)
           | ByTitle \<Rightarrow> (urls, hm_insert key (ci_index ident) titles))
      in (urls', case title_occurrence_for new_toc (te_index entry) of
             None \<Rightarrow> titles' | Some t \<Rightarrow> hm_insert t (te_index entry) titles'))"

definition index_toc :: "toc_entry list \<Rightarrow> locator_map \<times> locator_map" where
  "index_toc new_toc = fold (index_entry new_toc) (zip new_toc (toc_identities new_toc)) ([], [])"

definition find_successor :: "locator_map \<times> locator_map \<Rightarrow> chapter_identity \<Rightarrow> (ustr \<times> nat) option \<Rightarrow> u32 option" where
  "find_successor maps ident title_identity =
     (let key = (ci_value ident, ci_occurrence ident) in
      case ci_kind ident of
        ByUrl \<Rightarrow> (case map_of (fst maps) key of
            Some i \<Rightarrow> Some i
          | None \<Rightarrow> (case title_identity of None \<Rightarrow> None | Some t \<Rightarrow> map_of (snd maps) t))
      | ByTitle \<Rightarrow> map_of (snd maps) key)"

definition diff_toc :: "toc_entry list \<Rightarrow> toc_entry list \<Rightarrow> toc_diff" where
  "diff_toc old_toc new_toc =
     (let maps = index_toc new_toc;
          rows = zip (zip old_toc (toc_identities old_toc)) (title_occurrences old_toc);
          found = map (\<lambda>((e, ident), t). (e, ident, find_successor maps ident t)) rows;
          mapped = concat (map (\<lambda>(e, ident, n). case n of Some i \<Rightarrow> [i] | None \<Rightarrow> []) found)
      in \<lparr>td_old_len = length old_toc, td_new_len = length new_toc,
          td_mappings = map (\<lambda>(e, ident, n). \<lparr>tm_old_index = te_index e, tm_new_index = n,
             tm_kind = ci_kind ident, tm_identity = ci_value ident\<rparr>) found,
          td_inserted = filter (\<lambda>e. te_index e \<notin> set mapped) new_toc,
          td_removed = concat (map (\<lambda>(e, ident, n). case n of Some _ \<Rightarrow> [] | None \<Rightarrow> [e]) found)\<rparr>)"

subsection \<open>Reading positions\<close>

datatype remap_status = Unchanged | Remapped | ChapterRemovedClamped | EmptyToc

record remapped_progress =
  rm_progress :: reading_progress
  rm_status :: remap_status

fun first_some :: "'a option list \<Rightarrow> 'a option" where
  "first_some [] = None"
| "first_some (None # xs) = first_some xs"
| "first_some (Some x # xs) = Some x"

definition nearest_surviving_index :: "u32 \<Rightarrow> toc_remap list \<Rightarrow> u32" where
  "nearest_surviving_index old_index mappings =
     (case first_some (map tm_new_index (filter (\<lambda>m. old_index < tm_old_index m) mappings)) of
        Some i \<Rightarrow> i
      | None \<Rightarrow> (case first_some (map tm_new_index (filter (\<lambda>m. tm_old_index m < old_index) (rev mappings))) of
          Some i \<Rightarrow> i | None \<Rightarrow> 0))"

definition start_of_chapter :: "reading_progress \<Rightarrow> u32 \<Rightarrow> reading_progress" where
  "start_of_chapter p index = \<lparr>rp_book_id = rp_book_id p, rp_chapter_index = index, rp_chapter_offset = 0,
     rp_chapter_progress = F64 0\<rparr>"

definition remap_reading_progress :: "reading_progress \<Rightarrow> toc_diff \<Rightarrow> remapped_progress" where
  "remap_reading_progress p diff =
     (if td_new_len diff = 0 then \<lparr>rm_progress = start_of_chapter p 0, rm_status = EmptyToc\<rparr>
      else case List.find (\<lambda>m. tm_old_index m = rp_chapter_index p) (td_mappings diff) of
        Some m \<Rightarrow> (case tm_new_index m of
            Some new_index \<Rightarrow> \<lparr>rm_progress = p\<lparr>rp_chapter_index := new_index\<rparr>,
              rm_status = (if new_index = rp_chapter_index p then Unchanged else Remapped)\<rparr>
          | None \<Rightarrow> \<lparr>rm_progress = start_of_chapter p (nearest_surviving_index (rp_chapter_index p) (td_mappings diff)),
              rm_status = ChapterRemovedClamped\<rparr>)
      | None \<Rightarrow> \<lparr>rm_progress = start_of_chapter p (nearest_surviving_index (rp_chapter_index p) (td_mappings diff)),
          rm_status = ChapterRemovedClamped\<rparr>)"

end
