(* ===== verification/TocProps.thy ===== *)
theory TocProps
  imports TocDiff
begin

text \<open>
  Properties of a refresh: the diff computed with occurrence counters and two hash maps is the
  matching by \<open>k\<close>-th occurrence, refreshing an unchanged table maps every chapter to itself, and
  a reading position always lands on a chapter of the new table.
\<close>

subsection \<open>Matching by occurrence\<close>

definition url_of :: "toc_entry \<Rightarrow> ustr option" where
  "url_of e = normalize_identity (te_url e)"

definition title_of :: "toc_entry \<Rightarrow> ustr option" where
  "title_of e = normalize_identity (te_title e)"

definition title_value :: "toc_entry \<Rightarrow> ustr" where
  "title_value e = (case title_of e of Some t \<Rightarrow> t | None \<Rightarrow> decimal (unat (te_index e)))"

definition with_url :: "ustr \<Rightarrow> toc_entry list \<Rightarrow> toc_entry list" where
  "with_url u toc = filter (\<lambda>e. url_of e = Some u) toc"

definition with_title :: "ustr \<Rightarrow> toc_entry list \<Rightarrow> toc_entry list" where
  "with_title t toc = filter (\<lambda>e. title_of e = Some t) toc"

definition title_only :: "ustr \<Rightarrow> toc_entry list \<Rightarrow> toc_entry list" where
  "title_only t toc = filter (\<lambda>e. url_of e = None \<and> title_value e = t) toc"

definition nth_opt :: "'a list \<Rightarrow> nat \<Rightarrow> 'a option" where
  "nth_opt xs k = (if k < length xs then Some (xs ! k) else None)"

definition title_target :: "toc_entry list \<Rightarrow> ustr \<Rightarrow> nat \<Rightarrow> u32 option" where
  \<comment> \<open>the \<open>k\<close>-th chapter known only by this title, else the \<open>k\<close>-th chapter with this title\<close>
  "title_target toc t k = (case nth_opt (title_only t toc) k of Some e \<Rightarrow> Some (te_index e)
     | None \<Rightarrow> map_option te_index (nth_opt (with_title t toc) k))"

definition successor_of :: "toc_entry list \<Rightarrow> toc_entry list \<Rightarrow> toc_entry \<Rightarrow> u32 option" where
  \<comment> \<open>the chapter of the new table that continues \<open>e\<close>, given the chapters before \<open>e\<close>\<close>
  "successor_of new_toc before e = (case url_of e of
       Some u \<Rightarrow> (case nth_opt (with_url u new_toc) (length (with_url u before)) of
           Some x \<Rightarrow> Some (te_index x)
         | None \<Rightarrow> (case title_of e of None \<Rightarrow> None
             | Some t \<Rightarrow> title_target new_toc t (length (with_title t before))))
     | None \<Rightarrow> title_target new_toc (title_value e) (length (title_only (title_value e) before)))"

definition successor_at :: "toc_entry list \<Rightarrow> toc_entry list \<Rightarrow> nat \<Rightarrow> u32 option" where
  "successor_at old_toc new_toc i = successor_of new_toc (take i old_toc) (old_toc ! i)"

definition named_toc :: "toc_entry list \<Rightarrow> bool" where
  \<comment> \<open>chapter indices differ and every chapter has a URL or a title\<close>
  "named_toc toc = (distinct (map te_index toc) \<and> (\<forall>e \<in> set toc. url_of e \<noteq> None \<or> title_of e \<noteq> None))"

lemma nth_opt_snoc: "nth_opt (xs @ [x]) k = (if k = length xs then Some x else nth_opt xs k)"
  by (auto simp: nth_opt_def nth_append)

lemma count_of_Nil [simp]: "count_of k [] = 0"
  by (simp add: count_of_def)

lemma count_of_insert [simp]: "count_of k (hm_insert k' n m) = (if k = k' then n else count_of k m)"
  by (simp add: count_of_def table_simps)

lemma with_snoc [simp]:
  "with_url u (toc @ [e]) = with_url u toc @ (if url_of e = Some u then [e] else [])"
  "with_title t (toc @ [e]) = with_title t toc @ (if title_of e = Some t then [e] else [])"
  "title_only t (toc @ [e]) = title_only t toc @ (if url_of e = None \<and> title_value e = t then [e] else [])"
  by (simp_all add: with_url_def with_title_def title_only_def)

lemma with_Cons [simp]:
  "with_url u (e # toc) = (if url_of e = Some u then e # with_url u toc else with_url u toc)"
  "with_title t (e # toc) = (if title_of e = Some t then e # with_title t toc else with_title t toc)"
  "title_only t (e # toc) = (if url_of e = None \<and> title_value e = t then e # title_only t toc else title_only t toc)"
  by (simp_all add: with_url_def with_title_def title_only_def)

lemma with_Nil [simp]: "with_url u [] = []" "with_title t [] = []" "title_only t [] = []"
  by (simp_all add: with_url_def with_title_def title_only_def)

subsection \<open>What the counters and maps hold\<close>

lemma length_identities [simp]: "length (identities_from U T toc) = length toc"
  by (induction U T toc rule: identities_from.induct) (auto simp: Let_def split: option.splits)

lemma identities_nth:
  "i < length toc \<Longrightarrow> identities_from U T toc ! i =
     (let e = toc ! i in case url_of e of
        Some u \<Rightarrow> \<lparr>ci_index = te_index e, ci_value = u, ci_occurrence = count_of u U + length (with_url u (take i toc)),
          ci_kind = ByUrl\<rparr>
      | None \<Rightarrow> \<lparr>ci_index = te_index e, ci_value = title_value e,
          ci_occurrence = count_of (title_value e) T + length (title_only (title_value e) (take i toc)), ci_kind = ByTitle\<rparr>)"
proof (induction toc arbitrary: U T i)
  case (Cons e toc)
  show ?case
  proof (cases i)
    case 0
    then show ?thesis
      by (simp add: url_of_def title_value_def title_of_def Let_def split: option.splits)
  next
    case (Suc j)
    with Cons.prems have j: "j < length toc" by simp
    show ?thesis
    proof (cases "url_of e")
      case None
      then show ?thesis
        using Cons.IH[OF j, of U "hm_insert (title_value e) (count_of (title_value e) T + 1) T"]
        by (auto simp: Suc url_of_def[symmetric] title_of_def[symmetric] title_value_def[symmetric] Let_def split: option.splits)
    next
      case (Some u)
      then show ?thesis
        using Cons.IH[OF j, of "hm_insert u (count_of u U + 1) U" T]
        by (auto simp: Suc url_of_def[symmetric] Let_def split: option.splits)
    qed
  qed
qed simp

lemma title_occurrence_nth:
  "i < length toc \<Longrightarrow> distinct (map te_index toc) \<Longrightarrow>
     title_occurrence_from C (te_index (toc ! i)) toc
       = (case title_of (toc ! i) of None \<Rightarrow> None | Some t \<Rightarrow> Some (t, count_of t C + length (with_title t (take i toc))))"
proof (induction toc arbitrary: C i)
  case (Cons e toc)
  have absent: "te_index x \<notin> te_index ` set toc \<Longrightarrow> title_occurrence_from D (te_index x) toc = None" for x D
    by (induction toc arbitrary: D) (auto split: option.splits)
  show ?case
  proof (cases i)
    case 0
    then show ?thesis
      using Cons.prems absent[of e] by (auto simp: title_of_def split: option.splits)
  next
    case (Suc j)
    with Cons.prems have j: "j < length toc" "te_index e \<noteq> te_index (toc ! j)" by auto
    show ?thesis
      using Cons.IH[OF j(1)] Cons.prems(2) j(2)
      by (auto simp: Suc title_of_def[symmetric] split: option.splits)
  qed
qed simp

lemma title_only_sub: "named_toc new \<Longrightarrow> length (title_only t (take n new)) \<le> length (with_title t (take n new))"
proof -
  assume named: "named_toc new"
  have "length (title_only t xs) \<le> length (with_title t xs)" if "set xs \<subseteq> set new" for xs
    using that
  proof (induction xs)
    case (Cons e xs)
    then have "url_of e \<noteq> None \<or> title_of e \<noteq> None" using named by (auto simp: named_toc_def)
    with Cons show ?case by (auto simp: title_value_def split: option.splits)
  qed simp
  then show ?thesis using set_take_subset by metis
qed

lemma index_prefix:
  assumes named: "named_toc new" and n: "n \<le> length new"
  defines "maps \<equiv> fold (index_entry new) (take n (zip new (toc_identities new))) ([], [])"
  shows "map_of (fst maps) (u, k) = map_option te_index (nth_opt (with_url u (take n new)) k)
    \<and> map_of (snd maps) (t, j) = title_target (take n new) t j"
  using n unfolding maps_def
proof (induction n arbitrary: u k t j)
  case 0
  show ?case by (simp add: nth_opt_def title_target_def)
next
  case (Suc n)
  let ?maps = "fold (index_entry new) (take n (zip new (toc_identities new))) ([], [])"
  let ?e = "new ! n" and ?P = "take n new"
  obtain urls titles where maps: "?maps = (urls, titles)" by (cases ?maps)
  have IH: "map_of urls (u, k) = map_option te_index (nth_opt (with_url u ?P) k)"
    "map_of titles (t, j) = title_target ?P t j" for u k t j
    using Suc maps by (metis Suc_leD fst_conv, metis Suc_leD snd_conv)
  have n: "n < length new" using Suc.prems by simp
  have P: "take (Suc n) new = ?P @ [?e]" using n by (simp add: take_Suc_conv_app_nth)
  have row: "take (Suc n) (zip new (toc_identities new))
      = take n (zip new (toc_identities new)) @ [(?e, toc_identities new ! n)]"
    using n by (simp add: take_Suc_conv_app_nth toc_identities_def)
  have step: "fold (index_entry new) (take (Suc n) (zip new (toc_identities new))) ([], [])
      = index_entry new (?e, toc_identities new ! n) (urls, titles)"
    unfolding row by (simp add: maps)
  have ident: "toc_identities new ! n = (case url_of ?e of
      Some u \<Rightarrow> \<lparr>ci_index = te_index ?e, ci_value = u, ci_occurrence = length (with_url u ?P), ci_kind = ByUrl\<rparr>
    | None \<Rightarrow> \<lparr>ci_index = te_index ?e, ci_value = title_value ?e,
        ci_occurrence = length (title_only (title_value ?e) ?P), ci_kind = ByTitle\<rparr>)"
    using identities_nth[OF n, of "[]" "[]"]
    by (cases "url_of ?e") (simp_all add: toc_identities_def Let_def)
  have occ: "title_occurrence_for new (te_index ?e)
      = (case title_of ?e of None \<Rightarrow> None | Some t \<Rightarrow> Some (t, length (with_title t ?P)))"
    using title_occurrence_nth[OF n, of "[]"] named
    by (cases "title_of ?e") (simp_all add: title_occurrence_for_def named_toc_def)
  have le: "length (title_only t ?P) \<le> length (with_title t ?P)" for t
    by (rule title_only_sub[OF named])
  have sure: "url_of ?e \<noteq> None \<or> title_of ?e \<noteq> None" using named n by (auto simp: named_toc_def)
  show ?case
  proof (cases "url_of ?e")
    case (Some u')
    then show ?thesis
      unfolding step P using IH le[of "the (title_of ?e)"]
      by (cases "title_of ?e") (auto simp: index_entry_def ident occ table_simps nth_opt_snoc title_target_def
          nth_opt_def nth_append split: option.splits)
  next
    case None
    then obtain t' where t': "title_of ?e = Some t'" "title_value ?e = t'"
      using sure by (auto simp: title_value_def)
    then show ?thesis
      unfolding step P using None IH le[of t']
      by (auto simp: index_entry_def ident occ table_simps nth_opt_snoc title_target_def nth_opt_def nth_append
          split: option.splits)
  qed
qed

subsection \<open>The diff\<close>

lemma index_toc_maps:
  assumes "named_toc new"
  shows "map_of (fst (index_toc new)) (u, k) = map_option te_index (nth_opt (with_url u new) k)"
    and "map_of (snd (index_toc new)) (t, j) = title_target new t j"
  using index_prefix[OF assms order_refl, of u k t j] by (simp_all add: index_toc_def toc_identities_def)

definition kind_of :: "toc_entry \<Rightarrow> identity_kind" where
  "kind_of e = (if url_of e = None then ByTitle else ByUrl)"

definition identity_of :: "toc_entry \<Rightarrow> ustr" where
  "identity_of e = (case url_of e of Some u \<Rightarrow> u | None \<Rightarrow> title_value e)"

lemma find_successor_at:
  assumes new: "named_toc new" and old: "distinct (map te_index old)" and i: "i < length old"
  shows "find_successor (index_toc new) (toc_identities old ! i) (title_occurrences old ! i) = successor_at old new i"
    and "ci_kind (toc_identities old ! i) = kind_of (old ! i)"
    and "ci_value (toc_identities old ! i) = identity_of (old ! i)"
proof -
  let ?e = "old ! i" and ?P = "take i old"
  have ident: "toc_identities old ! i = (case url_of ?e of
      Some u \<Rightarrow> \<lparr>ci_index = te_index ?e, ci_value = u, ci_occurrence = length (with_url u ?P), ci_kind = ByUrl\<rparr>
    | None \<Rightarrow> \<lparr>ci_index = te_index ?e, ci_value = title_value ?e,
        ci_occurrence = length (title_only (title_value ?e) ?P), ci_kind = ByTitle\<rparr>)"
    using identities_nth[OF i, of "[]" "[]"]
    by (cases "url_of ?e") (simp_all add: toc_identities_def Let_def)
  have occ: "title_occurrences old ! i
      = (case title_of ?e of None \<Rightarrow> None | Some t \<Rightarrow> Some (t, length (with_title t ?P)))"
    using title_occurrence_nth[OF i old, of "[]"] i
    by (cases "title_of ?e") (simp_all add: title_occurrences_def title_occurrence_for_def)
  show "find_successor (index_toc new) (toc_identities old ! i) (title_occurrences old ! i) = successor_at old new i"
    by (cases "url_of ?e"; cases "title_of ?e")
      (auto simp: ident occ find_successor_def successor_at_def successor_of_def index_toc_maps[OF new] split: option.splits)
  show "ci_kind (toc_identities old ! i) = kind_of ?e" "ci_value (toc_identities old ! i) = identity_of ?e"
    by (cases "url_of ?e"; simp add: ident kind_of_def identity_of_def)+
qed

definition survivors :: "toc_entry list \<Rightarrow> toc_entry list \<Rightarrow> u32 set" where
  \<comment> \<open>the chapters of the new table that continue an old one\<close>
  "survivors old_toc new_toc = {j. \<exists>i < length old_toc. successor_at old_toc new_toc i = Some j}"

text \<open>
  C10: When chapter indices differ and every new chapter has a URL or a title, the diff matches each
  old chapter with the new chapter that holds the same occurrence of its URL, else of its title;
  the mappings list every old chapter once in order, \<open>removed\<close> is exactly the old chapters
  without a successor and \<open>inserted\<close> exactly the new chapters that continue none.
\<close>
theorem diff_toc_exact:
  assumes new: "named_toc new" and old: "distinct (map te_index old)"
  shows "td_mappings (diff_toc old new) = map (\<lambda>i. \<lparr>tm_old_index = te_index (old ! i),
       tm_new_index = successor_at old new i, tm_kind = kind_of (old ! i), tm_identity = identity_of (old ! i)\<rparr>) [0..<length old]
    \<and> td_removed (diff_toc old new) = map ((!) old) (filter (\<lambda>i. successor_at old new i = None) [0..<length old])
    \<and> td_inserted (diff_toc old new) = filter (\<lambda>e. te_index e \<notin> survivors old new) new
    \<and> td_old_len (diff_toc old new) = length old \<and> td_new_len (diff_toc old new) = length new"
proof -
  let ?found = "map (\<lambda>((e, ident), t). (e, ident, find_successor (index_toc new) ident t))
      (zip (zip old (toc_identities old)) (title_occurrences old))"
  have len: "length (toc_identities old) = length old" "length (title_occurrences old) = length old"
    by (simp_all add: toc_identities_def title_occurrences_def)
  have found: "?found = map (\<lambda>i. (old ! i, toc_identities old ! i, successor_at old new i)) [0..<length old]"
    using find_successor_at(1)[OF new old] len by (intro nth_equalityI) simp_all
  have removed: "concat (map (\<lambda>i. case successor_at old new i of Some _ \<Rightarrow> [] | None \<Rightarrow> [old ! i]) is)
      = map ((!) old) (filter (\<lambda>i. successor_at old new i = None) is)" for "is"
    by (induction "is") (auto split: option.splits)
  have mapped: "set (concat (map (\<lambda>i. case successor_at old new i of Some j \<Rightarrow> [j] | None \<Rightarrow> []) [0..<length old]))
      = survivors old new"
    by (auto simp: survivors_def split: option.splits)
  have kinds: "ci_kind (toc_identities old ! i) = kind_of (old ! i)" "ci_value (toc_identities old ! i) = identity_of (old ! i)"
    if "i < length old" for i using find_successor_at(2,3)[OF new old that] .
  show ?thesis
    unfolding diff_toc_def Let_def found using mapped removed kinds by (simp add: comp_def)
qed

text \<open>
  Refreshing an unchanged table of contents maps every chapter to itself, reports nothing
  inserted or removed, and leaves every reading position on one of its chapters as it is.
\<close>
theorem refresh_same_toc:
  assumes toc: "named_toc toc"
  shows "(\<forall>i < length toc. successor_at toc toc i = Some (te_index (toc ! i)))
    \<and> td_inserted (diff_toc toc toc) = [] \<and> td_removed (diff_toc toc toc) = []
    \<and> (\<forall>p. rp_chapter_index p \<in> set (map te_index toc) \<longrightarrow>
        remap_reading_progress p (diff_toc toc toc) = \<lparr>rm_progress = p, rm_status = Unchanged\<rparr>)"
proof -
  have split: "toc = take i toc @ toc ! i # drop (Suc i) toc" if "i < length toc" for i
    using that by (rule id_take_nth_drop)
  have self: "successor_at toc toc i = Some (te_index (toc ! i))" if i: "i < length toc" for i
  proof -
    let ?e = "toc ! i" and ?P = "take i toc"
    have url: "nth_opt (with_url u toc) (length (with_url u ?P)) = Some ?e" if "url_of ?e = Some u" for u
      using that by (subst split[OF i]) (simp add: nth_opt_def with_url_def nth_append)
    have title: "nth_opt (title_only (title_value ?e) toc) (length (title_only (title_value ?e) ?P)) = Some ?e"
      if "url_of ?e = None"
      using that by (subst (2) split[OF i]) (simp add: nth_opt_def title_only_def nth_append)
    show ?thesis
      using url title
      by (cases "url_of ?e") (simp_all add: successor_at_def successor_of_def title_target_def)
  qed
  have old: "distinct (map te_index toc)" using toc by (simp add: named_toc_def)
  note exact = diff_toc_exact[OF toc old]
  have "te_index e \<in> survivors toc toc" if "e \<in> set toc" for e
    using self that by (auto simp: survivors_def in_set_conv_nth)
  moreover have "remap_reading_progress p (diff_toc toc toc) = \<lparr>rm_progress = p, rm_status = Unchanged\<rparr>"
    if p: "rp_chapter_index p \<in> set (map te_index toc)" for p
  proof -
    let ?m = "td_mappings (diff_toc toc toc)"
    have "\<exists>m \<in> set ?m. tm_old_index m = rp_chapter_index p"
      using p exact by (force simp: in_set_conv_nth)
    then obtain m where m: "List.find (\<lambda>m. tm_old_index m = rp_chapter_index p) ?m = Some m"
      by (metis (mono_tags, lifting) find_None_iff option.exhaust)
    then have "m \<in> set ?m" "tm_old_index m = rp_chapter_index p" by (auto simp: find_Some_iff)
    then have "tm_new_index m = Some (rp_chapter_index p)" using exact self by auto
    moreover have "td_new_len (diff_toc toc toc) \<noteq> 0" using exact p by auto
    ultimately show ?thesis using m by (simp add: remap_reading_progress_def)
  qed
  ultimately show ?thesis using exact self by (auto simp: filter_empty_conv)
qed

subsection \<open>Where a reading position lands\<close>

lemma first_some_append: "first_some (xs @ ys) = (case first_some xs of Some x \<Rightarrow> Some x | None \<Rightarrow> first_some ys)"
  by (induction xs rule: first_some.induct) simp_all

lemma first_some_upt:
  "first_some (map f (filter P [0..<n])) = Some k
     \<longleftrightarrow> (\<exists>i < n. P i \<and> f i = Some k \<and> (\<forall>j < i. P j \<longrightarrow> f j = None))"
  "first_some (map f (filter P [0..<n])) = None \<longleftrightarrow> (\<forall>j < n. P j \<longrightarrow> f j = None)"
proof -
  have "(first_some (map f (filter P [0..<n])) = None \<longleftrightarrow> (\<forall>j < n. P j \<longrightarrow> f j = None))
      \<and> (\<forall>k. first_some (map f (filter P [0..<n])) = Some k
          \<longleftrightarrow> (\<exists>i < n. P i \<and> f i = Some k \<and> (\<forall>j < i. P j \<longrightarrow> f j = None)))"
  proof (induction n)
    case (Suc n)
    then show ?case
      by (cases "f n"; cases "P n"; cases "first_some (map f (filter P [0..<n]))")
        (auto simp: first_some_append less_Suc_eq)
  qed simp
  then show "first_some (map f (filter P [0..<n])) = Some k
     \<longleftrightarrow> (\<exists>i < n. P i \<and> f i = Some k \<and> (\<forall>j < i. P j \<longrightarrow> f j = None))"
    and "first_some (map f (filter P [0..<n])) = None \<longleftrightarrow> (\<forall>j < n. P j \<longrightarrow> f j = None)" by blast+
qed

lemma first_some_rev_upt:
  "first_some (map f (filter P (rev [0..<n]))) = Some k
     \<longleftrightarrow> (\<exists>i < n. P i \<and> f i = Some k \<and> (\<forall>j < n. i < j \<and> P j \<longrightarrow> f j = None))"
  "first_some (map f (filter P (rev [0..<n]))) = None \<longleftrightarrow> (\<forall>j < n. P j \<longrightarrow> f j = None)"
proof -
  have "(first_some (map f (filter P (rev [0..<n]))) = None \<longleftrightarrow> (\<forall>j < n. P j \<longrightarrow> f j = None))
      \<and> (\<forall>k. first_some (map f (filter P (rev [0..<n]))) = Some k
          \<longleftrightarrow> (\<exists>i < n. P i \<and> f i = Some k \<and> (\<forall>j < n. i < j \<and> P j \<longrightarrow> f j = None)))"
  proof (induction n)
    case (Suc n)
    then show ?case by (cases "f n"; cases "P n") (auto simp: less_Suc_eq)
  qed simp
  then show "first_some (map f (filter P (rev [0..<n]))) = Some k
     \<longleftrightarrow> (\<exists>i < n. P i \<and> f i = Some k \<and> (\<forall>j < n. i < j \<and> P j \<longrightarrow> f j = None))"
    and "first_some (map f (filter P (rev [0..<n]))) = None \<longleftrightarrow> (\<forall>j < n. P j \<longrightarrow> f j = None)" by blast+
qed

lemma successor_in_new: "successor_of new before e = Some j \<Longrightarrow> j \<in> set (map te_index new)"
proof -
  have sub: "nth_opt (with_url u new) k = Some x \<Longrightarrow> x \<in> set new"
    "nth_opt (with_title t new) k = Some x \<Longrightarrow> x \<in> set new"
    "nth_opt (title_only t new) k = Some x \<Longrightarrow> x \<in> set new" for u t k x
    by (auto simp: nth_opt_def with_url_def with_title_def title_only_def split: if_splits dest!: nth_mem)
  have "title_target new t k = Some i \<Longrightarrow> i \<in> te_index ` set new" for t k i
    by (auto simp: title_target_def split: option.splits dest: sub)
  then show "successor_of new before e = Some j \<Longrightarrow> j \<in> set (map te_index new)"
    by (auto simp: successor_of_def split: option.splits dest: sub)
qed

definition lands_near :: "toc_entry list \<Rightarrow> toc_entry list \<Rightarrow> u32 \<Rightarrow> u32 \<Rightarrow> bool" where
  \<comment> \<open>the successor of the first surviving chapter listed with a larger index, else of the last one
    with a smaller index, else 0\<close>
  "lands_near old_toc new_toc c k =
     (let after = \<lambda>i. i < length old_toc \<and> c < te_index (old_toc ! i) \<and> successor_at old_toc new_toc i \<noteq> None;
          before = \<lambda>i. i < length old_toc \<and> te_index (old_toc ! i) < c \<and> successor_at old_toc new_toc i \<noteq> None
      in (\<exists>i. after i \<and> (\<forall>j < i. \<not> after j) \<and> successor_at old_toc new_toc i = Some k)
         \<or> (\<forall>i. \<not> after i) \<and> (\<exists>i. before i \<and> (\<forall>j > i. \<not> before j) \<and> successor_at old_toc new_toc i = Some k)
         \<or> (\<forall>i. \<not> after i \<and> \<not> before i) \<and> k = 0)"

lemma nearest_lands:
  assumes "named_toc new" and "distinct (map te_index old)"
  shows "lands_near old new c (nearest_surviving_index c (td_mappings (diff_toc old new)))"
proof -
  let ?s = "successor_at old new" and ?A = "\<lambda>i. c < te_index (old ! i)" and ?B = "\<lambda>i. te_index (old ! i) < c"
  have after: "map tm_new_index (filter (\<lambda>m. c < tm_old_index m) (td_mappings (diff_toc old new)))
      = map ?s (filter ?A [0..<length old])"
    using diff_toc_exact[OF assms] by (simp add: filter_map comp_def)
  have before: "map tm_new_index (filter (\<lambda>m. tm_old_index m < c) (rev (td_mappings (diff_toc old new))))
      = map ?s (filter ?B (rev [0..<length old]))"
    using diff_toc_exact[OF assms] by (simp add: filter_map comp_def rev_map)
  show ?thesis
  proof (cases "first_some (map ?s (filter ?A [0..<length old]))")
    case (Some k)
    then have "nearest_surviving_index c (td_mappings (diff_toc old new)) = k"
      by (simp add: nearest_surviving_index_def after)
    with Some[unfolded first_some_upt] show ?thesis
      unfolding lands_near_def Let_def by (intro disjI1) auto
  next
    case None
    note no_after = None[unfolded first_some_upt]
    show ?thesis
    proof (cases "first_some (map ?s (filter ?B (rev [0..<length old])))")
      case (Some k)
      then have "nearest_surviving_index c (td_mappings (diff_toc old new)) = k"
        using None by (simp add: nearest_surviving_index_def after before)
      with Some[unfolded first_some_rev_upt] no_after show ?thesis
        unfolding lands_near_def Let_def by - (rule disjI2, rule disjI1, auto)
    next
      case None
      then have "nearest_surviving_index c (td_mappings (diff_toc old new)) = 0"
        using \<open>first_some (map ?s (filter ?A [0..<length old])) = None\<close>
        by (simp add: nearest_surviving_index_def after before)
      with None[unfolded first_some_rev_upt] no_after show ?thesis
        unfolding lands_near_def Let_def by (intro disjI2) auto
    qed
  qed
qed

text \<open>
  C11: After a refresh a reading position follows its chapter: with a successor it keeps its offset
  and fraction and moves to that chapter; without one it moves to the start of the nearest surviving
  chapter. It ends on a chapter of the new table whenever some old chapter survives, keeps its
  book, and an empty new table resets it.
\<close>
theorem remap_lands:
  fixes p :: reading_progress
  assumes new: "named_toc new" and old: "distinct (map te_index old)"
  defines "r \<equiv> remap_reading_progress p (diff_toc old new)" and "c \<equiv> rp_chapter_index p"
  shows "(new = [] \<longrightarrow> r = \<lparr>rm_progress = start_of_chapter p 0, rm_status = EmptyToc\<rparr>)
    \<and> (\<forall>i j. new \<noteq> [] \<and> i < length old \<and> te_index (old ! i) = c \<and> successor_at old new i = Some j \<longrightarrow>
         r = \<lparr>rm_progress = p\<lparr>rp_chapter_index := j\<rparr>, rm_status = (if j = c then Unchanged else Remapped)\<rparr>)
    \<and> (new \<noteq> [] \<and> (\<forall>i < length old. te_index (old ! i) = c \<longrightarrow> successor_at old new i = None) \<longrightarrow>
         (\<exists>k. lands_near old new c k \<and> r = \<lparr>rm_progress = start_of_chapter p k, rm_status = ChapterRemovedClamped\<rparr>))
    \<and> (survivors old new \<noteq> {} \<longrightarrow> rp_chapter_index (rm_progress r) \<in> set (map te_index new))"
proof -
  let ?m = "td_mappings (diff_toc old new)"
  note exact = diff_toc_exact[OF new old]
  have empty: "r = \<lparr>rm_progress = start_of_chapter p 0, rm_status = EmptyToc\<rparr>" if "new = []"
    using exact that by (simp add: r_def remap_reading_progress_def)
  have found: "List.find (\<lambda>m. tm_old_index m = c) ?m = Some m \<Longrightarrow>
      \<exists>i < length old. te_index (old ! i) = c \<and> tm_new_index m = successor_at old new i" for m
    using exact by (auto simp: find_Some_iff)
  have only: "i = i'" if "i < length old" "i' < length old" "te_index (old ! i) = te_index (old ! i')" for i i'
    using nth_eq_iff_index_eq[OF old, of i i'] that by simp
  have kept: "r = \<lparr>rm_progress = p\<lparr>rp_chapter_index := j\<rparr>, rm_status = (if j = c then Unchanged else Remapped)\<rparr>"
    if i: "new \<noteq> []" "i < length old" "te_index (old ! i) = c" "successor_at old new i = Some j" for i j
  proof -
    have "\<exists>m \<in> set ?m. tm_old_index m = c" using exact i(2,3) by force
    then obtain m where m: "List.find (\<lambda>m. tm_old_index m = c) ?m = Some m"
      by (metis (mono_tags, lifting) find_None_iff option.exhaust)
    with found only i have "tm_new_index m = Some j" by metis
    with m i(1) exact show ?thesis by (simp add: r_def c_def remap_reading_progress_def)
  qed
  have moved: "\<exists>k. lands_near old new c k \<and> r = \<lparr>rm_progress = start_of_chapter p k, rm_status = ChapterRemovedClamped\<rparr>"
    if i: "new \<noteq> []" "\<forall>i < length old. te_index (old ! i) = c \<longrightarrow> successor_at old new i = None"
  proof -
    have "r = \<lparr>rm_progress = start_of_chapter p (nearest_surviving_index c ?m), rm_status = ChapterRemovedClamped\<rparr>"
      using i exact found[folded c_def]
      by (auto simp: r_def c_def remap_reading_progress_def split: option.splits)
    then show ?thesis using nearest_lands[OF new old] by blast
  qed
  have lands: "rp_chapter_index (rm_progress r) \<in> set (map te_index new)" if s: "survivors old new \<noteq> {}"
  proof -
    have ne: "new \<noteq> []" using s successor_in_new[of new] by (auto simp: survivors_def successor_at_def)
    show ?thesis
    proof (cases "\<forall>i < length old. te_index (old ! i) = c \<longrightarrow> successor_at old new i = None")
      case True
      then obtain k where k: "lands_near old new c k" "rp_chapter_index (rm_progress r) = k"
        using moved[OF ne] by (auto simp: start_of_chapter_def)
      obtain i j where i: "i < length old" "successor_at old new i = Some j"
        using s by (auto simp: survivors_def)
      then have "c < te_index (old ! i) \<or> te_index (old ! i) < c" using True by force
      with i have "\<exists>i < length old. successor_at old new i = Some k"
        using k(1) unfolding lands_near_def Let_def by (metis option.distinct(1))
      then show ?thesis using k(2) successor_in_new by (auto simp: successor_at_def)
    next
      case False
      then obtain i j where i: "i < length old" "te_index (old ! i) = c" "successor_at old new i = Some j" by auto
      then show ?thesis
        using kept[OF ne i] successor_in_new by (simp add: successor_at_def)
    qed
  qed
  show ?thesis using empty kept moved lands by blast
qed

subsection \<open>Samples\<close>

definition listed :: "u32 \<Rightarrow> string \<Rightarrow> string \<Rightarrow> toc_entry" where
  "listed i u t = \<lparr>te_index = i, te_title = lit t, te_url = lit u\<rparr>"

lemma listed_identity:
  "te_index (listed i u t) = i" "url_of (listed i [] t) = None"
  "url_of (listed i ''/u'' t) = Some (lit ''/u'')" "url_of (listed i ''/v'' t) = Some (lit ''/v'')"
  "title_of (listed i u ''A'') = Some (lit ''a'')" "title_of (listed i u ''B'') = Some (lit ''b'')"
  by (simp_all add: listed_def url_of_def title_of_def normalize_identity_def trim_def trim_start_def trim_end_def
      is_whitespace_def to_ascii_lowercase_def)

definition two_chapters :: "toc_entry list" where
  "two_chapters = [listed 0 [] ''A'', listed 1 [] ''B'']"

definition one_chapter :: "toc_entry list" where
  "one_chapter = [listed 0 [] ''B'']"

lemma named_samples: "named_toc two_chapters" "named_toc one_chapter" "distinct (map te_index two_chapters)"
  by (simp_all add: named_toc_def listed_identity two_chapters_def one_chapter_def)

lemma successor_samples:
  "successor_at two_chapters one_chapter 0 = None" "successor_at two_chapters one_chapter 1 = Some 0"
  by (simp_all add: successor_at_def successor_of_def title_target_def title_value_def nth_opt_def listed_identity
      two_chapters_def one_chapter_def)

theorem diff_toc_exact_witness:
  "td_removed (diff_toc two_chapters one_chapter) = [listed 0 [] ''A'']"
  using diff_toc_exact[OF named_samples(2,3)] successor_samples
  by (simp add: upt_rec two_chapters_def)

definition reading_at :: "u32 \<Rightarrow> reading_progress" where
  "reading_at i = \<lparr>rp_book_id = lit ''b'', rp_chapter_index = i, rp_chapter_offset = 40, rp_chapter_progress = F64 0\<rparr>"

theorem refresh_same_toc_witness:
  "remap_reading_progress (reading_at 1) (diff_toc two_chapters two_chapters)
     = \<lparr>rm_progress = reading_at 1, rm_status = Unchanged\<rparr>"
proof -
  have "rp_chapter_index (reading_at 1) \<in> set (map te_index two_chapters)"
    by (simp add: reading_at_def listed_identity two_chapters_def)
  with refresh_same_toc[OF named_samples(1)] show ?thesis by blast
qed

theorem remap_lands_witness:
  "rp_chapter_index (rm_progress (remap_reading_progress (reading_at 0) (diff_toc two_chapters one_chapter))) = 0"
proof -
  have "0 \<in> survivors two_chapters one_chapter"
    using successor_samples(2) unfolding survivors_def by (intro CollectI exI[of _ 1]) (simp add: two_chapters_def)
  then have "survivors two_chapters one_chapter \<noteq> {}" by blast
  with remap_lands[OF named_samples(2,3), of "reading_at 0"]
  have "rp_chapter_index (rm_progress (remap_reading_progress (reading_at 0) (diff_toc two_chapters one_chapter)))
      \<in> set (map te_index one_chapter)"
    by blast
  then show ?thesis by (simp add: listed_identity one_chapter_def)
qed

lemma refresh_collapses:
  \<comment> \<open>a chapter that left the table is reported as surviving when another one took its title\<close>
  "map tm_new_index (td_mappings (diff_toc [listed 0 ''/u'' ''A'', listed 1 ''/v'' ''B''] [listed 0 ''/u'' ''B'']))
     = [Some 0, Some 0]"
proof -
  let ?old = "[listed 0 ''/u'' ''A'', listed 1 ''/v'' ''B'']" and ?new = "[listed 0 ''/u'' ''B'']"
  have named: "named_toc ?new" "distinct (map te_index ?old)" by (simp_all add: named_toc_def listed_identity)
  have "successor_at ?old ?new 0 = Some 0" "successor_at ?old ?new 1 = Some 0"
    by (simp_all add: successor_at_def successor_of_def title_target_def title_value_def nth_opt_def listed_identity)
  then show ?thesis
    using diff_toc_exact[OF named] by (simp add: upt_rec comp_def)
qed

end
