(* ===== verification/ContentRules.thy ===== *)
theory ContentRules
  imports TextOps Domain
begin

text \<open>
  The replace-rule pipeline of a chapter (\<open>crates/reader-content/src/content_processor.rs\<close> and
  \<open>chinese.rs\<close>): conversion between scripts, line trimming, then the stored replace rules in
  order. The conversion dictionaries (crate \<open>zhhz\<close>), regular expressions (crate \<open>regex\<close>) and
  Unicode lower case are the fields of \<open>content_env\<close>: they are not code of this program.
\<close>

subsection \<open>The pipeline\<close>

datatype chinese_converter = ConvertNone | ConvertT2S | ConvertS2T

record content_env =
  lower_case :: "ustr \<Rightarrow> ustr"
  to_simplified :: "ustr \<Rightarrow> ustr"
  to_traditional :: "ustr \<Rightarrow> ustr"
  regex_replace_all :: "ustr \<Rightarrow> (ustr \<Rightarrow> ustr \<Rightarrow> ustr) option"
    \<comment> \<open>\<open>Regex::new(pattern)\<close>, then \<open>replace_all(input, replacement)\<close>\<close>

definition converter_from_config :: "8 word \<Rightarrow> chinese_converter" where
  \<comment> \<open>\<open>from_legado_config\<close>\<close>
  "converter_from_config v = (if v = 1 then ConvertT2S else if v = 2 then ConvertS2T else ConvertNone)"

fun convert_chinese :: "content_env \<Rightarrow> ustr \<Rightarrow> chinese_converter \<Rightarrow> ustr" where
  "convert_chinese env s ConvertNone = s"
| "convert_chinese env s ConvertT2S = to_simplified env s"
| "convert_chinese env s ConvertS2T = to_traditional env s"

record content_processor =
  pr_rules :: "replace_rule list"
  pr_converter :: chinese_converter

definition new_processor :: "replace_rule list \<Rightarrow> content_processor" where
  "new_processor rules = \<lparr>pr_rules = rules, pr_converter = ConvertNone\<rparr>"

definition trim_lines :: "ustr \<Rightarrow> ustr" where
  "trim_lines s = join [10] (map trim (str_lines s))"

definition apply_single_rule :: "content_env \<Rightarrow> replace_rule \<Rightarrow> ustr \<Rightarrow> ustr" where
  "apply_single_rule env rule input =
     (if rr_is_regex rule
      then (case regex_replace_all env (rr_pattern rule) of
          Some replace \<Rightarrow> replace input (rr_replacement rule)
        | None \<Rightarrow> input)
      else str_replace (rr_pattern rule) (rr_replacement rule) input)"

definition rule_context :: "ustr \<Rightarrow> ustr \<Rightarrow> replace_rule_context" where
  "rule_context book_name book_origin =
     \<lparr>rrc_book_title = book_name, rrc_source_name = [], rrc_source_url = book_origin\<rparr>"

definition rule_applies :: "content_env \<Rightarrow> replace_rule_context \<Rightarrow> replace_rule_target \<Rightarrow> replace_rule \<Rightarrow> bool" where
  \<comment> \<open>none of the \<open>continue\<close> branches is taken\<close>
  "rule_applies env ctx target rule = (rr_is_enabled rule \<and> rr_pattern rule \<noteq> []
     \<and> replace_rule_matches_target rule target \<and> replace_rule_matches_scope (lower_case env) rule ctx)"

definition apply_rules ::
  "content_env \<Rightarrow> replace_rule list \<Rightarrow> ustr \<Rightarrow> ustr \<Rightarrow> ustr \<Rightarrow> replace_rule_target \<Rightarrow> ustr" where
  "apply_rules env rules input book_name book_origin target =
     fold (\<lambda>rule result. if rule_applies env (rule_context book_name book_origin) target rule
         then apply_single_rule env rule result else result)
       (sort_by (by_key rr_order) rules) input"

definition process_content :: "content_env \<Rightarrow> content_processor \<Rightarrow> ustr \<Rightarrow> ustr \<Rightarrow> ustr \<Rightarrow> ustr" where
  "process_content env p content book_name book_origin =
     apply_rules env (pr_rules p) (trim_lines (convert_chinese env content (pr_converter p)))
       book_name book_origin TargetContent"

definition process_title :: "content_env \<Rightarrow> content_processor \<Rightarrow> ustr \<Rightarrow> ustr \<Rightarrow> ustr \<Rightarrow> ustr" where
  "process_title env p title book_name book_origin =
     apply_rules env (pr_rules p) (convert_chinese env title (pr_converter p)) book_name book_origin TargetTitle"

subsection \<open>Which rules matter\<close>

interpretation rule_order: comparator "by_key rr_order"
  by (rule comparator_by_key)

lemma fold_guarded: "fold (\<lambda>x r. if P x then f x r else r) xs a = fold f (filter P xs) a"
  by (induction xs arbitrary: a) simp_all

lemma apply_rules_filter:
  "apply_rules env rules input name origin target = fold (apply_single_rule env)
     (sort_by (by_key rr_order) (filter (rule_applies env (rule_context name origin) target) rules)) input"
  by (simp add: apply_rules_def fold_guarded rule_order.filter_sort)

text \<open>
  Only the rules that apply matter, in the order of their \<open>order\<close> field, and storage order
  decides between equal ones: two stores whose applicable rules agree in every class of equal
  \<open>order\<close> rewrite every text alike.
\<close>
lemma rules_by_order:
  assumes "\<And>k. filter (\<lambda>r. rule_applies env (rule_context name origin) target r \<and> k = rr_order r) rules
      = filter (\<lambda>r. rule_applies env (rule_context name origin) target r \<and> k = rr_order r) rules'"
  shows "apply_rules env rules input name origin target = apply_rules env rules' input name origin target"
proof -
  let ?A = "rule_applies env (rule_context name origin) target"
  have "sort_by (by_key rr_order) (filter ?A rules) = sort_by (by_key rr_order) (filter ?A rules')"
    by (rule rule_order.sort_stable_unique) (use assms in simp)
  then show ?thesis by (simp add: apply_rules_filter)
qed

end
