(* ===== verification/RuleTypes.thy ===== *)
theory RuleTypes
  imports TextOps
begin

text \<open>
  The public types of \<open>crates/reader-rule/src/lib.rs\<close>: the steps of a rule chain with their
  constructors, and the errors of a rule. \<open>RulePanic\<close> stands for a panic of the code.
  A compiled regular expression (crate \<open>regex\<close>) is the record of what the code asks of it.
\<close>

subsection \<open>Errors\<close>

datatype rule_error = RegexSyntax ustr ustr
  | RegexCaptureGroupMissing ustr ustr
  | RegexReplacementCaptureMissing ustr ustr
  | JsonParse ustr
  | JsonPathSyntax ustr ustr
  | CssSelectorSyntax ustr ustr
  | LegadoCssSyntax ustr ustr
  | XPathInputParse ustr
  | XPathSyntax ustr ustr
  | XPathEvaluation ustr ustr
  | ChainStepFailed nat rule_error
  | RulePanic

type_synonym 'a ruled = "rule_error + 'a"

fun rule_error_text :: "rule_error \<Rightarrow> ustr" where
  \<comment> \<open>the \<open>Display\<close> of an error; a panic has none\<close>
  "rule_error_text (RegexSyntax pattern message) = lit ''invalid regex `'' @ pattern @ lit ''`: '' @ message"
| "rule_error_text (RegexCaptureGroupMissing pattern grp) =
     lit ''regex `'' @ pattern @ lit ''` does not define capture group `'' @ grp @ lit ''`''"
| "rule_error_text (RegexReplacementCaptureMissing pattern grp) =
     lit ''regex replacement references missing capture group `'' @ grp @ lit ''` in `'' @ pattern @ lit ''`''"
| "rule_error_text (JsonParse message) = lit ''invalid JSON input: '' @ message"
| "rule_error_text (JsonPathSyntax path message) = lit ''invalid JSONPath `'' @ path @ lit ''`: '' @ message"
| "rule_error_text (CssSelectorSyntax selector message) = lit ''invalid CSS selector `'' @ selector @ lit ''`: '' @ message"
| "rule_error_text (LegadoCssSyntax rule message) = lit ''invalid Legado CSS rule `'' @ rule @ lit ''`: '' @ message"
| "rule_error_text (XPathInputParse message) = lit ''invalid XML input for XPath: '' @ message"
| "rule_error_text (XPathSyntax expression message) = lit ''invalid XPath `'' @ expression @ lit ''`: '' @ message"
| "rule_error_text (XPathEvaluation expression message) = lit ''XPath `'' @ expression @ lit ''` failed: '' @ message"
| "rule_error_text (ChainStepFailed index source) =
     lit ''rule chain step '' @ decimal index @ lit '' failed: '' @ rule_error_text source"
| "rule_error_text RulePanic = []"

fun rule_error_source :: "rule_error \<Rightarrow> rule_error option" where
  "rule_error_source (ChainStepFailed index source) = Some source"
| "rule_error_source e = None"

subsection \<open>Steps\<close>

datatype capture_group = WholeMatch | AllGroups | GroupIndex nat | GroupName ustr

record regex_extract_rule =
  rxe_pattern :: ustr
  rxe_group :: capture_group
  rxe_all :: bool

record regex_replace_rule =
  rxr_pattern :: ustr
  rxr_replacement :: ustr
  rxr_all :: bool

datatype css_extraction = CssText | CssAttr ustr

record css_rule =
  css_selector :: ustr
  css_extraction :: css_extraction

record xpath_rule =
  xp_expression :: ustr
  xp_namespaces :: "(ustr \<times> ustr) list"

datatype rule_step = StepRegexExtract regex_extract_rule
  | StepRegexReplace regex_replace_rule
  | StepJsonPath ustr
  | StepCss css_rule
  | StepXPath xpath_rule
  | StepFallback "ustr list"

definition regex_capture :: "ustr \<Rightarrow> capture_group \<Rightarrow> rule_step" where
  "regex_capture pattern grp = StepRegexExtract \<lparr>rxe_pattern = pattern, rxe_group = grp, rxe_all = True\<rparr>"

definition regex_capture_first :: "ustr \<Rightarrow> capture_group \<Rightarrow> rule_step" where
  "regex_capture_first pattern grp = StepRegexExtract \<lparr>rxe_pattern = pattern, rxe_group = grp, rxe_all = False\<rparr>"

definition regex_captures :: "ustr \<Rightarrow> rule_step" where
  "regex_captures pattern = StepRegexExtract \<lparr>rxe_pattern = pattern, rxe_group = AllGroups, rxe_all = True\<rparr>"

definition regex_replace :: "ustr \<Rightarrow> ustr \<Rightarrow> rule_step" where
  "regex_replace pattern replacement =
     StepRegexReplace \<lparr>rxr_pattern = pattern, rxr_replacement = replacement, rxr_all = True\<rparr>"

definition regex_replace_first :: "ustr \<Rightarrow> ustr \<Rightarrow> rule_step" where
  "regex_replace_first pattern replacement =
     StepRegexReplace \<lparr>rxr_pattern = pattern, rxr_replacement = replacement, rxr_all = False\<rparr>"

definition css_text :: "ustr \<Rightarrow> rule_step" where
  "css_text selector = StepCss \<lparr>css_selector = selector, css_extraction = CssText\<rparr>"

definition css_attr :: "ustr \<Rightarrow> ustr \<Rightarrow> rule_step" where
  "css_attr selector attr = StepCss \<lparr>css_selector = selector, css_extraction = CssAttr attr\<rparr>"

definition xpath_plain :: "ustr \<Rightarrow> xpath_rule" where
  \<comment> \<open>\<open>XPathRule::new\<close>\<close>
  "xpath_plain expression = \<lparr>xp_expression = expression, xp_namespaces = []\<rparr>"

datatype legado_css_extraction = ExtractText | ExtractHtml | ExtractAttr ustr

datatype legado_css_step = SelectStep ustr
  | ExtractStep "ustr option" legado_css_extraction

subsection \<open>Suffixes\<close>

definition strip_suffix :: "ustr \<Rightarrow> ustr \<Rightarrow> ustr option" where
  "strip_suffix p s = (if ends_with s p then Some (take (length s - length p) s) else None)"

subsection \<open>Integers\<close>

definition isize_max :: int where
  "isize_max = 2 ^ 63 - 1"

definition usize_max :: nat where
  "usize_max = 2 ^ 64 - 1"

definition is_ascii_digit :: "nat \<Rightarrow> bool" where
  "is_ascii_digit c = (48 \<le> c \<and> c \<le> 57)"

definition digits_value :: "ustr \<Rightarrow> nat" where
  "digits_value ds = foldl (\<lambda>n d. n * 10 + (d - 48)) 0 ds"

definition parse_isize :: "ustr \<Rightarrow> int option" where
  \<comment> \<open>\<open>str::parse::<isize>\<close>: an optional sign and decimal digits, in range\<close>
  "parse_isize s =
     (let ds = (if starts_with s [45] \<or> starts_with s [43] then tl s else s);
          v = (if starts_with s [45] then - int (digits_value ds) else int (digits_value ds))
      in if ds = [] \<or> list_ex (\<lambda>d. d < 48 \<or> 57 < d) ds \<or> v < - isize_max - 1 \<or> isize_max < v then None else Some v)"

definition parse_usize :: "ustr \<Rightarrow> nat option" where
  \<comment> \<open>\<open>str::parse::<usize>\<close>: an optional plus sign and decimal digits, in range\<close>
  "parse_usize s =
     (let ds = (if starts_with s [43] then tl s else s)
      in if ds = [] \<or> list_ex (\<lambda>d. d < 48 \<or> 57 < d) ds \<or> usize_max < digits_value ds then None else Some (digits_value ds))"

lemma digits_value_snoc: "digits_value (ds @ [d]) = digits_value ds * 10 + (d - 48)"
  by (simp add: digits_value_def)

lemma digits_value_decimal: "digits_value (decimal n) = n"
  unfolding decimal_def
proof (induction n rule: decimal_digits.induct)
  case (1 n)
  then show ?case
    by (simp add: decimal_digits.simps[of n] digits_value_snoc) (simp add: digits_value_def)
qed

lemma decimal_no_sign: "\<not> starts_with (decimal n) [45]" "\<not> starts_with (decimal n) [43]"
  using digits_decimal[of "hd (decimal n)" n] decimal_nonempty[of n] by (cases "decimal n"; fastforce)+

lemma decimal_digit_chars: "\<not> list_ex (\<lambda>d. d < 48 \<or> 57 < d) (decimal n)"
  using digits_decimal by (fastforce simp: list_ex_iff)

subsection \<open>Compiled regular expressions\<close>

record compiled_regex =
  rx_names :: "ustr option list" \<comment> \<open>\<open>capture_names\<close>: one entry per group, the whole match first\<close>
  rx_captures :: "ustr \<Rightarrow> ustr option list list" \<comment> \<open>\<open>captures_iter\<close>: the texts of the groups, match by match\<close>
  rx_replace_all :: "ustr \<Rightarrow> ustr \<Rightarrow> ustr" \<comment> \<open>of an input, with a replacement template\<close>
  rx_replace_first :: "ustr \<Rightarrow> ustr \<Rightarrow> ustr" \<comment> \<open>\<open>replacen(input, 1, template)\<close>\<close>
  rx_expand :: "ustr \<Rightarrow> ustr \<Rightarrow> ustr option" \<comment> \<open>\<open>captures(input)\<close>, then \<open>expand(template)\<close>\<close>
  rx_is_match :: "ustr \<Rightarrow> bool"
  rx_find :: "ustr \<Rightarrow> (ustr \<times> ustr) list" \<comment> \<open>\<open>find_iter\<close>: the text before each match, and the match\<close>

definition captures_len :: "compiled_regex \<Rightarrow> nat" where
  "captures_len rx = length (rx_names rx)"

definition captured :: "ustr option list \<Rightarrow> nat \<Rightarrow> ustr option" where
  \<comment> \<open>\<open>captures.get(i)\<close>\<close>
  "captured caps i = (if i < length caps then caps ! i else None)"

fun group_position :: "ustr \<Rightarrow> ustr option list \<Rightarrow> nat option" where
  "group_position name [] = None"
| "group_position name (n # ns) = (if n = Some name then Some 0 else map_option Suc (group_position name ns))"

definition captured_name :: "compiled_regex \<Rightarrow> ustr option list \<Rightarrow> ustr \<Rightarrow> ustr option" where
  \<comment> \<open>\<open>captures.name(name)\<close>\<close>
  "captured_name rx caps name = Option.bind (group_position name (rx_names rx)) (captured caps)"

end
