(* ===== verification/JsonPath.thy ===== *)
theory JsonPath
  imports RuleTypes Domain
begin

text \<open>
  JSONPath rules (\<open>crates/reader-rule/src/lib.rs\<close>): the parsed form of a path and its evaluation
  on a JSON value. Objects list their members in key order, as \<open>serde_json\<close>'s map does. What
  the code takes from other crates and from the floating point unit is collected in
  \<open>json_env\<close>: number conversion and printing (\<open>serde_json\<close>), regular expressions (\<open>regex\<close>),
  IEEE arithmetic. Both floating point zeros are the value \<open>F64 0\<close>.
\<close>

subsection \<open>The environment\<close>

record regex_flags =
  rf_case_insensitive :: bool
  rf_multi_line :: bool
  rf_dot_matches_new_line :: bool
  rf_ignore_whitespace :: bool
  rf_swap_greed :: bool

record json_env =
  parse_json :: "ustr \<Rightarrow> ustr + json" \<comment> \<open>\<open>serde_json::from_str\<close>, with the text of its error\<close>
  json_text :: "json \<Rightarrow> ustr" \<comment> \<open>\<open>serde_json::to_string\<close>\<close>
  number_text :: "json_number \<Rightarrow> ustr"
  number_f64 :: "json_number \<Rightarrow> f64" \<comment> \<open>\<open>Number::as_f64\<close>\<close>
  f64_number :: "f64 \<Rightarrow> json_number option" \<comment> \<open>\<open>Number::from_f64\<close>\<close>
  parse_f64 :: "ustr \<Rightarrow> f64 option"
  regex_build :: "ustr \<Rightarrow> regex_flags \<Rightarrow> ustr + (ustr \<Rightarrow> bool)"
  f64_add :: "f64 \<Rightarrow> f64 \<Rightarrow> f64"
  f64_sub :: "f64 \<Rightarrow> f64 \<Rightarrow> f64"
  f64_mul :: "f64 \<Rightarrow> f64 \<Rightarrow> f64"
  f64_div :: "f64 \<Rightarrow> f64 \<Rightarrow> f64"
  f64_sqrt :: "f64 \<Rightarrow> f64"
  f64_of_nat :: "nat \<Rightarrow> f64" \<comment> \<open>\<open>n as f64\<close>\<close>

subsection \<open>Paths\<close>

record path_slice =
  sl_start :: "int option"
  sl_end :: "int option"
  sl_step :: "int option"

record filter_regex =
  re_pattern :: ustr
  re_flags :: ustr

datatype filter_literal = LitString ustr | LitNumber ustr | LitBool bool | LitNull
  | LitRegex filter_regex | LitArray "filter_literal list"

datatype filter_ref = RefCurrent | RefPath "ustr list"

datatype filter_operand = OperandLiteral filter_literal | OperandPath filter_ref

datatype filter_op = OpEqual | OpNotEqual | OpRegexMatch | OpIn | OpNotIn | OpAnyOf | OpNoneOf | OpSubsetOf
  | OpSize | OpEmpty | OpGreater | OpGreaterEqual | OpLess | OpLessEqual

datatype path_filter = FilterExists "ustr list" | FilterEmpty "ustr list"
  | FilterCompare filter_ref filter_op filter_operand
  | FilterAll "path_filter list" | FilterAny "path_filter list" | FilterNot path_filter

datatype segment = FieldSeg ustr | IndexSeg nat | FromEndSeg nat | WildcardSeg | DescentSeg segment
  | UnionSeg "segment list" | SliceSeg path_slice | FilterSeg path_filter | FunctionSeg path_function
and path_function = FnLength "segment list option" | FnFirst | FnLast | FnIndex fn_argument
  | FnSum "fn_argument list" | FnMin "fn_argument list" | FnMax "fn_argument list" | FnAvg "fn_argument list"
  | FnStdDev "fn_argument list" | FnKeys | FnValues | FnConcat "fn_argument list" | FnAppend "fn_argument list"
and fn_argument = ArgValue json | ArgPath "segment list"

fun is_function :: "segment \<Rightarrow> bool" where
  "is_function (FunctionSeg fn) = True"
| "is_function s = False"

definition contains_function :: "segment list \<Rightarrow> bool" where
  \<comment> \<open>\<open>json_path_segments_contain_function\<close>\<close>
  "contains_function segs = list_ex is_function segs"

subsection \<open>Filters\<close>

fun json_f64 :: "json_env \<Rightarrow> json \<Rightarrow> f64 option" where
  \<comment> \<open>\<open>Value::as_f64\<close>\<close>
  "json_f64 env (JNum n) = Some (number_f64 env n)"
| "json_f64 env v = None"

fun resolve_filter_path :: "json \<Rightarrow> ustr list \<Rightarrow> json option" where
  "resolve_filter_path v [] = Some v"
| "resolve_filter_path (JObj members) (f # fs) =
     (case map_of members f of None \<Rightarrow> None | Some v \<Rightarrow> resolve_filter_path v fs)"
| "resolve_filter_path v (f # fs) = None"

fun resolve_filter_ref :: "json \<Rightarrow> filter_ref \<Rightarrow> json option" where
  "resolve_filter_ref v RefCurrent = Some v"
| "resolve_filter_ref v (RefPath p) = resolve_filter_path v p"

definition number_eq :: "f64 \<Rightarrow> f64 \<Rightarrow> bool" where
  \<comment> \<open>\<open>==\<close> on \<open>f64\<close>\<close>
  "number_eq a b = (a = b \<and> a \<noteq> F64_nan)"

fun equals_literal :: "json_env \<Rightarrow> json \<Rightarrow> filter_literal \<Rightarrow> bool option" where
  \<comment> \<open>\<open>filter_value_equals_literal\<close>\<close>
  "equals_literal env (JStr a) (LitString b) = Some (a = b)"
| "equals_literal env (JNum a) (LitNumber b) =
     (case parse_f64 env b of None \<Rightarrow> None | Some e \<Rightarrow> Some (number_eq (number_f64 env a) e))"
| "equals_literal env (JBool a) (LitBool b) = Some (a = b)"
| "equals_literal env JNull LitNull = Some True"
| "equals_literal env v l = None"

fun json_values_equal :: "json_env \<Rightarrow> json \<Rightarrow> json \<Rightarrow> bool option" where
  \<comment> \<open>\<open>filter_json_values_equal\<close>\<close>
  "json_values_equal env (JStr a) (JStr b) = Some (a = b)"
| "json_values_equal env (JNum a) (JNum b) = Some (number_eq (number_f64 env a) (number_f64 env b))"
| "json_values_equal env (JBool a) (JBool b) = Some (a = b)"
| "json_values_equal env JNull JNull = Some True"
| "json_values_equal env v w = None"

definition is_true :: "bool option \<Rightarrow> bool" where
  \<comment> \<open>\<open>unwrap_or(false)\<close>\<close>
  "is_true b = (b = Some True)"

fun values_comparable :: "json_env \<Rightarrow> json \<Rightarrow> json \<Rightarrow> filter_operand \<Rightarrow> bool option" where
  \<comment> \<open>\<open>filter_values_comparable\<close>: \<open>None\<close> when the two sides cannot be compared\<close>
  "values_comparable env ctx actual (OperandLiteral l) = equals_literal env actual l"
| "values_comparable env ctx actual (OperandPath r) =
     (case resolve_filter_ref ctx r of None \<Rightarrow> None | Some e \<Rightarrow> json_values_equal env actual e)"

fun number_operand :: "json_env \<Rightarrow> json \<Rightarrow> filter_operand \<Rightarrow> f64 option" where
  \<comment> \<open>\<open>resolve_filter_number_operand\<close>\<close>
  "number_operand env ctx (OperandLiteral (LitNumber n)) = parse_f64 env n"
| "number_operand env ctx (OperandPath r) =
     (case resolve_filter_ref ctx r of None \<Rightarrow> None | Some v \<Rightarrow> json_f64 env v)"
| "number_operand env ctx operand = None"

definition compare_numbers :: "json_env \<Rightarrow> (f64 \<Rightarrow> f64 \<Rightarrow> bool) \<Rightarrow> json \<Rightarrow> json \<Rightarrow> filter_operand \<Rightarrow> bool" where
  "compare_numbers env cmp ctx actual operand = (case number_operand env ctx operand of
       None \<Rightarrow> False
     | Some e \<Rightarrow> (case json_f64 env actual of None \<Rightarrow> False | Some a \<Rightarrow> cmp a e))"

fun matches_item :: "json_env \<Rightarrow> json \<Rightarrow> filter_operand \<Rightarrow> json \<Rightarrow> bool" where
  \<comment> \<open>whether \<open>actual\<close> equals an element of the operand, an array literal or a path to an array\<close>
  "matches_item env ctx (OperandLiteral (LitArray ls)) actual = list_ex (\<lambda>l. is_true (equals_literal env actual l)) ls"
| "matches_item env ctx (OperandPath r) actual = (case resolve_filter_ref ctx r of
       Some (JArr vs) \<Rightarrow> list_ex (\<lambda>e. is_true (json_values_equal env actual e)) vs
     | _ \<Rightarrow> False)"
| "matches_item env ctx operand actual = False"

fun is_array_operand :: "json \<Rightarrow> filter_operand \<Rightarrow> bool" where
  "is_array_operand ctx (OperandLiteral (LitArray ls)) = True"
| "is_array_operand ctx (OperandPath r) = (case resolve_filter_ref ctx r of Some (JArr vs) \<Rightarrow> True | _ \<Rightarrow> False)"
| "is_array_operand ctx operand = False"

fun array_has_any :: "json_env \<Rightarrow> json \<Rightarrow> json \<Rightarrow> filter_operand \<Rightarrow> bool" where
  "array_has_any env ctx (JArr vs) operand = (is_array_operand ctx operand \<and> list_ex (matches_item env ctx operand) vs)"
| "array_has_any env ctx v operand = False"

fun array_has_none :: "json_env \<Rightarrow> json \<Rightarrow> json \<Rightarrow> filter_operand \<Rightarrow> bool" where
  "array_has_none env ctx (JArr vs) (OperandLiteral (LitArray ls)) =
     (\<not> array_has_any env ctx (JArr vs) (OperandLiteral (LitArray ls)))"
| "array_has_none env ctx (JArr vs) (OperandPath r) = (\<not> array_has_any env ctx (JArr vs) (OperandPath r))"
| "array_has_none env ctx v operand = False"

fun array_is_subset :: "json_env \<Rightarrow> json \<Rightarrow> json \<Rightarrow> filter_operand \<Rightarrow> bool" where
  "array_is_subset env ctx (JArr vs) operand = (is_array_operand ctx operand \<and> list_all (matches_item env ctx operand) vs)"
| "array_is_subset env ctx v operand = False"

fun regex_flags_of :: "ustr \<Rightarrow> regex_flags \<Rightarrow> ustr + regex_flags" where
  \<comment> \<open>the loop of \<open>build_filter_regex\<close> over the flags \<open>i m s x U u\<close>\<close>
  "regex_flags_of [] fl = Inr fl"
| "regex_flags_of (c # cs) fl =
     (if c = 105 then regex_flags_of cs (fl\<lparr>rf_case_insensitive := True\<rparr>)
      else if c = 109 then regex_flags_of cs (fl\<lparr>rf_multi_line := True\<rparr>)
      else if c = 115 then regex_flags_of cs (fl\<lparr>rf_dot_matches_new_line := True\<rparr>)
      else if c = 120 then regex_flags_of cs (fl\<lparr>rf_ignore_whitespace := True\<rparr>)
      else if c = 85 then regex_flags_of cs (fl\<lparr>rf_swap_greed := True\<rparr>)
      else if c = 117 then regex_flags_of cs fl
      else Inl (lit ''unsupported filter regex flag `'' @ [c] @ lit ''`''))"

definition build_filter_regex :: "json_env \<Rightarrow> filter_regex \<Rightarrow> ustr + (ustr \<Rightarrow> bool)" where
  "build_filter_regex env r = and_then (regex_flags_of (re_flags r) \<lparr>rf_case_insensitive = False,
       rf_multi_line = False, rf_dot_matches_new_line = False, rf_ignore_whitespace = False, rf_swap_greed = False\<rparr>)
     (regex_build env (re_pattern r))"

fun matches_regex :: "json_env \<Rightarrow> json \<Rightarrow> filter_operand \<Rightarrow> bool" where
  \<comment> \<open>\<open>filter_value_matches_regex\<close>\<close>
  "matches_regex env (JStr s) (OperandLiteral (LitRegex r)) =
     (case build_filter_regex env r of Inl _ \<Rightarrow> False | Inr is_match \<Rightarrow> is_match s)"
| "matches_regex env v operand = False"

fun f64_is_natural :: "f64 \<Rightarrow> bool" where
  \<comment> \<open>\<open>!(v.fract() != 0.0 || v < 0.0)\<close>; the fraction of a non-finite value is NaN\<close>
  "f64_is_natural (F64 q) = (of_int \<lfloor>q\<rfloor> = q \<and> 0 \<le> q)"
| "f64_is_natural v = False"

definition size_matches :: "json_env \<Rightarrow> json \<Rightarrow> json \<Rightarrow> filter_operand \<Rightarrow> bool" where
  "size_matches env ctx actual operand = (case number_operand env ctx operand of
       None \<Rightarrow> False
     | Some e \<Rightarrow> f64_is_natural e \<and> (case actual of
           JArr vs \<Rightarrow> number_eq (f64_of_nat env (length vs)) e
         | JStr s \<Rightarrow> number_eq (f64_of_nat env (length s)) e
         | _ \<Rightarrow> False))"

fun filter_value_is_empty :: "json \<Rightarrow> bool" where
  "filter_value_is_empty (JArr vs) = (vs = [])"
| "filter_value_is_empty (JStr s) = (s = [])"
| "filter_value_is_empty v = False"

definition f64_le :: "f64 \<Rightarrow> f64 \<Rightarrow> bool" where
  "f64_le a b = (f64_less a b \<or> number_eq a b)"

fun compare_matches :: "json_env \<Rightarrow> json \<Rightarrow> json \<Rightarrow> filter_op \<Rightarrow> filter_operand \<Rightarrow> bool" where
  "compare_matches env ctx a OpEqual r = is_true (values_comparable env ctx a r)"
| "compare_matches env ctx a OpNotEqual r = (values_comparable env ctx a r = Some False)"
| "compare_matches env ctx a OpRegexMatch r = matches_regex env a r"
| "compare_matches env ctx a OpIn r = (is_array_operand ctx r \<and> matches_item env ctx r a)"
| "compare_matches env ctx a OpNotIn r = (\<not> (is_array_operand ctx r \<and> matches_item env ctx r a))"
| "compare_matches env ctx a OpAnyOf r = array_has_any env ctx a r"
| "compare_matches env ctx a OpNoneOf r = array_has_none env ctx a r"
| "compare_matches env ctx a OpSubsetOf r = array_is_subset env ctx a r"
| "compare_matches env ctx a OpSize r = size_matches env ctx a r"
| "compare_matches env ctx a OpEmpty r = False"
| "compare_matches env ctx a OpGreater r = compare_numbers env (\<lambda>x y. f64_less y x) ctx a r"
| "compare_matches env ctx a OpGreaterEqual r = compare_numbers env (\<lambda>x y. f64_le y x) ctx a r"
| "compare_matches env ctx a OpLess r = compare_numbers env f64_less ctx a r"
| "compare_matches env ctx a OpLessEqual r = compare_numbers env f64_le ctx a r"

fun filter_matches :: "json_env \<Rightarrow> json \<Rightarrow> path_filter \<Rightarrow> bool" where
  \<comment> \<open>\<open>json_path_filter_matches\<close>\<close>
  "filter_matches env v (FilterExists p) = (resolve_filter_path v p \<noteq> None)"
| "filter_matches env v (FilterEmpty p) = (case resolve_filter_path v p of None \<Rightarrow> False | Some w \<Rightarrow> filter_value_is_empty w)"
| "filter_matches env v (FilterAll fs) = list_all (filter_matches env v) fs"
| "filter_matches env v (FilterAny fs) = list_ex (filter_matches env v) fs"
| "filter_matches env v (FilterNot f) = (\<not> filter_matches env v f)"
| "filter_matches env v (FilterCompare left op right) = (case resolve_filter_ref v left of
       None \<Rightarrow> False | Some actual \<Rightarrow> compare_matches env v actual op right)"

end
