(* ===== verification/QuoteScan.thy ===== *)
theory QuoteScan
  imports TextOps
begin

text \<open>
  What the scanners of \<open>crates/reader-rule/src/lib.rs\<close> share: the quote and escape state that
  each keeps in the variables \<open>quote\<close> and \<open>escaped\<close>, and the loops that collect results. The
  locale \<open>quote_scanner\<close> states what a scanner does inside quotes; its lemma that a quoted text
  is passed over whole is used for each of them.
\<close>

subsection \<open>Collecting\<close>

fun collect_results :: "('a \<Rightarrow> 'e + 'b) \<Rightarrow> 'a list \<Rightarrow> 'e + 'b list" where
  \<comment> \<open>\<open>collect\<close> into a \<open>Result\<close>\<close>
  "collect_results f [] = Inr []"
| "collect_results f (x # xs) =
     and_then (f x) (\<lambda>y. and_then (collect_results f xs) (\<lambda>ys. Inr (y # ys)))"

lemma collect_results_cong [fundef_cong]:
  "xs = ys \<Longrightarrow> (\<And>x. x \<in> set ys \<Longrightarrow> f x = g x) \<Longrightarrow> collect_results f xs = collect_results g ys"
proof (induction xs arbitrary: ys)
  case (Cons x xs)
  then obtain zs where ys: "ys = x # zs" "xs = zs" by auto
  have "f x = g x" using Cons.prems(2) ys by simp
  moreover have "collect_results f xs = collect_results g zs"
    by (rule Cons.IH[OF ys(2)]) (use Cons.prems(2) ys in simp)
  ultimately show ?case using ys by simp
qed simp

lemma and_then_cong [fundef_cong]:
  "r = s \<Longrightarrow> (\<And>a. s = Inr a \<Longrightarrow> f a = g a) \<Longrightarrow> and_then r f = and_then s g"
  by (cases s) auto

lemma collect_results_map: "(\<And>x. x \<in> set xs \<Longrightarrow> f (g x) = Inr (h x)) \<Longrightarrow>
    collect_results f (map g xs) = Inr (map h xs)"
  by (induction xs) auto

subsection \<open>Quotes\<close>

datatype quote_state = Plain
  | Quoted nat \<comment> \<open>\<open>quote = Some(c)\<close>\<close>
  | Escaped nat \<comment> \<open>\<open>quote = Some(c)\<close> and \<open>escaped\<close>\<close>

fun quote_step :: "quote_state \<Rightarrow> nat \<Rightarrow> quote_state option" where
  \<comment> \<open>the head of the scanning loops; \<open>None\<close>: the character is left to the scanner\<close>
  "quote_step (Quoted q) c = Some (if c = 92 then Escaped q else if c = q then Plain else Quoted q)"
| "quote_step (Escaped q) c = Some (Quoted q)"
| "quote_step Plain c = (if c = 39 \<or> c = 34 then Some (Quoted c) else None)"

fun escape_quoted :: "ustr \<Rightarrow> ustr" where
  \<comment> \<open>a text between single quotes: a backslash before every backslash and quote\<close>
  "escape_quoted [] = []"
| "escape_quoted (c # cs) = (if c = 92 \<or> c = 39 then [92, c] else [c]) @ escape_quoted cs"

definition quoted :: "ustr \<Rightarrow> ustr" where
  "quoted s = [39] @ escape_quoted s @ [39]"

locale quote_scanner =
  fixes scan :: "quote_state \<Rightarrow> 's \<Rightarrow> ustr \<Rightarrow> ustr \<Rightarrow> 'r"
    \<comment> \<open>the quote state, the scanner's own state, the text of the current piece, what is left\<close>
  assumes quote_law: "quote_step q c = Some r \<Longrightarrow> scan q st cur (c # cs) = scan r st (cur @ [c]) cs"
begin

lemma scan_escaped: "scan (Quoted 39) st cur (escape_quoted s @ cs) = scan (Quoted 39) st (cur @ escape_quoted s) cs"
proof (induction s arbitrary: cur)
  case (Cons c s)
  show ?case
  proof (cases "c = 92 \<or> c = 39")
    case True
    then show ?thesis
      using Cons.IH[of "cur @ [92, c]"] by (auto simp: quote_law[of _ _ "Escaped 39"] quote_law[of "Escaped 39" _ "Quoted 39"])
  next
    case False
    then show ?thesis
      using Cons.IH[of "cur @ [c]"] by (simp add: quote_law[of _ _ "Quoted 39"])
  qed
qed simp

lemma scan_quoted: "scan Plain st cur (quoted s @ cs) = scan Plain st (cur @ quoted s) cs"
  by (simp add: quoted_def quote_law[of _ _ "Quoted 39"] quote_law[of _ _ Plain] scan_escaped)

end

end
