(* ===== verification/PathScan.thy ===== *)
theory PathScan
  imports JsonPath QuoteScan
begin

text \<open>
  What the JSONPath parsers of \<open>crates/reader-rule/src/lib.rs\<close> share: their errors.
\<close>

subsection \<open>Errors\<close>

datatype path_error = PathSyntax ustr
  | PathPanic \<comment> \<open>a panic, or an overflow that panics where overflow checks are on\<close>

type_synonym 'a parsed = "path_error + 'a"

definition syntax_error :: "ustr \<Rightarrow> 'a parsed" where
  "syntax_error s = Inl (PathSyntax s)"

definition quoting :: "string \<Rightarrow> ustr \<Rightarrow> 'a parsed" where
  \<comment> \<open>an error whose message ends with the offending text in backquotes\<close>
  "quoting s t = syntax_error (lit s @ lit ''`'' @ t @ lit ''`'')"

fun map_syntax :: "(ustr \<Rightarrow> ustr) \<Rightarrow> 'a parsed \<Rightarrow> 'a parsed" where
  \<comment> \<open>\<open>map_err\<close>\<close>
  "map_syntax f (Inl (PathSyntax s)) = Inl (PathSyntax (f s))"
| "map_syntax f r = r"

end
