(* ===== verification/PathFilterParse.thy ===== *)
theory PathFilterParse
  imports PathScan
begin

text \<open>
  The filters \<open>?(...)\<close> of a JSONPath (\<open>parse_json_path_filter\<close> and what it calls): parentheses,
  negation, \<open>||\<close> and \<open>&&\<close>, the operator of a condition, field paths and literals. A text is
  scanned as a list of characters; where the code cuts \<open>expression[start..index]\<close> out of the
  expression, the model keeps the characters read and the position \<open>start\<close>, and a start behind
  the index is the panic it is in the code.
\<close>

subsection \<open>Parentheses and conditions\<close>

fun enclosing_rest :: "quote_state \<Rightarrow> nat \<Rightarrow> nat \<Rightarrow> ustr \<Rightarrow> ustr option" where
  \<comment> \<open>the text behind the parenthesis that brings the depth back to 0\<close>
  "enclosing_rest q brackets parens [] = None"
| "enclosing_rest q brackets parens (c # cs) = (case quote_step q c of
       Some r \<Rightarrow> enclosing_rest r brackets parens cs
     | None \<Rightarrow>
         if c = 91 then enclosing_rest q (brackets + 1) parens cs
         else if c = 93 then enclosing_rest q (brackets - 1) parens cs
         else if c = 40 \<and> brackets = 0 then enclosing_rest q brackets (parens + 1) cs
         else if c = 41 \<and> brackets = 0 then
           if parens - 1 = 0 then Some cs else enclosing_rest q brackets (parens - 1) cs
         else enclosing_rest q brackets parens cs)"

definition strip_enclosing_filter_parentheses :: "ustr \<Rightarrow> ustr option" where
  "strip_enclosing_filter_parentheses expression =
     (let e = trim expression in
      if \<not> starts_with e [40] \<or> \<not> ends_with e [41] then None
      else (case enclosing_rest Plain 0 0 e of
          Some [] \<Rightarrow> Some (trim (butlast (tl e)))
        | _ \<Rightarrow> None))"

lemma length_trim: "length (trim s) \<le> length s"
proof -
  have "length (trim_end t) \<le> length t" for t
    using length_dropWhile_le[of is_whitespace "rev t"] by (simp add: trim_end_def)
  moreover have "length (trim_start s) \<le> length s"
    by (simp add: trim_start_def length_dropWhile_le)
  ultimately show ?thesis
    unfolding trim_def by (meson order_trans)
qed

lemma strip_enclosing_shorter: "strip_enclosing_filter_parentheses e = Some inner \<Longrightarrow> length inner < length e"
proof -
  assume a: "strip_enclosing_filter_parentheses e = Some inner"
  then have s: "starts_with (trim e) [40]" and i: "inner = trim (butlast (tl (trim e)))"
    by (auto simp: strip_enclosing_filter_parentheses_def Let_def split: if_splits option.splits list.splits)
  have "length inner \<le> length (trim e) - 2"
    unfolding i using length_trim[of "butlast (tl (trim e))"] by simp
  moreover have "0 < length (trim e)" using s by (cases "trim e") auto
  ultimately show ?thesis using length_trim[of e] by linarith
qed

function strip_filter_parentheses :: "ustr \<Rightarrow> ustr" where
  \<comment> \<open>the loop of \<open>parse_filter_expression\<close>\<close>
  "strip_filter_parentheses e = (case strip_enclosing_filter_parentheses e of
       Some inner \<Rightarrow> strip_filter_parentheses inner | None \<Rightarrow> e)"
  by pat_completeness auto
termination
  by (relation "measure length") (auto simp: strip_enclosing_shorter)

declare strip_filter_parentheses.simps [simp del]

fun filter_conditions :: "ustr list \<Rightarrow> quote_state \<Rightarrow> nat \<times> nat \<times> nat \<Rightarrow> ustr \<Rightarrow> ustr \<Rightarrow> ustr list parsed" where
  \<comment> \<open>the loop of \<open>split_filter_conditions\<close> in the state (bracket depth, parenthesis depth, \<open>start\<close>),
      after reading \<open>pre\<close>; a regex between slashes is scanned like a quoted text. A separator does
      not move the index behind itself.\<close>
  "filter_conditions seps q (brackets, parens, start) pre [] =
     (let condition = trim (drop start pre) in
      if condition = [] then quoting ''empty filter condition in '' pre else Inr [condition])"
| "filter_conditions seps q (brackets, parens, start) pre (c # cs) = (case quote_step q c of
       Some r \<Rightarrow> filter_conditions seps r (brackets, parens, start) (pre @ [c]) cs
     | None \<Rightarrow>
         if c = 47 \<and> ends_with (trim_end pre) (lit ''=~'') then
           filter_conditions seps (Quoted 47) (brackets, parens, start) (pre @ [c]) cs
         else (case (if brackets = 0 \<and> parens = 0 then find (starts_with (c # cs)) seps else None) of
             Some sep \<Rightarrow>
               if length pre < start then Inl PathPanic
               else (let condition = trim (drop start pre) in
                 if condition = [] then quoting ''empty filter condition in '' (pre @ c # cs)
                 else and_then (filter_conditions seps q (brackets, parens, length pre + length sep) (pre @ [c]) cs)
                   (\<lambda>conditions. Inr (condition # conditions)))
           | None \<Rightarrow>
               if c = 91 then filter_conditions seps q (brackets + 1, parens, start) (pre @ [c]) cs
               else if c = 93 then filter_conditions seps q (brackets - 1, parens, start) (pre @ [c]) cs
               else if c = 40 then filter_conditions seps q (brackets, parens + 1, start) (pre @ [c]) cs
               else if c = 41 then filter_conditions seps q (brackets, parens - 1, start) (pre @ [c]) cs
               else filter_conditions seps q (brackets, parens, start) (pre @ [c]) cs))"

definition split_filter_conditions :: "ustr \<Rightarrow> ustr list \<Rightarrow> ustr list parsed" where
  "split_filter_conditions expression seps =
     (if seps = [] \<or> [] \<in> set seps then syntax_error (lit ''filter condition operator must not be empty'')
      else filter_conditions seps Plain (0, 0, 0) [] expression)"

interpretation conditions: quote_scanner "filter_conditions seps" for seps
proof
  fix q r c st and cur cs :: ustr
  assume "quote_step q c = Some r"
  then show "filter_conditions seps q st cur (c # cs) = filter_conditions seps r st (cur @ [c]) cs"
    by (cases st) simp
qed

subsection \<open>Operators\<close>

definition is_filter_word_char :: "nat \<Rightarrow> bool" where
  "is_filter_word_char c = (is_ascii_alphanumeric c \<or> c = 95 \<or> c = 36)"

definition filter_word_operator_at :: "ustr \<Rightarrow> ustr \<Rightarrow> ustr \<Rightarrow> bool" where
  \<comment> \<open>after the text \<open>pre\<close> stands \<open>operator\<close>, as a word of its own\<close>
  "filter_word_operator_at pre rest operator =
     (starts_with rest operator \<and> pre \<noteq> [] \<and> is_whitespace (last pre) \<and>
      (case drop (length operator) rest of [] \<Rightarrow> True | c # _ \<Rightarrow> \<not> is_filter_word_char c))"

definition word_operators :: "(ustr \<times> filter_op) list" where
  "word_operators = [(lit ''subsetof'', OpSubsetOf), (lit ''size'', OpSize), (lit ''empty'', OpEmpty),
     (lit ''noneof'', OpNoneOf), (lit ''anyof'', OpAnyOf), (lit ''nin'', OpNotIn), (lit ''in'', OpIn)]"

definition symbol_operators :: "(ustr \<times> filter_op) list" where
  "symbol_operators = [(lit ''=='', OpEqual), (lit ''!='', OpNotEqual), (lit ''=~'', OpRegexMatch),
     (lit ''>='', OpGreaterEqual), (lit ''<='', OpLessEqual), (lit ''>'', OpGreater), (lit ''<'', OpLess)]"

definition filter_operator_here :: "ustr \<Rightarrow> ustr \<Rightarrow> (ustr \<times> filter_op) option" where
  "filter_operator_here pre rest = (case find (\<lambda>p. filter_word_operator_at pre rest (fst p)) word_operators of
       Some p \<Rightarrow> Some p
     | None \<Rightarrow> find (\<lambda>p. starts_with rest (fst p)) symbol_operators)"

fun find_filter_operator :: "quote_state \<Rightarrow> ustr \<Rightarrow> ustr \<Rightarrow> (ustr \<times> ustr \<times> filter_op) option" where
  \<comment> \<open>the text before the first operator, the text behind it, and the operator\<close>
  "find_filter_operator q pre [] = None"
| "find_filter_operator q pre (c # cs) = (case quote_step q c of
       Some r \<Rightarrow> find_filter_operator r (pre @ [c]) cs
     | None \<Rightarrow> (case filter_operator_here pre (c # cs) of
           Some (operator, op) \<Rightarrow> Some (pre, drop (length operator) (c # cs), op)
         | None \<Rightarrow> find_filter_operator q (pre @ [c]) cs))"

interpretation operators: quote_scanner "\<lambda>q (st :: unit). find_filter_operator q"
  by unfold_locales simp

subsection \<open>Field paths\<close>

fun filter_quoted_chars :: "ustr \<Rightarrow> nat \<Rightarrow> ustr \<Rightarrow> ustr \<Rightarrow> (ustr \<times> ustr) parsed" where
  \<comment> \<open>the loop of \<open>parse_filter_quoted_field\<close>: the field and the text behind its bracket\<close>
  "filter_quoted_chars lhs quote field [] = quoting ''unterminated quoted filter field in '' lhs"
| "filter_quoted_chars lhs quote field (c # cs) =
     (if c = 92 \<and> cs \<noteq> [] then
        (case cs of [] \<Rightarrow> Inl PathPanic | d # ds \<Rightarrow> filter_quoted_chars lhs quote (field @ [d]) ds)
      else if c = quote then
        (if starts_with cs [93] then Inr (field, tl cs)
         else quoting ''quoted filter field must close with `]` in '' lhs)
      else filter_quoted_chars lhs quote (field @ [c]) cs)"

definition parse_filter_quoted_field :: "ustr \<Rightarrow> ustr \<Rightarrow> (ustr \<times> ustr) parsed" where
  \<comment> \<open>on the text behind the opening bracket\<close>
  "parse_filter_quoted_field lhs cs = (case cs of
       [] \<Rightarrow> quoting ''unterminated filter field bracket in '' lhs
     | quote # rest \<Rightarrow>
         if quote \<noteq> 39 \<and> quote \<noteq> 34 then quoting ''filter field bracket must contain a quoted key in '' lhs
         else filter_quoted_chars lhs quote [] rest)"

lemma filter_quoted_chars_shorter:
  "filter_quoted_chars lhs quote field cs = Inr (f, rest) \<Longrightarrow> length rest < length cs"
  by (induction lhs quote field cs rule: filter_quoted_chars.induct)
    (force simp: quoting_def syntax_error_def split: if_splits list.splits nat.splits)+

lemma parse_filter_quoted_field_shorter:
  "parse_filter_quoted_field lhs cs = Inr (f, rest) \<Longrightarrow> length rest < Suc (length cs)"
  using filter_quoted_chars_shorter[of lhs _ "[]" _ f rest]
  by (fastforce simp: parse_filter_quoted_field_def quoting_def syntax_error_def split: if_splits list.splits)

function filter_path_fields :: "ustr \<Rightarrow> ustr \<Rightarrow> ustr list parsed" where
  \<comment> \<open>the loop of \<open>parse_filter_path\<close>\<close>
  "filter_path_fields lhs cs = (case cs of
       [] \<Rightarrow> Inr []
     | c # rest \<Rightarrow>
         if c = 46 then
           (let field = takeWhile (\<lambda>d. d \<noteq> 46 \<and> d \<noteq> 91) rest in
            if field = [] then quoting ''filter field path is empty in '' lhs
            else and_then (filter_path_fields lhs (dropWhile (\<lambda>d. d \<noteq> 46 \<and> d \<noteq> 91) rest))
              (\<lambda>fields. Inr (field # fields)))
         else if c = 91 then
           (case parse_filter_quoted_field lhs rest of
              Inl e \<Rightarrow> Inl e
            | Inr (field, rest') \<Rightarrow> and_then (filter_path_fields lhs rest') (\<lambda>fields. Inr (field # fields)))
         else syntax_error (lit ''expected `.` or `[` in filter field path `'' @ lhs @ lit ''`, found `'' @ [c] @ lit ''`''))"
  by pat_completeness auto
termination
  by (relation "measure (\<lambda>(lhs, cs). length cs)")
    (auto simp: le_imp_less_Suc length_dropWhile_le dest: parse_filter_quoted_field_shorter)

declare filter_path_fields.simps [simp del]

definition parse_filter_path :: "ustr \<Rightarrow> ustr list parsed" where
  "parse_filter_path lhs =
     (let chars = trim lhs in
      if \<not> starts_with chars [64] then quoting ''filter field must start with `@` in '' lhs
      else and_then (filter_path_fields lhs (tl chars)) (\<lambda>fields.
        if fields = [] \<or> [] \<in> set fields then quoting ''filter field path is empty in '' lhs else Inr fields))"

definition parse_filter_value_ref :: "ustr \<Rightarrow> filter_ref parsed" where
  "parse_filter_value_ref lhs = (if trim lhs = [64] then Inr RefCurrent
     else and_then (parse_filter_path lhs) (\<lambda>p. Inr (RefPath p)))"

subsection \<open>Literals\<close>

fun filter_array_items :: "ustr \<Rightarrow> quote_state \<Rightarrow> ustr \<Rightarrow> ustr \<Rightarrow> ustr list parsed" where
  \<comment> \<open>the loop of \<open>split_filter_array_items\<close>\<close>
  "filter_array_items inner q cur [] =
     (if q \<noteq> Plain then syntax_error (lit ''unterminated quoted filter array item in `['' @ inner @ lit '']`'')
      else if trim cur = [] then syntax_error (lit ''empty filter array item in `['' @ inner @ lit '']`'')
      else Inr [trim cur])"
| "filter_array_items inner q cur (c # cs) = (case quote_step q c of
       Some r \<Rightarrow> filter_array_items inner r (cur @ [c]) cs
     | None \<Rightarrow>
         if c = 44 then
           (if trim cur = [] then syntax_error (lit ''empty filter array item in `['' @ inner @ lit '']`'')
            else and_then (filter_array_items inner q [] cs) (\<lambda>items. Inr (trim cur # items)))
         else filter_array_items inner q (cur @ [c]) cs)"

definition split_filter_array_items :: "ustr \<Rightarrow> ustr list parsed" where
  "split_filter_array_items inner = filter_array_items inner Plain [] inner"

interpretation array_items: quote_scanner "\<lambda>q (st :: unit). filter_array_items inner q" for inner
  by unfold_locales simp

lemma filter_array_items_length:
  "filter_array_items inner q cur cs = Inr items \<Longrightarrow> item \<in> set items \<Longrightarrow> length item \<le> length cur + length cs"
proof (induction inner q cur cs arbitrary: items rule: filter_array_items.induct)
  case (1 inner q cur)
  then show ?case
    using length_trim[of cur] by (auto simp: syntax_error_def split: if_splits)
next
  case (2 inner q cur c cs)
  show ?case
  proof (cases "quote_step q c")
    case None
    show ?thesis
    proof (cases "c = 44")
      case True
      with 2 None show ?thesis
        using length_trim[of cur] by (fastforce simp: syntax_error_def and_then_eq_Inr split: if_splits)
    qed (use 2 None in fastforce)
  qed (use 2 in fastforce)
qed

lemma split_filter_array_items_length:
  "split_filter_array_items inner = Inr items \<Longrightarrow> item \<in> set items \<Longrightarrow> length item \<le> length inner"
  using filter_array_items_length[of inner Plain "[]" inner items item] by (simp add: split_filter_array_items_def)

fun filter_string_chars :: "ustr \<Rightarrow> nat \<Rightarrow> ustr \<Rightarrow> bool \<Rightarrow> ustr \<Rightarrow> ustr parsed" where
  \<comment> \<open>the loop of \<open>parse_filter_string_literal\<close>\<close>
  "filter_string_chars rhs quote out escaped [] = quoting ''unterminated filter string literal in '' rhs"
| "filter_string_chars rhs quote out escaped (c # cs) =
     (if escaped then filter_string_chars rhs quote (out @ [c]) False cs
      else if c = 92 then filter_string_chars rhs quote out True cs
      else if c = quote then
        (if \<not> blank cs then quoting ''unexpected trailing filter text in '' rhs else Inr out)
      else filter_string_chars rhs quote (out @ [c]) False cs)"

definition parse_filter_string_literal :: "ustr \<Rightarrow> ustr parsed" where
  "parse_filter_string_literal rhs = (case rhs of
       [] \<Rightarrow> quoting ''filter comparison value must be a string literal in '' rhs
     | c # cs \<Rightarrow>
         if c = 39 \<or> c = 34 then filter_string_chars rhs c [] False cs
         else quoting ''filter comparison value must be a string literal in '' rhs)"

fun filter_regex_chars :: "json_env \<Rightarrow> ustr \<Rightarrow> ustr \<Rightarrow> bool \<Rightarrow> ustr \<Rightarrow> filter_regex parsed" where
  \<comment> \<open>the loop of \<open>parse_filter_regex_literal\<close>; the regex is compiled to reject a bad one\<close>
  "filter_regex_chars env rhs pat escaped [] = quoting ''unterminated filter regex literal '' rhs"
| "filter_regex_chars env rhs pat escaped (c # cs) =
     (if escaped then
        (if c = 47 then filter_regex_chars env rhs (pat @ [47]) False cs
         else filter_regex_chars env rhs (pat @ [92, c]) False cs)
      else if c = 92 then filter_regex_chars env rhs pat True cs
      else if c = 47 then
        (let r = \<lparr>re_pattern = pat, re_flags = trim cs\<rparr> in
         case build_filter_regex env r of
           Inl e \<Rightarrow> syntax_error (lit ''invalid filter regex literal `'' @ rhs @ lit ''`: '' @ e)
         | Inr _ \<Rightarrow> Inr r)
      else filter_regex_chars env rhs (pat @ [c]) False cs)"

definition parse_filter_regex_literal :: "json_env \<Rightarrow> ustr \<Rightarrow> filter_regex parsed" where
  "parse_filter_regex_literal env rhs = (case rhs of
       [] \<Rightarrow> quoting ''filter regex literal must start with `/` in '' rhs
     | c # cs \<Rightarrow>
         if c = 47 then filter_regex_chars env rhs [] False cs
         else quoting ''filter regex literal must start with `/` in '' rhs)"

definition filter_scalar_literal :: "json_env \<Rightarrow> ustr \<Rightarrow> filter_literal parsed" where
  "filter_scalar_literal env rhs = (case parse_json env rhs of
       Inr (JNum n) \<Rightarrow> Inr (LitNumber (number_text env n))
     | Inr (JBool b) \<Rightarrow> Inr (LitBool b)
     | Inr JNull \<Rightarrow> Inr LitNull
     | _ \<Rightarrow> quoting ''unsupported filter comparison literal '' rhs)"

fun is_array_literal :: "filter_literal \<Rightarrow> bool" where
  "is_array_literal (LitArray ls) = True"
| "is_array_literal l = False"

function parse_filter_literal :: "json_env \<Rightarrow> ustr \<Rightarrow> filter_literal parsed" where
  \<comment> \<open>with \<open>parse_filter_array_literal\<close>\<close>
  "parse_filter_literal env rhs =
     (if starts_with rhs [91] then
        (let r = trim rhs in
         if \<not> starts_with r [91] \<or> \<not> ends_with r [93] then
           quoting ''filter array literal must be enclosed by `[]` in '' r
         else let inner = trim (butlast (tl r)) in
           if inner = [] then Inr (LitArray [])
           else (case split_filter_array_items inner of
               Inl e \<Rightarrow> Inl e
             | Inr items \<Rightarrow> and_then (collect_results (\<lambda>item.
                   and_then (parse_filter_literal env (trim item)) (\<lambda>l.
                     if is_array_literal l then quoting ''nested filter arrays are unsupported in '' r else Inr l)) items)
                 (\<lambda>ls. Inr (LitArray ls))))
      else if starts_with rhs [47] then and_then (parse_filter_regex_literal env rhs) (\<lambda>r. Inr (LitRegex r))
      else if starts_with rhs [39] \<or> starts_with rhs [34] then
        and_then (parse_filter_string_literal rhs) (\<lambda>s. Inr (LitString s))
      else filter_scalar_literal env rhs)"
  by pat_completeness auto
termination
proof (relation "measure (\<lambda>(env, rhs). length rhs)", simp)
  fix env :: json_env and rhs r inner items item
  assume a: "starts_with rhs [91]" "r = trim rhs" "inner = trim (butlast (tl r))"
    "split_filter_array_items inner = Inr items" "item \<in> set items"
  have "length (trim item) \<le> length inner"
    using length_trim[of item] split_filter_array_items_length[OF a(4,5)] by simp
  also have "\<dots> \<le> length (butlast (tl r))" using length_trim[of "butlast (tl r)"] a(3) by simp
  also have "\<dots> \<le> length rhs - 2" using length_trim[of rhs] a(2) by simp
  finally have "length (trim item) \<le> length rhs - 2" .
  moreover have "0 < length rhs" using a(1) by (cases rhs) auto
  ultimately have "length (trim item) < length rhs" by linarith
  then show "((env, trim item), env, rhs) \<in> measure (\<lambda>(env, rhs). length rhs)" by simp
qed

declare parse_filter_literal.simps [simp del]

definition parse_filter_operand :: "json_env \<Rightarrow> ustr \<Rightarrow> filter_operand parsed" where
  "parse_filter_operand env rhs =
     (if starts_with (trim rhs) [64] then and_then (parse_filter_value_ref rhs) (\<lambda>r. Inr (OperandPath r))
      else and_then (parse_filter_literal env rhs) (\<lambda>l. Inr (OperandLiteral l)))"

subsection \<open>Filters\<close>

definition filter_not_function_inner :: "ustr \<Rightarrow> ustr option" where
  "filter_not_function_inner expression =
     (let e = trim expression in
      if starts_with e (lit ''not('') \<and> ends_with (drop 4 e) [41] then
        (let inner = trim (butlast (drop 4 e)) in if inner = [] then None else Some inner)
      else None)"

definition parse_single_json_path_filter :: "json_env \<Rightarrow> ustr \<Rightarrow> path_filter parsed" where
  "parse_single_json_path_filter env expression = (case find_filter_operator Plain [] expression of
       None \<Rightarrow> (case filter_not_function_inner expression of
           Some inner \<Rightarrow> and_then (parse_filter_path inner) (\<lambda>p. Inr (FilterNot (FilterExists p)))
         | None \<Rightarrow> and_then (parse_filter_path expression) (\<lambda>p. Inr (FilterExists p)))
     | Some (before, behind, op) \<Rightarrow>
         (let lhs = trim before; rhs = trim behind in
          if op = OpEmpty then
            (if rhs \<noteq> [] then quoting ''filter empty operator does not accept RHS in '' expression
             else and_then (parse_filter_path lhs) (\<lambda>p. Inr (FilterEmpty p)))
          else and_then (parse_filter_value_ref lhs) (\<lambda>left.
            and_then (parse_filter_operand env rhs) (\<lambda>right. Inr (FilterCompare left op right)))))"

lemma scan_cases:
  obtains (quoted) r where "quote_step q c = Some r"
    | (regex) "quote_step q c = None" "c = 47 \<and> ends_with (trim_end pre) (lit ''=~'')"
    | (cut) sep where "quote_step q c = None" "\<not> (c = 47 \<and> ends_with (trim_end pre) (lit ''=~''))"
        "(if b = 0 \<and> p = 0 then find (starts_with (c # cs)) seps else None) = Some sep"
    | (other) "quote_step q c = None" "\<not> (c = 47 \<and> ends_with (trim_end pre) (lit ''=~''))"
        "(if b = 0 \<and> p = 0 then find (starts_with (c # cs)) seps else None) = None"
  by fastforce

lemma filter_conditions_length:
  "filter_conditions seps q st pre cs = Inr conditions \<Longrightarrow> x \<in> set conditions \<Longrightarrow>
     length x \<le> length pre + length cs - snd (snd st)"
proof (induction seps q st pre cs arbitrary: conditions rule: filter_conditions.induct)
  case (1 seps q b p start pre)
  then show ?case
    using length_trim[of "drop start pre"] by (auto simp: Let_def quoting_def syntax_error_def split: if_splits)
next
  case (2 seps q b p start pre c cs)
  show ?case
  proof (cases rule: scan_cases[where q = q and c = c and pre = pre and b = b and p = p and cs = cs and seps = seps])
    case (cut sep)
    then obtain rest where rest: "filter_conditions seps q (b, p, length pre + length sep) (pre @ [c]) cs = Inr rest"
      and c: "conditions = trim (drop start pre) # rest" "\<not> length pre < start" "trim (drop start pre) \<noteq> []"
      using "2.prems" by (auto simp: Let_def quoting_def syntax_error_def and_then_eq_Inr split: if_splits)
    have "length x \<le> length pre + length (c # cs) - (length pre + length sep)" if "x \<in> set rest"
      using 2(7)[OF cut c(2) refl c(3) rest that] by simp
    moreover have "length (trim (drop start pre)) \<le> length pre - start"
      using length_trim[of "drop start pre"] by simp
    ultimately show ?thesis using "2.prems"(2) c(1,2) by (cases "x \<in> set rest") auto
  next
    case other
    then show ?thesis using 2(2-6) "2.prems" by (auto split: if_splits)
  qed (use 2 in auto)
qed

lemma filter_conditions_shorter:
  "filter_conditions seps q st pre cs = Inr conditions \<Longrightarrow> x \<in> set conditions \<Longrightarrow> 1 < length conditions \<Longrightarrow>
     [] \<notin> set seps \<Longrightarrow> length x < length pre + length cs"
proof (induction seps q st pre cs arbitrary: conditions rule: filter_conditions.induct)
  case (1 seps q b p start pre)
  then show ?case by (auto simp: Let_def quoting_def syntax_error_def split: if_splits)
next
  case (2 seps q b p start pre c cs)
  show ?case
  proof (cases rule: scan_cases[where q = q and c = c and pre = pre and b = b and p = p and cs = cs and seps = seps])
    case (cut sep)
    then have "sep \<in> set seps" by (auto simp: find_Some_iff split: if_splits)
    then have l: "0 < length sep" using "2.prems"(4) by auto
    obtain rest where rest: "filter_conditions seps q (b, p, length pre + length sep) (pre @ [c]) cs = Inr rest"
      and c: "conditions = trim (drop start pre) # rest"
      using "2.prems"(1) cut by (auto simp: Let_def quoting_def syntax_error_def and_then_eq_Inr split: if_splits)
    have "length x \<le> length (pre @ [c]) + length cs - (length pre + length sep)" if "x \<in> set rest"
      using filter_conditions_length[OF rest that] by simp
    moreover have "length (trim (drop start pre)) \<le> length pre"
      using length_trim[of "drop start pre"] by simp
    moreover have "length x < Suc (length pre + length cs)" if "length x \<le> Suc (length cs) - length sep"
      using that l by linarith
    ultimately show ?thesis using "2.prems"(2) c by (cases "x \<in> set rest") auto
  next
    case other
    then show ?thesis using 2(2-6) "2.prems" by (auto split: if_splits)
  qed (use 2 in auto)
qed
lemma split_filter_conditions_shorter:
  "split_filter_conditions e seps = Inr conditions \<Longrightarrow> x \<in> set conditions \<Longrightarrow> 1 < length conditions \<Longrightarrow>
     length x < length e"
  using filter_conditions_shorter[of seps Plain "(0, 0, 0)" "[]" e conditions x]
  by (auto simp: split_filter_conditions_def syntax_error_def split: if_splits)

lemma strip_filter_parentheses_length: "length (strip_filter_parentheses e) \<le> length e"
proof (induction e rule: strip_filter_parentheses.induct)
  case (1 e)
  then show ?case
    using strip_enclosing_shorter[of e] by (force simp: strip_filter_parentheses.simps[of e] split: option.splits)
qed

definition or_separators :: "ustr list" where
  "or_separators = [lit ''||'', lit '' or '']"

definition and_separators :: "ustr list" where
  "and_separators = [lit ''&&'', lit '' and '']"

function parse_filter_expression :: "json_env \<Rightarrow> ustr \<Rightarrow> path_filter parsed" where
  \<comment> \<open>with \<open>parse_filter_or_conditions\<close> and \<open>parse_filter_and_conditions\<close>\<close>
  "parse_filter_expression env expression =
     (let e = strip_filter_parentheses (trim expression) in
      if starts_with e [33] then
        (let inner = trim (tl e) in
         if inner = [] then quoting ''empty filter condition in '' e
         else and_then (parse_filter_expression env inner) (\<lambda>f. Inr (FilterNot f)))
      else (case split_filter_conditions e or_separators of
          Inl err \<Rightarrow> Inl err
        | Inr alternatives \<Rightarrow>
            if 1 < length alternatives then
              and_then (collect_results (parse_filter_expression env) alternatives) (\<lambda>fs. Inr (FilterAny fs))
            else (case split_filter_conditions e and_separators of
                Inl err \<Rightarrow> Inl err
              | Inr conditions \<Rightarrow>
                  if 1 < length conditions then
                    and_then (collect_results (parse_filter_expression env) conditions) (\<lambda>fs. Inr (FilterAll fs))
                  else parse_single_json_path_filter env e)))"
  by pat_completeness auto
termination
proof (relation "measure (\<lambda>(env, e). length e)", simp)
  fix env :: json_env and e expression inner
  assume a: "e = strip_filter_parentheses (trim expression)" "starts_with e [33]" "inner = trim (tl e)"
  have "length e \<le> length expression"
    using strip_filter_parentheses_length[of "trim expression"] length_trim[of expression] a(1) by simp
  moreover have "length inner < length e"
    using length_trim[of "tl e"] a(2,3) by (cases e) auto
  ultimately show "((env, inner), env, expression) \<in> measure (\<lambda>(env, e). length e)" by simp
next
  fix env :: json_env and e expression conditions x
  assume a: "e = strip_filter_parentheses (trim expression)" "split_filter_conditions e or_separators = Inr conditions"
    "1 < length conditions" "x \<in> set conditions"
  then show "((env, x), env, expression) \<in> measure (\<lambda>(env, e). length e)"
    using split_filter_conditions_shorter[OF a(2,4,3)] strip_filter_parentheses_length[of "trim expression"]
      length_trim[of expression] by simp
next
  fix env :: json_env and e expression conditions x
  assume a: "e = strip_filter_parentheses (trim expression)" "split_filter_conditions e and_separators = Inr conditions"
    "1 < length conditions" "x \<in> set conditions"
  then show "((env, x), env, expression) \<in> measure (\<lambda>(env, e). length e)"
    using split_filter_conditions_shorter[OF a(2,4,3)] strip_filter_parentheses_length[of "trim expression"]
      length_trim[of expression] by simp
qed

declare parse_filter_expression.simps [simp del]

definition parse_json_path_filter :: "json_env \<Rightarrow> ustr \<Rightarrow> path_filter parsed" where
  \<comment> \<open>the filter of the segment\<close>
  "parse_json_path_filter env token =
     (if starts_with token (lit ''?('') \<and> ends_with (drop 2 token) [41]
      then parse_filter_expression env (trim (butlast (drop 2 token)))
      else quoting ''invalid filter segment '' token)"

end
