(* ===== verification/PathParse.thy ===== *)
theory PathParse
  imports PathFilterParse
begin

text \<open>
  The JSONPath parser (\<open>parse_json_path\<close>): dot tokens with their functions, brackets with
  fields, indices, unions, slices and filters, and recursive descent. The index into the
  characters is the text that is left. A function token parses paths among its arguments; it
  takes the path parser as an argument, which it calls on shorter texts only.
\<close>

subsection \<open>Brackets\<close>

fun bracket_token :: "quote_state \<Rightarrow> nat \<Rightarrow> ustr \<Rightarrow> ustr \<Rightarrow> (ustr \<times> ustr) parsed" where
  \<comment> \<open>\<open>scan_json_path_bracket_token_end\<close>: the token and the text behind its \<open>]\<close>\<close>
  "bracket_token q parens cur [] = syntax_error (lit ''unterminated `[` segment'')"
| "bracket_token q parens cur (c # cs) = (case quote_step q c of
       Some r \<Rightarrow> bracket_token r parens (cur @ [c]) cs
     | None \<Rightarrow>
         if c = 40 then bracket_token q (parens + 1) (cur @ [c]) cs
         else if c = 41 then bracket_token q (parens - 1) (cur @ [c]) cs
         else if c = 93 \<and> parens = 0 then Inr (cur, cs)
         else bracket_token q parens (cur @ [c]) cs)"

interpretation brackets: quote_scanner bracket_token
  by unfold_locales simp

fun union_items :: "ustr \<Rightarrow> quote_state \<Rightarrow> nat \<Rightarrow> ustr \<Rightarrow> ustr \<Rightarrow> ustr list parsed" where
  \<comment> \<open>the loop of \<open>split_json_path_union_items\<close>\<close>
  "union_items token q parens cur [] =
     (if trim cur = [] then quoting ''empty union segment in '' token else Inr [trim cur])"
| "union_items token q parens cur (c # cs) = (case quote_step q c of
       Some r \<Rightarrow> union_items token r parens (cur @ [c]) cs
     | None \<Rightarrow>
         if c = 40 then union_items token q (parens + 1) (cur @ [c]) cs
         else if c = 41 then union_items token q (parens - 1) (cur @ [c]) cs
         else if c = 44 \<and> parens = 0 then
           (if trim cur = [] then quoting ''empty union segment in '' token
            else and_then (union_items token q parens [] cs) (\<lambda>items. Inr (trim cur # items)))
         else union_items token q parens (cur @ [c]) cs)"

definition split_json_path_union_items :: "ustr \<Rightarrow> ustr list parsed" where
  "split_json_path_union_items token = union_items token Plain 0 [] token"

interpretation unions: quote_scanner "union_items token" for token
  by unfold_locales simp

lemma union_items_length:
  "union_items token q parens cur cs = Inr items \<Longrightarrow> x \<in> set items \<Longrightarrow> length x \<le> length cur + length cs"
proof (induction token q parens cur cs arbitrary: items rule: union_items.induct)
  case (1 token q parens cur)
  then show ?case using length_trim[of cur] by (auto simp: quoting_def syntax_error_def split: if_splits)
next
  case (2 token q parens cur c cs)
  show ?case
  proof (cases "quote_step q c = None \<and> c = 44 \<and> parens = 0")
    case True
    then show ?thesis using 2 length_trim[of cur]
      by (fastforce simp: quoting_def syntax_error_def and_then_eq_Inr split: if_splits)
  next
    case False
    then show ?thesis using 2 by (auto split: option.splits if_splits)
  qed
qed

lemma union_items_shorter:
  "union_items token q parens cur cs = Inr items \<Longrightarrow> x \<in> set items \<Longrightarrow> 1 < length items \<Longrightarrow>
     length x < length cur + length cs"
proof (induction token q parens cur cs arbitrary: items rule: union_items.induct)
  case (1 token q parens cur)
  then show ?case by (auto simp: quoting_def syntax_error_def split: if_splits)
next
  case (2 token q parens cur c cs)
  show ?case
  proof (cases "quote_step q c = None \<and> c = 44 \<and> parens = 0")
    case True
    then obtain rest where rest: "union_items token q parens [] cs = Inr rest" and i: "items = trim cur # rest"
      using "2.prems"(1) by (auto simp: quoting_def syntax_error_def and_then_eq_Inr split: if_splits)
    have "length x \<le> length cs" if "x \<in> set rest"
      using union_items_length[OF rest that] by simp
    then show ?thesis using "2.prems"(2) i length_trim[of cur] by fastforce
  next
    case False
    then show ?thesis using 2 by (auto split: option.splits if_splits)
  qed
qed

lemma split_union_items_shorter:
  "split_json_path_union_items token = Inr items \<Longrightarrow> x \<in> set items \<Longrightarrow> 1 < length items \<Longrightarrow>
     length x < length token"
  using union_items_shorter[of token Plain 0 "[]" token items x] by (simp add: split_json_path_union_items_def)

fun quoted_field_chars :: "ustr \<Rightarrow> nat \<Rightarrow> ustr \<Rightarrow> ustr \<Rightarrow> ustr parsed" where
  \<comment> \<open>the loop of \<open>parse_json_path_quoted_field_token\<close>\<close>
  "quoted_field_chars token quote field [] = quoting ''unterminated quoted field segment in '' token"
| "quoted_field_chars token quote field [c] =
     (if c = quote then Inr field else quoted_field_chars token quote (field @ [c]) [])"
| "quoted_field_chars token quote field (c # d # cs) =
     (if c = 92 then quoted_field_chars token quote (field @ [d]) cs
      else if c = quote then quoting ''unexpected trailing quoted field text in '' token
      else quoted_field_chars token quote (field @ [c]) (d # cs))"

definition parse_json_path_quoted_field_token :: "ustr \<Rightarrow> ustr parsed" where
  "parse_json_path_quoted_field_token token = (case token of
       [] \<Rightarrow> quoting ''quoted field segment must start with a quote in '' token
     | c # cs \<Rightarrow>
         if c = 39 \<or> c = 34 then quoted_field_chars token c [] cs
         else quoting ''quoted field segment must start with a quote in '' token)"

definition parse_opt_isize :: "ustr \<Rightarrow> ustr \<Rightarrow> int option parsed" where
  \<comment> \<open>the closure \<open>parse_opt\<close> of \<open>parse_json_path_slice\<close>\<close>
  "parse_opt_isize token raw =
     (if trim raw = [] then Inr None
      else (case parse_isize (trim raw) of
          Some v \<Rightarrow> Inr (Some v)
        | None \<Rightarrow> syntax_error (lit ''invalid slice index `'' @ trim raw @ lit ''` in `'' @ token @ lit ''`'')))"

definition parse_json_path_slice :: "ustr \<Rightarrow> segment parsed" where
  "parse_json_path_slice token =
     (let parts = split_on (\<lambda>c. c = 58) token in
      if length parts < 2 \<or> 3 < length parts then quoting ''invalid slice segment '' token
      else and_then (parse_opt_isize token (parts ! 0)) (\<lambda>s.
        and_then (parse_opt_isize token (parts ! 1)) (\<lambda>e.
        and_then (if length parts = 3 then parse_opt_isize token (parts ! 2) else Inr None) (\<lambda>step.
          if step = Some 0 then quoting ''slice step cannot be zero in '' token
          else Inr (SliceSeg \<lparr>sl_start = s, sl_end = e, sl_step = step\<rparr>)))))"

definition bracket_item :: "json_env \<Rightarrow> ustr \<Rightarrow> segment parsed" where
  \<comment> \<open>a bracket token that is no union; negating \<open>isize::MIN\<close> overflows\<close>
  "bracket_item env token =
     (if token = [42] then Inr WildcardSeg
      else if starts_with token [39] \<or> starts_with token [34] then
        and_then (parse_json_path_quoted_field_token token) (\<lambda>f. Inr (FieldSeg f))
      else if starts_with token (lit ''?('') then
        and_then (parse_json_path_filter env token) (\<lambda>f. Inr (FilterSeg f))
      else if 58 \<in> set token then parse_json_path_slice token
      else (case parse_isize token of
          Some i \<Rightarrow>
            if 0 \<le> i then Inr (IndexSeg (nat i))
            else if i = - isize_max - 1 then Inl PathPanic
            else Inr (FromEndSeg (nat (- i)))
        | None \<Rightarrow> quoting ''unsupported bracket segment '' token))"

function parse_json_path_bracket_token :: "json_env \<Rightarrow> ustr \<Rightarrow> segment parsed" where
  "parse_json_path_bracket_token env token0 =
     (let token = trim token0 in
      case split_json_path_union_items token of
        Inl e \<Rightarrow> Inl e
      | Inr items \<Rightarrow>
          if 1 < length items then
            and_then (collect_results (parse_json_path_bracket_token env) items) (\<lambda>segs. Inr (UnionSeg segs))
          else bracket_item env token)"
  by pat_completeness auto
termination
proof (relation "measure (\<lambda>(env, t). length t)", simp)
  fix env :: json_env and token0 token items x
  assume "token = trim token0" "split_json_path_union_items token = Inr items" "1 < length items" "x \<in> set items"
  then show "((env, x), env, token0) \<in> measure (\<lambda>(env, t). length t)"
    using split_union_items_shorter[of token items x] length_trim[of token0] by simp
qed

declare parse_json_path_bracket_token.simps [simp del]

definition parse_json_path_bracket :: "json_env \<Rightarrow> ustr \<Rightarrow> (segment \<times> ustr) parsed" where
  \<comment> \<open>on the text behind \<open>[\<close>; an empty one is unterminated, as it is for the scan\<close>
  "parse_json_path_bracket env cs = and_then (bracket_token Plain 0 [] cs) (\<lambda>(token, rest).
     and_then (parse_json_path_bracket_token env (trim token)) (\<lambda>s. Inr (s, rest)))"

definition parse_recursive_descent :: "json_env \<Rightarrow> ustr \<Rightarrow> (segment \<times> ustr) parsed" where
  \<comment> \<open>on the text behind the two dots\<close>
  "parse_recursive_descent env cs = (case cs of
       [] \<Rightarrow> syntax_error (lit ''segment expected after `..`'')
     | c # rest \<Rightarrow>
         if c = 42 then Inr (DescentSeg WildcardSeg, rest)
         else if c = 91 then
           and_then (parse_json_path_bracket env rest) (\<lambda>(s, rest'). Inr (DescentSeg s, rest'))
         else if c = 46 then syntax_error (lit ''field name expected after `..`'')
         else Inr (DescentSeg (FieldSeg (takeWhile (\<lambda>d. d \<noteq> 46 \<and> d \<noteq> 91) cs)), dropWhile (\<lambda>d. d \<noteq> 46 \<and> d \<noteq> 91) cs))"

lemma bracket_token_shorter: "bracket_token q parens cur cs = Inr (t, rest) \<Longrightarrow> length rest < length cs"
  by (induction q parens cur cs rule: bracket_token.induct)
    (auto simp: syntax_error_def split: option.splits if_splits intro: less_SucI)

lemma parse_json_path_bracket_shorter:
  "parse_json_path_bracket env cs = Inr (s, rest) \<Longrightarrow> length rest < length cs"
  by (auto simp: parse_json_path_bracket_def and_then_eq_Inr dest: bracket_token_shorter)

lemma parse_recursive_descent_shorter:
  assumes "parse_recursive_descent env cs = Inr (s, rest)"
  shows "length rest < length cs"
proof (cases cs)
  case (Cons c t)
  then show ?thesis
    using assms parse_json_path_bracket_shorter[of env t _ rest] length_dropWhile_le[of "\<lambda>d. d \<noteq> 46 \<and> d \<noteq> 91" t]
    by (auto simp: parse_recursive_descent_def syntax_error_def and_then_eq_Inr le_imp_less_Suc less_SucI split: if_splits)
qed (use assms in \<open>simp add: parse_recursive_descent_def syntax_error_def\<close>)

subsection \<open>Function arguments\<close>

fun function_args :: "ustr \<Rightarrow> quote_state \<Rightarrow> nat \<times> nat \<Rightarrow> ustr \<Rightarrow> ustr \<Rightarrow> ustr list parsed" where
  \<comment> \<open>the loop of \<open>split_json_path_function_arguments\<close> at (brace depth, bracket depth)\<close>
  "function_args args q (braces, brackets) cur [] =
     (if q \<noteq> Plain then quoting ''unterminated quoted JSONPath function argument in '' args
      else if braces \<noteq> 0 \<or> brackets \<noteq> 0 then quoting ''unterminated JSONPath function argument delimiter in '' args
      else if trim cur = [] then quoting ''empty JSONPath function argument in '' args
      else Inr [trim cur])"
| "function_args args q (braces, brackets) cur (c # cs) = (case quote_step q c of
       Some r \<Rightarrow> function_args args r (braces, brackets) (cur @ [c]) cs
     | None \<Rightarrow>
         if c = 123 then function_args args q (braces + 1, brackets) (cur @ [c]) cs
         else if c = 125 then
           (if braces = 0 then quoting ''unmatched JSONPath function argument delimiter in '' args
            else function_args args q (braces - 1, brackets) (cur @ [c]) cs)
         else if c = 91 then function_args args q (braces, brackets + 1) (cur @ [c]) cs
         else if c = 93 then
           (if brackets = 0 then quoting ''unmatched JSONPath function argument delimiter in '' args
            else function_args args q (braces, brackets - 1) (cur @ [c]) cs)
         else if c = 44 \<and> braces = 0 \<and> brackets = 0 then
           (if trim cur = [] then quoting ''empty JSONPath function argument in '' args
            else and_then (function_args args q (braces, brackets) [] cs) (\<lambda>items. Inr (trim cur # items)))
         else function_args args q (braces, brackets) (cur @ [c]) cs)"

definition split_json_path_function_arguments :: "ustr \<Rightarrow> ustr list parsed" where
  "split_json_path_function_arguments args = function_args args Plain (0, 0) [] args"

interpretation function_arguments: quote_scanner "function_args args" for args
proof
  fix q r c st and cur cs :: ustr
  assume "quote_step q c = Some r"
  then show "function_args args q st cur (c # cs) = function_args args r st (cur @ [c]) cs"
    by (cases st) simp
qed

lemma function_args_length:
  "function_args args q st cur cs = Inr items \<Longrightarrow> x \<in> set items \<Longrightarrow> length x \<le> length cur + length cs"
proof (induction args q st cur cs arbitrary: items rule: function_args.induct)
  case (1 args q b k cur)
  then show ?case using length_trim[of cur] by (auto simp: quoting_def syntax_error_def split: if_splits)
next
  case (2 args q b k cur c cs)
  show ?case
  proof (cases "quote_step q c = None \<and> c = 44 \<and> b = 0 \<and> k = 0")
    case True
    then show ?thesis using 2 length_trim[of cur]
      by (fastforce simp: quoting_def syntax_error_def and_then_eq_Inr split: if_splits)
  next
    case False
    then show ?thesis using 2
      by (auto simp: quoting_def syntax_error_def split: option.splits if_splits)
  qed
qed

lemma split_function_arguments_length:
  "split_json_path_function_arguments args = Inr items \<Longrightarrow> x \<in> set items \<Longrightarrow> length x \<le> length args"
  using function_args_length[of args Plain "(0, 0)" "[]" args items x]
  by (simp add: split_json_path_function_arguments_def)

fun terminal_json_path_function :: "segment list \<Rightarrow> unit parsed" where
  \<comment> \<open>only whether it fails is used: a function must be the last segment\<close>
  "terminal_json_path_function [] = Inr ()"
| "terminal_json_path_function (s # ss) =
     (if is_function s \<and> ss \<noteq> [] then syntax_error (lit ''JSONPath functions must be terminal path segments'')
      else if is_function s then Inr () else terminal_json_path_function ss)"

definition path_argument :: "(ustr \<Rightarrow> segment list parsed) \<Rightarrow> ustr \<Rightarrow> segment list parsed" where
  "path_argument parse_path a = and_then (parse_path a) (\<lambda>segs.
     and_then (terminal_json_path_function segs) (\<lambda>_. Inr segs))"

definition parse_single_path_argument :: "(ustr \<Rightarrow> segment list parsed) \<Rightarrow> ustr \<Rightarrow> segment list parsed" where
  "parse_single_path_argument parse_path args0 =
     (let args = trim args0 in
      if args = [] then syntax_error (lit ''expected one JSONPath argument'')
      else case split_json_path_function_arguments args of
          Inl e \<Rightarrow> Inl e
        | Inr items \<Rightarrow>
            if length items \<noteq> 1 then syntax_error (lit ''expected one JSONPath argument'')
            else if \<not> starts_with (trim (hd items)) [36] then syntax_error (lit ''function argument must be a JSONPath'')
            else path_argument parse_path (trim (hd items)))"

definition parse_value_argument :: "json_env \<Rightarrow> (ustr \<Rightarrow> segment list parsed) \<Rightarrow> ustr \<Rightarrow> fn_argument parsed" where
  "parse_value_argument env parse_path a =
     (if starts_with a [36] then and_then (path_argument parse_path a) (\<lambda>segs. Inr (ArgPath segs))
      else if starts_with a [39] then and_then (parse_filter_string_literal a) (\<lambda>s. Inr (ArgValue (JStr s)))
      else (case parse_json env a of
          Inr v \<Rightarrow> Inr (ArgValue v)
        | Inl e \<Rightarrow> syntax_error (lit ''invalid JSON argument `'' @ a @ lit ''`: '' @ e)))"

definition parse_value_arguments :: "json_env \<Rightarrow> (ustr \<Rightarrow> segment list parsed) \<Rightarrow> ustr \<Rightarrow> fn_argument list parsed" where
  "parse_value_arguments env parse_path args0 =
     (let args = trim args0 in
      if args = [] then Inr []
      else case split_json_path_function_arguments args of
          Inl e \<Rightarrow> Inl e
        | Inr items \<Rightarrow> collect_results (\<lambda>a. parse_value_argument env parse_path (trim a)) items)"

definition parse_single_value_argument :: "json_env \<Rightarrow> (ustr \<Rightarrow> segment list parsed) \<Rightarrow> ustr \<Rightarrow> fn_argument parsed" where
  "parse_single_value_argument env parse_path args =
     and_then (parse_value_arguments env parse_path args) (\<lambda>items.
       if length items \<noteq> 1 then syntax_error (lit ''expected one JSONPath function argument'') else Inr (hd items))"

lemma path_argument_cong: "parse_path a = parse_path' a \<Longrightarrow> path_argument parse_path a = path_argument parse_path' a"
  by (simp add: path_argument_def)

lemma parse_single_path_argument_cong:
  assumes "\<And>p. length p \<le> length args \<Longrightarrow> f p = g p"
  shows "parse_single_path_argument f args = parse_single_path_argument g args"
proof (cases "split_json_path_function_arguments (trim args)")
  case (Inr items)
  show ?thesis
  proof (cases "length items = 1")
    case True
    then obtain i where i: "items = [i]" by (cases items) auto
    have "length (trim i) \<le> length args"
      using split_function_arguments_length[OF Inr, of i] i length_trim[of i] length_trim[of args] by simp
    then show ?thesis
      using i Inr assms by (simp add: parse_single_path_argument_def Let_def path_argument_def)
  qed (simp add: parse_single_path_argument_def Let_def Inr)
qed (simp add: parse_single_path_argument_def Let_def)

lemma parse_value_arguments_cong:
  assumes "\<And>p. length p \<le> length args \<Longrightarrow> f p = g p"
  shows "parse_value_arguments env f args = parse_value_arguments env g args"
proof (cases "split_json_path_function_arguments (trim args)")
  case (Inr items)
  have "parse_value_argument env f (trim i) = parse_value_argument env g (trim i)" if "i \<in> set items" for i
  proof -
    have "length (trim i) \<le> length args"
      using split_function_arguments_length[OF Inr that] length_trim[of i] length_trim[of args] by simp
    then show ?thesis using assms by (simp add: parse_value_argument_def path_argument_def)
  qed
  then have "collect_results (\<lambda>a. parse_value_argument env f (trim a)) items =
      collect_results (\<lambda>a. parse_value_argument env g (trim a)) items"
    by (intro collect_results_cong refl)
  then show ?thesis using Inr by (simp add: parse_value_arguments_def Let_def)
qed (simp add: parse_value_arguments_def Let_def)

subsection \<open>Dot tokens\<close>

definition dot_depths :: "nat \<times> nat \<times> nat \<Rightarrow> nat \<Rightarrow> (nat \<times> nat \<times> nat) parsed" where
  \<comment> \<open>the depths of parentheses, braces and brackets after one character of the token\<close>
  "dot_depths st c = (case st of (parens, braces, brackets) \<Rightarrow>
     if c = 40 then Inr (parens + 1, braces, brackets)
     else if c = 41 then
       (if parens = 0 then syntax_error (lit ''unmatched `)` in JSONPath dot token'')
        else Inr (parens - 1, braces, brackets))
     else if c = 123 \<and> 0 < parens then Inr (parens, braces + 1, brackets)
     else if c = 125 \<and> 0 < parens then
       (if braces = 0 then syntax_error (lit ''unmatched `}` in JSONPath dot token'')
        else Inr (parens, braces - 1, brackets))
     else if c = 91 \<and> 0 < parens then Inr (parens, braces, brackets + 1)
     else if c = 93 \<and> 0 < parens then
       (if brackets = 0 then syntax_error (lit ''unmatched `]` in JSONPath dot token'')
        else Inr (parens, braces, brackets - 1))
     else Inr st)"

fun dot_token_end :: "quote_state \<Rightarrow> nat \<times> nat \<times> nat \<Rightarrow> ustr \<Rightarrow> ustr \<Rightarrow> (ustr \<times> ustr) parsed" where
  \<comment> \<open>\<open>json_path_dot_token_end\<close>: the token and what follows\<close>
  "dot_token_end q st cur [] =
     (if q \<noteq> Plain \<or> st \<noteq> (0, 0, 0) then syntax_error (lit ''unterminated JSONPath dot token'') else Inr (cur, []))"
| "dot_token_end q st cur (c # cs) = (case quote_step q c of
       Some r \<Rightarrow> dot_token_end r st (cur @ [c]) cs
     | None \<Rightarrow>
         if (c = 46 \<or> c = 91) \<and> st = (0, 0, 0) then Inr (cur, c # cs)
         else (case dot_depths st c of
             Inl e \<Rightarrow> Inl e
           | Inr st' \<Rightarrow> dot_token_end q st' (cur @ [c]) cs))"

interpretation dot_tokens: quote_scanner dot_token_end
  by unfold_locales simp

lemma dot_token_end_length:
  "dot_token_end q st cur cs = Inr (t, rest) \<Longrightarrow> length t + length rest = length cur + length cs"
  by (induction q st cur cs rule: dot_token_end.induct)
    (auto simp: syntax_error_def split: option.splits if_splits sum.splits)

definition function_token_args :: "string \<Rightarrow> ustr \<Rightarrow> ustr option" where
  \<comment> \<open>the trimmed text between the parentheses of \<open>name(...)\<close>\<close>
  "function_token_args name token =
     (let p = lit name @ [40] in
      if starts_with token p \<and> ends_with token [41]
      then Some (trim (butlast (drop (length p) token))) else None)"

definition argument_error :: "string \<Rightarrow> string \<Rightarrow> ustr \<Rightarrow> 'a parsed \<Rightarrow> 'a parsed" where
  "argument_error name what args = map_syntax (\<lambda>e.
     lit ''invalid JSONPath '' @ lit name @ lit ''() '' @ lit what @ lit '' `'' @ args @ lit ''`: '' @ e)"

definition plain_functions :: "(ustr \<times> path_function) list" where
  "plain_functions = [(lit ''length()'', FnLength None), (lit ''first()'', FnFirst), (lit ''last()'', FnLast),
     (lit ''sum()'', FnSum []), (lit ''min()'', FnMin []), (lit ''max()'', FnMax []), (lit ''avg()'', FnAvg []),
     (lit ''stddev()'', FnStdDev []), (lit ''keys()'', FnKeys), (lit ''values()'', FnValues),
     (lit ''size()'', FnLength None)]"

definition list_functions :: "(string \<times> (fn_argument list \<Rightarrow> path_function)) list" where
  "list_functions = [(''concat'', FnConcat), (''append'', FnAppend), (''sum'', FnSum), (''min'', FnMin),
     (''max'', FnMax), (''avg'', FnAvg), (''stddev'', FnStdDev)]"

fun first_function :: "ustr \<Rightarrow> (string \<times> 'f) list \<Rightarrow> (string \<times> 'f \<times> ustr) option" where
  \<comment> \<open>the first arm of the \<open>match\<close> whose name the token has, with its arguments\<close>
  "first_function token [] = None"
| "first_function token ((name, f) # fs) = (case function_token_args name token of
       Some args \<Rightarrow> Some (name, f, args) | None \<Rightarrow> first_function token fs)"

definition parse_json_path_dot_token ::
    "json_env \<Rightarrow> (ustr \<Rightarrow> segment list parsed) \<Rightarrow> ustr \<Rightarrow> segment parsed" where
  "parse_json_path_dot_token env parse_path token = (case map_of plain_functions token of
       Some fn \<Rightarrow> Inr (FunctionSeg fn)
     | None \<Rightarrow> (case first_function token [(''length'', ()), (''size'', ())] of
       Some (name, _, args) \<Rightarrow> and_then (argument_error name ''arguments'' args (parse_single_path_argument parse_path args))
         (\<lambda>segs. Inr (FunctionSeg (FnLength (Some segs))))
     | None \<Rightarrow> (case first_function token list_functions of
       Some (name, fn, args) \<Rightarrow> and_then (argument_error name ''arguments'' args (parse_value_arguments env parse_path args))
         (\<lambda>as. Inr (FunctionSeg (fn as)))
     | None \<Rightarrow> (case function_token_args ''index'' token of
       Some args \<Rightarrow> and_then (argument_error ''index'' ''argument'' args (parse_single_value_argument env parse_path args))
         (\<lambda>a. Inr (FunctionSeg (FnIndex a)))
     | None \<Rightarrow>
         if 40 \<in> set token \<and> ends_with token [41] then quoting ''unsupported JSONPath function '' token
         else Inr (FieldSeg token)))))"

lemma function_token_args_shorter: "function_token_args name token = Some args \<Longrightarrow> length args < length token"
proof -
  assume a: "function_token_args name token = Some args"
  define d where "d = butlast (drop (Suc (length name)) token)"
  have "args = trim d" "token \<noteq> []"
    using a by (auto simp: function_token_args_def Let_def lit_def d_def starts_with_iff split: if_splits)
  moreover have "length (trim d) \<le> length d" by (rule length_trim)
  moreover have "length d < length token \<or> token = []" by (cases token) (auto simp: d_def)
  ultimately show ?thesis by simp
qed

lemma first_function_shorter: "first_function token fs = Some (name, f, args) \<Longrightarrow> length args < length token"
  by (induction token fs rule: first_function.induct)
    (auto dest: function_token_args_shorter split: option.splits)

lemma parse_json_path_dot_token_cong [fundef_cong]:
  assumes "token = token'" "\<And>p. length p < length token' \<Longrightarrow> f p = g p"
  shows "parse_json_path_dot_token env f token = parse_json_path_dot_token env g token'"
proof -
  have a: "f p = g p" if "length args < length token" "length p \<le> length args" for p args :: ustr
    using assms that by simp
  have one: "parse_single_path_argument f args = parse_single_path_argument g args"
      "parse_value_arguments env f args = parse_value_arguments env g args" if "length args < length token" for args
    using parse_single_path_argument_cong[of args f g] parse_value_arguments_cong[of args f g env] a[OF that] by auto
  show ?thesis
    unfolding parse_json_path_dot_token_def parse_single_value_argument_def assms(1)[symmetric]
    by (auto split: option.split prod.split simp: one dest: first_function_shorter function_token_args_shorter)
qed

subsection \<open>Paths\<close>

function parse_segments :: "json_env \<Rightarrow> ustr \<Rightarrow> segment list parsed" where
  \<comment> \<open>the loop of \<open>parse_json_path\<close>\<close>
  "parse_segments env cs = (case cs of
       [] \<Rightarrow> Inr []
     | c # rest \<Rightarrow>
         if c = 46 then
           (case rest of
              [] \<Rightarrow> syntax_error (lit ''field name expected after `.`'')
            | d # rest' \<Rightarrow>
                if d = 46 then
                  (case parse_recursive_descent env rest' of
                     Inl e \<Rightarrow> Inl e
                   | Inr (s, rest2) \<Rightarrow> and_then (parse_segments env rest2) (\<lambda>ss. Inr (s # ss)))
                else if d = 42 then and_then (parse_segments env rest') (\<lambda>ss. Inr (WildcardSeg # ss))
                else if d = 91 then
                  (case parse_json_path_bracket env rest' of
                     Inl e \<Rightarrow> Inl e
                   | Inr (s, rest2) \<Rightarrow> and_then (parse_segments env rest2) (\<lambda>ss. Inr (s # ss)))
                else
                  (case dot_token_end Plain (0, 0, 0) [] rest of
                     Inl e \<Rightarrow> Inl e
                   | Inr (token, rest2) \<Rightarrow>
                       if token = [] then syntax_error (lit ''field name expected after `.`'')
                       else and_then (parse_json_path_dot_token env
                           (\<lambda>p. if starts_with p [36] then parse_segments env (tl p)
                                else syntax_error (lit ''path must start with `$`'')) token)
                         (\<lambda>s. and_then (parse_segments env rest2) (\<lambda>ss. Inr (s # ss)))))
         else if c = 91 then
           (case parse_json_path_bracket env rest of
              Inl e \<Rightarrow> Inl e
            | Inr (s, rest2) \<Rightarrow> and_then (parse_segments env rest2) (\<lambda>ss. Inr (s # ss)))
         else syntax_error (lit ''expected `.` or `[` at `'' @ [c] @ lit ''`''))"
  by pat_completeness auto
termination
  by (relation "measure (\<lambda>(env, cs). length cs)")
    (auto dest!: parse_recursive_descent_shorter parse_json_path_bracket_shorter dot_token_end_length
      simp del: dot_token_end.simps)

declare parse_segments.simps [simp del]

definition parse_json_path :: "json_env \<Rightarrow> ustr \<Rightarrow> segment list parsed" where
  "parse_json_path env path = (if starts_with path [36] then parse_segments env (tl path)
     else syntax_error (lit ''path must start with `$`''))"

end
