(* ===== verification/JsonPathEval.thy ===== *)
theory JsonPathEval
  imports JsonPath
begin

text \<open>
  Evaluation of parsed JSONPath rules (\<open>evaluate_json_path\<close>, \<open>apply_json_path_segment\<close>,
  \<open>evaluate_json_path_with_functions\<close> and the functions). A result \<open>None\<close> means that the code
  delivers no value: the slice loop left the range of \<open>isize\<close> (a panic with overflow checks) or
  runs forever (step 0, which the parser refuses).
\<close>

subsection \<open>Slices\<close>

definition resolve_slice_bounds :: "int option \<Rightarrow> int option \<Rightarrow> int \<Rightarrow> int \<Rightarrow> int \<times> int" where
  "resolve_slice_bounds start_opt end_opt step len =
     (if 0 < step then
        let s = (case start_opt of None \<Rightarrow> 0 | Some v \<Rightarrow> v);
            e = (case end_opt of None \<Rightarrow> len | Some v \<Rightarrow> v)
        in (if s < 0 then max (len + s) 0 else min s len, if e < 0 then max (len + e) 0 else min e len)
      else
        let s = (case start_opt of None \<Rightarrow> len - 1 | Some v \<Rightarrow> v);
            e = (case end_opt of None \<Rightarrow> - 1 | Some v \<Rightarrow> v)
        in (if s < 0 then max (len + s) (- 1) else min s (len - 1),
            if e < 0 then max (len + e) (- 1) else min e (len - 1)))"

definition slice_item :: "'a list \<Rightarrow> int \<Rightarrow> 'a list" where
  \<comment> \<open>the item pushed for one index, if it is in the array\<close>
  "slice_item vs i = (if 0 \<le> i \<and> i < int (length vs) then [vs ! nat i] else [])"

partial_function (option) slice_loop :: "'a list \<Rightarrow> int \<Rightarrow> int \<Rightarrow> int \<Rightarrow> 'a list option" where
  \<comment> \<open>\<open>while index < end\<close> or, for a negative step, \<open>while index > end\<close>; \<open>index += step\<close> is checked\<close>
  "slice_loop vs step e i =
     (if (if 0 < step then i < e else e < i) then
        if isize_max < i + step then None
        else Option.bind (slice_loop vs step e (i + step)) (\<lambda>rest. Some (slice_item vs i @ rest))
      else Some [])"

definition slice_values :: "path_slice \<Rightarrow> 'a list \<Rightarrow> 'a list option" where
  "slice_values sl vs =
     (let len = int (length vs);
          step = (case sl_step sl of None \<Rightarrow> 1 | Some v \<Rightarrow> v);
          (s, e) = resolve_slice_bounds (sl_start sl) (sl_end sl) step len
      in slice_loop vs step e s)"

subsection \<open>Segments\<close>

fun descendants :: "json \<Rightarrow> json list" where
  \<comment> \<open>\<open>collect_json_descendants\<close>: the value, then what its children collect\<close>
  "descendants (JArr vs) = JArr vs # concat (map descendants vs)"
| "descendants (JObj ms) = JObj ms # concat (map (\<lambda>m. descendants (snd m)) ms)"
| "descendants v = [v]"

fun concat_opt :: "('a \<Rightarrow> 'b list option) \<Rightarrow> 'a list \<Rightarrow> 'b list option" where
  \<comment> \<open>a loop that appends what each element yields to its output\<close>
  "concat_opt f [] = Some []"
| "concat_opt f (x # xs) = (case f x of None \<Rightarrow> None
     | Some ys \<Rightarrow> (case concat_opt f xs of None \<Rightarrow> None | Some zs \<Rightarrow> Some (ys @ zs)))"

lemma concat_opt_cong [fundef_cong]:
  "xs = ys \<Longrightarrow> (\<And>x. x \<in> set ys \<Longrightarrow> f x = g x) \<Longrightarrow> concat_opt f xs = concat_opt g ys"
  by (induction xs arbitrary: ys) (auto split: option.split)

fun apply_segment :: "json_env \<Rightarrow> segment \<Rightarrow> json \<Rightarrow> json list option" where
  "apply_segment env (FieldSeg f) v = Some (case v of
       JObj ms \<Rightarrow> (case map_of ms f of None \<Rightarrow> [] | Some w \<Rightarrow> [w])
     | _ \<Rightarrow> [])"
| "apply_segment env (IndexSeg i) v = Some (case v of
       JArr vs \<Rightarrow> (if i < length vs then [vs ! i] else [])
     | _ \<Rightarrow> [])"
| "apply_segment env (FromEndSeg k) v = Some (case v of
       JArr vs \<Rightarrow> (if k \<le> length vs \<and> length vs - k < length vs then [vs ! (length vs - k)] else [])
     | _ \<Rightarrow> [])"
| "apply_segment env WildcardSeg v = Some (case v of
       JArr vs \<Rightarrow> vs | JObj ms \<Rightarrow> map snd ms | _ \<Rightarrow> [])"
| "apply_segment env (DescentSeg inner) v = concat_opt (\<lambda>d. apply_segment env inner d) (descendants v)"
| "apply_segment env (UnionSeg segs) v = concat_opt (\<lambda>s. apply_segment env s v) segs"
| "apply_segment env (SliceSeg sl) v = (case v of JArr vs \<Rightarrow> slice_values sl vs | _ \<Rightarrow> Some [])"
| "apply_segment env (FilterSeg f) v = Some (case v of
       JArr vs \<Rightarrow> filter (\<lambda>item. filter_matches env item f) vs
     | _ \<Rightarrow> [])"
| "apply_segment env (FunctionSeg fn) v = Some []"

fun evaluate_from :: "json_env \<Rightarrow> segment list \<Rightarrow> json list \<Rightarrow> json list option" where
  \<comment> \<open>the loop of \<open>evaluate_json_path\<close> over the segments, which stops at an empty selection\<close>
  "evaluate_from env [] current = Some current"
| "evaluate_from env (s # ss) current = (case concat_opt (apply_segment env s) current of
       None \<Rightarrow> None
     | Some selected \<Rightarrow> if selected = [] then Some [] else evaluate_from env ss selected)"

definition evaluate_json_path :: "json_env \<Rightarrow> json \<Rightarrow> segment list \<Rightarrow> json list option" where
  "evaluate_json_path env doc segs = evaluate_from env segs [doc]"

subsection \<open>Function values\<close>

definition json_nat :: "nat \<Rightarrow> json" where
  \<comment> \<open>\<open>Number::from(n as u64)\<close>\<close>
  "json_nat n = JNum (PosInt (of_nat n))"

fun length_value :: "json \<Rightarrow> json option" where
  "length_value (JArr vs) = Some (json_nat (length vs))"
| "length_value (JObj ms) = Some (json_nat (length ms))"
| "length_value (JStr s) = Some (json_nat (length s))"
| "length_value v = None"

definition length_of_selection :: "json list \<Rightarrow> json option" where
  \<comment> \<open>\<open>json_path_length_argument_value\<close> on the values its path selects\<close>
  "length_of_selection vs = (case vs of [v] \<Rightarrow> length_value v | _ \<Rightarrow> Some (json_nat (length vs)))"

fun first_value :: "json \<Rightarrow> json option" where
  "first_value (JArr (v # vs)) = Some v"
| "first_value v = None"

fun last_value :: "json \<Rightarrow> json option" where
  "last_value (JArr vs) = (if vs = [] then None else Some (last vs))"
| "last_value v = None"

definition filter_map_opt :: "('a \<Rightarrow> 'b option) \<Rightarrow> 'a list \<Rightarrow> 'b list" where
  \<comment> \<open>\<open>Iterator::filter_map\<close>\<close>
  "filter_map_opt f xs = map the (filter (\<lambda>y. y \<noteq> None) (map f xs))"

fun json_value_to_rule_text :: "json_env \<Rightarrow> json \<Rightarrow> ustr" where
  "json_value_to_rule_text env (JStr s) = s"
| "json_value_to_rule_text env (JNum n) = number_text env n"
| "json_value_to_rule_text env (JBool b) = (if b then lit ''true'' else lit ''false'')"
| "json_value_to_rule_text env JNull = lit ''null''"
| "json_value_to_rule_text env v = json_text env v"

fun argument_first_number :: "json \<Rightarrow> json_number option" where
  "argument_first_number (JNum n) = Some n"
| "argument_first_number (JArr []) = None"
| "argument_first_number (JArr (JNum n # vs)) = Some n"
| "argument_first_number (JArr (v # vs)) = argument_first_number (JArr vs)"
| "argument_first_number v = None"

fun json_number_as_i64 :: "json_number \<Rightarrow> int option" where
  "json_number_as_i64 (PosInt n) = (if int (unat n) \<le> isize_max then Some (int (unat n)) else None)"
| "json_number_as_i64 (NegInt i) = Some i"
| "json_number_as_i64 (Float v) = None"

definition json_number_to_isize :: "json_env \<Rightarrow> json_number \<Rightarrow> int option" where
  \<comment> \<open>\<open>isize::MAX as f64\<close> is \<open>2 ^ 63\<close>, and \<open>as isize\<close> saturates\<close>
  "json_number_to_isize env n = (case json_number_as_i64 n of Some i \<Rightarrow> Some i
     | None \<Rightarrow> (case number_f64 env n of
           F64 q \<Rightarrow> if of_int \<lfloor>q\<rfloor> = q \<and> - (2 ^ 63) \<le> q \<and> q \<le> 2 ^ 63 then Some (min \<lfloor>q\<rfloor> isize_max) else None
         | _ \<Rightarrow> None))"

definition resolve_function_index :: "int \<Rightarrow> nat \<Rightarrow> nat option" where
  "resolve_function_index i len =
     (if 0 \<le> i then (if nat i < len then Some (nat i) else None)
      else if i = - isize_max - 1 then None
      else if nat (- i) \<le> len then Some (len - nat (- i)) else None)"

fun index_value :: "int \<Rightarrow> json \<Rightarrow> json option" where
  "index_value i (JArr vs) = (case resolve_function_index i (length vs) of
       None \<Rightarrow> None | Some k \<Rightarrow> if k < length vs then Some (vs ! k) else None)"
| "index_value i v = None"

fun keys_values :: "json \<Rightarrow> json list" where
  \<comment> \<open>\<open>json_path_keys_function_values\<close> on one input; a key list from the map is sorted already\<close>
  "keys_values (JObj ms) = map (\<lambda>m. JStr (fst m)) ms"
| "keys_values v = []"

fun values_values :: "json \<Rightarrow> json list" where
  "values_values (JArr vs) = vs"
| "values_values (JObj ms) = filter_map_opt (\<lambda>m. map_of ms (fst m)) ms"
| "values_values v = []"

fun concat_strings :: "json \<Rightarrow> ustr" where
  \<comment> \<open>the strings among the items of one input of \<open>concat\<close>\<close>
  "concat_strings (JArr vs) = concat (map (\<lambda>v. case v of JStr s \<Rightarrow> s | _ \<Rightarrow> []) vs)"
| "concat_strings v = []"

fun argument_string_value :: "json_env \<Rightarrow> json \<Rightarrow> ustr option" where
  "argument_string_value env JNull = None"
| "argument_string_value env (JStr s) = Some s"
| "argument_string_value env v = Some (json_value_to_rule_text env v)"

fun argument_string_values :: "json_env \<Rightarrow> json \<Rightarrow> ustr list" where
  "argument_string_values env (JArr vs) = filter_map_opt (argument_string_value env) vs"
| "argument_string_values env v = (case argument_string_value env v of None \<Rightarrow> [] | Some s \<Rightarrow> [s])"

definition concat_value :: "json_env \<Rightarrow> json list \<Rightarrow> json list \<Rightarrow> json" where
  "concat_value env input args = JStr (concat (map concat_strings input) @
     concat (map (\<lambda>a. concat (argument_string_values env a)) args))"

fun append_value :: "json list \<Rightarrow> json \<Rightarrow> json option" where
  "append_value args (JArr vs) = Some (JArr (vs @ args))"
| "append_value args v = None"

subsection \<open>Numeric functions\<close>

fun all_some :: "'a option list \<Rightarrow> 'a list option" where
  \<comment> \<open>\<open>collect\<close> into an \<open>Option\<close>\<close>
  "all_some [] = Some []"
| "all_some (None # xs) = None"
| "all_some (Some x # xs) = (case all_some xs of None \<Rightarrow> None | Some ys \<Rightarrow> Some (x # ys))"

fun numeric_input :: "json_env \<Rightarrow> json list \<Rightarrow> f64 list option" where
  "numeric_input env [JArr vs] = all_some (map (json_f64 env) vs)"
| "numeric_input env input = all_some (map (json_f64 env) input)"

fun numeric_argument :: "json_env \<Rightarrow> json \<Rightarrow> f64 list" where
  "numeric_argument env (JArr vs) = filter_map_opt (json_f64 env) vs"
| "numeric_argument env v = (case json_f64 env v of None \<Rightarrow> [] | Some n \<Rightarrow> [n])"

definition numeric_values :: "json_env \<Rightarrow> json list \<Rightarrow> json list \<Rightarrow> f64 list option" where
  \<comment> \<open>\<open>collect_json_path_numeric_function_values\<close> with the values of its arguments\<close>
  "numeric_values env input args = (case numeric_input env input of None \<Rightarrow> None
     | Some ns \<Rightarrow> Some (ns @ concat (map (numeric_argument env) args)))"

definition f64_sum :: "json_env \<Rightarrow> f64 list \<Rightarrow> f64" where
  "f64_sum env ns = foldl (f64_add env) (F64 0) ns"

definition f64_min :: "f64 \<Rightarrow> f64 \<Rightarrow> f64" where
  \<comment> \<open>\<open>f64::min\<close>: the other value when one is NaN\<close>
  "f64_min a b = (if a = F64_nan then b else if b = F64_nan then a else if f64_less b a then b else a)"

definition f64_max :: "f64 \<Rightarrow> f64 \<Rightarrow> f64" where
  "f64_max a b = (if a = F64_nan then b else if b = F64_nan then a else if f64_less a b then b else a)"

fun reduce :: "('a \<Rightarrow> 'a \<Rightarrow> 'a) \<Rightarrow> 'a list \<Rightarrow> 'a option" where
  "reduce f [] = None"
| "reduce f (x # xs) = Some (foldl f x xs)"

definition number_result :: "json_env \<Rightarrow> f64 \<Rightarrow> json list" where
  \<comment> \<open>\<open>Number::from_f64(v).map(JsonValue::Number).into_iter().collect()\<close>\<close>
  "number_result env v = (case f64_number env v of None \<Rightarrow> [] | Some n \<Rightarrow> [JNum n])"

definition avg_of :: "json_env \<Rightarrow> f64 list \<Rightarrow> f64" where
  "avg_of env ns = f64_div env (f64_sum env ns) (f64_of_nat env (length ns))"

definition stddev_of :: "json_env \<Rightarrow> f64 list \<Rightarrow> f64" where
  "stddev_of env ns =
     (let count = f64_of_nat env (length ns); total = f64_sum env ns;
          squares = f64_sum env (map (\<lambda>v. f64_mul env v v) ns)
      in f64_sqrt env (f64_sub env (f64_div env squares count)
           (f64_div env (f64_div env (f64_mul env total total) count) count)))"

definition sum_values :: "json_env \<Rightarrow> json list \<Rightarrow> json list \<Rightarrow> json list" where
  "sum_values env input args = (case numeric_values env input args of None \<Rightarrow> []
     | Some ns \<Rightarrow> number_result env (f64_sum env ns))"

definition min_values :: "json_env \<Rightarrow> json list \<Rightarrow> json list \<Rightarrow> json list" where
  "min_values env input args = (case numeric_values env input args of None \<Rightarrow> []
     | Some ns \<Rightarrow> (case reduce f64_min ns of None \<Rightarrow> [] | Some m \<Rightarrow> number_result env m))"

definition max_values :: "json_env \<Rightarrow> json list \<Rightarrow> json list \<Rightarrow> json list" where
  "max_values env input args = (case numeric_values env input args of None \<Rightarrow> []
     | Some ns \<Rightarrow> (case reduce f64_max ns of None \<Rightarrow> [] | Some m \<Rightarrow> number_result env m))"

definition avg_values :: "json_env \<Rightarrow> json list \<Rightarrow> json list \<Rightarrow> json list" where
  "avg_values env input args = (case numeric_values env input args of None \<Rightarrow> []
     | Some ns \<Rightarrow> if ns = [] then [] else number_result env (avg_of env ns))"

definition stddev_values :: "json_env \<Rightarrow> json list \<Rightarrow> json list \<Rightarrow> json list" where
  "stddev_values env input args = (case numeric_values env input args of None \<Rightarrow> []
     | Some ns \<Rightarrow> if ns = [] then [] else number_result env (stddev_of env ns))"

subsection \<open>Evaluation with functions\<close>

fun map_opt :: "('a \<Rightarrow> 'b option) \<Rightarrow> 'a list \<Rightarrow> 'b list option" where
  "map_opt f [] = Some []"
| "map_opt f (x # xs) = (case f x of None \<Rightarrow> None
     | Some y \<Rightarrow> (case map_opt f xs of None \<Rightarrow> None | Some ys \<Rightarrow> Some (y # ys)))"

lemma map_opt_cong [fundef_cong]:
  "xs = ys \<Longrightarrow> (\<And>x. x \<in> set ys \<Longrightarrow> f x = g x) \<Longrightarrow> map_opt f xs = map_opt g ys"
  by (induction xs arbitrary: ys) (auto split: option.split)

definition single_or_array :: "json list \<Rightarrow> json" where
  "single_or_array vs = (case vs of [v] \<Rightarrow> v | _ \<Rightarrow> JArr vs)"

function (sequential) functions_from :: "json_env \<Rightarrow> json \<Rightarrow> segment list \<Rightarrow> json list \<Rightarrow> json list option"
  and apply_function :: "json_env \<Rightarrow> json \<Rightarrow> path_function \<Rightarrow> json list \<Rightarrow> json list option"
  and argument_value :: "json_env \<Rightarrow> json \<Rightarrow> fn_argument \<Rightarrow> json option" where
  \<comment> \<open>\<open>evaluate_json_path_with_functions\<close>, \<open>apply_json_path_function\<close> and
      \<open>json_path_function_argument_value\<close>\<close>
  "functions_from env doc [] current = Some current"
| "functions_from env doc (FunctionSeg fn # ss) current =
     (case apply_function env doc fn current of None \<Rightarrow> None
      | Some vs \<Rightarrow> functions_from env doc ss vs)"
| "functions_from env doc (s # ss) current =
     (case concat_opt (apply_segment env s) current of None \<Rightarrow> None
      | Some vs \<Rightarrow> functions_from env doc ss vs)"
| "apply_function env doc (FnLength (Some segs)) input =
     map_option (filter_map_opt length_of_selection)
       (map_opt (\<lambda>v. if contains_function segs then functions_from env v segs [v]
                     else evaluate_json_path env v segs) input)"
| "apply_function env doc (FnLength None) input = Some (filter_map_opt length_value input)"
| "apply_function env doc FnFirst input = Some (filter_map_opt first_value input)"
| "apply_function env doc FnLast input = Some (filter_map_opt last_value input)"
| "apply_function env doc (FnIndex a) input =
     (case argument_value env doc a of None \<Rightarrow> None
      | Some v \<Rightarrow> Some (case Option.bind (argument_first_number v) (json_number_to_isize env) of
            None \<Rightarrow> [] | Some i \<Rightarrow> filter_map_opt (index_value i) input))"
| "apply_function env doc (FnSum as) input =
     (case numeric_input env input of None \<Rightarrow> Some []
      | Some _ \<Rightarrow> map_option (sum_values env input) (map_opt (\<lambda>a. argument_value env doc a) as))"
| "apply_function env doc (FnMin as) input =
     (case numeric_input env input of None \<Rightarrow> Some []
      | Some _ \<Rightarrow> map_option (min_values env input) (map_opt (\<lambda>a. argument_value env doc a) as))"
| "apply_function env doc (FnMax as) input =
     (case numeric_input env input of None \<Rightarrow> Some []
      | Some _ \<Rightarrow> map_option (max_values env input) (map_opt (\<lambda>a. argument_value env doc a) as))"
| "apply_function env doc (FnAvg as) input =
     (case numeric_input env input of None \<Rightarrow> Some []
      | Some _ \<Rightarrow> map_option (avg_values env input) (map_opt (\<lambda>a. argument_value env doc a) as))"
| "apply_function env doc (FnStdDev as) input =
     (case numeric_input env input of None \<Rightarrow> Some []
      | Some _ \<Rightarrow> map_option (stddev_values env input) (map_opt (\<lambda>a. argument_value env doc a) as))"
| "apply_function env doc FnKeys input = Some (concat (map keys_values input))"
| "apply_function env doc FnValues input = Some (concat (map values_values input))"
| "apply_function env doc (FnConcat as) input =
     map_option (\<lambda>args. [concat_value env input args]) (map_opt (\<lambda>a. argument_value env doc a) as)"
| "apply_function env doc (FnAppend as) input =
     map_option (\<lambda>args. filter_map_opt (append_value args) input)
       (map_opt (\<lambda>a. argument_value env doc a) as)"
| "argument_value env doc (ArgValue v) = Some v"
| "argument_value env doc (ArgPath segs) =
     map_option single_or_array
       (if contains_function segs then functions_from env doc segs [doc]
        else evaluate_json_path env doc segs)"
  by pat_completeness auto
termination
  by (relation "measure (\<lambda>x. case x of
       Inl (env, doc, segs, current) \<Rightarrow> size_list size segs
     | Inr (Inl (env, doc, fn, input)) \<Rightarrow> size fn
     | Inr (Inr (env, doc, a)) \<Rightarrow> size a)")
    (auto simp: less_Suc_eq_le dest: size_list_estimation' intro: le_SucI)

definition evaluate_json_path_with_functions :: "json_env \<Rightarrow> json \<Rightarrow> segment list \<Rightarrow> json list option" where
  "evaluate_json_path_with_functions env doc segs = functions_from env doc segs [doc]"

definition evaluate_terminal :: "json_env \<Rightarrow> json \<Rightarrow> segment list \<Rightarrow> json list option" where
  \<comment> \<open>\<open>evaluate_json_path_with_terminal_function\<close>\<close>
  "evaluate_terminal env doc segs = (if contains_function segs
     then evaluate_json_path_with_functions env doc segs else evaluate_json_path env doc segs)"

end
