(* ===== verification/PathRules.thy ===== *)
theory PathRules
  imports PathParse JsonPathEval
begin

text \<open>
  A JSONPath rule as sources write it (\<open>apply_json_path\<close>): branches combined by \<open>||\<close> (the first
  that yields something), \<open>%%\<close> (interleaved) and \<open>&&\<close> (one after the other), and the template
  \<open>{$path}text\<close>, which appends a literal to every result.
\<close>

subsection \<open>Combination operators\<close>

definition operator_depths :: "nat \<times> nat \<times> nat \<Rightarrow> nat \<Rightarrow> nat \<times> nat \<times> nat" where
  \<comment> \<open>the depths of brackets, parentheses and braces after one character\<close>
  "operator_depths st c = (case st of (brackets, parens, braces) \<Rightarrow>
     if c = 91 then (brackets + 1, parens, braces)
     else if c = 93 \<and> 0 < brackets then (brackets - 1, parens, braces)
     else if c = 40 then (brackets, parens + 1, braces)
     else if c = 41 \<and> 0 < parens then (brackets, parens - 1, braces)
     else if c = 123 \<and> 0 < parens then (brackets, parens, braces + 1)
     else if c = 125 \<and> 0 < braces then (brackets, parens, braces - 1)
     else st)"

fun operator_branches :: "ustr \<Rightarrow> ustr \<Rightarrow> bool \<Rightarrow> quote_state \<Rightarrow> nat \<times> nat \<times> nat \<Rightarrow> ustr \<Rightarrow> ustr \<Rightarrow>
    ustr list option parsed" where
  \<comment> \<open>the loop of \<open>split_json_path_top_level_operator\<close>; \<open>found\<close>: a branch has been pushed\<close>
  "operator_branches path operator found q st cur [] =
     (if \<not> found then Inr None
      else if q \<noteq> Plain \<or> st \<noteq> (0, 0, 0) then
        syntax_error (lit ''unterminated JSONPath `'' @ operator @ lit ''` combination branch in `'' @ path @ lit ''`'')
      else if trim cur = [] then
        syntax_error (lit ''empty JSONPath `'' @ operator @ lit ''` combination branch in `'' @ path @ lit ''`'')
      else Inr (Some [trim cur]))"
| "operator_branches path operator found q st cur (c # cs) = (case quote_step q c of
       Some r \<Rightarrow> operator_branches path operator found r st (cur @ [c]) cs
     | None \<Rightarrow>
         if starts_with (c # cs) operator \<and> st = (0, 0, 0) then
           (if trim cur = [] then
              syntax_error (lit ''empty JSONPath `'' @ operator @ lit ''` combination branch in `'' @ path @ lit ''`'')
            else and_then (operator_branches path operator True q st [] (drop (length operator - 1) cs))
              (\<lambda>branches. Inr (Some (trim cur # (case branches of None \<Rightarrow> [] | Some bs \<Rightarrow> bs)))))
         else operator_branches path operator found q (operator_depths st c) (cur @ [c]) cs)"

definition split_json_path_top_level_operator :: "ustr \<Rightarrow> ustr \<Rightarrow> ustr list option parsed" where
  "split_json_path_top_level_operator path operator =
     (if operator = [] then syntax_error (lit ''JSONPath combination operator must not be empty'')
      else operator_branches path operator False Plain (0, 0, 0) [] path)"

interpretation combinations: quote_scanner "operator_branches path operator found" for path operator found
  by unfold_locales simp

definition zip_json_path_combination_results :: "'a list list \<Rightarrow> 'a list" where
  "zip_json_path_combination_results results = (case results of
       [] \<Rightarrow> []
     | first # _ \<Rightarrow> concat (map (\<lambda>i. concat (map (\<lambda>r. if i < length r then [r ! i] else []) results)) [0..<length first]))"

subsection \<open>Templates\<close>

fun template_rest :: "bool \<Rightarrow> bool \<Rightarrow> nat \<Rightarrow> ustr \<Rightarrow> ustr \<Rightarrow> (ustr \<times> ustr) option" where
  \<comment> \<open>the loop of \<open>split_legado_template_path\<close>: the text before the matching \<open>}\<close> and behind it\<close>
  "template_rest in_double in_single depth cur [] = None"
| "template_rest in_double in_single depth cur (c # cs) =
     (if c = 34 \<and> \<not> in_single then template_rest (\<not> in_double) in_single depth (cur @ [c]) cs
      else if c = 39 \<and> \<not> in_double then template_rest in_double (\<not> in_single) depth (cur @ [c]) cs
      else if c = 123 \<and> \<not> in_double \<and> \<not> in_single then template_rest in_double in_single (depth + 1) (cur @ [c]) cs
      else if c = 125 \<and> \<not> in_double \<and> \<not> in_single then
        (if depth - 1 = 0 then Some (cur, cs) else template_rest in_double in_single (depth - 1) (cur @ [c]) cs)
      else template_rest in_double in_single depth (cur @ [c]) cs)"

definition split_legado_template_path :: "ustr \<Rightarrow> (ustr \<times> ustr) option" where
  "split_legado_template_path path =
     (if starts_with path [123, 36] then template_rest False False 1 [] (tl path) else None)"

subsection \<open>Rules\<close>

definition evaluate_path_text :: "json_env \<Rightarrow> json \<Rightarrow> ustr \<Rightarrow> ustr list parsed" where
  \<comment> \<open>parse a path, evaluate it with or without functions and render what it selects\<close>
  "evaluate_path_text env value path = and_then (parse_json_path env path) (\<lambda>segs.
     case evaluate_terminal env value segs of
       None \<Rightarrow> Inl PathPanic
     | Some vs \<Rightarrow> Inr (map (json_value_to_rule_text env) vs))"

definition evaluate_json_path_rule :: "json_env \<Rightarrow> json \<Rightarrow> ustr \<Rightarrow> ustr list parsed" where
  "evaluate_json_path_rule env value path = (case split_legado_template_path path of
       Some (inner, suffix) \<Rightarrow> and_then (evaluate_path_text env value inner) (\<lambda>ts. Inr (map (\<lambda>t. t @ suffix) ts))
     | None \<Rightarrow> evaluate_path_text env value path)"

fun first_nonempty :: "('a \<Rightarrow> 'e + 'b list) \<Rightarrow> 'a list \<Rightarrow> 'e + 'b list" where
  \<comment> \<open>the loop over the branches of \<open>||\<close>: later branches are not evaluated\<close>
  "first_nonempty f [] = Inr []"
| "first_nonempty f (x # xs) = and_then (f x) (\<lambda>ys. if ys \<noteq> [] then Inr ys else first_nonempty f xs)"

lemma first_nonempty_cong [fundef_cong]:
  "xs = ys \<Longrightarrow> (\<And>x. x \<in> set ys \<Longrightarrow> f x = g x) \<Longrightarrow> first_nonempty f xs = first_nonempty g ys"
proof (induction xs arbitrary: ys)
  case (Cons x xs)
  then obtain zs where ys: "ys = x # zs" "xs = zs" by auto
  have "f x = g x" using Cons.prems(2) ys by simp
  moreover have "first_nonempty f xs = first_nonempty g zs"
    by (rule Cons.IH[OF ys(2)]) (use Cons.prems(2) ys in simp)
  ultimately show ?case using ys by (cases "g x") simp_all
qed simp

definition path_or :: ustr where "path_or = lit ''||''"
definition path_zip :: ustr where "path_zip = lit ''%%''"
definition path_and :: ustr where "path_and = lit ''&&''"

lemma operator_branches_shorter:
  "operator_branches path operator found q st cur cs = Inr (Some bs) \<Longrightarrow> operator \<noteq> [] \<Longrightarrow> b \<in> set bs \<Longrightarrow>
     length b \<le> length cur + length cs \<and> (\<not> found \<longrightarrow> length b < length cur + length cs)"
proof (induction path operator found q st cur cs arbitrary: bs rule: operator_branches.induct)
  case (1 path operator found q st cur)
  then show ?case using length_trim[of cur] by (auto simp: syntax_error_def split: if_splits)
next
  case (2 path operator found q st cur c cs)
  show ?case
  proof (cases "quote_step q c = None \<and> starts_with (c # cs) operator \<and> st = (0, 0, 0)")
    case True
    then have e: "trim cur \<noteq> []" and "and_then (operator_branches path operator True q st [] (drop (length operator - 1) cs))
          (\<lambda>r. Inr (Some (trim cur # (case r of None \<Rightarrow> [] | Some bs \<Rightarrow> bs)))) = Inr (Some bs)"
      using "2.prems"(1) by (auto simp: syntax_error_def split: if_splits)
    then obtain r where r: "operator_branches path operator True q st [] (drop (length operator - 1) cs) = Inr r"
      and b: "bs = trim cur # (case r of None \<Rightarrow> [] | Some bs \<Rightarrow> bs)"
      by (auto simp: and_then_eq_Inr)
    have "length b \<le> length cs" if "r = Some bs'" "b \<in> set bs'" for bs'
      using 2(1)[OF _ _ e r[unfolded that(1)] "2.prems"(2) that(2)] True by auto
    then show ?thesis using "2.prems"(3) b length_trim[of cur] by (fastforce split: option.splits)
  next
    case False
    then show ?thesis using 2 by (auto split: option.splits if_splits)
  qed
qed

lemma split_operator_shorter:
  "split_json_path_top_level_operator path operator = Inr (Some bs) \<Longrightarrow> b \<in> set bs \<Longrightarrow> length b < length path"
  using operator_branches_shorter[of path operator False Plain "(0, 0, 0)" "[]" path bs b]
  by (auto simp: split_json_path_top_level_operator_def syntax_error_def split: if_splits)

function evaluate_json_path_expression :: "json_env \<Rightarrow> json \<Rightarrow> ustr \<Rightarrow> ustr list parsed" where
  "evaluate_json_path_expression env value path = (case split_json_path_top_level_operator path path_or of
       Inl e \<Rightarrow> Inl e
     | Inr (Some branches) \<Rightarrow> first_nonempty (evaluate_json_path_expression env value) branches
     | Inr None \<Rightarrow> (case split_json_path_top_level_operator path path_zip of
       Inl e \<Rightarrow> Inl e
     | Inr (Some branches) \<Rightarrow> and_then (collect_results (evaluate_json_path_expression env value) branches)
         (\<lambda>results. Inr (zip_json_path_combination_results (filter (\<lambda>r. r \<noteq> []) results)))
     | Inr None \<Rightarrow> (case split_json_path_top_level_operator path path_and of
       Inl e \<Rightarrow> Inl e
     | Inr (Some branches) \<Rightarrow> and_then (collect_results (evaluate_json_path_expression env value) branches)
         (\<lambda>results. Inr (concat results))
     | Inr None \<Rightarrow> evaluate_json_path_rule env value path)))"
  by pat_completeness auto
termination
  by (relation "measure (\<lambda>(env, value, path). length path)") (auto dest: split_operator_shorter)

declare evaluate_json_path_expression.simps [simp del]

definition apply_json_path :: "json_env \<Rightarrow> ustr \<Rightarrow> ustr \<Rightarrow> ustr list ruled" where
  "apply_json_path env input path = (case parse_json env input of
       Inl message \<Rightarrow> Inl (JsonParse message)
     | Inr value \<Rightarrow> (case evaluate_json_path_expression env value path of
           Inr texts \<Rightarrow> Inr texts
         | Inl (PathSyntax message) \<Rightarrow> Inl (JsonPathSyntax path message)
         | Inl PathPanic \<Rightarrow> Inl RulePanic))"

end
