(* ===== verification/PathProps.thy ===== *)
theory PathProps
  imports PathRules
begin

text \<open>
  What the evaluation of a JSONPath delivers: values of the document only, the slices of Python
  (with the one exception the code has), and an answer for every path the parser accepts as long
  as no slice step leaves the range of \<open>isize\<close>.
\<close>

subsection \<open>Loops that append\<close>

lemma concat_opt_eq:
  "concat_opt f xs = (if \<forall>x \<in> set xs. f x \<noteq> None then Some (concat (map (\<lambda>x. the (f x)) xs)) else None)"
  by (induction xs) (auto split: option.splits)

lemma concat_opt_Some:
  "concat_opt f xs = Some ys \<longleftrightarrow> (\<forall>x \<in> set xs. f x \<noteq> None) \<and> ys = concat (map (\<lambda>x. the (f x)) xs)"
  by (auto simp: concat_opt_eq)

lemma concat_opt_defined: "(\<And>x. x \<in> set xs \<Longrightarrow> f x \<noteq> None) \<Longrightarrow> \<exists>ys. concat_opt f xs = Some ys"
  by (auto simp: concat_opt_Some)

lemma in_concat_opt: "concat_opt f xs = Some ys \<Longrightarrow> y \<in> set ys \<Longrightarrow> \<exists>x \<in> set xs. \<exists>zs. f x = Some zs \<and> y \<in> set zs"
  by (force simp: concat_opt_Some)

subsection \<open>Slices\<close>

definition slice_bounds :: "path_slice \<Rightarrow> nat \<Rightarrow> int \<times> int" where
  "slice_bounds sl len = resolve_slice_bounds (sl_start sl) (sl_end sl)
     (case sl_step sl of None \<Rightarrow> 1 | Some k \<Rightarrow> k) (int len)"

definition python_bound :: "int option \<Rightarrow> int \<Rightarrow> int \<Rightarrow> int \<Rightarrow> int \<Rightarrow> int" where
  \<comment> \<open>an optional bound with its default, counted from the end when negative, clamped to \<open>lo..hi\<close>\<close>
  "python_bound b d lo hi n = (case b of None \<Rightarrow> d
     | Some v \<Rightarrow> max lo (min hi (if v < 0 then v + n else v)))"

definition python_slice :: "path_slice \<Rightarrow> 'a list \<Rightarrow> 'a list" where
  \<comment> \<open>the slice of Python: the items at the positions of the arithmetic progression\<close>
  "python_slice sl vs =
     (let len = int (length vs); step = (case sl_step sl of None \<Rightarrow> 1 | Some k \<Rightarrow> k) in
      if 0 < step then
        let s = python_bound (sl_start sl) 0 0 len len; e = python_bound (sl_end sl) len 0 len len
        in map (\<lambda>i. vs ! i) (filter (\<lambda>i. s \<le> int i \<and> int i < e \<and> step dvd (int i - s)) [0..<length vs])
      else
        let s = python_bound (sl_start sl) (len - 1) (- 1) (len - 1) len;
            e = python_bound (sl_end sl) (- 1) (- 1) (len - 1) len
        in map (\<lambda>i. vs ! i) (rev (filter (\<lambda>i. int i \<le> s \<and> e < int i \<and> step dvd (s - int i)) [0..<length vs])))"

lemma slice_loop_stop: "\<not> (if 0 < step then i < e else e < i) \<Longrightarrow> slice_loop vs step e i = Some []"
  by (subst slice_loop.simps) (simp split: if_splits)

lemma slice_loop_step: "(if 0 < step then i < e else e < i) \<Longrightarrow> i + step \<le> isize_max \<Longrightarrow>
    slice_loop vs step e i = map_option (\<lambda>rest. slice_item vs i @ rest) (slice_loop vs step e (i + step))"
  by (subst slice_loop.simps) (cases "slice_loop vs step e (i + step)"; simp split: if_splits)

lemma filter_from: "(\<And>i. i < k \<Longrightarrow> \<not> P i) \<Longrightarrow> k < n \<Longrightarrow> P k \<Longrightarrow>
    filter P [0..<n] = k # filter (\<lambda>i. P i \<and> k < i) [0..<n]" for k n :: nat
proof -
  assume a: "\<And>i. i < k \<Longrightarrow> \<not> P i" "k < n" "P k"
  have s: "[0..<n] = [0..<k] @ k # [Suc k..<n]"
    using a(2) by (metis less_imp_le_nat upt_add_eq_append upt_conv_Cons zero_le le_add_diff_inverse)
  have "filter P [Suc k..<n] = filter (\<lambda>i. P i \<and> k < i) [Suc k..<n]"
    by (rule filter_cong) auto
  then show ?thesis using a unfolding s by (auto simp: filter_empty_conv)
qed

lemma progression_step:
  fixes step s j :: int
  assumes "0 < step"
  shows "(s \<le> j \<and> step dvd (j - s) \<and> s < j) \<longleftrightarrow> (s + step \<le> j \<and> step dvd (j - (s + step)))"
proof -
  have "step dvd (j - s) \<longleftrightarrow> step dvd (j - (s + step))"
    by (metis add_diff_cancel_left' diff_diff_add dvd_add_right_iff dvd_refl diff_add_cancel)
  moreover have "s + step \<le> j" if "s < j" "step dvd (j - s)"
    using that assms zdvd_imp_le[of step "j - s"] by simp
  ultimately show ?thesis using assms by auto
qed

lemma forward_slice:
  "0 < step \<Longrightarrow> 0 \<le> s \<Longrightarrow> e \<le> int (length vs) \<Longrightarrow> int (length vs) + step \<le> isize_max \<Longrightarrow>
     slice_loop vs step e s = Some (map (\<lambda>i. vs ! i)
       (filter (\<lambda>i. s \<le> int i \<and> int i < e \<and> step dvd (int i - s)) [0..<length vs]))"
proof (induction "nat (e - s)" arbitrary: s rule: less_induct)
  case less
  show ?case
  proof (cases "s < e")
    case False
    then have "filter (\<lambda>i. s \<le> int i \<and> int i < e \<and> step dvd (int i - s)) [0..<length vs] = []"
      by (auto simp: filter_empty_conv)
    then show ?thesis using False slice_loop_stop[of step s e vs] less.prems(1) by (simp del: filter_empty_conv)
  next
    case True
    let ?P = "\<lambda>s i. s \<le> int i \<and> int i < e \<and> step dvd (int i - s)"
    have "filter (?P s) [0..<length vs] = nat s # filter (\<lambda>i. ?P s i \<and> nat s < i) [0..<length vs]"
      by (rule filter_from) (use True less.prems in auto)
    moreover have "filter (\<lambda>i. ?P s i \<and> nat s < i) [0..<length vs] = filter (?P (s + step)) [0..<length vs]"
    proof (rule filter_cong, simp)
      fix i
      have "nat s < i \<longleftrightarrow> s < int i" using less.prems(2) by linarith
      then show "(?P s i \<and> nat s < i) = ?P (s + step) i"
        using progression_step[OF less.prems(1), of s "int i"] by blast
    qed
    moreover have "slice_loop vs step e (s + step) = Some (map (\<lambda>i. vs ! i) (filter (?P (s + step)) [0..<length vs]))"
      by (rule less.hyps) (use True less.prems in auto)
    moreover have "slice_item vs s = [vs ! nat s]"
      using True less.prems by (simp add: slice_item_def)
    ultimately show ?thesis
      using slice_loop_step[of step s e vs] True less.prems by simp
  qed
qed

lemma filter_to: "(\<And>i. k < i \<Longrightarrow> \<not> P i) \<Longrightarrow> k < n \<Longrightarrow> P k \<Longrightarrow>
    filter P [0..<n] = filter (\<lambda>i. P i \<and> i < k) [0..<n] @ [k]" for k n :: nat
proof -
  assume a: "\<And>i. k < i \<Longrightarrow> \<not> P i" "k < n" "P k"
  have s: "[0..<n] = [0..<k] @ k # [Suc k..<n]"
    using a(2) by (metis less_imp_le_nat upt_add_eq_append upt_conv_Cons zero_le le_add_diff_inverse)
  have "filter P [0..<k] = filter (\<lambda>i. P i \<and> i < k) [0..<k]"
    by (rule filter_cong) auto
  then show ?thesis using a unfolding s by (auto simp: filter_empty_conv)
qed

lemma backward_slice:
  "step < 0 \<Longrightarrow> - 1 \<le> e \<Longrightarrow> s < int (length vs) \<Longrightarrow> int (length vs) \<le> isize_max \<Longrightarrow>
     slice_loop vs step e s = Some (map (\<lambda>i. vs ! i)
       (rev (filter (\<lambda>i. int i \<le> s \<and> e < int i \<and> step dvd (s - int i)) [0..<length vs])))"
proof (induction "nat (s - e)" arbitrary: s rule: less_induct)
  case less
  show ?case
  proof (cases "e < s")
    case False
    then have "filter (\<lambda>i. int i \<le> s \<and> e < int i \<and> step dvd (s - int i)) [0..<length vs] = []"
      by (auto simp: filter_empty_conv)
    then show ?thesis using False slice_loop_stop[of step s e vs] less.prems(1) by (simp del: filter_empty_conv)
  next
    case True
    let ?P = "\<lambda>s i. int i \<le> s \<and> e < int i \<and> step dvd (s - int i)"
    have "filter (?P s) [0..<length vs] = filter (\<lambda>i. ?P s i \<and> i < nat s) [0..<length vs] @ [nat s]"
      by (rule filter_to) (use True less.prems in auto)
    moreover have "filter (\<lambda>i. ?P s i \<and> i < nat s) [0..<length vs] = filter (?P (s + step)) [0..<length vs]"
    proof (rule filter_cong, simp)
      fix i
      have "i < nat s \<longleftrightarrow> int i < s" using less.prems(2) by linarith
      then show "(?P s i \<and> i < nat s) = ?P (s + step) i"
        using progression_step[of "- step" "- s" "- int i"] less.prems(1) by (auto simp: algebra_simps)
    qed
    moreover have "slice_loop vs step e (s + step) = Some (map (\<lambda>i. vs ! i) (rev (filter (?P (s + step)) [0..<length vs])))"
      by (rule less.hyps) (use True less.prems in auto)
    moreover have "slice_item vs s = [vs ! nat s]"
      using True less.prems by (simp add: slice_item_def)
    ultimately show ?thesis
      using slice_loop_step[of step s e vs] True less.prems by simp
  qed
qed

definition step_of :: "path_slice \<Rightarrow> int" where
  "step_of sl = (case sl_step sl of None \<Rightarrow> 1 | Some k \<Rightarrow> k)"

lemma slice_values_unfold:
  "slice_values sl vs = (case resolve_slice_bounds (sl_start sl) (sl_end sl) (step_of sl) (int (length vs)) of
     (s, e) \<Rightarrow> slice_loop vs (step_of sl) e s)"
  by (simp add: slice_values_def step_of_def Let_def)

lemma forward_bounds:
  "0 < step \<Longrightarrow> resolve_slice_bounds s e step (int n) =
     (python_bound s 0 0 (int n) (int n), python_bound e (int n) 0 (int n) (int n))"
  by (cases s; cases e) (auto simp: resolve_slice_bounds_def python_bound_def Let_def)

lemma backward_bounds:
  "step \<le> 0 \<Longrightarrow> resolve_slice_bounds s (Some v) step (int n) =
     (python_bound s (int n - 1) (- 1) (int n - 1) (int n), python_bound (Some v) (- 1) (- 1) (int n - 1) (int n))"
  by (cases s) (auto simp: resolve_slice_bounds_def python_bound_def Let_def)

lemma python_bound_range: "lo \<le> hi \<Longrightarrow> d \<in> {lo..hi} \<Longrightarrow> python_bound b d lo hi n \<in> {lo..hi}"
  by (cases b) (auto simp: python_bound_def)

lemma slice_values_python:
  assumes "step_of sl \<noteq> 0" "int (length vs) \<le> isize_max" "int (length vs) + step_of sl \<le> isize_max"
  shows "slice_values sl vs = Some (if step_of sl < 0 \<and> sl_end sl = None then [] else python_slice sl vs)"
proof -
  let ?n = "int (length vs)"
  consider (forward) "0 < step_of sl" | (backward) v where "step_of sl < 0" "sl_end sl = Some v"
    | (open_end) "step_of sl < 0" "sl_end sl = None"
    using assms(1) by (cases "sl_end sl") force+
  then show ?thesis
  proof cases
    case forward
    define s where "s = python_bound (sl_start sl) 0 0 ?n ?n"
    define e where "e = python_bound (sl_end sl) ?n 0 ?n ?n"
    have "0 \<le> s" "e \<le> ?n"
      using python_bound_range[of 0 ?n 0 "sl_start sl" ?n] python_bound_range[of 0 ?n ?n "sl_end sl" ?n]
      by (simp_all add: s_def e_def)
    then have "slice_loop vs (step_of sl) e s = Some (map (\<lambda>i. vs ! i)
        (filter (\<lambda>i. s \<le> int i \<and> int i < e \<and> step_of sl dvd (int i - s)) [0..<length vs]))"
      by (rule forward_slice[OF forward]) (use assms in simp_all)
    then show ?thesis
      using forward by (simp add: slice_values_unfold forward_bounds python_slice_def step_of_def[symmetric] Let_def s_def e_def)
  next
    case backward
    define s where "s = python_bound (sl_start sl) (?n - 1) (- 1) (?n - 1) ?n"
    define e where "e = python_bound (Some v) (- 1) (- 1) (?n - 1) ?n"
    have "s < ?n" "- 1 \<le> e"
      using python_bound_range[of "- 1" "?n - 1" "?n - 1" "sl_start sl" ?n]
        python_bound_range[of "- 1" "?n - 1" "- 1" "Some v" ?n] by (simp_all add: s_def e_def)
    then have "slice_loop vs (step_of sl) e s = Some (map (\<lambda>i. vs ! i)
        (rev (filter (\<lambda>i. int i \<le> s \<and> e < int i \<and> step_of sl dvd (s - int i)) [0..<length vs])))"
      by (intro backward_slice) (use assms backward in simp_all)
    then show ?thesis
      using backward by (simp add: slice_values_unfold backward_bounds python_slice_def step_of_def[symmetric] Let_def s_def e_def)
  next
    case open_end
    obtain s e where b: "resolve_slice_bounds (sl_start sl) None (step_of sl) ?n = (s, e)" by fastforce
    have "s \<le> e"
      using b open_end(1) by (cases "sl_start sl") (auto simp: resolve_slice_bounds_def Let_def split: if_splits)
    then show ?thesis
      using open_end b slice_loop_stop[of "step_of sl" s e vs] by (simp add: slice_values_unfold)
  qed
qed

text \<open>
  C18: A slice \<open>[start:end:step]\<close> selects what the slice of Python selects, in its order, for every
  array, every bound and every step that the sum of an index and the step fits into \<open>isize\<close>; with
  the one exception that a negative step without an end selects nothing, where Python goes on to
  the first item.
\<close>

theorem slices_match_python:
  assumes "step_of sl \<noteq> 0" "int (length vs) \<le> isize_max" "int (length vs) + step_of sl \<le> isize_max"
  shows "slice_values sl vs = Some (if step_of sl < 0 \<and> sl_end sl = None then [] else python_slice sl vs)"
  using assms by (rule slice_values_python)

theorem slices_match_python_witness:
  "slice_values \<lparr>sl_start = Some (- 2), sl_end = Some 0, sl_step = Some (- 2)\<rparr> ''abcde'' = Some ''db'' \<and>
   slice_values \<lparr>sl_start = None, sl_end = None, sl_step = Some (- 1)\<rparr> ''abc'' = Some [] \<and>
   python_slice \<lparr>sl_start = None, sl_end = None, sl_step = Some (- 1)\<rparr> ''abc'' = ''cba''"
  using slices_match_python[of "\<lparr>sl_start = Some (- 2), sl_end = Some 0, sl_step = Some (- 2)\<rparr>" "''abcde''"]
    slices_match_python[of "\<lparr>sl_start = None, sl_end = None, sl_step = Some (- 1)\<rparr>" "''abc''"]
  by (simp add: step_of_def isize_max_def python_slice_def python_bound_def upt_rec Let_def)

subsection \<open>Selections\<close>

lemma descendants_self: "v \<in> set (descendants v)"
  by (cases v) auto

lemma descendants_trans: "d \<in> set (descendants v) \<Longrightarrow> set (descendants d) \<subseteq> set (descendants v)"
proof (induction v rule: descendants.induct)
  case (1 vs)
  show ?case
  proof (cases "d = JArr vs")
    case False
    then obtain w where "w \<in> set vs" "d \<in> set (descendants w)" using "1.prems" by auto
    then show ?thesis using "1.IH" by fastforce
  qed simp
next
  case (2 ms)
  show ?case
  proof (cases "d = JObj ms")
    case False
    then obtain m where "m \<in> set ms" "d \<in> set (descendants (snd m))" using "2.prems" by auto
    then show ?thesis using "2.IH" by fastforce
  qed simp
qed auto

lemma item_descends: "w \<in> set vs \<Longrightarrow> w \<in> set (descendants (JArr vs))"
  using descendants_self[of w] by auto

lemma member_descends: "m \<in> set ms \<Longrightarrow> snd m \<in> set (descendants (JObj ms))"
  using descendants_self[of "snd m"] by auto

lemma slice_loop_items:
  assumes "slice_loop vs step e i = Some ws"
  shows "set ws \<subseteq> set vs"
proof (rule slice_loop.raw_induct[of "\<lambda>vs step e i ws. set ws \<subseteq> set vs", OF _ assms])
  fix loop :: "'a list \<Rightarrow> int \<Rightarrow> int \<Rightarrow> int \<Rightarrow> 'a list option" and vs step e i ws
  assume ih: "\<And>vs step e i ws. loop vs step e i = Some ws \<Longrightarrow> set ws \<subseteq> set vs"
    and r: "(if if 0 < step then i < e else e < i then if isize_max < i + step then None
      else Option.bind (loop vs step e (i + step)) (\<lambda>rest. Some (slice_item vs i @ rest)) else Some []) = Some ws"
  show "set ws \<subseteq> set vs"
    using r by (auto split: if_splits simp: bind_eq_Some_conv slice_item_def dest!: ih)
qed

lemma slice_values_items: "slice_values sl vs = Some ws \<Longrightarrow> set ws \<subseteq> set vs"
  by (auto simp: slice_values_unfold split: prod.splits dest: slice_loop_items)

lemma apply_segment_descends: "apply_segment env s v = Some ws \<Longrightarrow> set ws \<subseteq> set (descendants v)"
proof (induction env s v arbitrary: ws rule: apply_segment.induct)
  case (1 env f v)
  then show ?case
    using member_descends[of "(f, _)"] by (cases v) (fastforce split: option.splits dest!: map_of_SomeD)+
next
  case (5 env inner v)
  show ?case
  proof
    fix w
    assume "w \<in> set ws"
    then obtain d zs where "d \<in> set (descendants v)" "apply_segment env inner d = Some zs" "w \<in> set zs"
      using "5.prems" in_concat_opt[of "apply_segment env inner"] by fastforce
    then show "w \<in> set (descendants v)" using "5.IH" descendants_trans[of d v] by blast
  qed
next
  case (6 env segs v)
  show ?case
  proof
    fix w
    assume "w \<in> set ws"
    then obtain s zs where "s \<in> set segs" "apply_segment env s v = Some zs" "w \<in> set zs"
      using "6.prems" in_concat_opt[of "\<lambda>s. apply_segment env s v"] by fastforce
    then show "w \<in> set (descendants v)" using "6.IH" by blast
  qed
next
  case (7 env sl v)
  then show ?case
    by (cases v) (auto simp del: descendants.simps dest!: slice_values_items intro: item_descends)
qed (auto simp del: descendants.simps split: json.splits if_splits intro: item_descends member_descends)

lemma evaluate_from_descends:
  "evaluate_from env segs current = Some vs \<Longrightarrow> set current \<subseteq> set (descendants doc) \<Longrightarrow> set vs \<subseteq> set (descendants doc)"
proof (induction env segs current rule: evaluate_from.induct)
  case (2 env s ss current)
  obtain selected where sel: "concat_opt (apply_segment env s) current = Some selected"
    using "2.prems"(1) by (auto split: option.splits)
  have "set selected \<subseteq> set (descendants doc)"
  proof
    fix w
    assume "w \<in> set selected"
    then obtain d zs where "d \<in> set current" "apply_segment env s d = Some zs" "w \<in> set zs"
      using in_concat_opt[OF sel] by blast
    then show "w \<in> set (descendants doc)"
      using apply_segment_descends[of env s d zs] descendants_trans[of d doc] "2.prems"(2) by blast
  qed
  then show ?case using 2 sel by (auto split: if_splits)
qed simp

lemma evaluate_from_none: "evaluate_from env segs [] = Some []"
  by (cases segs) auto

lemma evaluate_from_append:
  "evaluate_from env (ss @ ts) current = Option.bind (evaluate_from env ss current) (evaluate_from env ts)"
  by (induction env ss current rule: evaluate_from.induct) (auto simp: evaluate_from_none split: option.splits)

definition path_env :: json_env where
  \<comment> \<open>an environment for the witnesses: it reads no JSON and no regex, and computes without rounding\<close>
  "path_env = \<lparr>parse_json = (\<lambda>s. if s = lit ''null'' then Inr JNull else Inl (lit ''expected value'')),
     json_text = (\<lambda>v. []),
     number_text = (\<lambda>n. []), number_f64 = (\<lambda>n. F64 0), f64_number = (\<lambda>v. None), parse_f64 = (\<lambda>s. None),
     regex_build = (\<lambda>p fl. Inl []), f64_add = (\<lambda>a b. a), f64_sub = (\<lambda>a b. a), f64_mul = (\<lambda>a b. a),
     f64_div = (\<lambda>a b. a), f64_sqrt = (\<lambda>a. a), f64_of_nat = (\<lambda>n. F64 (of_nat n))\<rparr>"



subsection \<open>Termination\<close>

fun seg_steps :: "segment \<Rightarrow> int set" where
  \<comment> \<open>the steps of the slices in a segment\<close>
  "seg_steps (DescentSeg inner) = seg_steps inner"
| "seg_steps (UnionSeg segs) = (\<Union>s \<in> set segs. seg_steps s)"
| "seg_steps (SliceSeg sl) = {step_of sl}"
| "seg_steps s = {}"

definition arrays_within :: "nat \<Rightarrow> json \<Rightarrow> bool" where
  "arrays_within n v = (\<forall>vs. JArr vs \<in> set (descendants v) \<longrightarrow> length vs \<le> n)"

lemma apply_segment_defined:
  "\<forall>k \<in> seg_steps s. k \<noteq> 0 \<and> k \<le> isize_max - int n \<Longrightarrow> int n \<le> isize_max \<Longrightarrow> arrays_within n v \<Longrightarrow>
     \<exists>ws. apply_segment env s v = Some ws"
proof (induction env s v rule: apply_segment.induct)
  case (5 env inner v)
  have "\<exists>ws. apply_segment env inner d = Some ws" if "d \<in> set (descendants v)" for d
    using "5.IH"[OF that] "5.prems" descendants_trans[OF that] by (auto simp: arrays_within_def)
  then show ?case using concat_opt_defined[of "descendants v" "apply_segment env inner"] by force
next
  case (6 env segs v)
  have "\<exists>ws. apply_segment env s v = Some ws" if "s \<in> set segs" for s
    using "6.IH"[OF that] "6.prems" that by auto
  then show ?case using concat_opt_defined[of segs "\<lambda>s. apply_segment env s v"] by force
next
  case (7 env sl v)
  show ?case
  proof (cases v)
    case (JArr vs)
    then have "length vs \<le> n" using "7.prems"(3) descendants_self[of v] by (auto simp: arrays_within_def)
    then show ?thesis using "7.prems" JArr slice_values_python[of sl vs] by simp
  qed simp_all
qed auto

lemma arrays_within_descends: "arrays_within n v \<Longrightarrow> d \<in> set (descendants v) \<Longrightarrow> arrays_within n d"
  using descendants_trans by (fastforce simp: arrays_within_def)

lemma evaluate_from_defined:
  "\<forall>s \<in> set segs. \<forall>k \<in> seg_steps s. k \<noteq> 0 \<and> k \<le> isize_max - int n \<Longrightarrow> int n \<le> isize_max \<Longrightarrow>
     arrays_within n doc \<Longrightarrow> set current \<subseteq> set (descendants doc) \<Longrightarrow> \<exists>vs. evaluate_from env segs current = Some vs"
proof (induction env segs current rule: evaluate_from.induct)
  case (2 env s ss current)
  have "\<exists>ws. apply_segment env s d = Some ws" if "d \<in> set current" for d
    by (rule apply_segment_defined[of s n])
      (use "2.prems" that arrays_within_descends[OF "2.prems"(3), of d] in auto)
  then obtain selected where sel: "concat_opt (apply_segment env s) current = Some selected"
    using concat_opt_defined[of current "apply_segment env s"] by force
  have "set selected \<subseteq> set (descendants doc)"
    by (rule evaluate_from_descends[of env "[s]" current]) (use sel "2.prems"(4) in \<open>auto split: if_splits\<close>)
  then show ?case using 2 sel by auto
qed simp

lemma parse_slice_step: "parse_json_path_slice token = Inr s \<Longrightarrow> 0 \<notin> seg_steps s"
  by (auto simp: parse_json_path_slice_def quoting_def syntax_error_def and_then_eq_Inr Let_def step_of_def
      split: if_splits option.splits)

lemma bracket_item_step: "bracket_item env token = Inr s \<Longrightarrow> 0 \<notin> seg_steps s"
  by (auto simp: bracket_item_def quoting_def syntax_error_def and_then_eq_Inr
      split: if_splits option.splits dest: parse_slice_step)

lemma in_collect_results: "collect_results f xs = Inr ys \<Longrightarrow> y \<in> set ys \<Longrightarrow> \<exists>x \<in> set xs. f x = Inr y"
  by (induction xs arbitrary: ys) (auto simp: and_then_eq_Inr)

lemma bracket_token_step: "parse_json_path_bracket_token env token = Inr s \<Longrightarrow> 0 \<notin> seg_steps s"
proof (induction env token arbitrary: s rule: parse_json_path_bracket_token.induct)
  case (1 env token0)
  show ?case
  proof (cases "split_json_path_union_items (trim token0)")
    case (Inl e)
    then show ?thesis using "1.prems" by (simp add: parse_json_path_bracket_token.simps[of env token0] Let_def)
  next
    case (Inr items)
    show ?thesis
    proof (cases "1 < length items")
      case True
      then obtain segs where segs: "collect_results (parse_json_path_bracket_token env) items = Inr segs" "s = UnionSeg segs"
        using "1.prems" Inr by (auto simp: parse_json_path_bracket_token.simps[of env token0] Let_def and_then_eq_Inr)
      have "0 \<notin> seg_steps t" if t: "t \<in> set segs" for t
        using in_collect_results[OF segs(1) t] "1.IH"[OF refl Inr True] by blast
      then show ?thesis using segs(2) by auto
    next
      case False
      then show ?thesis using "1.prems" Inr bracket_item_step
        by (auto simp: parse_json_path_bracket_token.simps[of env token0] Let_def)
    qed
  qed
qed

lemma parse_bracket_step: "parse_json_path_bracket env cs = Inr (s, rest) \<Longrightarrow> 0 \<notin> seg_steps s"
  by (auto simp: parse_json_path_bracket_def and_then_eq_Inr dest: bracket_token_step)

lemma parse_descent_step: "parse_recursive_descent env cs = Inr (s, rest) \<Longrightarrow> 0 \<notin> seg_steps s"
  by (auto simp: parse_recursive_descent_def syntax_error_def and_then_eq_Inr dest: parse_bracket_step
      split: list.splits if_splits)

lemma dot_token_step: "parse_json_path_dot_token env f token = Inr s \<Longrightarrow> seg_steps s = {}"
  by (auto simp: parse_json_path_dot_token_def and_then_eq_Inr quoting_def syntax_error_def
      split: option.splits if_splits)

lemma parse_segments_cases:
  assumes "parse_segments env cs = Inr segs" "cs \<noteq> []"
  shows "\<exists>s rest ss. segs = s # ss \<and> parse_segments env rest = Inr ss \<and> length rest < length cs \<and> 0 \<notin> seg_steps s"
proof -
  obtain c t where cs: "cs = c # t" using assms(2) by (cases cs) auto
  have step: ?thesis
    if "(case r of Inl e \<Rightarrow> Inl e | Inr (s, rest) \<Rightarrow> and_then (parse_segments env rest) (\<lambda>ss. Inr (s # ss))) = Inr segs"
      "\<And>s rest. r = Inr (s, rest) \<Longrightarrow> length rest < length cs \<and> 0 \<notin> seg_steps s" for r
  proof -
    have "\<exists>s rest. r = Inr (s, rest)" using that(1) by (cases r) auto
    then obtain s rest where r: "r = Inr (s, rest)" by blast
    have "\<exists>ss. parse_segments env rest = Inr ss \<and> segs = s # ss"
      using that(1) r by (auto simp: and_then_eq_Inr)
    then show ?thesis using that(2)[OF r] by blast
  qed
  have bracket: ?thesis
    if "(case parse_json_path_bracket env u of Inl e \<Rightarrow> Inl e
        | Inr (s, rest) \<Rightarrow> and_then (parse_segments env rest) (\<lambda>ss. Inr (s # ss))) = Inr segs" "length u < length cs" for u
    by (rule step[OF that(1)])
      (use that(2) parse_json_path_bracket_shorter[of env u] parse_bracket_step[of env u] in \<open>auto intro: less_trans\<close>)
  consider (dot) d u where "c = 46" "t = d # u" | (none) "c = 46" "t = []" | (open_bracket) "c = 91" | (other) "c \<noteq> 46" "c \<noteq> 91"
    by (cases t) auto
  then show ?thesis
  proof cases
    case dot
    consider "d = 46" | "d = 42" | "d = 91" | (token) "d \<noteq> 46" "d \<noteq> 42" "d \<noteq> 91" by blast
    then show ?thesis
    proof cases
      case 1
      then have "(case parse_recursive_descent env u of Inl e \<Rightarrow> Inl e
          | Inr (s, rest) \<Rightarrow> and_then (parse_segments env rest) (\<lambda>ss. Inr (s # ss))) = Inr segs"
        using assms(1) dot by (simp add: cs parse_segments.simps[of _ "_ # _"])
      then show ?thesis
        by (rule step) (use dot cs parse_recursive_descent_shorter[of env u] parse_descent_step[of env u]
          in \<open>auto intro: less_trans\<close>)
    next
      case 2
      then show ?thesis
        using assms(1) dot by (auto simp: cs parse_segments.simps[of _ "_ # _"] and_then_eq_Inr intro!: exI[of _ u])
    next
      case 3
      show ?thesis
        by (rule bracket[of u]) (use 3 assms(1) dot in \<open>simp_all add: cs parse_segments.simps[of _ "_ # _"]\<close>)
    next
      case token
      let ?f = "\<lambda>p. if starts_with p [36] then parse_segments env (tl p)
        else syntax_error (lit ''path must start with `$`'')"
      have "(case dot_token_end Plain (0, 0, 0) [] t of Inl e \<Rightarrow> Inl e
          | Inr (tok, rest2) \<Rightarrow> if tok = [] then syntax_error (lit ''field name expected after `.`'')
              else and_then (parse_json_path_dot_token env ?f tok)
                (\<lambda>s. and_then (parse_segments env rest2) (\<lambda>ss. Inr (s # ss)))) = Inr segs"
        using assms(1) dot token by (simp add: cs parse_segments.simps[of _ "_ # _"] del: dot_token_end.simps)
      then obtain tok rest2 s ss where "dot_token_end Plain (0, 0, 0) [] t = Inr (tok, rest2)"
        "parse_json_path_dot_token env ?f tok = Inr s" "parse_segments env rest2 = Inr ss" "segs = s # ss"
        by (auto simp: and_then_eq_Inr syntax_error_def simp del: dot_token_end.simps split: sum.splits prod.splits if_splits)
      then show ?thesis using dot_token_end_length[of Plain "(0, 0, 0)" "[]" t tok rest2] dot_token_step
        by (fastforce simp: cs simp del: dot_token_end.simps)
    qed
  next
    case none
    then show ?thesis using assms(1) by (simp add: cs parse_segments.simps[of _ "_ # _"] syntax_error_def)
  next
    case open_bracket
    then show ?thesis using assms(1) by (intro bracket[of t]) (simp_all add: cs parse_segments.simps[of _ "_ # _"])
  next
    case other
    then show ?thesis using assms(1) by (simp add: cs parse_segments.simps[of _ "_ # _"] syntax_error_def)
  qed
qed

lemma parse_segments_steps: "parse_segments env cs = Inr segs \<Longrightarrow> s \<in> set segs \<Longrightarrow> 0 \<notin> seg_steps s"
proof (induction "length cs" arbitrary: cs segs rule: less_induct)
  case less
  show ?case
  proof (cases "cs = []")
    case True
    then show ?thesis using less.prems by (simp add: parse_segments.simps[of env "[]"])
  next
    case False
    then obtain s0 rest ss where "segs = s0 # ss" "parse_segments env rest = Inr ss" "length rest < length cs" "0 \<notin> seg_steps s0"
      using parse_segments_cases[OF less.prems(1)] by blast
    then show ?thesis using less.hyps[of rest ss] less.prems(2) by auto
  qed
qed



end
