(* ===== verification/PathPrint.thy ===== *)
theory PathPrint
  imports PathProps
begin

text \<open>
  Paths written back as text, in the bracket notation: every path of fields, indices, wildcards,
  slices, unions and recursive descents is read back as itself, also with quotes, brackets and
  operators inside its field names; and the combination operators evaluate the paths between
  them. The scanners are passed over such a text by the lemmas of two locales.
\<close>

subsection \<open>Printing\<close>

definition int_text :: "int \<Rightarrow> ustr" where
  "int_text v = (if v < 0 then 45 # decimal (nat (- v)) else decimal (nat v))"

definition opt_int_text :: "int option \<Rightarrow> ustr" where
  "opt_int_text v = (case v of None \<Rightarrow> [] | Some i \<Rightarrow> int_text i)"

definition slice_text :: "path_slice \<Rightarrow> ustr" where
  "slice_text sl = opt_int_text (sl_start sl) @ [58] @ opt_int_text (sl_end sl) @
     (case sl_step sl of None \<Rightarrow> [] | Some k \<Rightarrow> [58] @ int_text k)"

fun item_text :: "segment \<Rightarrow> ustr" where
  \<comment> \<open>the text of a segment between its brackets\<close>
  "item_text (FieldSeg f) = quoted f"
| "item_text (IndexSeg i) = int_text (int i)"
| "item_text (FromEndSeg k) = int_text (- int k)"
| "item_text WildcardSeg = [42]"
| "item_text (SliceSeg sl) = slice_text sl"
| "item_text (UnionSeg ss) = join [44] (map item_text ss)"
| "item_text s = []"

fun seg_text :: "segment \<Rightarrow> ustr" where
  "seg_text (DescentSeg s) = [46, 46, 91] @ item_text s @ [93]"
| "seg_text s = [91] @ item_text s @ [93]"

definition path_text :: "segment list \<Rightarrow> ustr" where
  "path_text segs = 36 # concat (map seg_text segs)"

definition isize :: "int \<Rightarrow> bool" where
  "isize v = (- isize_max - 1 \<le> v \<and> v \<le> isize_max)"

fun printable_item :: "segment \<Rightarrow> bool" where
  "printable_item (FieldSeg f) = True"
| "printable_item (IndexSeg i) = (int i \<le> isize_max)"
| "printable_item (FromEndSeg k) = (0 < k \<and> int k \<le> isize_max)"
| "printable_item WildcardSeg = True"
| "printable_item (SliceSeg sl) = (pred_option isize (sl_start sl) \<and> pred_option isize (sl_end sl) \<and>
     pred_option isize (sl_step sl) \<and> sl_step sl \<noteq> Some 0)"
| "printable_item s = False"

fun printable_bracket :: "segment \<Rightarrow> bool" where
  "printable_bracket (UnionSeg ss) = (2 \<le> length ss \<and> list_all printable_item ss)"
| "printable_bracket s = printable_item s"

fun printable :: "segment \<Rightarrow> bool" where
  "printable (DescentSeg s) = printable_bracket s"
| "printable s = printable_bracket s"

subsection \<open>Numbers\<close>

lemma parse_int_text: "isize v \<Longrightarrow> parse_isize (int_text v) = Some v"
  using decimal_digit_chars[of "nat v"] decimal_digit_chars[of "nat (- v)"]
  by (auto simp: parse_isize_def int_text_def decimal_no_sign digits_value_decimal decimal_nonempty isize_def)

subsection \<open>Passing over items\<close>

definition item_chars :: "nat set" where
  \<comment> \<open>digits, minus, colon and star\<close>
  "item_chars = {42, 45, 58} \<union> {48..57}"

locale item_scanner = quote_scanner scan for scan :: "quote_state \<Rightarrow> 's \<Rightarrow> ustr \<Rightarrow> ustr \<Rightarrow> 'r" +
  fixes inside :: "'s \<Rightarrow> bool" \<comment> \<open>the states in which the law is promised\<close>
  assumes plain_law: "inside st \<Longrightarrow> c \<in> item_chars \<Longrightarrow> scan Plain st cur (c # cs) = scan Plain st (cur @ [c]) cs"
begin

lemma scan_plain: "inside st \<Longrightarrow> set t \<subseteq> item_chars \<Longrightarrow> scan Plain st cur (t @ cs) = scan Plain st (cur @ t) cs"
  by (induction t arbitrary: cur) (simp_all add: plain_law)

end

lemma decimal_item_chars: "set (decimal n) \<subseteq> item_chars"
  using digits_decimal by (fastforce simp: item_chars_def)

lemma int_item_chars: "set (int_text v) \<subseteq> item_chars"
  using decimal_item_chars by (auto simp: int_text_def item_chars_def)

lemma slice_item_chars: "set (slice_text sl) \<subseteq> item_chars"
  using int_item_chars by (auto simp: slice_text_def opt_int_text_def item_chars_def split: option.splits)

context item_scanner
begin

lemma scan_item:
  assumes "inside st" "printable_item s"
  shows "scan Plain st cur (item_text s @ cs) = scan Plain st (cur @ item_text s) cs"
proof (cases s)
  case (FieldSeg f)
  then show ?thesis using scan_quoted by simp
next
  case WildcardSeg
  then show ?thesis using scan_plain[OF assms(1), of "[42]"] by (simp add: item_chars_def)
qed (use assms scan_plain[OF assms(1)] int_item_chars slice_item_chars in auto)

end

locale union_scanner = item_scanner +
  assumes comma_law: "inside st \<Longrightarrow> scan Plain st cur (44 # cs) = scan Plain st (cur @ [44]) cs"
begin

lemma scan_items:
  "inside st \<Longrightarrow> list_all printable_item ss \<Longrightarrow>
     scan Plain st cur (join [44] (map item_text ss) @ cs) = scan Plain st (cur @ join [44] (map item_text ss)) cs"
proof (induction ss arbitrary: cur)
  case (Cons s ss)
  then show ?case by (cases ss) (simp_all add: scan_item comma_law)
qed simp

lemma scan_bracket:
  assumes "inside st" "printable_bracket s"
  shows "scan Plain st cur (item_text s @ cs) = scan Plain st (cur @ item_text s) cs"
  using assms by (cases s) (auto simp: scan_items scan_item simp del: item_text.simps(1-5))

end

interpretation bracket_items: union_scanner bracket_token "\<lambda>parens. True"
  by unfold_locales (auto simp: item_chars_def)

interpretation unions_items: item_scanner "union_items token" "\<lambda>parens. True" for token
  by unfold_locales (auto simp: item_chars_def)

subsection \<open>Reading one item\<close>

lemma trim_ends: "s \<noteq> [] \<Longrightarrow> \<not> is_whitespace (hd s) \<Longrightarrow> \<not> is_whitespace (last s) \<Longrightarrow> trim s = s"
proof -
  assume a: "s \<noteq> []" "\<not> is_whitespace (hd s)" "\<not> is_whitespace (last s)"
  have "dropWhile is_whitespace s = s" using a by (cases s) simp_all
  moreover have "dropWhile is_whitespace (rev s) = rev s"
    using a by (cases s rule: rev_cases) simp_all
  ultimately show ?thesis by (simp add: trim_def trim_start_def trim_end_def)
qed

lemma item_char_solid: "c \<in> item_chars \<Longrightarrow> \<not> is_whitespace c"
  by (auto simp: item_chars_def is_whitespace_def)

lemma trim_item_chars: "set s \<subseteq> item_chars \<Longrightarrow> trim s = s"
proof (cases "s = []")
  case False
  moreover assume "set s \<subseteq> item_chars"
  ultimately show ?thesis
    using hd_in_set[of s] last_in_set[of s] by (intro trim_ends) (auto intro!: item_char_solid)
qed (simp add: trim_def trim_start_def trim_end_def)

lemma trim_quoted: "trim (quoted f) = quoted f"
  by (rule trim_ends) (auto simp: quoted_def is_whitespace_def)

lemma item_text_nonempty: "printable_item s \<Longrightarrow> item_text s \<noteq> []"
  by (cases s) (auto simp: quoted_def int_text_def decimal_nonempty slice_text_def)

lemma trim_item: "printable_item s \<Longrightarrow> trim (item_text s) = item_text s"
  by (cases s) (simp_all add: trim_quoted trim_item_chars int_item_chars slice_item_chars,
    simp add: trim_item_chars item_chars_def)

lemma quoted_field_chars_escape:
  "quoted_field_chars token 39 field (escape_quoted f @ [39]) = Inr (field @ f)"
proof (induction f arbitrary: field)
  case (Cons c f)
  obtain d ds where d: "escape_quoted f @ [39] = d # ds" by (cases "escape_quoted f @ [39]") auto
  show ?case
  proof (cases "c = 92 \<or> c = 39")
    case True
    then show ?thesis using Cons.IH[of "field @ [c]"] by auto
  next
    case False
    then show ?thesis using Cons.IH[of "field @ [c]"] d by auto
  qed
qed simp

lemma read_quoted: "parse_json_path_quoted_field_token (quoted f) = Inr f"
  using quoted_field_chars_escape[of "quoted f" "[]" f]
  by (simp add: parse_json_path_quoted_field_token_def quoted_def)

lemma int_text_no_colon: "58 \<notin> set (int_text v)"
  using digits_decimal[of 58] by (auto simp: int_text_def)

lemma opt_int_text_props: "58 \<notin> set (opt_int_text v)" "set (opt_int_text v) \<subseteq> item_chars"
  using int_text_no_colon int_item_chars by (auto simp: opt_int_text_def split: option.splits)

lemma int_text_nonempty: "int_text v \<noteq> []"
  by (simp add: int_text_def decimal_nonempty)

lemma read_opt_int: "pred_option isize v \<Longrightarrow> parse_opt_isize token (opt_int_text v) = Inr v"
  by (cases v) (auto simp: parse_opt_isize_def opt_int_text_def trim_item_chars int_item_chars int_text_nonempty parse_int_text)

lemma read_slice:
  assumes "printable_item (SliceSeg sl)"
  shows "parse_json_path_slice (slice_text sl) = Inr (SliceSeg sl)"
proof (cases "sl_step sl")
  case None
  have "slice_text sl = join [58] [opt_int_text (sl_start sl), opt_int_text (sl_end sl)]"
    by (simp add: slice_text_def None)
  then have "split_on (\<lambda>c. c = 58) (slice_text sl) = [opt_int_text (sl_start sl), opt_int_text (sl_end sl)]"
    using split_join[of "[opt_int_text (sl_start sl), opt_int_text (sl_end sl)]" 58] opt_int_text_props by simp
  then show ?thesis using assms None by (simp add: parse_json_path_slice_def read_opt_int)
next
  case (Some k)
  have "slice_text sl = join [58] [opt_int_text (sl_start sl), opt_int_text (sl_end sl), opt_int_text (Some k)]"
    by (simp add: slice_text_def Some opt_int_text_def)
  then have "split_on (\<lambda>c. c = 58) (slice_text sl) =
      [opt_int_text (sl_start sl), opt_int_text (sl_end sl), opt_int_text (Some k)]"
    using split_join[of "[opt_int_text (sl_start sl), opt_int_text (sl_end sl), opt_int_text (Some k)]" 58]
      opt_int_text_props by simp
  then show ?thesis using assms Some by (auto simp: parse_json_path_slice_def read_opt_int)
qed

lemma starts_with_hd: "starts_with s [c] \<longleftrightarrow> s \<noteq> [] \<and> hd s = c"
  by (cases s) auto

lemma int_text_hd: "hd (int_text v) = 45 \<or> 48 \<le> hd (int_text v) \<and> hd (int_text v) \<le> 57"
  using digits_decimal[of "hd (decimal (nat v))" "nat v"] decimal_nonempty by (auto simp: int_text_def)

lemma read_int:
  assumes "isize v"
  shows "bracket_item env (int_text v) = (if 0 \<le> v then Inr (IndexSeg (nat v))
    else if v = - isize_max - 1 then Inl PathPanic else Inr (FromEndSeg (nat (- v))))"
proof -
  have "\<not> starts_with (int_text v) [39]" "\<not> starts_with (int_text v) [34]"
    "\<not> starts_with (int_text v) (lit ''?('')" "int_text v \<noteq> [42]"
    using int_text_hd[of v] by (cases "int_text v"; auto)+
  then show ?thesis
    using int_text_no_colon[of v] parse_int_text[OF assms] by (simp add: bracket_item_def del: lit_simps)
qed

lemma slice_text_colon: "58 \<in> set (slice_text sl)"
  by (simp add: slice_text_def)

lemma read_slice_item:
  assumes "printable_item (SliceSeg sl)"
  shows "bracket_item env (slice_text sl) = Inr (SliceSeg sl)"
proof -
  obtain c cs where t: "slice_text sl = c # cs" using slice_text_colon[of sl] by (cases "slice_text sl") auto
  then have "c \<in> item_chars" using slice_item_chars[of sl] by auto
  then have "\<not> starts_with (slice_text sl) [39]" "\<not> starts_with (slice_text sl) [34]"
    "\<not> starts_with (slice_text sl) (lit ''?('')"
    by (auto simp: t item_chars_def)
  moreover have "slice_text sl \<noteq> [42]" using slice_text_colon[of sl] by auto
  ultimately show ?thesis
    using slice_text_colon[of sl] read_slice[OF assms] by (simp add: bracket_item_def del: lit_simps)
qed

lemma read_item: "printable_item s \<Longrightarrow> bracket_item env (item_text s) = Inr s"
proof (cases s)
  case (FieldSeg f)
  then show ?thesis using read_quoted[of f] by (simp add: bracket_item_def quoted_def)
next
  case (IndexSeg i)
  moreover assume "printable_item s"
  ultimately show ?thesis using read_int[of "int i"] by (simp add: isize_def)
next
  case (FromEndSeg k)
  moreover assume "printable_item s"
  ultimately show ?thesis using read_int[of "- int k"] by (simp add: isize_def)
next
  case (SliceSeg sl)
  moreover assume "printable_item s"
  ultimately show ?thesis using read_slice_item[of sl] by simp
qed (simp_all add: bracket_item_def)

subsection \<open>Reading a path\<close>

lemma read_single: "printable_item s \<Longrightarrow> parse_json_path_bracket_token env (item_text s) = Inr s"
proof -
  assume p: "printable_item s"
  have "union_items t Plain 0 [] (item_text s) = Inr [item_text s]" for t
    using unions_items.scan_item[where st = 0 and token = t and s = s and cur = "[]" and cs = "[]"] p
      trim_item[OF p] item_text_nonempty[OF p] by simp
  then show ?thesis
    using read_item[OF p] trim_item[OF p]
    by (simp add: parse_json_path_bracket_token.simps[of env "item_text s"] split_json_path_union_items_def)
qed

lemma union_items_join:
  "ss \<noteq> [] \<Longrightarrow> list_all printable_item ss \<Longrightarrow>
     union_items t Plain 0 [] (join [44] (map item_text ss)) = Inr (map item_text ss)"
proof (induction ss)
  case (Cons s ss)
  have s: "printable_item s" using Cons.prems by simp
  note pass = unions_items.scan_item[where st = 0 and token = t and s = s and cur = "[]"]
  show ?case
  proof (cases ss)
    case Nil
    then show ?thesis using pass[of "[]"] s trim_item[OF s] item_text_nonempty[OF s] by simp
  next
    case (Cons u us)
    then have "union_items t Plain 0 [] (join [44] (map item_text ss)) = Inr (map item_text ss)"
      using Cons.IH Cons.prems by simp
    then show ?thesis
      using pass[of "44 # join [44] (map item_text ss)"] s trim_item[OF s] item_text_nonempty[OF s] Cons by simp
  qed
qed simp

lemma item_text_chars: "printable_item s \<Longrightarrow> (\<exists>f. s = FieldSeg f) \<or> set (item_text s) \<subseteq> item_chars"
  using int_item_chars slice_item_chars by (cases s) (auto simp: item_chars_def)

lemma item_ends:
  assumes "printable_item s"
  shows "\<not> is_whitespace (hd (item_text s)) \<and> \<not> is_whitespace (last (item_text s))"
proof (cases "\<exists>f. s = FieldSeg f")
  case True
  then show ?thesis by (auto simp: quoted_def is_whitespace_def)
next
  case False
  then have "set (item_text s) \<subseteq> item_chars" using item_text_chars[OF assms] by blast
  moreover have "hd (item_text s) \<in> set (item_text s)" "last (item_text s) \<in> set (item_text s)"
    using item_text_nonempty[OF assms] by simp_all
  ultimately show ?thesis using item_char_solid by blast
qed

lemma trim_join_items:
  assumes "2 \<le> length ss" "list_all printable_item ss"
  shows "trim (join [44] (map item_text ss)) = join [44] (map item_text ss)"
proof -
  have join_ends: "join [44] (map item_text us) \<noteq> [] \<and> \<not> is_whitespace (hd (join [44] (map item_text us))) \<and>
      \<not> is_whitespace (last (join [44] (map item_text us)))" if "us \<noteq> []" "list_all printable_item us" for us
    using that
  proof (induction us)
    case (Cons u us)
    then show ?case using item_ends[of u] item_text_nonempty[of u] by (cases us) auto
  qed simp
  have "ss \<noteq> []" using assms(1) by auto
  then show ?thesis using join_ends[of ss] assms(2) by (intro trim_ends) blast+
qed

lemma read_bracket_token: "printable_bracket s \<Longrightarrow> parse_json_path_bracket_token env (item_text s) = Inr s"
proof (cases "\<exists>ss. s = UnionSeg ss")
  case True
  then obtain ss where s: "s = UnionSeg ss" by blast
  assume "printable_bracket s"
  then have l: "2 \<le> length ss" "list_all printable_item ss" using s by simp_all
  have "union_items t Plain 0 [] (join [44] (map item_text ss)) = Inr (map item_text ss)" for t
    by (rule union_items_join) (use l in auto)
  moreover have "collect_results (parse_json_path_bracket_token env) (map item_text ss) = Inr (map (\<lambda>s. s) ss)"
    by (rule collect_results_map) (use l in \<open>auto simp: list_all_iff read_single\<close>)
  ultimately show ?thesis
    using trim_join_items[OF l] l(1)
    by (simp add: s parse_json_path_bracket_token.simps[of env "join [44] (map item_text ss)"] split_json_path_union_items_def)
next
  case False
  assume "printable_bracket s"
  then have "printable_item s" using False by (cases s) auto
  then show ?thesis by (rule read_single)
qed

lemma trim_bracket: "printable_bracket s \<Longrightarrow> trim (item_text s) = item_text s"
  using trim_item[of s] by (cases s) (simp_all add: trim_join_items del: item_text.simps(1-5))

lemma read_bracket:
  assumes "printable_bracket s"
  shows "parse_json_path_bracket env (item_text s @ 93 # cs) = Inr (s, cs)"
proof -
  have "bracket_token Plain 0 [] (item_text s @ 93 # cs) = Inr (item_text s, cs)"
    using bracket_items.scan_bracket[where st = 0 and s = s and cur = "[]" and cs = "93 # cs"] assms by simp
  then show ?thesis
    using read_bracket_token[OF assms] trim_bracket[OF assms] by (simp add: parse_json_path_bracket_def)
qed

lemma read_segment:
  assumes "printable s"
  shows "parse_segments env (seg_text s @ cs) = and_then (parse_segments env cs) (\<lambda>ss. Inr (s # ss))"
proof (cases "\<exists>t. s = DescentSeg t")
  case True
  then obtain t where s: "s = DescentSeg t" by blast
  then have "parse_json_path_bracket env (item_text t @ 93 # cs) = Inr (t, cs)"
    using assms by (intro read_bracket) simp
  then show ?thesis
    by (simp add: s parse_segments.simps[of _ "46 # _"] parse_recursive_descent_def)
next
  case False
  then have "seg_text s = [91] @ item_text s @ [93]" "printable_bracket s"
    using assms by (cases s; simp)+
  then show ?thesis
    using read_bracket[of s env cs] by (simp add: parse_segments.simps[of _ "91 # _"])
qed

lemma read_segments: "list_all printable segs \<Longrightarrow> parse_segments env (concat (map seg_text segs)) = Inr segs"
  by (induction segs) (simp_all add: read_segment parse_segments.simps[of env "[]"])

lemma read_path: "list_all printable segs \<Longrightarrow> parse_json_path env (path_text segs) = Inr segs"
  by (simp add: parse_json_path_def path_text_def read_segments)

text \<open>
  C12: A path of fields, indices, wildcards, slices, unions and recursive descents written in the
  bracket notation is parsed as itself: the quotes and backslashes of its field names are undone,
  and brackets, commas, dots and operators in them are text.
\<close>

theorem path_roundtrip:
  assumes "list_all printable segs"
  shows "parse_json_path env (path_text segs) = Inr segs"
  using assms by (rule read_path)

theorem path_roundtrip_witness:
  "parse_json_path path_env (path_text [FieldSeg (lit ''a']||.b''), DescentSeg WildcardSeg,
      UnionSeg [FieldSeg (lit ''x,y''), IndexSeg 3, FromEndSeg 1]]) =
    Inr [FieldSeg (lit ''a']||.b''), DescentSeg WildcardSeg,
      UnionSeg [FieldSeg (lit ''x,y''), IndexSeg 3, FromEndSeg 1]]"
  by (rule path_roundtrip) (simp add: isize_max_def)

subsection \<open>Combination operators\<close>

definition path_operators :: "ustr set" where
  "path_operators = {path_or, path_zip, path_and}"

lemma operator_head:
  "operator \<in> path_operators \<Longrightarrow> starts_with (c # cs) operator \<Longrightarrow> c = 124 \<or> c = 37 \<or> c = 38"
  by (auto simp: path_operators_def path_or_def path_zip_def path_and_def)

lemma branches_pass:
  assumes "operator \<in> path_operators" "c \<notin> {34, 37, 38, 39, 40, 41, 91, 93, 123, 124, 125}"
  shows "operator_branches path operator found Plain st cur (c # cs) =
    operator_branches path operator found Plain st (cur @ [c]) cs"
proof -
  have "\<not> starts_with (c # cs) operator" using operator_head[OF assms(1), of c cs] assms(2) by auto
  moreover have "operator_depths st c = st" using assms(2) by (auto simp: operator_depths_def split: prod.splits)
  ultimately show ?thesis using assms(2) by simp
qed

declare operator_branches.simps(2) [simp del]

interpretation combination_items: union_scanner "operator_branches path operator found"
  "\<lambda>st. operator \<in> path_operators" for path operator found
  by unfold_locales (rule branches_pass, auto simp: item_chars_def)+

lemma branches_open:
  assumes "operator \<in> path_operators" "printable_bracket s"
  shows "operator_branches path operator found Plain (0, 0, 0) cur (91 # item_text s @ 93 # cs) =
    operator_branches path operator found Plain (0, 0, 0) (cur @ 91 # item_text s @ [93]) cs"
proof -
  have o: "\<not> starts_with (91 # xs) operator" "\<not> starts_with (93 # xs) operator" for xs
    using operator_head[OF assms(1)] by fastforce+
  have "operator_branches path operator found Plain (0, 0, 0) cur (91 # item_text s @ 93 # cs) =
      operator_branches path operator found Plain (1, 0, 0) (cur @ [91]) (item_text s @ 93 # cs)"
    by (simp add: o operator_depths_def operator_branches.simps(2))
  also have "\<dots> = operator_branches path operator found Plain (1, 0, 0) ((cur @ [91]) @ item_text s) (93 # cs)"
    by (rule combination_items.scan_bracket) (use assms in auto)
  also have "\<dots> = operator_branches path operator found Plain (0, 0, 0) (cur @ 91 # item_text s @ [93]) cs"
    by (simp add: o operator_depths_def operator_branches.simps(2))
  finally show ?thesis .
qed

lemma branches_segment:
  assumes "operator \<in> path_operators" "printable s"
  shows "operator_branches path operator found Plain (0, 0, 0) cur (seg_text s @ cs) =
    operator_branches path operator found Plain (0, 0, 0) (cur @ seg_text s) cs"
proof (cases "\<exists>t. s = DescentSeg t")
  case True
  then show ?thesis using assms by (auto simp: branches_pass branches_open)
next
  case False
  then have "seg_text s = 91 # item_text s @ [93]" "printable_bracket s" using assms(2) by (cases s; simp)+
  then show ?thesis using branches_open[OF assms(1)] by simp
qed

lemma branches_path:
  assumes "operator \<in> path_operators" "list_all printable segs"
  shows "operator_branches path operator found Plain (0, 0, 0) cur (path_text segs @ cs) =
    operator_branches path operator found Plain (0, 0, 0) (cur @ path_text segs) cs"
proof -
  have "operator_branches path operator found Plain (0, 0, 0) cur (concat (map seg_text segs) @ cs) =
      operator_branches path operator found Plain (0, 0, 0) (cur @ concat (map seg_text segs)) cs" for cur
    using assms(2) by (induction segs arbitrary: cur) (simp_all add: branches_segment[OF assms(1)])
  then show ?thesis
    by (simp add: path_text_def branches_pass[OF assms(1)])
qed

lemma trim_path: "trim (path_text segs) = path_text segs" "path_text segs \<noteq> []"
proof -
  have "last (path_text segs) = 36 \<or> last (path_text segs) = 93"
  proof (cases segs rule: rev_cases)
    case (snoc ss s)
    have "last (seg_text s) = 93" "seg_text s \<noteq> []" by (cases s; simp)+
    then show ?thesis by (simp add: path_text_def snoc)
  qed (simp add: path_text_def)
  moreover have "\<not> is_whitespace 36" "\<not> is_whitespace 93" by (simp_all add: is_whitespace_def)
  ultimately have "\<not> is_whitespace (last (path_text segs))" "\<not> is_whitespace (hd (path_text segs))"
    by (auto simp: path_text_def simp del: last.simps)
  then show "trim (path_text segs) = path_text segs"
    by (intro trim_ends) (simp_all add: path_text_def)
qed (simp add: path_text_def)

lemma branches_operator:
  assumes "operator \<in> path_operators"
  shows "operator_branches path operator found Plain (0, 0, 0) (path_text segs) (operator @ cs) =
    and_then (operator_branches path operator True Plain (0, 0, 0) [] cs)
      (\<lambda>branches. Inr (Some (path_text segs # (case branches of None \<Rightarrow> [] | Some bs \<Rightarrow> bs))))"
  using assms trim_path
  by (auto simp: path_operators_def path_or_def path_zip_def path_and_def operator_branches.simps(2))

lemma branches_other_operator:
  assumes "operator \<in> path_operators" "other \<in> path_operators" "operator \<noteq> other"
  shows "operator_branches path operator found Plain (0, 0, 0) cur (other @ cs) =
    operator_branches path operator found Plain (0, 0, 0) (cur @ other) cs"
  using assms
  by (auto simp: path_operators_def path_or_def path_zip_def path_and_def operator_depths_def operator_branches.simps(2))

lemma branches_joined:
  assumes "operator \<in> path_operators"
  shows "ps \<noteq> [] \<Longrightarrow> list_all (list_all printable) ps \<Longrightarrow>
    operator_branches path operator True Plain (0, 0, 0) [] (join operator (map path_text ps)) = Inr (Some (map path_text ps))"
proof (induction ps)
  case (Cons p ps)
  note pass = branches_path[OF assms, where segs = p and cur = "[]"]
  show ?case
  proof (cases ps)
    case Nil
    then show ?thesis using pass[of path True "[]"] Cons.prems trim_path by simp
  next
    case (Cons u us)
    then show ?thesis
      using pass Cons.prems Cons.IH branches_operator[OF assms] by simp
  qed
qed simp

lemma branches_absent:
  assumes "operator \<in> path_operators" "other \<in> path_operators" "operator \<noteq> other"
  shows "list_all (list_all printable) ps \<Longrightarrow>
    operator_branches path operator False Plain (0, 0, 0) cur (join other (map path_text ps)) = Inr None"
proof (induction ps arbitrary: cur)
  case (Cons p ps)
  note pass = branches_path[OF assms(1), where segs = p and found = False]
  show ?case
  proof (cases ps)
    case Nil
    then show ?thesis using pass[where cs = "[]"] Cons.prems by simp
  next
    case (Cons u us)
    then show ?thesis
      using pass Cons.prems Cons.IH branches_other_operator[OF assms] by simp
  qed
qed simp

lemma split_joined:
  assumes "operator \<in> path_operators" "2 \<le> length ps" "list_all (list_all printable) ps"
  shows "split_json_path_top_level_operator (join operator (map path_text ps)) operator = Inr (Some (map path_text ps))"
proof -
  obtain p u us where ps: "ps = p # u # us" using assms(2) by (cases ps; cases "tl ps") auto
  note pass = branches_path[OF assms(1), where segs = p and cur = "[]" and found = False]
  have "operator \<noteq> []" using assms(1) by (auto simp: path_operators_def path_or_def path_zip_def path_and_def)
  then show ?thesis
    using pass assms(3) branches_operator[OF assms(1)] branches_joined[OF assms(1), of "u # us"]
    by (simp add: split_json_path_top_level_operator_def ps)
qed

lemma split_absent:
  assumes "operator \<in> path_operators" "other \<in> path_operators" "operator \<noteq> other" "list_all (list_all printable) ps"
  shows "split_json_path_top_level_operator (join other (map path_text ps)) operator = Inr None"
proof -
  have "operator \<noteq> []" using assms(1) by (auto simp: path_operators_def path_or_def path_zip_def path_and_def)
  then show ?thesis using branches_absent[OF assms] by (simp add: split_json_path_top_level_operator_def)
qed

lemma split_single:
  "operator \<in> path_operators \<Longrightarrow> list_all printable p \<Longrightarrow>
    split_json_path_top_level_operator (path_text p) operator = Inr None"
  using branches_path[where segs = p and found = False and cur = "[]" and cs = "[]"]
  by (auto simp: split_json_path_top_level_operator_def path_operators_def path_or_def path_zip_def path_and_def)

definition path_result :: "json_env \<Rightarrow> json \<Rightarrow> segment list \<Rightarrow> ustr list parsed" where
  \<comment> \<open>the texts of what a parsed path selects\<close>
  "path_result env v segs = (case evaluate_terminal env v segs of
     None \<Rightarrow> Inl PathPanic | Some vs \<Rightarrow> Inr (map (json_value_to_rule_text env) vs))"

lemma expression_path:
  "list_all printable p \<Longrightarrow> evaluate_json_path_expression env v (path_text p) = path_result env v p"
proof -
  assume p: "list_all printable p"
  have "\<not> starts_with (path_text p) [123, 36]" by (simp add: path_text_def)
  then show ?thesis
    using split_single[OF _ p] read_path[OF p, of env]
    by (simp add: evaluate_json_path_expression.simps[of env v "path_text p"] path_operators_def
      evaluate_json_path_rule_def split_legado_template_path_def evaluate_path_text_def path_result_def)
qed

lemma operators_distinct: "path_or \<noteq> path_zip" "path_or \<noteq> path_and" "path_zip \<noteq> path_and"
  by (simp_all add: path_or_def path_zip_def path_and_def)

lemma first_nonempty_map: "(\<And>x. x \<in> set xs \<Longrightarrow> f (g x) = h x) \<Longrightarrow> first_nonempty f (map g xs) = first_nonempty h xs"
proof (induction xs)
  case (Cons x xs)
  then show ?case by (cases "h x") simp_all
qed simp

lemma collect_results_map_eq: "(\<And>x. x \<in> set xs \<Longrightarrow> f (g x) = h x) \<Longrightarrow> collect_results f (map g xs) = collect_results h xs"
  by (induction xs) auto



end
