(* ===== verification/PathFilterProps.thy ===== *)
theory PathFilterProps
  imports PathPrint
begin

text \<open>
  Filters: a separator that overlaps the one before it cuts a text backwards, which panics; and
  the comparisons of a filter never hold together with their opposites, nor when the two sides
  cannot be compared.
\<close>

subsection \<open>Overlapping separators\<close>

definition name_chars :: "nat set" where
  \<comment> \<open>letters, digits, underscore, dot and \<open>@\<close>\<close>
  "name_chars = {46, 64, 95} \<union> {48..57} \<union> {65..90} \<union> {97..122}"

declare filter_conditions.simps [simp del]

lemma conditions_step:
  assumes "c \<in> name_chars"
  shows "filter_conditions or_separators Plain (0, 0, start) pre (c # cs) =
    filter_conditions or_separators Plain (0, 0, start) (pre @ [c]) cs"
proof -
  have c: "c \<noteq> 39" "c \<noteq> 34" "c \<noteq> 47" "c \<noteq> 124" "c \<noteq> 32" "c \<noteq> 91" "c \<noteq> 93" "c \<noteq> 40" "c \<noteq> 41"
    using assms by (auto simp: name_chars_def)
  have "find (starts_with (c # cs)) or_separators = None"
    using c by (simp add: or_separators_def)
  then show ?thesis using c by (simp add: filter_conditions.simps(2) del: lit_simps)
qed

lemma conditions_pass:
  "set a \<subseteq> name_chars \<Longrightarrow> filter_conditions or_separators Plain (0, 0, start) pre (a @ cs) =
     filter_conditions or_separators Plain (0, 0, start) (pre @ a) cs"
  by (induction a arbitrary: pre) (simp_all add: conditions_step)

lemma name_solid: "c \<in> name_chars \<Longrightarrow> \<not> is_whitespace c"
  by (auto simp: is_whitespace_def name_chars_def)

lemma triple_bar_panics:
  assumes "set a \<subseteq> name_chars" "a \<noteq> []"
  shows "split_filter_conditions (a @ [124, 124, 124] @ b) or_separators = Inl PathPanic"
proof -
  have s: "\<not> blank a" "trim a \<noteq> []"
  proof -
    have "hd a \<in> name_chars" "last a \<in> name_chars" using assms by auto
    then have "\<not> is_whitespace (hd a)" "\<not> is_whitespace (last a)" using name_solid by blast+
    then have "trim a = a" using assms(2) by (intro trim_ends)
    then show "\<not> blank a" "trim a \<noteq> []" using assms(2) by (auto simp: blank_def)
  qed
  have f: "find (starts_with (124 # 124 # cs)) or_separators = Some [124, 124]" for cs
    by (simp add: or_separators_def)
  have "filter_conditions or_separators Plain (0, 0, 0) [] (a @ [124, 124, 124] @ b) =
      filter_conditions or_separators Plain (0, 0, 0) a ([124, 124, 124] @ b)"
    using conditions_pass[OF assms(1), of 0 "[]"] by simp
  also have "\<dots> = Inl PathPanic"
    using s by (simp add: f Let_def filter_conditions.simps(2) del: lit_simps)
  finally show ?thesis by (simp add: split_filter_conditions_def or_separators_def)
qed

lemma trim_end_append: "x \<noteq> [] \<Longrightarrow> \<not> is_whitespace (last x) \<Longrightarrow> trim_end (x @ y) = x @ trim_end y"
  by (cases x rule: rev_cases) (auto simp: trim_end_def dropWhile_append)

lemma expression_panics:
  assumes "set a \<subseteq> name_chars"
  shows "parse_filter_expression env (64 # a @ [124, 124, 124] @ b) = Inl PathPanic"
proof -
  have t: "trim (64 # a @ [124, 124, 124] @ b) = (64 # a) @ [124, 124, 124] @ trim_end b"
    using trim_end_append[of "64 # a @ [124, 124, 124]" b]
    by (simp add: trim_def trim_start_def is_whitespace_def)
  have "strip_enclosing_filter_parentheses (64 # cs) = None" for cs
  proof -
    have "trim (64 # cs) = 64 # trim_end cs \<or> trim (64 # cs) = [64]"
      by (cases "trim_end cs = []") (auto simp: trim_def trim_start_def trim_end_def is_whitespace_def dropWhile_append)
    then show ?thesis by (auto simp: strip_enclosing_filter_parentheses_def)
  qed
  then have "strip_filter_parentheses (64 # cs) = 64 # cs" for cs
    by (simp add: strip_filter_parentheses.simps)
  then show ?thesis
    using t triple_bar_panics[of "64 # a" "trim_end b"] assms
    by (simp add: parse_filter_expression.simps[of env "64 # _"] name_chars_def)
qed

definition filter_path_text :: "ustr \<Rightarrow> ustr" where
  "filter_path_text e = [36, 91, 63, 40] @ e @ [41, 93]"

lemma bracket_pass: "set t \<subseteq> insert 124 name_chars \<Longrightarrow>
    bracket_token Plain p cur (t @ cs) = bracket_token Plain p (cur @ t) cs"
  by (induction t arbitrary: cur) (auto simp: name_chars_def)

lemma union_pass: "set t \<subseteq> insert 124 name_chars \<Longrightarrow>
    union_items token Plain p cur (t @ cs) = union_items token Plain p (cur @ t) cs"
  by (induction t arbitrary: cur) (auto simp: name_chars_def)

lemma branches_inside: "set t \<subseteq> insert 124 name_chars \<Longrightarrow> st \<noteq> (0, 0, 0) \<Longrightarrow>
    operator_branches path operator found Plain st cur (t @ cs) = operator_branches path operator found Plain st (cur @ t) cs"
proof (induction t arbitrary: cur)
  case (Cons c t)
  then have "operator_depths st c = st" "quote_step Plain c = None"
    by (auto simp: name_chars_def operator_depths_def split: prod.splits)
  then show ?case using Cons by (simp add: operator_branches.simps(2))
qed simp

text \<open>
  C34: A path rule with a filter that has three bars between its conditions panics, whatever the
  document: the second and third bar are found as a separator again, and the text between the two
  separators is cut from behind the first to before the second, which starts one position earlier.
\<close>

theorem triple_bar_filter_panics:
  assumes "parse_json env input = Inr doc" "set a \<subseteq> name_chars" "set b \<subseteq> name_chars"
  shows "apply_json_path env input (filter_path_text (64 # a @ [124, 124, 124] @ b)) = Inl RulePanic"
proof -
  define e where "e = 64 # a @ [124, 124, 124] @ b"
  have e: "set e \<subseteq> insert 124 name_chars" using assms(2,3) by (auto simp: e_def name_chars_def)
  have token: "trim ([63, 40] @ e @ [41]) = [63, 40] @ e @ [41]"
    by (rule trim_ends) (auto simp: is_whitespace_def)
  have "trim e = 64 # a @ [124, 124, 124] @ trim_end b"
    using trim_end_append[of "64 # a @ [124, 124, 124]" b]
    by (simp add: e_def trim_def trim_start_def is_whitespace_def)
  then have "parse_json_path_filter env ([63, 40] @ e @ [41]) = Inl PathPanic"
    using expression_panics[OF assms(2), of env "trim_end b"]
    by (simp add: parse_json_path_filter_def ends_with_def)
  then have "bracket_item env ([63, 40] @ e @ [41]) = Inl PathPanic"
    by (simp add: bracket_item_def)
  moreover have "split_json_path_union_items ([63, 40] @ e @ [41]) = Inr [[63, 40] @ e @ [41]]"
    using union_pass[OF e] token by (simp add: split_json_path_union_items_def)
  ultimately have "parse_json_path_bracket_token env ([63, 40] @ e @ [41]) = Inl PathPanic"
    using token by (simp add: parse_json_path_bracket_token.simps[of env "63 # _"])
  moreover have "bracket_token Plain 0 [] ([63, 40] @ e @ [41, 93]) = Inr ([63, 40] @ e @ [41], [])"
    using bracket_pass[OF e] by simp
  ultimately have "parse_json_path_bracket env ([63, 40] @ e @ [41, 93]) = Inl PathPanic"
    using token by (simp add: parse_json_path_bracket_def)
  then have parse: "parse_json_path env (filter_path_text e) = Inl PathPanic"
    by (simp add: parse_json_path_def filter_path_text_def parse_segments.simps[of _ "91 # _"])
  have split: "split_json_path_top_level_operator (filter_path_text e) operator = Inr None"
    if "operator \<in> path_operators" for operator
  proof -
    have o: "\<not> starts_with (c # xs) operator" if "c \<in> {36, 91, 63, 40}" for c xs
      using operator_head[OF \<open>operator \<in> path_operators\<close>, of c xs] that by auto
    have "operator \<noteq> []" using that by (auto simp: path_operators_def path_or_def path_zip_def path_and_def)
    then show ?thesis
      using branches_inside[OF e, of "(1, 1, 0)"]
      by (simp add: split_json_path_top_level_operator_def filter_path_text_def o operator_branches.simps(2) operator_depths_def)
  qed
  have "evaluate_json_path_expression env doc (filter_path_text e) = Inl PathPanic"
    using parse split
    by (simp add: evaluate_json_path_expression.simps[of env doc "filter_path_text e"] path_operators_def
      evaluate_json_path_rule_def split_legado_template_path_def evaluate_path_text_def)
      (simp add: filter_path_text_def)
  then show ?thesis using assms(1) by (simp add: apply_json_path_def e_def)
qed

theorem triple_bar_filter_panics_witness:
  "apply_json_path path_env (lit ''null'') (filter_path_text (lit ''@.a|||@.b'')) = Inl RulePanic"
  using triple_bar_filter_panics[of path_env "lit ''null''" JNull "lit ''.a''" "lit ''@.b''"]
  by (simp add: path_env_def name_chars_def)

end
