(* ===== verification/HtmlDom.thy ===== *)
theory HtmlDom
  imports RuleTypes
begin

text \<open>
  HTML documents as the CSS and XPath engines of \<open>crates/reader-rule/src/lib.rs\<close> read them:
  the node tree that \<open>scraper\<close> builds, element references as paths into it, and the texts the
  code takes from an element. Parsing HTML, compiling and matching selectors, and serialising
  a node are \<open>scraper\<close>'s and are the fields of \<open>html_env\<close>.
\<close>

subsection \<open>Documents\<close>

datatype html_node = HtmlElement ustr "(ustr \<times> ustr) list" "html_node list"
    \<comment> \<open>the local name, the attributes and the children\<close>
  | HtmlText ustr
  | HtmlComment ustr
  | HtmlOther \<comment> \<open>a doctype, a processing instruction or a fragment root\<close>

type_synonym html_doc = "html_node list" \<comment> \<open>the children of the root\<close>

type_synonym html_path = "nat list" \<comment> \<open>an element reference: the child to take at each level\<close>

fun node_at :: "html_node list \<Rightarrow> html_path \<Rightarrow> html_node" where
  "node_at ns [] = HtmlOther"
| "node_at ns (i # p) = (if i < length ns
     then (if p = [] then ns ! i else (case ns ! i of HtmlElement name attrs kids \<Rightarrow> node_at kids p | _ \<Rightarrow> HtmlOther))
     else HtmlOther)"

record compiled_selector =
  sel_document :: "html_doc \<Rightarrow> html_path list" \<comment> \<open>\<open>document.select\<close>\<close>
  sel_element :: "html_doc \<Rightarrow> html_path \<Rightarrow> html_path list" \<comment> \<open>\<open>element.select\<close>\<close>
  sel_matches :: "html_doc \<Rightarrow> html_path \<Rightarrow> bool" \<comment> \<open>\<open>selector.matches\<close>\<close>

record html_env =
  parse_document :: "ustr \<Rightarrow> html_doc" \<comment> \<open>\<open>Html::parse_document\<close>\<close>
  parse_selector :: "ustr \<Rightarrow> ustr + compiled_selector" \<comment> \<open>\<open>Selector::parse\<close>, with the \<open>{err:?}\<close> of its error\<close>
  outer_html :: "html_node \<Rightarrow> ustr" \<comment> \<open>\<open>element.html\<close>\<close>
  inner_html :: "html_node \<Rightarrow> ustr"
  html_lower :: "ustr \<Rightarrow> ustr" \<comment> \<open>\<open>str::to_lowercase\<close>\<close>

fun children_of :: "html_node \<Rightarrow> html_node list" where
  "children_of (HtmlElement name attrs kids) = kids"
| "children_of n = []"

fun attr_of :: "html_node \<Rightarrow> ustr \<Rightarrow> ustr option" where
  "attr_of (HtmlElement name attrs kids) attr = map_of attrs attr"
| "attr_of n attr = None"

fun is_element :: "html_node \<Rightarrow> bool" where
  "is_element (HtmlElement name attrs kids) = True"
| "is_element n = False"

fun is_script_or_style :: "html_node \<Rightarrow> bool" where
  "is_script_or_style (HtmlElement name attrs kids) = (name = lit ''script'' \<or> name = lit ''style'')"
| "is_script_or_style n = False"

definition ancestors :: "html_path \<Rightarrow> html_path list" where
  \<comment> \<open>the elements above an element, the nearest first\<close>
  "ancestors p = map (\<lambda>i. take i p) (rev [1..<length p])"

definition child_elements :: "html_doc \<Rightarrow> html_path \<Rightarrow> html_path list" where
  "child_elements doc p = (let kids = children_of (node_at doc p) in
     map (\<lambda>i. p @ [i]) (filter (\<lambda>i. is_element (kids ! i)) [0..<length kids]))"

subsection \<open>Texts\<close>

fun normalize_from :: "bool \<Rightarrow> bool \<Rightarrow> ustr \<Rightarrow> ustr" where
  \<comment> \<open>the loop of \<open>normalize_text\<close>: \<open>pending_space\<close>, and whether \<open>output\<close> holds something\<close>
  "normalize_from pending started [] = []"
| "normalize_from pending started (c # cs) =
     (if is_whitespace c \<or> c = 160 then normalize_from True started cs
      else (if pending \<and> started then [32] else []) @ [c] @ normalize_from False True cs)"

definition normalize_text :: "ustr \<Rightarrow> ustr" where
  "normalize_text s = normalize_from False False s"

definition text_boundary_names :: "string list" where
  \<comment> \<open>\<open>is_css_text_boundary_element\<close>\<close>
  "text_boundary_names = [''address'', ''article'', ''aside'', ''blockquote'', ''dd'', ''div'', ''dl'', ''dt'',
     ''fieldset'', ''figcaption'', ''figure'', ''footer'', ''form'', ''h1'', ''h2'', ''h3'', ''h4'', ''h5'', ''h6'',
     ''header'', ''hr'', ''li'', ''main'', ''nav'', ''ol'', ''p'', ''pre'', ''section'', ''table'', ''tbody'', ''td'',
     ''tfoot'', ''th'', ''thead'', ''tr'', ''ul'']"

definition is_text_boundary :: "ustr \<Rightarrow> bool" where
  "is_text_boundary name = (name \<in> lit ` set text_boundary_names)"

fun appended_text :: "html_node \<Rightarrow> ustr" where
  \<comment> \<open>what \<open>append_element_text\<close> appends for one child\<close>
  "appended_text (HtmlText t) = t"
| "appended_text (HtmlElement name attrs kids) =
     (if eq_ignore_case name (lit ''br'') then [32]
      else (let edge = (if is_text_boundary name then [32] else []) in
        edge @ concat (map appended_text kids) @ edge))"
| "appended_text n = []"

definition element_text :: "html_node \<Rightarrow> ustr" where
  "element_text n = normalize_text (concat (map appended_text (children_of n)))"

fun whole_text :: "html_node \<Rightarrow> ustr" where
  "whole_text (HtmlText t) = t"
| "whole_text (HtmlElement name attrs kids) = concat (map whole_text kids)"
| "whole_text n = []"

definition element_whole_text :: "html_node \<Rightarrow> ustr" where
  "element_whole_text n = whole_text n"

definition own_texts :: "html_node \<Rightarrow> ustr list" where
  "own_texts n = concat (map (\<lambda>k. case k of HtmlText t \<Rightarrow> [t] | _ \<Rightarrow> []) (children_of n))"

definition element_own_text :: "html_node \<Rightarrow> ustr" where
  "element_own_text n = join [32] (own_texts n)"

definition element_whole_own_text :: "html_node \<Rightarrow> ustr" where
  "element_whole_own_text n = join [] (own_texts n)"

subsection \<open>Data\<close>

fun data_in :: "(ustr \<Rightarrow> bool) \<Rightarrow> bool \<Rightarrow> html_node \<Rightarrow> bool" where
  \<comment> \<open>a comment, or a text below a script or style element, that satisfies the test; \<open>below\<close>:
     an ancestor is such an element\<close>
  "data_in test below (HtmlComment t) = test t"
| "data_in test below (HtmlText t) = (below \<and> test t)"
| "data_in test below (HtmlElement name attrs kids) =
     list_ex (data_in test (below \<or> name = lit ''script'' \<or> name = lit ''style'')) kids"
| "data_in test below HtmlOther = False"

definition css_contains_data_matches :: "html_env \<Rightarrow> html_doc \<Rightarrow> html_path \<Rightarrow> ustr \<Rightarrow> bool" where
  "css_contains_data_matches env doc p needle =
     data_in (\<lambda>t. contains (html_lower env t) (html_lower env needle))
       (list_ex (\<lambda>a. is_script_or_style (node_at doc a)) (ancestors p)) (node_at doc p)"

end
