(* ===== verification/CssCompat.thy ===== *)
theory CssCompat
  imports HtmlDom QuoteScan
begin

text \<open>
  The jsoup selector extensions that \<open>crates/reader-rule/src/lib.rs\<close> takes off a CSS selector
  before \<open>scraper\<close> compiles the rest (\<open>parse_css_compat_selector\<close>): \<open>:contains(...)\<close> and its
  variants, \<open>:containsData(...)\<close>, \<open>:has(...)\<close> around them, \<open>:parent\<close>, and the positional
  \<open>:eq(n)\<close>, \<open>:lt(n)\<close>, \<open>:gt(n)\<close>, \<open>:first\<close> and \<open>:last\<close>. A byte index into the selector is the pair
  of the text before it and the text from it on.
\<close>

subsection \<open>The parsed selector\<close>

datatype css_result_kind = ResultEq | ResultLt | ResultGt

record css_result_filter =
  rf_kind :: css_result_kind
  rf_index :: int

record css_result_group =
  rg_selector :: ustr
  rg_filters :: "css_result_filter list"

datatype css_filter_mode = MustContain | MustNotContain

datatype css_text_scope = DescendantText | OwnText | WholeDescendantText | WholeOwnText

datatype css_text_matcher = ContainsText | ContainsCaseSensitive | MatchesRegex

record css_text_filter =
  tf_value :: ustr
  tf_scope :: css_text_scope
  tf_matcher :: css_text_matcher

record css_anchored_filter =
  af_selector :: ustr
  af_text :: css_text_filter
  af_mode :: css_filter_mode

record css_data_filter =
  df_value :: ustr
  df_mode :: css_filter_mode

record css_has_data_filter =
  hd_selector :: ustr
  hd_data :: css_data_filter

record css_has_text_filter =
  ht_selector :: ustr
  ht_direct_child :: bool
  ht_text :: css_text_filter

datatype css_parent_filter = HasChildren | NoChildren

record css_compat_selector =
  cs_selector :: ustr
  cs_text_filter :: "css_text_filter option"
  cs_text_filter_mode :: css_filter_mode
  cs_result_filters :: "css_result_filter list"
  cs_result_groups :: "css_result_group list option"
  cs_data_filter :: "css_data_filter option"
  cs_has_data :: "css_has_data_filter option"
  cs_has_text :: "css_has_text_filter option"
  cs_anchored :: "css_anchored_filter option"
  cs_parent :: "css_parent_filter option"

subsection \<open>Scanning\<close>

definition css_level :: "nat \<times> nat \<Rightarrow> nat \<Rightarrow> nat \<times> nat" where
  \<comment> \<open>the depths of brackets and parentheses, with saturating subtraction\<close>
  "css_level st c = (case st of (brackets, parens) \<Rightarrow>
     if c = 91 then (brackets + 1, parens)
     else if c = 93 then (brackets - 1, parens)
     else if c = 40 then (brackets, parens + 1)
     else if c = 41 then (brackets, parens - 1)
     else st)"

fun top_level_colons :: "quote_state \<Rightarrow> nat \<times> nat \<Rightarrow> ustr \<Rightarrow> ustr \<Rightarrow> (ustr \<times> ustr) list" where
  \<comment> \<open>the places a scan for pseudo-classes looks at: colons outside quotes, brackets and parentheses\<close>
  "top_level_colons q st cur [] = []"
| "top_level_colons q st cur (c # cs) = (case quote_step q c of
       Some r \<Rightarrow> top_level_colons r st (cur @ [c]) cs
     | None \<Rightarrow> (if c = 58 \<and> st = (0, 0) then [(cur, c # cs)] else [])
         @ top_level_colons q (css_level st c) (cur @ [c]) cs)"

interpretation colons: quote_scanner top_level_colons
  by unfold_locales simp

definition last_some :: "('a \<Rightarrow> 'b option) \<Rightarrow> 'a list \<Rightarrow> 'b option" where
  \<comment> \<open>the \<open>candidate\<close> a scanning loop ends with\<close>
  "last_some f xs = foldl (\<lambda>r x. case f x of None \<Rightarrow> r | Some y \<Rightarrow> Some y) None xs"

definition find_css_function_suffix :: "ustr \<Rightarrow> ustr \<Rightarrow> (ustr \<times> ustr) option" where
  \<comment> \<open>the text before the last top-level call of the function and the text behind its opening parenthesis\<close>
  "find_css_function_suffix selector function =
     last_some (\<lambda>(before, rest). map_option (Pair before) (strip_prefix function rest))
       (top_level_colons Plain (0, 0) [] selector)"

fun function_close :: "quote_state \<Rightarrow> nat \<times> nat \<Rightarrow> ustr \<Rightarrow> ustr \<Rightarrow> (ustr \<times> ustr) option" where
  \<comment> \<open>the loop of \<open>matching_css_function_close\<close>: the argument and the text behind its parenthesis\<close>
  "function_close q st cur [] = None"
| "function_close q st cur (c # cs) = (case quote_step q c of
       Some r \<Rightarrow> function_close r st (cur @ [c]) cs
     | None \<Rightarrow> (case st of (brackets, parens) \<Rightarrow>
         if c = 91 then function_close q (brackets + 1, parens) (cur @ [c]) cs
         else if c = 93 then function_close q (brackets - 1, parens) (cur @ [c]) cs
         else if c = 40 \<and> brackets = 0 then function_close q (brackets, parens + 1) (cur @ [c]) cs
         else if c = 41 \<and> brackets = 0 then
           (if parens - 1 = 0 then Some (cur, cs) else function_close q (brackets, parens - 1) (cur @ [c]) cs)
         else function_close q st (cur @ [c]) cs))"

interpretation arguments: quote_scanner function_close
  by unfold_locales simp

definition matching_css_function_close :: "ustr \<Rightarrow> (ustr \<times> ustr) option" where
  "matching_css_function_close rest = function_close Plain (0, 1) [] rest"

subsection \<open>Functions\<close>

definition text_functions :: "(string \<times> css_text_scope \<times> css_text_matcher) list" where
  \<comment> \<open>in the order the code tries them\<close>
  "text_functions = [
     (''containsWholeOwnText'', WholeOwnText, ContainsCaseSensitive),
     (''containsWholeText'', WholeDescendantText, ContainsCaseSensitive),
     (''containsOwn'', OwnText, ContainsText),
     (''contains'', DescendantText, ContainsText),
     (''matchesWholeOwnText'', WholeOwnText, MatchesRegex),
     (''matchesWholeText'', WholeDescendantText, MatchesRegex),
     (''matchesOwn'', OwnText, MatchesRegex),
     (''matches'', DescendantText, MatchesRegex)]"

record css_suffix = \<comment> \<open>\<open>CssTextFilterSuffix\<close>\<close>
  sx_before :: ustr
  sx_rest :: ustr
  sx_scope :: css_text_scope
  sx_matcher :: css_text_matcher
  sx_name :: ustr

fun text_function_at :: "ustr \<times> ustr \<Rightarrow> css_suffix option" where
  "text_function_at (before, rest) =
     (case find (\<lambda>(name, _, _). starts_with rest (lit ('':'' @ name @ ''(''))) text_functions of
        None \<Rightarrow> None
      | Some (name, scope, matcher) \<Rightarrow> Some
          \<lparr>sx_before = before, sx_rest = drop (length name + 2) rest, sx_scope = scope, sx_matcher = matcher,
           sx_name = lit ('':'' @ name @ ''()'')\<rparr>)"

definition find_css_text_filter_function :: "ustr \<Rightarrow> css_suffix option" where
  "find_css_text_filter_function selector =
     last_some text_function_at (top_level_colons Plain (0, 0) [] selector)"

fun not_text_function :: "ustr \<Rightarrow> (string \<times> css_text_scope \<times> css_text_matcher) list \<Rightarrow> css_suffix option" where
  "not_text_function selector [] = None"
| "not_text_function selector ((name, scope, matcher) # fs) =
     (case find_css_function_suffix selector (lit ('':not(:'' @ name @ ''('')) of
        Some (before, rest) \<Rightarrow> Some
          \<lparr>sx_before = before, sx_rest = rest, sx_scope = scope, sx_matcher = matcher,
           sx_name = lit ('':not(:'' @ name @ ''())'')\<rparr>
      | None \<Rightarrow> not_text_function selector fs)"

definition find_css_not_text_filter_function :: "ustr \<Rightarrow> css_suffix option" where
  "find_css_not_text_filter_function selector = not_text_function selector text_functions"

definition find_css_text_filter_suffix :: "ustr \<Rightarrow> css_suffix option" where
  "find_css_text_filter_suffix selector =
     (if ends_with selector [41] then find_css_text_filter_function selector else None)"

definition find_css_not_text_filter_suffix :: "ustr \<Rightarrow> css_suffix option" where
  "find_css_not_text_filter_suffix selector =
     (if ends_with selector [41, 41] then find_css_not_text_filter_function selector else None)"

definition find_css_has_filter_suffix :: "ustr \<Rightarrow> (ustr \<times> ustr) option" where
  "find_css_has_filter_suffix selector =
     (if ends_with selector [41] then find_css_function_suffix selector (lit '':has('') else None)"

definition find_css_data_filter_suffix :: "ustr \<Rightarrow> (ustr \<times> ustr) option" where
  "find_css_data_filter_suffix selector =
     (if ends_with selector [41] then find_css_function_suffix selector (lit '':containsData('') else None)"

definition find_css_not_data_filter_suffix :: "ustr \<Rightarrow> (ustr \<times> ustr) option" where
  "find_css_not_data_filter_suffix selector =
     (if ends_with selector [41, 41] then find_css_function_suffix selector (lit '':not(:containsData('') else None)"

subsection \<open>Arguments\<close>

fun argument_chars :: "nat \<Rightarrow> ustr \<Rightarrow> ustr \<Rightarrow> ustr \<Rightarrow> ustr \<Rightarrow> ustr + ustr" where
  \<comment> \<open>the loop over a quoted argument\<close>
  "argument_chars quote argument name out [] =
     Inl (lit ''unterminated CSS '' @ name @ lit '' argument in `'' @ argument @ lit ''`'')"
| "argument_chars quote argument name out (c # cs) =
     (if c = 92 \<and> cs \<noteq> [] then argument_chars quote argument name (out @ [hd cs]) (tl cs)
      else if c = quote then
        (if cs = [] then Inr out
         else Inl (lit ''unexpected trailing CSS '' @ name @ lit '' argument text in `'' @ argument @ lit ''`''))
      else argument_chars quote argument name (out @ [c]) cs)"

definition parse_css_text_filter_argument :: "ustr \<Rightarrow> ustr \<Rightarrow> ustr + ustr" where
  "parse_css_text_filter_argument argument name = (case argument of
       c # cs \<Rightarrow> if c = 39 \<or> c = 34 then argument_chars c argument name [] cs else Inr argument
     | [] \<Rightarrow> Inr argument)"

definition required_argument :: "ustr \<Rightarrow> ustr \<Rightarrow> ustr + ustr" where
  \<comment> \<open>the trimmed argument of a filter function, which must not be empty\<close>
  "required_argument name raw = (let argument = trim raw in
     if argument = [] then Inl (lit ''CSS '' @ name @ lit '' requires text'')
     else parse_css_text_filter_argument argument name)"

definition or_any :: "ustr \<Rightarrow> ustr" where
  \<comment> \<open>an empty selector selects everything\<close>
  "or_any s = (if s = [] then lit ''*'' else s)"

definition text_filter_of :: "css_suffix \<Rightarrow> ustr \<Rightarrow> css_text_filter" where
  "text_filter_of suffix v = \<lparr>tf_value = v, tf_scope = sx_scope suffix, tf_matcher = sx_matcher suffix\<rparr>"

definition unterminated_argument :: "ustr \<Rightarrow> ustr \<Rightarrow> ustr" where
  "unterminated_argument name selector = lit ''unterminated CSS '' @ name @ lit '' argument in `'' @ selector @ lit ''`''"

end
