(* ===== verification/CssParse.thy ===== *)
theory CssParse
  imports CssCompat
begin

text \<open>
  The parser of the jsoup selector extensions: the positional filters of each selector group
  (\<open>extract_css_result_filter_groups\<close>), text filters with a selector behind them
  (\<open>extract_css_anchored_text_filter\<close>), \<open>:has\<close> filters, and their composition
  (\<open>parse_css_compat_selector\<close>).
\<close>

subsection \<open>Positional filters\<close>

definition is_css_identifier_char :: "nat \<Rightarrow> bool" where
  "is_css_identifier_char c = (c = 45 \<or> c = 95 \<or> is_ascii_alphanumeric c)"

definition css_result_keyword_matches :: "ustr \<Rightarrow> ustr \<Rightarrow> bool" where
  "css_result_keyword_matches selector keyword = (case strip_prefix keyword selector of
       None \<Rightarrow> False | Some [] \<Rightarrow> True | Some (c # cs) \<Rightarrow> \<not> is_css_identifier_char c)"

definition css_result_filter_keyword :: "ustr \<Rightarrow> (css_result_filter \<times> nat) option" where
  \<comment> \<open>the filter and how many characters it takes\<close>
  "css_result_filter_keyword selector =
     (if css_result_keyword_matches selector (lit '':first'') then Some (\<lparr>rf_kind = ResultEq, rf_index = 0\<rparr>, 6)
      else if css_result_keyword_matches selector (lit '':last'') then Some (\<lparr>rf_kind = ResultEq, rf_index = - 1\<rparr>, 5)
      else None)"

definition css_result_filter_prefix :: "ustr \<Rightarrow> (css_result_kind \<times> ustr) option" where
  \<comment> \<open>every prefix has four characters\<close>
  "css_result_filter_prefix selector =
     (if starts_with selector (lit '':eq('') then Some (ResultEq, lit '':eq()'')
      else if starts_with selector (lit '':lt('') then Some (ResultLt, lit '':lt()'')
      else if starts_with selector (lit '':gt('') then Some (ResultGt, lit '':gt()'')
      else None)"

definition parse_result_index :: "ustr \<Rightarrow> ustr \<Rightarrow> ustr + int" where
  "parse_result_index name raw = (let argument = trim raw in
     if argument = [] then Inl (lit ''CSS '' @ name @ lit '' requires index'')
     else (case parse_isize argument of
         None \<Rightarrow> Inl (lit ''CSS '' @ name @ lit '' index must be an integer'')
       | Some i \<Rightarrow> Inr i))"

lemma function_close_shorter: "function_close q st cur cs = Some (a, b) \<Longrightarrow> length b < length cs"
  by (induction q st cur cs rule: function_close.induct) (auto split: option.splits if_splits prod.splits)

function result_filters :: "ustr \<Rightarrow> quote_state \<Rightarrow> nat \<times> nat \<Rightarrow> ustr \<Rightarrow> ustr + ustr \<times> css_result_filter list" where
  \<comment> \<open>the loop of \<open>extract_css_result_filters\<close>: the selector that stays and the filters taken off it\<close>
  "result_filters selector q st s = (case s of
       [] \<Rightarrow> Inr ([], [])
     | c # cs \<Rightarrow> (case quote_step q c of
         Some r \<Rightarrow> and_then (result_filters selector r st cs) (\<lambda>(t, fs). Inr (c # t, fs))
       | None \<Rightarrow>
           (let plain_char = (\<lambda>_ :: unit.
              and_then (result_filters selector q (css_level st c) cs) (\<lambda>(t, fs). Inr (c # t, fs))) in
            if c = 58 \<and> st = (0, 0) then
              (case css_result_filter_keyword s of
                 Some (flt, n) \<Rightarrow>
                   and_then (result_filters selector q st (drop (n - 1) cs)) (\<lambda>(t, fs). Inr (t, flt # fs))
               | None \<Rightarrow> (case css_result_filter_prefix s of
                 Some (kind, name) \<Rightarrow> (case matching_css_function_close (drop 4 s) of
                     None \<Rightarrow> Inl (unterminated_argument name selector)
                   | Some (argument, rest) \<Rightarrow> and_then (parse_result_index name argument) (\<lambda>i.
                       and_then (result_filters selector q st rest) (\<lambda>(t, fs).
                         Inr (t, \<lparr>rf_kind = kind, rf_index = i\<rparr> # fs))))
               | None \<Rightarrow> plain_char ()))
            else plain_char ())))"
  by pat_completeness auto
termination
  by (relation "measure (\<lambda>(selector, q, st, s). length s)")
    (auto dest!: function_close_shorter simp: matching_css_function_close_def)

declare result_filters.simps [simp del]

definition extract_css_result_filters :: "ustr \<Rightarrow> ustr + ustr \<times> css_result_filter list" where
  "extract_css_result_filters selector = result_filters selector Plain (0, 0) selector"

fun selector_groups :: "quote_state \<Rightarrow> nat \<times> nat \<Rightarrow> ustr \<Rightarrow> ustr \<Rightarrow> ustr list" where
  \<comment> \<open>the loop of \<open>split_css_selector_groups\<close>\<close>
  "selector_groups q st cur [] = [cur]"
| "selector_groups q st cur (c # cs) = (case quote_step q c of
       Some r \<Rightarrow> selector_groups r st (cur @ [c]) cs
     | None \<Rightarrow> if c = 44 \<and> st = (0, 0) then cur # selector_groups q st [] cs
         else selector_groups q (css_level st c) (cur @ [c]) cs)"

interpretation selector_groups: quote_scanner selector_groups
  by unfold_locales simp

definition split_css_selector_groups :: "ustr \<Rightarrow> ustr list" where
  "split_css_selector_groups selector = selector_groups Plain (0, 0) [] selector"

definition result_group :: "ustr \<Rightarrow> ustr + css_result_group" where
  "result_group raw = and_then (extract_css_result_filters (trim raw)) (\<lambda>(rewritten, filters).
     Inr \<lparr>rg_selector = or_any (trim rewritten), rg_filters = filters\<rparr>)"

definition extract_css_result_filter_groups ::
  "ustr \<Rightarrow> ustr + ustr \<times> css_result_filter list \<times> css_result_group list option" where
  "extract_css_result_filter_groups selector = (let parts = split_css_selector_groups selector in
     if length parts \<le> 1 then
       and_then (extract_css_result_filters selector) (\<lambda>(rewritten, filters). Inr (rewritten, filters, None))
     else and_then (collect_results result_group parts) (\<lambda>groups.
       Inr (join [44] (map rg_selector groups), [],
         if list_ex (\<lambda>g. rg_filters g \<noteq> []) groups then Some groups else None)))"

subsection \<open>Anchored text filters\<close>

definition anchored_filter :: "ustr \<Rightarrow> css_suffix \<Rightarrow> css_filter_mode \<Rightarrow> ustr \<Rightarrow> ustr \<Rightarrow>
    ustr + (ustr \<times> css_anchored_filter) option" where
  \<comment> \<open>a text filter with the argument and the tail found: without a selector on both sides there is none\<close>
  "anchored_filter selector suffix mode argument tail = (let base = trim_end (sx_before suffix) in
     if trim tail = [] \<or> base = [] then Inr None
     else and_then (required_argument (sx_name suffix) argument) (\<lambda>v.
       Inr (Some (base @ tail, \<lparr>af_selector = base, af_text = text_filter_of suffix v, af_mode = mode\<rparr>))))"

definition extract_css_anchored_text_filter :: "ustr \<Rightarrow> ustr + (ustr \<times> css_anchored_filter) option" where
  "extract_css_anchored_text_filter selector =
     (case find_css_not_text_filter_function selector of
        Some suffix \<Rightarrow> (case matching_css_function_close (sx_rest suffix) of
            None \<Rightarrow> Inl (unterminated_argument (sx_name suffix) selector)
          | Some (argument, rest) \<Rightarrow>
              if \<not> starts_with rest [41] then Inl (unterminated_argument (sx_name suffix) selector)
              else anchored_filter selector suffix MustNotContain argument (tl rest))
      | None \<Rightarrow> (case find_css_text_filter_function selector of
          None \<Rightarrow> Inr None
        | Some suffix \<Rightarrow> (case matching_css_function_close (sx_rest suffix) of
            None \<Rightarrow> Inl (unterminated_argument (sx_name suffix) selector)
          | Some (argument, tail) \<Rightarrow> anchored_filter selector suffix MustContain argument tail)))"

subsection \<open>Filters inside \<open>:has\<close>\<close>

definition parse_css_has_data_filter :: "ustr \<Rightarrow> ustr + css_has_data_filter" where
  "parse_css_has_data_filter selector = (case find_css_data_filter_suffix selector of
       None \<Rightarrow> Inl (lit ''CSS :has() compatibility requires :containsData() in `'' @ selector @ lit ''`'')
     | Some (before, rest) \<Rightarrow> and_then (required_argument (lit '':containsData()'') (butlast rest)) (\<lambda>v.
         Inr \<lparr>hd_selector = or_any (trim before), hd_data = \<lparr>df_value = v, df_mode = MustContain\<rparr>\<rparr>))"

definition parse_css_has_text_filter :: "ustr \<Rightarrow> ustr + css_has_text_filter" where
  "parse_css_has_text_filter selector = (case find_css_text_filter_suffix selector of
       None \<Rightarrow> Inl (lit ''CSS :has() compatibility requires a supported text filter in `'' @ selector @ lit ''`'')
     | Some suffix \<Rightarrow> (let base = trim (sx_before suffix); direct = starts_with base [62] in
         and_then (required_argument (sx_name suffix) (butlast (sx_rest suffix))) (\<lambda>v.
           Inr \<lparr>ht_selector = or_any (if direct then trim (dropWhile (\<lambda>c. c = 62) base) else base),
                ht_direct_child = direct, ht_text = text_filter_of suffix v\<rparr>)))"

definition css_selector_text_equivalent :: "ustr \<Rightarrow> ustr \<Rightarrow> bool" where
  "css_selector_text_equivalent s t =
     (filter (\<lambda>c. \<not> is_whitespace c) s = filter (\<lambda>c. \<not> is_whitespace c) t)"

definition strip_redundant_has_parent_filter :: "ustr \<Rightarrow> ustr option" where
  "strip_redundant_has_parent_filter selector =
     (case find_css_function_suffix selector (lit '':has('') of
        None \<Rightarrow> None
      | Some (before, rest) \<Rightarrow> (case matching_css_function_close rest of
          None \<Rightarrow> None
        | Some (inner, tail) \<Rightarrow> (case strip_suffix (lit '':parent'') (trim inner) of
            None \<Rightarrow> None
          | Some child \<Rightarrow> (let child_selector = trim child; base = trim_end before in
              if \<not> starts_with child_selector [62] then None
              else if \<not> css_selector_text_equivalent (trim tail) child_selector then None
              else if base = [] then Some child_selector
              else Some (base @ [32] @ child_selector)))))"

subsection \<open>The whole selector\<close>

definition parent_filter_of :: "ustr \<Rightarrow> ustr \<times> css_parent_filter option" where
  "parent_filter_of selector = (case strip_suffix (lit '':not(:parent)'') selector of
       Some base \<Rightarrow> (trim base, Some NoChildren)
     | None \<Rightarrow> (case strip_suffix (lit '':parent'') selector of
         Some base \<Rightarrow> (trim base, Some HasChildren)
       | None \<Rightarrow> (selector, None)))"

definition has_filters :: "ustr \<Rightarrow> ustr + ustr \<times> css_has_data_filter option \<times> css_has_text_filter option" where
  "has_filters selector = (case find_css_has_filter_suffix selector of
       None \<Rightarrow> Inr (selector, None, None)
     | Some (before, rest) \<Rightarrow> (let inner = trim (butlast rest); base = or_any (trim before) in
         if inner = [] then Inl (lit ''CSS :has() requires selector'')
         else if find_css_data_filter_suffix inner \<noteq> None then
           and_then (parse_css_has_data_filter inner) (\<lambda>f. Inr (base, Some f, None))
         else and_then (parse_css_has_text_filter inner) (\<lambda>f. Inr (base, None, Some f))))"

definition data_filter_of :: "ustr \<Rightarrow> ustr + ustr \<times> css_data_filter option" where
  "data_filter_of selector = (case find_css_not_data_filter_suffix selector of
       Some (before, rest) \<Rightarrow>
         and_then (required_argument (lit '':not(:containsData())'') (take (length rest - 2) rest)) (\<lambda>v.
           Inr (or_any (trim before), Some \<lparr>df_value = v, df_mode = MustNotContain\<rparr>))
     | None \<Rightarrow> (case find_css_data_filter_suffix selector of
         Some (before, rest) \<Rightarrow> and_then (required_argument (lit '':containsData()'') (butlast rest)) (\<lambda>v.
           Inr (or_any (trim before), Some \<lparr>df_value = v, df_mode = MustContain\<rparr>))
       | None \<Rightarrow> Inr (selector, None)))"

definition text_filter_part :: "ustr \<Rightarrow> (css_suffix \<times> ustr \<times> css_filter_mode) option" where
  \<comment> \<open>the trailing text filter with its raw argument and mode\<close>
  "text_filter_part selector = (case find_css_not_text_filter_suffix selector of
       Some suffix \<Rightarrow> Some (suffix, take (length (sx_rest suffix) - 2) (sx_rest suffix), MustNotContain)
     | None \<Rightarrow> map_option (\<lambda>suffix. (suffix, butlast (sx_rest suffix), MustContain))
         (find_css_text_filter_suffix selector))"

definition text_filter_of_selector :: "ustr \<Rightarrow> ustr + ustr \<times> css_text_filter option \<times> css_filter_mode" where
  "text_filter_of_selector selector = (case text_filter_part selector of
       None \<Rightarrow> Inr (or_any selector, None, MustContain)
     | Some (suffix, argument, mode) \<Rightarrow> and_then (required_argument (sx_name suffix) argument) (\<lambda>v.
         Inr (or_any (trim (sx_before suffix)), Some (text_filter_of suffix v), mode)))"

definition parse_css_compat_selector :: "ustr \<Rightarrow> ustr + css_compat_selector" where
  "parse_css_compat_selector raw = (case parent_filter_of (trim raw) of (s0, parent) \<Rightarrow>
     let s1 = (if parent = Some HasChildren then
           (case strip_redundant_has_parent_filter s0 of Some s \<Rightarrow> s | None \<Rightarrow> s0) else s0) in
     and_then (extract_css_result_filter_groups s1) (\<lambda>(s2, filters, groups).
     and_then (extract_css_anchored_text_filter s2) (\<lambda>anchored.
     and_then (has_filters (case anchored of None \<Rightarrow> s2 | Some (s, f) \<Rightarrow> s)) (\<lambda>(s3, has_data, has_text).
     and_then (data_filter_of s3) (\<lambda>(s4, data).
     and_then (text_filter_of_selector s4) (\<lambda>(s5, text_filter, mode).
       Inr \<lparr>cs_selector = s5, cs_text_filter = text_filter, cs_text_filter_mode = mode,
            cs_result_filters = filters, cs_result_groups = groups, cs_data_filter = data,
            cs_has_data = has_data, cs_has_text = has_text, cs_anchored = map_option snd anchored,
            cs_parent = parent\<rparr>))))))"

end
