(* ===== verification/LegadoCss.thy ===== *)
theory LegadoCss
  imports HtmlDom QuoteScan
begin

text \<open>
  Legado CSS rules (\<open>crates/reader-rule/src/lib.rs\<close>): a rule is split at top-level \<open>;\<close> and
  \<open>&&\<close> into pipeline segments, each segment at \<open>@\<close> into selectors and a final extraction
  (\<open>parse_legado_css_rule\<close>), and the steps narrow a set of elements of the parsed document
  (\<open>apply_legado_css\<close>).
\<close>

subsection \<open>Splitting\<close>

definition css_depths :: "nat \<times> nat \<Rightarrow> nat \<Rightarrow> ustr + nat \<times> nat" where
  \<comment> \<open>the depths of brackets and parentheses after one character outside quotes\<close>
  "css_depths st c = (case st of (brackets, parens) \<Rightarrow>
     if c = 91 then Inr (brackets + 1, parens)
     else if c = 93 then (if brackets = 0 then Inl (lit ''unmatched `]` in selector'') else Inr (brackets - 1, parens))
     else if c = 40 then Inr (brackets, parens + 1)
     else if c = 41 then (if parens = 0 then Inl (lit ''unmatched `)` in selector'') else Inr (brackets, parens - 1))
     else Inr st)"

definition css_end :: "quote_state \<Rightarrow> nat \<times> nat \<Rightarrow> ustr \<Rightarrow> ustr + ustr list" where
  \<comment> \<open>the checks behind the scanning loops, and the last piece\<close>
  "css_end q st cur =
     (if q \<noteq> Plain then Inl (lit ''unterminated quoted selector segment'')
      else if fst st \<noteq> 0 then Inl (lit ''unterminated attribute selector'')
      else if snd st \<noteq> 0 then Inl (lit ''unterminated selector function'')
      else Inr [cur])"

fun css_pipeline :: "quote_state \<Rightarrow> nat \<times> nat \<Rightarrow> ustr \<Rightarrow> ustr \<Rightarrow> ustr + ustr list" where
  \<comment> \<open>the loop of \<open>split_legado_css_pipeline\<close>\<close>
  "css_pipeline q st cur [] = css_end q st cur"
| "css_pipeline q st cur (c # cs) = (case quote_step q c of
       Some r \<Rightarrow> css_pipeline r st (cur @ [c]) cs
     | None \<Rightarrow>
         if st = (0, 0) \<and> c = 59 then and_then (css_pipeline q st [] cs) (\<lambda>ps. Inr (cur # ps))
         else if st = (0, 0) \<and> starts_with (c # cs) [38, 38] then
           and_then (css_pipeline q st [] (drop 1 cs)) (\<lambda>ps. Inr (cur # ps))
         else and_then (css_depths st c) (\<lambda>st'. css_pipeline q st' (cur @ [c]) cs))"

definition split_legado_css_pipeline :: "ustr \<Rightarrow> ustr + ustr list" where
  "split_legado_css_pipeline rule = css_pipeline Plain (0, 0) [] rule"

fun css_at_pipeline :: "quote_state \<Rightarrow> nat \<times> nat \<Rightarrow> ustr \<Rightarrow> ustr \<Rightarrow> ustr + ustr list" where
  \<comment> \<open>the loop of \<open>split_legado_css_at_pipeline\<close>\<close>
  "css_at_pipeline q st cur [] = css_end q st cur"
| "css_at_pipeline q st cur (c # cs) = (case quote_step q c of
       Some r \<Rightarrow> css_at_pipeline r st (cur @ [c]) cs
     | None \<Rightarrow>
         if st = (0, 0) \<and> c = 64 then and_then (css_at_pipeline q st [] cs) (\<lambda>ps. Inr (cur # ps))
         else and_then (css_depths st c) (\<lambda>st'. css_at_pipeline q st' (cur @ [c]) cs))"

definition split_legado_css_at_pipeline :: "ustr \<Rightarrow> ustr + ustr list" where
  "split_legado_css_at_pipeline part = css_at_pipeline Plain (0, 0) [] part"

interpretation css_segments: quote_scanner css_pipeline
  by unfold_locales simp

interpretation css_at_segments: quote_scanner css_at_pipeline
  by unfold_locales simp

subsection \<open>Parsing\<close>

definition parse_legado_css_extraction :: "ustr \<Rightarrow> legado_css_extraction" where
  "parse_legado_css_extraction s =
     (if eq_ignore_case s (lit ''text'') then ExtractText
      else if eq_ignore_case s (lit ''html'') then ExtractHtml
      else ExtractAttr s)"

definition bare_attributes :: "ustr list" where
  "bare_attributes = map lit [''href'', ''src'', ''alt'', ''content'', ''value'', ''title'']"

definition parse_bare_legado_css_extraction :: "ustr \<Rightarrow> legado_css_extraction option" where
  "parse_bare_legado_css_extraction s =
     (if eq_ignore_case s (lit ''text'') then Some ExtractText
      else if eq_ignore_case s (lit ''html'') then Some ExtractHtml
      else map_option ExtractAttr (find (eq_ignore_case s) bare_attributes))"

definition parse_legado_css_step :: "ustr \<Rightarrow> ustr + legado_css_step list" where
  "parse_legado_css_step raw = (let part = trim raw in
     if part = [] then Inl (lit ''empty pipeline segment'')
     else and_then (split_legado_css_at_pipeline part) (\<lambda>segments.
       if length segments = 1 then
         (let segment = trim (segments ! 0) in
          case parse_bare_legado_css_extraction segment of
            Some extraction \<Rightarrow> Inr [ExtractStep None extraction]
          | None \<Rightarrow> Inr [SelectStep segment])
       else
         (let selector_idx = length segments - 2;
              selector = trim (segments ! selector_idx);
              extraction = trim (segments ! (length segments - 1)) in
          and_then (collect_results (\<lambda>s. let seg = trim s in
              if seg = [] then Inl (lit ''empty selector in pipeline segment'') else Inr (SelectStep seg))
            (take selector_idx segments)) (\<lambda>steps.
          if extraction = [] then Inl (lit ''missing extraction after `@`'')
          else Inr (steps @ [ExtractStep (if selector = [] then None else Some selector)
                 (parse_legado_css_extraction extraction)])))))"

fun is_extract :: "legado_css_step \<Rightarrow> bool" where
  "is_extract (ExtractStep selector extraction) = True"
| "is_extract (SelectStep selector) = False"

fun pipeline_steps :: "ustr list \<Rightarrow> ustr + legado_css_step list" where
  \<comment> \<open>the loop of \<open>parse_legado_css_rule\<close>: an extraction is allowed in the last segment only\<close>
  "pipeline_steps [] = Inr []"
| "pipeline_steps (part # parts) = and_then (parse_legado_css_step part) (\<lambda>steps.
     if list_ex is_extract steps \<and> parts \<noteq> [] then
       Inl (lit ''extraction step must be the final pipeline segment'')
     else and_then (pipeline_steps parts) (\<lambda>rest. Inr (steps @ rest)))"

definition parse_legado_css_rule :: "ustr \<Rightarrow> ustr + legado_css_step list" where
  "parse_legado_css_rule rule =
     (if trim rule = [] then Inr [] else and_then (split_legado_css_pipeline rule) pipeline_steps)"

definition legado_css_rule_parse :: "ustr \<Rightarrow> legado_css_step list ruled" where
  \<comment> \<open>\<open>LegadoCssRule::parse\<close>\<close>
  "legado_css_rule_parse rule = (case parse_legado_css_rule rule of
       Inl message \<Rightarrow> Inl (LegadoCssSyntax rule message)
     | Inr steps \<Rightarrow> Inr steps)"

subsection \<open>Selectors\<close>

definition parse_legado_css_index :: "ustr \<Rightarrow> ustr \<times> int option" where
  "parse_legado_css_index selector =
     (let digits = rev (takeWhile is_ascii_digit (rev selector));
          front = take (length selector - length digits) selector;
          signed = ends_with front [45];
          base = (if signed then butlast front else front) in
      if digits \<noteq> [] \<and> ends_with base [46] then
        (case parse_isize ((if signed then [45] else []) @ digits) of
           Some index \<Rightarrow> (butlast base, Some index)
         | None \<Rightarrow> (selector, None))
      else (selector, None))"

definition apply_legado_css_index :: "'a list \<Rightarrow> int \<Rightarrow> 'a list" where
  "apply_legado_css_index elements index =
     (let len = int (length elements); resolved = (if 0 \<le> index then index else index + len) in
      if len = 0 then []
      else if 0 \<le> resolved \<and> resolved < len then [elements ! nat resolved] else [])"

definition split_ws :: "ustr \<Rightarrow> ustr list" where
  \<comment> \<open>\<open>split_whitespace\<close>\<close>
  "split_ws s = filter (\<lambda>w. w \<noteq> []) (split_on is_whitespace s)"

definition translate_legado_css_shorthand :: "ustr \<Rightarrow> ustr" where
  "translate_legado_css_shorthand selector =
     (case strip_prefix (lit ''class.'') selector of
        Some (c # cs) \<Rightarrow> if \<exists>x \<in> set (c # cs). is_whitespace x
          then concat (map (\<lambda>w. [46] @ w) (split_ws (c # cs))) else [46] @ c # cs
      | _ \<Rightarrow> (case strip_prefix (lit ''tag.'') selector of
        Some (c # cs) \<Rightarrow> c # cs
      | _ \<Rightarrow> (case strip_prefix (lit ''id.'') selector of
        Some (c # cs) \<Rightarrow> [35] @ c # cs
      | _ \<Rightarrow> selector)))"

definition compile_legado_css_selector :: "html_env \<Rightarrow> ustr \<Rightarrow> compiled_selector ruled" where
  "compile_legado_css_selector env selector = (case parse_selector env (translate_legado_css_shorthand selector) of
       Inl message \<Rightarrow> Inl (CssSelectorSyntax selector message)
     | Inr compiled \<Rightarrow> Inr compiled)"

subsection \<open>Application\<close>

datatype css_context = WholeDocument | AtElement html_path

fun context_select :: "html_doc \<Rightarrow> compiled_selector \<Rightarrow> css_context \<Rightarrow> html_path list" where
  "context_select doc compiled WholeDocument = sel_document compiled doc"
| "context_select doc compiled (AtElement p) = sel_element compiled doc p"

definition legado_css_select_elements :: "html_env \<Rightarrow> html_doc \<Rightarrow> css_context list \<Rightarrow> ustr \<Rightarrow> html_path list ruled" where
  "legado_css_select_elements env doc contexts selector =
     (case parse_legado_css_index selector of (base, index) \<Rightarrow>
      and_then (compile_legado_css_selector env base) (\<lambda>compiled.
        let elements = concat (map (context_select doc compiled) contexts) in
        Inr (case index of None \<Rightarrow> elements | Some i \<Rightarrow> apply_legado_css_index elements i)))"

definition legado_css_select_contexts :: "html_env \<Rightarrow> html_doc \<Rightarrow> css_context list \<Rightarrow> ustr \<Rightarrow> css_context list ruled" where
  "legado_css_select_contexts env doc contexts selector =
     and_then (legado_css_select_elements env doc contexts selector) (\<lambda>ps. Inr (map AtElement ps))"

definition body_children :: "html_env \<Rightarrow> compiled_selector ruled" where
  \<comment> \<open>the code expects that this selector compiles\<close>
  "body_children env = (case parse_selector env (lit ''body > *'') of
       Inl message \<Rightarrow> Inl RulePanic
     | Inr compiled \<Rightarrow> Inr compiled)"

definition legado_css_context_elements :: "html_env \<Rightarrow> html_doc \<Rightarrow> css_context list \<Rightarrow> html_path list ruled" where
  "legado_css_context_elements env doc contexts = and_then (body_children env) (\<lambda>compiled.
     Inr (concat (map (\<lambda>ctx. case ctx of WholeDocument \<Rightarrow> sel_document compiled doc | AtElement p \<Rightarrow> [p]) contexts)))"

definition nonempty_text :: "ustr \<Rightarrow> ustr list" where
  "nonempty_text t = (if t = [] then [] else [t])"

definition attr_texts :: "html_node \<Rightarrow> ustr \<Rightarrow> ustr list" where
  \<comment> \<open>the extraction of an attribute, with the names that stand for texts\<close>
  "attr_texts n attr =
     (if attr = lit ''textNodes'' then nonempty_text (element_text n)
      else if attr = lit ''ownText'' then nonempty_text (normalize_text (element_own_text n))
      else (case attr_of n attr of None \<Rightarrow> [] | Some v \<Rightarrow> [v]))"

fun extract_legado_css :: "html_env \<Rightarrow> legado_css_extraction \<Rightarrow> html_node \<Rightarrow> ustr list" where
  \<comment> \<open>what one element contributes\<close>
  "extract_legado_css env ExtractText n = [element_text n]"
| "extract_legado_css env ExtractHtml n = nonempty_text (outer_html env n)"
| "extract_legado_css env (ExtractAttr attr) n = attr_texts n attr"

definition extract_legado_css_values :: "html_env \<Rightarrow> html_doc \<Rightarrow> html_path list \<Rightarrow> legado_css_extraction \<Rightarrow> ustr list" where
  "extract_legado_css_values env doc elements extraction =
     concat (map (\<lambda>p. extract_legado_css env extraction (node_at doc p)) elements)"

fun run_css_steps :: "html_env \<Rightarrow> html_doc \<Rightarrow> css_context list \<Rightarrow> legado_css_step list \<Rightarrow> ustr list ruled" where
  \<comment> \<open>the loop of \<open>apply_legado_css\<close>\<close>
  "run_css_steps env doc contexts [] = and_then (legado_css_context_elements env doc contexts)
     (\<lambda>ps. Inr (extract_legado_css_values env doc ps ExtractText))"
| "run_css_steps env doc contexts (SelectStep selector # steps) =
     and_then (legado_css_select_contexts env doc contexts selector) (\<lambda>selected.
       if selected = [] then Inr [] else run_css_steps env doc selected steps)"
| "run_css_steps env doc contexts (ExtractStep selector extraction # steps) =
     and_then (case selector of
         Some s \<Rightarrow> legado_css_select_elements env doc contexts s
       | None \<Rightarrow> legado_css_context_elements env doc contexts)
       (\<lambda>ps. Inr (extract_legado_css_values env doc ps extraction))"

definition apply_legado_css :: "html_env \<Rightarrow> ustr \<Rightarrow> legado_css_step list \<Rightarrow> ustr list ruled" where
  "apply_legado_css env input steps =
     (if steps = [] then Inr [] else run_css_steps env (parse_document env input) [WholeDocument] steps)"

definition execute_legado_css :: "html_env \<Rightarrow> ustr \<Rightarrow> ustr \<Rightarrow> ustr list ruled" where
  "execute_legado_css env input rule = and_then (legado_css_rule_parse rule) (apply_legado_css env input)"

definition execute_optional_legado_css :: "html_env \<Rightarrow> ustr \<Rightarrow> ustr option \<Rightarrow> ustr list ruled" where
  "execute_optional_legado_css env input rule = (case rule of None \<Rightarrow> Inr [] | Some r \<Rightarrow> execute_legado_css env input r)"

end
