(* ===== verification/RegexSteps.thy ===== *)
theory RegexSteps
  imports RuleTypes
begin

text \<open>
  The regular-expression steps of a rule chain and the fallback step
  (\<open>apply_regex_extract\<close>, \<open>apply_regex_replace\<close>, \<open>apply_fallback\<close> in
  \<open>crates/reader-rule/src/lib.rs\<close>). \<open>Regex::new\<close> is the parameter \<open>compile\<close>; the groups a
  replacement names are read and checked as the code does before it replaces.
\<close>

type_synonym regex_compiler = "ustr \<Rightarrow> ustr + compiled_regex"

definition regex_new :: "regex_compiler \<Rightarrow> ustr \<Rightarrow> compiled_regex ruled" where
  \<comment> \<open>\<open>Regex::new\<close> with its error turned into a rule error\<close>
  "regex_new compile pattern = (case compile pattern of
       Inl message \<Rightarrow> Inl (RegexSyntax pattern message)
     | Inr rx \<Rightarrow> Inr rx)"

subsection \<open>Extraction\<close>

fun validate_capture_group :: "compiled_regex \<Rightarrow> ustr \<Rightarrow> capture_group \<Rightarrow> unit ruled" where
  "validate_capture_group rx pattern WholeMatch = Inr ()"
| "validate_capture_group rx pattern AllGroups =
     ensure (1 < captures_len rx) (RegexCaptureGroupMissing pattern (lit ''all''))"
| "validate_capture_group rx pattern (GroupIndex i) =
     ensure (i < captures_len rx) (RegexCaptureGroupMissing pattern (decimal i))"
| "validate_capture_group rx pattern (GroupName name) =
     ensure (Some name \<in> set (rx_names rx)) (RegexCaptureGroupMissing pattern name)"

definition given :: "'a option \<Rightarrow> 'a list" where
  "given opt = (case opt of None \<Rightarrow> [] | Some x \<Rightarrow> [x])"

fun captured_texts :: "compiled_regex \<Rightarrow> capture_group \<Rightarrow> ustr option list \<Rightarrow> ustr list" where
  \<comment> \<open>what one match contributes\<close>
  "captured_texts rx AllGroups caps = concat (map given (tl caps))"
| "captured_texts rx WholeMatch caps = given (captured caps 0)"
| "captured_texts rx (GroupIndex i) caps = given (captured caps i)"
| "captured_texts rx (GroupName name) caps = given (captured_name rx caps name)"

definition apply_regex_extract :: "regex_compiler \<Rightarrow> ustr \<Rightarrow> regex_extract_rule \<Rightarrow> ustr list ruled" where
  "apply_regex_extract compile input rule =
     and_then (regex_new compile (rxe_pattern rule)) (\<lambda>rx.
     and_then (validate_capture_group rx (rxe_pattern rule) (rxe_group rule)) (\<lambda>_.
       let matches = rx_captures rx input in
       Inr (concat (map (captured_texts rx (rxe_group rule)) (if rxe_all rule then matches else take 1 matches)))))"

subsection \<open>Replacement\<close>

datatype capture_ref = RefIndex nat | RefName ustr

definition capture_ref_from_token :: "ustr \<Rightarrow> capture_ref" where
  "capture_ref_from_token token = (case parse_usize token of Some i \<Rightarrow> RefIndex i | None \<Rightarrow> RefName token)"

definition is_capture_name_start :: "nat \<Rightarrow> bool" where
  "is_capture_name_start c = (c = 95 \<or> is_ascii_letter c)"

definition is_capture_name_continue :: "nat \<Rightarrow> bool" where
  "is_capture_name_continue c = (c = 95 \<or> is_ascii_alphanumeric c)"

function replacement_capture_refs :: "ustr \<Rightarrow> capture_ref list" where
  "replacement_capture_refs s = (case s of
       [] \<Rightarrow> []
     | c # cs \<Rightarrow> if c \<noteq> 36 then replacement_capture_refs cs
         else (case cs of
             [] \<Rightarrow> []
           | d # ds \<Rightarrow>
               if d = 36 then replacement_capture_refs ds
               else if d = 123 then
                 (let token = takeWhile (\<lambda>x. x \<noteq> 125) ds in
                  if 125 \<notin> set ds then []
                  else (if token = [] then [] else [capture_ref_from_token token])
                    @ replacement_capture_refs (drop (length token + 1) ds))
               else if is_ascii_digit d then
                 RefIndex (case parse_usize (takeWhile is_ascii_digit cs) of Some i \<Rightarrow> i | None \<Rightarrow> usize_max)
                   # replacement_capture_refs (dropWhile is_ascii_digit cs)
               else if is_capture_name_start d then
                 RefName (d # takeWhile is_capture_name_continue ds)
                   # replacement_capture_refs (dropWhile is_capture_name_continue ds)
               else replacement_capture_refs ds))"
  by pat_completeness auto
termination
proof (relation "measure length", goal_cases)
  case (5 s c cs d ds)
  then show ?case using length_dropWhile_le[of is_ascii_digit ds] by simp
next
  case (6 s c cs d ds)
  then show ?case using length_dropWhile_le[of is_capture_name_continue ds] by simp
qed auto

declare replacement_capture_refs.simps [simp del]

fun validate_reference :: "compiled_regex \<Rightarrow> ustr \<Rightarrow> capture_ref \<Rightarrow> unit ruled" where
  "validate_reference rx pattern (RefIndex i) =
     ensure (i < captures_len rx) (RegexReplacementCaptureMissing pattern (decimal i))"
| "validate_reference rx pattern (RefName name) =
     ensure (Some name \<in> set (rx_names rx)) (RegexReplacementCaptureMissing pattern name)"

definition validate_replacement_captures :: "compiled_regex \<Rightarrow> ustr \<Rightarrow> ustr \<Rightarrow> unit ruled" where
  "validate_replacement_captures rx pattern replacement =
     check_each (validate_reference rx pattern) (replacement_capture_refs replacement)"

definition apply_regex_replace :: "regex_compiler \<Rightarrow> ustr \<Rightarrow> regex_replace_rule \<Rightarrow> ustr list ruled" where
  "apply_regex_replace compile input rule =
     and_then (regex_new compile (rxr_pattern rule)) (\<lambda>rx.
     and_then (validate_replacement_captures rx (rxr_pattern rule) (rxr_replacement rule)) (\<lambda>_.
       Inr [if rxr_all rule then rx_replace_all rx input (rxr_replacement rule)
            else rx_replace_first rx input (rxr_replacement rule)]))"

subsection \<open>Fallback\<close>

definition apply_fallback :: "ustr \<Rightarrow> ustr list \<Rightarrow> ustr list" where
  "apply_fallback input values = (if input = [] then values else [input])"

end
