(* ===== verification/CssApply.thy ===== *)
theory CssApply
  imports CssParse LegadoCss RegexSteps
begin

text \<open>
  CSS steps (\<open>apply_css\<close> in \<open>crates/reader-rule/src/lib.rs\<close>): the selectors and regular
  expressions of a parsed selector are compiled in the order of the code, the elements that pass
  every filter are collected, the positional filters are applied to the list (group by group
  where a group has one), and each element contributes its text or an attribute.
\<close>

subsection \<open>Filters on one element\<close>

definition css_text_filter_matches :: "html_env \<Rightarrow> ustr \<Rightarrow> css_text_filter \<Rightarrow> compiled_regex option \<Rightarrow> bool" where
  "css_text_filter_matches env t f rx = (case tf_matcher f of
       ContainsText \<Rightarrow> contains (html_lower env t) (html_lower env (tf_value f))
     | ContainsCaseSensitive \<Rightarrow> contains t (tf_value f)
     | MatchesRegex \<Rightarrow> (case rx of None \<Rightarrow> False | Some r \<Rightarrow> rx_is_match r t))"

definition css_element_text_filter_haystack :: "html_node \<Rightarrow> css_text_filter \<Rightarrow> ustr" where
  "css_element_text_filter_haystack n f = (case tf_scope f of
       DescendantText \<Rightarrow> element_text n
     | OwnText \<Rightarrow> normalize_text (element_own_text n)
     | WholeDescendantText \<Rightarrow> element_whole_text n
     | WholeOwnText \<Rightarrow> element_whole_own_text n)"

definition css_element_text_filter_matches ::
  "html_env \<Rightarrow> html_node \<Rightarrow> css_text_filter \<Rightarrow> compiled_regex option \<Rightarrow> bool" where
  "css_element_text_filter_matches env n f rx =
     css_text_filter_matches env (css_element_text_filter_haystack n f) f rx"

definition element_has_child_nodes :: "html_node \<Rightarrow> bool" where
  "element_has_child_nodes n = (children_of n \<noteq> [])"

fun under_mode :: "css_filter_mode \<Rightarrow> bool \<Rightarrow> bool" where
  "under_mode MustContain b = b"
| "under_mode MustNotContain b = (\<not> b)"

type_synonym compiled_text = "css_text_filter \<times> compiled_regex option"

record compiled_css =
  cc_compat :: css_compat_selector
  cc_selector :: compiled_selector
  cc_has_data :: "(compiled_selector \<times> css_data_filter) option"
  cc_has_text :: "(compiled_selector \<times> bool \<times> compiled_text) option"
  cc_anchored :: "(compiled_selector \<times> compiled_text \<times> css_filter_mode) option"
  cc_text :: "compiled_text option"
  cc_groups :: "(compiled_selector \<times> css_result_filter list) list option"

definition passes :: "('a \<Rightarrow> bool) \<Rightarrow> 'a option \<Rightarrow> bool" where
  \<comment> \<open>a filter that is absent lets everything pass\<close>
  "passes P x = (case x of None \<Rightarrow> True | Some a \<Rightarrow> P a)"

fun parent_matches :: "html_node \<Rightarrow> css_parent_filter \<Rightarrow> bool" where
  "parent_matches n HasChildren = element_has_child_nodes n"
| "parent_matches n NoChildren = (\<not> element_has_child_nodes n)"

fun has_data_matches :: "html_env \<Rightarrow> html_doc \<Rightarrow> html_path \<Rightarrow> compiled_selector \<times> css_data_filter \<Rightarrow> bool" where
  "has_data_matches env doc p (sel, f) =
     list_ex (\<lambda>d. under_mode (df_mode f) (css_contains_data_matches env doc d (df_value f))) (sel_element sel doc p)"

fun has_text_matches :: "html_env \<Rightarrow> html_doc \<Rightarrow> html_path \<Rightarrow> compiled_selector \<times> bool \<times> compiled_text \<Rightarrow> bool" where
  "has_text_matches env doc p (sel, direct, f, rx) =
     (if direct then list_ex (\<lambda>k. sel_matches sel doc k \<and> css_element_text_filter_matches env (node_at doc k) f rx)
        (child_elements doc p)
      else list_ex (\<lambda>d. css_element_text_filter_matches env (node_at doc d) f rx) (sel_element sel doc p))"

fun anchored_matches :: "html_env \<Rightarrow> html_doc \<Rightarrow> html_path \<Rightarrow> compiled_selector \<times> compiled_text \<times> css_filter_mode \<Rightarrow> bool" where
  "anchored_matches env doc p (sel, (f, rx), mode) =
     list_ex (\<lambda>a. sel_matches sel doc a \<and> under_mode mode (css_element_text_filter_matches env (node_at doc a) f rx))
       (ancestors p)"

definition data_matches :: "html_env \<Rightarrow> html_doc \<Rightarrow> html_path \<Rightarrow> css_data_filter \<Rightarrow> bool" where
  "data_matches env doc p f = under_mode (df_mode f) (css_contains_data_matches env doc p (df_value f))"

fun text_matches :: "html_env \<Rightarrow> html_node \<Rightarrow> css_filter_mode \<Rightarrow> compiled_text \<Rightarrow> bool" where
  "text_matches env n mode (f, rx) = under_mode mode (css_element_text_filter_matches env n f rx)"

definition element_matches :: "html_env \<Rightarrow> html_doc \<Rightarrow> compiled_css \<Rightarrow> html_path \<Rightarrow> bool" where
  \<comment> \<open>no filter of \<open>collect_matching_elements\<close> skips the element\<close>
  "element_matches env doc cc p = (let n = node_at doc p; parsed = cc_compat cc in
     passes (parent_matches n) (cs_parent parsed)
     \<and> passes (has_data_matches env doc p) (cc_has_data cc)
     \<and> passes (has_text_matches env doc p) (cc_has_text cc)
     \<and> passes (anchored_matches env doc p) (cc_anchored cc)
     \<and> passes (data_matches env doc p) (cs_data_filter parsed)
     \<and> passes (text_matches env n (cs_text_filter_mode parsed)) (cc_text cc))"

definition collect_matching_elements :: "html_env \<Rightarrow> html_doc \<Rightarrow> compiled_css \<Rightarrow> compiled_selector \<Rightarrow> html_path list" where
  "collect_matching_elements env doc cc sel = filter (element_matches env doc cc) (sel_document sel doc)"

subsection \<open>Positional filters\<close>

definition resolve_css_result_index :: "int \<Rightarrow> nat \<Rightarrow> int" where
  "resolve_css_result_index index len = (if index < 0 then int len + index else index)"

definition apply_result_filter :: "'a list \<Rightarrow> css_result_filter \<Rightarrow> 'a list" where
  "apply_result_filter elements f =
     (let len = length elements; i = resolve_css_result_index (rf_index f) len in
      case rf_kind f of
        ResultEq \<Rightarrow> if i < 0 \<or> int len \<le> i then [] else [elements ! nat i]
      | ResultLt \<Rightarrow> take (nat (max 0 (min (int len) i))) elements
      | ResultGt \<Rightarrow> map snd (filter (\<lambda>(k, e). i < int k) (enumerate 0 elements)))"

definition apply_css_result_filters :: "'a list \<Rightarrow> css_result_filter list \<Rightarrow> 'a list" where
  "apply_css_result_filters elements filters = foldl apply_result_filter elements filters"

subsection \<open>Compiling\<close>

definition compile_part :: "html_env \<Rightarrow> ustr \<Rightarrow> ustr \<Rightarrow> compiled_selector ruled" where
  \<comment> \<open>\<open>Selector::parse\<close>, with the error naming the whole selector\<close>
  "compile_part env whole selector = (case parse_selector env selector of
       Inl message \<Rightarrow> Inl (CssSelectorSyntax whole message) | Inr compiled \<Rightarrow> Inr compiled)"

definition compile_text :: "regex_compiler \<Rightarrow> ustr \<Rightarrow> css_text_filter \<Rightarrow> compiled_text ruled" where
  "compile_text compile whole f =
     (if tf_matcher f = MatchesRegex then (case compile (tf_value f) of
          Inl message \<Rightarrow> Inl (CssSelectorSyntax whole message) | Inr rx \<Rightarrow> Inr (f, Some rx))
      else Inr (f, None))"

fun opt_result :: "('a \<Rightarrow> 'e + 'b) \<Rightarrow> 'a option \<Rightarrow> 'e + 'b option" where
  \<comment> \<open>\<open>transpose\<close>\<close>
  "opt_result f None = Inr None"
| "opt_result f (Some a) = and_then (f a) (\<lambda>b. Inr (Some b))"

definition compile_css :: "html_env \<Rightarrow> regex_compiler \<Rightarrow> ustr \<Rightarrow> compiled_css ruled" where
  "compile_css env compile whole = (case parse_css_compat_selector whole of
       Inl message \<Rightarrow> Inl (CssSelectorSyntax whole message)
     | Inr parsed \<Rightarrow>
         and_then (compile_part env whole (cs_selector parsed)) (\<lambda>sel.
         and_then (opt_result (\<lambda>f. compile_part env whole (hd_selector f)) (cs_has_data parsed)) (\<lambda>hd_sel.
         and_then (opt_result (\<lambda>f. compile_part env whole (ht_selector f)) (cs_has_text parsed)) (\<lambda>ht_sel.
         and_then (opt_result (\<lambda>f. compile_text compile whole (ht_text f)) (cs_has_text parsed)) (\<lambda>ht_rx.
         and_then (opt_result (\<lambda>f. compile_part env whole (af_selector f)) (cs_anchored parsed)) (\<lambda>af_sel.
         and_then (opt_result (\<lambda>f. compile_text compile whole (af_text f)) (cs_anchored parsed)) (\<lambda>af_rx.
         and_then (opt_result (compile_text compile whole) (cs_text_filter parsed)) (\<lambda>text_rx.
         and_then (opt_result (collect_results (\<lambda>g. and_then (compile_part env whole (rg_selector g))
             (\<lambda>s. Inr (s, rg_filters g)))) (cs_result_groups parsed)) (\<lambda>groups.
           Inr \<lparr>cc_compat = parsed, cc_selector = sel,
                cc_has_data = (case (hd_sel, cs_has_data parsed) of (Some s, Some f) \<Rightarrow> Some (s, hd_data f) | _ \<Rightarrow> None),
                cc_has_text = (case (ht_sel, cs_has_text parsed, ht_rx) of
                    (Some s, Some f, Some t) \<Rightarrow> Some (s, ht_direct_child f, t) | _ \<Rightarrow> None),
                cc_anchored = (case (af_sel, cs_anchored parsed, af_rx) of
                    (Some s, Some f, Some t) \<Rightarrow> Some (s, t, af_mode f) | _ \<Rightarrow> None),
                cc_text = text_rx, cc_groups = groups\<rparr>)))))))))"

subsection \<open>Application\<close>

definition css_elements :: "html_env \<Rightarrow> html_doc \<Rightarrow> compiled_css \<Rightarrow> html_path list" where
  "css_elements env doc cc = (case cc_groups cc of
       Some groups \<Rightarrow> concat (map (\<lambda>(sel, filters).
           apply_css_result_filters (collect_matching_elements env doc cc sel) filters) groups)
     | None \<Rightarrow> apply_css_result_filters (collect_matching_elements env doc cc (cc_selector cc))
         (cs_result_filters (cc_compat cc)))"

fun extract_css :: "html_env \<Rightarrow> css_extraction \<Rightarrow> html_node \<Rightarrow> ustr list" where
  "extract_css env CssText n = [element_text n]"
| "extract_css env (CssAttr attr) n =
     (if attr = lit ''html'' then nonempty_text (inner_html env n) else attr_texts n attr)"

definition apply_css :: "html_env \<Rightarrow> regex_compiler \<Rightarrow> ustr \<Rightarrow> css_rule \<Rightarrow> ustr list ruled" where
  "apply_css env compile input rule = (let doc = parse_document env input in
     and_then (compile_css env compile (css_selector rule)) (\<lambda>cc.
       Inr (concat (map (\<lambda>p. extract_css env (css_extraction rule) (node_at doc p)) (css_elements env doc cc)))))"

end
