(* ===== verification/XPathRules.thy ===== *)
theory XPathRules
  imports HtmlDom QuoteScan
begin

text \<open>
  XPath steps (\<open>apply_xpath\<close> in \<open>crates/reader-rule/src/lib.rs\<close>): the check that every namespace
  prefix of the expression is registered, the choice between the strict XML parser and the
  rebuilding of an HTML document as an XML tree, and the rendering of the result. The XML
  parser and the XPath evaluator (crates \<open>sxd_document\<close> and \<open>sxd_xpath\<close>) are the fields of
  \<open>xpath_env\<close>.
\<close>

subsection \<open>Documents\<close>

datatype xml_node = XmlElement ustr "(ustr \<times> ustr) list" "xml_node list" | XmlText ustr | XmlComment ustr

datatype xpath_value = XpNodeset "ustr list" \<comment> \<open>the string values, in document order\<close>
  | XpString ustr
  | XpNumber ustr \<comment> \<open>as \<open>to_string\<close> renders it\<close>
  | XpBoolean bool

record xpath_env =
  parse_xml :: "ustr \<Rightarrow> ustr + xml_node list" \<comment> \<open>\<open>sxd_document::parser::parse\<close>\<close>
  build_xpath :: "ustr \<Rightarrow> ustr + ((ustr \<times> ustr) list \<Rightarrow> xml_node list \<Rightarrow> ustr + xpath_value) option"
    \<comment> \<open>\<open>Factory::build\<close>, then \<open>evaluate\<close> in a context with these namespaces\<close>

fun xml_attributes :: "(ustr \<times> ustr) list \<Rightarrow> (ustr \<times> ustr) list \<Rightarrow> (ustr \<times> ustr) list" where
  \<comment> \<open>\<open>create_sxd_element\<close>: a second value for a name replaces the first\<close>
  "xml_attributes acc [] = acc"
| "xml_attributes acc ((name, v) # rest) = xml_attributes
     (if name \<in> fst ` set acc then map (\<lambda>(k, w). if k = name then (k, v) else (k, w)) acc else acc @ [(name, v)]) rest"

fun xml_children :: "html_node \<Rightarrow> xml_node list" where
  \<comment> \<open>\<open>append_scraper_children\<close>: what one child becomes\<close>
  "xml_children (HtmlElement name attrs kids) = [XmlElement name (xml_attributes [] attrs) (concat (map xml_children kids))]"
| "xml_children (HtmlText t) = [XmlText t]"
| "xml_children (HtmlComment t) = [XmlComment t]"
| "xml_children HtmlOther = []"

fun xml_at_root :: "html_node \<Rightarrow> xml_node list" where
  \<comment> \<open>\<open>append_scraper_node_to_root\<close>: no text at the root\<close>
  "xml_at_root (HtmlText t) = []"
| "xml_at_root n = xml_children n"

definition parse_html_to_sxd_package :: "html_env \<Rightarrow> ustr \<Rightarrow> xml_node list" where
  "parse_html_to_sxd_package env input = concat (map xml_at_root (parse_document env input))"

subsection \<open>Namespace prefixes\<close>

definition is_xpath_name_char :: "nat \<Rightarrow> bool" where
  "is_xpath_name_char c = (c = 95 \<or> c = 45 \<or> c = 46 \<or> is_ascii_alphanumeric c)"

fun prefixes_from :: "nat option \<Rightarrow> ustr \<Rightarrow> ustr list \<Rightarrow> ustr \<Rightarrow> ustr list" where
  \<comment> \<open>the loop of \<open>xpath_prefixes\<close>, with the characters already passed in reverse\<close>
  "prefixes_from q back found [] = found"
| "prefixes_from (Some q) back found (c # cs) = prefixes_from (if c = q then None else Some q) (c # back) found cs"
| "prefixes_from None back found (c # cs) =
     (if c = 39 \<or> c = 34 then prefixes_from (Some c) (c # back) found cs
      else if c \<noteq> 58 \<or> starts_with cs [58] \<or> back = [] then prefixes_from None (c # back) found cs
      else (let prefix = rev (takeWhile is_xpath_name_char back) in
        prefixes_from None (c # back) (if prefix = [] \<or> hd back = 58 \<or> prefix \<in> set found then found else found @ [prefix]) cs))"

definition xpath_prefixes :: "ustr \<Rightarrow> ustr list" where
  "xpath_prefixes expression = prefixes_from None [] [] expression"

definition validate_xpath_namespaces :: "xpath_rule \<Rightarrow> unit ruled" where
  "validate_xpath_namespaces rule = check_each (\<lambda>prefix.
     ensure (prefix \<in> fst ` set (xp_namespaces rule))
       (XPathEvaluation (xp_expression rule) (lit ''namespace prefix `'' @ prefix @ lit ''` is not registered'')))
     (xpath_prefixes (xp_expression rule))"

subsection \<open>Application\<close>

fun xpath_texts :: "xpath_value \<Rightarrow> ustr list" where
  "xpath_texts (XpNodeset ts) = ts"
| "xpath_texts (XpString t) = [t]"
| "xpath_texts (XpNumber t) = [t]"
| "xpath_texts (XpBoolean b) = [if b then lit ''true'' else lit ''false'']"

definition xpath_input :: "html_env \<Rightarrow> xpath_env \<Rightarrow> ustr \<Rightarrow> xml_node list ruled" where
  "xpath_input henv env input =
     (if starts_with (to_ascii_lowercase (trim_start input)) (lit ''<?xml'') then
        (case parse_xml env input of Inl message \<Rightarrow> Inl (XPathInputParse message) | Inr doc \<Rightarrow> Inr doc)
      else Inr (parse_html_to_sxd_package henv input))"

definition apply_xpath :: "html_env \<Rightarrow> xpath_env \<Rightarrow> ustr \<Rightarrow> xpath_rule \<Rightarrow> ustr list ruled" where
  "apply_xpath henv env input rule =
     and_then (validate_xpath_namespaces rule) (\<lambda>_.
     and_then (xpath_input henv env input) (\<lambda>doc.
       case build_xpath env (xp_expression rule) of
         Inl message \<Rightarrow> Inl (XPathSyntax (xp_expression rule) message)
       | Inr None \<Rightarrow> Inl (XPathSyntax (xp_expression rule) (lit ''empty expression''))
       | Inr (Some evaluate) \<Rightarrow> (case evaluate (xp_namespaces rule) doc of
           Inl message \<Rightarrow> Inl (XPathEvaluation (xp_expression rule) message)
         | Inr v \<Rightarrow> Inr (xpath_texts v))))"

end
