(* ===== verification/RuleChain.thy ===== *)
theory RuleChain
  imports PathRules CssApply XPathRules
begin

text \<open>
  Rule chains (\<open>RuleEngine::execute_step\<close> and \<open>execute_chain\<close> in
  \<open>crates/reader-rule/src/lib.rs\<close>): each step maps every value of the step before to a list of
  values; an error stops the chain and names the step; a chain without values goes on only if a
  fallback step follows, which can seed it again.
\<close>

subsection \<open>Steps\<close>

record rule_env =
  re_json :: json_env
  re_html :: html_env
  re_regex :: regex_compiler
  re_xpath :: xpath_env

fun apply_step :: "rule_env \<Rightarrow> ustr \<Rightarrow> rule_step \<Rightarrow> ustr list ruled" where
  "apply_step env input (StepRegexExtract rule) = apply_regex_extract (re_regex env) input rule"
| "apply_step env input (StepRegexReplace rule) = apply_regex_replace (re_regex env) input rule"
| "apply_step env input (StepJsonPath path) = apply_json_path (re_json env) input path"
| "apply_step env input (StepCss rule) = apply_css (re_html env) (re_regex env) input rule"
| "apply_step env input (StepXPath rule) = apply_xpath (re_html env) (re_xpath env) input rule"
| "apply_step env input (StepFallback values) = Inr (apply_fallback input values)"

definition execute_step :: "rule_env \<Rightarrow> ustr \<Rightarrow> rule_step \<Rightarrow> ustr list ruled" where
  "execute_step env input step = apply_step env input step"

fun is_fallback :: "rule_step \<Rightarrow> bool" where
  "is_fallback (StepFallback values) = True"
| "is_fallback s = False"

subsection \<open>Chains\<close>

fun in_step :: "nat \<Rightarrow> 'a ruled \<Rightarrow> 'a ruled" where
  \<comment> \<open>an error of the step with this index\<close>
  "in_step index (Inl RulePanic) = Inl RulePanic"
| "in_step index (Inl source) = Inl (ChainStepFailed index source)"
| "in_step index (Inr x) = Inr x"

definition next_values :: "rule_env \<Rightarrow> nat \<Rightarrow> ustr list \<Rightarrow> rule_step \<Rightarrow> ustr list ruled" where
  \<comment> \<open>one round of the loop\<close>
  "next_values env index values step =
     (if values = [] then Inr (case step of StepFallback vs \<Rightarrow> vs | _ \<Rightarrow> [])
      else and_then (collect_results (\<lambda>v. in_step index (apply_step env v step)) values) (\<lambda>rs. Inr (concat rs)))"

fun chain_from :: "rule_env \<Rightarrow> nat \<Rightarrow> ustr list \<Rightarrow> rule_step list \<Rightarrow> ustr list ruled" where
  "chain_from env index values [] = Inr values"
| "chain_from env index values (step # steps) = and_then (next_values env index values step) (\<lambda>vs.
     if vs = [] \<and> \<not> list_ex is_fallback steps then Inr []
     else chain_from env (Suc index) vs steps)"

definition execute_chain :: "rule_env \<Rightarrow> ustr \<Rightarrow> rule_step list \<Rightarrow> ustr list ruled" where
  "execute_chain env input steps = chain_from env 0 [input] steps"

end
