(* ===== verification/ChainProps.thy ===== *)
theory ChainProps
  imports RuleChain PathProps
begin

text \<open>
  What a rule chain computes: the shortcut for chains that ran empty never changes the result,
  and an error names the step that failed.
\<close>

subsection \<open>The chain without the shortcut\<close>

fun steps_in_order :: "rule_env \<Rightarrow> nat \<Rightarrow> ustr list \<Rightarrow> rule_step list \<Rightarrow> ustr list ruled" where
  \<comment> \<open>every step runs on the values of the step before\<close>
  "steps_in_order env index values [] = Inr values"
| "steps_in_order env index values (step # steps) =
     and_then (next_values env index values step) (\<lambda>vs. steps_in_order env (Suc index) vs steps)"

lemma no_values_no_fallback:
  "\<not> list_ex is_fallback steps \<Longrightarrow> steps_in_order env index [] steps = Inr []"
proof (induction steps arbitrary: index)
  case (Cons step steps)
  then show ?case by (cases step) (simp_all add: next_values_def)
qed simp

lemma chain_from_steps: "chain_from env index values steps = steps_in_order env index values steps"
proof (induction steps arbitrary: index "values")
  case (Cons step steps)
  then show ?case
    by (cases "next_values env index values step") (simp_all add: no_values_no_fallback)
qed simp

subsection \<open>Errors\<close>

lemma in_step_Inl: "in_step index r = Inl e \<longleftrightarrow>
    (r = Inl RulePanic \<and> e = RulePanic) \<or> (\<exists>d. d \<noteq> RulePanic \<and> r = Inl d \<and> e = ChainStepFailed index d)"
  by (cases "(index, r)" rule: in_step.cases) auto

lemma collect_results_Inl: "collect_results f xs = Inl e \<Longrightarrow> \<exists>x \<in> set xs. f x = Inl e"
proof (induction xs)
  case (Cons x xs)
  then show ?case by (cases "f x"; cases "collect_results f xs") auto
qed simp

lemma next_values_Inl: "next_values env index values step = Inl e \<Longrightarrow>
    \<exists>v \<in> set values. (apply_step env v step = Inl RulePanic \<and> e = RulePanic)
      \<or> (\<exists>d. apply_step env v step = Inl d \<and> e = ChainStepFailed index d)"
proof -
  assume a: "next_values env index values step = Inl e"
  then have "collect_results (\<lambda>v. in_step index (apply_step env v step)) values = Inl e"
    by (cases "collect_results (\<lambda>v. in_step index (apply_step env v step)) values")
      (auto simp: next_values_def split: if_splits)
  then obtain v where v: "v \<in> set values" "in_step index (apply_step env v step) = Inl e"
    using collect_results_Inl by fast
  show ?thesis using v(1) v(2)[unfolded in_step_Inl] by blast
qed

lemma steps_error:
  "steps_in_order env index values steps = Inl e \<Longrightarrow>
     \<exists>i v. i < length steps \<and> ((apply_step env v (steps ! i) = Inl RulePanic \<and> e = RulePanic)
       \<or> (\<exists>d. apply_step env v (steps ! i) = Inl d \<and> e = ChainStepFailed (index + i) d))"
proof (induction steps arbitrary: index "values")
  case (Cons step steps)
  show ?case
  proof (cases "next_values env index values step")
    case (Inl d)
    then have "e = d" using Cons.prems by simp
    with next_values_Inl[OF Inl] obtain v where
      "(apply_step env v step = Inl RulePanic \<and> e = RulePanic) \<or> (\<exists>d. apply_step env v step = Inl d \<and> e = ChainStepFailed index d)"
      by blast
    then show ?thesis by (intro exI[of _ 0] exI[of _ v]) simp
  next
    case (Inr vs)
    then have "steps_in_order env (Suc index) vs steps = Inl e" using Cons.prems by simp
    from Cons.IH[OF this] obtain i v where i: "i < length steps"
      "(apply_step env v (steps ! i) = Inl RulePanic \<and> e = RulePanic)
       \<or> (\<exists>d. apply_step env v (steps ! i) = Inl d \<and> e = ChainStepFailed (Suc index + i) d)" by blast
    show ?thesis using i by (intro exI[of _ "Suc i"] exI[of _ v]) simp
  qed
qed simp


subsection \<open>An environment for the witnesses\<close>

fun element_name :: "html_node \<Rightarrow> ustr" where
  "element_name (HtmlElement name attrs kids) = name"
| "element_name n = []"

definition sample_html :: html_env where
  \<comment> \<open>every document is a heading and a paragraph; a selector selects by the tag it ends in\<close>
  "sample_html = \<lparr>
     parse_document = (\<lambda>s. [HtmlElement (lit ''h2'') [] [HtmlText (lit ''x'')], HtmlElement (lit ''p'') [] [HtmlText (lit ''y'')]]),
     parse_selector = (\<lambda>s. Inr \<lparr>
       sel_document = (\<lambda>doc. map (\<lambda>i. [i]) (filter (\<lambda>i. ends_with s (element_name (doc ! i))) [0..<length doc])),
       sel_element = (\<lambda>doc p. []), sel_matches = (\<lambda>doc p. ends_with s (element_name (node_at doc p)))\<rparr>),
     outer_html = (\<lambda>n. []), inner_html = (\<lambda>n. []), html_lower = to_ascii_lowercase\<rparr>"

definition sample_rules :: rule_env where
  \<comment> \<open>no regular expression compiles and no XPath evaluates\<close>
  "sample_rules = \<lparr>re_json = path_env, re_html = sample_html, re_regex = (\<lambda>p. Inl (lit ''unsupported'')),
     re_xpath = \<lparr>parse_xml = (\<lambda>s. Inl []), build_xpath = (\<lambda>s. Inr None)\<rparr>\<rparr>"


end
