(* ===== verification/NestedText.thy ===== *)
theory NestedText
  imports QuoteScan
begin

text \<open>
  Texts with quotes and nested groups, as the scanners of \<open>crates/reader-rule/src/lib.rs\<close> read
  them. The locale \<open>nested_scanner\<close> states how a scanner treats quotes, ordinary characters and
  groups; its lemma is that a text is passed over whole when it has no separator outside
  quotes and groups.
\<close>

subsection \<open>Pieces\<close>

datatype piece = PieceChar nat
  | PieceQuoted ustr \<comment> \<open>the text between single quotes, before escaping\<close>
  | PieceGroup nat nat "piece list" \<comment> \<open>the opening and the closing character and what they enclose\<close>

fun piece_text :: "piece \<Rightarrow> ustr" where
  "piece_text (PieceChar c) = [c]"
| "piece_text (PieceQuoted s) = quoted s"
| "piece_text (PieceGroup a b ps) = [a] @ concat (map piece_text ps) @ [b]"

definition pieces_text :: "piece list \<Rightarrow> ustr" where
  "pieces_text ps = concat (map piece_text ps)"

definition group_chars :: "(nat \<times> nat) set \<Rightarrow> nat set" where
  "group_chars groups = fst ` groups \<union> snd ` groups"

fun piece_ok :: "(nat \<times> nat) set \<Rightarrow> nat set \<Rightarrow> piece \<Rightarrow> bool" where
  \<comment> \<open>the groups are matched, and no character outside of quotes and groups is one to avoid\<close>
  "piece_ok groups avoid (PieceChar c) = (c \<noteq> 39 \<and> c \<noteq> 34 \<and> c \<notin> group_chars groups \<and> c \<notin> avoid)"
| "piece_ok groups avoid (PieceQuoted s) = True"
| "piece_ok groups avoid (PieceGroup a b ps) = ((a, b) \<in> groups \<and> list_all (piece_ok groups {}) ps)"

lemma pieces_text_simps [simp]:
  "pieces_text [] = []" "pieces_text (p # ps) = piece_text p @ pieces_text ps"
  "pieces_text (ps @ qs) = pieces_text ps @ pieces_text qs"
  by (simp_all add: pieces_text_def)

lemma piece_ok_mono: "piece_ok groups avoid p \<Longrightarrow> avoid' \<subseteq> avoid \<Longrightarrow> piece_ok groups avoid' p"
  by (cases p) auto

definition brackets_parens :: "(nat \<times> nat) set" where
  "brackets_parens = {(91, 93), (40, 41)}"

definition brackets_parens_braces :: "(nat \<times> nat) set" where
  "brackets_parens_braces = {(91, 93), (40, 41), (123, 125)}"

lemma group_chars_simps:
  "c \<in> group_chars brackets_parens \<longleftrightarrow> c = 91 \<or> c = 93 \<or> c = 40 \<or> c = 41"
  "c \<in> group_chars brackets_parens_braces \<longleftrightarrow> c = 91 \<or> c = 93 \<or> c = 40 \<or> c = 41 \<or> c = 123 \<or> c = 125"
  by (auto simp: group_chars_def brackets_parens_def brackets_parens_braces_def)

subsection \<open>Scanners\<close>

locale nested_scanner = quote_scanner scan
  for scan :: "quote_state \<Rightarrow> 's \<Rightarrow> ustr \<Rightarrow> ustr \<Rightarrow> 'r" +
  fixes top :: 's and enter :: "nat \<Rightarrow> 's \<Rightarrow> 's" and groups :: "(nat \<times> nat) set" and seps :: "nat set"
  assumes char_law: "c \<noteq> 39 \<Longrightarrow> c \<noteq> 34 \<Longrightarrow> c \<notin> group_chars groups \<Longrightarrow> st \<noteq> top \<or> c \<notin> seps \<Longrightarrow>
      scan Plain st cur (c # cs) = scan Plain st (cur @ [c]) cs"
    and open_law: "(a, b) \<in> groups \<Longrightarrow> scan Plain st cur (a # cs) = scan Plain (enter a st) (cur @ [a]) cs"
    and close_law: "(a, b) \<in> groups \<Longrightarrow> scan Plain (enter a st) cur (b # cs) = scan Plain st (cur @ [b]) cs"
    and enter_law: "(a, b) \<in> groups \<Longrightarrow> enter a st \<noteq> top"
begin

lemma pass_piece:
  "piece_ok groups avoid p \<Longrightarrow> st \<noteq> top \<or> seps \<subseteq> avoid \<Longrightarrow>
    scan Plain st cur (piece_text p @ cs) = scan Plain st (cur @ piece_text p) cs"
proof (induction p arbitrary: avoid st cur cs)
  case (PieceChar c)
  then show ?case by (auto intro!: char_law)
next
  case (PieceQuoted s)
  show ?case by (simp add: scan_quoted)
next
  case (PieceGroup a b ps)
  have inner: "list_all (piece_ok groups {}) qs \<Longrightarrow> set qs \<subseteq> set ps \<Longrightarrow>
      scan Plain (enter a st) cur' (concat (map piece_text qs) @ cs') = scan Plain (enter a st) (cur' @ concat (map piece_text qs)) cs'"
    for qs cur' cs'
  proof (induction qs arbitrary: cur')
    case (Cons q qs)
    have "scan Plain (enter a st) cur' (piece_text q @ concat (map piece_text qs) @ cs')
        = scan Plain (enter a st) (cur' @ piece_text q) (concat (map piece_text qs) @ cs')"
      using Cons.prems PieceGroup.prems(1) enter_law[of a b st] by (intro PieceGroup.IH[of q "{}"]) auto
    then show ?case using Cons by simp
  qed simp
  have g: "(a, b) \<in> groups" and ok: "list_all (piece_ok groups {}) ps" using PieceGroup.prems(1) by auto
  have "scan Plain st cur (piece_text (PieceGroup a b ps) @ cs)
      = scan Plain (enter a st) (cur @ [a] @ concat (map piece_text ps)) (b # cs)"
    using inner[OF ok subset_refl, of "cur @ [a]" "b # cs"] by (simp add: open_law[OF g])
  also have "\<dots> = scan Plain st (cur @ piece_text (PieceGroup a b ps)) cs"
    using close_law[OF g, of st "cur @ [a] @ concat (map piece_text ps)" cs] by simp
  finally show ?case .
qed

lemma pass_pieces:
  "list_all (piece_ok groups avoid) ps \<Longrightarrow> st \<noteq> top \<or> seps \<subseteq> avoid \<Longrightarrow>
    scan Plain st cur (pieces_text ps @ cs) = scan Plain st (cur @ pieces_text ps) cs"
proof (induction ps arbitrary: cur)
  case (Cons p ps)
  have "scan Plain st cur (piece_text p @ pieces_text ps @ cs) = scan Plain st (cur @ piece_text p) (pieces_text ps @ cs)"
    using Cons.prems by (intro pass_piece[of avoid]) simp_all
  then show ?case using Cons by simp
qed simp

lemma pass_pieces_end:
  "list_all (piece_ok groups avoid) ps \<Longrightarrow> st \<noteq> top \<or> seps \<subseteq> avoid \<Longrightarrow>
    scan Plain st cur (pieces_text ps) = scan Plain st (cur @ pieces_text ps) []"
  using pass_pieces[of avoid ps st cur "[]"] by simp

end

subsection \<open>Separators\<close>

locale separating_scanner = nested_scanner scan top enter groups seps
  for scan :: "quote_state \<Rightarrow> 's \<Rightarrow> ustr \<Rightarrow> ustr \<Rightarrow> 'e + ustr list" and top enter groups seps +
  fixes sep :: nat
  assumes sep_law: "scan Plain top cur (sep # cs) = and_then (scan Plain top [] cs) (\<lambda>ps. Inr (cur # ps))"
    and end_law: "scan Plain top cur [] = Inr [cur]"
begin

lemma scan_joined:
  "pss \<noteq> [] \<Longrightarrow> list_all (list_all (piece_ok groups seps)) pss \<Longrightarrow>
    scan Plain top [] (join [sep] (map pieces_text pss)) = Inr (map pieces_text pss)"
proof (induction "[sep]" "map pieces_text pss" arbitrary: pss rule: join.induct)
  case (2 s)
  then obtain ps where "pss = [ps]" by auto
  then show ?case using "2.prems" pass_pieces_end[of seps ps top "[]"] by (simp add: end_law)
next
  case (3 s t ss)
  then obtain ps qs rest where pss: "pss = ps # qs # rest" by (auto simp: Cons_eq_map_conv)
  then have "scan Plain top [] (join [sep] (map pieces_text pss))
      = scan Plain top (pieces_text ps) (sep # join [sep] (map pieces_text (qs # rest)))"
    using "3.prems" pass_pieces[of seps ps top "[]"] by simp
  then show ?case using 3(1)[of "qs # rest"] "3.hyps"(2) "3.prems" pss by (simp add: sep_law)
qed simp

end

subsection \<open>Surrounding blanks\<close>

definition edged :: "ustr \<Rightarrow> bool" where
  \<comment> \<open>not empty, and no blanks around it\<close>
  "edged s = (s \<noteq> [] \<and> \<not> is_whitespace (hd s) \<and> \<not> is_whitespace (last s))"

lemma trim_edged: "edged s \<Longrightarrow> trim s = s"
proof -
  assume s: "edged s"
  then have "trim_start s = s" by (cases s) (auto simp: edged_def trim_start_def)
  moreover have "trim_end s = s" using s by (cases s rule: rev_cases) (auto simp: edged_def trim_end_def)
  ultimately show ?thesis by (simp add: trim_def)
qed

lemma edged_append: "edged s \<Longrightarrow> edged t \<Longrightarrow> edged (s @ u @ t)"
  by (cases t rule: rev_cases) (auto simp: edged_def hd_append)

end
