(* ===== verification/LegadoCssProps.thy ===== *)
theory LegadoCssProps
  imports LegadoCss NestedText ChainProps PathPrint
begin

text \<open>
  What the parser of Legado CSS rules promises: a rule written out from its steps is parsed as
  these steps, and a selector with a position selects the one element at that position.
\<close>

subsection \<open>The scanners\<close>

fun css_enter :: "nat \<Rightarrow> nat \<times> nat \<Rightarrow> nat \<times> nat" where
  "css_enter a (brackets, parens) = (if a = 91 then (brackets + 1, parens) else (brackets, parens + 1))"

lemma css_enter_top: "css_enter a st \<noteq> (0, 0)"
  by (cases st) simp

lemma css_depths_simps:
  "c \<notin> group_chars brackets_parens \<Longrightarrow> css_depths st c = Inr st"
  "(a, b) \<in> brackets_parens \<Longrightarrow> css_depths st a = Inr (css_enter a st)"
  "(a, b) \<in> brackets_parens \<Longrightarrow> css_depths (css_enter a st) b = Inr st"
proof -
  obtain x y where st: "st = (x, y)" by (cases st)
  show "css_depths st c = Inr st" if "c \<notin> group_chars brackets_parens"
    using that st by (simp add: css_depths_def group_chars_simps)
  show "css_depths st a = Inr (css_enter a st)" if "(a, b) \<in> brackets_parens"
    using that st by (auto simp: css_depths_def brackets_parens_def)
  show "css_depths (css_enter a st) b = Inr st" if "(a, b) \<in> brackets_parens"
    using that st by (auto simp: css_depths_def brackets_parens_def)
qed

lemma brackets_parens_chars:
  "(a, b) \<in> brackets_parens \<Longrightarrow> a \<in> {91, 40} \<and> b \<in> {93, 41}"
  by (auto simp: brackets_parens_def)

interpretation css_parts: separating_scanner css_pipeline "(0, 0)" css_enter brackets_parens "{59, 38}" 59
proof (unfold_locales, goal_cases)
  case (1 c st cur cs)
  then show ?case by (auto simp: css_depths_simps)
next
  case (2 a b st cur cs)
  then show ?case using brackets_parens_chars[OF 2] by (auto simp: css_depths_simps)
next
  case (3 a b st cur cs)
  then show ?case using brackets_parens_chars[OF 3] css_enter_top[of a st] by (auto simp: css_depths_simps)
next
  case (4 a b st)
  show ?case by (rule css_enter_top)
qed (simp_all add: css_end_def)

interpretation css_at_parts: separating_scanner css_at_pipeline "(0, 0)" css_enter brackets_parens "{64}" 64
proof (unfold_locales, goal_cases)
  case (1 c st cur cs)
  then show ?case by (auto simp: css_depths_simps)
next
  case (2 a b st cur cs)
  then show ?case using brackets_parens_chars[OF 2] by (auto simp: css_depths_simps)
next
  case (3 a b st cur cs)
  then show ?case using brackets_parens_chars[OF 3] css_enter_top[of a st] by (auto simp: css_depths_simps)
next
  case (4 a b st)
  show ?case by (rule css_enter_top)
qed (simp_all add: css_end_def)

subsection \<open>Writing a rule\<close>

definition css_separators :: "nat set" where
  "css_separators = {59, 38, 64}"

definition selector_ok :: "piece list \<Rightarrow> bool" where
  \<comment> \<open>a selector without separators outside of quotes and groups, and without blanks around it\<close>
  "selector_ok ps = (list_all (piece_ok brackets_parens css_separators) ps \<and> edged (pieces_text ps))"

fun extraction_text :: "legado_css_extraction \<Rightarrow> ustr" where
  "extraction_text ExtractText = lit ''text''"
| "extraction_text ExtractHtml = lit ''html''"
| "extraction_text (ExtractAttr attr) = attr"

definition extraction_ok :: "legado_css_extraction \<Rightarrow> bool" where
  \<comment> \<open>an attribute is a plain name other than the two keywords\<close>
  "extraction_ok e = (list_all (piece_ok brackets_parens css_separators) (map PieceChar (extraction_text e))
     \<and> edged (extraction_text e) \<and> parse_legado_css_extraction (extraction_text e) = e)"

definition chain_pieces :: "piece list list \<Rightarrow> piece list" where
  \<comment> \<open>the parts of one segment, joined by \<open>@\<close>\<close>
  "chain_pieces pss = (case pss of [] \<Rightarrow> [] | ps # rest \<Rightarrow> ps @ concat (map (\<lambda>qs. PieceChar 64 # qs) rest))"

definition last_segment :: "piece list list \<Rightarrow> piece list option \<Rightarrow> legado_css_extraction \<Rightarrow> piece list" where
  "last_segment selects sel e = chain_pieces (selects @ [case sel of None \<Rightarrow> [] | Some ps \<Rightarrow> ps]
     @ [map PieceChar (extraction_text e)])"

definition legado_css_text :: "piece list list \<Rightarrow> piece list list \<Rightarrow> piece list option \<Rightarrow> legado_css_extraction \<Rightarrow> ustr" where
  \<comment> \<open>selectors in segments of their own, then one segment with selectors and the extraction\<close>
  "legado_css_text segments selects sel e = join [59] (map pieces_text (segments @ [last_segment selects sel e]))"

lemma pieces_text_chars [simp]: "pieces_text (map PieceChar s) = s"
  by (induction s) simp_all

lemma text_chain: "pieces_text (chain_pieces pss) = join [64] (map pieces_text pss)"
proof (cases pss)
  case (Cons ps rest)
  have "pieces_text qs @ pieces_text (concat (map (\<lambda>q. PieceChar 64 # q) rest)) = join [64] (map pieces_text (qs # rest))" for qs
    by (induction rest arbitrary: qs) simp_all
  then show ?thesis by (simp add: chain_pieces_def Cons)
qed (simp add: chain_pieces_def)

lemma chain_ok:
  "list_all (list_all (piece_ok brackets_parens css_separators)) pss \<Longrightarrow>
    list_all (piece_ok brackets_parens {59, 38}) (chain_pieces pss)"
  by (fastforce simp: chain_pieces_def list_all_iff css_separators_def group_chars_simps split: list.splits
      intro: piece_ok_mono)

subsection \<open>Reading it back\<close>

lemma parse_selector_segment:
  assumes "selector_ok ps" "parse_bare_legado_css_extraction (pieces_text ps) = None"
  shows "parse_legado_css_step (pieces_text ps) = Inr [SelectStep (pieces_text ps)]"
proof -
  have "list_all (list_all (piece_ok brackets_parens {64})) [ps]"
    using assms(1) by (auto simp: selector_ok_def list_all_iff css_separators_def intro: piece_ok_mono)
  from css_at_parts.scan_joined[OF _ this]
  have "split_legado_css_at_pipeline (pieces_text ps) = Inr [pieces_text ps]"
    by (simp add: split_legado_css_at_pipeline_def)
  then show ?thesis
    using assms trim_edged[of "pieces_text ps"] by (simp add: parse_legado_css_step_def selector_ok_def edged_def)
qed

lemma trim_Nil [simp]: "trim [] = []"
  by (simp add: trim_def trim_start_def trim_end_def)

lemma join_edged:
  "edged (hd ts) \<or> hd ts = [] \<and> \<not> is_whitespace (hd sep) \<and> 2 \<le> length ts \<Longrightarrow> edged (last ts) \<Longrightarrow> ts \<noteq> [] \<Longrightarrow> sep \<noteq> [] \<Longrightarrow>
    edged (join sep ts)"
proof (induction sep ts rule: join.induct)
  case (3 sep s t ss)
  have l: "join sep (t # ss) \<noteq> [] \<and> last (join sep (t # ss)) = last (last (t # ss))" if "edged (last (t # ss))"
    using that
  proof (induction sep "t # ss" arbitrary: t ss rule: join.induct)
    case (3 sep s t ss)
    then show ?case by simp
  qed (auto simp: edged_def)
  from l "3.prems" show ?case by (auto simp: edged_def hd_append)
qed auto

lemma last_segment_edged:
  assumes "list_all selector_ok selects" "pred_option selector_ok sel" "extraction_ok e"
  shows "edged (pieces_text (last_segment selects sel e))"
proof -
  define pss where "pss = selects @ [case sel of None \<Rightarrow> [] | Some ps \<Rightarrow> ps] @ [map PieceChar (extraction_text e)]"
  have "edged (hd (map pieces_text pss)) \<or> hd (map pieces_text pss) = []" "edged (last (map pieces_text pss))" "2 \<le> length pss"
    using assms by (cases selects; auto simp: pss_def selector_ok_def extraction_ok_def list_all_iff split: option.splits)+
  then show ?thesis
    using join_edged[of "map pieces_text pss" "[64]"]
    by (auto simp: last_segment_def text_chain pss_def is_whitespace_def)
qed

lemma parse_last_segment:
  assumes "list_all selector_ok selects" "pred_option selector_ok sel" "extraction_ok e"
  shows "parse_legado_css_step (pieces_text (last_segment selects sel e))
    = Inr (map (SelectStep \<circ> pieces_text) selects @ [ExtractStep (map_option pieces_text sel) e])"
proof -
  define s where "s = (case sel of None \<Rightarrow> [] | Some ps \<Rightarrow> ps)"
  define pss where "pss = selects @ [s] @ [map PieceChar (extraction_text e)]"
  have ok: "list_all (list_all (piece_ok brackets_parens css_separators)) pss"
    using assms by (auto simp: pss_def s_def selector_ok_def extraction_ok_def list_all_iff split: option.splits)
  then have "list_all (list_all (piece_ok brackets_parens {64})) pss"
    by (auto simp: list_all_iff css_separators_def intro: piece_ok_mono)
  from css_at_parts.scan_joined[OF _ this]
  have split: "split_legado_css_at_pipeline (pieces_text (last_segment selects sel e)) = Inr (map pieces_text pss)"
    by (simp add: split_legado_css_at_pipeline_def last_segment_def text_chain pss_def s_def)
  have "edged (pieces_text (last_segment selects sel e))"
    by (rule last_segment_edged[OF assms])
  then have t: "trim (pieces_text (last_segment selects sel e)) = pieces_text (last_segment selects sel e)"
    "pieces_text (last_segment selects sel e) \<noteq> []"
    by (simp_all add: trim_edged edged_def)
  have sel: "trim (pieces_text s) = pieces_text s" "(if pieces_text s = [] then None else Some (pieces_text s)) = map_option pieces_text sel"
    using assms(2) trim_edged by (auto simp: s_def selector_ok_def edged_def split: option.splits)
  have ext: "trim (extraction_text e) = extraction_text e" "extraction_text e \<noteq> []"
    "parse_legado_css_extraction (extraction_text e) = e"
    using assms(3) trim_edged by (auto simp: extraction_ok_def edged_def)
  have steps: "collect_results (\<lambda>s. let seg = trim s in
        if seg = [] then Inl (lit ''empty selector in pipeline segment'') else Inr (SelectStep seg)) (map pieces_text selects)
      = Inr (map (SelectStep \<circ> pieces_text) selects)"
    using assms(1)
    by (subst collect_results_map) (auto simp: list_all_iff selector_ok_def trim_edged edged_def)
  show ?thesis
    using t split steps sel ext by (simp add: parse_legado_css_step_def pss_def nth_append)
qed

lemma pipeline_steps_selects:
  "list_all (\<lambda>ps. selector_ok ps \<and> parse_bare_legado_css_extraction (pieces_text ps) = None) pss \<Longrightarrow>
    pipeline_steps (map pieces_text pss @ rest) = and_then (pipeline_steps rest) (\<lambda>steps.
      Inr (map (SelectStep \<circ> pieces_text) pss @ steps))"
proof (induction pss)
  case Nil
  show ?case by (cases "pipeline_steps rest") simp_all
next
  case (Cons ps pss)
  then show ?case by (cases "pipeline_steps rest") (simp_all add: parse_selector_segment)
qed

lemma parse_joined:
  assumes "pss \<noteq> []" "list_all (list_all (piece_ok brackets_parens {59, 38})) pss"
    and "edged (join [59] (map pieces_text pss))"
  shows "parse_legado_css_rule (join [59] (map pieces_text pss)) = pipeline_steps (map pieces_text pss)"
  using assms css_parts.scan_joined[OF assms(1,2)]
  by (simp add: parse_legado_css_rule_def split_legado_css_pipeline_def trim_edged edged_def)

lemma legado_css_text_ok:
  assumes "list_all selector_ok segments" "list_all selector_ok selects" "pred_option selector_ok sel" "extraction_ok e"
  shows "list_all (list_all (piece_ok brackets_parens {59, 38})) (segments @ [last_segment selects sel e])"
    and "edged (legado_css_text segments selects sel e)"
proof -
  have "list_all (list_all (piece_ok brackets_parens css_separators))
      (selects @ [case sel of None \<Rightarrow> [] | Some ps \<Rightarrow> ps] @ [map PieceChar (extraction_text e)])"
    using assms by (auto simp: selector_ok_def extraction_ok_def list_all_iff split: option.splits)
  from chain_ok[OF this] show "list_all (list_all (piece_ok brackets_parens {59, 38})) (segments @ [last_segment selects sel e])"
    using assms(1) unfolding last_segment_def
    by (auto simp: selector_ok_def list_all_iff css_separators_def intro: piece_ok_mono)
  have "edged (hd (map pieces_text (segments @ [last_segment selects sel e])))"
    using assms last_segment_edged[OF assms(2-4)] by (cases segments) (simp_all add: selector_ok_def)
  then show "edged (legado_css_text segments selects sel e)"
    unfolding legado_css_text_def using last_segment_edged[OF assms(2-4)] by (intro join_edged) simp_all
qed

text \<open>
  C15: A Legado CSS rule is parsed as the steps it was written from: selectors in segments of
  their own (none of them a bare extraction keyword), then a segment with further selectors and
  the extraction. The separators \<open>;\<close>, \<open>&&\<close> and \<open>@\<close> may stand inside quotes, brackets and
  parentheses of any selector.
\<close>

theorem legado_css_roundtrip:
  assumes "list_all (\<lambda>ps. selector_ok ps \<and> parse_bare_legado_css_extraction (pieces_text ps) = None) segments"
    and "list_all selector_ok selects" "pred_option selector_ok sel" "extraction_ok e"
  shows "legado_css_rule_parse (legado_css_text segments selects sel e)
    = Inr (map (SelectStep \<circ> pieces_text) segments @ map (SelectStep \<circ> pieces_text) selects
        @ [ExtractStep (map_option pieces_text sel) e])"
proof -
  have "list_all selector_ok segments" using assms(1) by (simp add: list_all_iff)
  note ok = legado_css_text_ok[OF this assms(2-4)]
  have "parse_legado_css_rule (legado_css_text segments selects sel e)
      = pipeline_steps (map pieces_text segments @ [pieces_text (last_segment selects sel e)])"
    using parse_joined[OF _ ok(1) ok(2)[unfolded legado_css_text_def]] by (simp add: legado_css_text_def)
  then show ?thesis
    by (simp add: pipeline_steps_selects[OF assms(1)] parse_last_segment[OF assms(2-4)] legado_css_rule_parse_def)
qed

theorem legado_css_roundtrip_witness:
  "legado_css_rule_parse (lit ''ul;li[x='' @ quoted (lit '';@'') @ lit '']@a@href'')
    = Inr [SelectStep (lit ''ul''), SelectStep (lit ''li[x='' @ quoted (lit '';@'') @ lit '']''),
        ExtractStep (Some (lit ''a'')) (ExtractAttr (lit ''href''))]"
  using legado_css_roundtrip[of "[map PieceChar (lit ''ul'')]"
    "[map PieceChar (lit ''li'') @ [PieceGroup 91 93 (map PieceChar (lit ''x='') @ [PieceQuoted (lit '';@'')])]]"
    "Some (map PieceChar (lit ''a''))" "ExtractAttr (lit ''href'')"]
  by (simp add: legado_css_text_def last_segment_def chain_pieces_def selector_ok_def extraction_ok_def css_separators_def
      group_chars_def brackets_parens_def edged_def is_whitespace_def parse_bare_legado_css_extraction_def
      parse_legado_css_extraction_def eq_ignore_case_def bare_attributes_def to_ascii_lowercase_def quoted_def lit_def pieces_text_def)

subsection \<open>Positions\<close>

definition element_at :: "'a list \<Rightarrow> int \<Rightarrow> 'a list" where
  \<comment> \<open>the element at a position, from the end for a negative one\<close>
  "element_at xs i = (if 0 \<le> i \<and> i < int (length xs) then [xs ! nat i]
     else if i < 0 \<and> - int (length xs) \<le> i then [xs ! (length xs - nat (- i))] else [])"

lemma apply_index_at: "apply_legado_css_index xs i = element_at xs i"
proof (cases "i < 0")
  case True
  then show ?thesis by (auto simp: apply_legado_css_index_def element_at_def Let_def nat_diff_distrib intro!: arg_cong[of _ _ "(!) xs"])
next
  case False
  then show ?thesis by (auto simp: apply_legado_css_index_def element_at_def Let_def)
qed

lemma digits_taken: "takeWhile is_ascii_digit (rev (s @ c # decimal n)) = rev (decimal n)"
  if "\<not> is_ascii_digit c"
  using that digits_decimal[of _ n] by (simp add: takeWhile_append takeWhile_eq_all_conv[THEN iffD2] is_ascii_digit_def)

lemma parse_index:
  assumes "isize i"
  shows "parse_legado_css_index (base @ [46] @ int_text i) = (base, Some i)"
proof (cases "i < 0")
  case True
  have "parse_isize (45 # decimal (nat (- i))) = Some i" using parse_int_text[OF assms] True by (simp add: int_text_def)
  then show ?thesis
    using True digits_taken[of 45 "base @ [46]" "nat (- i)"] decimal_nonempty[of "nat (- i)"]
    by (simp add: butlast_append parse_legado_css_index_def int_text_def is_ascii_digit_def ends_with_def Let_def)
next
  case False
  have "parse_isize (decimal (nat i)) = Some i" using parse_int_text[OF assms] False by (simp add: int_text_def)
  then show ?thesis
    using False digits_taken[of 46 base "nat i"] decimal_nonempty[of "nat i"]
    by (simp add: parse_legado_css_index_def int_text_def is_ascii_digit_def ends_with_def Let_def)
qed

text \<open>
  C17: A selector that ends in \<open>.n\<close> or \<open>.-n\<close> selects exactly the element at that position of what
  the selector before it selects, counted from the end for a negative position, and nothing
  when there is no such element.
\<close>

theorem css_index_selects:
  assumes "isize i"
  shows "legado_css_select_elements env doc contexts (base @ [46] @ int_text i)
    = and_then (compile_legado_css_selector env base) (\<lambda>compiled.
        Inr (element_at (concat (map (context_select doc compiled) contexts)) i))"
  using parse_index[OF assms, of base] by (simp add: legado_css_select_elements_def apply_index_at)

theorem css_index_selects_witness:
  "legado_css_select_elements sample_html (parse_document sample_html []) [WholeDocument] (lit ''tag.p'' @ [46] @ int_text (- 1)) = Inr [[1]]"
proof -
  have "and_then (compile_legado_css_selector sample_html (lit ''tag.p'')) (\<lambda>compiled.
      Inr (element_at (concat (map (context_select (parse_document sample_html []) compiled) [WholeDocument])) (- 1))) = Inr [[1]]"
    by code_simp
  then show ?thesis
    by (subst css_index_selects) (simp_all add: isize_def isize_max_def)
qed

end
