(* ===== verification/LegadoRule.thy ===== *)
theory LegadoRule
  imports RuleChain SortedMap
begin

text \<open>
  Raw Legado rules (\<open>RuleEngine::execute_legado_rule\<close> in \<open>crates/reader-rule/src/lib.rs\<close>): the
  mode prefix, \<open>@put\<close> and \<open>@get\<close> against the variables of the source, \<open>{{...}}\<close> templates, the
  \<open>##regex##replacement\<close> suffix, \<open><js>\<close> segments, and the operators \<open>||\<close>, \<open>&&\<close> and \<open>%%\<close> around
  the engines. The four fixed regular expressions are written out as matchers at a position;
  the JavaScript evaluator is an argument, as it is in the code.
\<close>

subsection \<open>Combination operators\<close>

definition combined_depths :: "nat \<times> nat \<times> nat \<Rightarrow> nat \<Rightarrow> nat \<times> nat \<times> nat" where
  \<comment> \<open>the depths of brackets, parentheses and braces after one character\<close>
  "combined_depths st c = (case st of (brackets, parens, braces) \<Rightarrow>
     if c = 91 then (brackets + 1, parens, braces)
     else if c = 93 then (brackets - 1, parens, braces)
     else if c = 40 then (brackets, parens + 1, braces)
     else if c = 41 then (brackets, parens - 1, braces)
     else if c = 123 then (brackets, parens, braces + 1)
     else if c = 125 then (brackets, parens, braces - 1)
     else st)"

definition operator_at :: "ustr option \<Rightarrow> ustr \<Rightarrow> ustr option" where
  \<comment> \<open>the operator that starts here; once one is fixed, only that one\<close>
  "operator_at op s = (case op of
       Some p \<Rightarrow> if starts_with s p then Some p else None
     | None \<Rightarrow> find (starts_with s) [path_or, path_and, path_zip])"

fun combined_branches :: "ustr option \<Rightarrow> quote_state \<Rightarrow> nat \<times> nat \<times> nat \<Rightarrow> ustr \<Rightarrow> ustr \<Rightarrow>
    (ustr \<times> ustr list) option" where
  \<comment> \<open>the loop of \<open>split_legado_combined_rule\<close>: the operator and the branches\<close>
  "combined_branches op q st cur [] = (case op of
       None \<Rightarrow> None
     | Some p \<Rightarrow> if trim cur = [] then None else Some (p, [trim cur]))"
| "combined_branches op q st cur (c # cs) = (case quote_step q c of
       Some r \<Rightarrow> combined_branches op r st (cur @ [c]) cs
     | None \<Rightarrow> (case if st = (0, 0, 0) then operator_at op (c # cs) else None of
         Some p \<Rightarrow>
           if trim cur = [] then None
           else map_option (\<lambda>(_, branches). (p, trim cur # branches))
             (combined_branches (Some p) q st [] (drop (length p - 1) cs))
       | None \<Rightarrow> combined_branches op q (combined_depths st c) (cur @ [c]) cs))"

definition split_legado_combined_rule :: "ustr \<Rightarrow> (ustr \<times> ustr list) option" where
  "split_legado_combined_rule rule = combined_branches None Plain (0, 0, 0) [] rule"

interpretation rule_branches: quote_scanner "combined_branches op" for op
  by unfold_locales simp

fun first_result :: "'a list list \<Rightarrow> 'a list" where
  "first_result [] = []"
| "first_result (r # rs) = (if r \<noteq> [] then r else first_result rs)"

definition combine_legado_combined_results :: "ustr \<Rightarrow> 'a list list \<Rightarrow> 'a list" where
  "combine_legado_combined_results operator results =
     (if operator = path_or then first_result results
      else if operator = path_and then concat results
      else if operator = path_zip then zip_json_path_combination_results (filter (\<lambda>r. r \<noteq> []) results)
      else [])"

subsection \<open>Modes\<close>

datatype legado_mode = ModeDefault | ModeXpath | ModeJson | ModeRegex | ModeJs

fun first_prefix :: "string list \<Rightarrow> ustr \<Rightarrow> ustr option" where
  "first_prefix [] s = None"
| "first_prefix (p # ps) s = (case strip_prefix (lit p) s of Some rest \<Rightarrow> Some rest | None \<Rightarrow> first_prefix ps s)"

definition detect_legado_rule_mode :: "ustr \<Rightarrow> legado_mode \<times> ustr" where
  "detect_legado_rule_mode rule =
     (case first_prefix [''@CSS:'', ''@css:'', ''@@''] rule of
        Some rest \<Rightarrow> (ModeDefault, rest)
      | None \<Rightarrow> (case first_prefix [''@XPath:'', ''@xpath:''] rule of
          Some rest \<Rightarrow> (ModeXpath, rest)
        | None \<Rightarrow> (case first_prefix [''@Json:'', ''@json:''] rule of
            Some rest \<Rightarrow> (ModeJson, rest)
          | None \<Rightarrow>
              if starts_with rule (lit ''$.'') \<or> starts_with rule (lit ''$['') then (ModeJson, rule)
              else if starts_with rule (lit ''/'') then (ModeXpath, rule)
              else (ModeDefault, rule))))"

lemma combined_branches_shorter:
  "combined_branches op q st cur cs = Some (p, bs) \<Longrightarrow> op \<noteq> Some [] \<Longrightarrow> b \<in> set bs \<Longrightarrow>
     length b \<le> length cur + length cs \<and> (op = None \<longrightarrow> length b < length cur + length cs)"
proof (induction op q st cur cs arbitrary: p bs rule: combined_branches.induct)
  case (1 op q st cur)
  then show ?case using length_trim[of cur] by (auto split: option.splits if_splits)
next
  case (2 op q st cur c cs)
  show ?case
  proof (cases "quote_step q c")
    case None
    show ?thesis
    proof (cases "if st = (0, 0, 0) then operator_at op (c # cs) else None")
      case N: None
      then have "combined_branches op q (combined_depths st c) (cur @ [c]) cs = Some (p, bs)"
        using "2.prems"(1) None by (simp split: if_splits option.splits)
      then show ?thesis using 2(1)[OF None N _ "2.prems"(2,3)] by simp
    next
      case S: (Some p')
      then have p': "p' \<noteq> []" "p' \<noteq> [] \<Longrightarrow> Some p' \<noteq> Some []"
        using "2.prems"(2) by (auto simp: operator_at_def path_or_def path_and_def path_zip_def lit_def
            split: if_splits option.splits)
      have e: "trim cur \<noteq> []" and "map_option (\<lambda>(_, branches). (p', trim cur # branches))
          (combined_branches (Some p') q st [] (drop (length p' - 1) cs)) = Some (p, bs)"
        using "2.prems"(1) None S by (auto split: if_splits option.splits)
      then obtain p2 bs2 where r: "combined_branches (Some p') q st [] (drop (length p' - 1) cs) = Some (p2, bs2)"
        and b: "bs = trim cur # bs2" by auto
      have "length b \<le> length cs" if "b \<in> set bs2"
        using 2(2)[OF None S e r p'(2)[OF p'(1)] that] by auto
      then show ?thesis using "2.prems"(3) b length_trim[of cur] by fastforce
    qed
  next
    case (Some r)
    then show ?thesis using 2(3)[OF Some _ "2.prems"(2,3)] "2.prems"(1) by simp
  qed
qed

lemma split_combined_shorter:
  "split_legado_combined_rule s = Some (p, bs) \<Longrightarrow> b \<in> set bs \<Longrightarrow> length b < length s"
  using combined_branches_shorter[of None Plain "(0, 0, 0)" "[]" s p bs b] by (simp add: split_legado_combined_rule_def)

fun execute_plain :: "rule_env \<Rightarrow> ustr \<Rightarrow> legado_mode \<Rightarrow> ustr \<Rightarrow> ustr list ruled" where
  \<comment> \<open>the engine of a mode\<close>
  "execute_plain env input ModeDefault selector = execute_legado_css (re_html env) input selector"
| "execute_plain env input ModeXpath selector = execute_step env input (StepXPath (xpath_plain selector))"
| "execute_plain env input ModeJson selector = execute_step env input (StepJsonPath selector)"
| "execute_plain env input ModeRegex selector = execute_legado_css (re_html env) input selector"
| "execute_plain env input ModeJs selector = Inr []"

function execute_mode :: "rule_env \<Rightarrow> ustr \<Rightarrow> legado_mode \<Rightarrow> ustr \<Rightarrow> ustr list ruled" where
  "execute_mode env input mode selector = (case split_legado_combined_rule selector of
       Some (operator, branches) \<Rightarrow>
         and_then (collect_results (execute_mode env input mode) branches) (\<lambda>results.
           Inr (combine_legado_combined_results operator results))
     | None \<Rightarrow> execute_plain env input mode selector)"
  by pat_completeness auto
termination
  by (relation "measure (\<lambda>(env, input, mode, selector). length selector)") (auto dest: split_combined_shorter)

declare execute_mode.simps [simp del]

subsection \<open>Matching in a rule body\<close>

function regex_pieces :: "(ustr \<Rightarrow> ('m \<times> ustr) option) \<Rightarrow> ustr \<Rightarrow> ustr \<Rightarrow> (ustr \<times> 'm) list \<times> ustr" where
  \<comment> \<open>the non-overlapping leftmost matches of a pattern that matches no empty text: each with the
     text before it, and the text behind the last\<close>
  "regex_pieces f cur s = (case s of
       [] \<Rightarrow> ([], cur)
     | c # cs \<Rightarrow> (case f s of
         Some (m, rest) \<Rightarrow>
           if length rest < length s then (case regex_pieces f [] rest of (ps, t) \<Rightarrow> ((cur, m) # ps, t))
           else regex_pieces f (cur @ [c]) cs
       | None \<Rightarrow> regex_pieces f (cur @ [c]) cs))"
  by pat_completeness auto
termination
  by (relation "measure (\<lambda>(f, cur, s). length s)") auto

declare regex_pieces.simps [simp del]

definition replace_matches :: "('m \<Rightarrow> ustr) \<Rightarrow> (ustr \<times> 'm) list \<times> ustr \<Rightarrow> ustr" where
  \<comment> \<open>\<open>replace_all\<close> with a closure\<close>
  "replace_matches g pieces = (case pieces of (ps, t) \<Rightarrow> concat (map (\<lambda>(before, m). before @ g m) ps) @ t)"

definition braced_at :: "string \<Rightarrow> ustr \<Rightarrow> (ustr \<times> ustr) option" where
  \<comment> \<open>\<open>(?i)keyword\{[^}]+?\}\<close> at the start of a text: what the braces hold, and the rest\<close>
  "braced_at keyword s = (let n = length keyword; inner = takeWhile (\<lambda>c. c \<noteq> 125) (drop n s); rest = drop (n + length inner) s in
     if eq_ignore_case (take n s) (lit keyword) \<and> inner \<noteq> [] \<and> rest \<noteq> [] then Some (inner, tl rest) else None)"

definition put_rule_at :: "ustr \<Rightarrow> ((ustr \<times> ustr) \<times> ustr) option" where
  \<comment> \<open>\<open>(?i)@put:(\{[^}]+?\})\<close>: the whole match and the object\<close>
  "put_rule_at s = map_option (\<lambda>(inner, rest).
     ((take (length inner + 7) s, [123] @ inner @ [125]), rest)) (braced_at ''@put:{'' s)"

definition get_rule_at :: "ustr \<Rightarrow> (ustr \<times> ustr) option" where
  "get_rule_at s = braced_at ''@get:{'' s"

definition js_template_at :: "ustr \<Rightarrow> (ustr \<times> ustr) option" where
  \<comment> \<open>\<open>\{\{([\w\W]*?)\}\}\<close>\<close>
  "js_template_at s = (if starts_with s [123, 123] then find_str [125, 125] (drop 2 s) else None)"

definition js_fold :: "ustr \<Rightarrow> ustr" where
  \<comment> \<open>case folding as far as it concerns the letters of \<open>js\<close>; the long s folds to s\<close>
  "js_fold s = map (\<lambda>c. if c = 383 then 115 else c) (to_ascii_lowercase s)"

fun until_js_close :: "ustr \<Rightarrow> (ustr \<times> ustr) option" where
  \<comment> \<open>the text before the next \<open></js>\<close> and behind it\<close>
  "until_js_close [] = None"
| "until_js_close (c # cs) = (if js_fold (take 5 (c # cs)) = lit ''</js>'' then Some ([], drop 4 cs)
     else map_option (\<lambda>(a, b). (c # a, b)) (until_js_close cs))"

definition js_segment_at :: "ustr \<Rightarrow> (ustr \<times> ustr) option" where
  \<comment> \<open>\<open>(?i)<js>([\w\W]*?)</js>|@js:([\w\W]*)\<close>\<close>
  "js_segment_at s =
     (if js_fold (take 4 s) = lit ''<js>'' then until_js_close (drop 4 s)
      else if js_fold (take 4 s) = lit ''@js:'' then Some (drop 4 s, [])
      else None)"

subsection \<open>Variables, templates and segments\<close>

datatype variable_scope = NoopScope | Variables "(ustr, ustr) smap" \<comment> \<open>\<open>BookSourceRequestContext::variables\<close>\<close>

fun scope_get :: "variable_scope \<Rightarrow> ustr \<Rightarrow> ustr option" where
  "scope_get NoopScope key = None"
| "scope_get (Variables vars) key = map_of vars key"

fun scope_put :: "variable_scope \<Rightarrow> ustr \<times> ustr \<Rightarrow> variable_scope" where
  "scope_put NoopScope entry = NoopScope"
| "scope_put (Variables vars) (key, v) = Variables (sm_insert key v vars)"

fun scope_entries :: "variable_scope \<Rightarrow> (ustr \<times> ustr) list" where
  "scope_entries NoopScope = []"
| "scope_entries (Variables vars) = vars"

fun put_text :: "json_env \<Rightarrow> json \<Rightarrow> ustr" where
  "put_text env (JStr s) = s"
| "put_text env v = json_text env v"

definition put_entries :: "json_env \<Rightarrow> ustr \<Rightarrow> (ustr \<times> ustr) list" where
  \<comment> \<open>the pairs of one \<open>@put\<close>; what is no JSON object stores nothing\<close>
  "put_entries env object_text = (case parse_json env object_text of
       Inr (JObj members) \<Rightarrow> map (\<lambda>(k, v). (k, put_text env v)) members
     | _ \<Rightarrow> [])"

definition extract_put_rules :: "json_env \<Rightarrow> ustr \<Rightarrow> variable_scope \<Rightarrow> ustr \<times> variable_scope" where
  "extract_put_rules env body scope = (let matches = map snd (fst (regex_pieces put_rule_at [] body)) in
     (foldl (\<lambda>cleaned (full, _). str_replace full [] cleaned) body matches,
      foldl scope_put scope (concat (map (\<lambda>(_, object_text). put_entries env object_text) matches))))"

definition substitute_get_rules :: "ustr \<Rightarrow> variable_scope \<Rightarrow> ustr" where
  "substitute_get_rules body scope = replace_matches
     (\<lambda>key. case scope_get scope key of None \<Rightarrow> [] | Some v \<Rightarrow> v) (regex_pieces get_rule_at [] body)"

type_synonym js_evaluator = "ustr \<Rightarrow> ustr option \<Rightarrow> ustr + ustr"
  \<comment> \<open>\<open>RuleJsEvaluator::eval\<close>: the expression and the current result\<close>

definition substitute_js_templates :: "ustr \<Rightarrow> js_evaluator option \<Rightarrow> ustr" where
  "substitute_js_templates body js = (case js of
       None \<Rightarrow> body
     | Some eval \<Rightarrow> replace_matches (\<lambda>expr. case eval expr None of Inl e \<Rightarrow> [] | Inr t \<Rightarrow> t)
         (regex_pieces js_template_at [] body))"

fun js_piece_segments :: "bool \<Rightarrow> (ustr \<times> ustr) list \<Rightarrow> (ustr \<times> bool) list" where
  \<comment> \<open>the loop of \<open>split_js_segments\<close>; an empty text is kept at the start of the body only\<close>
  "js_piece_segments first [] = []"
| "js_piece_segments first ((before, expr) # ps) =
     (if before \<noteq> [] \<or> first then [(before, False)] else []) @ [(expr, True)] @ js_piece_segments False ps"

definition split_js_segments :: "ustr \<Rightarrow> (ustr \<times> bool) list" where
  "split_js_segments body = (case regex_pieces js_segment_at [] body of (ps, t) \<Rightarrow>
     let segments = js_piece_segments True ps @ (if t \<noteq> [] then [(t, False)] else []) in
     if segments = [] then [(body, False)] else segments)"

subsection \<open>The regex suffix\<close>

record regex_suffix =
  sf_selector :: ustr
  sf_regex :: "ustr option"
  sf_replacement :: ustr
  sf_first :: bool

definition parse_regex_suffix :: "ustr \<Rightarrow> regex_suffix" where
  "parse_regex_suffix body = (let parts = split_str [35, 35] body in
     \<lparr>sf_selector = trim (hd parts),
      sf_regex = (if 1 < length parts then Some (parts ! 1) else None),
      sf_replacement = (if 2 < length parts then parts ! 2 else []),
      sf_first = (3 < length parts)\<rparr>)"

definition has_regex :: "regex_suffix \<Rightarrow> bool" where
  "has_regex suffix = (case sf_regex suffix of None \<Rightarrow> False | Some r \<Rightarrow> r \<noteq> [])"

definition apply_regex_suffix :: "regex_compiler \<Rightarrow> regex_suffix \<Rightarrow> ustr \<Rightarrow> ustr" where
  "apply_regex_suffix compile suffix v = (case sf_regex suffix of
       None \<Rightarrow> v
     | Some pattern \<Rightarrow>
         if pattern = [] then v
         else if sf_first suffix then (case compile pattern of
             Inr rx \<Rightarrow> (case rx_expand rx v (sf_replacement suffix) of Some t \<Rightarrow> t | None \<Rightarrow> [])
           | Inl _ \<Rightarrow> sf_replacement suffix)
         else (case compile pattern of
             Inr rx \<Rightarrow> rx_replace_all rx v (sf_replacement suffix)
           | Inl _ \<Rightarrow> str_replace pattern (sf_replacement suffix) v))"

subsection \<open>The pipeline\<close>

fun tolerated :: "ustr list ruled \<Rightarrow> ustr list ruled" where
  \<comment> \<open>\<open>if let Ok(out)\<close>: an error drops the value, a panic does not\<close>
  "tolerated (Inl RulePanic) = Inl RulePanic"
| "tolerated (Inl e) = Inr []"
| "tolerated (Inr vs) = Inr vs"

definition segment_values :: "rule_env \<Rightarrow> legado_mode \<Rightarrow> js_evaluator \<Rightarrow> ustr list \<Rightarrow> ustr \<times> bool \<Rightarrow> ustr list ruled" where
  \<comment> \<open>one segment of \<open>execute_js_pipeline\<close>\<close>
  "segment_values env mode js values seg = (case seg of (t, is_js) \<Rightarrow>
     if is_js then Inr (concat (map (\<lambda>v. case js t (Some v) of Inr r \<Rightarrow> [r] | Inl e \<Rightarrow> []) values))
     else if t \<noteq> [] then
       and_then (collect_results (\<lambda>v. tolerated (execute_mode env v mode t)) values) (\<lambda>rs. Inr (concat rs))
     else Inr values)"

fun execute_js_pipeline :: "rule_env \<Rightarrow> legado_mode \<Rightarrow> js_evaluator \<Rightarrow> ustr list \<Rightarrow> (ustr \<times> bool) list \<Rightarrow> ustr list ruled" where
  "execute_js_pipeline env mode js values [] = Inr values"
| "execute_js_pipeline env mode js values (seg # segs) =
     and_then (segment_values env mode js values seg) (\<lambda>vs. execute_js_pipeline env mode js vs segs)"

definition execute_body :: "rule_env \<Rightarrow> ustr \<Rightarrow> legado_mode \<Rightarrow> ustr \<Rightarrow> js_evaluator option \<Rightarrow> ustr list ruled" where
  \<comment> \<open>the selector of a rule, by its segments\<close>
  "execute_body env input mode selector js = (let segments = split_js_segments selector in
     if list_ex snd segments then (case js of
         Some eval \<Rightarrow> execute_js_pipeline env mode eval [input] segments
       | None \<Rightarrow> execute_mode env input mode (concat (map fst (filter (\<lambda>s. \<not> snd s) segments))))
     else execute_mode env input mode selector)"

definition execute_legado_rule ::
  "rule_env \<Rightarrow> ustr \<Rightarrow> ustr \<Rightarrow> variable_scope \<Rightarrow> js_evaluator option \<Rightarrow> ustr list ruled \<times> variable_scope" where
  "execute_legado_rule env input raw scope js = (let rule = trim raw in
     if rule = [] then (Inr [], scope)
     else (case detect_legado_rule_mode rule of (mode, body0) \<Rightarrow>
       case extract_put_rules (re_json env) body0 scope of (body1, scope') \<Rightarrow>
       let body = substitute_js_templates (substitute_get_rules body1 scope') js;
           suffix = parse_regex_suffix body in
       (and_then (execute_body env input mode (sf_selector suffix) js) (\<lambda>values.
          Inr (if has_regex suffix then map (apply_regex_suffix (re_regex env) suffix) values else values)),
        scope')))"

end
