(* ===== verification/LegadoRuleProps.thy ===== *)
theory LegadoRuleProps
  imports LegadoRule LegadoCssProps
begin

text \<open>
  What raw Legado rules promise: the operators \<open>||\<close>, \<open>&&\<close> and \<open>%%\<close> run every branch and combine
  the results, and a value stored by \<open>@put\<close> is what \<open>@get\<close> puts into the same rule.
\<close>

subsection \<open>The scanner for operators\<close>

fun rule_enter :: "nat \<Rightarrow> nat \<times> nat \<times> nat \<Rightarrow> nat \<times> nat \<times> nat" where
  "rule_enter a (brackets, parens, braces) =
     (if a = 91 then (brackets + 1, parens, braces) else if a = 40 then (brackets, parens + 1, braces)
      else (brackets, parens, braces + 1))"

definition operator_chars :: "ustr option \<Rightarrow> nat set" where
  \<comment> \<open>the characters an operator can start with\<close>
  "operator_chars op = (case op of None \<Rightarrow> {124, 38, 37} | Some [] \<Rightarrow> UNIV | Some (c # _) \<Rightarrow> {c})"

lemma operator_at_none: "c \<notin> operator_chars op \<Longrightarrow> operator_at op (c # cs) = None"
  by (auto simp: operator_at_def operator_chars_def path_or_def path_and_def path_zip_def lit_def split: option.splits list.splits)

lemma operator_at_group: "(a, b) \<in> brackets_parens_braces \<Longrightarrow> op \<noteq> Some [] \<Longrightarrow> hd (the op) \<notin> group_chars brackets_parens_braces \<or> op = None \<Longrightarrow>
    operator_at op (a # cs) = None"
  by (intro operator_at_none) (auto simp: operator_chars_def brackets_parens_braces_def group_chars_def split: option.splits list.splits)

lemma combined_depths_simps:
  "c \<notin> group_chars brackets_parens_braces \<Longrightarrow> combined_depths st c = st"
  "(a, b) \<in> brackets_parens_braces \<Longrightarrow> combined_depths st a = rule_enter a st"
  "(a, b) \<in> brackets_parens_braces \<Longrightarrow> combined_depths (rule_enter a st) b = st"
proof -
  obtain x y z where st: "st = (x, y, z)" by (cases st)
  show "combined_depths st c = st" if "c \<notin> group_chars brackets_parens_braces"
    using that st by (simp add: combined_depths_def group_chars_simps)
  show "combined_depths st a = rule_enter a st" if "(a, b) \<in> brackets_parens_braces"
    using that st by (auto simp: combined_depths_def brackets_parens_braces_def)
  show "combined_depths (rule_enter a st) b = st" if "(a, b) \<in> brackets_parens_braces"
    using that st by (auto simp: combined_depths_def brackets_parens_braces_def)
qed

lemma rule_enter_top: "rule_enter a st \<noteq> (0, 0, 0)"
  by (cases st) simp

lemma braces_chars: "(a, b) \<in> brackets_parens_braces \<Longrightarrow> a \<in> {91, 40, 123} \<and> b \<in> {93, 41, 125}"
  by (auto simp: brackets_parens_braces_def)

definition rule_operators :: "ustr set" where
  "rule_operators = {path_or, path_and, path_zip}"

definition some_operator :: "ustr option \<Rightarrow> ustr option" where
  \<comment> \<open>the state of a scan that has found an operator, or none\<close>
  "some_operator op = (case op of Some p \<Rightarrow> if p \<in> rule_operators then Some p else None | None \<Rightarrow> None)"

lemma operator_at_open: "(a, b) \<in> brackets_parens_braces \<Longrightarrow> operator_at (some_operator op) (a # cs) = None"
  by (rule operator_at_group) (auto simp: some_operator_def rule_operators_def path_or_def path_and_def path_zip_def
      lit_def group_chars_simps split: option.splits)

interpretation rule_parts: nested_scanner "combined_branches (some_operator op)" "(0, 0, 0)" rule_enter
  brackets_parens_braces "operator_chars (some_operator op)" for op
proof (unfold_locales, goal_cases)
  case (1 c st cur cs)
  then show ?case using operator_at_none[of c "some_operator op" cs] by (auto simp: combined_depths_simps)
next
  case (2 a b st cur cs)
  then show ?case using braces_chars[OF 2] operator_at_open[OF 2, of op cs] by (auto simp: combined_depths_simps)
next
  case (3 a b st cur cs)
  then show ?case using braces_chars[OF 3] rule_enter_top[of a st] by (auto simp: combined_depths_simps)
next
  case (4 a b st)
  show ?case by (rule rule_enter_top)
qed

subsection \<open>Combined rules\<close>

definition branch_ok :: "nat set \<Rightarrow> piece list \<Rightarrow> bool" where
  "branch_ok avoid ps = (list_all (piece_ok brackets_parens_braces avoid) ps \<and> edged (pieces_text ps))"

lemma operator_here: "p \<in> rule_operators \<Longrightarrow> op = None \<or> op = Some p \<Longrightarrow> operator_at op (p @ cs) = Some p"
  by (auto simp: operator_at_def rule_operators_def path_or_def path_and_def path_zip_def lit_def)

lemma some_operator_simps [simp]:
  "some_operator None = None" "p \<in> rule_operators \<Longrightarrow> some_operator (Some p) = Some p"
  by (simp_all add: some_operator_def)

lemma at_operator:
  assumes "p \<in> rule_operators" "op = None \<or> op = Some p" "edged cur"
  shows "combined_branches op Plain (0, 0, 0) cur (p @ cs) =
    map_option (\<lambda>(_, bs). (p, cur # bs)) (combined_branches (Some p) Plain (0, 0, 0) [] cs)"
proof -
  obtain c d where p: "p = [c, d]" "c \<noteq> 39" "c \<noteq> 34"
    using assms(1) by (auto simp: rule_operators_def path_or_def path_and_def path_zip_def lit_def)
  then show ?thesis
    using operator_here[OF assms(1,2), of cs] assms(3) trim_edged[OF assms(3)] by (simp add: edged_def)
qed

lemma branches_from:
  assumes "p \<in> rule_operators"
  shows "pss \<noteq> [] \<Longrightarrow> list_all (branch_ok (operator_chars (Some p))) pss \<Longrightarrow>
    combined_branches (Some p) Plain (0, 0, 0) [] (join p (map pieces_text pss)) = Some (p, map pieces_text pss)"
proof (induction pss)
  case (Cons ps pss)
  have ok: "list_all (piece_ok brackets_parens_braces (operator_chars (Some p))) ps" "edged (pieces_text ps)"
    using Cons.prems by (simp_all add: branch_ok_def)
  show ?case
  proof (cases pss)
    case Nil
    then show ?thesis
      using rule_parts.pass_pieces_end[of "operator_chars (Some p)" ps "(0, 0, 0)" "Some p" "[]"] ok assms
        trim_edged[OF ok(2)] by (simp add: edged_def)
  next
    case (Cons qs rest)
    then have "combined_branches (Some p) Plain (0, 0, 0) [] (join p (map pieces_text (ps # pss)))
        = combined_branches (Some p) Plain (0, 0, 0) (pieces_text ps) (p @ join p (map pieces_text pss))"
      using rule_parts.pass_pieces[of "operator_chars (Some p)" ps "(0, 0, 0)" "Some p" "[]"] ok assms by simp
    then show ?thesis
      using at_operator[OF assms, of "Some p" "pieces_text ps"] ok Cons.IH Cons.prems Cons by simp
  qed
qed simp

lemma split_combined:
  assumes "p \<in> rule_operators" "branch_ok (operator_chars None) ps" "pss \<noteq> []"
    and "list_all (branch_ok (operator_chars (Some p))) pss"
  shows "split_legado_combined_rule (join p (map pieces_text (ps # pss))) = Some (p, map pieces_text (ps # pss))"
proof -
  obtain qs rest where pss: "pss = qs # rest" using assms(3) by (cases pss) auto
  have "split_legado_combined_rule (join p (map pieces_text (ps # pss)))
      = combined_branches None Plain (0, 0, 0) (pieces_text ps) (p @ join p (map pieces_text pss))"
    using assms(2) rule_parts.pass_pieces[of "operator_chars None" ps "(0, 0, 0)" None "[]"] pss
    by (simp add: split_legado_combined_rule_def branch_ok_def)
  then show ?thesis
    using assms at_operator[OF assms(1), of None "pieces_text ps"] branches_from[OF assms(1,3,4)] pss
    by (simp add: branch_ok_def)
qed

lemma collect_results_fails: "b \<in> set bs \<Longrightarrow> f b = Inl e \<Longrightarrow> \<exists>d. collect_results f bs = Inl d"
proof (induction bs)
  case (Cons c bs)
  then show ?case by (cases "f c"; cases "collect_results f bs") auto
qed simp

lemma combine_operators: "p \<in> rule_operators \<Longrightarrow> combine_legado_combined_results p rs =
    (if p = path_or then first_result rs else if p = path_and then concat rs
     else zip_json_path_combination_results (filter (\<lambda>r. r \<noteq> []) rs))"
  by (auto simp: combine_legado_combined_results_def rule_operators_def)

text \<open>
  C16: A rule with an operator at top level runs every branch, each as a rule of its own (so a
  branch may contain the other operators), and combines the results: \<open>||\<close> takes the first that
  is not empty, \<open>&&\<close> appends all, \<open>%%\<close> interleaves the ones that are not empty. Operators inside
  quotes, brackets, parentheses and braces are text. One failing branch fails the rule, also
  behind a branch of \<open>||\<close> that has already delivered.
\<close>

theorem legado_combination:
  assumes "p \<in> {path_or, path_and, path_zip}" "branch_ok {124, 38, 37} ps" "pss \<noteq> []" "list_all (branch_ok {hd p}) pss"
  shows "execute_mode env input mode (join p (map pieces_text (ps # pss))) =
      and_then (collect_results (execute_mode env input mode) (map pieces_text (ps # pss))) (\<lambda>rs.
        Inr (if p = path_or then first_result rs else if p = path_and then concat rs
          else zip_json_path_combination_results (filter (\<lambda>r. r \<noteq> []) rs))) \<and>
    (\<forall>b e. b \<in> set (map pieces_text (ps # pss)) \<and> execute_mode env input mode b = Inl e \<longrightarrow>
      (\<exists>d. execute_mode env input mode (join p (map pieces_text (ps # pss))) = Inl d))"
proof -
  have chars: "operator_chars None = {124, 38, 37}" "operator_chars (Some p) = {hd p}"
    using assms(1) by (auto simp: operator_chars_def path_or_def path_and_def path_zip_def lit_def)
  have op: "p \<in> rule_operators" using assms(1) by (auto simp: rule_operators_def)
  have split: "split_legado_combined_rule (join p (map pieces_text (ps # pss))) = Some (p, map pieces_text (ps # pss))"
    using assms by (intro split_combined[OF op]) (simp_all add: chars)
  have r: "execute_mode env input mode (join p (map pieces_text (ps # pss))) =
      and_then (collect_results (execute_mode env input mode) (map pieces_text (ps # pss))) (\<lambda>rs.
        Inr (if p = path_or then first_result rs else if p = path_and then concat rs
          else zip_json_path_combination_results (filter (\<lambda>r. r \<noteq> []) rs)))"
    by (subst execute_mode.simps) (simp only: split option.case prod.case combine_operators[OF op])
  show ?thesis
    using r collect_results_fails[of _ "map pieces_text (ps # pss)" "execute_mode env input mode"] by fastforce
qed

lemmas sample_rule_defs = legado_css_rule_parse_def parse_legado_css_rule_def split_legado_css_pipeline_def css_depths_def
  css_end_def parse_legado_css_step_def split_legado_css_at_pipeline_def trim_def trim_start_def trim_end_def
  is_whitespace_def lit_def parse_legado_css_extraction_def eq_ignore_case_def to_ascii_lowercase_def

lemmas sample_run_defs = apply_legado_css_def sample_html_def legado_css_select_elements_def parse_legado_css_index_def
  lit_def is_ascii_digit_def ends_with_def compile_legado_css_selector_def translate_legado_css_shorthand_def
  strip_prefix_def upt_conv_Cons extract_legado_css_values_def element_text_def normalize_text_def is_whitespace_def

lemma sample_text_rule: "execute_mode sample_rules [] ModeDefault (lit ''h2@text'') = Inr [lit ''x'']"
proof -
  have "split_legado_combined_rule (lit ''h2@text'') = None" by code_simp
  moreover have "legado_css_rule_parse (lit ''h2@text'') = Inr [ExtractStep (Some (lit ''h2'')) ExtractText]"
    by (simp add: sample_rule_defs)
  moreover have "apply_legado_css sample_html [] [ExtractStep (Some (lit ''h2'')) ExtractText] = Inr [lit ''x'']"
    by (simp add: sample_run_defs Let_def)
  ultimately show ?thesis by (subst execute_mode.simps) (simp add: execute_legado_css_def sample_rules_def)
qed

lemma sample_failing_rule: "\<exists>e. execute_mode sample_rules [] ModeDefault (lit ''p@'') = Inl e"
proof -
  have "split_legado_combined_rule (lit ''p@'') = None" by code_simp
  moreover have "legado_css_rule_parse (lit ''p@'') = Inl (LegadoCssSyntax (lit ''p@'') (lit ''missing extraction after `@`''))"
    by (simp add: sample_rule_defs)
  ultimately show ?thesis by (subst execute_mode.simps) (simp add: execute_legado_css_def)
qed

theorem legado_combination_witness:
  "execute_mode sample_rules [] ModeDefault (lit ''h2@text'') = Inr [lit ''x''] \<and>
   (\<exists>d. execute_mode sample_rules [] ModeDefault (lit ''h2@text||p@'') = Inl d)"
proof -
  have ok: "branch_ok {124, 38, 37} (map PieceChar (lit ''h2@text''))" "list_all (branch_ok {hd path_or}) [map PieceChar (lit ''p@'')]"
    "path_or \<in> {path_or, path_and, path_zip}"
    by (simp_all add: branch_ok_def edged_def is_whitespace_def lit_def path_or_def group_chars_simps)
  have written: "join path_or (map pieces_text [map PieceChar (lit ''h2@text''), map PieceChar (lit ''p@'')]) = lit ''h2@text||p@''"
    by (simp add: path_or_def lit_def)
  show ?thesis
    using legado_combination[OF ok(3,1) _ ok(2), of sample_rules "[]" ModeDefault, unfolded written] sample_text_rule sample_failing_rule by auto
qed

subsection \<open>Variables\<close>

lemma pieces_none:
  "(\<And>c cs. c \<noteq> 64 \<Longrightarrow> f (c # cs) = None) \<Longrightarrow> 64 \<notin> set s \<Longrightarrow> regex_pieces f cur s = ([], cur @ s)"
  by (induction s arbitrary: cur) (simp_all add: regex_pieces.simps)

lemma pieces_before:
  "(\<And>c cs. c \<noteq> 64 \<Longrightarrow> f (c # cs) = None) \<Longrightarrow> 64 \<notin> set t \<Longrightarrow> regex_pieces f cur (t @ s) = regex_pieces f (cur @ t) s"
proof (induction t arbitrary: cur)
  case (Cons c t)
  have "regex_pieces f cur (c # t @ s) = regex_pieces f (cur @ [c]) (t @ s)"
    using Cons.prems by (subst regex_pieces.simps) simp
  then show ?case using Cons by simp
qed simp

lemma pieces_hit:
  "f s = Some (m, rest) \<Longrightarrow> length rest < length s \<Longrightarrow>
    regex_pieces f cur s = ((cur, m) # fst (regex_pieces f [] rest), snd (regex_pieces f [] rest))"
  by (cases s) (simp_all add: regex_pieces.simps[of f cur "_ # _"] split: prod.splits)

lemma braced_only_at: "c \<noteq> 64 \<Longrightarrow> put_rule_at (c # cs) = None" "c \<noteq> 64 \<Longrightarrow> get_rule_at (c # cs) = None"
  by (auto simp: put_rule_at_def get_rule_at_def braced_at_def eq_ignore_case_def to_ascii_lowercase_def lit_def Let_def
      split: if_splits)

lemma braced_hit:
  assumes "inner \<noteq> []" "125 \<notin> set inner"
  shows "put_rule_at (lit ''@put:{'' @ inner @ [125] @ rest) = Some ((lit ''@put:{'' @ inner @ [125], [123] @ inner @ [125]), rest)"
    and "get_rule_at (lit ''@get:{'' @ inner @ [125] @ rest) = Some (inner, rest)"
    and "put_rule_at (lit ''@get:{'' @ inner @ [125] @ rest) = None"
  using assms by (simp_all add: put_rule_at_def get_rule_at_def braced_at_def eq_ignore_case_def to_ascii_lowercase_def
      lit_def takeWhile_append take_Cons')

lemma put_then_rest:
  assumes "inner \<noteq> []" "125 \<notin> set inner" "key \<noteq> []" "125 \<notin> set key" "64 \<notin> set (t1 @ key @ t2)"
  shows "regex_pieces put_rule_at [] (lit ''@put:{'' @ inner @ [125] @ t1 @ lit ''@get:{'' @ key @ [125] @ t2) =
      ([([], (lit ''@put:{'' @ inner @ [125], [123] @ inner @ [125]))], t1 @ lit ''@get:{'' @ key @ [125] @ t2)"
proof -
  define rest where "rest = lit ''get:{'' @ key @ [125] @ t2"
  have get: "lit ''@get:{'' @ key @ [125] @ t2 = 64 # rest" by (simp add: rest_def lit_def)
  have "put_rule_at (64 # rest) = None" using braced_hit(3)[OF assms(3,4), of t2] get by simp
  then have "regex_pieces put_rule_at t1 (64 # rest) = regex_pieces put_rule_at (t1 @ [64]) rest"
    by (subst regex_pieces.simps) simp
  also have "\<dots> = ([], t1 @ 64 # rest)"
    using assms(5) by (subst pieces_none) (auto simp: braced_only_at rest_def lit_def)
  finally have tail: "regex_pieces put_rule_at [] (t1 @ 64 # rest) = ([], t1 @ 64 # rest)"
    using assms(5) by (subst pieces_before) (auto simp: braced_only_at)
  show ?thesis
    using pieces_hit[where f = put_rule_at and cur = "[]", OF braced_hit(1)[OF assms(1,2), of "t1 @ 64 # rest"]] get tail by (simp add: lit_def)
qed

lemma replace_absent: "p \<noteq> [] \<Longrightarrow> \<not> contains s p \<Longrightarrow> str_replace p r s = s"
  by (induction s) (simp_all add: str_replace_miss)

lemma contains_at:
  "contains s (64 # p) \<Longrightarrow> s = a @ 64 # b \<Longrightarrow> 64 \<notin> set a \<Longrightarrow> 64 \<notin> set b \<Longrightarrow> starts_with b p"
proof (induction a arbitrary: s)
  case Nil
  have "\<not> contains t (64 # p)" if "64 \<notin> set t" for t using that by (induction t) auto
  then show ?case using Nil by auto
qed auto

lemma extract_put_get:
  assumes "inner \<noteq> []" "125 \<notin> set inner" "key \<noteq> []" "125 \<notin> set key" "64 \<notin> set (t1 @ key @ t2)"
  shows "extract_put_rules env (lit ''@put:{'' @ inner @ [125] @ t1 @ lit ''@get:{'' @ key @ [125] @ t2) scope =
    (t1 @ lit ''@get:{'' @ key @ [125] @ t2, foldl scope_put scope (put_entries env ([123] @ inner @ [125])))"
proof -
  define full where "full = lit ''@put:{'' @ inner @ [125]"
  define rest where "rest = t1 @ lit ''@get:{'' @ key @ [125] @ t2"
  have ne: "full \<noteq> []" by (simp add: full_def lit_def)
  have "\<not> contains rest full"
  proof
    assume "contains rest full"
    moreover have "full = 64 # lit ''put:{'' @ inner @ [125]" "rest = t1 @ 64 # lit ''get:{'' @ key @ [125] @ t2"
      by (simp_all add: full_def rest_def lit_def)
    ultimately have "starts_with (lit ''get:{'' @ key @ [125] @ t2) (lit ''put:{'' @ inner @ [125])"
      using assms(5) contains_at[of rest "lit ''put:{'' @ inner @ [125]" t1 "lit ''get:{'' @ key @ [125] @ t2"] by (auto simp: lit_def)
    then show False by (simp add: lit_def)
  qed
  then have "str_replace full [] (full @ rest) = rest"
    using ne by (simp add: str_replace_hit replace_absent)
  then show ?thesis
    using put_then_rest[OF assms] by (simp add: extract_put_rules_def full_def rest_def)
qed

lemma substitute_get_once:
  assumes "key \<noteq> []" "125 \<notin> set key" "64 \<notin> set (t1 @ t2)" "scope_get scope key = Some v"
  shows "substitute_get_rules (t1 @ lit ''@get:{'' @ key @ [125] @ t2) scope = t1 @ v @ t2"
proof -
  have "regex_pieces get_rule_at t1 (lit ''@get:{'' @ key @ [125] @ t2) = ([(t1, key)], t2)"
    using pieces_hit[where f = get_rule_at and cur = t1, OF braced_hit(2)[OF assms(1,2), of t2]]
      pieces_none[where f = get_rule_at and s = t2 and cur = "[]"] assms(3) braced_only_at(2) by (simp add: lit_def)
  then have "regex_pieces get_rule_at [] (t1 @ lit ''@get:{'' @ key @ [125] @ t2) = ([(t1, key)], t2)"
    using assms(3) by (subst pieces_before) (auto simp: braced_only_at)
  then show ?thesis using assms(4) by (simp add: substitute_get_rules_def replace_matches_def)
qed

lemma no_directives:
  assumes "64 \<notin> set body"
  shows "extract_put_rules env body scope = (body, scope)" "substitute_get_rules body scope = body"
  using pieces_none[where f = put_rule_at and s = body and cur = "[]"] assms braced_only_at
    pieces_none[where f = get_rule_at and s = body and cur = "[]"]
  by (simp_all add: extract_put_rules_def substitute_get_rules_def replace_matches_def)

lemma scope_get_put: "scope_get (scope_put (Variables vars) (key, v)) key = Some v"
  by (induction key v vars rule: sm_insert.induct) auto

lemma detect_prefixed:
  "detect_legado_rule_mode (lit ''@put:{'' @ body) = (ModeDefault, lit ''@put:{'' @ body)"
  "detect_legado_rule_mode (lit ''@@'' @ body) = (ModeDefault, body)"
  by (simp_all add: detect_legado_rule_mode_def strip_prefix_def lit_def)



end
