(* ===== verification/RuleComplete.thy ===== *)
theory RuleComplete
  imports RegexSteps
begin

text \<open>
  Completion of rules that leave out their extraction (\<open>auto_complete_rule\<close> and
  \<open>auto_complete_list_rule\<close> in \<open>crates/reader-rule/src/lib.rs\<close>): every branch of a simple rule
  that ends in no extraction keyword gets one, and a text extraction behind an image becomes
  its \<open>alt\<close>. A panic of the code is the value \<open>None\<close>; the two regular expressions for images are
  compiled by the parameter \<open>compile\<close>.
\<close>

subsection \<open>Branches\<close>

definition matches_not_complete :: "ustr \<Rightarrow> bool" where
  "matches_not_complete rule =
     (starts_with rule (lit '':'') \<or> starts_with rule (lit ''##'') \<or> contains rule (lit ''{{'')
      \<or> contains rule (lit ''@js:'') \<or> contains rule (lit ''<js>'') \<or> contains rule (lit ''@Json:'')
      \<or> contains rule (lit ''$.''))"

definition is_xpath_rule :: "ustr \<Rightarrow> bool" where
  "is_xpath_rule rule = (starts_with rule (lit ''//'') \<or> starts_with rule (lit ''@Xpath:''))"

definition split_rule_tail :: "ustr \<Rightarrow> ustr \<times> ustr" where
  \<comment> \<open>the rule before the first \<open>##\<close> or \<open>,{\<close>, and the rest\<close>
  "split_rule_tail rule = (case (find_str [35, 35] rule, find_str [44, 123] rule) of
       (None, None) \<Rightarrow> (rule, [])
     | (Some (a, _), None) \<Rightarrow> (a, drop (length a) rule)
     | (None, Some (b, _)) \<Rightarrow> (b, drop (length b) rule)
     | (Some (a, _), Some (b, _)) \<Rightarrow>
         if length b < length a then (b, drop (length b) rule) else (a, drop (length a) rule))"

definition extraction_keywords :: "ustr list" where
  "extraction_keywords = map lit [''attr'', ''text'', ''ownText'', ''textNodes'', ''href'', ''content'', ''html'',
     ''alt'', ''all'', ''value'', ''src'']"

definition is_separator :: "ustr \<Rightarrow> bool" where
  \<comment> \<open>the text starts with \<open>&&\<close>, \<open>%%\<close> or \<open>||\<close>\<close>
  "is_separator s = (starts_with s [38, 38] \<or> starts_with s [37, 37] \<or> starts_with s [124, 124])"

definition has_extraction_prefix :: "ustr \<Rightarrow> bool" where
  "has_extraction_prefix before =
     (before = [] \<or> ends_with before [64] \<or> ends_with before [47]
      \<or> ends_with before [38, 38] \<or> ends_with before [37, 37] \<or> ends_with before [124, 124])"

definition ends_in_keyword :: "ustr \<Rightarrow> ustr \<Rightarrow> bool" where
  "ends_in_keyword segment keyword = (case strip_suffix keyword segment of
       None \<Rightarrow> False | Some before \<Rightarrow> has_extraction_prefix before)"

definition segment_has_extraction :: "ustr \<Rightarrow> bool" where
  "segment_has_extraction segment =
     list_ex (\<lambda>k. ends_in_keyword segment (k @ [40, 41]) \<or> ends_in_keyword segment k) extraction_keywords"

fun complete_from :: "ustr \<Rightarrow> ustr \<Rightarrow> ustr \<Rightarrow> ustr" where
  \<comment> \<open>the loop of \<open>apply_need_complete\<close>, with the segment read so far\<close>
  "complete_from insertion seg [] =
     seg @ (if seg \<noteq> [] \<and> \<not> segment_has_extraction seg then insertion else [])"
| "complete_from insertion seg (c # cs) =
     (if is_separator (c # cs) then
        seg @ (if segment_has_extraction seg then [] else insertion) @ take 2 (c # cs)
          @ complete_from insertion [] (drop 1 cs)
      else complete_from insertion (seg @ [c]) cs)"

definition apply_need_complete :: "ustr \<Rightarrow> ustr \<Rightarrow> ustr" where
  "apply_need_complete cleaned_rule insertion =
     (if cleaned_rule = [] then [] else complete_from insertion [] cleaned_rule)"

subsection \<open>Images\<close>

fun take_bytes :: "nat \<Rightarrow> ustr \<Rightarrow> ustr option" where
  \<comment> \<open>the first characters that make up this many bytes; \<open>None\<close>: not at a character boundary\<close>
  "take_bytes n s = (if n = 0 then Some [] else (case s of
       [] \<Rightarrow> None
     | c # cs \<Rightarrow> if utf8_len c \<le> n then map_option ((#) c) (take_bytes (n - utf8_len c) cs) else None))"

declare take_bytes.simps [simp del]

definition is_valid_img_prefix :: "ustr \<Rightarrow> bool option" where
  \<comment> \<open>of the text before the match; slicing off its last four bytes panics inside a character\<close>
  "is_valid_img_prefix before =
     (if before = [] then Some True
      else (case (if 4 \<le> byte_len before then map_option rev (take_bytes 4 (rev before)) else Some []) of
          None \<Rightarrow> None
        | Some back \<Rightarrow> if back = lit ''tag.'' then Some True
            else Some (last before \<in> set (map of_char ''+/@>~| &''))))"

definition backslashed :: "string \<Rightarrow> ustr" where
  \<comment> \<open>a text in which a backquote stands for a backslash\<close>
  "backslashed s = map (\<lambda>c. if c = 96 then 92 else c) (lit s)"

definition img_pattern :: "bool \<Rightarrow> ustr" where
  "img_pattern is_xpath = (if is_xpath then backslashed ''img(`[@?.+`]|`.[-`w]+)?[/]+text(`(`))?(&&|%%|`|`||$)''
     else backslashed ''img(`[@?.+`]|`.[-`w]+)?[@/]+text(`(`))?(&&|%%|`|`||$)'')"

definition fixed_img :: "compiled_regex \<Rightarrow> bool \<Rightarrow> ustr \<Rightarrow> ustr option" where
  \<comment> \<open>what replaces one match; the code unwraps the second search in the matched text\<close>
  "fixed_img rx is_xpath matched = (case rx_captures rx matched of
       [] \<Rightarrow> None
     | caps # _ \<Rightarrow> Some (lit ''img'' @ (case captured caps 1 of None \<Rightarrow> [] | Some t \<Rightarrow> t)
         @ (if is_xpath then lit ''/@alt'' else lit ''@alt'')
         @ (case captured caps 3 of None \<Rightarrow> [] | Some t \<Rightarrow> t)))"

fun fix_img_matches :: "compiled_regex \<Rightarrow> bool \<Rightarrow> ustr \<Rightarrow> nat \<Rightarrow> (ustr \<times> ustr) list \<Rightarrow> ustr option" where
  \<comment> \<open>the loop over the matches; \<open>last_end\<close>: how much of the rule has been copied\<close>
  "fix_img_matches rx is_xpath rule last_end [] = Some (drop last_end rule)"
| "fix_img_matches rx is_xpath rule last_end ((before, matched) # ms) = (case is_valid_img_prefix before of
       None \<Rightarrow> None
     | Some False \<Rightarrow> fix_img_matches rx is_xpath rule last_end ms
     | Some True \<Rightarrow> (case fixed_img rx is_xpath matched of
         None \<Rightarrow> None
       | Some t \<Rightarrow> map_option (\<lambda>r. drop last_end before @ t @ r)
           (fix_img_matches rx is_xpath rule (length before + length matched) ms)))"

definition apply_fix_img_info :: "regex_compiler \<Rightarrow> ustr \<Rightarrow> bool \<Rightarrow> ustr option" where
  "apply_fix_img_info compile cleaned_rule is_xpath = (case compile (img_pattern is_xpath) of
       Inl _ \<Rightarrow> Some cleaned_rule
     | Inr rx \<Rightarrow> fix_img_matches rx is_xpath cleaned_rule 0 (rx_find rx cleaned_rule))"

subsection \<open>Completion\<close>

definition insertion_of :: "8 word \<Rightarrow> bool \<Rightarrow> ustr option" where
  "insertion_of rule_type is_xpath =
     (if rule_type = 1 then Some (if is_xpath then lit ''//text()'' else lit ''@text'')
      else if rule_type = 2 then Some (if is_xpath then lit ''//@href'' else lit ''@href'')
      else if rule_type = 3 then Some (if is_xpath then lit ''//@src'' else lit ''@src'')
      else None)"

definition auto_complete_rule :: "regex_compiler \<Rightarrow> ustr \<Rightarrow> ustr option \<Rightarrow> 8 word \<Rightarrow> ustr option" where
  "auto_complete_rule compile rule pre_rule rule_type =
     (if rule = [] \<or> matches_not_complete rule then Some rule
      else if (case pre_rule of None \<Rightarrow> False | Some pre \<Rightarrow> pre \<noteq> [] \<and> matches_not_complete pre) then Some rule
      else (case split_rule_tail rule of (cleaned_rule, tail) \<Rightarrow>
        (case insertion_of rule_type (is_xpath_rule cleaned_rule) of
           None \<Rightarrow> Some rule
         | Some insertion \<Rightarrow> (let completed = apply_need_complete cleaned_rule insertion in
             map_option (\<lambda>t. t @ tail)
               (if rule_type = 1 then apply_fix_img_info compile completed (is_xpath_rule cleaned_rule)
                else Some completed)))))"

definition auto_complete_list_rule :: "(ustr \<Rightarrow> ustr) \<Rightarrow> ustr \<Rightarrow> ustr" where
  \<comment> \<open>the argument is \<open>str::to_lowercase\<close>\<close>
  "auto_complete_list_rule lower rule =
     (if rule = [] then rule
      else if starts_with rule (lit ''$.'') \<or> starts_with rule (lit ''$['')
        \<or> starts_with (lower rule) (lit ''@json:'') \<or> starts_with (lower rule) (lit ''@xpath:'') then rule
      else (case split_rule_tail rule of (cleaned_rule, tail) \<Rightarrow>
        apply_need_complete cleaned_rule (lit ''@html'') @ tail))"

end
