(* ===== verification/RuleCompleteProps.thy ===== *)
theory RuleCompleteProps
  imports RuleComplete
begin

text \<open>
  What the completion of rules promises: completing a link or image rule twice changes nothing
  more, and completing a text rule panics where an image stands behind a character that is
  not ASCII.
\<close>

subsection \<open>Insertions and patterns\<close>

definition inert :: "ustr \<Rightarrow> ustr \<Rightarrow> bool" where
  \<comment> \<open>an occurrence of the pattern cannot overlap the insertion\<close>
  "inert ins p = (ins \<noteq> [] \<and> p \<noteq> [] \<and> last p \<notin> set ins \<and> last ins \<notin> set p)"

lemma contains_at_iff: "contains s p \<longleftrightarrow> (\<exists>a b. s = a @ p @ b)"
proof
  assume "contains s p"
  then show "\<exists>a b. s = a @ p @ b"
  proof (induction s)
    case (Cons c s)
    show ?case
    proof (cases "starts_with (c # s) p")
      case True
      then show ?thesis by (metis append_Nil starts_with_iff)
    next
      case False
      then have "contains s p" using Cons.prems by simp
      then obtain a b where "s = a @ p @ b" using Cons.IH by blast
      then have "c # s = (c # a) @ p @ b" by simp
      then show ?thesis by blast
    qed
  qed simp
next
  assume "\<exists>a b. s = a @ p @ b"
  then obtain a b where "s = a @ p @ b" by blast
  then show "contains s p"
  proof (induction a arbitrary: s)
    case Nil
    then have "starts_with s p" by (simp add: starts_with_append)
    then show ?case by (cases s) (auto elim: starts_with.elims)
  qed simp
qed

lemma starts_with_short: "starts_with (x @ y) p \<Longrightarrow> y \<noteq> [] \<Longrightarrow> hd y \<notin> set p \<Longrightarrow> starts_with x p"
proof (induction x p rule: starts_with.induct)
  case (1 s)
  then show ?case by simp
next
  case (2 c p)
  then show ?case by (cases y) auto
qed auto

lemma starts_with_inert: "inert ins p \<Longrightarrow> starts_with (x @ ins @ y) p \<Longrightarrow> starts_with x p"
proof -
  assume i: "inert ins p" and s: "starts_with (x @ ins @ y) p"
  then obtain t where t: "x @ ins @ y = p @ t" by (auto simp: starts_with_iff)
  then consider us where "x = p @ us" | q where "p = x @ q" "ins @ y = q @ t"
    by (auto simp: append_eq_append_conv2)
  then show "starts_with x p"
  proof cases
    case (1 us)
    then show ?thesis by (simp add: starts_with_append)
  next
    case (2 q)
    from 2(2) consider us where "ins = q @ us" | us where "q = ins @ us" by (auto simp: append_eq_append_conv2)
    then show ?thesis
    proof cases
      case (1 us)
      then show ?thesis using 2(1) i by (cases "q = []") (auto simp: inert_def starts_with_iff)
    next
      case u: (2 us)
      then have "set ins \<subseteq> set p" using 2(1) by auto
      then have "last ins \<in> set p" using subsetD[of "set ins" "set p" "last ins"] i by (simp add: inert_def)
      then show ?thesis using i by (simp add: inert_def)
    qed
  qed
qed

lemma contains_append: "contains s p \<Longrightarrow> contains (x @ s @ y) p"
  unfolding contains_at_iff by (metis append.assoc)

lemma contains_inert: "inert ins p \<Longrightarrow> contains (x @ ins @ y) p \<Longrightarrow> contains x p \<or> contains y p"
proof (induction x)
  case Nil
  have "contains (u @ y) p \<Longrightarrow> set u \<subseteq> set ins \<Longrightarrow> u = [] \<or> last u = last ins \<Longrightarrow> contains y p" for u
  proof (induction u)
    case (Cons c u)
    have "\<not> starts_with (c # u @ y) p"
    proof
      assume "starts_with (c # u @ y) p"
      then obtain t where t: "(c # u) @ y = p @ t" by (auto simp: starts_with_iff)
      from t consider us where "c # u = p @ us" | us where "p = (c # u) @ us"
        unfolding append_eq_append_conv2 by blast
      then show False
      proof cases
        case (1 us)
        have "last p \<in> set (c # u)" unfolding 1 using Nil.prems(1) by (simp add: inert_def)
        then show False using Cons.prems(2) Nil.prems(1) by (auto simp: inert_def)
      next
        case (2 us)
        have "last (c # u) \<in> set p" unfolding 2 by (cases u rule: rev_cases) auto
        then show False using Cons.prems(3) Nil.prems(1) by (auto simp: inert_def)
      qed
    qed
    then show ?case using Cons by (cases "u = []") auto
  qed simp
  from this[of ins] Nil.prems show ?case by auto
next
  case (Cons c x)
  show ?case
  proof (cases "starts_with (c # x @ ins @ y) p")
    case True
    then have "starts_with (c # x) p" using starts_with_inert[OF Cons.prems(1), of "c # x" y] by simp
    then show ?thesis by simp
  next
    case False
    then show ?thesis using Cons by auto
  qed
qed

subsection \<open>Completing the branches\<close>

definition is_insertion :: "ustr \<Rightarrow> bool" where
  \<comment> \<open>what is put behind a branch: it counts as an extraction and starts no separator\<close>
  "is_insertion ins = (ins \<in> {lit ''@href'', lit ''@src'', lit ''//@href'', lit ''//@src'', lit ''@html''})"

lemma is_separator_iff: "is_separator (c # cs) \<longleftrightarrow> cs \<noteq> [] \<and> hd cs = c \<and> c \<in> {37, 38, 124}"
  by (cases cs) (auto simp: is_separator_def)

lemma is_separator_Nil [simp]: "\<not> is_separator []"
  by (simp add: is_separator_def)

lemma keyword_extracts: "k \<in> set extraction_keywords \<Longrightarrow> segment_has_extraction (x @ 64 # k)"
proof -
  assume k: "k \<in> set extraction_keywords"
  have "strip_suffix k (x @ 64 # k) = Some (x @ [64])"
    by (simp add: strip_suffix_def ends_with_def starts_with_append)
  then have "ends_in_keyword (x @ 64 # k) k" by (simp add: ends_in_keyword_def has_extraction_prefix_def ends_with_def)
  then show ?thesis using k by (auto simp: segment_has_extraction_def list_ex_iff)
qed

lemma insertion_form: "is_insertion ins \<Longrightarrow> \<exists>x k. ins = x @ 64 # k \<and> k \<in> set extraction_keywords"
proof -
  assume "is_insertion ins"
  then have "\<exists>x \<in> {[], [47, 47]}. \<exists>k \<in> {lit ''href'', lit ''src'', lit ''html''}. ins = x @ 64 # k"
    by (auto simp: is_insertion_def lit_def)
  then show ?thesis by (fastforce simp: extraction_keywords_def)
qed

lemma insertion_extracts: "is_insertion ins \<Longrightarrow> segment_has_extraction (seg @ ins)"
  using insertion_form[of ins] keyword_extracts[of _ "seg @ _"] by fastforce

lemma insertion_chars: "is_insertion ins \<Longrightarrow> ins \<noteq> [] \<and> set ins \<inter> {37, 38, 124} = {}"
  by (auto simp: is_insertion_def lit_def)

fun quiet :: "ustr \<Rightarrow> ustr \<Rightarrow> bool" where
  \<comment> \<open>no separator starts in a segment that is followed by this text\<close>
  "quiet [] s = True"
| "quiet (c # seg) s = (\<not> is_separator (c # seg @ s) \<and> quiet seg s)"

lemma quiet_snoc: "quiet (seg @ [c]) s \<longleftrightarrow> quiet seg (c # s) \<and> \<not> is_separator (c # s)"
  by (induction seg) auto

lemma quiet_hd: "quiet seg s \<Longrightarrow> s \<noteq> [] \<Longrightarrow> s' \<noteq> [] \<Longrightarrow> hd s' = hd s \<Longrightarrow> quiet seg s'"
  by (induction seg) (auto simp: is_separator_iff hd_append)

lemma quiet_plain: "set ins \<inter> {37, 38, 124} = {} \<Longrightarrow> quiet ins s"
  by (induction ins) (auto simp: is_separator_iff)

lemma quiet_inserted: "quiet seg s \<Longrightarrow> ins \<noteq> [] \<Longrightarrow> set ins \<inter> {37, 38, 124} = {} \<Longrightarrow> quiet (seg @ ins) t"
proof (induction seg)
  case (Cons c seg)
  then show ?case by (cases seg; cases ins) (auto simp: is_separator_iff)
qed (simp add: quiet_plain)

lemma complete_quiet: "quiet seg s \<Longrightarrow> complete_from ins cur (seg @ s) = complete_from ins (cur @ seg) s"
  by (induction seg arbitrary: cur) simp_all

lemma complete_again:
  "is_insertion ins \<Longrightarrow> quiet seg s \<Longrightarrow> complete_from ins [] (complete_from ins seg s) = complete_from ins seg s"
proof (induction ins seg s rule: complete_from.induct)
  case (1 ins seg)
  have "quiet (seg @ ins) []" using quiet_inserted[OF 1(2)] insertion_chars[OF 1(1)] by simp
  then show ?case
    using complete_quiet[of seg "[]" ins "[]"] complete_quiet[of "seg @ ins" "[]" ins "[]"] 1 insertion_extracts[OF 1(1)]
    by simp
next
  case (2 ins seg c cs)
  show ?case
  proof (cases "is_separator (c # cs)")
    case True
    then obtain ds where cs: "cs = c # ds" "c \<in> {37, 38, 124}" by (cases cs) (auto simp: is_separator_iff)
    define seg' where "seg' = seg @ (if segment_has_extraction seg then [] else ins)"
    have s': "segment_has_extraction seg'" using insertion_extracts[OF "2.prems"(1)] by (simp add: seg'_def)
    have q: "quiet seg' (c # c # complete_from ins [] ds)"
      using quiet_inserted[OF "2.prems"(2)] quiet_hd[OF "2.prems"(2)] insertion_chars[OF "2.prems"(1)]
      by (auto simp: seg'_def)
    have sep: "is_separator (c # c # t)" for t using cs(2) by (auto simp: is_separator_iff)
    have eq: "complete_from ins seg (c # cs) = seg' @ c # c # complete_from ins [] ds"
      using True cs by (simp add: seg'_def)
    show ?thesis
      unfolding eq using complete_quiet[OF q, of ins "[]"] s' 2(1)[OF True "2.prems"(1)] cs(1) sep by simp
  next
    case False
    then show ?thesis using 2 by (simp add: quiet_snoc)
  qed
qed

lemma contains_complete:
  "inert ins p \<Longrightarrow> contains (pre @ complete_from ins seg s @ u) p \<Longrightarrow> contains (pre @ seg @ s @ u) p"
proof (induction ins seg s arbitrary: pre rule: complete_from.induct)
  case (1 ins seg)
  then show ?case
    using contains_inert[OF 1(1), of "pre @ seg" u] contains_append[of "pre @ seg" p "[]" u] contains_append[of u p "pre @ seg" "[]"]
    by (auto split: if_splits)
next
  case (2 ins seg c cs)
  show ?case
  proof (cases "is_separator (c # cs)")
    case True
    note ih = 2(1)[OF True "2.prems"(1)]
    have whole: "take 2 (c # cs) @ drop 1 cs = c # cs" by (cases cs) simp_all
    show ?thesis
    proof (cases "segment_has_extraction seg")
      case has: True
      have "contains ((pre @ seg @ take 2 (c # cs)) @ complete_from ins [] (drop 1 cs) @ u) p"
        using "2.prems"(2) True has by simp
      from ih[OF this] show ?thesis using whole by (metis append.assoc append_Nil)
    next
      case False
      have "contains ((pre @ seg) @ ins @ (take 2 (c # cs) @ complete_from ins [] (drop 1 cs) @ u)) p"
        using "2.prems"(2) True False by simp
      from contains_inert[OF "2.prems"(1) this] show ?thesis
      proof
        assume "contains (pre @ seg) p"
        then show ?thesis using contains_append[of "pre @ seg" p "[]" "(c # cs) @ u"] by simp
      next
        assume "contains (take 2 (c # cs) @ complete_from ins [] (drop 1 cs) @ u) p"
        from ih[OF this] have "contains ((c # cs) @ u) p" using whole by (metis append.assoc append_Nil)
        then show ?thesis using contains_append[of "(c # cs) @ u" p "pre @ seg" "[]"] by simp
      qed
    qed
  next
    case False
    then show ?thesis using 2(2)[OF False "2.prems"(1), of pre] "2.prems"(2) by simp
  qed
qed

subsection \<open>The tail of a rule\<close>

definition tail_start :: "ustr \<Rightarrow> bool" where
  "tail_start s = (starts_with s [35, 35] \<or> starts_with s [44, 123])"

lemma split_tail_simps:
  "split_rule_tail [] = ([], [])"
  "split_rule_tail (c # cs) = (if tail_start (c # cs) then ([], c # cs)
     else (case split_rule_tail cs of (a, t) \<Rightarrow> (c # a, t)))"
  by (auto simp: split_rule_tail_def tail_start_def split: option.splits prod.splits)

definition tail_free :: "ustr \<Rightarrow> ustr \<Rightarrow> bool" where
  \<comment> \<open>no tail starts before the text that follows\<close>
  "tail_free a t = (\<not> contains (a @ take 1 t) [35, 35] \<and> \<not> contains (a @ take 1 t) [44, 123])"

lemma starts_with_two: "starts_with (c # cs) [x, y] \<longleftrightarrow> c = x \<and> cs \<noteq> [] \<and> hd cs = y"
  by (cases cs) auto

lemma tail_free_Cons: "tail_free (c # a) t \<longleftrightarrow> \<not> tail_start (c # a @ t) \<and> tail_free a t"
proof -
  have "starts_with (c # a @ take 1 t) [x, y] \<longleftrightarrow> starts_with (c # a @ t) [x, y]" for x y
    by (cases t; cases a) (auto simp: starts_with_two)
  then show ?thesis by (auto simp: tail_free_def tail_start_def)
qed

lemma tail_free_Nil [simp]: "tail_free [] t"
  by (cases t) (auto simp: tail_free_def)

lemma split_tail_at: "t = [] \<or> tail_start t \<Longrightarrow> tail_free a t \<Longrightarrow> split_rule_tail (a @ t) = (a, t)"
proof (induction a)
  case Nil
  then show ?case by (cases t) (auto simp: split_tail_simps)
qed (simp add: split_tail_simps tail_free_Cons)

lemma split_tail_of: "split_rule_tail s = (a, t) \<Longrightarrow> s = a @ t \<and> (t = [] \<or> tail_start t) \<and> tail_free a t"
proof (induction s arbitrary: a)
  case (Cons c s)
  obtain b u where b: "split_rule_tail s = (b, u)" by (cases "split_rule_tail s")
  show ?case using Cons.IH[of b] Cons.prems b by (auto simp: split_tail_simps tail_free_Cons split: if_splits)
qed (simp add: split_tail_simps)

subsection \<open>Completing twice\<close>

lemma inert_insertions:
  assumes "ins \<in> {lit ''@href'', lit ''@src'', lit ''//@href'', lit ''//@src''}"
    and "p \<in> {[35, 35], [44, 123], lit ''{{'', lit ''@js:'', lit ''<js>'', lit ''@Json:'', lit ''$.'', lit ''@Xpath:''}"
  shows "inert ins p"
  using assms by (auto simp: inert_def lit_def)

lemma complete_prefix: "\<exists>z. complete_from ins seg s = seg @ z"
proof (induction ins seg s rule: complete_from.induct)
  case (2 ins seg c cs)
  show ?case
  proof (cases "is_separator (c # cs)")
    case False
    then obtain z where "complete_from ins (seg @ [c]) cs = (seg @ [c]) @ z" using 2(2) by blast
    then show ?thesis using False by simp
  qed simp
qed simp

lemma complete_first:
  "ins \<noteq> [] \<Longrightarrow> s \<noteq> [] \<Longrightarrow> complete_from ins [] s \<noteq> [] \<and> hd (complete_from ins [] s) \<in> {hd ins, hd s}"
proof (cases s)
  case (Cons c cs)
  then show ?thesis if "ins \<noteq> []"
    using complete_prefix[of ins "[c]" cs] that by (auto simp: is_separator_iff)
qed simp

lemma starts_with_complete:
  "inert ins p \<Longrightarrow> set p \<inter> {37, 38, 124} = {} \<Longrightarrow> starts_with (complete_from ins seg s) p \<Longrightarrow> starts_with (seg @ s) p"
proof (induction ins seg s rule: complete_from.induct)
  case (1 ins seg)
  then show ?case using starts_with_inert[of ins p seg "[]"] by (auto split: if_splits)
next
  case (2 ins seg c cs)
  show ?case
  proof (cases "is_separator (c # cs)")
    case True
    then have c: "c \<notin> set p" using "2.prems"(2) by (auto simp: is_separator_iff)
    define more where "more = take 2 (c # cs) @ complete_from ins [] (drop 1 cs)"
    have "more \<noteq> []" "hd more = c" by (simp_all add: more_def)
    moreover have "starts_with (seg @ (if segment_has_extraction seg then [] else ins) @ more) p"
      using "2.prems"(3) True by (simp add: more_def)
    ultimately have "starts_with seg p"
      using starts_with_short[of seg more p] starts_with_inert[OF "2.prems"(1), of seg more] c by (auto split: if_splits)
    then show ?thesis by (metis append.assoc starts_with_iff)
  next
    case False
    then show ?thesis using 2 by simp
  qed
qed

lemma starts_with_kept:
  "set p \<inter> {37, 38, 124} = {} \<Longrightarrow> p \<noteq> [] \<Longrightarrow> starts_with s p \<Longrightarrow> starts_with (complete_from ins [] s) p"
proof -
  assume p: "set p \<inter> {37, 38, 124} = {}" "starts_with s p"
  then obtain t where s: "s = p @ t" by (auto simp: starts_with_iff)
  have "complete_from ins [] s = complete_from ins p t"
    using complete_quiet[OF quiet_plain[OF p(1)], of ins "[]" t] s by simp
  then show ?thesis using complete_prefix[of ins p t] by (auto simp: starts_with_append)
qed

lemma xpath_kept:
  assumes "ins \<in> (if is_xpath_rule s then {lit ''//@href'', lit ''//@src''} else {lit ''@href'', lit ''@src''})"
  shows "is_xpath_rule (complete_from ins [] s) = is_xpath_rule s"
proof (cases "is_xpath_rule s")
  case True
  have "set (lit ''//'') \<inter> {37, 38, 124} = {}" "set (lit ''@Xpath:'') \<inter> {37, 38, 124} = {}" by (simp_all add: lit_def)
  with True show ?thesis
    using starts_with_kept[of "lit ''//''" s ins] starts_with_kept[of "lit ''@Xpath:''" s ins]
    by (auto simp: is_xpath_rule_def lit_def)
next
  case False
  then have "inert ins (lit ''//'')" "inert ins (lit ''@Xpath:'')"
    using assms by (auto simp: inert_def lit_def)
  moreover have "set (lit ''//'') \<inter> {37, 38, 124} = {}" "set (lit ''@Xpath:'') \<inter> {37, 38, 124} = {}" by (simp_all add: lit_def)
  ultimately show ?thesis
    using False starts_with_complete[of ins _ "[]" s] by (auto simp: is_xpath_rule_def)
qed

lemma completed_simple:
  assumes "ins \<in> {lit ''@href'', lit ''@src'', lit ''//@href'', lit ''//@src''}" "\<not> matches_not_complete (a @ t)"
    and "t = [] \<or> tail_start t" "tail_free a t" "a \<noteq> []"
  shows "tail_free (complete_from ins [] a) t" and "\<not> matches_not_complete (complete_from ins [] a @ t)"
proof -
  let ?r = "complete_from ins [] a"
  note inert = inert_insertions[OF assms(1)]
  have sub: "contains (?r @ u) p \<Longrightarrow> contains (a @ u) p"
    if "p \<in> {[35, 35], [44, 123], lit ''{{'', lit ''@js:'', lit ''<js>'', lit ''@Json:'', lit ''$.'', lit ''@Xpath:''}" for p u
    using contains_complete[OF inert[OF that], of "[]" "[]" a u] by simp
  show free: "tail_free ?r t" using assms(4) sub by (auto simp: tail_free_def)
  have ins: "ins \<noteq> []" "hd ins = 64 \<or> hd ins = 47" using assms(1) by (auto simp: lit_def)
  have r: "?r \<noteq> []" "hd ?r = hd ins \<or> hd ?r = hd a" using complete_first[OF ins(1) assms(5), of] by auto
  have "\<not> starts_with (?r @ t) (lit '':'')"
    using r ins(2) assms(2,5) by (cases ?r; cases a) (auto simp: matches_not_complete_def lit_def)
  moreover have "\<not> starts_with (?r @ t) (lit ''##'')"
    using free r(1) by (cases ?r) (auto simp: tail_free_Cons tail_start_def lit_def)
  ultimately show "\<not> matches_not_complete (?r @ t)"
    using assms(2) sub by (auto simp: matches_not_complete_def)
qed

text \<open>
  C13: Completing a link or an image rule is idempotent: the completed rule is left as it is,
  with operators, tails and XPath rules included.
\<close>

theorem completion_idempotent:
  assumes "rule_type = 2 \<or> rule_type = 3" "auto_complete_rule compile rule pre_rule rule_type = Some completed"
  shows "auto_complete_rule compile completed pre_rule rule_type = Some completed"
proof (cases "completed = rule")
  case False
  obtain a t where split: "split_rule_tail rule = (a, t)" by (cases "split_rule_tail rule")
  note parts = split_tail_of[OF split]
  define ins where "ins = (if rule_type = 2 then if is_xpath_rule a then lit ''//@href'' else lit ''@href''
    else if is_xpath_rule a then lit ''//@src'' else lit ''@src'')"
  have i: "insertion_of rule_type (is_xpath_rule a) = Some ins" using assms(1) by (auto simp: insertion_of_def ins_def)
  have stops: "\<not> matches_not_complete rule" "\<not> (case pre_rule of None \<Rightarrow> False | Some pre \<Rightarrow> pre \<noteq> [] \<and> matches_not_complete pre)"
    and c: "completed = apply_need_complete a ins @ t"
    using assms False split i by (auto simp: auto_complete_rule_def split: if_splits)
  have a: "a \<noteq> []" using c False parts by (auto simp: apply_need_complete_def)
  then have c': "completed = complete_from ins [] a @ t" using c by (simp add: apply_need_complete_def)
  have mem: "ins \<in> {lit ''@href'', lit ''@src'', lit ''//@href'', lit ''//@src''}" "is_insertion ins"
    by (auto simp: ins_def is_insertion_def)
  have free: "tail_free (complete_from ins [] a) t" "\<not> matches_not_complete completed"
    using completed_simple[OF mem(1) _ _ _ a, of t] parts stops(1) c' by auto
  have again: "split_rule_tail completed = (complete_from ins [] a, t)"
    using split_tail_at[OF _ free(1)] parts c' by simp
  have "is_xpath_rule (complete_from ins [] a) = is_xpath_rule a"
    by (rule xpath_kept) (auto simp: ins_def)
  moreover have "complete_from ins [] a \<noteq> []"
    using complete_first[of ins a] mem(1) a by (auto simp: lit_def)
  ultimately show ?thesis
    using again free(2) stops(2) i assms(1) c' complete_again[OF mem(2) quiet.simps(1)[THEN iffD2], of a]
    by (auto simp: auto_complete_rule_def apply_need_complete_def split: option.splits)
qed (use assms in simp)

theorem completion_idempotent_witness:
  "auto_complete_rule (\<lambda>p. Inl []) (lit ''a@href||img.b@href##x'') None 2 = Some (lit ''a@href||img.b@href##x'')"
proof -
  have "auto_complete_rule (\<lambda>p. Inl []) (lit ''a||img.b##x'') None 2 = Some (lit ''a@href||img.b@href##x'')"
    by code_simp
  then show ?thesis by (intro completion_idempotent) simp_all
qed

subsection \<open>Images\<close>

lemma text_rule_complete:
  assumes "set f \<inter> {37, 38, 124} = {}"
  shows "apply_need_complete (f @ lit ''@text'') (lit ''@text'') = f @ lit ''@text''"
proof -
  have "set (f @ lit ''@text'') \<inter> {37, 38, 124} = {}" using assms by (auto simp: lit_def)
  from complete_quiet[OF quiet_plain[OF this], of "lit ''@text''" "[]" "[]"]
  have "complete_from (lit ''@text'') [] (f @ lit ''@text'') = complete_from (lit ''@text'') (f @ lit ''@text'') []" by simp
  moreover have "segment_has_extraction (f @ lit ''@text'')"
    using keyword_extracts[of "lit ''text''" f] by (simp add: extraction_keywords_def lit_def)
  ultimately show ?thesis by (simp add: apply_need_complete_def)
qed

text \<open>
  C33: Completing a text rule panics when an image follows a bracket or another two ASCII
  characters behind a character of three bytes (as all of Chinese): the check of what stands
  before the image slices the rule inside that character.
\<close>

theorem image_completion_panics:
  assumes "utf8_len c = 3" "utf8_len x = 1" "utf8_len y = 1" "set (f @ [c, x, y]) \<inter> {37, 38, 124} = {}"
    and "rule = f @ [c, x, y] @ lit ''img@text''" "\<not> matches_not_complete rule" "split_rule_tail rule = (rule, [])" "\<not> is_xpath_rule rule"
    and "compile (img_pattern False) = Inr rx" "rx_find rx rule = [(f @ [c, x, y], lit ''img@text'')]"
  shows "auto_complete_rule compile rule None 1 = None"
proof -
  have "set (f @ [c, x, y] @ lit ''img'') \<inter> {37, 38, 124} = {}" using assms(4) by (auto simp: lit_def)
  from text_rule_complete[OF this] have complete: "apply_need_complete rule (lit ''@text'') = rule"
    by (simp add: assms(5) lit_def)
  have "take_bytes 4 (rev (f @ [c, x, y])) = None"
    using assms(1-3) by (simp add: take_bytes.simps)
  moreover have "4 \<le> byte_len (f @ [c, x, y])" using assms(1-3) by (simp add: byte_len_def)
  ultimately have "is_valid_img_prefix (f @ [c, x, y]) = None" by (simp add: is_valid_img_prefix_def)
  then have "apply_fix_img_info compile rule False = None"
    using assms(9,10) by (simp add: apply_fix_img_info_def)
  moreover have "rule \<noteq> []" by (simp add: assms(5))
  ultimately show ?thesis
    using assms(6-8) complete by (simp add: auto_complete_rule_def insertion_of_def)
qed

definition img_finder :: compiled_regex where
  \<comment> \<open>for the witness: the image expression on one rule\<close>
  "img_finder = \<lparr>rx_names = [], rx_captures = (\<lambda>s. []), rx_replace_all = (\<lambda>s t. s), rx_replace_first = (\<lambda>s t. s),
     rx_expand = (\<lambda>s t. None), rx_is_match = (\<lambda>s. True), rx_find = (\<lambda>s. [(take (length s - 8) s, drop (length s - 8) s)])\<rparr>"

theorem image_completion_panics_witness:
  "auto_complete_rule (\<lambda>p. Inr img_finder) (lit ''[alt='' @ [23553] @ lit '']@img@text'') None 1 = None"
  by (rule image_completion_panics[of 23553 93 64 "lit ''[alt=''" _ _ img_finder])
    (simp_all add: lit_def utf8_len_def img_finder_def matches_not_complete_def split_tail_simps tail_start_def is_xpath_rule_def)

end
