(* ===== verification/Spec2Isabelle.thy ===== *)
theory Spec2Isabelle
  imports StorageMachine Offline RefreshPlan TtsSlicing TtsQueue RuntimeProps SyncPolicies SyncJournal
    SyncProgressProps SyncPlan ContentLibrary TocProps ContentRules PathFilterProps
    ChainProps LegadoCssProps LegadoRuleProps RuleCompleteProps
begin

text \<open>
  Verification library of Reader-Core-Native, the Rust core of a book reader.

  The program. A host application (iOS, Android, a command line) talks to the core through
  JSON commands. \<open>reader-contract\<close> defines the envelope and the payloads;
  \<open>reader-runtime\<close> runs one worker thread that takes commands from a queue, dispatches each
  to a handler and emits events; a handler that needs the outside world (HTTP, files, cookies)
  parks its request as a host operation and finishes it when the host answers.
  \<open>reader-storage\<close> keeps the tables of the core (shelf, chapter cache, progress,
  downloads, sources and rules) and the pure planning code over chapter indices;
  \<open>reader-domain\<close> holds the rows of those tables. \<open>reader-sync\<close> merges the data of several
  devices through WebDAV, plans backups and remote imports. \<open>reader-content\<close> turns what a book
  source returned into chapters: it normalizes text, applies replace rules, keeps content
  documents and carries reading positions through a refreshed table of contents.
  \<open>reader-rule\<close> evaluates the extraction rules of a book source.

  How the theories follow the code. Every path below is under \<open>src/crates/\<close>.

  \<^item> \<open>Prelude\<close>, \<open>Strings\<close>, \<open>TextOps\<close>: results, machine integers, strings as lists of scalar
    values and the operations of \<open>str\<close>, the hash map, comparators and the stable sort, with the
    lemma collections the other theories use. \<open>SortedMap\<close>: \<open>BTreeMap\<close>, and the locale
    \<open>last_writer\<close> of a conflict rule that is a strict total order on the records of a key.
    \<open>Refinement\<close>: the locale of a forward simulation between deterministic machines.
  \<^item> \<open>Domain\<close> (\<open>reader-domain/src/lib.rs\<close>): the stored rows and the scope matching of
    replace rules.
  \<^item> \<open>StorageTypes\<close>, \<open>Stores\<close>, \<open>Shelf\<close>, \<open>ChapterCache\<close>, \<open>Progress\<close>,
    \<open>DownloadQueue\<close>, \<open>Entities\<close>, \<open>Snapshot\<close> (\<open>reader-storage/src/lib.rs\<close>): one
    theory per table of \<open>InMemoryStorage\<close>; a method is a function from the state to the
    result and the next state, a \<open>HashMap\<close> is an association list in an arbitrary order, so
    that results which may depend on the iteration order are visible as such.
  \<^item> \<open>StorageMachine\<close>: the public interface as one step function over calls, the invariant of
    all tables, and the claims over call sequences.
  \<^item> \<open>UnifiedIndex\<close>, \<open>RefreshPlan\<close>, \<open>Offline\<close>
    (\<open>reader-storage/src/lib.rs\<close>, the unified chapter code): locator canonicalization, restore
    of a reading position, the diff of two chapter indices, offline validation of cached chapters.
  \<^item> \<open>Contract\<close>, \<open>HostTypes\<close> (\<open>reader-contract/src\<close>): the command envelope, error
    codes, capability names, the payload checks of every host capability.
  \<^item> \<open>Tts\<close>, \<open>TtsSlicing\<close>, \<open>TtsQueue\<close> (\<open>reader-runtime/src/tts.rs\<close>): the text
    slicer, the playback queue and its protocol handlers; the queue refines an abstract cursor.
  \<^item> \<open>Runtime\<close>, \<open>RuntimeRuns\<close>, \<open>RuntimeProps\<close>
    (\<open>reader-runtime/src/runtime.rs\<close>): command intake, the worker, the host bus, cancel and
    shutdown as a step relation whose actions are the critical sections of the code; every
    interleaving of API calls and worker steps is a sequence of actions.
  \<^item> \<open>SyncTypes\<close>, \<open>SyncMerge\<close>, \<open>SyncPolicies\<close>, \<open>SyncJournal\<close>
    (\<open>reader-sync/src/lib.rs\<close>): records, snapshots and packages, the merge under the four
    conflict policies, and the change journal whose entries are acknowledged by revision.
  \<^item> \<open>SyncProgress\<close>, \<open>SyncProgressProps\<close> (\<open>lib.rs\<close> and \<open>webdav_conflict.rs\<close>): the three
    orders on progress records, push plans, the audited resolution and the bounded merge.
  \<^item> \<open>SyncBackup\<close>, \<open>SyncRedact\<close>, \<open>SyncImport\<close>, \<open>SyncPlan\<close> (\<open>lib.rs\<close>): backup
    configuration, manifests, retention and restore plans; the redaction of secrets in error
    texts; remote book import; the operations, trace and summary of one WebDAV run.
  \<^item> \<open>ContentText\<close>, \<open>ContentTextProps\<close> (\<open>reader-content/src/normalization.rs\<close> and the
    chapter text functions of \<open>lib.rs\<close>), \<open>ContentDocs\<close>, \<open>ContentLibrary\<close> (documents and
    their library), \<open>TocDiff\<close>, \<open>TocProps\<close> (\<open>diff_toc\<close>, \<open>remap_reading_progress\<close>),
    \<open>ContentRules\<close> (\<open>content_processor.rs\<close>, \<open>chinese.rs\<close>).
  \<^item> \<open>JsonPath\<close>, \<open>JsonPathEval\<close> (\<open>reader-rule/src/lib.rs\<close>, the JSONPath engine): the parsed
    form of a path, filters, slices, functions and their evaluation on a JSON value; \<open>PathScan\<close>,
    \<open>PathFilterParse\<close>, \<open>PathParse\<close>, \<open>PathRules\<close>: its parser with every error message, the
    combination operators and templates. All scanners share the quote state; the locale
    \<open>quote_scanner\<close> and its extensions in \<open>PathPrint\<close> state how a scanner passes over quoted and
    plain text and are interpreted on each of them. \<open>PathProps\<close>, \<open>PathPrint\<close>,
    \<open>PathFilterProps\<close>: the claims.
  \<^item> \<open>RuleTypes\<close>, \<open>RegexSteps\<close>, \<open>RuleChain\<close> (\<open>reader-rule/src/lib.rs\<close>): the errors and
    steps of a rule, regular expression steps with their limits, and the engine that runs a chain
    of steps, each on every value of the step before, with fallback steps. \<open>ChainProps\<close>: stopping
    early changes nothing.
  \<^item> \<open>QuoteScan\<close>, \<open>HtmlDom\<close>, \<open>CssCompat\<close>, \<open>CssParse\<close>, \<open>CssApply\<close> (the same file): the
    quote state all scanners share; the tree of a document and its texts; the selector extensions
    of jsoup (text, attribute and position filters), their parser and their evaluation on top of
    the selectors of the \<open>scraper\<close> crate. \<open>XPathRules\<close>: the check, the rewriting and the result
    of an XPath rule around the XPath crate.
  \<^item> \<open>LegadoCss\<close>, \<open>LegadoRule\<close>, \<open>RuleComplete\<close> (the same file): the CSS pipelines of Legado
    book sources, raw rules (mode prefixes, variables, templates, script segments, the regex
    suffix, the combination operators) and the completion of a rule by the attribute it lacks.
    \<open>NestedText\<close>: texts with quotes and brackets as a nested datatype, and the locales
    \<open>nested_scanner\<close> and \<open>separating_scanner\<close> of a scanner that tracks them, interpreted on the
    pipelines of Legado CSS and on the operators of raw rules. \<open>LegadoCssProps\<close>,
    \<open>LegadoRuleProps\<close>, \<open>RuleCompleteProps\<close>: the claims.

  What the lemmas show. For the storage: the invariant of every table under every call sequence,
  what each query returns, which reports win, that export and import are inverse, that pruning and
  the download queue do the least the policy asks for. For the runtime: each accepted request is
  answered once or still placed in one spot, the worker drains its queue, shutdown ends
  everything. For playback: slices quote the chapter exactly, and the queue is a cursor over them.
  For sync: merges converge in every order, nesting and repetition, a manual merge refuses exactly
  the conflicts, keeping both loses nothing, acknowledging never loses a newer change, truncated
  progress merges lose nothing a full merge keeps. For content: the normalizers' fixed points, the
  diff as matching by occurrence, and where a reading position lands. For JSONPath rules: paths
  printed in bracket notation are read back, slices are those of Python with one exception, the
  combination operators, and that evaluation stays in the document and returns. For the other
  rules: a chain is its steps in order, a Legado CSS rule is parsed as the steps it was written
  from, an index selects its element, operators combine the branches, a stored variable is what
  is read, completing twice completes once, and where completion panics.

  Machine integers, bounds and termination. \<open>u32\<close> and \<open>u64\<close> counters are words and wrap where the
  code wraps; \<open>i64\<close> timestamps are integers because the code only copies and compares them, with
  the saturating arithmetic of the retention code written out; lengths (\<open>usize\<close>) are natural
  numbers, which a vector cannot overflow. Claims over runs state their bound as a hypothesis: the
  runtime claims cover fewer than \<open>2 ^ 64 - 1\<close> host operations and callbacks, the journal claims
  fewer than \<open>2 ^ 64 - 1\<close> changes (the next revision would saturate). No definition uses fuel:
  every loop is structural recursion or has a termination proof, but for the slice loop of a
  JSONPath, which is a partial function (a step of 0 would never end) with its own claim that it
  returns for every path the parser accepts.
  A panic of the program is a value where the code can reach one (\<open>slice_panic\<close>,
  \<open>storage_error\<close>, \<open>PathPanic\<close>, \<open>RulePanic\<close>, \<open>None\<close> in \<open>RuleComplete\<close>); poisoning of a mutex needs such a panic and is not modelled.

  Not modelled, and why. The code of other crates (\<open>serde_json\<close>, \<open>regex\<close>, \<open>scraper\<close>,
  \<open>sxd_xpath\<close>, \<open>rquickjs\<close>, \<open>rusqlite\<close>, \<open>zhhz\<close>) is not under \<open>src/\<close>; where a modelled
  function relies on it, the use is an argument of the definition: the records \<open>html_env\<close>,
  \<open>rule_env\<close> and \<open>compiled_regex\<close> hold what the rules use of the HTML parser and its selectors,
  of the XPath engine, of regular expressions, and of the script evaluator. For that reason these parts are
  left out: \<open>reader-storage/src/sqlite_backend.rs\<close> (SQL statements), \<open>reader-js\<close> (the embedding
  of QuickJS), the pipeline of \<open>reader-content\<close> that
  chains rules and scripts, the EPUB, MOBI and PDF readers of \<open>reader-local-book\<close> (archive and
  document crates), \<open>reader-rss\<close> (feeds through an XML crate). \<open>reader-ffi\<close> is the C interface
  over raw pointers, \<open>tools/reader-cli\<close> and \<open>tools/host-replay\<close> are command-line harnesses.
  \<open>reader-runtime/src/remote.rs\<close> and \<open>webdav_bridge.rs\<close> translate payloads between the modelled
  storage and the host bus; their JSON mapping is left to the codecs the runtime model takes as
  arguments. Derived serialization (\<open>serde\<close>) is modelled only through its effect on the typed
  values the handlers receive.
\<close>

end
